(* ===== verification/Prelude.thy ===== *)
theory Prelude
  imports Main "HOL-Library.Word" "HOL-Library.Multiset" "HOL-Library.AList"
    "HOL-Library.List_Lexorder" "HOL-Library.Char_ord"
begin

section \<open>Prelude: types and generic lemmas of the model\<close>

text \<open>
  Shared material: the machine types of the Go sources, fixed-size byte arrays
  (\<open>[32]byte\<close>, \<open>[16]byte\<close>), results of fallible functions, the few functions of the Go
  packages \<open>strings\<close>, \<open>strconv\<close>, \<open>sort\<close> the sources use, decimal printing, capped logs, and
  the interfaces (locales) several components share.

  A Go \<open>string\<close> is a list of characters (bytes), a \<open>[]byte\<close> a list of 8-bit words. The case and
  space functions of package \<open>strings\<close> are exact on ASCII text; a byte above 127 is left alone.
  A fallible function returns \<open>Inl\<close> the error text or \<open>Inr\<close> the value.
\<close>

named_theorems wire_simps \<open>evaluation of byte and text encodings\<close>

type_synonym byte = "8 word"
type_synonym bytes = "byte list"
type_synonym uint64 = "64 word"
type_synonym int64 = "64 word"
type_synonym error = string
type_synonym 'a result = "error + 'a"

unbundle bit_operations_syntax

subsection \<open>Fixed-size arrays\<close>

text \<open>\<open>'n barr\<close> is Go's array type \<open>[n]byte\<close>.\<close>

typedef (overloaded) ('n::len) barr = "{bs :: bytes. length bs = LENGTH('n)}"
  morphisms arr_bytes Abs_barr
  by (rule exI [of _ "replicate LENGTH('n) 0"]) simp

setup_lifting type_definition_barr

text \<open>\<open>copy(id[:], raw)\<close> into a zero array: a short source leaves zero bytes behind it.\<close>

lift_definition arr_of :: "bytes \<Rightarrow> ('n::len) barr"
  is "\<lambda>raw :: bytes. take LENGTH('n) raw @ replicate (LENGTH('n) - length raw) 0"
  by simp

lemma length_arr_bytes [simp]: "length (arr_bytes (a :: 'n::len barr)) = LENGTH('n)"
  using arr_bytes [of a] by simp

lemma arr_bytes_arr_of [simp]:
  "arr_bytes (arr_of raw :: 'n::len barr) =
    take LENGTH('n) raw @ replicate (LENGTH('n) - length raw) 0"
  by (rule arr_of.rep_eq)

lemma arr_bytes_arr_of_exact:
  "length raw = LENGTH('n) \<Longrightarrow> arr_bytes (arr_of raw :: 'n::len barr) = raw"
  by simp

lemma arr_bytes_eq_iff: "arr_bytes a = arr_bytes b \<longleftrightarrow> a = b"
  by (rule arr_bytes_inject)

lemma arr_of_arr_bytes [simp, code abstype]: "arr_of (arr_bytes a) = a"
  by (simp flip: arr_bytes_eq_iff)

lemma arr_of_eq_iff:
  "length xs = LENGTH('n) \<Longrightarrow> length ys = LENGTH('n) \<Longrightarrow>
    (arr_of xs :: 'n::len barr) = arr_of ys \<longleftrightarrow> xs = ys"
  by (simp flip: arr_bytes_eq_iff)

declare arr_of.rep_eq [code abstract]

instantiation barr :: (len) equal
begin

definition equal_barr :: "'a barr \<Rightarrow> 'a barr \<Rightarrow> bool" where
  "equal_barr a b \<longleftrightarrow> arr_bytes a = arr_bytes b"

instance
  by standard (simp add: equal_barr_def arr_bytes_eq_iff)

end

instantiation barr :: (len) linorder
begin

definition less_eq_barr :: "'a barr \<Rightarrow> 'a barr \<Rightarrow> bool" where
  "less_eq_barr a b \<longleftrightarrow> arr_bytes a \<le> arr_bytes b"

definition less_barr :: "'a barr \<Rightarrow> 'a barr \<Rightarrow> bool" where
  "less_barr a b \<longleftrightarrow> arr_bytes a < arr_bytes b"

instance
  by standard (auto simp: less_eq_barr_def less_barr_def arr_bytes_eq_iff le_less not_less_iff_gr_or_eq)

end

subsection \<open>Results\<close>

fun is_ok :: "'a result \<Rightarrow> bool" where
  "is_ok (Inl _) = False"
| "is_ok (Inr _) = True"

lemma is_ok_iff: "is_ok r \<longleftrightarrow> (\<exists>x. r = Inr x)"
  by (cases r) auto

subsection \<open>Bytes and text\<close>

definition string_bytes :: "string \<Rightarrow> bytes" where
  "string_bytes s = map (\<lambda>c. of_nat (of_char c)) s"

definition bytes_string :: "bytes \<Rightarrow> string" where
  "bytes_string bs = map (\<lambda>b. char_of (unat b)) bs"

lemma of_char_lt_256 [simp]: "(of_char c :: nat) < 256"
  using nat_of_char_less_256 by simp

lemma unat_of_char [simp]: "unat (of_nat (of_char c) :: 8 word) = of_char c"
  by (simp only: unat_of_nat) simp

lemma bytes_string_string_bytes [simp]: "bytes_string (string_bytes s) = s"
  by (simp add: bytes_string_def string_bytes_def comp_def)

lemma length_string_bytes [simp]: "length (string_bytes s) = length s"
  by (simp add: string_bytes_def)

lemma string_bytes_inject [simp]: "string_bytes s = string_bytes t \<longleftrightarrow> s = t"
  by (metis bytes_string_string_bytes)

lemma string_bytes_append [simp]: "string_bytes (s @ t) = string_bytes s @ string_bytes t"
  by (simp add: string_bytes_def)

end
