(* ===== verification/Go_Lib.thy ===== *)
theory Go_Lib
  imports Prelude
begin

section \<open>The parts of the Go standard library the model uses\<close>

text \<open>
  Package \<open>strings\<close> on ASCII text, decimal printing of \<open>strconv\<close> and \<open>fmt\<close>, sorting by a
  comparison function (\<open>sort.Slice\<close>), Go maps as association lists (the list order stands for
  the iteration order of one \<open>range\<close>), and logs that keep their newest entries.
\<close>

subsection \<open>Package strings\<close>

definition lower_char :: "char \<Rightarrow> char" where
  "lower_char c = (let n = of_char c :: nat in if 65 \<le> n \<and> n \<le> 90 then char_of (n + 32) else c)"

definition upper_char :: "char \<Rightarrow> char" where
  "upper_char c = (let n = of_char c :: nat in if 97 \<le> n \<and> n \<le> 122 then char_of (n - 32) else c)"

definition to_lower :: "string \<Rightarrow> string" where
  "to_lower s = map lower_char s"

definition to_upper :: "string \<Rightarrow> string" where
  "to_upper s = map upper_char s"

definition is_space :: "char \<Rightarrow> bool" where
  "is_space c = (let n = of_char c :: nat in n = 32 \<or> 9 \<le> n \<and> n \<le> 13)"

definition trim_right :: "string \<Rightarrow> string" where
  "trim_right s = rev (dropWhile is_space (rev s))"

definition trim_space :: "string \<Rightarrow> string" where
  "trim_space s = trim_right (dropWhile is_space s)"

definition has_prefix :: "string \<Rightarrow> string \<Rightarrow> bool" where
  "has_prefix s p \<longleftrightarrow> take (length p) s = p"

definition has_suffix :: "string \<Rightarrow> string \<Rightarrow> bool" where
  "has_suffix s p \<longleftrightarrow> length p \<le> length s \<and> drop (length s - length p) s = p"

definition trim_prefix :: "string \<Rightarrow> string \<Rightarrow> string" where
  "trim_prefix s p = (if has_prefix s p then drop (length p) s else s)"

definition trim_suffix :: "string \<Rightarrow> string \<Rightarrow> string" where
  "trim_suffix s p = (if has_suffix s p then take (length s - length p) s else s)"

fun split_on :: "char \<Rightarrow> string \<Rightarrow> string list" where
  "split_on c [] = [[]]"
| "split_on c (x # xs) =
     (if x = c then [] # split_on c xs
      else (case split_on c xs of [] \<Rightarrow> [[x]] | y # ys \<Rightarrow> (x # y) # ys))"

fun join :: "string \<Rightarrow> string list \<Rightarrow> string" where
  "join sep [] = []"
| "join sep [x] = x"
| "join sep (x # y # ys) = x @ sep @ join sep (y # ys)"

definition equal_fold :: "string \<Rightarrow> string \<Rightarrow> bool" where
  "equal_fold a b \<longleftrightarrow> to_lower a = to_lower b"

lemma char_of_of_char_lower: "of_char (char_of n :: char) = n mod (256 :: nat)"
  by simp

lemma lower_char_idem [simp]: "lower_char (lower_char c) = lower_char c"
  by (auto simp: lower_char_def Let_def)

lemma lower_upper_char [simp]: "lower_char (upper_char c) = lower_char c"
  by (auto simp: lower_char_def upper_char_def Let_def)

lemma is_space_lower_char [simp]: "is_space (lower_char c) = is_space c"
  by (auto simp: is_space_def lower_char_def Let_def)

lemma is_space_upper_char [simp]: "is_space (upper_char c) = is_space c"
  by (auto simp: is_space_def upper_char_def Let_def)

lemma to_lower_idem [simp]: "to_lower (to_lower s) = to_lower s"
  by (simp add: to_lower_def)

lemma length_to_lower [simp]: "length (to_lower s) = length s"
  by (simp add: to_lower_def)

lemma length_to_upper [simp]: "length (to_upper s) = length s"
  by (simp add: to_upper_def)

lemma to_lower_append [simp]: "to_lower (s @ t) = to_lower s @ to_lower t"
  by (simp add: to_lower_def)

lemma to_upper_append [simp]: "to_upper (s @ t) = to_upper s @ to_upper t"
  by (simp add: to_upper_def)

lemma dropWhile_space_map:
  "(\<And>c. is_space (f c) = is_space c) \<Longrightarrow>
    dropWhile is_space (map f s) = map f (dropWhile is_space s)"
  by (induction s) auto

lemma trim_space_to_lower: "trim_space (to_lower s) = to_lower (trim_space s)"
  by (simp add: trim_space_def trim_right_def to_lower_def dropWhile_space_map rev_map)

text \<open>Text whose first and last characters are not spaces is left alone by \<open>TrimSpace\<close>.\<close>

definition spaceless :: "string \<Rightarrow> bool" where
  "spaceless s \<longleftrightarrow> list_all (\<lambda>c. \<not> is_space c) s"

lemma spaceless_simps [simp]:
  "spaceless []"
  "spaceless (c # s) \<longleftrightarrow> \<not> is_space c \<and> spaceless s"
  "spaceless (s @ t) \<longleftrightarrow> spaceless s \<and> spaceless t"
  by (auto simp: spaceless_def)

lemma spaceless_rev [simp]: "spaceless (rev s) = spaceless s"
  by (simp add: spaceless_def)

lemma dropWhile_spaceless: "spaceless s \<Longrightarrow> dropWhile is_space s = s"
  by (cases s) auto

lemma trim_space_spaceless: "spaceless s \<Longrightarrow> trim_space s = s"
  by (simp add: trim_space_def trim_right_def dropWhile_spaceless)

lemma spaceless_to_lower [simp]: "spaceless (to_lower s) = spaceless s"
  by (simp add: spaceless_def to_lower_def list_all_iff)

lemma has_prefix_append [simp]: "has_prefix (p @ s) p"
  by (simp add: has_prefix_def)

lemma has_prefixE: "has_prefix s p \<Longrightarrow> (\<And>t. s = p @ t \<Longrightarrow> P) \<Longrightarrow> P"
  by (metis append_take_drop_id has_prefix_def)

lemma has_suffix_append [simp]: "has_suffix (s @ p) p"
  by (simp add: has_suffix_def)

lemma has_suffixE: "has_suffix s p \<Longrightarrow> (\<And>t. s = t @ p \<Longrightarrow> P) \<Longrightarrow> P"
  by (metis append_take_drop_id has_suffix_def)

lemma trim_prefix_append [simp]: "trim_prefix (p @ s) p = s"
  by (simp add: trim_prefix_def)

lemma trim_suffix_append [simp]: "trim_suffix (s @ p) p = s"
  by (simp add: trim_suffix_def)

lemma split_on_nonempty [simp]: "split_on c s \<noteq> []"
  by (induction s) (auto split: list.splits)

lemma split_on_single: "c \<notin> set s \<Longrightarrow> split_on c s = [s]"
  by (induction s) auto

lemma split_on_append: "c \<notin> set s \<Longrightarrow> split_on c (s @ c # t) = s # split_on c t"
  by (induction s) auto

subsection \<open>Decimal printing\<close>

fun show_nat :: "nat \<Rightarrow> string" where
  "show_nat n = (if n < 10 then [char_of (48 + n)] else show_nat (n div 10) @ [char_of (48 + n mod 10)])"

declare show_nat.simps [simp del]

definition show_int :: "int \<Rightarrow> string" where
  "show_int i = (if i < 0 then ''-'' @ show_nat (nat (- i)) else show_nat (nat i))"

fun read_nat_acc :: "nat \<Rightarrow> string \<Rightarrow> nat option" where
  "read_nat_acc a [] = Some a"
| "read_nat_acc a (c # s) =
     (let d = of_char c :: nat in if 48 \<le> d \<and> d \<le> 57 then read_nat_acc (10 * a + (d - 48)) s else None)"

lemma read_nat_acc_append:
  "read_nat_acc a (s @ t) = (case read_nat_acc a s of None \<Rightarrow> None | Some b \<Rightarrow> read_nat_acc b t)"
  by (induction s arbitrary: a) (auto simp: Let_def)

lemma read_show_nat: "read_nat_acc 0 (show_nat n) = Some n"
proof (induction n rule: show_nat.induct)
  case (1 n)
  show ?case
  proof (cases "n < 10")
    case True
    then show ?thesis by (subst show_nat.simps) simp
  next
    case False
    with 1 show ?thesis
      by (subst show_nat.simps) (simp add: read_nat_acc_append)
  qed
qed

lemma show_nat_inject [simp]: "show_nat m = show_nat n \<longleftrightarrow> m = n"
  by (metis option.inject read_show_nat)

lemma show_nat_digits: "c \<in> set (show_nat n) \<Longrightarrow> 48 \<le> (of_char c :: nat) \<and> (of_char c :: nat) \<le> 57"
proof (induction n rule: show_nat.induct)
  case (1 n)
  then show ?case
    by (subst (asm) (2) show_nat.simps) (auto split: if_splits)
qed

lemma show_int_inject [simp]: "show_int i = show_int j \<longleftrightarrow> i = j"
proof -
  have neg: "''-'' @ s \<noteq> show_nat n" for s n
  proof
    assume "''-'' @ s = show_nat n"
    then have "CHR ''-'' \<in> set (show_nat n)"
      by (metis append_Cons list.set_intros(1))
    then show False
      using show_nat_digits [of "CHR ''-''" n] by simp
  qed
  show ?thesis
    using neg neg [symmetric] by (auto simp: show_int_def)
qed

subsection \<open>sort.Slice\<close>

fun insert_by :: "('a \<Rightarrow> 'a \<Rightarrow> bool) \<Rightarrow> 'a \<Rightarrow> 'a list \<Rightarrow> 'a list" where
  "insert_by lt x [] = [x]"
| "insert_by lt x (y # ys) = (if lt y x then y # insert_by lt x ys else x # y # ys)"

definition sort_by :: "('a \<Rightarrow> 'a \<Rightarrow> bool) \<Rightarrow> 'a list \<Rightarrow> 'a list" where
  "sort_by lt xs = foldr (insert_by lt) xs []"

lemma sort_by_simps [simp]:
  "sort_by lt [] = []"
  "sort_by lt (x # xs) = insert_by lt x (sort_by lt xs)"
  by (simp_all add: sort_by_def)

lemma mset_insert_by [simp]: "mset (insert_by lt x xs) = add_mset x (mset xs)"
  by (induction xs) auto

lemma mset_sort_by [simp]: "mset (sort_by lt xs) = mset xs"
  by (induction xs) auto

lemma set_sort_by [simp]: "set (sort_by lt xs) = set xs"
  by (metis mset_sort_by set_mset_mset)

lemma length_sort_by [simp]: "length (sort_by lt xs) = length xs"
  by (metis mset_sort_by size_mset)

lemma distinct_sort_by [simp]: "distinct (sort_by lt xs) = distinct xs"
  by (metis mset_sort_by mset_eq_imp_distinct_iff)

lemma set_insert_by [simp]: "set (insert_by lt x xs) = insert x (set xs)"
  by (metis mset_insert_by set_mset_add_mset_insert set_mset_mset)

text \<open>The contract of a comparison function that orders its arguments strictly and totally.\<close>

locale strict_order =
  fixes lt :: "'a \<Rightarrow> 'a \<Rightarrow> bool"
  assumes irrefl: "\<not> lt x x"
    and trans: "lt x y \<Longrightarrow> lt y z \<Longrightarrow> lt x z"
    and total: "x \<noteq> y \<Longrightarrow> lt x y \<or> lt y x"
begin

lemma asym: "lt x y \<Longrightarrow> \<not> lt y x"
  using irrefl trans by blast

lemma sorted_insert_by:
  "sorted_wrt lt xs \<Longrightarrow> x \<notin> set xs \<Longrightarrow> sorted_wrt lt (insert_by lt x xs)"
proof (induction xs)
  case Nil
  then show ?case by simp
next
  case (Cons y ys)
  then show ?case using total [of x y] by (auto intro: trans)
qed

lemma sorted_sort_by: "distinct xs \<Longrightarrow> sorted_wrt lt (sort_by lt xs)"
  by (induction xs) (auto intro: sorted_insert_by)

lemma sorted_distinct: "sorted_wrt lt xs \<Longrightarrow> distinct xs"
  using irrefl by (induction xs) auto

lemma sorted_unique:
  "sorted_wrt lt xs \<Longrightarrow> sorted_wrt lt ys \<Longrightarrow> set xs = set ys \<Longrightarrow> xs = ys"
proof (induction xs arbitrary: ys)
  case Nil
  then show ?case by simp
next
  case (Cons x xs)
  then obtain y ys' where ys: "ys = y # ys'"
    by (cases ys) auto
  have "x = y"
  proof (rule ccontr)
    assume "x \<noteq> y"
    then have "x \<in> set ys'" and "y \<in> set xs"
      using Cons.prems(3) unfolding ys by auto
    then have "lt y x" and "lt x y"
      using Cons.prems(1,2) unfolding ys by auto
    then show False
      using asym by blast
  qed
  moreover have "x \<notin> set xs" and "y \<notin> set ys'"
    using Cons.prems irrefl unfolding ys by auto
  ultimately have "set xs = set ys'"
    using Cons.prems(3) unfolding ys by auto
  then show ?case
    using Cons.IH [of ys'] Cons.prems \<open>x = y\<close> unfolding ys by simp
qed

lemma sort_by_cong:
  "distinct xs \<Longrightarrow> distinct ys \<Longrightarrow> set xs = set ys \<Longrightarrow> sort_by lt xs = sort_by lt ys"
  by (rule sorted_unique) (auto intro: sorted_sort_by)

lemma take_least:
  assumes "distinct xs" "x \<in> set (take k (sort_by lt xs))"
    "y \<in> set xs" "y \<notin> set (take k (sort_by lt xs))"
  shows "lt x y"
proof -
  let ?s = "sort_by lt xs"
  have "sorted_wrt lt (take k ?s @ drop k ?s)"
    using assms(1) by (simp add: sorted_sort_by)
  moreover have "y \<in> set (drop k ?s)"
    using assms(3,4) by (metis Un_iff append_take_drop_id set_append set_sort_by)
  ultimately show ?thesis
    using assms(2) by (auto simp: sorted_wrt_append simp del: append_take_drop_id)
qed

end

subsection \<open>Logs that keep their newest entries\<close>

definition push_capped :: "nat \<Rightarrow> 'a list \<Rightarrow> 'a \<Rightarrow> 'a list" where
  "push_capped n xs x = (let ys = xs @ [x] in if n < length ys then drop (length ys - n) ys else ys)"

lemma length_push_capped: "length xs \<le> n \<Longrightarrow> length (push_capped n xs x) \<le> n"
  by (cases n) (auto simp: push_capped_def Let_def)

lemma last_push_capped: "0 < n \<Longrightarrow> last (push_capped n xs x) = x"
  by (simp add: push_capped_def Let_def)

subsection \<open>Maps\<close>

text \<open>Reading and writing association lists; \<open>distinct (map fst m)\<close> is their invariant.\<close>

lemmas amap_simps = update_conv' delete_conv' distinct_update distinct_delete

lemma map_of_filter_keys:
  "distinct (map fst m) \<Longrightarrow>
    map_of (filter (\<lambda>(k, v). P k v) m) k = (case map_of m k of None \<Rightarrow> None | Some v \<Rightarrow> if P k v then Some v else None)"
proof (induction m)
  case Nil
  then show ?case by simp
next
  case (Cons a m)
  obtain k' v' where a: "a = (k', v')" by (cases a)
  have "map_of m k' = None"
    using Cons.prems by (simp add: a map_of_eq_None_iff)
  with Cons show ?case
    by (auto simp: a split: option.splits)
qed

lemma distinct_filter_keys: "distinct (map fst m) \<Longrightarrow> distinct (map fst (filter P m))"
  by (simp add: distinct_map_filter)

end
