(* ===== verification/Encoding.thy ===== *)
theory Encoding
  imports Go_Lib
begin

section \<open>Encodings: big-endian integers, hexadecimal, base32, base64\<close>

text \<open>
  The packages \<open>encoding/binary\<close>, \<open>encoding/hex\<close>, \<open>encoding/base32\<close> (unpadded) and
  \<open>encoding/base64\<close> (padded standard alphabet, unpadded standard and URL alphabets) as the
  sources use them, built on one pair of functions between numbers and digits in a base.
  The decoders follow the library's leniency: line breaks are skipped, and the bits of the last
  digit that do not belong to a byte are ignored.
\<close>

subsection \<open>Interfaces: codecs and self-delimiting frames\<close>

text \<open>An encoder whose valid inputs the decoder reads back.\<close>

locale codec =
  fixes valid :: "'a \<Rightarrow> bool"
    and enc :: "'a \<Rightarrow> 'b"
    and dec :: "'b \<Rightarrow> 'a option"
  assumes dec_enc: "valid x \<Longrightarrow> dec (enc x) = Some x"
begin

lemma enc_inj: "valid x \<Longrightarrow> valid y \<Longrightarrow> enc x = enc y \<Longrightarrow> x = y"
  by (metis dec_enc option.inject)

end

definition write_all :: "('a \<Rightarrow> 'e + bytes) \<Rightarrow> 'a list \<Rightarrow> bytes" where
  "write_all wr xs = concat (map (\<lambda>x. case wr x of Inl _ \<Rightarrow> [] | Inr bs \<Rightarrow> bs) xs)"

fun read_n :: "(bytes \<Rightarrow> 'f + 'a \<times> bytes) \<Rightarrow> nat \<Rightarrow> bytes \<Rightarrow> 'f + 'a list \<times> bytes" where
  "read_n rd 0 bs = Inr ([], bs)"
| "read_n rd (Suc n) bs =
     (case rd bs of Inl e \<Rightarrow> Inl e
      | Inr (x, rest) \<Rightarrow>
          (case read_n rd n rest of Inl e \<Rightarrow> Inl e | Inr (xs, r) \<Rightarrow> Inr (x # xs, r)))"

text \<open>
  A writer and a reader of frames on a byte stream: the reader returns the frame that was
  written and leaves what follows it.
\<close>

locale frame_codec =
  fixes valid :: "'a \<Rightarrow> bool"
    and wr :: "'a \<Rightarrow> 'e + bytes"
    and rd :: "bytes \<Rightarrow> 'f + 'a \<times> bytes"
  assumes wr_valid: "valid x \<Longrightarrow> \<exists>bs. wr x = Inr bs"
    and rd_wr: "wr x = Inr bs \<Longrightarrow> valid x \<Longrightarrow> rd (bs @ rest) = Inr (x, rest)"
begin

lemma read_n_write_all:
  "list_all valid xs \<Longrightarrow> read_n rd (length xs) (write_all wr xs @ rest) = Inr (xs, rest)"
proof (induction xs)
  case Nil
  then show ?case by (simp add: write_all_def)
next
  case (Cons x xs)
  from Cons.prems obtain bs where bs: "wr x = Inr bs"
    using wr_valid by auto
  have "rd (bs @ (write_all wr xs @ rest)) = Inr (x, write_all wr xs @ rest)"
    using bs Cons.prems by (intro rd_wr) auto
  with Cons bs show ?case by (simp add: write_all_def)
qed

lemma frame_unique:
  "valid x \<Longrightarrow> valid y \<Longrightarrow> wr x = Inr a \<Longrightarrow> wr y = Inr b \<Longrightarrow> a @ r = b @ s \<Longrightarrow> x = y \<and> r = s"
  by (metis Inr_inject prod.inject rd_wr)

end

subsection \<open>Digits in a base\<close>

fun to_digits :: "nat \<Rightarrow> nat \<Rightarrow> nat \<Rightarrow> nat list" where
  "to_digits b 0 v = []"
| "to_digits b (Suc n) v = to_digits b n (v div b) @ [v mod b]"

definition of_digits :: "nat \<Rightarrow> nat list \<Rightarrow> nat" where
  "of_digits b ds = foldl (\<lambda>a d. a * b + d) 0 ds"

lemma of_digits_simps [simp]:
  "of_digits b [] = 0"
  "of_digits b (ds @ [d]) = of_digits b ds * b + d"
  by (simp_all add: of_digits_def)

lemma length_to_digits [simp]: "length (to_digits b n v) = n"
  by (induction n arbitrary: v) auto

lemma of_digits_to_digits: "of_digits b (to_digits b n v) = v mod b ^ n"
proof (induction n arbitrary: v)
  case 0
  then show ?case by simp
next
  case (Suc n)
  then show ?case
    by (simp add: mod_mult2_eq mult.commute)
qed

lemma to_digits_lt: "0 < b \<Longrightarrow> d \<in> set (to_digits b n v) \<Longrightarrow> d < b"
  by (induction n arbitrary: v) auto

lemma to_digits_of_digits:
  "list_all (\<lambda>d. d < b) ds \<Longrightarrow> to_digits b (length ds) (of_digits b ds) = ds"
  by (induction ds rule: rev_induct) auto

lemma of_digits_lt: "list_all (\<lambda>d. d < b) ds \<Longrightarrow> of_digits b ds < b ^ length ds"
proof (induction ds rule: rev_induct)
  case Nil
  then show ?case by simp
next
  case (snoc d ds)
  then have "of_digits b ds + 1 \<le> b ^ length ds" and "d < b"
    by auto
  then have "(of_digits b ds + 1) * b \<le> b ^ length ds * b"
    using mult_le_mono1 by blast
  with \<open>d < b\<close> show ?case
    by (simp add: algebra_simps)
qed

subsection \<open>Big-endian bytes\<close>

definition be_bytes :: "nat \<Rightarrow> nat \<Rightarrow> bytes" where
  "be_bytes n v = map of_nat (to_digits 256 n v)"

definition be_nat :: "bytes \<Rightarrow> nat" where
  "be_nat bs = of_digits 256 (map unat bs)"

lemma length_be_bytes [simp]: "length (be_bytes n v) = n"
  by (simp add: be_bytes_def)

lemma unat_byte_lt [simp]: "unat (b :: byte) < 256"
  using unsigned_less [of b] by simp

lemma map_unat_of_nat_bytes: "list_all (\<lambda>d. d < 256) ds \<Longrightarrow> map (\<lambda>d. unat (of_nat d :: byte)) ds = ds"
  by (induction ds) (auto simp: unat_of_nat)

lemma be_nat_be_bytes: "be_nat (be_bytes n v) = v mod 256 ^ n"
proof -
  have "map (\<lambda>d. unat (of_nat d :: byte)) (to_digits 256 n v) = to_digits 256 n v"
    by (rule map_unat_of_nat_bytes) (auto simp: list_all_iff to_digits_lt)
  then show ?thesis
    by (simp add: be_nat_def be_bytes_def comp_def of_digits_to_digits)
qed

lemma be_bytes_be_nat: "length bs = n \<Longrightarrow> be_bytes n (be_nat bs) = bs"
proof -
  assume n: "length bs = n"
  have "list_all (\<lambda>d. d < 256) (map unat bs)"
    by (auto simp: list_all_iff)
  from to_digits_of_digits [OF this] n show ?thesis
    by (simp add: be_bytes_def be_nat_def comp_def)
qed

lemma be_nat_lt: "be_nat bs < 256 ^ length bs"
  using of_digits_lt [of 256 "map unat bs"] by (simp add: be_nat_def list_all_iff)

definition put_u16 :: "16 word \<Rightarrow> bytes" where "put_u16 w = be_bytes 2 (unat w)"
definition put_u32 :: "32 word \<Rightarrow> bytes" where "put_u32 w = be_bytes 4 (unat w)"
definition put_u64 :: "64 word \<Rightarrow> bytes" where "put_u64 w = be_bytes 8 (unat w)"
definition get_u16 :: "bytes \<Rightarrow> 16 word" where "get_u16 bs = of_nat (be_nat (take 2 bs))"
definition get_u32 :: "bytes \<Rightarrow> 32 word" where "get_u32 bs = of_nat (be_nat (take 4 bs))"
definition get_u64 :: "bytes \<Rightarrow> 64 word" where "get_u64 bs = of_nat (be_nat (take 8 bs))"

lemma length_put [simp]:
  "length (put_u16 a) = 2" "length (put_u32 b) = 4" "length (put_u64 c) = 8"
  by (simp_all add: put_u16_def put_u32_def put_u64_def)

lemma unat_mod_256 [simp]:
  "unat (a :: 16 word) mod 65536 = unat a"
  "unat (b :: 32 word) mod 4294967296 = unat b"
  "unat (c :: 64 word) mod 18446744073709551616 = unat c"
  using unsigned_less [of a, where 'a = nat] unsigned_less [of b, where 'a = nat]
    unsigned_less [of c, where 'a = nat] by simp_all

lemma get_put [simp]:
  "get_u16 (put_u16 a @ rest) = a"
  "get_u32 (put_u32 b @ rest) = b"
  "get_u64 (put_u64 c @ rest) = c"
  by (simp_all add: get_u16_def put_u16_def get_u32_def put_u32_def get_u64_def put_u64_def
      be_nat_be_bytes)

lemma get_put_exact [simp]:
  "get_u16 (put_u16 a) = a" "get_u32 (put_u32 b) = b" "get_u64 (put_u64 c) = c"
  using get_put [of _ "[]"] by simp_all

lemma put_u64_get_u64: "length bs = 8 \<Longrightarrow> put_u64 (get_u64 bs) = bs"
proof -
  assume l: "length bs = 8"
  have "be_nat bs < 18446744073709551616"
    using be_nat_lt [of bs] l by simp
  then show ?thesis
    using l by (simp add: put_u64_def get_u64_def unat_of_nat be_bytes_be_nat)
qed

lemma put_u64_inject [simp]: "put_u64 a = put_u64 b \<longleftrightarrow> a = b"
  by (metis get_put_exact(3))

subsection \<open>Hexadecimal\<close>

definition hex_char :: "nat \<Rightarrow> char" where
  "hex_char d = (if d < 10 then char_of (48 + d) else char_of (87 + d))"

definition hex_encode :: "bytes \<Rightarrow> string" where
  "hex_encode bs = concat (map (\<lambda>b. [hex_char (unat b div 16), hex_char (unat b mod 16)]) bs)"

lemma hex_char_inject: "a < 16 \<Longrightarrow> b < 16 \<Longrightarrow> hex_char a = hex_char b \<longleftrightarrow> a = b"
proof -
  assume "a < 16" "b < 16"
  moreover have "hex_char a = hex_char b \<Longrightarrow> (of_char (hex_char a) :: nat) = of_char (hex_char b)"
    by simp
  ultimately show ?thesis
    by (auto simp: hex_char_def split: if_splits)
qed

lemma hex_byte_inject:
  "hex_char (unat a div 16) = hex_char (unat b div 16) \<Longrightarrow>
   hex_char (unat a mod 16) = hex_char (unat b mod 16) \<Longrightarrow> a = (b :: byte)"
proof -
  assume h: "hex_char (unat a div 16) = hex_char (unat b div 16)"
    "hex_char (unat a mod 16) = hex_char (unat b mod 16)"
  have "unat a div 16 < 16" "unat b div 16 < 16"
    using unat_byte_lt [of a] unat_byte_lt [of b] by linarith+
  with h have "unat a div 16 = unat b div 16" "unat a mod 16 = unat b mod 16"
    by (simp_all add: hex_char_inject)
  then have "unat a = unat b"
    by (metis div_mult_mod_eq)
  then show ?thesis by (rule unsigned_word_eqI)
qed

lemma length_hex_encode [simp]: "length (hex_encode bs) = 2 * length bs"
  by (induction bs) (auto simp: hex_encode_def)

lemma hex_encode_inject [simp]: "hex_encode a = hex_encode b \<longleftrightarrow> a = b"
proof
  show "hex_encode a = hex_encode b \<Longrightarrow> a = b"
  proof (induction a arbitrary: b)
    case Nil
    then show ?case by (cases b) (auto simp: hex_encode_def)
  next
    case (Cons x xs)
    then show ?case
      by (cases b) (auto simp: hex_encode_def intro: hex_byte_inject)
  qed
qed simp

subsection \<open>Alphabets\<close>

definition alphabet_index :: "string \<Rightarrow> char \<Rightarrow> nat option" where
  "alphabet_index al c =
     (let ds = takeWhile (\<lambda>x. x \<noteq> c) al in if length ds < length al then Some (length ds) else None)"

text \<open>The digits of a text, or the position of the first character outside the alphabet.\<close>

fun digits_of :: "string \<Rightarrow> nat \<Rightarrow> string \<Rightarrow> nat + nat list" where
  "digits_of al i [] = Inr []"
| "digits_of al i (c # s) =
     (case alphabet_index al c of None \<Rightarrow> Inl i
      | Some d \<Rightarrow> (case digits_of al (Suc i) s of Inl j \<Rightarrow> Inl j | Inr ds \<Rightarrow> Inr (d # ds)))"

lemma takeWhile_nth_distinct:
  "distinct al \<Longrightarrow> i < length al \<Longrightarrow> takeWhile (\<lambda>x. x \<noteq> al ! i) al = take i al"
  by (rule takeWhile_eq_take_P_nth) (auto simp: nth_eq_iff_index_eq)

lemma alphabet_index_nth:
  "distinct al \<Longrightarrow> i < length al \<Longrightarrow> alphabet_index al (al ! i) = Some i"
  by (simp add: alphabet_index_def takeWhile_nth_distinct)

lemma alphabet_index_SomeD:
  "alphabet_index al c = Some i \<Longrightarrow> i < length al \<and> al ! i = c"
proof -
  assume a: "alphabet_index al c = Some i"
  then have i: "i = length (takeWhile (\<lambda>x. x \<noteq> c) al)" "i < length al"
    by (auto simp: alphabet_index_def Let_def split: if_splits)
  then have "\<not> al ! i \<noteq> c"
    using nth_length_takeWhile [of "\<lambda>x. x \<noteq> c" al] by simp
  with i show ?thesis by simp
qed

lemma digits_of_map_nth:
  "distinct al \<Longrightarrow> list_all (\<lambda>d. d < length al) ds \<Longrightarrow>
    digits_of al i (map (\<lambda>d. al ! d) ds) = Inr ds"
  by (induction ds arbitrary: i) (auto simp: alphabet_index_nth)

lemma digits_of_InrD:
  "digits_of al i s = Inr ds \<Longrightarrow> s = map (\<lambda>d. al ! d) ds \<and> list_all (\<lambda>d. d < length al) ds"
proof (induction s arbitrary: i ds)
  case Nil
  then show ?case by simp
next
  case (Cons c s)
  then show ?case
    by (auto split: option.splits sum.splits dest!: alphabet_index_SomeD)
qed

definition strip_newlines :: "string \<Rightarrow> string" where
  "strip_newlines s = filter (\<lambda>c. c \<noteq> CHR 0x0A \<and> c \<noteq> CHR 0x0D) s"

lemma strip_newlines_id: "spaceless s \<Longrightarrow> strip_newlines s = s"
  by (induction s) (auto simp: strip_newlines_def is_space_def)

subsection \<open>Digit groups\<close>

text \<open>
  Base32 and base64 cut the bytes into groups of \<open>K\<close>, each written as \<open>N\<close> digits of \<open>w\<close>
  bits; a last, shorter group is filled up with zero bits. \<open>fin n\<close> is the number of bytes a
  last group of \<open>n\<close> digits holds.
\<close>

definition group_len :: "nat \<Rightarrow> nat \<Rightarrow> nat" where
  "group_len w k = (8 * k + w - 1) div w"

definition encode_group :: "nat \<Rightarrow> bytes \<Rightarrow> nat list" where
  "encode_group w bs =
     (let n = group_len w (length bs)
      in to_digits (2 ^ w) n (be_nat bs * 2 ^ (w * n - 8 * length bs)))"

definition decode_group :: "nat \<Rightarrow> (nat \<Rightarrow> nat) \<Rightarrow> nat list \<Rightarrow> bytes" where
  "decode_group w fin ds =
     (let k = fin (length ds)
      in be_bytes k (of_digits (2 ^ w) ds div 2 ^ (w * length ds - 8 * k)))"

fun encode_groups :: "nat \<Rightarrow> nat \<Rightarrow> bytes \<Rightarrow> nat list" where
  "encode_groups w K bs =
     (if bs = [] \<or> K = 0 then [] else encode_group w (take K bs) @ encode_groups w K (drop K bs))"

fun decode_groups :: "nat \<Rightarrow> nat \<Rightarrow> (nat \<Rightarrow> nat) \<Rightarrow> nat list \<Rightarrow> bytes" where
  "decode_groups w N fin ds =
     (if ds = [] \<or> N = 0 then []
      else decode_group w fin (take N ds) @ decode_groups w N fin (drop N ds))"

declare encode_groups.simps [simp del] decode_groups.simps [simp del]

lemma groups_Nil [simp]: "encode_groups w K [] = []" "decode_groups w N fin [] = []"
  by (simp_all add: encode_groups.simps decode_groups.simps)

lemma length_encode_group [simp]: "length (encode_group w bs) = group_len w (length bs)"
  by (simp add: encode_group_def Let_def)

lemma encode_groups_lt: "list_all (\<lambda>d. d < 2 ^ w) (encode_groups w K bs)"
proof (induction w K bs rule: encode_groups.induct)
  case (1 w K bs)
  then show ?case
    by (subst encode_groups.simps) (auto simp: list_all_iff encode_group_def Let_def to_digits_lt)
qed

locale digit_groups =
  fixes w K N :: nat and fin :: "nat \<Rightarrow> nat"
  assumes w_pos: "0 < w" and K_pos: "0 < K" and full: "8 * K = w * N"
    and fin_group: "0 < k \<Longrightarrow> k \<le> K \<Longrightarrow> fin (group_len w k) = k"
begin

lemma N_pos: "0 < N"
  using w_pos K_pos full by (cases N) auto

lemma group_len_ge: "8 * k \<le> w * group_len w k"
proof -
  have "8 * k + w - 1 = w * ((8 * k + w - 1) div w) + (8 * k + w - 1) mod w"
    by simp
  moreover have "(8 * k + w - 1) mod w \<le> w - 1"
    using w_pos by (metis Suc_pred' less_Suc_eq_le mod_less_divisor)
  ultimately show ?thesis
    using w_pos unfolding group_len_def by linarith
qed

lemma group_len_K: "group_len w K = N"
proof -
  have "(w * N + (w - 1)) div w = N + (w - 1) div w"
    by (rule div_mult_self4) (use w_pos in simp)
  then show ?thesis
    using full w_pos by (simp add: group_len_def)
qed

lemma group_len_le: "k \<le> K \<Longrightarrow> group_len w k \<le> N"
  unfolding group_len_K [symmetric] group_len_def by (intro div_le_mono) simp

lemma group_len_pos: "0 < k \<Longrightarrow> 0 < group_len w k"
  using group_len_ge [of k] by (cases "group_len w k") auto

lemma group_roundtrip:
  assumes "0 < length bs" "length bs \<le> K"
  shows "decode_group w fin (encode_group w bs) = bs"
proof -
  let ?k = "length bs" and ?n = "group_len w (length bs)"
  have "be_nat bs < 2 ^ (8 * ?k)"
    using be_nat_lt [of bs] by (simp add: power_mult)
  then have "be_nat bs * 2 ^ (w * ?n - 8 * ?k) < 2 ^ (8 * ?k) * 2 ^ (w * ?n - 8 * ?k)"
    by simp
  also have "\<dots> = (2 ^ w) ^ ?n"
    using group_len_ge [of ?k] by (simp flip: power_add power_mult)
  finally show ?thesis
    using assms
    by (simp add: decode_group_def encode_group_def Let_def fin_group of_digits_to_digits be_bytes_be_nat)
qed

lemma groups_roundtrip: "decode_groups w N fin (encode_groups w K bs) = bs"
proof (induction "length bs" arbitrary: bs rule: less_induct)
  case less
  show ?case
  proof (cases "bs = []")
    case True
    then show ?thesis by simp
  next
    case False
    let ?g = "encode_group w (take K bs)" and ?r = "encode_groups w K (drop K bs)"
    have enc: "encode_groups w K bs = ?g @ ?r"
      using False K_pos by (subst encode_groups.simps) simp
    have ne: "?g \<noteq> []"
      using False K_pos group_len_pos [of "length (take K bs)"]
      by (auto simp flip: length_greater_0_conv)
    have cut: "take N (?g @ ?r) = ?g" "drop N (?g @ ?r) = ?r"
    proof -
      have "?r = [] \<or> length ?g = N"
        by (cases "length bs \<le> K") (simp_all add: group_len_K min_def)
      then show "take N (?g @ ?r) = ?g" "drop N (?g @ ?r) = ?r"
        using group_len_le [of "length (take K bs)"] by auto
    qed
    have "decode_groups w N fin (?g @ ?r) = decode_group w fin ?g @ decode_groups w N fin ?r"
      using ne N_pos cut by (subst decode_groups.simps) simp
    also have "decode_group w fin ?g = take K bs"
      using False K_pos by (intro group_roundtrip) auto
    also have "decode_groups w N fin ?r = drop K bs"
      using False K_pos by (intro less) auto
    finally show ?thesis
      by (simp add: enc)
  qed
qed

text \<open>Digits that fill their groups exactly are the encoding of the bytes they decode to.\<close>

lemma full_group_unique:
  assumes "length ds = N" "list_all (\<lambda>d. d < 2 ^ w) ds"
  shows "encode_group w (decode_group w fin ds) = ds" "length (decode_group w fin ds) = K"
proof -
  have k: "fin N = K"
    using fin_group [OF K_pos order_refl] by (simp add: group_len_K)
  have lt: "of_digits (2 ^ w) ds < 256 ^ K"
  proof -
    have "of_digits (2 ^ w) ds < (2 ^ w) ^ N"
      using of_digits_lt [OF assms(2)] assms(1) by simp
    also have "\<dots> = 2 ^ (8 * K)"
      by (simp add: full flip: power_mult)
    finally show ?thesis
      by (simp add: power_mult)
  qed
  then show "length (decode_group w fin ds) = K"
    using assms(1) by (simp add: decode_group_def Let_def k)
  show "encode_group w (decode_group w fin ds) = ds"
    using assms lt to_digits_of_digits [OF assms(2)]
    by (simp add: decode_group_def encode_group_def Let_def k full be_nat_be_bytes group_len_K)
qed

lemma full_groups_unique:
  "length ds = N * m \<Longrightarrow> list_all (\<lambda>d. d < 2 ^ w) ds \<Longrightarrow>
    encode_groups w K (decode_groups w N fin ds) = ds \<and>
    length (decode_groups w N fin ds) = K * m"
proof (induction m arbitrary: ds)
  case 0
  then show ?case by simp
next
  case (Suc m)
  let ?a = "take N ds" and ?b = "drop N ds"
  have la: "length ?a = N" "length ?b = N * m"
    using Suc.prems(1) by simp_all
  have al: "list_all (\<lambda>d. d < 2 ^ w) ?a" "list_all (\<lambda>d. d < 2 ^ w) ?b"
    using Suc.prems(2) by (auto simp: list_all_iff dest: in_set_takeD in_set_dropD)
  note a = full_group_unique [OF la(1) al(1)] and b = Suc.IH [OF la(2) al(2)]
  have dec: "decode_groups w N fin ds = decode_group w fin ?a @ decode_groups w N fin ?b"
    using la(1) N_pos Suc.prems(1) by (subst decode_groups.simps) auto
  have "encode_groups w K (decode_group w fin ?a @ decode_groups w N fin ?b) =
      encode_group w (decode_group w fin ?a) @ encode_groups w K (decode_groups w N fin ?b)"
    using a(2) K_pos by (subst encode_groups.simps) auto
  with a b dec show ?case by simp
qed

end

subsection \<open>Base32 without padding\<close>

text \<open>
  A last group of 2, 4, 5 or 7 digits gives 1, 2, 3 or 4 bytes; one of 1, 3 or 6 digits gives
  none (Go's decoder rejects those lengths only when it expects padding).
\<close>

definition b32_alphabet :: string where
  "b32_alphabet = ''ABCDEFGHIJKLMNOPQRSTUVWXYZ234567''"

definition b32_final :: "nat \<Rightarrow> nat" where
  "b32_final n = (if n = 8 then 5 else if n = 7 then 4 else if n = 5 then 3
                  else if n = 4 then 2 else if n = 2 then 1 else 0)"

definition b32_encode :: "bytes \<Rightarrow> string" where
  "b32_encode bs = map (\<lambda>d. b32_alphabet ! d) (encode_groups 5 5 bs)"

definition b32_decode :: "string \<Rightarrow> bytes result" where
  "b32_decode s =
     (case digits_of b32_alphabet 0 (strip_newlines s) of
        Inl i \<Rightarrow> Inl (''illegal base32 data at input byte '' @ show_nat i)
      | Inr ds \<Rightarrow> Inr (decode_groups 5 8 b32_final ds))"

lemma small_nat_cases: "0 < (k::nat) \<Longrightarrow> k \<le> 5 \<Longrightarrow> k = 1 \<or> k = 2 \<or> k = 3 \<or> k = 4 \<or> k = 5"
  by arith

interpretation b32: digit_groups 5 5 8 b32_final
  by unfold_locales (auto dest!: small_nat_cases simp: group_len_def b32_final_def)

lemma distinct_b32_alphabet: "distinct b32_alphabet"
  by (simp add: b32_alphabet_def)

lemma length_b32_alphabet [simp]: "length b32_alphabet = 32"
  by (simp add: b32_alphabet_def)

lemma b32_alphabet_upper: "c \<in> set b32_alphabet \<Longrightarrow> upper_char (lower_char c) = c \<and> \<not> is_space c"
proof -
  have "list_all (\<lambda>c. upper_char (lower_char c) = c \<and> \<not> is_space c) b32_alphabet"
    unfolding b32_alphabet_def
    by (simp add: upper_char_def lower_char_def is_space_def char_of_eq_iff)
  then show "c \<in> set b32_alphabet \<Longrightarrow> upper_char (lower_char c) = c \<and> \<not> is_space c"
    by (auto simp: list_all_iff)
qed

lemma set_map_nth_alphabet:
  "list_all (\<lambda>d. d < length al) ds \<Longrightarrow> set (map (\<lambda>d. al ! d) ds) \<subseteq> set al"
  by (auto simp: list_all_iff)

lemma set_b32_encode: "set (b32_encode bs) \<subseteq> set b32_alphabet"
  unfolding b32_encode_def using encode_groups_lt [of 5 5 bs]
  by (intro set_map_nth_alphabet) simp

lemma spaceless_b32_encode [simp]: "spaceless (b32_encode bs)"
  using set_b32_encode [of bs] b32_alphabet_upper by (auto simp: spaceless_def list_all_iff)

lemma upper_lower_b32_encode [simp]: "to_upper (to_lower (b32_encode bs)) = b32_encode bs"
proof -
  have "map (upper_char \<circ> lower_char) (b32_encode bs) = b32_encode bs"
    using set_b32_encode [of bs] b32_alphabet_upper by (intro map_idI) auto
  then show ?thesis by (simp add: to_upper_def to_lower_def)
qed

lemma b32_roundtrip [simp]: "b32_decode (b32_encode bs) = Inr bs"
proof -
  have "digits_of b32_alphabet 0 (b32_encode bs) = Inr (encode_groups 5 5 bs)"
    using encode_groups_lt [of 5 5 bs] distinct_b32_alphabet
    by (auto simp: b32_encode_def intro!: digits_of_map_nth)
  then show ?thesis
    by (simp add: b32_decode_def strip_newlines_id b32.groups_roundtrip)
qed

lemma length_b32_encode: "length (b32_encode bs) = length (encode_groups 5 5 bs)"
  by (simp add: b32_encode_def)

lemma b32_decode_unique:
  assumes "b32_decode s = Inr bs" "length (strip_newlines s) = 8 * m"
  shows "b32_encode bs = strip_newlines s"
proof -
  obtain ds where ds: "digits_of b32_alphabet 0 (strip_newlines s) = Inr ds"
      "bs = decode_groups 5 8 b32_final ds"
    using assms(1) by (auto simp: b32_decode_def split: sum.splits)
  note dd = digits_of_InrD [OF ds(1)]
  then have "length ds = 8 * m"
    using assms(2) by simp
  with dd have "encode_groups 5 5 bs = ds"
    using b32.full_groups_unique [of ds m] ds(2) by simp
  with dd show ?thesis by (simp add: b32_encode_def)
qed

text \<open>How many bytes a number of digits gives, and where the digits of a prefix end.\<close>

lemma b32_decode_groups_append:
  "length a = 8 * m \<Longrightarrow> decode_groups 5 8 b32_final (a @ b) =
    decode_groups 5 8 b32_final a @ decode_groups 5 8 b32_final b"
proof (induction m arbitrary: a)
  case 0
  then show ?case by simp
next
  case (Suc m)
  then have "length (drop 8 a) = 8 * m" by simp
  note IH = Suc.IH [OF this]
  have a: "a @ b \<noteq> []" "a \<noteq> []" "take 8 (a @ b) = take 8 a" "drop 8 (a @ b) = drop 8 a @ b"
    using Suc.prems by auto
  have "decode_groups 5 8 b32_final (a @ b) =
      decode_group 5 b32_final (take 8 a) @ decode_groups 5 8 b32_final (drop 8 a @ b)"
    using a(1,3,4) by (subst decode_groups.simps) (simp del: append_is_Nil_conv take_append drop_append)
  also have "\<dots> = (decode_group 5 b32_final (take 8 a) @ decode_groups 5 8 b32_final (drop 8 a))
      @ decode_groups 5 8 b32_final b"
    by (simp add: IH)
  also have "decode_group 5 b32_final (take 8 a) @ decode_groups 5 8 b32_final (drop 8 a) =
      decode_groups 5 8 b32_final a"
    using a(2) by (subst (2) decode_groups.simps) simp
  finally show ?case .
qed

lemma b32_short_group:
  "length ds < 8 \<Longrightarrow> length (decode_groups 5 8 b32_final ds) = b32_final (length ds)"
  by (subst decode_groups.simps) (auto simp: decode_group_def Let_def b32_final_def)

lemma b32_decode_length:
  assumes "list_all (\<lambda>d. d < 32) ds"
  shows "length (decode_groups 5 8 b32_final ds) = 5 * (length ds div 8) + b32_final (length ds mod 8)"
proof -
  let ?a = "take (8 * (length ds div 8)) ds" and ?b = "drop (8 * (length ds div 8)) ds"
  have len: "length ?a = 8 * (length ds div 8)" "length ?b = length ds mod 8"
    using mult_div_mod_eq [of 8 "length ds"] by (auto simp: min_def minus_mult_div_eq_mod)
  have "list_all (\<lambda>d. d < 2 ^ 5) ?a"
    using assms by (auto simp: list_all_iff dest: in_set_takeD)
  from b32.full_groups_unique [OF len(1) this]
  have "length (decode_groups 5 8 b32_final ?a) = 5 * (length ds div 8)" by blast
  moreover have "length (decode_groups 5 8 b32_final ?b) = b32_final (length ds mod 8)"
    using len(2) b32_short_group [of ?b] by simp
  moreover have "decode_groups 5 8 b32_final (?a @ ?b) =
      decode_groups 5 8 b32_final ?a @ decode_groups 5 8 b32_final ?b"
    by (rule b32_decode_groups_append [OF len(1)])
  ultimately show ?thesis by simp
qed

lemma b32_final_lt [simp]: "n < 8 \<Longrightarrow> b32_final n < 5"
  by (simp add: b32_final_def)

subsection \<open>Base64\<close>

definition b64_std_alphabet :: string where
  "b64_std_alphabet = ''ABCDEFGHIJKLMNOPQRSTUVWXYZabcdefghijklmnopqrstuvwxyz0123456789+/''"

definition b64_url_alphabet :: string where
  "b64_url_alphabet = ''ABCDEFGHIJKLMNOPQRSTUVWXYZabcdefghijklmnopqrstuvwxyz0123456789-_''"

definition b64_final :: "nat \<Rightarrow> nat" where
  "b64_final n = (if n = 4 then 3 else if n = 3 then 2 else if n = 2 then 1 else 0)"

definition b64_raw_encode :: "string \<Rightarrow> bytes \<Rightarrow> string" where
  "b64_raw_encode al bs = map (\<lambda>d. al ! d) (encode_groups 6 3 bs)"

text \<open>\<open>RawStdEncoding\<close> and \<open>RawURLEncoding\<close>: a single digit left over is an error.\<close>

definition b64_raw_decode :: "string \<Rightarrow> string \<Rightarrow> bytes option" where
  "b64_raw_decode al s =
     (case digits_of al 0 (strip_newlines s) of
        Inl i \<Rightarrow> None
      | Inr ds \<Rightarrow> if length ds mod 4 = 1 then None else Some (decode_groups 6 4 b64_final ds))"

text \<open>\<open>StdEncoding\<close>: groups of four, the last one filled with \<open>=\<close>.\<close>

definition b64_pad :: "nat \<Rightarrow> string" where
  "b64_pad n = replicate ((4 - n mod 4) mod 4) (CHR ''='')"

definition b64_encode :: "bytes \<Rightarrow> string" where
  "b64_encode bs =
     (let s = b64_raw_encode b64_std_alphabet bs in s @ b64_pad (length s))"

definition b64_decode :: "string \<Rightarrow> bytes option" where
  "b64_decode s =
     (let t = strip_newlines s; body = takeWhile (\<lambda>c. c \<noteq> CHR ''='') t
      in if drop (length body) t = b64_pad (length body)
         then b64_raw_decode b64_std_alphabet body else None)"

interpretation b64: digit_groups 6 3 4 b64_final
  by unfold_locales
    (auto simp: group_len_def b64_final_def dest!: small_nat_cases [OF _ order_trans])

lemma b64_alphabets:
  "distinct b64_std_alphabet" "distinct b64_url_alphabet"
  "length b64_std_alphabet = 64" "length b64_url_alphabet = 64"
  "CHR ''='' \<notin> set b64_std_alphabet" "CHR ''|'' \<notin> set b64_std_alphabet"
  "spaceless b64_std_alphabet" "spaceless b64_url_alphabet"
  by (simp_all add: b64_std_alphabet_def b64_url_alphabet_def is_space_def)

lemma set_b64_raw_encode: "length al = 64 \<Longrightarrow> set (b64_raw_encode al bs) \<subseteq> set al"
  unfolding b64_raw_encode_def using encode_groups_lt [of 6 3 bs]
  by (intro set_map_nth_alphabet) simp

lemma spaceless_subset: "spaceless t \<Longrightarrow> set s \<subseteq> set t \<Longrightarrow> spaceless s"
  by (auto simp: spaceless_def list_all_iff)


lemma length_encode_groups_b64: "length (encode_groups 6 3 bs) mod 4 \<noteq> 1"
proof (induction "length bs" arbitrary: bs rule: less_induct)
  case less
  show ?case
  proof (cases "length bs \<le> 3")
    case True
    then have "encode_groups 6 3 bs = encode_group 6 bs" if "bs \<noteq> []"
      using that by (subst encode_groups.simps) simp
    moreover from True have "length bs = 0 \<or> length bs = 1 \<or> length bs = 2 \<or> length bs = 3"
      by arith
    ultimately show ?thesis
      by (cases "bs = []") (auto simp: group_len_def)
  next
    case False
    then have "encode_groups 6 3 bs = encode_group 6 (take 3 bs) @ encode_groups 6 3 (drop 3 bs)"
      by (subst encode_groups.simps) auto
    moreover have "length (encode_group 6 (take 3 bs)) = 4"
      using False by (simp add: group_len_def min_def)
    moreover have "length (encode_groups 6 3 (drop 3 bs)) mod 4 \<noteq> 1"
      using False by (intro less) auto
    ultimately show ?thesis by simp
  qed
qed

lemma b64_raw_roundtrip:
  assumes "distinct al" "length al = 64" "spaceless al"
  shows "b64_raw_decode al (b64_raw_encode al bs) = Some bs"
proof -
  have "digits_of al 0 (b64_raw_encode al bs) = Inr (encode_groups 6 3 bs)"
    using encode_groups_lt [of 6 3 bs] assms
    by (auto simp: b64_raw_encode_def intro!: digits_of_map_nth)
  moreover have "spaceless (b64_raw_encode al bs)"
    using assms set_b64_raw_encode spaceless_subset by blast
  ultimately show ?thesis
    using length_encode_groups_b64 [of bs]
    by (simp add: b64_raw_decode_def strip_newlines_id b64.groups_roundtrip)
qed

lemmas b64_std_roundtrip [simp] = b64_raw_roundtrip [OF b64_alphabets(1) b64_alphabets(3) b64_alphabets(7)]
lemmas b64_url_roundtrip [simp] = b64_raw_roundtrip [OF b64_alphabets(2) b64_alphabets(4) b64_alphabets(8)]

lemma b64_encode_chars: "CHR ''|'' \<notin> set (b64_encode bs)" "spaceless (b64_encode bs)"
  using set_b64_raw_encode [OF b64_alphabets(3), of bs] b64_alphabets(6)
    spaceless_subset [OF b64_alphabets(7)]
  by (auto simp: b64_encode_def b64_pad_def Let_def spaceless_def list_all_iff is_space_def)

lemma b64_roundtrip [simp]: "b64_decode (b64_encode bs) = Some bs"
proof -
  let ?s = "b64_raw_encode b64_std_alphabet bs"
  have "CHR ''='' \<notin> set ?s"
    using set_b64_raw_encode [OF b64_alphabets(3), of bs] b64_alphabets(5) by auto
  then have "takeWhile (\<lambda>c. c \<noteq> CHR ''='') (?s @ b64_pad (length ?s)) = ?s"
    by (subst takeWhile_append2) (auto simp: b64_pad_def)
  then show ?thesis
    using b64_encode_chars(2) [of bs]
    by (simp add: b64_decode_def b64_encode_def Let_def strip_newlines_id)
qed

lemma b64_encode_inject [simp]: "b64_encode a = b64_encode b \<longleftrightarrow> a = b"
  by (metis b64_roundtrip option.inject)

lemma b32_encode_inject [simp]: "b32_encode a = b32_encode b \<longleftrightarrow> a = b"
  by (metis b32_roundtrip sum.inject(2))

interpretation b32c: codec "\<lambda>_. True" b32_encode "\<lambda>s. case b32_decode s of Inl _ \<Rightarrow> None | Inr b \<Rightarrow> Some b"
  by unfold_locales simp

interpretation b64c: codec "\<lambda>_. True" b64_encode b64_decode
  by unfold_locales simp

end
