(* ===== verification/Crypto_Prims.thy ===== *)
theory Crypto_Prims
  imports Encoding
begin

section \<open>Cryptographic primitives and the clock\<close>

text \<open>
  The cryptographic packages of the Go library are a parameter of the model: a record of
  functions that every definition using them takes as its first argument. What the code relies
  on is stated by the predicates \<open>aead_ok\<close> (AES-GCM opens what it sealed and accepts nothing
  else for the same key, nonce and associated data), \<open>dh_ok\<close> (X25519 agreement) and
  \<open>signs\<close> (a key pair whose signatures verify). HMAC, HKDF and everything above them are
  defined, not assumed. \<open>toy\<close> is a concrete record that satisfies all the laws.

  Times are nanoseconds since the Unix epoch; \<open>unix\<close> is \<open>Time.Unix()\<close> as a 64-bit integer.
\<close>

record crypto =
  sha256 :: "bytes \<Rightarrow> 32 barr"
  ed_sign :: "bytes \<Rightarrow> bytes \<Rightarrow> bytes"
  ed_verify :: "bytes \<Rightarrow> bytes \<Rightarrow> bytes \<Rightarrow> bool"
  x_public :: "bytes \<Rightarrow> bytes"
  x_shared :: "bytes \<Rightarrow> bytes \<Rightarrow> bytes option"
  gcm_seal :: "bytes \<Rightarrow> bytes \<Rightarrow> bytes \<Rightarrow> bytes \<Rightarrow> bytes"
  gcm_open :: "bytes \<Rightarrow> bytes \<Rightarrow> bytes \<Rightarrow> bytes \<Rightarrow> bytes option"

text \<open>\<open>ed25519.PrivateKey.Public\<close>: the last 32 bytes of the 64-byte private key.\<close>

definition ed_public :: "bytes \<Rightarrow> bytes" where
  "ed_public priv = drop 32 priv"

definition signs :: "crypto \<Rightarrow> bytes \<Rightarrow> bool" where
  "signs C priv \<longleftrightarrow> length priv = 64 \<and> (\<forall>m. ed_verify C (ed_public priv) m (ed_sign C priv m))"

definition aead_ok :: "crypto \<Rightarrow> bool" where
  "aead_ok C \<longleftrightarrow>
     (\<forall>k n p a. gcm_open C k n (gcm_seal C k n p a) a = Some p) \<and>
     (\<forall>k n c a p. gcm_open C k n c a = Some p \<longrightarrow> c = gcm_seal C k n p a) \<and>
     (\<forall>k n p a. length (gcm_seal C k n p a) = length p + 16)"

definition dh_ok :: "crypto \<Rightarrow> bool" where
  "dh_ok C \<longleftrightarrow>
     (\<forall>a. length (x_public C a) = 32) \<and>
     (\<forall>a b. x_shared C a (x_public C b) = x_shared C b (x_public C a))"

lemma aead_okD:
  assumes "aead_ok C"
  shows "gcm_open C k n (gcm_seal C k n p a) a = Some p"
    and "gcm_open C k n c a = Some p \<Longrightarrow> c = gcm_seal C k n p a"
    and "length (gcm_seal C k n p a) = length p + 16"
  using assms by (auto simp: aead_ok_def)

lemma dh_okD:
  assumes "dh_ok C"
  shows "length (x_public C a) = 32" "x_shared C a (x_public C b) = x_shared C b (x_public C a)"
  using assms by (auto simp: dh_ok_def)

lemma signsD: "signs C priv \<Longrightarrow> ed_verify C (ed_public priv) m (ed_sign C priv m)"
  by (simp add: signs_def)

lemma length_ed_public: "signs C priv \<Longrightarrow> length (ed_public priv) = 32"
  by (simp add: signs_def ed_public_def)

subsection \<open>A concrete record\<close>

text \<open>
  The hash is the first 32 bytes, a signature is the public key followed by the message, a shared
  secret the bitwise difference of the two keys, and a sealed text carries a 16-byte tag made from
  the first bytes of the key and the last bytes of the nonce and the associated data.
\<close>

definition xor_bytes :: "bytes \<Rightarrow> bytes \<Rightarrow> bytes" where
  "xor_bytes a b = map2 (XOR) a b"

lemma map2_xor_comm: "map2 (XOR) a b = map2 (XOR) b (a :: bytes)"
proof (induction a arbitrary: b)
  case Nil
  then show ?case by simp
next
  case (Cons x a)
  then show ?case by (cases b) (simp_all add: xor.commute)
qed

definition pad32 :: "bytes \<Rightarrow> bytes" where
  "pad32 a = arr_bytes (arr_of a :: 32 barr)"

definition toy_tag :: "bytes \<Rightarrow> bytes \<Rightarrow> bytes \<Rightarrow> bytes" where
  "toy_tag k n a = arr_bytes (arr_of (take 4 k @ take 4 (rev n) @ take 4 (rev a)) :: 16 barr)"

definition toy :: crypto where
  "toy = \<lparr> sha256 = arr_of,
    ed_sign = (\<lambda>priv m. drop 32 priv @ m),
    ed_verify = (\<lambda>pub m s. s = pub @ m),
    x_public = pad32,
    x_shared = (\<lambda>a b. Some (xor_bytes (pad32 a) (pad32 b))),
    gcm_seal = (\<lambda>k n p a. toy_tag k n a @ p),
    gcm_open = (\<lambda>k n c a. if take 16 c = toy_tag k n a then Some (drop 16 c) else None) \<rparr>"

lemma length_pad32 [simp]: "length (pad32 a) = 32"
  by (simp add: pad32_def)

lemma pad32_id [simp]: "length a = 32 \<Longrightarrow> pad32 a = a"
  by (simp add: pad32_def)

lemma pad32_idem [simp]: "pad32 (pad32 a) = pad32 a"
  by simp

lemma length_toy_tag [simp]: "length (toy_tag k n a) = 16"
  by (simp add: toy_tag_def)

lemma toy_aead_ok: "aead_ok toy"
proof -
  have "c = toy_tag k n a @ drop 16 c" if "take 16 c = toy_tag k n a" for c k n a
    using that by (metis append_take_drop_id)
  then show ?thesis by (auto simp: aead_ok_def toy_def)
qed

lemma toy_dh_ok: "dh_ok toy"
  by (simp add: dh_ok_def toy_def xor_bytes_def map2_xor_comm)

lemma toy_signs: "length priv = 64 \<Longrightarrow> signs toy priv"
  by (simp add: signs_def toy_def ed_public_def)

subsection \<open>Time\<close>

type_synonym time = int

definition unix :: "time \<Rightarrow> int64" where
  "unix t = word_of_int (t div 1000000000)"

definition seconds :: "int \<Rightarrow> int" where "seconds s = s * 1000000000"
definition minutes :: "int \<Rightarrow> int" where "minutes m = m * 60000000000"

text \<open>\<open>delta := now.Unix() - t; delta > k || delta < -k\<close>, with the subtraction wrapping.\<close>

definition outside_window :: "int \<Rightarrow> int64 \<Rightarrow> int64 \<Rightarrow> bool" where
  "outside_window k now t = (let delta = sint (now - t) in delta > k \<or> delta < - k)"

lemma sint_range_64: "- 9223372036854775808 \<le> sint (w :: int64)" "sint (w :: int64) < 9223372036854775808"
  using sint_ge [of w] sint_lt [of w] by simp_all

lemma sint_sub_eq:
  fixes a b :: int64
  assumes "- 9223372036854775808 \<le> sint a - sint b" "sint a - sint b < 9223372036854775808"
  shows "sint (a - b) = sint a - sint b"
proof -
  have "sint (a - b) = signed_take_bit 63 (sint a - sint b)"
    using sint_sbintrunc' [of "sint a - sint b", where 'a = 64] by simp
  with assms show ?thesis
    by (simp add: signed_take_bit_int_eq_self)
qed

lemma sint_eq_sub: "sint (b :: int64) = signed_take_bit 63 (sint a - sint (a - b))"
  using sint_sbintrunc' [of "sint a - sint (a - b)", where 'a = 64] by simp

text \<open>Away from the two ends of the 64-bit range the wrapped difference decides the real one.\<close>

lemma outside_window_iff:
  assumes "0 \<le> k" "- 9223372036854775808 + k \<le> sint now" "sint now < 9223372036854775808 - k"
  shows "outside_window k now t \<longleftrightarrow> k < \<bar>sint now - sint t\<bar>"
proof (cases "k < \<bar>sint now - sint t\<bar>")
  case False
  then have "sint (now - t) = sint now - sint t"
    using assms sint_range_64 [of now] sint_range_64 [of t] False
    by (intro sint_sub_eq) (use sint_range_64 [of now] sint_range_64 [of t] in auto)
  with False show ?thesis by (auto simp: outside_window_def Let_def)
next
  case True
  have "outside_window k now t"
  proof (rule ccontr)
    assume "\<not> outside_window k now t"
    then have d: "- k \<le> sint (now - t)" "sint (now - t) \<le> k"
      by (auto simp: outside_window_def Let_def)
    have "sint t = sint now - sint (now - t)"
      unfolding sint_eq_sub [of t now]
      using d assms by (intro signed_take_bit_int_eq_self) auto
    with d True show False by auto
  qed
  with True show ?thesis by simp
qed

end
