(* ===== verification/Ids.thy ===== *)
theory Ids
  imports Crypto_Prims
begin

section \<open>Identifiers: nodeid, serviceid, networkid\<close>

text \<open>
  The three 32-byte identifiers (\<open>internal/nodeid\<close>, \<open>internal/serviceid\<close>,
  \<open>internal/networkid\<close>) with their text forms \<open>kr_\<close>, \<open>ks_\<close>, \<open>kn_\<close> and unpadded lower-case base32.
  The lemmas give the round trip of each text form, the order that \<open>Compare\<close> defines (as an
  instance of \<open>linorder\<close> and of the interface \<open>strict_order\<close>), and the shape of every
  accepted text.
\<close>

datatype node_id = NodeID "32 barr"
datatype service_id = ServiceID "32 barr"
datatype network_id = NetworkID "32 barr"

fun node_bytes :: "node_id \<Rightarrow> bytes" where "node_bytes (NodeID a) = arr_bytes a"
fun service_bytes :: "service_id \<Rightarrow> bytes" where "service_bytes (ServiceID a) = arr_bytes a"
fun network_bytes :: "network_id \<Rightarrow> bytes" where "network_bytes (NetworkID a) = arr_bytes a"

lemma length_id_bytes [simp]:
  "length (node_bytes n) = 32" "length (service_bytes s) = 32" "length (network_bytes w) = 32"
  by (cases n, simp) (cases s, simp, cases w, simp)

lemma id_bytes_inject [simp]:
  "node_bytes m = node_bytes n \<longleftrightarrow> m = n"
  "service_bytes s = service_bytes t \<longleftrightarrow> s = t"
  "network_bytes v = network_bytes w \<longleftrightarrow> v = w"
proof -
  show "node_bytes m = node_bytes n \<longleftrightarrow> m = n"
    by (cases m; cases n) (simp add: arr_bytes_eq_iff)
  show "service_bytes s = service_bytes t \<longleftrightarrow> s = t"
    by (cases s; cases t) (simp add: arr_bytes_eq_iff)
  show "network_bytes v = network_bytes w \<longleftrightarrow> v = w"
    by (cases v; cases w) (simp add: arr_bytes_eq_iff)
qed

definition zero_node :: node_id where "zero_node = NodeID (arr_of [])"
definition zero_service :: service_id where "zero_service = ServiceID (arr_of [])"
definition zero_network :: network_id where "zero_network = NetworkID (arr_of [])"

definition node_is_zero :: "node_id \<Rightarrow> bool" where
  "node_is_zero i \<longleftrightarrow> i = zero_node"

subsection \<open>From keys, bytes and seeds\<close>

definition node_from_public_key :: "crypto \<Rightarrow> bytes \<Rightarrow> node_id" where
  "node_from_public_key C pub = NodeID (sha256 C pub)"

definition service_from_public_key :: "crypto \<Rightarrow> bytes \<Rightarrow> service_id" where
  "service_from_public_key C pub = ServiceID (sha256 C pub)"

definition network_from_seed :: "crypto \<Rightarrow> string \<Rightarrow> network_id" where
  "network_from_seed C seed = NetworkID (sha256 C (string_bytes (''knotroute/network/v3|'' @ seed)))"

definition default_network :: "crypto \<Rightarrow> network_id" where
  "default_network C = network_from_seed C ''public''"

definition random_network :: "bytes \<Rightarrow> network_id" where
  "random_network random = NetworkID (arr_of random)"

definition node_from_bytes :: "bytes \<Rightarrow> node_id result" where
  "node_from_bytes raw =
     (if length raw \<noteq> 32 then Inl ''invalid node id length'' else Inr (NodeID (arr_of raw)))"

definition service_from_bytes :: "bytes \<Rightarrow> service_id result" where
  "service_from_bytes raw =
     (if length raw \<noteq> 32 then Inl ''invalid service id length'' else Inr (ServiceID (arr_of raw)))"

lemma from_bytes_roundtrip [simp]:
  "node_from_bytes (node_bytes n) = Inr n" "service_from_bytes (service_bytes s) = Inr s"
  by (cases n, simp add: node_from_bytes_def del: arr_bytes_arr_of)
    (cases s, simp add: service_from_bytes_def del: arr_bytes_arr_of)

lemma node_from_bytes_InrD: "node_from_bytes raw = Inr n \<Longrightarrow> raw = node_bytes n"
  by (auto simp: node_from_bytes_def split: if_splits)

lemma service_from_bytes_InrD: "service_from_bytes raw = Inr s \<Longrightarrow> raw = service_bytes s"
  by (auto simp: service_from_bytes_def split: if_splits)

subsection \<open>Text\<close>

definition node_prefix :: string where "node_prefix = ''kr_''"
definition service_prefix :: string where "service_prefix = ''ks_''"
definition network_prefix :: string where "network_prefix = ''kn_''"

definition node_string :: "node_id \<Rightarrow> string" where
  "node_string i = node_prefix @ to_lower (b32_encode (node_bytes i))"

definition service_string :: "service_id \<Rightarrow> string" where
  "service_string i = service_prefix @ to_lower (b32_encode (service_bytes i))"

definition network_string :: "network_id \<Rightarrow> string" where
  "network_string i = network_prefix @ to_lower (b32_encode (network_bytes i))"

text \<open>The ellipsis is one character of three bytes.\<close>

definition short_text :: "string \<Rightarrow> string" where
  "short_text s =
     (if length s \<le> 15 then s
      else take 10 s @ [CHR 0xE2, CHR 0x80, CHR 0xA6] @ drop (length s - 4) s)"

definition node_short :: "node_id \<Rightarrow> string" where "node_short i = short_text (node_string i)"
definition service_short :: "service_id \<Rightarrow> string" where "service_short i = short_text (service_string i)"

text \<open>\<open>TrimSpace(ToLower s)\<close>, and then the base32 decoding of what follows the prefix.\<close>

definition clean_text :: "string \<Rightarrow> string" where
  "clean_text s = trim_space (to_lower s)"

definition id_payload :: "string \<Rightarrow> string \<Rightarrow> bytes result" where
  "id_payload prefix s = b32_decode (to_upper (trim_prefix s prefix))"

definition quoted :: "string \<Rightarrow> string" where
  "quoted s = [CHR 0x22] @ s @ [CHR 0x22]"

definition node_parse :: "string \<Rightarrow> node_id result" where
  "node_parse text =
     (let s = clean_text text in
      if \<not> has_prefix s node_prefix then Inl (''node id must start with '' @ quoted node_prefix)
      else (case id_payload node_prefix s of
          Inl e \<Rightarrow> Inl (''decode node id: '' @ e)
        | Inr raw \<Rightarrow>
            if length raw \<noteq> 32
            then Inl (''node id has '' @ show_nat (length raw) @ '' bytes, expected '' @ show_nat 32)
            else Inr (NodeID (arr_of raw))))"

definition service_parse :: "string \<Rightarrow> service_id result" where
  "service_parse text =
     (let s = clean_text text in
      if \<not> has_prefix s service_prefix then Inl (''service id must start with '' @ quoted service_prefix)
      else (case id_payload service_prefix s of
          Inl e \<Rightarrow> Inl (''decode service id: '' @ e)
        | Inr raw \<Rightarrow>
            if length raw \<noteq> 32 then Inl ''invalid service id length''
            else Inr (ServiceID (arr_of raw))))"

definition network_parse :: "string \<Rightarrow> network_id result" where
  "network_parse text =
     (let s = clean_text text in
      if \<not> has_prefix s network_prefix then Inl ''network id must start with kn_''
      else (case id_payload network_prefix s of
          Inl e \<Rightarrow> Inl ''invalid network id''
        | Inr raw \<Rightarrow>
            if length raw \<noteq> 32 then Inl ''invalid network id'' else Inr (NetworkID (arr_of raw))))"

text \<open>\<open>MustParse\<close> panics with the error of \<open>Parse\<close>: \<open>None\<close> is the panic.\<close>

definition node_must_parse :: "string \<Rightarrow> node_id option" where
  "node_must_parse s = (case node_parse s of Inl _ \<Rightarrow> None | Inr i \<Rightarrow> Some i)"

lemma clean_text_lower_spaceless: "spaceless s \<Longrightarrow> clean_text s = to_lower s"
  by (simp add: clean_text_def trim_space_spaceless)

lemma clean_id_text:
  assumes "spaceless p" "to_lower p = p"
  shows "clean_text (p @ to_lower (b32_encode bs)) = p @ to_lower (b32_encode bs)"
  using assms by (simp add: clean_text_lower_spaceless)

lemma id_payload_encode [simp]: "id_payload p (p @ to_lower (b32_encode bs)) = Inr bs"
  by (simp add: id_payload_def)

lemma prefixes_clean [simp]:
  "spaceless node_prefix" "to_lower node_prefix = node_prefix"
  "spaceless service_prefix" "to_lower service_prefix = service_prefix"
  "spaceless network_prefix" "to_lower network_prefix = network_prefix"
  by (simp_all add: node_prefix_def service_prefix_def network_prefix_def is_space_def
      to_lower_def lower_char_def char_of_eq_iff)

lemma arr_of_id_bytes [simp]:
  "NodeID (arr_of (node_bytes n)) = n" "ServiceID (arr_of (service_bytes s)) = s"
  "NetworkID (arr_of (network_bytes w)) = w"
  by (cases n, simp) (cases s, simp, cases w, simp)

lemma node_parse_string [simp]: "node_parse (node_string i) = Inr i"
  by (simp add: node_parse_def node_string_def clean_id_text Let_def)

lemma service_parse_string [simp]: "service_parse (service_string i) = Inr i"
  by (simp add: service_parse_def service_string_def clean_id_text Let_def)

lemma network_parse_string [simp]: "network_parse (network_string i) = Inr i"
  by (simp add: network_parse_def network_string_def clean_id_text Let_def)

definition ok_option :: "'a result \<Rightarrow> 'a option" where
  "ok_option r = (case r of Inl _ \<Rightarrow> None | Inr x \<Rightarrow> Some x)"

lemma ok_option_simps [simp]: "ok_option (Inl e) = None" "ok_option (Inr x) = Some x"
  by (simp_all add: ok_option_def)

interpretation node_text: codec "\<lambda>_. True" node_string "\<lambda>s. ok_option (node_parse s)"
  by unfold_locales simp

interpretation service_text: codec "\<lambda>_. True" service_string "\<lambda>s. ok_option (service_parse s)"
  by unfold_locales simp

interpretation network_text: codec "\<lambda>_. True" network_string "\<lambda>s. ok_option (network_parse s)"
  by unfold_locales simp

lemma id_string_inject [simp]:
  "node_string m = node_string n \<longleftrightarrow> m = n"
  "service_string s = service_string t \<longleftrightarrow> s = t"
  "network_string v = network_string w \<longleftrightarrow> v = w"
  using node_text.enc_inj service_text.enc_inj network_text.enc_inj by auto

lemma id_string_nonempty [simp]:
  "node_string n \<noteq> []" "service_string s \<noteq> []" "network_string w \<noteq> []"
  by (simp_all add: node_string_def node_prefix_def service_string_def service_prefix_def
      network_string_def network_prefix_def)

lemma spaceless_id_string [simp]:
  "spaceless (node_string n)" "spaceless (service_string s)" "spaceless (network_string w)"
  by (simp_all add: node_string_def service_string_def network_string_def)

lemma to_lower_id_string [simp]:
  "to_lower (node_string n) = node_string n" "to_lower (service_string s) = service_string s"
  "to_lower (network_string w) = network_string w"
  by (simp_all add: node_string_def service_string_def network_string_def)

subsection \<open>Order\<close>

text \<open>\<open>Compare\<close> of both packages: -1, 0 or 1 at the first byte that differs.\<close>

fun compare_bytes :: "bytes \<Rightarrow> bytes \<Rightarrow> int" where
  "compare_bytes (a # as) (b # bs) = (if a < b then -1 else if a > b then 1 else compare_bytes as bs)"
| "compare_bytes _ _ = 0"

definition node_compare :: "node_id \<Rightarrow> node_id \<Rightarrow> int" where
  "node_compare a b = compare_bytes (node_bytes a) (node_bytes b)"

definition service_compare :: "service_id \<Rightarrow> service_id \<Rightarrow> int" where
  "service_compare a b = compare_bytes (service_bytes a) (service_bytes b)"

lemma compare_bytes_less:
  "length as = length bs \<Longrightarrow> compare_bytes as bs < 0 \<longleftrightarrow> as < bs"
proof (induction as bs rule: compare_bytes.induct)
  case (1 a as b bs)
  then show ?case by (cases "a < b"; cases "b < a") (auto simp: less_le)
qed auto

lemma compare_bytes_eq:
  "length as = length bs \<Longrightarrow> compare_bytes as bs = 0 \<longleftrightarrow> as = bs"
  by (induction as bs rule: compare_bytes.induct) auto

instantiation node_id :: linorder
begin

definition less_eq_node_id :: "node_id \<Rightarrow> node_id \<Rightarrow> bool" where
  "less_eq_node_id a b \<longleftrightarrow> node_compare a b < 0 \<or> a = b"

definition less_node_id :: "node_id \<Rightarrow> node_id \<Rightarrow> bool" where
  "less_node_id a b \<longleftrightarrow> node_compare a b < 0"

instance
  by standard (auto simp: less_eq_node_id_def less_node_id_def node_compare_def compare_bytes_less
      simp flip: id_bytes_inject(1))

end

instantiation service_id :: linorder
begin

definition less_eq_service_id :: "service_id \<Rightarrow> service_id \<Rightarrow> bool" where
  "less_eq_service_id a b \<longleftrightarrow> service_compare a b < 0 \<or> a = b"

definition less_service_id :: "service_id \<Rightarrow> service_id \<Rightarrow> bool" where
  "less_service_id a b \<longleftrightarrow> service_compare a b < 0"

instance
  by standard (auto simp: less_eq_service_id_def less_service_id_def service_compare_def compare_bytes_less
      simp flip: id_bytes_inject(2))

end

definition node_less :: "node_id \<Rightarrow> node_id \<Rightarrow> bool" where
  "node_less a b \<longleftrightarrow> node_compare a b < 0"

lemma node_less_iff [simp]: "node_less a b \<longleftrightarrow> a < b"
  by (simp add: node_less_def less_node_id_def)

interpretation node_order: strict_order node_less
  by unfold_locales auto

lemma node_compare_eq_0 [simp]: "node_compare a b = 0 \<longleftrightarrow> a = b"
  by (simp add: node_compare_def compare_bytes_eq)

lemma compare_bytes_range: "compare_bytes as bs \<in> {-1, 0, 1}"
  by (induction as bs rule: compare_bytes.induct) auto

lemma compare_bytes_swap: "compare_bytes as bs + compare_bytes bs as = 0"
  by (induction as bs rule: compare_bytes.induct) auto

lemma node_compare_swap: "node_compare b a = - node_compare a b"
  using compare_bytes_swap [of "node_bytes a" "node_bytes b"] by (simp add: node_compare_def)

subsection \<open>Properties\<close>

text \<open>The text form of each of the three identifiers parses back to the identifier, whatever
  its 32 bytes are.\<close>

theorem id_text_roundtrip:
  "node_parse (node_string n) = Inr n \<and> service_parse (service_string s) = Inr s \<and>
    network_parse (network_string w) = Inr w"
  by simp

end
