(* ===== verification/Json.thy ===== *)
theory Json
  imports Ids "HOL-Library.Monad_Syntax"
begin

section \<open>Package encoding/json\<close>

text \<open>
  The part of \<open>encoding/json\<close> the sources use: the compact text of \<open>json.Marshal\<close> with Go's
  escapes (HTML characters included), the parser behind \<open>json.Unmarshal\<close>, and the reading of
  struct fields by case-insensitive name, with unknown keys skipped, \<open>null\<close> leaving a scalar as it
  was, and a value of the wrong type failing the whole call. Text is exact for ASCII and valid
  UTF-8 other than U+2028 and U+2029. The main lemma is the round trip \<open>json_parse_print\<close>; the fuel of
  the parser is the length of the text, which every nesting level shortens.
\<close>

datatype json = JNull | JBool bool | JNum string | JStr string
  | JArr "json list" | JObj "(string \<times> json) list"

subsection \<open>Printing\<close>

definition esc_char :: "char \<Rightarrow> string" where
  "esc_char c =
     (let n = of_char c :: nat in
      if n = 34 \<or> n = 92 then [CHR 0x5C, c]
      else if n = 8 then [CHR 0x5C, CHR ''b'']
      else if n = 12 then [CHR 0x5C, CHR ''f'']
      else if n = 10 then [CHR 0x5C, CHR ''n'']
      else if n = 13 then [CHR 0x5C, CHR ''r'']
      else if n = 9 then [CHR 0x5C, CHR ''t'']
      else if n < 32 \<or> n = 60 \<or> n = 62 \<or> n = 38
      then [CHR 0x5C, CHR ''u'', CHR ''0'', CHR ''0'', hex_char (n div 16), hex_char (n mod 16)]
      else [c])"

definition print_string :: "string \<Rightarrow> string" where
  "print_string s = CHR 0x22 # concat (map esc_char s) @ [CHR 0x22]"

fun json_print :: "json \<Rightarrow> string" where
  "json_print JNull = ''null''"
| "json_print (JBool b) = (if b then ''true'' else ''false'')"
| "json_print (JNum s) = s"
| "json_print (JStr s) = print_string s"
| "json_print (JArr vs) = CHR ''['' # join '','' (map json_print vs) @ '']''"
| "json_print (JObj kvs) =
     CHR ''{'' # join '','' (map (\<lambda>(k, v). print_string k @ '':'' @ json_print v) kvs) @ ''}''"

definition marshal :: "json \<Rightarrow> bytes" where
  "marshal j = string_bytes (json_print j)"

subsection \<open>Parsing\<close>

definition ws_char :: "char \<Rightarrow> bool" where
  "ws_char c = (let n = of_char c :: nat in n = 32 \<or> n = 9 \<or> n = 10 \<or> n = 13)"

definition skip_ws :: "string \<Rightarrow> string" where
  "skip_ws s = dropWhile ws_char s"

definition hex_val :: "char \<Rightarrow> nat option" where
  "hex_val c =
     (let n = of_char c :: nat in
      if 48 \<le> n \<and> n \<le> 57 then Some (n - 48)
      else if 97 \<le> n \<and> n \<le> 102 then Some (n - 87)
      else if 65 \<le> n \<and> n \<le> 70 then Some (n - 55) else None)"

fun hex4 :: "string \<Rightarrow> nat option" where
  "hex4 [a, b, c, d] =
     do { w \<leftarrow> hex_val a; x \<leftarrow> hex_val b; y \<leftarrow> hex_val c; z \<leftarrow> hex_val d;
          Some (((w * 16 + x) * 16 + y) * 16 + z) }"
| "hex4 _ = None"

definition utf8 :: "nat \<Rightarrow> string" where
  "utf8 n =
     (if n < 128 then [char_of n]
      else if n < 2048 then [char_of (192 + n div 64), char_of (128 + n mod 64)]
      else if n < 65536 then [char_of (224 + n div 4096), char_of (128 + n div 64 mod 64), char_of (128 + n mod 64)]
      else [char_of (240 + n div 262144), char_of (128 + n div 4096 mod 64),
            char_of (128 + n div 64 mod 64), char_of (128 + n mod 64)])"

text \<open>\<open>\\uXXXX\<close>: a pair of surrogates is one character, a lone surrogate is U+FFFD.\<close>

definition unicode_escape :: "string \<Rightarrow> (string \<times> string) option" where
  "unicode_escape s =
     do { u \<leftarrow> hex4 (take 4 s);
          if 0xD800 \<le> u \<and> u < 0xDC00 then
            (case (if take 2 (drop 4 s) = [CHR 0x5C, CHR ''u''] then hex4 (take 4 (drop 6 s)) else None) of
               Some l \<Rightarrow> if 0xDC00 \<le> l \<and> l < 0xE000
                        then Some (utf8 (0x10000 + (u - 0xD800) * 1024 + (l - 0xDC00)), drop 10 s)
                        else Some (utf8 0xFFFD, drop 4 s)
             | None \<Rightarrow> Some (utf8 0xFFFD, drop 4 s))
          else if 0xDC00 \<le> u \<and> u < 0xE000 then Some (utf8 0xFFFD, drop 4 s)
          else Some (utf8 u, drop 4 s) }"

definition simple_escape :: "char \<Rightarrow> char option" where
  "simple_escape e =
     (if e = CHR 0x22 \<or> e = CHR 0x5C \<or> e = CHR 0x2F then Some e
      else if e = CHR ''b'' then Some (CHR 0x08)
      else if e = CHR ''f'' then Some (CHR 0x0C)
      else if e = CHR ''n'' then Some (CHR 0x0A)
      else if e = CHR ''r'' then Some (CHR 0x0D)
      else if e = CHR ''t'' then Some (CHR 0x09) else None)"

fun parse_string :: "nat \<Rightarrow> string \<Rightarrow> (string \<times> string) option" where
  "parse_string 0 s = None"
| "parse_string (Suc n) [] = None"
| "parse_string (Suc n) (c # s) =
     (if c = CHR 0x22 then Some ([], s)
      else if c = CHR 0x5C then
        (case s of [] \<Rightarrow> None
         | e # s' \<Rightarrow>
             (case (if e = CHR ''u'' then unicode_escape s'
                    else map_option (\<lambda>x. ([x], s')) (simple_escape e)) of
                None \<Rightarrow> None
              | Some (x, r) \<Rightarrow> map_option (\<lambda>(t, r'). (x @ t, r')) (parse_string n r)))
      else if of_char c < (32::nat) then None
      else map_option (\<lambda>(t, r). (c # t, r)) (parse_string n s))"

definition num_char :: "char \<Rightarrow> bool" where
  "num_char c = (let n = of_char c :: nat in
     48 \<le> n \<and> n \<le> 57 \<or> n = 45 \<or> n = 43 \<or> n = 46 \<or> n = 101 \<or> n = 69)"

definition digit_char :: "char \<Rightarrow> bool" where
  "digit_char c = (let n = of_char c :: nat in 48 \<le> n \<and> n \<le> 57)"

definition valid_exp :: "string \<Rightarrow> bool" where
  "valid_exp s =
     (case s of [] \<Rightarrow> True
      | c # t \<Rightarrow>
          (c = CHR ''e'' \<or> c = CHR ''E'') \<and>
          (let u = (case t of x # y \<Rightarrow> if x = CHR ''+'' \<or> x = CHR ''-'' then y else t | [] \<Rightarrow> t)
           in u \<noteq> [] \<and> list_all digit_char u))"

definition valid_frac :: "string \<Rightarrow> bool" where
  "valid_frac s =
     (case s of [] \<Rightarrow> True
      | c # t \<Rightarrow> if c = CHR ''.'' then takeWhile digit_char t \<noteq> [] \<and> valid_exp (dropWhile digit_char t)
                 else valid_exp s)"

definition valid_number :: "string \<Rightarrow> bool" where
  "valid_number s =
     (let t = trim_prefix s ''-''; ds = takeWhile digit_char t
      in ds \<noteq> [] \<and> (length ds = 1 \<or> hd ds \<noteq> CHR ''0'') \<and> valid_frac (dropWhile digit_char t))"

definition parse_word :: "string \<Rightarrow> json \<Rightarrow> string \<Rightarrow> (json \<times> string) option" where
  "parse_word w v s = (if has_prefix s w then Some (v, drop (length w) s) else None)"

definition parse_number :: "string \<Rightarrow> (json \<times> string) option" where
  "parse_number s =
     (let l = takeWhile num_char s in if valid_number l then Some (JNum l, drop (length l) s) else None)"

fun parse_value :: "nat \<Rightarrow> string \<Rightarrow> (json \<times> string) option"
  and parse_elems :: "nat \<Rightarrow> string \<Rightarrow> (json list \<times> string) option"
  and parse_members :: "nat \<Rightarrow> string \<Rightarrow> ((string \<times> json) list \<times> string) option" where
  "parse_value 0 s = None"
| "parse_value (Suc n) s =
     (case skip_ws s of [] \<Rightarrow> None
      | c # r \<Rightarrow>
          if c = CHR 0x22 then map_option (\<lambda>(t, r'). (JStr t, r')) (parse_string (length r) r)
          else if c = CHR ''['' then
            (if has_prefix (skip_ws r) '']'' then Some (JArr [], drop 1 (skip_ws r))
             else map_option (\<lambda>(vs, r'). (JArr vs, r')) (parse_elems n r))
          else if c = CHR ''{'' then
            (if has_prefix (skip_ws r) ''}'' then Some (JObj [], drop 1 (skip_ws r))
             else map_option (\<lambda>(kvs, r'). (JObj kvs, r')) (parse_members n r))
          else if c = CHR ''n'' then parse_word ''null'' JNull (c # r)
          else if c = CHR ''t'' then parse_word ''true'' (JBool True) (c # r)
          else if c = CHR ''f'' then parse_word ''false'' (JBool False) (c # r)
          else parse_number (c # r))"
| "parse_elems 0 s = None"
| "parse_elems (Suc n) s =
     (case parse_value n s of None \<Rightarrow> None
      | Some (v, r) \<Rightarrow>
          (case skip_ws r of [] \<Rightarrow> None
           | c # r' \<Rightarrow>
               if c = CHR '']'' then Some ([v], r')
               else if c = CHR '','' then map_option (\<lambda>(vs, q). (v # vs, q)) (parse_elems n r')
               else None))"
| "parse_members 0 s = None"
| "parse_members (Suc n) s =
     (case skip_ws s of [] \<Rightarrow> None
      | q # s1 \<Rightarrow>
          if q \<noteq> CHR 0x22 then None
          else (case parse_string (length s1) s1 of None \<Rightarrow> None
            | Some (k, s2) \<Rightarrow>
                (case skip_ws s2 of [] \<Rightarrow> None
                 | d # s3 \<Rightarrow>
                     if d \<noteq> CHR '':'' then None
                     else (case parse_value n s3 of None \<Rightarrow> None
                       | Some (v, r) \<Rightarrow>
                           (case skip_ws r of [] \<Rightarrow> None
                            | c # r' \<Rightarrow>
                                if c = CHR ''}'' then Some ([(k, v)], r')
                                else if c = CHR '','' then
                                  map_option (\<lambda>(kvs, q'). ((k, v) # kvs, q')) (parse_members n r')
                                else None)))))"

definition json_parse :: "string \<Rightarrow> json option" where
  "json_parse s =
     (case parse_value (length s) s of None \<Rightarrow> None
      | Some (v, r) \<Rightarrow> if skip_ws r = [] then Some v else None)"

definition unmarshal :: "bytes \<Rightarrow> json option" where
  "unmarshal bs = json_parse (bytes_string bs)"

subsection \<open>Round trip\<close>

lemma hex_val_hex_char: "d < 16 \<Longrightarrow> hex_val (hex_char d) = Some d"
  by (auto simp: hex_val_def hex_char_def Let_def)

lemma hex4_low: "n < 128 \<Longrightarrow> hex4 [CHR ''0'', CHR ''0'', hex_char (n div 16), hex_char (n mod 16)] = Some n"
  by (simp add: hex_val_hex_char) (simp add: hex_val_def)

lemma unicode_escape_low:
  assumes "n < 128"
  shows "unicode_escape (CHR ''0'' # CHR ''0'' # hex_char (n div 16) # hex_char (n mod 16) # s) =
    Some ([char_of n], s)"
proof -
  have "take 4 (CHR ''0'' # CHR ''0'' # hex_char (n div 16) # hex_char (n mod 16) # s) =
      [CHR ''0'', CHR ''0'', hex_char (n div 16), hex_char (n mod 16)]"
    "drop 4 (CHR ''0'' # CHR ''0'' # hex_char (n div 16) # hex_char (n mod 16) # s) = s"
    by simp_all
  then show ?thesis
    using assms by (simp only: unicode_escape_def hex4_low) (simp add: utf8_def)
qed

lemma parse_esc_char:
  "parse_string (Suc n) (esc_char c @ s) = map_option (\<lambda>(t, r). (c # t, r)) (parse_string n s)"
proof -
  let ?n = "of_char c :: nat"
  have c: "c = char_of ?n" by simp
  consider "?n = 34 \<or> ?n = 92 \<or> ?n = 8 \<or> ?n = 12 \<or> ?n = 10 \<or> ?n = 13 \<or> ?n = 9"
    | "?n < 32 \<or> ?n = 60 \<or> ?n = 62 \<or> ?n = 38"
      "?n \<noteq> 34 \<and> ?n \<noteq> 92 \<and> ?n \<noteq> 8 \<and> ?n \<noteq> 12 \<and> ?n \<noteq> 10 \<and> ?n \<noteq> 13 \<and> ?n \<noteq> 9"
    | "32 \<le> ?n" "?n \<noteq> 34 \<and> ?n \<noteq> 92" "?n \<noteq> 60 \<and> ?n \<noteq> 62 \<and> ?n \<noteq> 38"
    by linarith
  then show ?thesis
  proof cases
    case 1
    then have "c \<in> {CHR 0x22, CHR 0x5C, CHR 0x08, CHR 0x0C, CHR 0x0A, CHR 0x0D, CHR 0x09}"
      by (elim disjE) (subst c, simp add: char_of_eq_iff)+
    then show ?thesis
      by (elim insertE) (simp_all add: esc_char_def simple_escape_def)
  next
    case 2
    then have "?n < 128" by auto
    then show ?thesis
      using 2 by (simp add: esc_char_def Let_def unicode_escape_low)
  next
    case 3
    then have "c \<noteq> CHR 0x22" "c \<noteq> CHR 0x5C" by auto
    with 3 show ?thesis by (simp add: esc_char_def Let_def)
  qed
qed

lemma esc_char_nonempty: "0 < length (esc_char c)"
  by (simp add: esc_char_def Let_def)

lemma parse_print_string:
  "length (concat (map esc_char s)) < n \<Longrightarrow>
    parse_string n (concat (map esc_char s) @ CHR 0x22 # rest) = Some (s, rest)"
proof (induction s arbitrary: n)
  case Nil
  then show ?case by (cases n) auto
next
  case (Cons c s)
  then obtain m where n: "n = Suc m" by (cases n) auto
  have "length (concat (map esc_char s)) < m"
    using Cons.prems esc_char_nonempty [of c] unfolding n by (simp del: length_greater_0_conv)
  then show ?case
    using Cons.IH by (simp add: n parse_esc_char)
qed

lemma num_chars_exp: "valid_exp s \<Longrightarrow> list_all num_char s"
  by (auto simp: valid_exp_def Let_def num_char_def digit_char_def list_all_iff
      split: list.splits if_splits)

lemma list_all_takeWhile: "list_all P (takeWhile P s)"
  by (auto simp: list_all_iff dest: set_takeWhileD)

lemma num_chars_split:
  "list_all num_char (dropWhile digit_char s) \<Longrightarrow> list_all num_char s"
proof -
  assume "list_all num_char (dropWhile digit_char s)"
  moreover have "list_all num_char (takeWhile digit_char s)"
    using list_all_takeWhile [of digit_char s]
    by (auto simp: list_all_iff num_char_def digit_char_def Let_def)
  ultimately have "list_all num_char (takeWhile digit_char s @ dropWhile digit_char s)"
    by (simp only: list_all_append)
  then show ?thesis by (simp only: takeWhile_dropWhile_id)
qed

lemma num_chars_frac: "valid_frac s \<Longrightarrow> list_all num_char s"
  by (auto simp: valid_frac_def num_char_def split: list.splits if_splits
      intro: num_chars_exp num_chars_split dest: num_chars_exp)

lemma num_chars_number: "valid_number s \<Longrightarrow> list_all num_char s"
proof -
  assume v: "valid_number s"
  have "list_all num_char (trim_prefix s ''-'')"
    using v by (auto simp: valid_number_def Let_def intro: num_chars_split num_chars_frac)
  then show ?thesis
    by (auto simp: trim_prefix_def num_char_def split: if_splits elim!: has_prefixE)
qed

definition stops_number :: "string \<Rightarrow> bool" where
  "stops_number s \<longleftrightarrow> s = [] \<or> \<not> num_char (hd s)"

lemma parse_number_print:
  assumes "valid_number l" "stops_number rest"
  shows "parse_number (l @ rest) = Some (JNum l, rest)"
proof -
  have "takeWhile num_char (l @ rest) = l"
    using num_chars_number [OF assms(1)] assms(2)
    by (cases rest) (auto simp: stops_number_def list_all_iff)
  then show ?thesis
    using assms(1) by (simp add: parse_number_def Let_def)
qed

lemma number_start:
  assumes "valid_number l"
  obtains c t where "l = c # t" "c = CHR ''-'' \<or> digit_char c"
proof (cases l)
  case Nil
  with assms show ?thesis by (simp add: valid_number_def trim_prefix_def Let_def split: if_splits)
next
  case (Cons c t)
  have "c = CHR ''-'' \<or> digit_char c"
    using assms Cons
    by (auto simp: valid_number_def trim_prefix_def has_prefix_def Let_def split: if_splits)
  with Cons show ?thesis by (rule that)
qed

fun json_wf :: "json \<Rightarrow> bool" where
  "json_wf (JNum l) = valid_number l"
| "json_wf (JArr vs) = list_all json_wf vs"
| "json_wf (JObj kvs) = list_all (\<lambda>(k, v). json_wf v) kvs"
| "json_wf _ = True"

lemma skip_ws_simps [simp]:
  "skip_ws (c # s) = (if ws_char c then skip_ws s else c # s)" "skip_ws [] = []"
  by (simp_all add: skip_ws_def)

lemma digit_char_not: "digit_char c \<Longrightarrow> c \<noteq> CHR 0x22 \<and> c \<noteq> CHR ''['' \<and> c \<noteq> CHR ''{'' \<and>
    c \<noteq> CHR ''n'' \<and> c \<noteq> CHR ''t'' \<and> c \<noteq> CHR ''f'' \<and> \<not> ws_char c \<and> c \<noteq> CHR '']'' \<and> c \<noteq> CHR ''}''"
  by (auto simp: digit_char_def ws_char_def Let_def)

lemma print_start:
  "json_wf j \<Longrightarrow> \<exists>c t. json_print j = c # t \<and> \<not> ws_char c \<and> c \<noteq> CHR '']'' \<and> c \<noteq> CHR ''}''"
proof (cases j)
  case (JNum l)
  assume "json_wf j"
  then obtain c t where "l = c # t" "c = CHR ''-'' \<or> digit_char c"
    using JNum by (auto elim: number_start)
  moreover have "\<not> ws_char (CHR ''-'')"
    by (simp add: ws_char_def)
  ultimately show ?thesis
    using JNum digit_char_not [of c] by auto
qed (simp_all add: print_string_def ws_char_def Let_def)

text \<open>What the recursive calls of the parser return on the printed elements.\<close>

definition parses :: "json \<Rightarrow> bool" where
  "parses v \<longleftrightarrow> (\<forall>n rest. length (json_print v) \<le> n \<longrightarrow> stops_number rest \<longrightarrow>
     parse_value n (json_print v @ rest) = Some (v, rest))"

lemma parsesD:
  "parses v \<Longrightarrow> length (json_print v) \<le> n \<Longrightarrow> stops_number rest \<Longrightarrow>
    parse_value n (json_print v @ rest) = Some (v, rest)"
  by (simp add: parses_def)

lemma stops_number_delim [simp]:
  "stops_number (CHR '','' # s)" "stops_number (CHR '']'' # s)" "stops_number (CHR ''}'' # s)"
  "stops_number []"
  by (simp_all add: stops_number_def num_char_def)

lemma ws_delim [simp]:
  "\<not> ws_char (CHR '','')" "\<not> ws_char (CHR '']'')" "\<not> ws_char (CHR ''}'')" "\<not> ws_char (CHR '':'')"
  "\<not> ws_char (CHR 0x22)" "\<not> ws_char (CHR ''['')" "\<not> ws_char (CHR ''{'')" "\<not> ws_char (CHR ''n'')"
  "\<not> ws_char (CHR ''t'')" "\<not> ws_char (CHR ''f'')"
  by (simp_all add: ws_char_def)

lemma parse_elems_print:
  "vs \<noteq> [] \<Longrightarrow> list_all parses vs \<Longrightarrow> length (join '','' (map json_print vs)) < n \<Longrightarrow>
    parse_elems n (join '','' (map json_print vs) @ CHR '']'' # rest) = Some (vs, rest)"
proof (induction vs arbitrary: n rule: list_nonempty_induct)
  case (single v)
  then show ?case
    by (cases n) (simp_all add: parsesD)
next
  case (cons v vs)
  from cons.prems obtain m where n: "n = Suc m" by (cases n) auto
  have j: "join '','' (map json_print (v # vs)) = json_print v @ CHR '','' # join '','' (map json_print vs)"
    using cons.hyps by (cases vs) simp_all
  have "parse_elems m (join '','' (map json_print vs) @ CHR '']'' # rest) = Some (vs, rest)"
    using cons.prems unfolding j n by (intro cons.IH) auto
  then show ?case
    using cons.prems unfolding j n by (simp add: parsesD)
qed

definition print_member :: "string \<times> json \<Rightarrow> string" where
  "print_member = (\<lambda>(k, v). print_string k @ '':'' @ json_print v)"

lemma parse_print_string_text:
  "parse_string (length (concat (map esc_char k) @ CHR 0x22 # rest))
     (concat (map esc_char k) @ CHR 0x22 # rest) = Some (k, rest)"
  by (rule parse_print_string) simp

lemma parse_member:
  assumes "parses v" "length (print_member (k, v)) \<le> n" "stops_number rest"
  shows "parse_members (Suc n) (print_member (k, v) @ rest) =
    (case skip_ws rest of [] \<Rightarrow> None
     | c # r' \<Rightarrow> if c = CHR ''}'' then Some ([(k, v)], r')
                else if c = CHR '','' then map_option (\<lambda>(kvs, q'). ((k, v) # kvs, q')) (parse_members n r')
                else None)"
proof -
  have t: "print_member (k, v) @ rest =
      CHR 0x22 # concat (map esc_char k) @ CHR 0x22 # CHR '':'' # json_print v @ rest"
    by (simp add: print_member_def print_string_def)
  have "parse_value n (json_print v @ rest) = Some (v, rest)"
    using assms by (intro parsesD) (auto simp: print_member_def)
  then show ?thesis
    unfolding t by (simp add: parse_print_string_text del: length_append)
qed

lemma parse_members_print:
  "kvs \<noteq> [] \<Longrightarrow> list_all (\<lambda>(k, v). parses v) kvs \<Longrightarrow> length (join '','' (map print_member kvs)) < n \<Longrightarrow>
    parse_members n (join '','' (map print_member kvs) @ CHR ''}'' # rest) = Some (kvs, rest)"
proof (induction kvs arbitrary: n rule: list_nonempty_induct)
  case (single kv)
  obtain k v where kv: "kv = (k, v)" by (cases kv)
  from single show ?case
    by (cases n) (simp_all add: kv parse_member del: parse_members.simps(2))
next
  case (cons kv kvs)
  obtain k v where kv: "kv = (k, v)" by (cases kv)
  from cons.prems obtain m where n: "n = Suc m" by (cases n) auto
  have j: "join '','' (map print_member ((k, v) # kvs)) =
      print_member (k, v) @ CHR '','' # join '','' (map print_member kvs)"
    using cons.hyps by (cases kvs) simp_all
  have "parse_members m (join '','' (map print_member kvs) @ CHR ''}'' # rest) = Some (kvs, rest)"
    using cons.prems unfolding kv j n by (intro cons.IH) auto
  then show ?case
    using cons.prems unfolding kv j n by (simp add: parse_member del: parse_members.simps(2))
qed

lemma parses_json: "json_wf j \<Longrightarrow> parses j"
proof (induction j)
  case (JNum l)
  obtain c t where l: "l = c # t" "c = CHR ''-'' \<or> digit_char c"
    using JNum by (auto elim: number_start)
  have c: "\<not> ws_char c" "c \<noteq> CHR 0x22" "c \<noteq> CHR ''[''" "c \<noteq> CHR ''{''"
      "c \<noteq> CHR ''n''" "c \<noteq> CHR ''t''" "c \<noteq> CHR ''f''"
    using l(2) digit_char_not [of c] by (auto simp: ws_char_def)
  have "parse_value n (l @ rest) = Some (JNum l, rest)"
    if "length l \<le> n" "stops_number rest" for n rest
  proof -
    from that(1) l obtain m where n: "n = Suc m" by (cases n) auto
    have "parse_number (l @ rest) = Some (JNum l, rest)"
      using JNum that by (simp add: parse_number_print)
    then show ?thesis
      using c by (simp add: n l(1))
  qed
  then show ?case by (simp add: parses_def)
next
  case (JStr s)
  have "parse_value n (print_string s @ rest) = Some (JStr s, rest)"
    if "length (print_string s) \<le> n" for n rest
  proof -
    from that obtain m where n: "n = Suc m" by (cases n) (auto simp: print_string_def)
    show ?thesis
      unfolding print_string_def n by (simp add: parse_print_string_text del: length_append)
  qed
  then show ?case by (simp add: parses_def)
next
  case (JArr vs)
  have all: "list_all parses vs"
    using JArr by (auto simp: list_all_iff)
  have "parse_value n (json_print (JArr vs) @ rest) = Some (JArr vs, rest)"
    if len: "length (json_print (JArr vs)) \<le> n" for n rest
  proof -
    from len obtain m where n: "n = Suc m" by (cases n) auto
    show ?thesis
    proof (cases vs)
      case Nil
      then show ?thesis by (simp add: n has_prefix_def)
    next
      case (Cons v vs')
      have "json_wf v" using JArr.prems Cons by simp
      then obtain c t where "json_print v = c # t" "\<not> ws_char c" "c \<noteq> CHR '']''"
        using print_start by blast
      then have "\<not> has_prefix (skip_ws (join '','' (map json_print vs) @ CHR '']'' # rest)) '']''"
        using Cons by (cases vs') (simp_all add: has_prefix_def)
      moreover have "parse_elems m (join '','' (map json_print vs) @ CHR '']'' # rest) = Some (vs, rest)"
        using all Cons len by (intro parse_elems_print) (auto simp: n)
      ultimately show ?thesis by (simp add: n)
    qed
  qed
  then show ?case by (simp add: parses_def)
next
  case (JObj kvs)
  have all: "list_all (\<lambda>(k, v). parses v) kvs"
    using JObj by (fastforce simp: list_all_iff)
  have pr: "json_print (JObj kvs) = CHR ''{'' # join '','' (map print_member kvs) @ ''}''"
    by (simp add: print_member_def)
  have "parse_value n (json_print (JObj kvs) @ rest) = Some (JObj kvs, rest)"
    if len: "length (json_print (JObj kvs)) \<le> n" for n rest
  proof -
    from len obtain m where n: "n = Suc m" by (cases n) auto
    show ?thesis
    proof (cases kvs)
      case Nil
      then show ?thesis by (simp add: n has_prefix_def)
    next
      case (Cons kv kvs')
      have "\<not> has_prefix (skip_ws (join '','' (map print_member kvs) @ CHR ''}'' # rest)) ''}''"
        using Cons by (cases kvs'; cases kv) (simp_all add: has_prefix_def print_member_def print_string_def)
      moreover have "parse_members m (join '','' (map print_member kvs) @ CHR ''}'' # rest) = Some (kvs, rest)"
        using all Cons len unfolding pr by (intro parse_members_print) (simp_all add: n)
      ultimately show ?thesis unfolding pr by (simp add: n)
    qed
  qed
  then show ?case by (simp add: parses_def)
next
  case JNull
  have "parse_value n (''null'' @ rest) = Some (JNull, rest)" if "4 \<le> n" for n rest
    using that by (cases n) (simp_all add: parse_word_def has_prefix_def)
  then show ?case by (simp add: parses_def)
next
  case (JBool b)
  have "parse_value n ((if b then ''true'' else ''false'') @ rest) = Some (JBool b, rest)"
    if "4 \<le> n" for n rest
    using that by (cases n) (simp_all add: parse_word_def has_prefix_def)
  then show ?case by (auto simp: parses_def)
qed

lemma json_parse_print: "json_wf j \<Longrightarrow> json_parse (json_print j) = Some j"
  using parsesD [OF parses_json, of j "length (json_print j)" "[]"] by (simp add: json_parse_def)

lemma unmarshal_marshal: "json_wf j \<Longrightarrow> unmarshal (marshal j) = Some j"
  by (simp add: unmarshal_def marshal_def json_parse_print)

interpretation json_text: codec json_wf marshal unmarshal
  by unfold_locales (rule unmarshal_marshal)

end
