(* ===== verification/Json_Fields.thy ===== *)
theory Json_Fields
  imports Json
begin

section \<open>Struct fields in JSON objects\<close>

text \<open>
  How \<open>json.Marshal\<close> and \<open>json.Unmarshal\<close> treat the fields of a struct: numbers with their
  ranges, strings, booleans, string slices, \<open>map[string]string\<close>, \<open>omitempty\<close>; the text forms of the
  identifiers (their \<open>MarshalJSON\<close> and \<open>UnmarshalJSON\<close>). \<open>field\<close> reads one struct field of an
  object; the round trip of a struct is then one equation per field.
\<close>

subsection \<open>Numbers\<close>

definition parse_int :: "string \<Rightarrow> int option" where
  "parse_int s =
     (if has_prefix s ''-'' then map_option (\<lambda>n. - int n) (read_nat_acc 0 (drop 1 s))
      else map_option int (read_nat_acc 0 s))"

definition ju_int :: "json \<Rightarrow> int option" where
  "ju_int j = (case j of JNum l \<Rightarrow>
       (case parse_int l of Some i \<Rightarrow>
          if - 9223372036854775808 \<le> i \<and> i < 9223372036854775808 then Some i else None
        | None \<Rightarrow> None) | _ \<Rightarrow> None)"

definition ju_uint64 :: "json \<Rightarrow> uint64 option" where
  "ju_uint64 j = (case j of JNum l \<Rightarrow>
       if has_prefix l ''-'' then None
       else (case read_nat_acc 0 l of Some n \<Rightarrow>
          if n < 18446744073709551616 then Some (of_nat n) else None
        | None \<Rightarrow> None) | _ \<Rightarrow> None)"

definition ju_int64 :: "json \<Rightarrow> int64 option" where
  "ju_int64 j = map_option word_of_int (ju_int j)"

definition jm_int :: "int \<Rightarrow> json" where "jm_int i = JNum (show_int i)"
definition jm_int64 :: "int64 \<Rightarrow> json" where "jm_int64 w = JNum (show_int (sint w))"
definition jm_uint64 :: "uint64 \<Rightarrow> json" where "jm_uint64 w = JNum (show_nat (unat w))"

definition go_int :: "int \<Rightarrow> bool" where
  "go_int i \<longleftrightarrow> - 9223372036854775808 \<le> i \<and> i < 9223372036854775808"

lemma show_nat_nonempty [simp]: "show_nat n \<noteq> []"
  by (subst show_nat.simps) simp

lemma show_nat_no_minus: "\<not> has_prefix (show_nat n) ''-''"
proof
  assume "has_prefix (show_nat n) ''-''"
  then obtain t where "show_nat n = CHR ''-'' # t"
    by (auto elim: has_prefixE)
  then show False
    using show_nat_digits [of "CHR ''-''" n] by simp
qed

lemma parse_show_int [simp]: "parse_int (show_int i) = Some i"
proof (cases "i < 0")
  case True
  then show ?thesis
    by (simp add: parse_int_def show_int_def has_prefix_def read_show_nat)
next
  case False
  then show ?thesis
    using show_nat_no_minus by (simp add: parse_int_def show_int_def read_show_nat)
qed

lemma ju_jm [simp]:
  "go_int i \<Longrightarrow> ju_int (jm_int i) = Some i"
  "ju_int64 (jm_int64 w) = Some w"
  "ju_uint64 (jm_uint64 v) = Some v"
proof -
  show "go_int i \<Longrightarrow> ju_int (jm_int i) = Some i"
    by (simp add: ju_int_def jm_int_def go_int_def)
  show "ju_int64 (jm_int64 w) = Some w"
    using sint_range_64 [of w] by (simp add: ju_int64_def ju_int_def jm_int64_def)
  show "ju_uint64 (jm_uint64 v) = Some v"
    using show_nat_no_minus unsigned_less [of v, where 'a = nat]
    by (simp add: ju_uint64_def jm_uint64_def read_show_nat)
qed

lemma digit_show_nat: "list_all digit_char (show_nat n)"
  using show_nat_digits [of _ n] by (auto simp: list_all_iff digit_char_def Let_def)

lemma show_nat_head: "n \<noteq> 0 \<Longrightarrow> hd (show_nat n) \<noteq> CHR ''0''"
proof (induction n rule: show_nat.induct)
  case (1 n)
  show ?case
  proof (cases "n < 10")
    case True
    with 1 show ?thesis by (subst show_nat.simps) (simp add: char_of_eq_iff take_bit_eq_mod)
  next
    case False
    then have "n div 10 \<noteq> 0" by auto
    with 1 False show ?thesis by (subst show_nat.simps) simp
  qed
qed

lemma takeWhile_all: "list_all P s \<Longrightarrow> takeWhile P s = s \<and> dropWhile P s = []"
  by (induction s) auto

lemma while_show_nat [simp]:
  "takeWhile digit_char (show_nat n) = show_nat n" "dropWhile digit_char (show_nat n) = []"
  using takeWhile_all [OF digit_show_nat [of n]] by simp_all

lemma valid_digits: "valid_frac [] \<and> ((length (show_nat n) = 1) \<or> hd (show_nat n) \<noteq> CHR ''0'')"
proof -
  have "length (show_nat 0) = 1" by (subst show_nat.simps) simp
  then show ?thesis using show_nat_head [of n] by (cases "n = 0") (simp_all add: valid_frac_def)
qed

lemma trim_minus_show_nat: "trim_prefix (show_nat n) ''-'' = show_nat n"
  using show_nat_no_minus by (simp add: trim_prefix_def)

lemma valid_number_show_nat [simp]: "valid_number (show_nat n)"
  using valid_digits [of n]
  by (simp add: valid_number_def Let_def trim_minus_show_nat)

lemma valid_number_show_int [simp]: "valid_number (show_int i)"
proof (cases "i < 0")
  case True
  have "trim_prefix (''-'' @ show_nat (nat (- i))) ''-'' = show_nat (nat (- i))"
    by (rule trim_prefix_append)
  then show ?thesis
    using True valid_digits [of "nat (- i)"]
    unfolding valid_number_def show_int_def Let_def by simp
next
  case False
  then show ?thesis by (simp add: show_int_def)
qed

lemma json_wf_jm [simp]: "json_wf (jm_int i)" "json_wf (jm_int64 w)" "json_wf (jm_uint64 v)"
  by (simp_all add: jm_int_def jm_int64_def jm_uint64_def)

subsection \<open>Other field types\<close>

definition ju_str :: "json \<Rightarrow> string option" where
  "ju_str j = (case j of JStr s \<Rightarrow> Some s | _ \<Rightarrow> None)"

definition ju_bool :: "json \<Rightarrow> bool option" where
  "ju_bool j = (case j of JBool b \<Rightarrow> Some b | _ \<Rightarrow> None)"

fun ju_all :: "('a \<Rightarrow> json \<Rightarrow> 'a option) \<Rightarrow> 'a \<Rightarrow> json list \<Rightarrow> 'a list option" where
  "ju_all f z [] = Some []"
| "ju_all f z (v # vs) =
     (case f z v of None \<Rightarrow> None
      | Some x \<Rightarrow> (case ju_all f z vs of None \<Rightarrow> None | Some xs \<Rightarrow> Some (x # xs)))"

text \<open>A scalar field keeps its value on \<open>null\<close>; a slice becomes empty.\<close>

definition scalar :: "(json \<Rightarrow> 'a option) \<Rightarrow> 'a \<Rightarrow> json \<Rightarrow> 'a option" where
  "scalar f z j = (if j = JNull then Some z else f j)"

definition slice :: "('a \<Rightarrow> json \<Rightarrow> 'a option) \<Rightarrow> 'a \<Rightarrow> 'a list \<Rightarrow> json \<Rightarrow> 'a list option" where
  "slice f z old j = (case j of JNull \<Rightarrow> Some [] | JArr vs \<Rightarrow> ju_all f z vs | _ \<Rightarrow> None)"

definition str_field :: "string \<Rightarrow> json \<Rightarrow> string option" where "str_field = scalar ju_str"
definition bool_field :: "bool \<Rightarrow> json \<Rightarrow> bool option" where "bool_field = scalar ju_bool"
definition int_field :: "int \<Rightarrow> json \<Rightarrow> int option" where "int_field = scalar ju_int"
definition int64_field :: "int64 \<Rightarrow> json \<Rightarrow> int64 option" where "int64_field = scalar ju_int64"
definition uint64_field :: "uint64 \<Rightarrow> json \<Rightarrow> uint64 option" where "uint64_field = scalar ju_uint64"
definition strs_field :: "string list \<Rightarrow> json \<Rightarrow> string list option" where
  "strs_field = slice str_field []"

text \<open>\<open>map[string]string\<close>: printed with sorted keys; reading adds to the map.\<close>

fun ju_pairs :: "(string \<times> string) list \<Rightarrow> (string \<times> json) list \<Rightarrow> (string \<times> string) list option" where
  "ju_pairs m [] = Some m"
| "ju_pairs m ((k, v) # kvs) =
     (case str_field [] v of None \<Rightarrow> None | Some x \<Rightarrow> ju_pairs (AList.update k x m) kvs)"

definition map_field :: "(string \<times> string) list \<Rightarrow> json \<Rightarrow> (string \<times> string) list option" where
  "map_field old j = (case j of JNull \<Rightarrow> Some [] | JObj kvs \<Rightarrow> ju_pairs old kvs | _ \<Rightarrow> None)"

definition key_less :: "string \<times> 'a \<Rightarrow> string \<times> 'a \<Rightarrow> bool" where
  "key_less a b \<longleftrightarrow> fst a < fst b"

definition jm_map :: "(string \<times> string) list \<Rightarrow> json" where
  "jm_map m = JObj (map (\<lambda>(k, v). (k, JStr v)) (sort_by key_less m))"

definition jm_strs :: "string list \<Rightarrow> json" where
  "jm_strs xs = JArr (map JStr xs)"

definition omit_if :: "bool \<Rightarrow> string \<Rightarrow> json \<Rightarrow> (string \<times> json) list" where
  "omit_if b k v = (if b then [] else [(k, v)])"

text \<open>One struct field: every key of the object that matches it is stored in turn.\<close>

fun field :: "('a \<Rightarrow> json \<Rightarrow> 'a option) \<Rightarrow> string \<Rightarrow> (string \<times> json) list \<Rightarrow> 'a \<Rightarrow> 'a option" where
  "field f name [] z = Some z"
| "field f name ((k, v) # kvs) z =
     (if equal_fold k name then (case f z v of None \<Rightarrow> None | Some x \<Rightarrow> field f name kvs x)
      else field f name kvs z)"

definition jobject :: "json \<Rightarrow> (string \<times> json) list option" where
  "jobject j = (case j of JNull \<Rightarrow> Some [] | JObj kvs \<Rightarrow> Some kvs | _ \<Rightarrow> None)"

lemma field_simps [simp]:
  "str_field z (JStr s) = Some s" "bool_field y (JBool b) = Some b"
  "int64_field w (jm_int64 x) = Some x" "uint64_field v (jm_uint64 u) = Some u"
  "go_int i \<Longrightarrow> int_field j (jm_int i) = Some i"
proof -
  show "int64_field w (jm_int64 x) = Some x"
    using ju_jm(2) [of x] by (simp add: int64_field_def scalar_def jm_int64_def)
  show "uint64_field v (jm_uint64 u) = Some u"
    using ju_jm(3) [of u] by (simp add: uint64_field_def scalar_def jm_uint64_def)
  show "int_field j (jm_int i) = Some i" if "go_int i"
    using ju_jm(1) [OF that] by (simp add: int_field_def scalar_def jm_int_def)
qed (simp_all add: str_field_def bool_field_def scalar_def ju_str_def ju_bool_def)

lemma ju_all_map [simp]: "(\<And>x. x \<in> set xs \<Longrightarrow> f z (g x) = Some x) \<Longrightarrow> ju_all f z (map g xs) = Some xs"
  by (induction xs) auto

lemma strs_field_jm [simp]: "strs_field z (jm_strs xs) = Some xs"
  by (simp add: strs_field_def slice_def jm_strs_def)

lemma json_wf_strs [simp]: "json_wf (jm_strs xs)"
  by (simp add: jm_strs_def list_all_iff)

lemma field_omit [simp]:
  "field f name (omit_if b k v @ kvs) z =
    (if b then field f name kvs z else field f name ((k, v) # kvs) z)"
  by (simp add: omit_if_def)

lemma omit_if_simps [simp]: "omit_if True k v = []" "omit_if False k v = [(k, v)]"
  by (simp_all add: omit_if_def)

lemma wf_omit [simp]: "list_all P (omit_if b k v) \<longleftrightarrow> b \<or> P (k, v)"
  by (simp add: omit_if_def)

text \<open>Field names are lower-case text; distinct ones do not fold together.\<close>

definition lower_name :: "string \<Rightarrow> bool" where
  "lower_name s \<longleftrightarrow> to_lower s = s"

lemma equal_fold_names: "lower_name a \<Longrightarrow> lower_name b \<Longrightarrow> equal_fold a b \<longleftrightarrow> a = b"
  by (simp add: lower_name_def equal_fold_def)

lemma lower_name_Cons: "lower_name (c # s) \<longleftrightarrow> lower_char c = c \<and> lower_name s"
  by (simp add: lower_name_def to_lower_def)

lemma lower_name_Nil: "lower_name []"
  by (simp add: lower_name_def to_lower_def)

text \<open>Evaluation of the comparison of two literal names.\<close>

lemmas name_simps = equal_fold_names lower_name_Cons lower_name_Nil lower_char_def char_of_eq_iff Let_def

subsection \<open>Identifiers as JSON text\<close>

definition node_unmarshal_text :: "bytes \<Rightarrow> node_id result" where
  "node_unmarshal_text t = node_parse (bytes_string t)"

definition node_marshal_json :: "node_id \<Rightarrow> bytes" where
  "node_marshal_json i = marshal (JStr (node_string i))"

definition node_unmarshal_json :: "node_id \<Rightarrow> bytes \<Rightarrow> node_id result" where
  "node_unmarshal_json old data =
     (case unmarshal data of None \<Rightarrow> Inl ''invalid JSON''
      | Some j \<Rightarrow> (case str_field [] j of None \<Rightarrow> Inl ''invalid JSON''
         | Some s \<Rightarrow> node_unmarshal_text (string_bytes s)))"

definition service_marshal_json :: "service_id \<Rightarrow> bytes" where
  "service_marshal_json i = marshal (JStr (service_string i))"

definition service_unmarshal_json :: "service_id \<Rightarrow> bytes \<Rightarrow> service_id result" where
  "service_unmarshal_json old data =
     (case unmarshal data of None \<Rightarrow> Inl ''invalid JSON''
      | Some j \<Rightarrow> (case str_field [] j of None \<Rightarrow> Inl ''invalid JSON'' | Some s \<Rightarrow> service_parse s))"

lemma id_json_roundtrip:
  "node_unmarshal_json old (node_marshal_json i) = Inr i"
  "service_unmarshal_json old' (service_marshal_json s) = Inr s"
  by (simp_all add: node_unmarshal_json_def node_marshal_json_def node_unmarshal_text_def
      service_unmarshal_json_def service_marshal_json_def unmarshal_marshal)

end
