(* ===== verification/Identity.thy ===== *)
theory Identity
  imports Json_Fields
begin

section \<open>Key pairs on disk: identity and serviceidentity\<close>

text \<open>
  \<open>internal/identity\<close> and \<open>internal/serviceidentity\<close>: the Ed25519 key pair of a node and of a
  published service, signing and verification, and the JSON file each is kept in. A file system
  is a map from paths to contents; \<open>io\<close> gives the error, if any, of each file operation by name.
  The lemmas show that a saved key pair loads back as it was, and that what loads is consistent.
  Error texts that Go's libraries produce are shortened to a fixed text.
\<close>

type_synonym files = "string \<rightharpoonup> bytes"
type_synonym io = "string \<Rightarrow> error option"

record identity =
  id_private :: bytes
  id_public :: bytes
  id_node :: node_id

record service_identity =
  sid_service :: service_id
  sid_public :: bytes
  sid_private :: bytes

definition identity_generate :: "crypto \<Rightarrow> bytes \<Rightarrow> identity" where
  "identity_generate C priv =
     \<lparr> id_private = priv, id_public = ed_public priv,
       id_node = node_from_public_key C (ed_public priv) \<rparr>"

definition service_generate :: "crypto \<Rightarrow> bytes \<Rightarrow> service_identity" where
  "service_generate C priv =
     \<lparr> sid_service = service_from_public_key C (ed_public priv), sid_public = ed_public priv,
       sid_private = priv \<rparr>"

definition identity_sign :: "crypto \<Rightarrow> identity \<Rightarrow> bytes \<Rightarrow> bytes" where
  "identity_sign C i m = ed_sign C (id_private i) m"

definition service_sign :: "crypto \<Rightarrow> service_identity \<Rightarrow> bytes \<Rightarrow> bytes" where
  "service_sign C i m = ed_sign C (sid_private i) m"

definition identity_verify :: "crypto \<Rightarrow> bytes \<Rightarrow> bytes \<Rightarrow> bytes \<Rightarrow> bool" where
  "identity_verify C pub m s \<longleftrightarrow> length pub = 32 \<and> ed_verify C pub m s"

text \<open>A key pair whose parts belong together and whose signatures verify.\<close>

definition good_identity :: "crypto \<Rightarrow> identity \<Rightarrow> bool" where
  "good_identity C i \<longleftrightarrow> signs C (id_private i) \<and> id_public i = ed_public (id_private i) \<and>
     id_node i = node_from_public_key C (id_public i)"

definition good_service :: "crypto \<Rightarrow> service_identity \<Rightarrow> bool" where
  "good_service C i \<longleftrightarrow> signs C (sid_private i) \<and> sid_public i = ed_public (sid_private i) \<and>
     sid_service i = service_from_public_key C (sid_public i)"

lemma good_generate:
  "signs C priv \<Longrightarrow> good_identity C (identity_generate C priv)"
  "signs C priv \<Longrightarrow> good_service C (service_generate C priv)"
  by (simp_all add: good_identity_def good_service_def identity_generate_def service_generate_def)

lemma good_identityD:
  assumes "good_identity C i"
  shows "length (id_public i) = 32" "identity_verify C (id_public i) m (identity_sign C i m)"
    "ed_verify C (id_public i) m (identity_sign C i m)"
    "node_from_public_key C (id_public i) = id_node i"
  using assms length_ed_public signsD
  by (auto simp: good_identity_def identity_verify_def identity_sign_def)

lemma good_serviceD:
  assumes "good_service C i"
  shows "length (sid_public i) = 32" "ed_verify C (sid_public i) m (service_sign C i m)"
    "service_from_public_key C (sid_public i) = sid_service i"
  using assms length_ed_public signsD
  by (auto simp: good_service_def service_sign_def)

subsection \<open>Indented JSON of a flat object\<close>

definition indent_member :: "string \<times> json \<Rightarrow> string" where
  "indent_member = (\<lambda>(k, v). ''  '' @ print_string k @ '': '' @ json_print v)"

text \<open>\<open>json.MarshalIndent(d, "", "  ")\<close> for a struct without nested values.\<close>

definition marshal_indent :: "(string \<times> json) list \<Rightarrow> bytes" where
  "marshal_indent kvs = string_bytes
     (''{'' @ [CHR 0x0A] @ join ('','' @ [CHR 0x0A]) (map indent_member kvs) @ [CHR 0x0A] @ ''}'')"

lemma ws_blank [simp]: "ws_char (CHR 0x0A)" "ws_char (CHR '' '')"
  by (simp_all add: ws_char_def)

lemma stops_number_nl [simp]: "stops_number (CHR 0x0A # s)"
  by (simp add: stops_number_def num_char_def)

lemma parse_value_blank [simp]: "parse_value n (CHR '' '' # s) = parse_value n s"
  by (cases n) simp_all

lemma parse_members_blank [simp]:
  "parse_members n (CHR '' '' # s) = parse_members n s"
  "parse_members n (CHR 0x0A # s) = parse_members n s"
  by (cases n; simp)+

lemma parse_indent_member:
  assumes "parses v" "length (indent_member (k, v)) \<le> n" "stops_number rest"
  shows "parse_members (Suc n) (indent_member (k, v) @ rest) =
    (case skip_ws rest of [] \<Rightarrow> None
     | c # r' \<Rightarrow> if c = CHR ''}'' then Some ([(k, v)], r')
                else if c = CHR '','' then map_option (\<lambda>(kvs, q'). ((k, v) # kvs, q')) (parse_members n r')
                else None)"
proof -
  have t: "indent_member (k, v) @ rest =
      CHR '' '' # CHR '' '' # CHR 0x22 # concat (map esc_char k) @ CHR 0x22 # CHR '':'' # CHR '' '' # json_print v @ rest"
    by (simp add: indent_member_def print_string_def)
  have "parse_value n (json_print v @ rest) = Some (v, rest)"
    using assms by (intro parsesD) (auto simp: indent_member_def)
  then show ?thesis
    unfolding t by (simp add: parse_print_string_text del: length_append)
qed

lemma parse_indent_members:
  "kvs \<noteq> [] \<Longrightarrow> list_all (\<lambda>(k, v). parses v) kvs \<Longrightarrow>
    length (join ('','' @ [CHR 0x0A]) (map indent_member kvs)) < n \<Longrightarrow>
    parse_members n (join ('','' @ [CHR 0x0A]) (map indent_member kvs) @ CHR 0x0A # CHR ''}'' # rest) =
      Some (kvs, rest)"
proof (induction kvs arbitrary: n rule: list_nonempty_induct)
  case (single kv)
  obtain k v where kv: "kv = (k, v)" by (cases kv)
  from single show ?case
    by (cases n) (simp_all add: kv parse_indent_member del: parse_members.simps(2))
next
  case (cons kv kvs)
  obtain k v where kv: "kv = (k, v)" by (cases kv)
  from cons.prems obtain m where n: "n = Suc m" by (cases n) auto
  have j: "join ('','' @ [CHR 0x0A]) (map indent_member ((k, v) # kvs)) =
      indent_member (k, v) @ CHR '','' # CHR 0x0A # join ('','' @ [CHR 0x0A]) (map indent_member kvs)"
    using cons.hyps by (cases kvs) simp_all
  have "parse_members m (join ('','' @ [CHR 0x0A]) (map indent_member kvs) @ CHR 0x0A # CHR ''}'' # rest) =
      Some (kvs, rest)"
    using cons.prems unfolding kv j n by (intro cons.IH) auto
  then show ?case
    using cons.prems unfolding kv j n by (simp add: parse_indent_member del: parse_members.simps(2))
qed

lemma unmarshal_marshal_indent:
  assumes "kvs \<noteq> []" "list_all (\<lambda>(k, v). json_wf v) kvs"
  shows "unmarshal (marshal_indent kvs @ [0x0A]) = Some (JObj kvs)"
proof -
  let ?m = "join ('','' @ [CHR 0x0A]) (map indent_member kvs)"
  have nl: "string_bytes [CHR 0x0A] = [0x0A]"
    by (simp add: string_bytes_def)
  have whole: "marshal_indent kvs @ [0x0A] =
      string_bytes (CHR ''{'' # CHR 0x0A # ?m @ CHR 0x0A # CHR ''}'' # [CHR 0x0A])"
    by (simp add: marshal_indent_def flip: nl string_bytes_append)
  have start: "\<not> has_prefix (skip_ws (?m @ r)) ''}''" for r
    using assms(1) by (cases kvs; cases "tl kvs"; cases "hd kvs")
      (simp_all add: indent_member_def print_string_def has_prefix_def)
  have "parse_members n (?m @ CHR 0x0A # CHR ''}'' # [CHR 0x0A]) = Some (kvs, [CHR 0x0A])"
    if "length ?m < n" for n
    using assms that by (intro parse_indent_members) (auto simp: list_all_iff parses_json)
  then show ?thesis
    using start by (simp add: whole unmarshal_def json_parse_def del: join.simps parse_members.simps(2))
qed

subsection \<open>The node's key pair\<close>

definition not_exist :: error where "not_exist = ''file does not exist''"
definition json_error :: error where "json_error = ''invalid JSON''"
definition base64_error :: error where "base64_error = ''illegal base64 data''"

definition read_file :: "io \<Rightarrow> string \<Rightarrow> files \<Rightarrow> bytes result" where
  "read_file io path fs =
     (case fs path of None \<Rightarrow> Inl not_exist
      | Some raw \<Rightarrow> (case io ''read'' of Some e \<Rightarrow> Inl e | None \<Rightarrow> Inr raw))"

definition identity_file :: "identity \<Rightarrow> bytes" where
  "identity_file i = marshal_indent
     [(''version'', jm_int 1), (''private_key'', JStr (b64_encode (id_private i))),
      (''public_key'', JStr (b64_encode (id_public i))), (''node_id'', JStr (node_string (id_node i)))]
     @ [0x0A]"

definition identity_save :: "io \<Rightarrow> bool \<Rightarrow> identity \<Rightarrow> string \<Rightarrow> files \<Rightarrow> files \<times> unit result" where
  "identity_save io dir_is_dot i path fs =
     (case (if dir_is_dot then None else io ''mkdir'') of
        Some e \<Rightarrow> (fs, Inl e)
      | None \<Rightarrow>
          (case io ''write'' of
             Some e \<Rightarrow> (fs, Inl (''write identity: '' @ e))
           | None \<Rightarrow>
               let fs' = fs(path \<mapsto> identity_file i) in
               (case io ''chmod'' of Some e \<Rightarrow> (fs', Inl e) | None \<Rightarrow> (fs', Inr ()))))"

text \<open>The fields of \<open>diskIdentity\<close>: version, private key, public key, node id.\<close>

definition disk_identity :: "bytes \<Rightarrow> (int \<times> string \<times> string \<times> string) option" where
  "disk_identity raw =
     do { j \<leftarrow> unmarshal raw; kvs \<leftarrow> jobject j;
          v \<leftarrow> field int_field ''version'' kvs 0;
          priv \<leftarrow> field str_field ''private_key'' kvs [];
          pub \<leftarrow> field str_field ''public_key'' kvs [];
          nid \<leftarrow> field str_field ''node_id'' kvs [];
          Some (v, priv, pub, nid) }"

definition identity_load :: "crypto \<Rightarrow> io \<Rightarrow> string \<Rightarrow> files \<Rightarrow> identity result" where
  "identity_load C io path fs =
     (case read_file io path fs of
        Inl e \<Rightarrow> Inl (''read identity: '' @ e)
      | Inr data \<Rightarrow>
          (case disk_identity data of
             None \<Rightarrow> Inl (''parse identity: '' @ json_error)
           | Some (v, d_priv, d_pub, d_node) \<Rightarrow>
               (case b64_decode d_priv of
                  None \<Rightarrow> Inl (''decode private key: '' @ base64_error)
                | Some raw \<Rightarrow>
                    if length raw \<noteq> 64 then Inl ''identity private key has invalid length''
                    else
                      let pub = ed_public raw; i = node_from_public_key C pub in
                      if d_node \<noteq> [] \<and> d_node \<noteq> node_string i
                      then Inl ''identity node_id does not match private key''
                      else if d_pub \<noteq> [] \<and> b64_decode d_pub \<noteq> Some pub
                      then Inl ''identity public_key does not match private key''
                      else Inr \<lparr> id_private = raw, id_public = pub, id_node = i \<rparr>)))"

lemma disk_identity_file:
  "disk_identity (identity_file i) =
     Some (1, b64_encode (id_private i), b64_encode (id_public i), node_string (id_node i))"
  by (simp add: disk_identity_def identity_file_def unmarshal_marshal_indent jobject_def name_simps go_int_def)

lemma identity_load_save:
  assumes "good_identity C i" "identity_save io dot i path fs = (fs', Inr ())" "io ''read'' = None"
  shows "identity_load C io path fs' = Inr i"
proof -
  have "fs' path = Some (identity_file i)"
    using assms(2) by (auto simp: identity_save_def Let_def split: option.splits if_splits)
  moreover have "length (id_private i) = 64" "ed_public (id_private i) = id_public i"
    "node_from_public_key C (id_public i) = id_node i"
    using assms(1) by (auto simp: good_identity_def signs_def)
  ultimately show ?thesis
    using assms(3) by (simp add: identity_load_def read_file_def disk_identity_file Let_def)
qed

lemma identity_load_good:
  "identity_load C io path fs = Inr i \<Longrightarrow> signs C (id_private i) \<Longrightarrow> good_identity C i"
  by (auto simp: identity_load_def good_identity_def Let_def split: sum.splits option.splits if_splits prod.splits)

subsection \<open>The key pair of a service\<close>

definition service_file :: "service_identity \<Rightarrow> bytes" where
  "service_file i = marshal_indent
     [(''version'', jm_int 1), (''public_key'', JStr (b64_encode (sid_public i))),
      (''private_key'', JStr (b64_encode (sid_private i)))] @ [0x0A]"

definition service_save :: "io \<Rightarrow> bool \<Rightarrow> service_identity \<Rightarrow> string \<Rightarrow> files \<Rightarrow> files \<times> unit result" where
  "service_save io dir_is_dot i path fs =
     (case (if dir_is_dot then None else io ''mkdir'') of
        Some e \<Rightarrow> (fs, Inl e)
      | None \<Rightarrow>
          (case io ''write'' of Some e \<Rightarrow> (fs, Inl e)
           | None \<Rightarrow> (fs(path \<mapsto> service_file i), Inr ())))"

definition disk_service :: "bytes \<Rightarrow> (int \<times> string \<times> string) option" where
  "disk_service raw =
     do { j \<leftarrow> unmarshal raw; kvs \<leftarrow> jobject j;
          v \<leftarrow> field int_field ''version'' kvs 0;
          pub \<leftarrow> field str_field ''public_key'' kvs [];
          priv \<leftarrow> field str_field ''private_key'' kvs [];
          Some (v, pub, priv) }"

definition service_load :: "crypto \<Rightarrow> io \<Rightarrow> string \<Rightarrow> files \<Rightarrow> service_identity result" where
  "service_load C io path fs =
     (case read_file io path fs of
        Inl e \<Rightarrow> Inl e
      | Inr raw \<Rightarrow>
          (case disk_service raw of
             None \<Rightarrow> Inl json_error
           | Some (v, d_pub, d_priv) \<Rightarrow>
               if v \<noteq> 1 then Inl (''unsupported service identity version '' @ show_int v)
               else (case b64_decode d_pub of
                  None \<Rightarrow> Inl ''invalid service public key''
                | Some pub \<Rightarrow>
                    if length pub \<noteq> 32 then Inl ''invalid service public key''
                    else (case b64_decode d_priv of
                       None \<Rightarrow> Inl ''invalid service private key''
                     | Some priv \<Rightarrow>
                         if length priv \<noteq> 64 then Inl ''invalid service private key''
                         else if ed_public priv \<noteq> pub then Inl ''service keypair mismatch''
                         else Inr \<lparr> sid_service = service_from_public_key C pub, sid_public = pub,
                                     sid_private = priv \<rparr>))))"

definition service_load_or_create ::
  "crypto \<Rightarrow> io \<Rightarrow> bool \<Rightarrow> bytes \<Rightarrow> string \<Rightarrow> files \<Rightarrow> files \<times> service_identity result" where
  "service_load_or_create C io dir_is_dot fresh_key path fs =
     (case service_load C io path fs of
        Inr x \<Rightarrow> (fs, Inr x)
      | Inl e \<Rightarrow>
          if e \<noteq> not_exist then (fs, Inl e)
          else
            let x = service_generate C fresh_key in
            (case service_save io dir_is_dot x path fs of
               (fs', Inl e') \<Rightarrow> (fs', Inl e')
             | (fs', Inr _) \<Rightarrow> (fs', Inr x)))"

lemma disk_service_file:
  "disk_service (service_file i) = Some (1, b64_encode (sid_public i), b64_encode (sid_private i))"
  by (simp add: disk_service_def service_file_def unmarshal_marshal_indent jobject_def name_simps go_int_def)

lemma service_load_file:
  assumes "good_service C i" "fs path = Some (service_file i)" "io ''read'' = None"
  shows "service_load C io path fs = Inr i"
  using assms length_ed_public [of C "sid_private i"]
  by (simp add: service_load_def read_file_def disk_service_file good_service_def signs_def)

text \<open>The second start finds the key pair the first one made.\<close>

lemma service_load_or_create_stable:
  assumes "signs C key" "fs path = None" "io ''read'' = None"
    "service_load_or_create C io dot key path fs = (fs', Inr x)"
  shows "service_load_or_create C io dot key' path fs' = (fs', Inr x)"
proof -
  have "service_load C io path fs = Inl not_exist"
    using assms(2) by (simp add: service_load_def read_file_def)
  then have "x = service_generate C key" "fs' path = Some (service_file x)"
    using assms(4) by (auto simp: service_load_or_create_def service_save_def Let_def
        split: option.splits if_splits)
  then have "service_load C io path fs' = Inr x"
    using assms(1,3) by (intro service_load_file) (auto intro: good_generate)
  then show ?thesis by (simp add: service_load_or_create_def)
qed

end
