(* ===== verification/Wire.thy ===== *)
theory Wire
  imports Identity
begin

section \<open>Wire formats: frames, packets, circuit cells\<close>

text \<open>
  \<open>internal/protocol/wire.go\<close> and \<open>circuit.go\<close>. A writer is the bytes it puts on the connection,
  a reader takes the bytes that are left on it and gives back the rest; \<open>read_full\<close> is
  \<open>io.ReadFull\<close>. The lemmas: what is written is read back (one frame, and any sequence of frames),
  the readers accept only what a writer produces, and no frame passes the size limit.
\<close>

subsection \<open>Constants\<close>

definition protocol_version :: byte where "protocol_version = 1"
definition max_frame_size :: nat where "max_frame_size = 4194304"

definition frame_hello :: byte where "frame_hello = 1"
definition frame_lsa :: byte where "frame_lsa = 2"
definition frame_packet :: byte where "frame_packet = 3"
definition frame_ping :: byte where "frame_ping = 4"
definition frame_pong :: byte where "frame_pong = 5"
definition frame_pex :: byte where "frame_pex = 6"
definition frame_circuit :: byte where "frame_circuit = 7"

definition packet_open :: byte where "packet_open = 1"
definition packet_open_ack :: byte where "packet_open_ack = 2"
definition packet_data :: byte where "packet_data = 3"
definition packet_close :: byte where "packet_close = 4"
definition packet_error :: byte where "packet_error = 5"
definition packet_ready :: byte where "packet_ready = 6"
definition packet_descriptor_put :: byte where "packet_descriptor_put = 10"
definition packet_descriptor_get :: byte where "packet_descriptor_get = 11"
definition packet_descriptor_response :: byte where "packet_descriptor_response = 12"

definition circuit_version :: byte where "circuit_version = 1"
definition circuit_create :: byte where "circuit_create = 1"
definition circuit_created :: byte where "circuit_created = 2"
definition circuit_relay :: byte where "circuit_relay = 3"
definition circuit_destroy :: byte where "circuit_destroy = 4"

definition relay_extend :: byte where "relay_extend = 1"
definition relay_extended :: byte where "relay_extended = 2"
definition relay_open :: byte where "relay_open = 3"
definition relay_open_ok :: byte where "relay_open_ok = 4"
definition relay_open_error :: byte where "relay_open_error = 5"
definition relay_data :: byte where "relay_data = 6"
definition relay_close :: byte where "relay_close = 7"

lemmas kind_defs =
  frame_hello_def frame_lsa_def frame_packet_def frame_ping_def frame_pong_def frame_pex_def
  frame_circuit_def packet_open_def packet_open_ack_def packet_data_def packet_close_def
  packet_error_def packet_ready_def packet_descriptor_put_def packet_descriptor_get_def
  packet_descriptor_response_def circuit_create_def circuit_created_def circuit_relay_def
  circuit_destroy_def relay_extend_def relay_extended_def relay_open_def relay_open_ok_def
  relay_open_error_def relay_data_def relay_close_def

subsection \<open>Frames\<close>

definition read_full :: "nat \<Rightarrow> bytes \<Rightarrow> (bytes \<times> bytes) result" where
  "read_full n bs =
     (if n \<le> length bs then Inr (take n bs, drop n bs)
      else Inl (if bs = [] then ''EOF'' else ''unexpected EOF''))"

definition write_frame :: "byte \<Rightarrow> bytes \<Rightarrow> bytes result" where
  "write_frame typ payload =
     (if length payload + 1 > max_frame_size
      then Inl (''frame too large: '' @ show_nat (length payload + 1))
      else Inr (put_u32 (of_nat (length payload + 1)) @ [typ] @ payload))"

definition read_frame :: "bytes \<Rightarrow> ((byte \<times> bytes) \<times> bytes) result" where
  "read_frame r =
     (case read_full 4 r of Inl e \<Rightarrow> Inl e
      | Inr (header, r1) \<Rightarrow>
          let size = unat (get_u32 header) in
          if size < 1 \<or> size > max_frame_size then Inl (''invalid frame size '' @ show_nat size)
          else (case read_full size r1 of Inl e \<Rightarrow> Inl e
            | Inr (buf, r2) \<Rightarrow> Inr ((hd buf, tl buf), r2)))"

lemma read_full_append [simp]: "length a = n \<Longrightarrow> read_full n (a @ r) = Inr (a, r)"
  by (simp add: read_full_def)

lemma read_full_InrD: "read_full n r = Inr (a, b) \<Longrightarrow> r = a @ b \<and> length a = n"
  by (auto simp: read_full_def split: if_splits)

lemma unat_u32: "n \<le> max_frame_size \<Longrightarrow> unat (of_nat n :: 32 word) = n"
  by (simp add: max_frame_size_def unat_of_nat)

lemma read_write_frame:
  assumes "write_frame typ payload = Inr bs"
  shows "read_frame (bs @ rest) = Inr ((typ, payload), rest)"
proof -
  have len: "length payload + 1 \<le> max_frame_size"
    and bs: "bs = put_u32 (of_nat (length payload + 1)) @ [typ] @ payload"
    using assms by (auto simp: write_frame_def split: if_splits)
  have "read_full (length payload + 1) ((typ # payload) @ rest) = Inr (typ # payload, rest)"
    by (rule read_full_append) simp
  then show ?thesis
    using len by (simp add: bs read_frame_def unat_u32 [OF len, simplified] Let_def)
qed

lemma put_u32_get_u32: "length bs = 4 \<Longrightarrow> put_u32 (get_u32 bs) = bs"
proof -
  assume l: "length bs = 4"
  have "be_nat bs < 4294967296"
    using be_nat_lt [of bs] l by simp
  then show ?thesis
    using l by (simp add: put_u32_def get_u32_def unat_of_nat be_bytes_be_nat)
qed

lemma read_frame_InrD:
  assumes "read_frame r = Inr ((typ, payload), rest)"
  shows "length payload + 1 \<le> max_frame_size"
    "write_frame typ payload = Inr (put_u32 (of_nat (length payload + 1)) @ typ # payload)"
    "r = put_u32 (of_nat (length payload + 1)) @ typ # payload @ rest"
proof -
  obtain header r1 where h: "read_full 4 r = Inr (header, r1)"
    using assms by (auto simp: read_frame_def split: sum.splits)
  let ?size = "unat (get_u32 header)"
  obtain buf where b: "1 \<le> ?size" "?size \<le> max_frame_size" "read_full ?size r1 = Inr (buf, rest)"
      "typ = hd buf" "payload = tl buf"
    using assms h by (auto simp: read_frame_def Let_def split: if_splits sum.splits)
  note rh = read_full_InrD [OF h] and rb = read_full_InrD [OF b(3)]
  then have buf: "buf = typ # payload"
    using b(1,4,5) by (cases buf) auto
  then have size: "?size = length payload + 1"
    using rb by simp
  then show len: "length payload + 1 \<le> max_frame_size"
    using b(2) by simp
  then show "write_frame typ payload = Inr (put_u32 (of_nat (length payload + 1)) @ typ # payload)"
    by (simp add: write_frame_def)
  have "put_u32 (of_nat (length payload + 1)) = header"
    using put_u32_get_u32 [of header] rh size by (metis of_nat_unat ucast_id)
  with rh rb buf show "r = put_u32 (of_nat (length payload + 1)) @ typ # payload @ rest"
    by simp
qed

definition frame_ok :: "byte \<times> bytes \<Rightarrow> bool" where
  "frame_ok f \<longleftrightarrow> length (snd f) + 1 \<le> max_frame_size"

interpretation frames: frame_codec frame_ok "\<lambda>(typ, payload). write_frame typ payload" read_frame
  by unfold_locales (auto simp: frame_ok_def write_frame_def intro: read_write_frame [unfolded write_frame_def])

subsection \<open>Packets\<close>

record packet =
  p_version :: byte
  p_kind :: byte
  p_ttl :: byte
  p_flags :: byte
  p_src :: node_id
  p_dst :: node_id
  p_packet_id :: "16 barr"
  p_stream_id :: "16 barr"
  p_seq :: uint64
  p_payload :: bytes

definition packet_header_size :: nat where "packet_header_size = 108"

definition packet_marshal :: "packet \<Rightarrow> bytes result" where
  "packet_marshal q =
     (let p = (if p_version q = 0 then q\<lparr>p_version := protocol_version\<rparr> else q) in
      if p_version p \<noteq> protocol_version
      then Inl (''unsupported packet version '' @ show_nat (unat (p_version p)))
      else Inr ([p_version p, p_kind p, p_ttl p, p_flags p] @ node_bytes (p_src p) @ node_bytes (p_dst p)
        @ arr_bytes (p_packet_id p) @ arr_bytes (p_stream_id p) @ put_u64 (p_seq p) @ p_payload p))"

definition packet_parse :: "bytes \<Rightarrow> packet result" where
  "packet_parse d =
     (if length d < packet_header_size then Inl ''packet is truncated''
      else if d ! 0 \<noteq> protocol_version
      then Inl (''unsupported packet version '' @ show_nat (unat (d ! 0)))
      else Inr \<lparr> p_version = d ! 0, p_kind = d ! 1, p_ttl = d ! 2, p_flags = d ! 3,
        p_src = NodeID (arr_of (take 32 (drop 4 d))), p_dst = NodeID (arr_of (take 32 (drop 36 d))),
        p_packet_id = arr_of (take 16 (drop 68 d)), p_stream_id = arr_of (take 16 (drop 84 d)),
        p_seq = get_u64 (take 8 (drop 100 d)), p_payload = drop 108 d \<rparr>)"

lemma take_drop_cut: "take m (drop k d) @ drop (k + m) d = drop k d"
  by (metis append_take_drop_id drop_drop add.commute)

lemma take_four: "4 \<le> length d \<Longrightarrow> take 4 d = [d ! 0, d ! 1, d ! 2, d ! 3]"
  by (cases d; cases "tl d"; cases "tl (tl d)"; cases "tl (tl (tl d))") auto

lemma take_two: "2 \<le> length d \<Longrightarrow> take 2 d = [d ! 0, d ! 1]"
  by (cases d; cases "tl d") auto

lemma packet_layout:
  assumes "length a = 32" "length b = 32" "length c = 16" "length e = 16" "length f = 8"
    and d: "d = [v, k, t, g] @ a @ b @ c @ e @ f @ rest"
  shows "packet_header_size \<le> length d" "d ! 0 = v" "d ! 1 = k" "d ! 2 = t" "d ! 3 = g"
    "take 32 (drop 4 d) = a" "take 32 (drop 36 d) = b" "take 16 (drop 68 d) = c"
    "take 16 (drop 84 d) = e" "take 8 (drop 100 d) = f" "drop 108 d = rest"
  using assms by (simp_all add: packet_header_size_def)

lemma packet_parse_marshal:
  assumes "packet_marshal p = Inr bs"
  shows "packet_parse bs = Inr (p\<lparr>p_version := protocol_version\<rparr>)"
proof -
  have v: "p_version p = 0 \<or> p_version p = protocol_version"
    and bs: "bs = [protocol_version, p_kind p, p_ttl p, p_flags p] @ node_bytes (p_src p)
        @ node_bytes (p_dst p) @ arr_bytes (p_packet_id p) @ arr_bytes (p_stream_id p)
        @ put_u64 (p_seq p) @ p_payload p"
    using assms by (auto simp: packet_marshal_def Let_def split: if_splits)
  have l: "length (arr_bytes (p_packet_id p)) = 16" "length (arr_bytes (p_stream_id p)) = 16"
    by simp_all
  note lay = packet_layout [OF length_id_bytes(1) length_id_bytes(1) l length_put(3) bs]
  show ?thesis
    unfolding packet_parse_def lay using lay(1) by (simp add: protocol_version_def)
qed

lemma packet_parse_InrD:
  assumes "packet_parse d = Inr p"
  shows "p_version p = protocol_version" "packet_marshal p = Inr d"
proof -
  have len: "108 \<le> length d" and v: "d ! 0 = protocol_version"
    and p: "p = \<lparr> p_version = d ! 0, p_kind = d ! 1, p_ttl = d ! 2, p_flags = d ! 3,
        p_src = NodeID (arr_of (take 32 (drop 4 d))), p_dst = NodeID (arr_of (take 32 (drop 36 d))),
        p_packet_id = arr_of (take 16 (drop 68 d)), p_stream_id = arr_of (take 16 (drop 84 d)),
        p_seq = get_u64 (take 8 (drop 100 d)), p_payload = drop 108 d \<rparr>"
    using assms by (auto simp: packet_parse_def packet_header_size_def split: if_splits)
  show pv: "p_version p = protocol_version"
    using v by (simp add: p)
  have four: "take 4 d = [d ! 0, d ! 1, d ! 2, d ! 3]"
    using len by (intro take_four) simp
  have "d = take 4 d @ take 32 (drop 4 d) @ take 32 (drop 36 d) @ take 16 (drop 68 d)
      @ take 16 (drop 84 d) @ take 8 (drop 100 d) @ drop 108 d"
    using take_drop_cut [of 8 100 d] take_drop_cut [of 16 84 d] take_drop_cut [of 16 68 d]
      take_drop_cut [of 32 36 d] take_drop_cut [of 32 4 d] by simp
  moreover have "put_u64 (get_u64 (take 8 (drop 100 d))) = take 8 (drop 100 d)"
    using len by (intro put_u64_get_u64) simp
  ultimately show "packet_marshal p = Inr d"
    using len v four by (simp add: packet_marshal_def p protocol_version_def)
qed

subsection \<open>Circuit cells\<close>

record circuit_cell =
  c_version :: byte
  c_kind :: byte
  c_circuit_id :: uint64
  c_payload :: bytes

definition cell_marshal :: "circuit_cell \<Rightarrow> bytes result" where
  "cell_marshal q =
     (let c = (if c_version q = 0 then q\<lparr>c_version := circuit_version\<rparr> else q) in
      if c_version c \<noteq> circuit_version
      then Inl (''unsupported circuit version '' @ show_nat (unat (c_version c)))
      else Inr ([c_version c, c_kind c] @ put_u64 (c_circuit_id c) @ c_payload c))"

definition cell_parse :: "bytes \<Rightarrow> circuit_cell result" where
  "cell_parse b =
     (if length b < 10 then Inl ''circuit cell truncated''
      else let c = \<lparr> c_version = b ! 0, c_kind = b ! 1, c_circuit_id = get_u64 (take 8 (drop 2 b)),
                     c_payload = drop 10 b \<rparr> in
        if c_version c \<noteq> circuit_version
        then Inl (''unsupported circuit version '' @ show_nat (unat (c_version c)))
        else Inr c)"

definition relay_payload :: "byte \<Rightarrow> bytes \<Rightarrow> bytes" where
  "relay_payload cmd body = cmd # body"

fun relay_parse :: "bytes \<Rightarrow> (byte \<times> bytes) result" where
  "relay_parse [] = Inl ''relay payload empty''"
| "relay_parse (c # body) = Inr (c, body)"

lemma relay_roundtrip [simp]: "relay_parse (relay_payload cmd body) = Inr (cmd, body)"
  by (simp add: relay_payload_def)

lemma cell_parse_marshal:
  "cell_marshal c = Inr bs \<Longrightarrow> cell_parse bs = Inr (c\<lparr>c_version := circuit_version\<rparr>)"
  by (auto simp: cell_marshal_def cell_parse_def Let_def circuit_version_def split: if_splits)

lemma cell_parse_InrD:
  assumes "cell_parse b = Inr c"
  shows "c_version c = circuit_version" "cell_marshal c = Inr b"
proof -
  have len: "10 \<le> length b" and v: "b ! 0 = circuit_version"
    and c: "c = \<lparr> c_version = b ! 0, c_kind = b ! 1, c_circuit_id = get_u64 (take 8 (drop 2 b)),
                     c_payload = drop 10 b \<rparr>"
    using assms by (auto simp: cell_parse_def Let_def split: if_splits)
  show "c_version c = circuit_version"
    using v by (simp add: c)
  have two: "take 2 b = [b ! 0, b ! 1]"
    using len by (intro take_two) simp
  have "b = take 2 b @ take 8 (drop 2 b) @ drop 10 b"
    using take_drop_cut [of 8 2 b] by simp
  moreover have "put_u64 (get_u64 (take 8 (drop 2 b))) = take 8 (drop 2 b)"
    using len by (intro put_u64_get_u64) simp
  ultimately show "cell_marshal c = Inr b"
    using len v two by (simp add: cell_marshal_def c circuit_version_def)
qed

interpretation packets: codec "\<lambda>p. p_version p = protocol_version"
  "\<lambda>p. ok_option (packet_marshal p)" "\<lambda>b. case b of None \<Rightarrow> None | Some bs \<Rightarrow> ok_option (packet_parse bs)"
proof
  fix p :: packet
  assume v: "p_version p = protocol_version"
  then obtain bs where bs: "packet_marshal p = Inr bs"
    by (auto simp: packet_marshal_def protocol_version_def)
  show "(case ok_option (packet_marshal p) of None \<Rightarrow> None | Some bs \<Rightarrow> ok_option (packet_parse bs)) = Some p"
    using packet_parse_marshal [OF bs] v by (simp add: bs)
qed

interpretation cells: codec "\<lambda>c. c_version c = circuit_version"
  "\<lambda>c. ok_option (cell_marshal c)" "\<lambda>b. case b of None \<Rightarrow> None | Some bs \<Rightarrow> ok_option (cell_parse bs)"
proof
  fix c :: circuit_cell
  assume v: "c_version c = circuit_version"
  then obtain bs where bs: "cell_marshal c = Inr bs"
    by (auto simp: cell_marshal_def circuit_version_def)
  show "(case ok_option (cell_marshal c) of None \<Rightarrow> None | Some bs \<Rightarrow> ok_option (cell_parse bs)) = Some c"
    using cell_parse_marshal [OF bs] v by (simp add: bs)
qed

subsection \<open>Properties\<close>

text \<open>C38. Any sequence of frames within the size limit that is written to a connection is read back
  in order, and what follows it on the connection is left untouched.\<close>

theorem frame_sequence_roundtrip:
  assumes "list_all frame_ok fs"
  shows "read_n read_frame (length fs) (write_all (\<lambda>(typ, payload). write_frame typ payload) fs @ rest) =
    Inr (fs, rest)"
  using assms by (rule frames.read_n_write_all)

lemma frame_sequence_roundtrip_witness:
  "read_n read_frame 2 (write_all (\<lambda>(typ, payload). write_frame typ payload) [(1, [7, 8]), (4, [])] @ [9]) =
    Inr ([(1, [7, 8]), (4, [])], [9])"
  using frame_sequence_roundtrip [of "[(1, [7, 8]), (4, [])]" "[9]"]
  by (simp add: frame_ok_def max_frame_size_def numeral_2_eq_2)

text \<open>A frame that the reader accepts is at most \<open>MaxFrameSize\<close> bytes long with its type byte,
  and the bytes it consumed are exactly those the writer produces for it.\<close>

theorem frame_reader_exact:
  assumes "read_frame r = Inr ((typ, payload), rest)"
  shows "length payload + 1 \<le> 4194304 \<and> (\<exists>bs. write_frame typ payload = Inr bs \<and> r = bs @ rest)"
  using read_frame_InrD [OF assms] by (simp add: max_frame_size_def)

lemma frame_reader_exact_witness:
  "\<exists>bs. write_frame 4 [7] = Inr bs \<and> [0, 0, 0, 2, 4, 7, 9] = bs @ [9]"
proof -
  have "read_frame [0, 0, 0, 2, 4, 7, 9] = Inr ((4, [7]), [9])"
    by (simp add: read_frame_def read_full_def get_u32_def be_nat_def of_digits_def max_frame_size_def)
  from frame_reader_exact [OF this] show ?thesis by blast
qed

text \<open>A packet parses from bytes exactly when it has the protocol version and those bytes are its
  encoding: no two byte strings parse to the same packet and every encoding parses. The same
  holds of circuit cells.\<close>

theorem packet_cell_exact:
  "(packet_parse d = Inr p \<longleftrightarrow> p_version p = protocol_version \<and> packet_marshal p = Inr d) \<and>
   (cell_parse b = Inr c \<longleftrightarrow> c_version c = circuit_version \<and> cell_marshal c = Inr b)"
proof -
  have "p_version p = protocol_version \<Longrightarrow> packet_marshal p = Inr d \<Longrightarrow> packet_parse d = Inr p"
    using packet_parse_marshal [of p d] by (cases p) simp
  moreover have "c_version c = circuit_version \<Longrightarrow> cell_marshal c = Inr b \<Longrightarrow> cell_parse b = Inr c"
    using cell_parse_marshal [of c b] by (cases c) simp
  ultimately show ?thesis
    using packet_parse_InrD cell_parse_InrD by blast
qed

end
