(* ===== verification/Control.thy ===== *)
theory Control
  imports Wire
begin

section \<open>Control messages: hello, link-state announcements, stream opening\<close>

text \<open>
  \<open>internal/protocol/control.go\<close>. An announcement (\<open>LSA\<close>) extends its signed body with the
  signature, as the embedded struct of the code does; a slice that \<open>json.Marshal\<close> prints even when
  it is nil is an option. The lemmas show that what \<open>NewLSA\<close>, \<open>SignOpenRequest\<close> and \<open>SignOpenAck\<close>
  produce passes the corresponding check also after a trip through JSON, what a passed check
  guarantees, and that the signed text of an open request determines every field of it.
\<close>

subsection \<open>Slices that may be nil\<close>

type_synonym 'a nilable = "'a list option"

definition items :: "'a nilable \<Rightarrow> 'a list" where
  "items xs = (case xs of None \<Rightarrow> [] | Some ys \<Rightarrow> ys)"

lemma items_simps [simp]: "items None = []" "items (Some xs) = xs"
  by (simp_all add: items_def)

definition jm_nilable :: "string nilable \<Rightarrow> json" where
  "jm_nilable xs = (case xs of None \<Rightarrow> JNull | Some ys \<Rightarrow> jm_strs ys)"

definition nilable_field :: "string nilable \<Rightarrow> json \<Rightarrow> string nilable option" where
  "nilable_field old j =
     (case j of JNull \<Rightarrow> Some None | _ \<Rightarrow> map_option Some (strs_field [] j))"

lemma nilable_field_jm [simp]: "nilable_field z (jm_nilable xs) = Some xs"
  by (cases xs) (simp_all add: nilable_field_def jm_nilable_def jm_strs_def strs_field_def slice_def)

lemma json_wf_nilable [simp]: "json_wf (jm_nilable xs)"
  by (simp add: jm_nilable_def split: option.split)

subsection \<open>Hello\<close>

record hello =
  h_version :: int
  h_network :: string
  h_node :: string
  h_public_key :: string
  h_advertise :: "string list"
  h_time :: int64

definition hello_json :: "hello \<Rightarrow> json" where
  "hello_json h = JObj ([(''version'', jm_int (h_version h)), (''network_id'', JStr (h_network h)),
     (''node_id'', JStr (h_node h)), (''public_key'', JStr (h_public_key h))]
     @ omit_if (h_advertise h = []) ''advertise'' (jm_strs (h_advertise h))
     @ [(''time_unix'', jm_int64 (h_time h))])"

definition hello_of_json :: "json \<Rightarrow> hello option" where
  "hello_of_json j =
     do { kvs \<leftarrow> jobject j;
          v \<leftarrow> field int_field ''version'' kvs 0;
          net \<leftarrow> field str_field ''network_id'' kvs [];
          nid \<leftarrow> field str_field ''node_id'' kvs [];
          pub \<leftarrow> field str_field ''public_key'' kvs [];
          adv \<leftarrow> field strs_field ''advertise'' kvs [];
          t \<leftarrow> field int64_field ''time_unix'' kvs 0;
          Some \<lparr> h_version = v, h_network = net, h_node = nid, h_public_key = pub,
                 h_advertise = adv, h_time = t \<rparr> }"

definition hello_unmarshal :: "bytes \<Rightarrow> hello option" where
  "hello_unmarshal raw = Option.bind (unmarshal raw) hello_of_json"

lemma hello_roundtrip:
  "go_int (h_version h) \<Longrightarrow> hello_unmarshal (marshal (hello_json h)) = Some h"
proof -
  have "json_wf (hello_json h)"
    by (simp add: hello_json_def)
  moreover assume "go_int (h_version h)"
  then have "hello_of_json (hello_json h) = Some h"
    by (cases "h_advertise h") (simp_all add: hello_of_json_def hello_json_def jobject_def name_simps)
  ultimately show ?thesis by (simp add: hello_unmarshal_def unmarshal_marshal)
qed

subsection \<open>Link-state announcements\<close>

record service_info =
  si_name :: string
  si_description :: string

record lsa_body =
  l_version :: int
  l_sequence :: uint64
  l_time :: int64
  l_expires :: int64
  l_node :: string
  l_public_key :: string
  l_advertise :: "string list"
  l_neighbors :: "string nilable"
  l_services :: "service_info list"

record lsa = lsa_body +
  l_signature :: string

definition service_info_json :: "service_info \<Rightarrow> json" where
  "service_info_json s = JObj ([(''name'', JStr (si_name s))]
     @ omit_if (si_description s = []) ''description'' (JStr (si_description s)))"

definition lsa_body_fields :: "'a lsa_body_scheme \<Rightarrow> (string \<times> json) list" where
  "lsa_body_fields l =
     [(''version'', jm_int (l_version l)), (''sequence'', jm_uint64 (l_sequence l)),
      (''time_unix'', jm_int64 (l_time l)), (''expires_unix'', jm_int64 (l_expires l)),
      (''node_id'', JStr (l_node l)), (''public_key'', JStr (l_public_key l))]
     @ omit_if (l_advertise l = []) ''advertise'' (jm_strs (l_advertise l))
     @ [(''neighbors'', jm_nilable (l_neighbors l))]
     @ omit_if (l_services l = []) ''services'' (JArr (map service_info_json (l_services l)))"

definition lsa_canonical :: "'a lsa_body_scheme \<Rightarrow> bytes" where
  "lsa_canonical l = marshal (JObj (lsa_body_fields l))"

definition lsa_json :: "lsa \<Rightarrow> json" where
  "lsa_json l = JObj (lsa_body_fields l @ [(''signature'', JStr (l_signature l))])"

definition lsa_marshal :: "lsa \<Rightarrow> bytes" where
  "lsa_marshal l = marshal (lsa_json l)"

definition service_info_field :: "service_info \<Rightarrow> json \<Rightarrow> service_info option" where
  "service_info_field z j =
     (case j of JNull \<Rightarrow> Some z
      | _ \<Rightarrow> do { kvs \<leftarrow> jobject j;
                 n \<leftarrow> field str_field ''name'' kvs (si_name z);
                 d \<leftarrow> field str_field ''description'' kvs (si_description z);
                 Some \<lparr> si_name = n, si_description = d \<rparr> })"

definition zero_service_info :: service_info where
  "zero_service_info = \<lparr> si_name = [], si_description = [] \<rparr>"

definition lsa_of_json :: "json \<Rightarrow> lsa option" where
  "lsa_of_json j =
     do { kvs \<leftarrow> jobject j;
          v \<leftarrow> field int_field ''version'' kvs 0;
          sq \<leftarrow> field uint64_field ''sequence'' kvs 0;
          t \<leftarrow> field int64_field ''time_unix'' kvs 0;
          e \<leftarrow> field int64_field ''expires_unix'' kvs 0;
          nid \<leftarrow> field str_field ''node_id'' kvs [];
          pub \<leftarrow> field str_field ''public_key'' kvs [];
          adv \<leftarrow> field strs_field ''advertise'' kvs [];
          nb \<leftarrow> field nilable_field ''neighbors'' kvs None;
          sv \<leftarrow> field (slice service_info_field zero_service_info) ''services'' kvs [];
          sg \<leftarrow> field str_field ''signature'' kvs [];
          Some \<lparr> l_version = v, l_sequence = sq, l_time = t, l_expires = e, l_node = nid,
                 l_public_key = pub, l_advertise = adv, l_neighbors = nb, l_services = sv,
                 l_signature = sg \<rparr> }"

definition lsa_unmarshal :: "bytes \<Rightarrow> lsa option" where
  "lsa_unmarshal raw = Option.bind (unmarshal raw) lsa_of_json"

definition info_less :: "service_info \<Rightarrow> service_info \<Rightarrow> bool" where
  "info_less a b \<longleftrightarrow> si_name a < si_name b"

definition new_lsa ::
  "crypto \<Rightarrow> time \<Rightarrow> identity \<Rightarrow> uint64 \<Rightarrow> int \<Rightarrow> string list \<Rightarrow> node_id list \<Rightarrow> service_info list \<Rightarrow> lsa" where
  "new_lsa C now i sequence ttl advertise neighbors services =
     (let body = \<lparr> l_version = 1, l_sequence = sequence, l_time = unix now,
            l_expires = unix (now + ttl), l_node = node_string (id_node i),
            l_public_key = b64_encode (id_public i), l_advertise = sort advertise,
            l_neighbors = Some (sort (map node_string neighbors)),
            l_services = sort_by info_less services \<rparr>
      in lsa_body.extend body
           (lsa.fields (b64_encode (identity_sign C i (lsa_canonical body)))))"

definition lsa_verify :: "crypto \<Rightarrow> time \<Rightarrow> lsa \<Rightarrow> node_id result" where
  "lsa_verify C now l =
     (if l_version l \<noteq> 1 then Inl (''unsupported LSA version '' @ show_int (l_version l))
      else (case node_parse (l_node l) of Inl e \<Rightarrow> Inl e
       | Inr i \<Rightarrow>
        (case b64_decode (l_public_key l) of None \<Rightarrow> Inl ''invalid LSA public key''
         | Some pub \<Rightarrow>
          if length pub \<noteq> 32 then Inl ''invalid LSA public key''
          else if node_from_public_key C pub \<noteq> i then Inl ''LSA node id does not match public key''
          else (case b64_decode (l_signature l) of None \<Rightarrow> Inl ''invalid LSA signature encoding''
           | Some sig \<Rightarrow>
            if \<not> identity_verify C pub (lsa_canonical l) sig then Inl ''invalid LSA signature''
            else if sint (l_expires l) \<le> sint (unix now) then Inl ''LSA expired''
            else if sint (l_time l) > sint (unix (now + minutes 5))
            then Inl ''LSA timestamp is too far in the future''
            else Inr i))))"

lemma service_info_field_json [simp]: "service_info_field z (service_info_json s) = Some s"
  if "si_description z = []"
  using that by (cases "si_description s")
    (simp_all add: service_info_field_def service_info_json_def jobject_def name_simps)

lemma services_field [simp]:
  "slice service_info_field zero_service_info old (JArr (map service_info_json ss)) = Some ss"
  by (simp add: slice_def zero_service_info_def)

lemma json_wf_services [simp]: "json_wf (JArr (map service_info_json ss))"
  by (auto simp: list_all_iff service_info_json_def omit_if_def)

lemma lsa_json_wf: "json_wf (lsa_json l)"
  by (simp add: lsa_json_def lsa_body_fields_def del: json_wf.simps(2))

lemma lsa_roundtrip:
  assumes "go_int (l_version l)"
  shows "lsa_unmarshal (lsa_marshal l) = Some l"
proof -
  have "lsa_of_json (lsa_json l) = Some l"
    using assms
    by (cases "l_advertise l = []"; cases "l_services l = []")
      (simp_all add: lsa_of_json_def lsa_json_def lsa_body_fields_def jobject_def name_simps)
  then show ?thesis
    by (simp add: lsa_unmarshal_def lsa_marshal_def unmarshal_marshal lsa_json_wf)
qed

lemma lsa_fields_new [simp]:
  "l_version (new_lsa C now i sq ttl adv nb sv) = 1"
  "l_sequence (new_lsa C now i sq ttl adv nb sv) = sq"
  "l_time (new_lsa C now i sq ttl adv nb sv) = unix now"
  "l_expires (new_lsa C now i sq ttl adv nb sv) = unix (now + ttl)"
  "l_node (new_lsa C now i sq ttl adv nb sv) = node_string (id_node i)"
  "l_neighbors (new_lsa C now i sq ttl adv nb sv) = Some (sort (map node_string nb))"
  by (simp_all add: new_lsa_def lsa_body.defs lsa.defs Let_def)

lemma new_lsa_signature:
  "l_signature (new_lsa C now i sq ttl adv nb sv) =
     b64_encode (identity_sign C i (lsa_canonical (new_lsa C now i sq ttl adv nb sv)))"
  by (simp add: new_lsa_def lsa_body.defs lsa.defs Let_def lsa_canonical_def lsa_body_fields_def)

lemma new_lsa_public_key [simp]:
  "l_public_key (new_lsa C now i sq ttl adv nb sv) = b64_encode (id_public i)"
  by (simp add: new_lsa_def lsa_body.defs lsa.defs Let_def)

lemma lsa_verify_new:
  assumes "good_identity C i"
    and "sint (unix now') < sint (unix (now + ttl))"
    and "sint (unix now) \<le> sint (unix (now' + minutes 5))"
  shows "lsa_verify C now' (new_lsa C now i sq ttl adv nb sv) = Inr (id_node i)"
  using assms good_identityD [OF assms(1)]
  by (simp add: lsa_verify_def new_lsa_signature)

text \<open>What an accepted announcement guarantees.\<close>

lemma lsa_verify_InrD:
  assumes "lsa_verify C now l = Inr i"
  obtains pub sig where
    "b64_decode (l_public_key l) = Some pub" "length pub = 32" "i = node_from_public_key C pub"
    "node_parse (l_node l) = Inr i" "b64_decode (l_signature l) = Some sig"
    "ed_verify C pub (lsa_canonical l) sig"
    "sint (unix now) < sint (l_expires l)" "sint (l_time l) \<le> sint (unix (now + minutes 5))"
  using assms
  by (auto simp: lsa_verify_def identity_verify_def split: if_splits sum.splits option.splits)

subsection \<open>Opening a stream\<close>

record open_request =
  r_service :: string
  r_ephemeral :: string
  r_nonce :: string
  r_public_key :: string
  r_time :: int64
  r_signature :: string

record open_ack =
  a_ephemeral :: string
  a_nonce :: string
  a_public_key :: string
  a_time :: int64
  a_signature :: string

definition bar :: string where "bar = ''|''"

definition open_request_message :: "16 barr \<Rightarrow> node_id \<Rightarrow> node_id \<Rightarrow> open_request \<Rightarrow> bytes" where
  "open_request_message stream src dst req = string_bytes
     (''knotroute/open/v1|'' @ hex_encode (arr_bytes stream) @ bar @ node_string src @ bar
      @ node_string dst @ bar @ r_service req @ bar @ r_ephemeral req @ bar @ r_nonce req @ bar
      @ show_int (sint (r_time req)))"

definition open_ack_message :: "16 barr \<Rightarrow> node_id \<Rightarrow> node_id \<Rightarrow> open_ack \<Rightarrow> bytes" where
  "open_ack_message stream src dst ack = string_bytes
     (''knotroute/ack/v1|'' @ hex_encode (arr_bytes stream) @ bar @ node_string src @ bar
      @ node_string dst @ bar @ a_ephemeral ack @ bar @ a_nonce ack @ bar
      @ show_int (sint (a_time ack)))"

definition sign_open_request ::
  "crypto \<Rightarrow> identity \<Rightarrow> 16 barr \<Rightarrow> node_id \<Rightarrow> string \<Rightarrow> bytes \<Rightarrow> bytes \<Rightarrow> time \<Rightarrow> open_request" where
  "sign_open_request C i stream dst service ephemeral nonce now =
     (let req = \<lparr> r_service = service, r_ephemeral = b64_encode ephemeral, r_nonce = b64_encode nonce,
            r_public_key = b64_encode (id_public i), r_time = unix now, r_signature = [] \<rparr>
      in req\<lparr>r_signature :=
           b64_encode (identity_sign C i (open_request_message stream (id_node i) dst req))\<rparr>)"

text \<open>The two 32-byte values of a request or an acknowledgement.\<close>

definition decode32 :: "string \<Rightarrow> bytes option" where
  "decode32 s = (case b64_decode s of None \<Rightarrow> None | Some b \<Rightarrow> if length b \<noteq> 32 then None else Some b)"

definition verify_open_request ::
  "crypto \<Rightarrow> open_request \<Rightarrow> 16 barr \<Rightarrow> node_id \<Rightarrow> node_id \<Rightarrow> time \<Rightarrow> (bytes \<times> bytes) result" where
  "verify_open_request C req stream src dst now =
     (if outside_window 180 (unix now) (r_time req)
      then Inl ''open request timestamp outside allowed window''
      else (case decode32 (r_public_key req) of None \<Rightarrow> Inl ''invalid source public key''
       | Some pub \<Rightarrow>
         if node_from_public_key C pub \<noteq> src
         then Inl ''source node id does not match public key''
         else (case decode32 (r_ephemeral req) of None \<Rightarrow> Inl ''invalid ephemeral key''
          | Some eph \<Rightarrow>
            (case decode32 (r_nonce req) of None \<Rightarrow> Inl ''invalid nonce''
             | Some nonce \<Rightarrow>
               (case b64_decode (r_signature req) of None \<Rightarrow> Inl ''invalid open request signature''
                | Some sig \<Rightarrow>
                  if \<not> identity_verify C pub (open_request_message stream src dst req) sig
                  then Inl ''invalid open request signature''
                  else Inr (eph, nonce))))))"

definition sign_open_ack ::
  "crypto \<Rightarrow> identity \<Rightarrow> 16 barr \<Rightarrow> node_id \<Rightarrow> bytes \<Rightarrow> bytes \<Rightarrow> time \<Rightarrow> open_ack" where
  "sign_open_ack C i stream src ephemeral nonce now =
     (let ack = \<lparr> a_ephemeral = b64_encode ephemeral, a_nonce = b64_encode nonce,
            a_public_key = b64_encode (id_public i), a_time = unix now, a_signature = [] \<rparr>
      in ack\<lparr>a_signature :=
           b64_encode (identity_sign C i (open_ack_message stream src (id_node i) ack))\<rparr>)"

definition verify_open_ack ::
  "crypto \<Rightarrow> open_ack \<Rightarrow> 16 barr \<Rightarrow> node_id \<Rightarrow> node_id \<Rightarrow> time \<Rightarrow> (bytes \<times> bytes) result" where
  "verify_open_ack C ack stream src dst now =
     (if outside_window 180 (unix now) (a_time ack)
      then Inl ''open ack timestamp outside allowed window''
      else (case decode32 (a_public_key ack) of None \<Rightarrow> Inl ''invalid destination public key''
       | Some pub \<Rightarrow>
         if node_from_public_key C pub \<noteq> dst
         then Inl ''destination node id does not match public key''
         else (case decode32 (a_ephemeral ack) of None \<Rightarrow> Inl ''invalid ephemeral key''
          | Some eph \<Rightarrow>
            (case decode32 (a_nonce ack) of None \<Rightarrow> Inl ''invalid nonce''
             | Some nonce \<Rightarrow>
               (case b64_decode (a_signature ack) of None \<Rightarrow> Inl ''invalid open ack signature''
                | Some sig \<Rightarrow>
                  if \<not> identity_verify C pub (open_ack_message stream src dst ack) sig
                  then Inl ''invalid open ack signature''
                  else Inr (eph, nonce))))))"

lemma decode32_encode [simp]: "length b = 32 \<Longrightarrow> decode32 (b64_encode b) = Some b"
  by (simp add: decode32_def)

lemma sign_open_request_simps [simp]:
  "r_service (sign_open_request C i stream dst service eph nonce now) = service"
  "r_ephemeral (sign_open_request C i stream dst service eph nonce now) = b64_encode eph"
  "r_nonce (sign_open_request C i stream dst service eph nonce now) = b64_encode nonce"
  "r_public_key (sign_open_request C i stream dst service eph nonce now) = b64_encode (id_public i)"
  "r_time (sign_open_request C i stream dst service eph nonce now) = unix now"
  "r_signature (sign_open_request C i stream dst service eph nonce now) =
     b64_encode (identity_sign C i (open_request_message stream (id_node i) dst
       (sign_open_request C i stream dst service eph nonce now)))"
  by (simp_all add: sign_open_request_def Let_def open_request_message_def)

lemma sign_open_ack_simps [simp]:
  "a_ephemeral (sign_open_ack C i stream src eph nonce now) = b64_encode eph"
  "a_nonce (sign_open_ack C i stream src eph nonce now) = b64_encode nonce"
  "a_public_key (sign_open_ack C i stream src eph nonce now) = b64_encode (id_public i)"
  "a_time (sign_open_ack C i stream src eph nonce now) = unix now"
  "a_signature (sign_open_ack C i stream src eph nonce now) =
     b64_encode (identity_sign C i (open_ack_message stream src (id_node i)
       (sign_open_ack C i stream src eph nonce now)))"
  by (simp_all add: sign_open_ack_def Let_def open_ack_message_def)

declare sign_open_request_simps(6) [simp del] sign_open_ack_simps(5) [simp del]

lemma verify_signed_request:
  assumes "good_identity C i" "length eph = 32" "length nonce = 32"
    "\<not> outside_window 180 (unix now') (unix now)"
  shows "verify_open_request C (sign_open_request C i stream dst service eph nonce now) stream
    (id_node i) dst now' = Inr (eph, nonce)"
  using assms good_identityD [OF assms(1)]
  by (simp add: verify_open_request_def sign_open_request_simps(6))

lemma verify_signed_ack:
  assumes "good_identity C i" "length eph = 32" "length nonce = 32"
    "\<not> outside_window 180 (unix now') (unix now)"
  shows "verify_open_ack C (sign_open_ack C i stream src eph nonce now) stream
    src (id_node i) now' = Inr (eph, nonce)"
  using assms good_identityD [OF assms(1)]
  by (simp add: verify_open_ack_def sign_open_ack_simps(5))

lemma verify_open_request_InrD:
  assumes "verify_open_request C req stream src dst now = Inr (eph, nonce)"
  obtains pub sig where "src = node_from_public_key C pub" "decode32 (r_public_key req) = Some pub"
    "decode32 (r_ephemeral req) = Some eph" "decode32 (r_nonce req) = Some nonce"
    "ed_verify C pub (open_request_message stream src dst req) sig"
    "\<not> outside_window 180 (unix now) (r_time req)"
  using assms
  by (auto simp: verify_open_request_def identity_verify_def split: if_splits option.splits)

lemma verify_open_ack_InrD:
  assumes "verify_open_ack C ack stream src dst now = Inr (eph, nonce)"
  obtains pub sig where "dst = node_from_public_key C pub" "decode32 (a_public_key ack) = Some pub"
    "decode32 (a_ephemeral ack) = Some eph" "decode32 (a_nonce ack) = Some nonce"
    "ed_verify C pub (open_ack_message stream src dst ack) sig"
    "\<not> outside_window 180 (unix now) (a_time ack)"
  using assms
  by (auto simp: verify_open_ack_def identity_verify_def split: if_splits option.splits)

subsection \<open>The signed text determines the request\<close>

text \<open>Text that decodes as base64 has no bar, so the free-form service name cannot shift the fields.\<close>

lemma b64_decode_no_bar: "b64_decode s = Some b \<Longrightarrow> CHR ''|'' \<notin> set s"
proof
  assume d: "b64_decode s = Some b" and "CHR ''|'' \<in> set s"
  let ?t = "strip_newlines s"
  let ?body = "takeWhile (\<lambda>c. c \<noteq> CHR ''='') ?t"
  have bar: "CHR ''|'' \<in> set ?t"
    using \<open>CHR ''|'' \<in> set s\<close> by (simp add: strip_newlines_def)
  obtain ds where ds: "drop (length ?body) ?t = b64_pad (length ?body)"
      "digits_of b64_std_alphabet 0 (strip_newlines ?body) = Inr ds"
    using d by (auto simp: b64_decode_def b64_raw_decode_def Let_def split: if_splits sum.splits)
  have "CHR ''|'' \<in> set ?body \<or> CHR ''|'' \<in> set (drop (length ?body) ?t)"
    using bar by (metis Un_iff append_take_drop_id set_append takeWhile_eq_take)
  then have "CHR ''|'' \<in> set (strip_newlines ?body)"
    unfolding ds(1) by (auto simp: b64_pad_def strip_newlines_def)
  moreover have "set (strip_newlines ?body) \<subseteq> set b64_std_alphabet"
    using digits_of_InrD [OF ds(2)] set_map_nth_alphabet [of b64_std_alphabet ds] by auto
  ultimately show False
    using b64_alphabets(6) by blast
qed

lemma decode32_no_bar: "decode32 s = Some b \<Longrightarrow> CHR ''|'' \<notin> set s"
  by (auto simp: decode32_def dest: b64_decode_no_bar split: option.splits if_splits)

lemma last_bar_unique:
  "a @ bar @ s = b @ bar @ t \<Longrightarrow> CHR ''|'' \<notin> set s \<Longrightarrow> CHR ''|'' \<notin> set t \<Longrightarrow> a = b \<and> s = t"
proof -
  assume h: "a @ bar @ s = b @ bar @ t" and s: "CHR ''|'' \<notin> set s" and t: "CHR ''|'' \<notin> set t"
  have "takeWhile (\<lambda>c. c \<noteq> CHR ''|'') (rev (x @ bar @ y)) = rev y" if "CHR ''|'' \<notin> set y" for x y
    using that unfolding bar_def by (simp, subst takeWhile_append2) auto
  then have "rev s = rev t"
    using h s t by metis
  with h show ?thesis by simp
qed

lemma show_int_no_bar: "CHR ''|'' \<notin> set (show_int i)"
  using show_nat_digits [of "CHR ''|''"] by (auto simp: show_int_def)

lemma node_string_length: "length (node_string a) = length (node_string b)"
proof -
  have len: "length (encode_groups 5 5 bs) = 52" if "length bs = 32" for bs
  proof -
    have "bs \<noteq> []" using that by auto
    with that show ?thesis by (simp add: encode_groups.simps [of 5 5] group_len_def)
  qed
  show ?thesis
    by (simp add: node_string_def b32_encode_def len)
qed

lemma open_request_message_inject:
  assumes "open_request_message s1 src1 dst1 r1 = open_request_message s2 src2 dst2 r2"
    and "CHR ''|'' \<notin> set (r_ephemeral r1)" "CHR ''|'' \<notin> set (r_nonce r1)"
    and "CHR ''|'' \<notin> set (r_ephemeral r2)" "CHR ''|'' \<notin> set (r_nonce r2)"
  shows "s1 = s2 \<and> src1 = src2 \<and> dst1 = dst2 \<and> r_service r1 = r_service r2 \<and>
    r_ephemeral r1 = r_ephemeral r2 \<and> r_nonce r1 = r_nonce r2 \<and> r_time r1 = r_time r2"
proof -
  define A where "A s src dst r =
    hex_encode (arr_bytes (s :: 16 barr)) @ bar @ node_string src @ bar @ node_string dst @ bar @ r_service (r :: open_request)"
    for s src dst r
  have "((A s1 src1 dst1 r1 @ bar @ r_ephemeral r1) @ bar @ r_nonce r1) @ bar @ show_int (sint (r_time r1)) =
        ((A s2 src2 dst2 r2 @ bar @ r_ephemeral r2) @ bar @ r_nonce r2) @ bar @ show_int (sint (r_time r2))"
    using assms(1) by (simp add: open_request_message_def A_def)
  then have 1: "(A s1 src1 dst1 r1 @ bar @ r_ephemeral r1) @ bar @ r_nonce r1 =
        (A s2 src2 dst2 r2 @ bar @ r_ephemeral r2) @ bar @ r_nonce r2"
      and t: "sint (r_time r1) = sint (r_time r2)"
    using last_bar_unique show_int_no_bar by (blast, metis last_bar_unique show_int_no_bar show_int_inject)
  from 1 have 2: "A s1 src1 dst1 r1 @ bar @ r_ephemeral r1 = A s2 src2 dst2 r2 @ bar @ r_ephemeral r2"
      and n: "r_nonce r1 = r_nonce r2"
    using last_bar_unique assms by blast+
  from 2 have 3: "A s1 src1 dst1 r1 = A s2 src2 dst2 r2" and e: "r_ephemeral r1 = r_ephemeral r2"
    using last_bar_unique assms by blast+
  have "length (hex_encode (arr_bytes s1)) = length (hex_encode (arr_bytes s2))"
    by simp
  with 3 have s: "s1 = s2" and r: "node_string src1 @ bar @ node_string dst1 @ bar @ r_service r1 =
      node_string src2 @ bar @ node_string dst2 @ bar @ r_service r2"
    by (simp_all add: A_def arr_bytes_eq_iff)
  from r have "src1 = src2" and r': "node_string dst1 @ bar @ r_service r1 = node_string dst2 @ bar @ r_service r2"
    using node_string_length [of src1 src2] by simp_all
  moreover from r' have "dst1 = dst2" "r_service r1 = r_service r2"
    using node_string_length [of dst1 dst2] by simp_all
  ultimately show ?thesis
    using s t n e by (simp add: signed_word_eqI)
qed

subsection \<open>The messages as JSON\<close>

definition open_request_json :: "open_request \<Rightarrow> json" where
  "open_request_json r = JObj
     [(''service'', JStr (r_service r)), (''ephemeral_key'', JStr (r_ephemeral r)),
      (''nonce'', JStr (r_nonce r)), (''public_key'', JStr (r_public_key r)),
      (''time_unix'', jm_int64 (r_time r)), (''signature'', JStr (r_signature r))]"

definition open_request_unmarshal :: "bytes \<Rightarrow> open_request option" where
  "open_request_unmarshal raw =
     do { j \<leftarrow> unmarshal raw; kvs \<leftarrow> jobject j;
          s \<leftarrow> field str_field ''service'' kvs [];
          e \<leftarrow> field str_field ''ephemeral_key'' kvs [];
          n \<leftarrow> field str_field ''nonce'' kvs [];
          p \<leftarrow> field str_field ''public_key'' kvs [];
          t \<leftarrow> field int64_field ''time_unix'' kvs 0;
          g \<leftarrow> field str_field ''signature'' kvs [];
          Some \<lparr> r_service = s, r_ephemeral = e, r_nonce = n, r_public_key = p, r_time = t,
                 r_signature = g \<rparr> }"

definition open_ack_json :: "open_ack \<Rightarrow> json" where
  "open_ack_json a = JObj
     [(''ephemeral_key'', JStr (a_ephemeral a)), (''nonce'', JStr (a_nonce a)),
      (''public_key'', JStr (a_public_key a)), (''time_unix'', jm_int64 (a_time a)),
      (''signature'', JStr (a_signature a))]"

definition open_ack_unmarshal :: "bytes \<Rightarrow> open_ack option" where
  "open_ack_unmarshal raw =
     do { j \<leftarrow> unmarshal raw; kvs \<leftarrow> jobject j;
          e \<leftarrow> field str_field ''ephemeral_key'' kvs [];
          n \<leftarrow> field str_field ''nonce'' kvs [];
          p \<leftarrow> field str_field ''public_key'' kvs [];
          t \<leftarrow> field int64_field ''time_unix'' kvs 0;
          g \<leftarrow> field str_field ''signature'' kvs [];
          Some \<lparr> a_ephemeral = e, a_nonce = n, a_public_key = p, a_time = t, a_signature = g \<rparr> }"

definition error_message_json :: "string \<Rightarrow> json" where
  "error_message_json m = JObj [(''message'', JStr m)]"

definition close_message_json :: "string \<Rightarrow> json" where
  "close_message_json r = JObj (omit_if (r = []) ''reason'' (JStr r))"

text \<open>\<open>_ = json.Unmarshal(...)\<close>: on an error the field keeps its zero value.\<close>

definition text_unmarshal :: "string \<Rightarrow> bytes \<Rightarrow> string" where
  "text_unmarshal name raw =
     (case do { j \<leftarrow> unmarshal raw; kvs \<leftarrow> jobject j; field str_field name kvs [] } of
        None \<Rightarrow> [] | Some s \<Rightarrow> s)"

definition error_message_unmarshal :: "bytes \<Rightarrow> string" where
  "error_message_unmarshal = text_unmarshal ''message''"

definition close_message_unmarshal :: "bytes \<Rightarrow> string" where
  "close_message_unmarshal = text_unmarshal ''reason''"

definition descriptor_get_json :: "string \<Rightarrow> json" where
  "descriptor_get_json s = JObj [(''service_id'', JStr s)]"

definition descriptor_get_unmarshal :: "bytes \<Rightarrow> string option" where
  "descriptor_get_unmarshal raw =
     do { j \<leftarrow> unmarshal raw; kvs \<leftarrow> jobject j; field str_field ''service_id'' kvs [] }"

text \<open>\<open>json.RawMessage\<close> holds a value's text; it is kept as the value.\<close>

definition raw_field :: "json option \<Rightarrow> json \<Rightarrow> json option option" where
  "raw_field old j = Some (Some j)"

definition descriptor_response_json :: "bool \<Rightarrow> json option \<Rightarrow> json" where
  "descriptor_response_json found d = JObj ((''found'', JBool found) #
     (case d of None \<Rightarrow> [] | Some j \<Rightarrow> [(''descriptor'', j)]))"

definition descriptor_response_unmarshal :: "bytes \<Rightarrow> (bool \<times> json option) option" where
  "descriptor_response_unmarshal raw =
     do { j \<leftarrow> unmarshal raw; kvs \<leftarrow> jobject j;
          f \<leftarrow> field bool_field ''found'' kvs False;
          d \<leftarrow> field raw_field ''descriptor'' kvs None;
          Some (f, d) }"

lemma open_messages_roundtrip:
  "open_request_unmarshal (marshal (open_request_json r)) = Some r"
  "open_ack_unmarshal (marshal (open_ack_json a)) = Some a"
  by (simp_all add: open_request_unmarshal_def open_request_json_def open_ack_unmarshal_def
      open_ack_json_def unmarshal_marshal jobject_def name_simps)

lemma small_messages_roundtrip:
  "error_message_unmarshal (marshal (error_message_json m)) = m"
  "close_message_unmarshal (marshal (close_message_json c)) = c"
  "descriptor_get_unmarshal (marshal (descriptor_get_json s)) = Some s"
  by (cases c; simp add: error_message_unmarshal_def close_message_unmarshal_def text_unmarshal_def
      error_message_json_def close_message_json_def descriptor_get_unmarshal_def
      descriptor_get_json_def unmarshal_marshal jobject_def name_simps)+

lemma descriptor_response_roundtrip:
  "(case d of None \<Rightarrow> True | Some j \<Rightarrow> json_wf j) \<Longrightarrow>
    descriptor_response_unmarshal (marshal (descriptor_response_json f d)) = Some (f, d)"
  by (cases d) (simp_all add: descriptor_response_unmarshal_def descriptor_response_json_def
      unmarshal_marshal jobject_def name_simps raw_field_def)

subsection \<open>Properties\<close>

text \<open>A key pair over the record \<open>toy\<close>, for the witnesses.\<close>

definition toy_identity :: "byte \<Rightarrow> identity" where
  "toy_identity k = identity_generate toy (replicate 32 0 @ replicate 32 k)"

lemma toy_identity_good [simp]: "good_identity toy (toy_identity k)"
  unfolding toy_identity_def by (intro good_generate toy_signs) simp

lemma unix_small: "unix 0 = 0" "unix (0 + seconds 60) = 60" "unix (0 + minutes 5) = 300" "unix (seconds 60) = 60"
    "unix (minutes 5) = 300"
  by (simp_all add: unix_def seconds_def minutes_def)

text \<open>The announcement a node makes with \<open>NewLSA\<close>, printed as JSON and read by a peer, passes the
  peer's \<open>Verify\<close> as the node's announcement until it expires, if the peer's clock is not more
  than five minutes behind.\<close>

theorem lsa_accepted:
  assumes "good_identity C i" "sint (unix now') < sint (unix (now + ttl))"
    and "sint (unix now) \<le> sint (unix (now' + minutes 5))"
  shows "\<exists>l. lsa_unmarshal (lsa_marshal (new_lsa C now i sq ttl adv nb sv)) = Some l \<and>
    lsa_verify C now' l = Inr (id_node i) \<and> l_sequence l = sq"
  using lsa_verify_new [OF assms] lsa_roundtrip [of "new_lsa C now i sq ttl adv nb sv"]
  by (simp add: go_int_def)

lemma lsa_accepted_witness:
  "\<exists>l. lsa_unmarshal (lsa_marshal (new_lsa toy 0 (toy_identity 7) 3 (seconds 60) [] [] [])) = Some l \<and>
    lsa_verify toy 0 l = Inr (id_node (toy_identity 7)) \<and> l_sequence l = 3"
  by (rule lsa_accepted) (simp_all add: unix_small)

text \<open>An open request made with \<open>SignOpenRequest\<close> and sent as JSON passes \<open>VerifyOpenRequest\<close> at
  the destination, within three minutes, and yields the ephemeral key and nonce that were signed;
  the same holds of the acknowledgement on the way back.\<close>

theorem open_exchange_accepted:
  assumes "good_identity C i" "length eph = 32" "length nonce = 32"
    and "\<not> outside_window 180 (unix now') (unix now)"
  shows "(\<exists>r. open_request_unmarshal
        (marshal (open_request_json (sign_open_request C i stream dst service eph nonce now))) = Some r \<and>
      r_service r = service \<and>
      verify_open_request C r stream (id_node i) dst now' = Inr (eph, nonce)) \<and>
    (\<exists>a. open_ack_unmarshal
        (marshal (open_ack_json (sign_open_ack C i stream src eph nonce now))) = Some a \<and>
      verify_open_ack C a stream src (id_node i) now' = Inr (eph, nonce))"
  using verify_signed_request [OF assms] verify_signed_ack [OF assms]
  by (simp add: open_messages_roundtrip)

lemma open_exchange_accepted_witness:
  "\<exists>r. open_request_unmarshal (marshal (open_request_json
      (sign_open_request toy (toy_identity 7) (arr_of []) zero_node ''http'' (replicate 32 1) (replicate 32 2) 0))) = Some r \<and>
    verify_open_request toy r (arr_of []) (id_node (toy_identity 7)) zero_node 0 =
      Inr (replicate 32 1, replicate 32 2)"
  using open_exchange_accepted [of toy "toy_identity 7" "replicate 32 1" "replicate 32 2" 0 0 "arr_of []" zero_node "''http''"]
  by (auto simp: outside_window_def)

text \<open>The bytes a client signs in an open request determine the stream, both nodes, the service
  name, the key, the nonce and the time: two requests that both pass verification cannot share a
  signed text unless they agree in all of them, although the service name is free text.\<close>

theorem open_request_unambiguous:
  assumes "verify_open_request C r1 s1 src1 dst1 now = Inr x" "verify_open_request C r2 s2 src2 dst2 now' = Inr y"
    and "open_request_message s1 src1 dst1 r1 = open_request_message s2 src2 dst2 r2"
  shows "s1 = s2 \<and> src1 = src2 \<and> dst1 = dst2 \<and> r_service r1 = r_service r2 \<and> r_time r1 = r_time r2 \<and> x = y"
proof -
  obtain e1 n1 e2 n2 where xy: "x = (e1, n1)" "y = (e2, n2)"
    by (cases x, cases y)
  from assms(1,2) have d: "decode32 (r_ephemeral r1) = Some e1" "decode32 (r_nonce r1) = Some n1"
      "decode32 (r_ephemeral r2) = Some e2" "decode32 (r_nonce r2) = Some n2"
    unfolding xy by (auto elim!: verify_open_request_InrD)
  from open_request_message_inject [OF assms(3) d [THEN decode32_no_bar]]
  show ?thesis using d by (auto simp: xy)
qed

lemma open_request_unambiguous_witness:
  "r_service (sign_open_request toy (toy_identity 7) (arr_of []) zero_node ''a|b'' (replicate 32 1) (replicate 32 2) 0) = ''a|b''"
proof -
  let ?r = "sign_open_request toy (toy_identity 7) (arr_of []) zero_node ''a|b'' (replicate 32 1) (replicate 32 2) 0"
  have "verify_open_request toy ?r (arr_of []) (id_node (toy_identity 7)) zero_node 0 =
      Inr (replicate 32 1, replicate 32 2)"
    by (rule verify_signed_request) (simp_all add: outside_window_def)
  from open_request_unambiguous [OF this this refl] show ?thesis by simp
qed

text \<open>The checks of the form \<open>delta := now.Unix() - t; delta > 180 || delta < -180\<close> compute with
  wrapping 64-bit integers on a value the peer chooses; for any clock not within the window of the
  ends of the 64-bit range they reject exactly the times more than 180 seconds away.\<close>

theorem time_window_exact:
  assumes "- 9223372036854775628 \<le> sint (unix now)" "sint (unix now) < 9223372036854775628"
  shows "outside_window 180 (unix now) t \<longleftrightarrow> 180 < \<bar>sint (unix now) - sint t\<bar>"
  using assms by (intro outside_window_iff) simp_all

lemma time_window_exact_witness:
  "outside_window 180 (unix 0) (word_of_int (- 9223372036854775808)) \<longleftrightarrow>
     180 < \<bar>sint (unix 0) - sint (word_of_int (- 9223372036854775808) :: int64)\<bar>"
  by (rule time_window_exact) (simp_all add: unix_small)

end
