(* ===== verification/Router.thy ===== *)
theory Router
  imports Control
begin

section \<open>Route computation\<close>

text \<open>
  \<open>router.Compute\<close>: breadth-first search from the local node over the links that both ends
  advertise. The maps of announcements and of neighbour sets, and these sets themselves, are lists whose order is the
  order one \<open>range\<close> over them takes; nothing is assumed of that order (\<open>routes_in\<close> takes the sets as a run meets them). The lemmas show that every route is a simple path of mutual links with the
  right next hop and hop count, that a destination has a route exactly when mutual links reach it
  and then the shortest one, and that the result does not depend on the iteration order.
\<close>

record route =
  rt_destination :: node_id
  rt_next_hop :: node_id
  rt_hops :: nat
  rt_path :: "node_id list"

type_synonym lsa_map = "(node_id \<times> lsa) list"
type_synonym advertised = "(node_id \<times> node_id list) list"
type_synonym routes = "node_id \<rightharpoonup> route"

subsection \<open>Mutual links\<close>

text \<open>The set of neighbours an announcement names, without texts that do not parse and the node itself.\<close>

definition neighbor_set :: "node_id \<Rightarrow> lsa \<Rightarrow> node_id list" where
  "neighbor_set i l =
     remdups (concat (map (\<lambda>raw. case node_parse raw of Inl _ \<Rightarrow> [] | Inr n \<Rightarrow> if n \<noteq> i then [n] else [])
       (items (l_neighbors l))))"

definition advertised_of :: "lsa_map \<Rightarrow> advertised" where
  "advertised_of lsas = map (\<lambda>(i, l). (i, neighbor_set i l)) lsas"

definition advertises :: "advertised \<Rightarrow> node_id \<Rightarrow> node_id \<Rightarrow> bool" where
  "advertises adv a b = (case map_of adv a of None \<Rightarrow> False | Some ns \<Rightarrow> b \<in> set ns)"

definition adjacency :: "advertised \<Rightarrow> node_id \<Rightarrow> node_id list" where
  "adjacency adv a =
     (case map_of adv a of None \<Rightarrow> []
      | Some ns \<Rightarrow> sort_by node_less (filter (\<lambda>b. advertises adv b a) (remdups ns)))"

definition linked :: "advertised \<Rightarrow> node_id \<Rightarrow> node_id \<Rightarrow> bool" where
  "linked adv a b \<longleftrightarrow> advertises adv a b \<and> advertises adv b a"

lemma set_adjacency: "b \<in> set (adjacency adv a) \<longleftrightarrow> linked adv a b"
  by (auto simp: adjacency_def linked_def advertises_def split: option.splits)

lemma distinct_adjacency: "distinct (adjacency adv a)"
  by (simp add: adjacency_def split: option.splits)

lemma linked_sym: "linked adv a b \<longleftrightarrow> linked adv b a"
  by (auto simp: linked_def)

lemma linked_key: "linked adv a b \<Longrightarrow> b \<in> fst ` set adv"
  by (auto simp: linked_def advertises_def split: option.splits dest: map_of_SomeD intro: rev_image_eqI)

subsection \<open>The search\<close>

type_synonym search = "node_id list \<times> (node_id \<rightharpoonup> node_id list) \<times> routes"

definition make_route :: "node_id \<Rightarrow> node_id list \<Rightarrow> route" where
  "make_route next path =
     \<lparr> rt_destination = next, rt_next_hop = path ! 1, rt_hops = length path - 1, rt_path = path \<rparr>"

fun relax :: "node_id \<Rightarrow> node_id \<Rightarrow> node_id list \<Rightarrow> search \<Rightarrow> search" where
  "relax local current [] st = st"
| "relax local current (next # ns) (queue, paths, routes) =
     (if paths next \<noteq> None then relax local current ns (queue, paths, routes)
      else
        let path = (case paths current of None \<Rightarrow> [] | Some p \<Rightarrow> p) @ [next]
        in relax local current ns (queue @ [next], paths(next \<mapsto> path),
             (if next \<noteq> local then routes(next \<mapsto> make_route next path) else routes)))"

lemma relax_measure:
  assumes "relax local current ns (q, p, r) = (q', p', r')" "set ns \<subseteq> set K"
  shows "length q' + card (set K - dom p') = length q + card (set K - dom p)"
  using assms
proof (induction ns arbitrary: q p r)
  case Nil
  then show ?case by simp
next
  case (Cons n ns)
  show ?case
  proof (cases "p n = None")
    case False
    with Cons show ?thesis by simp
  next
    case True
    then have n: "n \<in> set K - dom p" "finite (set K - dom p)"
      using Cons.prems by auto
    have drop: "Suc (card (set K - dom (p(n \<mapsto> x)))) = card (set K - dom p)" for x
    proof -
      have "set K - dom (p(n \<mapsto> x)) = (set K - dom p) - {n}"
        by auto
      then show ?thesis
        using card.remove [OF n(2,1)] by metis
    qed
    obtain path r1 where "relax local current ns (q @ [n], p(n \<mapsto> path), r1) = (q', p', r')"
      using True Cons.prems(1) by (auto simp: Let_def)
    with Cons have "length q' + card (set K - dom p') = Suc (length q) + card (set K - dom (p(n \<mapsto> path)))"
      by fastforce
    with drop show ?thesis
      by (metis add_Suc_right add_Suc_shift)
  qed
qed

function search :: "advertised \<Rightarrow> node_id \<Rightarrow> search \<Rightarrow> search" where
  "search adv local (queue, paths, routes) =
     (case queue of [] \<Rightarrow> (queue, paths, routes)
      | current # rest \<Rightarrow> search adv local (relax local current (adjacency adv current) (rest, paths, routes)))"
  by pat_completeness auto

termination
proof (relation "measure (\<lambda>(adv, local, (q, p, r)). length q + card (fst ` set adv - dom p))")
  show "wf (measure (\<lambda>(adv :: advertised, local :: node_id, (q :: node_id list, p :: node_id \<rightharpoonup> node_id list, r :: routes)).
      length q + card (fst ` set adv - dom p)))"
    by simp
next
  fix adv :: advertised and local :: node_id and queue :: "node_id list"
    and paths :: "node_id \<rightharpoonup> node_id list" and routes :: routes
    and current :: node_id and rest :: "node_id list"
  assume q: "queue = current # rest"
  obtain q' p' r' where st: "relax local current (adjacency adv current) (rest, paths, routes) = (q', p', r')"
    by (metis prod_cases3)
  have "set (adjacency adv current) \<subseteq> set (map fst adv)"
    using linked_key by (auto simp: set_adjacency)
  from relax_measure [OF st this] q
  show "((adv, local, relax local current (adjacency adv current) (rest, paths, routes)),
      (adv, local, (queue, paths, routes))) \<in>
      measure (\<lambda>(adv, local, (q, p, r)). length q + card (fst ` set adv - dom p))"
    by (simp add: st)
qed

declare search.simps [simp del]

text \<open>The part of \<open>Compute\<close> that works on the neighbour sets, in whatever order the maps give them.\<close>

definition routes_in :: "advertised \<Rightarrow> node_id \<Rightarrow> routes" where
  "routes_in adv local =
     (case search adv local ([local], [local \<mapsto> [local]], Map.empty) of
        (queue, paths, routes) \<Rightarrow> routes)"

definition compute :: "node_id \<Rightarrow> lsa_map \<Rightarrow> routes" where
  "compute local lsas = routes_in (advertised_of lsas) local"

subsection \<open>The invariant of the search\<close>

definition walk :: "advertised \<Rightarrow> node_id \<Rightarrow> node_id \<Rightarrow> node_id list \<Rightarrow> bool" where
  "walk adv a b p \<longleftrightarrow> p \<noteq> [] \<and> hd p = a \<and> last p = b \<and> successively (linked adv) p"

definition steps_to :: "(node_id \<rightharpoonup> node_id list) \<Rightarrow> node_id \<Rightarrow> nat" where
  "steps_to P v = (case P v of None \<Rightarrow> 0 | Some p \<Rightarrow> length p)"

definition paths_ok :: "advertised \<Rightarrow> node_id \<Rightarrow> (node_id \<rightharpoonup> node_id list) \<Rightarrow> bool" where
  "paths_ok adv local P \<longleftrightarrow> P local = Some [local] \<and>
     (\<forall>v p. P v = Some p \<longrightarrow> walk adv local v p \<and> distinct p \<and> set p \<subseteq> dom P)"

definition routes_ok :: "node_id \<Rightarrow> (node_id \<rightharpoonup> node_id list) \<Rightarrow> routes \<Rightarrow> bool" where
  "routes_ok local P R \<longleftrightarrow> (\<forall>v. R v = (if v = local then None else map_option (make_route v) (P v)))"

definition levels_ok :: "node_id list \<Rightarrow> (node_id \<rightharpoonup> node_id list) \<Rightarrow> bool" where
  "levels_ok q P \<longleftrightarrow> set q \<subseteq> dom P \<and> sorted (map (steps_to P) q) \<and>
     (q \<noteq> [] \<longrightarrow> (\<forall>v \<in> dom P. steps_to P v \<le> steps_to P (hd q) + 1))"

definition done_ok :: "advertised \<Rightarrow> node_id list \<Rightarrow> (node_id \<rightharpoonup> node_id list) \<Rightarrow> bool" where
  "done_ok adv q P \<longleftrightarrow>
     (\<forall>u w. u \<in> dom P \<longrightarrow> u \<notin> set q \<longrightarrow> linked adv u w \<longrightarrow> w \<in> dom P \<and> steps_to P w \<le> steps_to P u + 1)"

fun search_inv :: "advertised \<Rightarrow> node_id \<Rightarrow> search \<Rightarrow> bool" where
  "search_inv adv local (q, P, R) \<longleftrightarrow>
     paths_ok adv local P \<and> routes_ok local P R \<and> levels_ok q P \<and> done_ok adv q P"

text \<open>One round over the neighbours of a node: the new ones are appended, the others kept.\<close>

lemma relax_eq:
  "distinct ns \<Longrightarrow> P current = Some pc \<Longrightarrow>
    relax local current ns (q, P, R) =
      (q @ filter (\<lambda>n. P n = None) ns,
       \<lambda>v. if v \<in> set ns \<and> P v = None then Some (pc @ [v]) else P v,
       \<lambda>v. if v \<in> set ns \<and> P v = None \<and> v \<noteq> local then Some (make_route v (pc @ [v])) else R v)"
proof (induction ns arbitrary: q P R)
  case Nil
  then show ?case by simp
next
  case (Cons n ns)
  show ?case
  proof (cases "P n = None")
    case False
    with Cons show ?thesis by (auto intro!: ext)
  next
    case True
    then have cn: "current \<noteq> n" using Cons.prems by auto
    have f: "filter (\<lambda>v. (P(n \<mapsto> pc @ [n])) v = None) ns = filter (\<lambda>v. P v = None) ns"
      using Cons.prems by (intro filter_cong) auto
    have IH: "relax local current ns (q @ [n], P(n \<mapsto> pc @ [n]),
          if n \<noteq> local then R(n \<mapsto> make_route n (pc @ [n])) else R) =
        ((q @ [n]) @ filter (\<lambda>v. P v = None) ns,
         \<lambda>v. if v \<in> set ns \<and> (P(n \<mapsto> pc @ [n])) v = None then Some (pc @ [v]) else (P(n \<mapsto> pc @ [n])) v,
         \<lambda>v. if v \<in> set ns \<and> (P(n \<mapsto> pc @ [n])) v = None \<and> v \<noteq> local then Some (make_route v (pc @ [v]))
           else (if n \<noteq> local then R(n \<mapsto> make_route n (pc @ [n])) else R) v)"
      using Cons.prems cn unfolding f [symmetric] by (intro Cons.IH) auto
    show ?thesis
      using True Cons.prems cn by (auto simp: Let_def IH intro!: ext)
  qed
qed

text \<open>Adding the unseen neighbours \<open>new\<close> of the node \<open>u\<close> at the head of the queue.\<close>

definition ext_paths :: "(node_id \<rightharpoonup> node_id list) \<Rightarrow> node_id list \<Rightarrow> node_id list \<Rightarrow> (node_id \<rightharpoonup> node_id list)" where
  "ext_paths P pc new = (\<lambda>v. if v \<in> set new then Some (pc @ [v]) else P v)"

definition ext_routes :: "node_id \<Rightarrow> routes \<Rightarrow> node_id list \<Rightarrow> node_id list \<Rightarrow> routes" where
  "ext_routes local R pc new =
     (\<lambda>v. if v \<in> set new \<and> v \<noteq> local then Some (make_route v (pc @ [v])) else R v)"

definition unseen :: "advertised \<Rightarrow> node_id \<Rightarrow> (node_id \<rightharpoonup> node_id list) \<Rightarrow> node_id list \<Rightarrow> node_id list \<Rightarrow> bool" where
  "unseen adv u P pc new \<longleftrightarrow> P u = Some pc \<and> set new = {w. linked adv u w \<and> P w = None}"

lemma dom_ext_paths [simp]: "dom (ext_paths P pc new) = dom P \<union> set new"
  by (auto simp: ext_paths_def split: if_splits)

lemma steps_ext:
  assumes "unseen adv u P pc new"
  shows "v \<in> dom P \<Longrightarrow> steps_to (ext_paths P pc new) v = steps_to P v"
    "v \<in> set new \<Longrightarrow> steps_to (ext_paths P pc new) v = steps_to P u + 1"
  using assms by (auto simp: steps_to_def ext_paths_def unseen_def)

lemma level_le: "levels_ok (u # rest) P \<Longrightarrow> v \<in> dom P \<Longrightarrow> steps_to P v \<le> steps_to P u + 1"
  unfolding levels_ok_def by (metis list.distinct(1) list.sel(1))

lemma steps_ext_le:
  "unseen adv u P pc new \<Longrightarrow> levels_ok (u # rest) P \<Longrightarrow> v \<in> dom P \<union> set new \<Longrightarrow>
    steps_to (ext_paths P pc new) v \<le> steps_to P u + 1"
  using steps_ext level_le by (metis UnE order_refl)

lemma walk_snoc: "walk adv local u pc \<Longrightarrow> linked adv u w \<Longrightarrow> walk adv local w (pc @ [w])"
  by (auto simp: walk_def successively_append_iff)

lemma paths_ok_ext:
  assumes ok: "paths_ok adv local P" and new: "unseen adv u P pc new"
  shows "paths_ok adv local (ext_paths P pc new)"
proof -
  have pc: "walk adv local u pc" "distinct pc" "set pc \<subseteq> dom P"
    using ok new by (auto simp: paths_ok_def unseen_def)
  have "local \<notin> set new"
    using ok new by (auto simp: paths_ok_def unseen_def)
  moreover have "walk adv local v p \<and> distinct p \<and> set p \<subseteq> dom (ext_paths P pc new)"
    if v: "ext_paths P pc new v = Some p" for v p
  proof (cases "v \<in> set new")
    case True
    then have "p = pc @ [v]" "linked adv u v" "v \<notin> dom P"
      using v new by (auto simp: ext_paths_def unseen_def)
    then show ?thesis
      using pc walk_snoc True by auto
  next
    case False
    then have "P v = Some p" using v by (simp add: ext_paths_def)
    then show ?thesis
      using ok unfolding paths_ok_def by auto
  qed
  ultimately show ?thesis
    using ok by (auto simp: paths_ok_def ext_paths_def)
qed

lemma routes_ok_ext:
  "routes_ok local P R \<Longrightarrow> routes_ok local (ext_paths P pc new) (ext_routes local R pc new)"
  by (auto simp: routes_ok_def ext_paths_def ext_routes_def)

lemma levels_ok_ext:
  assumes ok: "levels_ok (u # rest) P" and new: "unseen adv u P pc new"
  shows "levels_ok (rest @ new) (ext_paths P pc new)"
proof -
  let ?P = "ext_paths P pc new"
  have rest: "set rest \<subseteq> dom P" and u: "\<And>v. v \<in> set rest \<Longrightarrow> steps_to P u \<le> steps_to P v"
      "sorted (map (steps_to P) rest)"
    using ok by (auto simp: levels_ok_def)
  have hd: "steps_to P u \<le> steps_to ?P v" if "v \<in> set (rest @ new)" for v
  proof (cases "v \<in> set new")
    case True
    then show ?thesis using steps_ext(2) [OF new] by simp
  next
    case False
    then have "v \<in> set rest" "v \<in> dom P" using that rest by auto
    then show ?thesis using u(1) steps_ext(1) [OF new] by simp
  qed
  have maps: "map (steps_to ?P) rest = map (steps_to P) rest"
      "map (steps_to ?P) new = map (\<lambda>_. steps_to P u + 1) new"
  proof -
    show "map (steps_to ?P) rest = map (steps_to P) rest"
      by (rule map_cong [OF refl], rule steps_ext(1) [OF new]) (use rest in blast)
    show "map (steps_to ?P) new = map (\<lambda>_. steps_to P u + 1) new"
      by (rule map_cong [OF refl], rule steps_ext(2) [OF new])
  qed
  have "sorted (map (steps_to ?P) (rest @ new))"
  proof -
    have "sorted (map (\<lambda>_. steps_to P u + 1) new)"
      by (simp add: sorted_iff_nth_mono)
    moreover have "\<forall>x \<in> set rest. steps_to P x \<le> steps_to P u + 1"
      using level_le [OF ok] rest by blast
    ultimately show ?thesis
      using maps u(2) by (simp only: map_append sorted_append) auto
  qed
  moreover have "steps_to ?P v \<le> steps_to ?P (hd (rest @ new)) + 1"
    if "v \<in> dom ?P" "rest @ new \<noteq> []" for v
  proof -
    have "steps_to ?P v \<le> steps_to P u + 1"
      using that(1) by (intro steps_ext_le [OF new ok]) simp
    also have "\<dots> \<le> steps_to ?P (hd (rest @ new)) + 1"
      using hd [OF hd_in_set [OF that(2)]] by simp
    finally show ?thesis .
  qed
  ultimately show ?thesis
    using rest unfolding levels_ok_def by auto
qed

lemma done_ok_ext:
  assumes ok: "done_ok adv (u # rest) P" "levels_ok (u # rest) P" and new: "unseen adv u P pc new"
  shows "done_ok adv (rest @ new) (ext_paths P pc new)"
proof -
  let ?P = "ext_paths P pc new"
  have "w \<in> dom ?P \<and> steps_to ?P w \<le> steps_to ?P v + 1"
    if v: "v \<in> dom ?P" "v \<notin> set (rest @ new)" "linked adv v w" for v w
  proof -
    from v have vP: "v \<in> dom P" by auto
    show ?thesis
    proof (cases "v = u")
      case True
      then have w: "w \<in> dom ?P" using v(3) new by (auto simp: unseen_def domIff)
      then have "steps_to ?P w \<le> steps_to P u + 1"
        by (intro steps_ext_le [OF new ok(2)]) simp
      with w True steps_ext(1) [OF new vP] show ?thesis by simp
    next
      case False
      then have "w \<in> dom P" "steps_to P w \<le> steps_to P v + 1"
        using ok(1) vP v unfolding done_ok_def by auto
      then show ?thesis using steps_ext(1) [OF new] vP by auto
    qed
  qed
  then show ?thesis unfolding done_ok_def by blast
qed

text \<open>The loop body of the search.\<close>

lemma search_inv_step:
  assumes "search_inv adv local (u # rest, P, R)"
  shows "search_inv adv local (relax local u (adjacency adv u) (rest, P, R))"
proof -
  obtain pc where pc: "P u = Some pc"
    using assms by (auto simp: levels_ok_def)
  let ?new = "filter (\<lambda>n. P n = None) (adjacency adv u)"
  have new: "unseen adv u P pc ?new"
    using pc by (auto simp: unseen_def set_adjacency)
  have "relax local u (adjacency adv u) (rest, P, R) =
      (rest @ ?new, ext_paths P pc ?new, ext_routes local R pc ?new)"
    by (subst relax_eq [where ns = "adjacency adv u" and P = P and pc = pc, OF distinct_adjacency pc])
      (auto simp: ext_paths_def ext_routes_def intro!: ext)
  then show ?thesis
    using assms new by (auto intro: paths_ok_ext routes_ok_ext levels_ok_ext done_ok_ext)
qed

lemma search_inv_final:
  "search_inv adv local st \<Longrightarrow> \<exists>P R. search adv local st = ([], P, R) \<and> search_inv adv local ([], P, R)"
proof (induction adv local st rule: search.induct)
  case (1 adv local queue P R)
  show ?case
  proof (cases queue)
    case Nil
    with 1 show ?thesis by (simp add: search.simps)
  next
    case (Cons u rest)
    with 1 search_inv_step show ?thesis by (subst search.simps) fastforce
  qed
qed

lemma compute_inv:
  obtains P where "paths_ok (advertised_of lsas) local P" "routes_ok local P (compute local lsas)"
    "done_ok (advertised_of lsas) [] P"
proof -
  have "search_inv (advertised_of lsas) local ([local], [local \<mapsto> [local]], Map.empty)"
    by (auto simp: paths_ok_def routes_ok_def levels_ok_def done_ok_def walk_def steps_to_def split: if_splits)
  from search_inv_final [OF this] obtain P R where
    "search (advertised_of lsas) local ([local], [local \<mapsto> [local]], Map.empty) = ([], P, R)"
    "search_inv (advertised_of lsas) local ([], P, R)" by blast
  then show ?thesis
    by (intro that [of P]) (auto simp: compute_def routes_in_def)
qed

lemma walk_found:
  assumes "paths_ok adv local P" "done_ok adv [] P"
  shows "walk adv local v w \<Longrightarrow> v \<in> dom P \<and> steps_to P v \<le> length w"
proof (induction w arbitrary: v rule: rev_induct)
  case Nil
  then show ?case by (simp add: walk_def)
next
  case (snoc x w)
  show ?case
  proof (cases "w = []")
    case True
    with snoc.prems assms(1) show ?thesis
      by (auto simp: walk_def paths_ok_def steps_to_def)
  next
    case False
    with snoc.prems have "walk adv local (last w) w" "linked adv (last w) x" "v = x"
      by (auto simp: walk_def successively_append_iff)
    with snoc.IH assms(2) show ?thesis
      unfolding done_ok_def by fastforce
  qed
qed

subsection \<open>What the routes mean\<close>

definition mutual :: "lsa_map \<Rightarrow> node_id \<Rightarrow> node_id \<Rightarrow> bool" where
  "mutual lsas a b = linked (advertised_of lsas) a b"

lemma compute_path:
  assumes "compute local lsas dst = Some r"
  shows "walk (advertised_of lsas) local dst (rt_path r)" "distinct (rt_path r)" "dst \<noteq> local"
    "r = make_route dst (rt_path r)" "2 \<le> length (rt_path r)"
proof -
  obtain P where P: "paths_ok (advertised_of lsas) local P" "routes_ok local P (compute local lsas)"
    by (rule compute_inv)
  from P(2) assms obtain p where p: "P dst = Some p" "r = make_route dst p" "dst \<noteq> local"
    by (auto simp: routes_ok_def split: if_splits)
  with P(1) show w: "walk (advertised_of lsas) local dst (rt_path r)" and "distinct (rt_path r)"
    by (auto simp: paths_ok_def make_route_def)
  show "dst \<noteq> local" "r = make_route dst (rt_path r)"
    using p by (simp_all add: make_route_def)
  show "2 \<le> length (rt_path r)"
    using w p(3) unfolding walk_def by (cases "rt_path r" rule: list.exhaust; cases "tl (rt_path r)") auto
qed

lemma compute_shortest:
  assumes "walk (advertised_of lsas) local dst w" "dst \<noteq> local"
  obtains r where "compute local lsas dst = Some r" "rt_hops r \<le> length w - 1"
proof -
  obtain P where P: "paths_ok (advertised_of lsas) local P" "routes_ok local P (compute local lsas)"
      "done_ok (advertised_of lsas) [] P"
    by (rule compute_inv)
  from walk_found [OF P(1,3) assms(1)] obtain p where p: "P dst = Some p" "length p \<le> length w"
    by (auto simp: steps_to_def)
  show ?thesis
    using P(2) p assms(2)
    by (intro that [of "make_route dst p"]) (auto simp: routes_ok_def make_route_def)
qed

text \<open>The order of the maps does not matter: only what each node advertises does.\<close>

definition same_sets :: "advertised \<Rightarrow> advertised \<Rightarrow> bool" where
  "same_sets adv adv' \<longleftrightarrow> (\<forall>i. map_option set (map_of adv i) = map_option set (map_of adv' i))"

lemma map_of_advertised:
  "map_of (advertised_of lsas) i = map_option (neighbor_set i) (map_of lsas i)"
  by (induction lsas) (auto simp: advertised_of_def)

lemma advertises_cong: "same_sets adv adv' \<Longrightarrow> advertises adv = advertises adv'"
proof (intro ext)
  fix a b
  assume "same_sets adv adv'"
  then have "map_option set (map_of adv a) = map_option set (map_of adv' a)"
    unfolding same_sets_def by blast
  then show "advertises adv a b = advertises adv' a b"
    by (auto simp: advertises_def split: option.splits)
qed

text \<open>The neighbours are sorted, so that two orders of the same set become one.\<close>

lemma adjacency_cong:
  assumes "same_sets adv adv'"
  shows "adjacency adv a = adjacency adv' a"
proof (cases "map_of adv a")
  case None
  with assms have "map_of adv' a = None"
    unfolding same_sets_def by (metis map_option_is_None)
  with None show ?thesis by (simp add: adjacency_def)
next
  case (Some ns)
  with assms obtain ns' where ns': "map_of adv' a = Some ns'" "set ns' = set ns"
    unfolding same_sets_def by (metis map_option_eq_Some)
  have "sort_by node_less (filter (\<lambda>b. advertises adv b a) (remdups ns)) =
      sort_by node_less (filter (\<lambda>b. advertises adv b a) (remdups ns'))"
    by (rule node_order.sort_by_cong) (simp_all add: ns'(2))
  then show ?thesis
    by (simp add: adjacency_def Some ns'(1) advertises_cong [OF assms])
qed

lemma search_cong:
  "same_sets adv adv' \<Longrightarrow> search adv local st = search adv' local st"
proof (induction adv local st rule: search.induct)
  case (1 adv local queue P R)
  then show ?case
    using adjacency_cong [OF 1(2)]
    by (cases queue) (simp_all add: search.simps [of adv] search.simps [of adv'])
qed

lemma routes_in_cong: "same_sets adv adv' \<Longrightarrow> routes_in adv local = routes_in adv' local"
  by (simp add: routes_in_def search_cong)

lemma compute_cong: "map_of lsas = map_of lsas' \<Longrightarrow> compute local lsas = compute local lsas'"
  unfolding compute_def by (rule routes_in_cong) (simp add: same_sets_def map_of_advertised)

subsection \<open>Properties\<close>

text \<open>Two nodes that advertise each other, for the witnesses.\<close>

definition sample_node :: "byte \<Rightarrow> node_id" where
  "sample_node k = NodeID (arr_of [k])"

definition sample_lsa :: "node_id list \<Rightarrow> lsa" where
  "sample_lsa ns = \<lparr> l_version = 1, l_sequence = 1, l_time = 0, l_expires = 1000, l_node = [],
     l_public_key = [], l_advertise = [], l_neighbors = Some (map node_string ns), l_services = [],
     l_signature = [] \<rparr>"

definition sample_pair :: lsa_map where
  "sample_pair = [(sample_node 1, sample_lsa [sample_node 2]), (sample_node 2, sample_lsa [sample_node 1])]"

lemma sample_node_eq [simp]: "sample_node j = sample_node k \<longleftrightarrow> j = k"
  by (simp add: sample_node_def flip: arr_bytes_eq_iff)

lemma adjacency_pair:
  "adjacency (advertised_of sample_pair) (sample_node 1) = [sample_node 2]"
  "adjacency (advertised_of sample_pair) (sample_node 2) = [sample_node 1]"
  by (simp_all add: adjacency_def advertises_def advertised_of_def sample_pair_def neighbor_set_def
      sample_lsa_def)

lemma compute_pair:
  "compute (sample_node 1) sample_pair =
     [sample_node 2 \<mapsto> make_route (sample_node 2) [sample_node 1, sample_node 2]]"
  by (simp add: compute_def routes_in_def search.simps adjacency_pair Let_def)

text \<open>C1. Every route \<open>Compute\<close> returns is a path from the local node to the destination without
  repeated nodes in which any two consecutive nodes advertise each other; its next hop is the
  second node of the path and its hop count the number of links.\<close>

theorem route_sound:
  assumes "compute local lsas dst = Some r"
  shows "rt_destination r = dst \<and> dst \<noteq> local \<and> hd (rt_path r) = local \<and> last (rt_path r) = dst \<and>
    distinct (rt_path r) \<and> successively (mutual lsas) (rt_path r) \<and>
    rt_next_hop r = rt_path r ! 1 \<and> length (rt_path r) = rt_hops r + 1 \<and> 1 \<le> rt_hops r"
proof -
  note p = compute_path [OF assms]
  have "rt_destination r = dst" "rt_next_hop r = rt_path r ! 1" "rt_hops r = length (rt_path r) - 1"
    by (subst p(4), simp add: make_route_def)+
  with p show ?thesis
    by (auto simp: walk_def mutual_def [abs_def])
qed

lemma route_sound_witness:
  "successively (mutual sample_pair) [sample_node 1, sample_node 2]"
  using route_sound [of "sample_node 1" sample_pair "sample_node 2"]
  by (simp add: compute_pair make_route_def)

text \<open>C2. A destination that mutual links reach from the local node gets a route, and no path of
  mutual links to it is shorter than that route.\<close>

theorem route_shortest:
  assumes "w \<noteq> []" "hd w = local" "last w = dst" "successively (mutual lsas) w" "dst \<noteq> local"
  shows "\<exists>r. compute local lsas dst = Some r \<and> rt_hops r \<le> length w - 1"
  using compute_shortest [of lsas local dst w] assms
  by (auto simp: walk_def mutual_def [abs_def])

lemma route_shortest_witness:
  "\<exists>r. compute (sample_node 1) sample_pair (sample_node 2) = Some r \<and> rt_hops r \<le> 1"
proof -
  have "mutual sample_pair (sample_node 1) (sample_node 2)"
    using set_adjacency [of "sample_node 2"] by (simp add: mutual_def adjacency_pair flip: set_adjacency)
  then show ?thesis
    using route_shortest [of "[sample_node 1, sample_node 2]" "sample_node 1" "sample_node 2" sample_pair]
    by simp
qed

text \<open>A square: the far corner is two links away on either side.\<close>

definition sample_square :: lsa_map where
  "sample_square = [(sample_node 1, sample_lsa [sample_node 2, sample_node 3]), (sample_node 2, sample_lsa [sample_node 1, sample_node 4]),
     (sample_node 3, sample_lsa [sample_node 4, sample_node 1]), (sample_node 4, sample_lsa [sample_node 3, sample_node 2])]"

definition sample_square_sets :: advertised where
  "sample_square_sets = [(sample_node 4, [sample_node 2, sample_node 3]), (sample_node 3, [sample_node 1, sample_node 4]),
     (sample_node 2, [sample_node 4, sample_node 1]), (sample_node 1, [sample_node 3, sample_node 2])]"

text \<open>C29. \<open>Compute\<close> is a function of what the known nodes announce. \<open>adv\<close> is the map of neighbour sets as one
  run meets it: its entries in any order, and the neighbours of each node in any order, as long as they are
  the set its announcement names. Whatever these orders are (Go's \<open>range\<close> over a map picks them anew each
  time), the routes, with their paths and next hops, are the same.\<close>

theorem route_order_independent:
  assumes "\<forall>i. map_option set (map_of adv i) = map_option (\<lambda>l. set (neighbor_set i l)) (map_of lsas i)"
  shows "routes_in adv local = compute local lsas"
  unfolding compute_def
  by (rule routes_in_cong) (use assms in \<open>simp add: same_sets_def map_of_advertised option.map_comp comp_def\<close>)

lemma route_order_independent_witness:
  "routes_in sample_square_sets (sample_node 1) = compute (sample_node 1) sample_square"
  by (rule route_order_independent)
    (auto simp: sample_square_sets_def sample_square_def neighbor_set_def sample_lsa_def)

end
