(* ===== verification/Naming.thy ===== *)
theory Naming
  imports Control
begin

section \<open>Names: .knot addresses, aliases, alias records\<close>

text \<open>
  \<open>internal/naming\<close>: the self-authenticating address labels (version, 32-byte identity, two bytes of
  checksum, in base32), the resolution of host names, alias validation, and signed alias records.
  The lemmas give the round trip of the labels and what a label that parses looks like, the
  resolution of canonical and alias names on every branch, and the checking of signed records.
  \<open>%q\<close> in error texts is plain quoting.
\<close>

definition knot_suffix :: string where "knot_suffix = ''.knot''"
definition node_address_version :: byte where "node_address_version = 1"
definition service_address_version :: byte where "service_address_version = 2"
definition default_service :: string where "default_service = ''http''"

subsection \<open>Regular expressions\<close>

definition lower_or_digit :: "char \<Rightarrow> bool" where
  "lower_or_digit c = (let n = of_char c :: nat in 97 \<le> n \<and> n \<le> 122 \<or> 48 \<le> n \<and> n \<le> 57)"

definition alias_name :: "string \<Rightarrow> bool" where
  "alias_name s =
     (case s of [] \<Rightarrow> False
      | c # t \<Rightarrow> lower_or_digit c \<and> length t \<le> 62 \<and>
                 list_all (\<lambda>x. lower_or_digit x \<or> x = CHR ''-'') t)"

definition service_name :: "string \<Rightarrow> bool" where
  "service_name s =
     (case s of [] \<Rightarrow> False
      | c # t \<Rightarrow> lower_or_digit c \<and> length t \<le> 62 \<and>
                 list_all (\<lambda>x. lower_or_digit x \<or> x = CHR ''.'' \<or> x = CHR ''_'' \<or> x = CHR ''-'') t)"

subsection \<open>Labels\<close>

definition checksum :: "crypto \<Rightarrow> bytes \<Rightarrow> bytes" where
  "checksum C payload = arr_bytes (sha256 C (string_bytes ''knotroute-address-checksum-v2'' @ payload))"

definition encode_label :: "crypto \<Rightarrow> byte \<Rightarrow> bytes \<Rightarrow> string" where
  "encode_label C kind raw =
     to_lower (b32_encode (kind # raw @ take 2 (checksum C (kind # raw))))"

definition canonical_label :: "crypto \<Rightarrow> node_id \<Rightarrow> string" where
  "canonical_label C i = encode_label C node_address_version (node_bytes i)"

definition canonical_domain :: "crypto \<Rightarrow> node_id \<Rightarrow> string" where
  "canonical_domain C i = canonical_label C i @ knot_suffix"

definition service_canonical_label :: "crypto \<Rightarrow> service_id \<Rightarrow> string" where
  "service_canonical_label C i = encode_label C service_address_version (service_bytes i)"

definition service_canonical_domain :: "crypto \<Rightarrow> service_id \<Rightarrow> string" where
  "service_canonical_domain C i = service_canonical_label C i @ knot_suffix"

definition normalize_service :: "string \<Rightarrow> string" where
  "normalize_service s = (let t = to_lower (trim_space s) in if t = [] then default_service else t)"

definition service_domain :: "crypto \<Rightarrow> string \<Rightarrow> node_id \<Rightarrow> string result" where
  "service_domain C service i =
     (let s = normalize_service service in
      if \<not> service_name s then Inl (''invalid service name '' @ quoted s)
      else Inr (s @ ''.'' @ canonical_domain C i))"

record parsed_label =
  pl_kind :: byte
  pl_node :: node_id
  pl_service :: service_id

definition parse_label :: "crypto \<Rightarrow> string \<Rightarrow> parsed_label result" where
  "parse_label C label =
     (case b32_decode (to_upper (clean_text label)) of
        Inl e \<Rightarrow> Inl (''decode .knot address: '' @ e)
      | Inr raw \<Rightarrow>
          if length raw \<noteq> 35
          then Inl (''invalid .knot address length: got '' @ show_nat (length raw) @ '' bytes'')
          else
            let expected = checksum C (take 33 raw) in
            if raw ! 33 \<noteq> expected ! 0 \<or> raw ! 34 \<noteq> expected ! 1
            then Inl ''invalid .knot address checksum''
            else if raw ! 0 = node_address_version
            then (case node_from_bytes (take 32 (drop 1 raw)) of Inl e \<Rightarrow> Inl e
              | Inr i \<Rightarrow> Inr \<lparr> pl_kind = node_address_version, pl_node = i, pl_service = zero_service \<rparr>)
            else if raw ! 0 = service_address_version
            then (case service_from_bytes (take 32 (drop 1 raw)) of Inl e \<Rightarrow> Inl e
              | Inr i \<Rightarrow> Inr \<lparr> pl_kind = service_address_version, pl_node = zero_node, pl_service = i \<rparr>)
            else Inl (''unsupported .knot address version '' @ show_nat (unat (raw ! 0))))"

definition parse_canonical_label :: "crypto \<Rightarrow> string \<Rightarrow> node_id result" where
  "parse_canonical_label C label =
     (case parse_label C label of Inl e \<Rightarrow> Inl e
      | Inr p \<Rightarrow> if pl_kind p \<noteq> node_address_version
                then Inl ''address is a service identity, not a node identity'' else Inr (pl_node p))"

definition parse_service_canonical_label :: "crypto \<Rightarrow> string \<Rightarrow> service_id result" where
  "parse_service_canonical_label C label =
     (case parse_label C label of Inl e \<Rightarrow> Inl e
      | Inr p \<Rightarrow> if pl_kind p \<noteq> service_address_version
                then Inl ''address is a node identity, not a service identity'' else Inr (pl_service p))"

lemma length_checksum [simp]: "length (checksum C p) = 32"
  by (simp add: checksum_def)

lemma spaceless_encode_label [simp]: "spaceless (encode_label C k raw)"
  by (simp add: encode_label_def)

lemma to_lower_encode_label [simp]: "to_lower (encode_label C k raw) = encode_label C k raw"
  by (simp add: encode_label_def)

lemma label_layout:
  assumes "length raw = 32" "length s = 32" and l: "l = k # raw @ take 2 s"
  shows "length l = 35" "take 33 l = k # raw" "l ! 33 = s ! 0" "l ! 34 = s ! 1" "l ! 0 = k"
    "take 32 (drop 1 l) = raw"
  using assms by (simp_all add: nth_append)

lemma parse_label_encode:
  assumes "length raw = 32"
  shows "parse_label C (encode_label C k raw) =
    (if k = node_address_version
     then (case node_from_bytes raw of Inl e \<Rightarrow> Inl e
       | Inr i \<Rightarrow> Inr \<lparr> pl_kind = node_address_version, pl_node = i, pl_service = zero_service \<rparr>)
     else if k = service_address_version
     then (case service_from_bytes raw of Inl e \<Rightarrow> Inl e
       | Inr i \<Rightarrow> Inr \<lparr> pl_kind = service_address_version, pl_node = zero_node, pl_service = i \<rparr>)
     else Inl (''unsupported .knot address version '' @ show_nat (unat k)))"
proof -
  define l where "l = k # raw @ take 2 (checksum C (k # raw))"
  note lay = label_layout [OF assms length_checksum l_def]
  have "b32_decode (to_upper (clean_text (encode_label C k raw))) = Inr l"
    by (simp add: encode_label_def clean_text_lower_spaceless l_def)
  then show ?thesis
    unfolding parse_label_def by (simp only: sum.case lay Let_def) simp
qed

lemma parse_canonical [simp]:
  "parse_label C (canonical_label C i) =
     Inr \<lparr> pl_kind = node_address_version, pl_node = i, pl_service = zero_service \<rparr>"
  "parse_label C (service_canonical_label C s) =
     Inr \<lparr> pl_kind = service_address_version, pl_node = zero_node, pl_service = s \<rparr>"
  by (simp_all add: canonical_label_def service_canonical_label_def parse_label_encode
      node_address_version_def service_address_version_def)

text \<open>
  What an accepted label looks like: its first 56 digits are the canonical label of the identity it
  names. The decoder ignores a last group of 1, 3 or 6 digits, which may follow them.
\<close>

definition label_of :: "crypto \<Rightarrow> parsed_label \<Rightarrow> string" where
  "label_of C p = (if pl_kind p = node_address_version then canonical_label C (pl_node p)
                   else service_canonical_label C (pl_service p))"

lemma take_33_cons: "length raw = 35 \<Longrightarrow> raw = raw ! 0 # take 32 (drop 1 raw) @ [raw ! 33, raw ! 34]"
proof -
  assume l: "length raw = 35"
  have "raw = take 1 raw @ take 32 (drop 1 raw) @ drop 33 raw"
    using take_drop_cut [of 32 1 raw] by simp
  moreover have "take 1 raw = [raw ! 0]"
    using l by (cases raw) auto
  moreover have "drop 33 raw = [raw ! 33, raw ! 34]"
    using l take_two [of "drop 33 raw"] by simp
  ultimately show ?thesis by simp
qed

lemma parse_label_raw:
  assumes "parse_label C s = Inr p"
  obtains raw where "b32_decode (to_upper (clean_text s)) = Inr raw" "length raw = 35"
    "to_lower (b32_encode raw) = label_of C p"
    "pl_kind p = node_address_version \<or> pl_kind p = service_address_version"
proof -
  obtain raw where raw: "b32_decode (to_upper (clean_text s)) = Inr raw" "length raw = 35"
      "raw ! 33 = checksum C (take 33 raw) ! 0" "raw ! 34 = checksum C (take 33 raw) ! 1"
    using assms by (auto simp: parse_label_def Let_def split: sum.splits if_splits)
  let ?id = "take 32 (drop 1 raw)"
  have shape: "raw = raw ! 0 # ?id @ [raw ! 33, raw ! 34]"
    by (rule take_33_cons [OF raw(2)])
  have t33: "take 33 raw = raw ! 0 # ?id"
    by (subst shape) (use raw(2) in simp)
  have "[raw ! 33, raw ! 34] = take 2 (checksum C (raw ! 0 # ?id))"
    using take_two [of "checksum C (raw ! 0 # ?id)"] raw(3,4) unfolding t33 by simp
  then have enc: "to_lower (b32_encode raw) = encode_label C (raw ! 0) ?id"
    using shape unfolding encode_label_def by simp
  have l: "length ?id = 32" using raw(2) by simp
  have "(raw ! 0 = node_address_version \<and> p = \<lparr> pl_kind = node_address_version,
          pl_node = NodeID (arr_of ?id), pl_service = zero_service \<rparr>) \<or>
        (raw ! 0 = service_address_version \<and> p = \<lparr> pl_kind = service_address_version,
          pl_node = zero_node, pl_service = ServiceID (arr_of ?id) \<rparr>)"
    using assms raw l
    by (auto simp: parse_label_def Let_def node_from_bytes_def service_from_bytes_def split: if_splits)
  then show ?thesis
    using l enc raw
    by (intro that [of raw])
      (auto simp: label_of_def canonical_label_def service_canonical_label_def
        node_address_version_def service_address_version_def)
qed

lemma b32_final_zero: "n < 8 \<Longrightarrow> b32_final n = 0 \<Longrightarrow> n \<in> {0, 1, 3, 6}"
  by (auto simp: b32_final_def numeral_eq_Suc less_Suc_eq split: if_splits)

lemma seven_groups: "5 * q + r = 35 \<Longrightarrow> r < 5 \<Longrightarrow> q = 7 \<and> r = (0::nat)"
  by presburger

lemma parse_label_shape:
  assumes "parse_label C s = Inr p"
  shows "to_lower (take 56 (strip_newlines (to_upper (clean_text s)))) = label_of C p"
    "length (strip_newlines (to_upper (clean_text s))) \<in> {56, 57, 59, 62}"
proof -
  let ?t = "strip_newlines (to_upper (clean_text s))"
  obtain raw where raw: "b32_decode (to_upper (clean_text s)) = Inr raw" "length raw = 35"
      "to_lower (b32_encode raw) = label_of C p"
    using assms by (rule parse_label_raw)
  obtain ds where ds: "digits_of b32_alphabet 0 ?t = Inr ds" "raw = decode_groups 5 8 b32_final ds"
    using raw(1) by (auto simp: b32_decode_def split: sum.splits)
  have t: "?t = map (\<lambda>d. b32_alphabet ! d) ds" and lt: "list_all (\<lambda>d. d < 32) ds"
    using digits_of_InrD [OF ds(1)] by auto
  have "5 * (length ds div 8) + b32_final (length ds mod 8) = 35"
    using b32_decode_length [OF lt] raw(2) ds(2) by simp
  moreover have "b32_final (length ds mod 8) < 5"
    by simp
  ultimately have d: "length ds div 8 = 7" "b32_final (length ds mod 8) = 0"
    using seven_groups by blast+
  then have "length ds mod 8 \<in> {0, 1, 3, 6}"
    using mod_less_divisor [of 8 "length ds"] by (intro b32_final_zero) simp_all
  moreover have "length ds = 56 + length ds mod 8"
    using d(1) mult_div_mod_eq [of 8 "length ds"] by simp
  ultimately have len: "length ds \<in> {56, 57, 59, 62}" by auto
  then show "length ?t \<in> {56, 57, 59, 62}" by (simp add: t)
  have l56: "length (take 56 ds) = 8 * 7" using len by auto
  have "raw = decode_groups 5 8 b32_final (take 56 ds) @ decode_groups 5 8 b32_final (drop 56 ds)"
    using b32_decode_groups_append [OF l56, of "drop 56 ds"] ds(2) by simp
  moreover have lt56: "list_all (\<lambda>d. d < 2 ^ 5) (take 56 ds)"
    using lt by (auto simp: list_all_iff dest: in_set_takeD)
  moreover note full = b32.full_groups_unique [OF l56 lt56]
  ultimately have "raw = decode_groups 5 8 b32_final (take 56 ds)"
    using raw(2) by simp
  then have "b32_encode raw = take 56 ?t"
    using full by (simp add: b32_encode_def t take_map)
  then show "to_lower (take 56 ?t) = label_of C p"
    using raw(3) by simp
qed

subsection \<open>References and aliases\<close>

record alias_entry =
  al_name :: string
  al_node :: string
  al_service :: string
  al_description :: string

record resolved =
  rs_kind :: byte
  rs_node :: node_id
  rs_service_id :: service_id
  rs_service :: string
  rs_canonical :: bool
  rs_alias :: string
  rs_host :: string

definition parse_node_reference :: "crypto \<Rightarrow> string \<Rightarrow> node_id result" where
  "parse_node_reference C text =
     (let v = clean_text text in
      if has_suffix v knot_suffix
      then let labels = split_on (CHR ''.'') (trim_suffix v knot_suffix) in
        if length labels \<noteq> 1
        then Inl ''alias target must be a node address, not a service address''
        else parse_canonical_label C (labels ! 0)
      else node_parse v)"

definition parse_service_reference :: "crypto \<Rightarrow> string \<Rightarrow> service_id result" where
  "parse_service_reference C text =
     (let v = clean_text text in
      if has_suffix v knot_suffix
      then let labels = split_on (CHR ''.'') (trim_suffix v knot_suffix) in
        if length labels \<noteq> 1
        then Inl ''service target must be a bare service address''
        else parse_service_canonical_label C (labels ! 0)
      else service_parse v)"

definition validate_alias :: "crypto \<Rightarrow> alias_entry \<Rightarrow> unit result" where
  "validate_alias C a =
     (let name = to_lower (trim_space (al_name a)) in
      if \<not> alias_name name then Inl (''invalid alias name '' @ quoted name)
      else if (al_node a = []) = (al_service a = [])
      then Inl ''alias must set exactly one of node or service_id''
      else if al_node a \<noteq> []
      then (case parse_node_reference C (al_node a) of Inl e \<Rightarrow> Inl e | Inr _ \<Rightarrow> Inr ())
      else (case parse_service_reference C (al_service a) of Inl e \<Rightarrow> Inl e | Inr _ \<Rightarrow> Inr ()))"

subsection \<open>Host names\<close>

text \<open>The branch of \<open>ResolveHost\<close> for a name whose last label is an address.\<close>

definition resolve_canonical :: "string \<Rightarrow> string list \<Rightarrow> parsed_label \<Rightarrow> resolved result" where
  "resolve_canonical host labels p =
     (if pl_kind p = service_address_version
      then if length labels \<noteq> 1
        then Inl ''service-identity .knot addresses do not accept a service prefix''
        else Inr \<lparr> rs_kind = service_address_version, rs_node = zero_node, rs_service_id = pl_service p,
          rs_service = [], rs_canonical = True, rs_alias = [], rs_host = host \<rparr>
      else
        let service = (if 1 < length labels then normalize_service (join ''.'' (butlast labels))
                       else default_service) in
        if \<not> service_name service then Inl (''invalid service name '' @ quoted service)
        else Inr \<lparr> rs_kind = node_address_version, rs_node = pl_node p, rs_service_id = zero_service,
          rs_service = service, rs_canonical = True, rs_alias = [], rs_host = host \<rparr>)"

text \<open>The loop over the aliases: the first one with the name decides.\<close>

fun resolve_alias :: "crypto \<Rightarrow> string \<Rightarrow> string list \<Rightarrow> string \<Rightarrow> alias_entry list \<Rightarrow> resolved result" where
  "resolve_alias C host labels name [] = Inl (''unknown local alias '' @ quoted name)"
| "resolve_alias C host labels name (a # as) =
     (if equal_fold (al_name a) name
      then if al_service a \<noteq> []
        then if length labels \<noteq> 1 then Inl ''service alias does not accept a service prefix''
          else (case parse_service_reference C (al_service a) of
              Inl e \<Rightarrow> Inl (''alias '' @ quoted (al_name a) @ '': '' @ e)
            | Inr i \<Rightarrow> Inr \<lparr> rs_kind = service_address_version, rs_node = zero_node, rs_service_id = i,
                rs_service = [], rs_canonical = False, rs_alias = name, rs_host = host \<rparr>)
        else (case parse_node_reference C (al_node a) of
            Inl e \<Rightarrow> Inl (''alias '' @ quoted (al_name a) @ '': '' @ e)
          | Inr i \<Rightarrow> Inr \<lparr> rs_kind = node_address_version, rs_node = i, rs_service_id = zero_service,
              rs_service = (if 1 < length labels then normalize_service (labels ! 0) else default_service),
              rs_canonical = False, rs_alias = name, rs_host = host \<rparr>)
      else resolve_alias C host labels name as)"

definition resolve_host :: "crypto \<Rightarrow> string \<Rightarrow> alias_entry list \<Rightarrow> resolved result" where
  "resolve_host C text aliases =
     (let host = trim_suffix (clean_text text) ''.'' in
      if CHR '':'' \<in> set host then Inl ''ResolveHost expects a hostname without a port''
      else if \<not> has_suffix host knot_suffix then Inl (''host '' @ quoted host @ '' is not a .knot name'')
      else
        let labels = split_on (CHR ''.'') (trim_suffix host knot_suffix) in
        if labels = [] \<or> last labels = [] then Inl ''empty .knot name''
        else (case parse_label C (last labels) of
            Inr p \<Rightarrow> resolve_canonical host labels p
          | Inl _ \<Rightarrow>
              if length labels \<noteq> 1 \<and> length labels \<noteq> 2 then Inl ''invalid alias address''
              else if \<not> alias_name (last labels) then Inl (''invalid alias '' @ quoted (last labels))
              else resolve_alias C host labels (last labels) aliases))"

definition resolve_node_reference :: "crypto \<Rightarrow> string \<Rightarrow> alias_entry list \<Rightarrow> node_id result" where
  "resolve_node_reference C text aliases =
     (let v = clean_text text in
      case parse_node_reference C v of
        Inr i \<Rightarrow> Inr i
      | Inl _ \<Rightarrow>
          if has_suffix v knot_suffix
          then (case resolve_host C v aliases of Inl e \<Rightarrow> Inl e
            | Inr r \<Rightarrow> if rs_kind r \<noteq> node_address_version
                      then Inl ''reference resolves to a service, not a node'' else Inr (rs_node r))
          else Inl (''invalid node reference '' @ quoted v))"

lemma b32_alphabet_plain:
  "c \<in> set b32_alphabet \<Longrightarrow> lower_char c \<noteq> CHR ''.'' \<and> lower_char c \<noteq> CHR '':''"
proof -
  have "list_all (\<lambda>c. lower_char c \<noteq> CHR ''.'' \<and> lower_char c \<noteq> CHR '':'') b32_alphabet"
    unfolding b32_alphabet_def by (simp add: lower_char_def char_of_eq_iff)
  then show "c \<in> set b32_alphabet \<Longrightarrow> lower_char c \<noteq> CHR ''.'' \<and> lower_char c \<noteq> CHR '':''"
    by (auto simp: list_all_iff)
qed

lemma label_plain:
  "CHR ''.'' \<notin> set (encode_label C k raw)" "CHR '':'' \<notin> set (encode_label C k raw)"
proof -
  have "\<forall>c \<in> set (b32_encode (k # raw @ take 2 (checksum C (k # raw)))).
      lower_char c \<noteq> CHR ''.'' \<and> lower_char c \<noteq> CHR '':''"
    using set_b32_encode b32_alphabet_plain by blast
  then show "CHR ''.'' \<notin> set (encode_label C k raw)" "CHR '':'' \<notin> set (encode_label C k raw)"
    unfolding encode_label_def to_lower_def set_map by (metis imageE)+
qed

lemma encode_label_nonempty [simp]: "encode_label C k raw \<noteq> []"
proof -
  have "encode_groups 5 5 (k # x) \<noteq> []" for x
    using b32.groups_roundtrip [of "k # x"] by (metis groups_Nil(2) list.distinct(1))
  then show ?thesis by (simp add: encode_label_def b32_encode_def to_lower_def)
qed

lemma knot_suffix_facts:
  "spaceless knot_suffix" "to_lower knot_suffix = knot_suffix" "CHR '':'' \<notin> set knot_suffix"
  "knot_suffix = CHR ''.'' # ''knot''" "\<not> has_suffix (s @ knot_suffix) ''.''"
  by (simp_all add: knot_suffix_def is_space_def to_lower_def lower_char_def char_of_eq_iff has_suffix_def)

lemma clean_host:
  "spaceless s \<Longrightarrow> to_lower s = s \<Longrightarrow> trim_suffix (clean_text (s @ knot_suffix)) ''.'' = s @ knot_suffix"
  using knot_suffix_facts
  by (simp add: clean_text_lower_spaceless trim_suffix_def)

text \<open>A lower-case host without colon is split into its labels and looked up.\<close>

lemma resolve_host_labels:
  assumes "spaceless s" "to_lower s = s" "CHR '':'' \<notin> set s" "labels = split_on (CHR ''.'') s" "last labels \<noteq> []"
  shows "resolve_host C (s @ knot_suffix) aliases =
    (case parse_label C (last labels) of
       Inr p \<Rightarrow> resolve_canonical (s @ knot_suffix) labels p
     | Inl _ \<Rightarrow>
         if length labels \<noteq> 1 \<and> length labels \<noteq> 2 then Inl ''invalid alias address''
         else if \<not> alias_name (last labels) then Inl (''invalid alias '' @ quoted (last labels))
         else resolve_alias C (s @ knot_suffix) labels (last labels) aliases)"
  using assms(1,2,3,5) knot_suffix_facts(3) unfolding assms(4)
  by (simp add: resolve_host_def clean_host Let_def)

lemma resolve_label_host:
  "parse_label C (encode_label C k raw) = Inr p \<Longrightarrow>
    resolve_host C (encode_label C k raw @ knot_suffix) aliases =
      resolve_canonical (encode_label C k raw @ knot_suffix) [encode_label C k raw] p"
  by (subst resolve_host_labels [OF _ _ _ refl]) (simp_all add: split_on_single label_plain)

lemma service_name_default: "service_name default_service"
  by (simp add: service_name_def default_service_def lower_or_digit_def)

lemma address_versions [simp]: "node_address_version \<noteq> service_address_version"
  by (simp add: node_address_version_def service_address_version_def)

lemma resolve_canonical_domains:
  "resolve_host C (canonical_domain C i) aliases =
     Inr \<lparr> rs_kind = node_address_version, rs_node = i, rs_service_id = zero_service,
       rs_service = default_service, rs_canonical = True, rs_alias = [], rs_host = canonical_domain C i \<rparr>"
  "resolve_host C (service_canonical_domain C s) aliases =
     Inr \<lparr> rs_kind = service_address_version, rs_node = zero_node, rs_service_id = s,
       rs_service = [], rs_canonical = True, rs_alias = [], rs_host = service_canonical_domain C s \<rparr>"
  using resolve_label_host [OF parse_canonical(1) [unfolded canonical_label_def], of C i aliases]
    resolve_label_host [OF parse_canonical(2) [unfolded service_canonical_label_def], of C s aliases]
  by (simp_all add: canonical_domain_def canonical_label_def service_canonical_domain_def
      service_canonical_label_def resolve_canonical_def service_name_default Let_def)

text \<open>A service name before a node address selects that service.\<close>

lemma service_name_chars: "service_name s \<Longrightarrow> spaceless s \<and> to_lower s = s \<and> CHR '':'' \<notin> set s \<and> s \<noteq> []"
proof -
  assume s: "service_name s"
  have "\<not> is_space c \<and> lower_char c = c \<and> c \<noteq> CHR '':''" if "c \<in> set s" for c
  proof -
    have "lower_or_digit c \<or> c = CHR ''.'' \<or> c = CHR ''_'' \<or> c = CHR ''-''"
      using s that by (auto simp: service_name_def list_all_iff split: list.splits)
    then show ?thesis
      by (auto simp: lower_or_digit_def is_space_def lower_char_def Let_def)
  qed
  then show ?thesis
    using s by (auto simp: spaceless_def list_all_iff to_lower_def service_name_def intro: map_idI)
qed

lemma split_on_append_single:
  "c \<notin> set t \<Longrightarrow> split_on c (s @ c # t) = split_on c s @ [t]"
  by (induction s) (auto simp: split_on_single split: list.splits)

lemma join_split: "join [c] (split_on c s) = s"
proof (induction s)
  case Nil
  then show ?case by simp
next
  case (Cons x s)
  then show ?case
    by (cases "split_on c s"; cases "tl (split_on c s)") (auto split: list.splits)
qed

lemma normalize_service_id: "service_name s \<Longrightarrow> normalize_service s = s"
  using service_name_chars [of s] by (simp add: normalize_service_def trim_space_spaceless Let_def)

lemma resolve_service_domain:
  assumes "service_name s"
  shows "resolve_host C (s @ ''.'' @ canonical_domain C i) aliases =
     Inr \<lparr> rs_kind = node_address_version, rs_node = i, rs_service_id = zero_service,
       rs_service = s, rs_canonical = True, rs_alias = [], rs_host = s @ ''.'' @ canonical_domain C i \<rparr>"
proof -
  let ?l = "canonical_label C i"
  have l: "CHR ''.'' \<notin> set ?l" "CHR '':'' \<notin> set ?l" "spaceless ?l" "to_lower ?l = ?l" "?l \<noteq> []"
    using label_plain by (simp_all add: canonical_label_def)
  note s = service_name_chars [OF assms]
  have sp: "split_on (CHR ''.'') (s @ ''.'' @ ?l) = split_on (CHR ''.'') s @ [?l]"
    using split_on_append_single [OF l(1)] by simp
  have dot: "spaceless ''.''" "to_lower ''.'' = ''.''"
    by (simp_all add: is_space_def to_lower_def lower_char_def)
  have "resolve_host C ((s @ ''.'' @ ?l) @ knot_suffix) aliases =
      resolve_canonical ((s @ ''.'' @ ?l) @ knot_suffix) (split_on (CHR ''.'') s @ [?l])
        \<lparr> pl_kind = node_address_version, pl_node = i, pl_service = zero_service \<rparr>"
    using s l dot by (subst resolve_host_labels [OF _ _ _ sp [symmetric]]) (simp_all add: to_lower_def)
  then show ?thesis
    using assms
    by (simp add: canonical_domain_def resolve_canonical_def join_split normalize_service_id Let_def)
qed

text \<open>The first alias with a name decides what it resolves to.\<close>

lemma resolve_alias_first:
  "find (\<lambda>a. equal_fold (al_name a) name) as = None \<Longrightarrow>
     resolve_alias C host labels name as = Inl (''unknown local alias '' @ quoted name)"
  "find (\<lambda>a. equal_fold (al_name a) name) as = Some a \<Longrightarrow>
     resolve_alias C host labels name as = resolve_alias C host labels name [a]"
  by (induction as) (auto split: if_splits)

lemma alias_name_chars:
  "alias_name s \<Longrightarrow> service_name s \<and> CHR ''.'' \<notin> set s"
  by (auto simp: alias_name_def service_name_def list_all_iff lower_or_digit_def split: list.splits)

lemma resolve_valid_alias:
  assumes "find (\<lambda>a. equal_fold (al_name a) name) aliases = Some a" "validate_alias C a = Inr ()"
    "alias_name name" "parse_label C name = Inl e"
  shows "\<exists>r. resolve_host C (name @ knot_suffix) aliases = Inr r \<and> \<not> rs_canonical r \<and> rs_alias r = name \<and>
     (if al_service a = []
      then rs_kind r = node_address_version \<and> parse_node_reference C (al_node a) = Inr (rs_node r) \<and>
           rs_service r = default_service
      else rs_kind r = service_address_version \<and> parse_service_reference C (al_service a) = Inr (rs_service_id r))"
proof -
  have n: "spaceless name" "to_lower name = name" "CHR '':'' \<notin> set name" "name \<noteq> []" "CHR ''.'' \<notin> set name"
    using alias_name_chars [OF assms(3)] service_name_chars by auto
  have sp: "split_on (CHR ''.'') name = [name]"
    using n(5) by (rule split_on_single)
  have "resolve_host C (name @ knot_suffix) aliases = resolve_alias C (name @ knot_suffix) [name] name [a]"
    using n assms resolve_alias_first(2) [OF assms(1)]
    by (subst resolve_host_labels [OF _ _ _ sp [symmetric]]) simp_all
  moreover have "equal_fold (al_name a) name"
    using assms(1) by (auto simp: find_Some_iff)
  ultimately show ?thesis
    using assms(2) by (auto simp: validate_alias_def Let_def split: if_splits sum.splits)
qed

text \<open>Digits of an incomplete last group after a label are ignored.\<close>

lemma digits_of_append:
  "digits_of al i s = Inr ds \<Longrightarrow> digits_of al (i + length s) t = Inr es \<Longrightarrow>
    digits_of al i (s @ t) = Inr (ds @ es)"
  by (induction s arbitrary: i ds) (auto split: option.splits sum.splits)

lemma b32_decode_extra:
  assumes "length bs = 35" "c \<in> set b32_alphabet"
  shows "b32_decode (b32_encode bs @ [c]) = Inr bs"
proof -
  have ds: "digits_of b32_alphabet i (b32_encode bs) = Inr (encode_groups 5 5 bs)" for i
    using encode_groups_lt [of 5 5 bs] distinct_b32_alphabet
    by (auto simp: b32_encode_def intro!: digits_of_map_nth)
  obtain k where k: "k < 32" "b32_alphabet ! k = c"
    using assms(2) by (auto simp: in_set_conv_nth)
  have "alphabet_index b32_alphabet c = Some k"
    using k alphabet_index_nth [OF distinct_b32_alphabet, of k] by simp
  then have "digits_of b32_alphabet 0 (b32_encode bs @ [c]) = Inr (encode_groups 5 5 bs @ [k])"
    using digits_of_append [OF ds [of 0], of "[c]" "[k]"] by simp
  moreover have "strip_newlines (b32_encode bs @ [c]) = b32_encode bs @ [c]"
    using b32_alphabet_upper [OF assms(2)] by (intro strip_newlines_id) simp
  moreover have "length (encode_groups 5 5 bs) = 56"
  proof -
    have "bs \<noteq> []" using assms(1) by auto
    with assms(1) show ?thesis by (simp add: encode_groups.simps [of 5 5] group_len_def)
  qed
  then have "decode_groups 5 8 b32_final (encode_groups 5 5 bs @ [k]) = bs @ decode_groups 5 8 b32_final [k]"
    using b32_decode_groups_append [of "encode_groups 5 5 bs" 7 "[k]"] by (simp add: b32.groups_roundtrip)
  moreover have "length (decode_groups 5 8 b32_final [k]) = 0"
    by (subst b32_short_group) (simp_all add: b32_final_def)
  ultimately show ?thesis
    by (simp add: b32_decode_def)
qed

lemma parse_label_extra:
  assumes "c \<in> set b32_alphabet" "length raw = 32"
  shows "parse_label C (encode_label C k raw @ [lower_char c]) = parse_label C (encode_label C k raw)"
proof -
  let ?l = "k # raw @ take 2 (checksum C (k # raw))"
  have "to_upper [lower_char c] = [c]"
    using b32_alphabet_upper [OF assms(1)] by (simp add: to_upper_def)
  moreover have "clean_text (encode_label C k raw @ [lower_char c]) = encode_label C k raw @ [lower_char c]"
    using b32_alphabet_upper [OF assms(1)]
    by (subst clean_text_lower_spaceless) (simp_all add: to_lower_def [of "[lower_char c]"])
  ultimately have "b32_decode (to_upper (clean_text (encode_label C k raw @ [lower_char c]))) = Inr ?l"
    using b32_decode_extra [of ?l c] assms by (simp add: encode_label_def)
  moreover have "b32_decode (to_upper (clean_text (encode_label C k raw))) = Inr ?l"
    by (simp add: encode_label_def clean_text_lower_spaceless)
  ultimately show ?thesis
    by (simp add: parse_label_def)
qed

subsection \<open>Alias records\<close>

record alias_body =
  ab_version :: int
  ab_name :: string
  ab_node :: string
  ab_public_key :: string
  ab_description :: string
  ab_issued :: int64
  ab_expires :: int64

record alias_record = alias_body +
  ab_signature :: string

definition alias_body_json :: "'a alias_body_scheme \<Rightarrow> json" where
  "alias_body_json b = JObj
     ([(''version'', jm_int (ab_version b)), (''name'', JStr (ab_name b)), (''node'', JStr (ab_node b)),
       (''public_key'', JStr (ab_public_key b))]
      @ omit_if (ab_description b = []) ''description'' (JStr (ab_description b))
      @ [(''issued_unix'', jm_int64 (ab_issued b))]
      @ omit_if (ab_expires b = 0) ''expires_unix'' (jm_int64 (ab_expires b)))"

definition alias_canonical :: "'a alias_body_scheme \<Rightarrow> bytes" where
  "alias_canonical b = marshal (alias_body_json b)"

definition make_alias_body :: "identity \<Rightarrow> string \<Rightarrow> string \<Rightarrow> time \<Rightarrow> int \<Rightarrow> alias_body" where
  "make_alias_body i name description now validity =
     \<lparr> ab_version = 1, ab_name = to_lower (trim_space name), ab_node = node_string (id_node i),
       ab_public_key = b64_encode (id_public i), ab_description = trim_space description,
       ab_issued = unix now, ab_expires = (if validity > 0 then unix (now + validity) else 0) \<rparr>"

definition sign_alias_record ::
  "crypto \<Rightarrow> identity \<Rightarrow> string \<Rightarrow> string \<Rightarrow> time \<Rightarrow> int \<Rightarrow> alias_record result" where
  "sign_alias_record C i name description now validity =
     (let a = \<lparr> al_name = to_lower (trim_space name), al_node = node_string (id_node i),
            al_service = [], al_description = trim_space description \<rparr>
      in case validate_alias C a of Inl e \<Rightarrow> Inl e
       | Inr _ \<Rightarrow>
           let body = make_alias_body i name description now validity
           in Inr (alias_body.extend body
                (alias_record.fields (b64_encode (identity_sign C i (alias_canonical body))))))"

definition verify_alias_record :: "crypto \<Rightarrow> alias_record \<Rightarrow> time \<Rightarrow> alias_entry result" where
  "verify_alias_record C r now =
     (if ab_version r \<noteq> 1 then Inl (''unsupported alias record version '' @ show_int (ab_version r))
      else (case node_parse (ab_node r) of Inl e \<Rightarrow> Inl e
       | Inr i \<Rightarrow>
        (case decode32 (ab_public_key r) of None \<Rightarrow> Inl ''invalid alias public key''
         | Some pub \<Rightarrow>
          if node_from_public_key C pub \<noteq> i then Inl ''alias node does not match public key''
          else if sint (ab_issued r) > sint (unix (now + minutes 5)) then Inl ''alias record is from the future''
          else if ab_expires r \<noteq> 0 \<and> sint (ab_expires r) \<le> sint (unix now) then Inl ''alias record expired''
          else (case b64_decode (ab_signature r) of None \<Rightarrow> Inl ''invalid alias signature encoding''
           | Some sig \<Rightarrow>
            if \<not> identity_verify C pub (alias_canonical r) sig then Inl ''invalid alias signature''
            else
              let a = \<lparr> al_name = to_lower (trim_space (ab_name r)), al_node = node_string i,
                    al_service = [], al_description = trim_space (ab_description r) \<rparr>
              in case validate_alias C a of Inl e \<Rightarrow> Inl e | Inr _ \<Rightarrow> Inr a))))"

lemma dropWhile_twice: "dropWhile P (dropWhile P s) = dropWhile P s"
  by (induction s) auto

lemma trim_right_idem: "trim_right (trim_right s) = trim_right s"
  by (simp add: trim_right_def dropWhile_twice)

lemma trim_space_idem [simp]: "trim_space (trim_space s) = trim_space s"
proof -
  let ?d = "dropWhile is_space s"
  have "dropWhile is_space (trim_right ?d) = trim_right ?d"
  proof (cases "trim_right ?d")
    case (Cons c t)
    have "take (length (trim_right ?d)) ?d = trim_right ?d"
      unfolding trim_right_def by (metis append_eq_conv_conj length_rev rev_append rev_rev_ident takeWhile_dropWhile_id)
    then have "?d \<noteq> []" "hd ?d = c" using Cons by (metis take_Nil list.distinct(1), metis Cons hd_take list.sel(1) length_greater_0_conv list.distinct(1))
    then have "\<not> is_space c" using hd_dropWhile by metis
    then show ?thesis using Cons by simp
  qed simp
  then show ?thesis by (simp add: trim_space_def trim_right_idem)
qed

lemma trim_lower_idem [simp]: "to_lower (trim_space (to_lower (trim_space s))) = to_lower (trim_space s)"
  by (simp add: trim_space_to_lower)

lemma verify_signed_alias:
  assumes "good_identity C i" "sign_alias_record C i name description now validity = Inr r"
    and "sint (unix now) \<le> sint (unix (now' + minutes 5))"
    and "validity > 0 \<Longrightarrow> sint (unix now') < sint (unix (now + validity))"
  shows "verify_alias_record C r now' =
    Inr \<lparr> al_name = to_lower (trim_space name), al_node = node_string (id_node i), al_service = [],
      al_description = trim_space description \<rparr>"
proof -
  let ?a = "\<lparr> al_name = to_lower (trim_space name), al_node = node_string (id_node i), al_service = [],
      al_description = trim_space description \<rparr>"
  let ?b = "make_alias_body i name description now validity"
  have v: "validate_alias C ?a = Inr ()"
    and r: "r = alias_body.extend ?b
      (alias_record.fields (b64_encode (identity_sign C i (alias_canonical ?b))))"
    using assms(2) by (auto simp: sign_alias_record_def Let_def split: sum.splits)
  have can: "alias_canonical r = alias_canonical ?b"
    unfolding r by (simp add: alias_canonical_def alias_body_json_def alias_body.defs alias_record.defs)
  have f: "ab_version r = 1" "ab_node r = node_string (id_node i)" "ab_public_key r = b64_encode (id_public i)"
      "ab_issued r = unix now" "ab_expires r = (if validity > 0 then unix (now + validity) else 0)"
      "ab_name r = to_lower (trim_space name)" "ab_description r = trim_space description"
      "ab_signature r = b64_encode (identity_sign C i (alias_canonical ?b))"
    unfolding r by (simp_all add: make_alias_body_def alias_body.defs alias_record.defs)
  show ?thesis
    using good_identityD [OF assms(1)] v assms(3,4)
    by (auto simp: verify_alias_record_def f can Let_def)
qed

subsection \<open>Properties\<close>

text \<open>C37. The canonical domain of a node or of a service resolves, whatever aliases are configured, to
  that identity; a valid service name in front of a node's domain selects that service.\<close>

theorem canonical_domains_resolve:
  assumes "service_name s"
  shows "(\<exists>r. resolve_host C (canonical_domain C i) aliases = Inr r \<and> rs_kind r = node_address_version \<and>
      rs_node r = i \<and> rs_service r = ''http'' \<and> rs_canonical r) \<and>
    (\<exists>d r. service_domain C s i = Inr d \<and> resolve_host C d aliases = Inr r \<and>
      rs_kind r = node_address_version \<and> rs_node r = i \<and> rs_service r = s \<and> rs_canonical r) \<and>
    (\<exists>r. resolve_host C (service_canonical_domain C k) aliases = Inr r \<and>
      rs_kind r = service_address_version \<and> rs_service_id r = k \<and> rs_canonical r)"
  using resolve_canonical_domains [of C] resolve_service_domain [OF assms, of C]
  by (simp add: default_service_def service_domain_def normalize_service_id assms Let_def)

lemma canonical_domains_resolve_witness:
  "\<exists>d r. service_domain toy ''git.v2'' zero_node = Inr d \<and> resolve_host toy d [] = Inr r \<and> rs_service r = ''git.v2''"
proof -
  have "service_name ''git.v2''"
    by (simp add: service_name_def lower_or_digit_def)
  from canonical_domains_resolve [OF this, of toy zero_node "[]" zero_service] show ?thesis by blast
qed

text \<open>A text that \<open>ParseLabel\<close> accepts has, after trimming and without line breaks, 56, 57, 59 or 62
  digits, and the first 56 are the canonical label of the identity it returns.\<close>

theorem accepted_label_shape:
  assumes "parse_label C s = Inr p"
  shows "to_lower (take 56 (strip_newlines (to_upper (clean_text s)))) =
      (if pl_kind p = node_address_version then canonical_label C (pl_node p)
       else service_canonical_label C (pl_service p)) \<and>
    length (strip_newlines (to_upper (clean_text s))) \<in> {56, 57, 59, 62}"
  using parse_label_shape [OF assms] by (simp add: label_of_def)

lemma accepted_label_shape_witness:
  "length (strip_newlines (to_upper (clean_text (canonical_label toy zero_node)))) \<in> {56, 57, 59, 62}"
  using accepted_label_shape [OF parse_canonical(1), of toy zero_node] by blast

text \<open>The digits after the 56th are not checked: the canonical label of a node followed by one more
  base32 digit, which neither the identity nor the checksum covers, is accepted as that node.\<close>

theorem label_trailing_digit_ignored:
  assumes "c \<in> set b32_alphabet"
  shows "parse_label C (canonical_label C i @ [lower_char c]) = parse_label C (canonical_label C i)"
  using parse_label_extra [OF assms length_id_bytes(1)] by (simp add: canonical_label_def)

lemma label_trailing_digit_ignored_witness:
  "parse_label toy (canonical_label toy zero_node @ [lower_char (CHR ''A'')]) =
     parse_label toy (canonical_label toy zero_node)"
  by (rule label_trailing_digit_ignored) (simp add: b32_alphabet_def)

text \<open>An alias that passes \<open>ValidateAlias\<close>, is the first of its name and whose name is not itself an
  address label, resolves to exactly the identity its target text names.\<close>

theorem valid_alias_resolves:
  assumes "find (\<lambda>a. equal_fold (al_name a) name) aliases = Some a" "validate_alias C a = Inr ()"
    and "alias_name name" "parse_label C name = Inl e"
  shows "\<exists>r. resolve_host C (name @ knot_suffix) aliases = Inr r \<and> \<not> rs_canonical r \<and> rs_alias r = name \<and>
     (if al_service a = []
      then rs_kind r = node_address_version \<and> parse_node_reference C (al_node a) = Inr (rs_node r) \<and>
           rs_service r = default_service
      else rs_kind r = service_address_version \<and> parse_service_reference C (al_service a) = Inr (rs_service_id r))"
  using assms by (rule resolve_valid_alias)

definition sample_alias :: "node_id \<Rightarrow> alias_entry" where
  "sample_alias i = \<lparr> al_name = ''Home'', al_node = node_string i, al_service = [], al_description = [] \<rparr>"

lemma node_reference_string [simp]: "parse_node_reference C (node_string i) = Inr i"
proof -
  have "\<not> has_suffix (node_string i) knot_suffix"
  proof
    assume "has_suffix (node_string i) knot_suffix"
    then have "CHR ''.'' \<in> set (node_string i)"
      by (auto elim!: has_suffixE simp: knot_suffix_def)
    moreover have "CHR ''.'' \<notin> set (to_lower (b32_encode (node_bytes i)))"
      using set_b32_encode [of "node_bytes i"] b32_alphabet_plain
      unfolding to_lower_def set_map by (metis imageE subsetD)
    ultimately show False
      by (simp add: node_string_def node_prefix_def)
  qed
  then show ?thesis
    by (simp add: parse_node_reference_def clean_text_lower_spaceless Let_def)
qed

lemma valid_alias_resolves_witness:
  "\<exists>r. resolve_host toy ''home.knot'' [sample_alias zero_node] = Inr r \<and> rs_node r = zero_node"
proof -
  have fold: "equal_fold ''Home'' ''home''"
    by (simp add: equal_fold_def to_lower_def lower_char_def char_of_eq_iff)
  have name: "alias_name ''home''"
    by (simp add: alias_name_def lower_or_digit_def)
  have valid: "validate_alias toy (sample_alias zero_node) = Inr ()"
  proof -
    have "to_lower (trim_space ''Home'') = ''home''"
      by (simp add: trim_space_def trim_right_def is_space_def to_lower_def lower_char_def char_of_eq_iff)
    then show ?thesis
      using name by (simp add: validate_alias_def sample_alias_def Let_def)
  qed
  have "\<exists>e. parse_label toy ''home'' = Inl e"
  proof (cases "parse_label toy ''home''")
    case (Inr p)
    have "length (strip_newlines (to_upper (clean_text ''home''))) \<le> length (to_upper (clean_text ''home''))"
      unfolding strip_newlines_def by (rule length_filter_le)
    also have "\<dots> = 4"
      by (simp add: clean_text_lower_spaceless is_space_def)
    finally show ?thesis
      using parse_label_shape(2) [OF Inr] by auto
  qed simp
  then obtain e where "parse_label toy ''home'' = Inl e" ..
  from valid_alias_resolves [OF _ valid name this, of "[sample_alias zero_node]"] show ?thesis
    using fold by (auto simp: sample_alias_def knot_suffix_def)
qed

text \<open>A signed alias record passes its own verification while it is valid and gives back the alias it
  was made for, with the signer's node as the target.\<close>

theorem alias_record_accepted:
  assumes "good_identity C i" "sign_alias_record C i name description now validity = Inr r"
    and "sint (unix now) \<le> sint (unix (now' + minutes 5))"
    and "validity > 0 \<Longrightarrow> sint (unix now') < sint (unix (now + validity))"
  shows "\<exists>a. verify_alias_record C r now' = Inr a \<and> al_name a = to_lower (trim_space name) \<and>
    node_parse (al_node a) = Inr (id_node i) \<and> validate_alias C a = Inr ()"
proof -
  have "validate_alias C \<lparr> al_name = to_lower (trim_space name), al_node = node_string (id_node i),
      al_service = [], al_description = trim_space description \<rparr> = Inr ()"
    using assms(2) by (auto simp: sign_alias_record_def Let_def split: sum.splits)
  with verify_signed_alias [OF assms] show ?thesis by simp
qed

lemma alias_record_accepted_witness:
  "\<exists>r a. sign_alias_record toy (toy_identity 7) ''home'' [] 0 (seconds 60) = Inr r \<and>
    verify_alias_record toy r 0 = Inr a \<and> node_parse (al_node a) = Inr (id_node (toy_identity 7))"
proof -
  have "trim_space ''home'' = ''home''" "to_lower ''home'' = ''home''" "alias_name ''home''"
    by (simp_all add: trim_space_spaceless is_space_def to_lower_def lower_char_def alias_name_def lower_or_digit_def)
  then obtain r where r: "sign_alias_record toy (toy_identity 7) ''home'' [] 0 (seconds 60) = Inr r"
    by (simp add: sign_alias_record_def validate_alias_def Let_def)
  from alias_record_accepted [OF toy_identity_good r, of 0] show ?thesis
    using r by (auto simp: unix_small)
qed

end
