(* ===== verification/Descriptor.thy ===== *)
theory Descriptor
  imports Naming
begin

section \<open>Signed documents: service descriptors and invites\<close>

text \<open>
  \<open>internal/directory/descriptor.go\<close> and \<open>internal/invite/invite.go\<close>. A Go map of strings is an
  association list; JSON prints it with sorted keys. The lemmas: a descriptor that \<open>New\<close> makes
  survives JSON and passes \<open>Verify\<close> on the same network until it expires, and what a passed check
  guarantees.
\<close>

subsection \<open>Sorted maps in JSON\<close>

definition sorted_map :: "(string \<times> string) list \<Rightarrow> bool" where
  "sorted_map m \<longleftrightarrow> sorted_wrt key_less m"

lemma insert_by_sorted: "sorted_wrt key_less (x # m) \<Longrightarrow> insert_by key_less x m = x # m"
  by (cases m) (auto simp: key_less_def)

lemma sort_by_sorted: "sorted_map m \<Longrightarrow> sort_by key_less m = m"
proof (induction m)
  case (Cons x m)
  then have "sort_by key_less m = m" by (simp add: sorted_map_def)
  then show ?case
    using Cons.prems insert_by_sorted [of x m] by (simp add: sorted_map_def)
qed simp

lemma update_snoc: "k \<notin> fst ` set m \<Longrightarrow> AList.update k v m = m @ [(k, v)]"
  by (induction m) auto

lemma ju_pairs_sorted:
  "sorted_map (m @ n) \<Longrightarrow> ju_pairs m (map (\<lambda>(k, v). (k, JStr v)) n) = Some (m @ n)"
proof (induction n arbitrary: m)
  case Nil
  then show ?case by simp
next
  case (Cons x n)
  obtain k v where x: "x = (k, v)" by (cases x)
  have "k \<notin> fst ` set m"
    using Cons.prems by (auto simp: sorted_map_def sorted_wrt_append x key_less_def)
  then have "AList.update k v m = m @ [(k, v)]" by (rule update_snoc)
  with Cons show ?case by (simp add: x)
qed

lemma map_field_jm: "sorted_map m \<Longrightarrow> map_field [] (jm_map m) = Some m"
  using ju_pairs_sorted [of "[]" m] by (simp add: map_field_def jm_map_def sort_by_sorted)

lemma json_wf_map [simp]: "json_wf (jm_map m)"
  by (auto simp: jm_map_def list_all_iff)

subsection \<open>Descriptors\<close>

definition descriptor_version :: int where "descriptor_version = 1"

record descriptor_body =
  d_version :: int
  d_network :: string
  d_service :: string
  d_public_key :: string
  d_intros :: "string nilable"
  d_revision :: uint64
  d_published :: int64
  d_expires :: int64
  d_metadata :: "(string \<times> string) list"

record descriptor = descriptor_body +
  d_signature :: string

definition zero_descriptor :: descriptor where
  "zero_descriptor = \<lparr> d_version = 0, d_network = [], d_service = [], d_public_key = [], d_intros = None,
     d_revision = 0, d_published = 0, d_expires = 0, d_metadata = [], d_signature = [] \<rparr>"

definition descriptor_fields :: "'a descriptor_body_scheme \<Rightarrow> (string \<times> json) list" where
  "descriptor_fields d =
     [(''version'', jm_int (d_version d)), (''network_id'', JStr (d_network d)),
      (''service_id'', JStr (d_service d)), (''public_key'', JStr (d_public_key d)),
      (''introduction_points'', jm_nilable (d_intros d)), (''revision'', jm_uint64 (d_revision d)),
      (''published_unix'', jm_int64 (d_published d)), (''expires_unix'', jm_int64 (d_expires d))]
     @ omit_if (d_metadata d = []) ''metadata'' (jm_map (d_metadata d))"

definition descriptor_canonical :: "'a descriptor_body_scheme \<Rightarrow> bytes" where
  "descriptor_canonical d = marshal (JObj (descriptor_fields d))"

definition descriptor_json :: "descriptor \<Rightarrow> json" where
  "descriptor_json d = JObj (descriptor_fields d @ [(''signature'', JStr (d_signature d))])"

definition descriptor_of_json :: "json \<Rightarrow> descriptor option" where
  "descriptor_of_json j =
     do { kvs \<leftarrow> jobject j;
          v \<leftarrow> field int_field ''version'' kvs 0;
          net \<leftarrow> field str_field ''network_id'' kvs [];
          sid \<leftarrow> field str_field ''service_id'' kvs [];
          pub \<leftarrow> field str_field ''public_key'' kvs [];
          ins \<leftarrow> field nilable_field ''introduction_points'' kvs None;
          rv \<leftarrow> field uint64_field ''revision'' kvs 0;
          p \<leftarrow> field int64_field ''published_unix'' kvs 0;
          e \<leftarrow> field int64_field ''expires_unix'' kvs 0;
          m \<leftarrow> field map_field ''metadata'' kvs [];
          sg \<leftarrow> field str_field ''signature'' kvs [];
          Some \<lparr> d_version = v, d_network = net, d_service = sid, d_public_key = pub, d_intros = ins,
                 d_revision = rv, d_published = p, d_expires = e, d_metadata = m, d_signature = sg \<rparr> }"

definition descriptor_unmarshal :: "bytes \<Rightarrow> descriptor option" where
  "descriptor_unmarshal raw = Option.bind (unmarshal raw) descriptor_of_json"

definition new_descriptor ::
  "crypto \<Rightarrow> time \<Rightarrow> service_identity \<Rightarrow> network_id \<Rightarrow> node_id list \<Rightarrow> uint64 \<Rightarrow> int \<Rightarrow>
   (string \<times> string) list \<Rightarrow> descriptor" where
  "new_descriptor C now i network intros revision ttl metadata =
     (let body = \<lparr> d_version = descriptor_version, d_network = network_string network,
            d_service = service_string (sid_service i), d_public_key = b64_encode (sid_public i),
            d_intros = Some (sort (map node_string intros)), d_revision = revision,
            d_published = unix now, d_expires = unix (now + ttl), d_metadata = metadata \<rparr>
      in descriptor_body.extend body
           (descriptor.fields (b64_encode (service_sign C i (descriptor_canonical body)))))"

definition descriptor_verify :: "crypto \<Rightarrow> descriptor \<Rightarrow> time \<Rightarrow> network_id \<Rightarrow> service_id result" where
  "descriptor_verify C d now network =
     (if d_version d \<noteq> descriptor_version
      then Inl (''unsupported descriptor version '' @ show_int (d_version d))
      else if d_network d \<noteq> network_string network then Inl ''descriptor network mismatch''
      else (case service_parse (d_service d) of Inl e \<Rightarrow> Inl e
       | Inr i \<Rightarrow>
        (case decode32 (d_public_key d) of None \<Rightarrow> Inl ''invalid descriptor public key''
         | Some pub \<Rightarrow>
          if service_from_public_key C pub \<noteq> i then Inl ''service id does not match public key''
          else if sint (d_expires d) \<le> sint (unix now) then Inl ''descriptor expired''
          else if sint (d_published d) > sint (unix (now + minutes 5)) then Inl ''descriptor is from the future''
          else if items (d_intros d) = [] \<or> length (items (d_intros d)) > 8
          then Inl ''invalid introduction point count''
          else if \<not> list_all (\<lambda>s. is_ok (node_parse s)) (items (d_intros d))
          then Inl ''invalid introduction point''
          else (case b64_decode (d_signature d) of None \<Rightarrow> Inl ''invalid descriptor signature''
           | Some sig \<Rightarrow>
            if \<not> ed_verify C pub (descriptor_canonical d) sig then Inl ''invalid descriptor signature''
            else Inr i))))"

lemma descriptor_roundtrip:
  assumes "go_int (d_version d)" "sorted_map (d_metadata d)"
  shows "descriptor_of_json (descriptor_json d) = Some d" "json_wf (descriptor_json d)"
proof -
  show "descriptor_of_json (descriptor_json d) = Some d"
    using assms
    by (cases "d_metadata d = []")
      (simp_all add: descriptor_of_json_def descriptor_json_def descriptor_fields_def jobject_def
        name_simps map_field_jm)
  show "json_wf (descriptor_json d)"
    by (simp add: descriptor_json_def descriptor_fields_def)
qed

lemma new_descriptor_simps [simp]:
  "d_version (new_descriptor C now i w ins rv ttl m) = descriptor_version"
  "d_network (new_descriptor C now i w ins rv ttl m) = network_string w"
  "d_service (new_descriptor C now i w ins rv ttl m) = service_string (sid_service i)"
  "d_public_key (new_descriptor C now i w ins rv ttl m) = b64_encode (sid_public i)"
  "d_intros (new_descriptor C now i w ins rv ttl m) = Some (sort (map node_string ins))"
  "d_revision (new_descriptor C now i w ins rv ttl m) = rv"
  "d_published (new_descriptor C now i w ins rv ttl m) = unix now"
  "d_expires (new_descriptor C now i w ins rv ttl m) = unix (now + ttl)"
  "d_metadata (new_descriptor C now i w ins rv ttl m) = m"
  by (simp_all add: new_descriptor_def descriptor_body.defs descriptor.defs Let_def)

lemma new_descriptor_signature:
  "d_signature (new_descriptor C now i w ins rv ttl m) =
     b64_encode (service_sign C i (descriptor_canonical (new_descriptor C now i w ins rv ttl m)))"
  by (simp add: new_descriptor_def descriptor_body.defs descriptor.defs Let_def
      descriptor_canonical_def descriptor_fields_def)

lemma descriptor_verify_new:
  assumes "good_service C i" "ins \<noteq> []" "length ins \<le> 8"
    and "sint (unix now') < sint (unix (now + ttl))"
    and "sint (unix now) \<le> sint (unix (now' + minutes 5))"
  shows "descriptor_verify C (new_descriptor C now i w ins rv ttl m) now' w = Inr (sid_service i)"
proof -
  have "sort (map node_string ins) \<noteq> []"
    using assms(2) by (metis length_0_conv length_map length_sort)
  then show ?thesis
    using assms good_serviceD [OF assms(1)]
    by (auto simp: descriptor_verify_def new_descriptor_signature list_all_iff is_ok_iff)
qed

lemma descriptor_verify_InrD:
  assumes "descriptor_verify C d now network = Inr i"
  obtains pub sig where "service_parse (d_service d) = Inr i" "d_network d = network_string network"
    "decode32 (d_public_key d) = Some pub" "i = service_from_public_key C pub"
    "sint (unix now) < sint (d_expires d)" "sint (d_published d) \<le> sint (unix (now + minutes 5))"
    "items (d_intros d) \<noteq> []" "length (items (d_intros d)) \<le> 8"
    "list_all (\<lambda>s. is_ok (node_parse s)) (items (d_intros d))"
    "b64_decode (d_signature d) = Some sig" "ed_verify C pub (descriptor_canonical d) sig"
    "d_version d = descriptor_version"
  using assms by (auto simp: descriptor_verify_def split: if_splits sum.splits option.splits)

subsection \<open>Invites\<close>

record peer_config =
  pc_address :: string
  pc_expected :: string

record invite_body =
  iv_version :: int
  iv_network :: string
  iv_beacons :: "string list"
  iv_peers :: "peer_config list"
  iv_signer :: string
  iv_public_key :: string
  iv_issued :: int64

record invite = invite_body +
  iv_signature :: string

definition peer_config_json :: "peer_config \<Rightarrow> json" where
  "peer_config_json p = JObj ([(''address'', JStr (pc_address p))]
     @ omit_if (pc_expected p = []) ''expected_id'' (JStr (pc_expected p)))"

definition invite_json :: "'a invite_body_scheme \<Rightarrow> json" where
  "invite_json b = JObj ([(''version'', jm_int (iv_version b)), (''network_id'', JStr (iv_network b))]
     @ omit_if (iv_beacons b = []) ''beacons'' (jm_strs (iv_beacons b))
     @ omit_if (iv_peers b = []) ''peers'' (JArr (map peer_config_json (iv_peers b)))
     @ [(''signer_node'', JStr (iv_signer b)), (''public_key'', JStr (iv_public_key b)),
        (''issued_unix'', jm_int64 (iv_issued b))])"

definition invite_canonical :: "'a invite_body_scheme \<Rightarrow> bytes" where
  "invite_canonical b = marshal (invite_json b)"

definition peer_less :: "peer_config \<Rightarrow> peer_config \<Rightarrow> bool" where
  "peer_less a b \<longleftrightarrow> pc_address a < pc_address b"

definition new_invite ::
  "crypto \<Rightarrow> identity \<Rightarrow> network_id \<Rightarrow> string list \<Rightarrow> peer_config list \<Rightarrow> time \<Rightarrow> invite" where
  "new_invite C i network beacons peers now =
     (let body = \<lparr> iv_version = 1, iv_network = network_string network, iv_beacons = sort beacons,
            iv_peers = sort_by peer_less peers, iv_signer = node_string (id_node i),
            iv_public_key = b64_encode (id_public i), iv_issued = unix now \<rparr>
      in invite_body.extend body
           (invite.fields (b64_encode (identity_sign C i (invite_canonical body)))))"

definition invite_verify :: "crypto \<Rightarrow> invite \<Rightarrow> time \<Rightarrow> network_id result" where
  "invite_verify C v now =
     (if iv_version v \<noteq> 1 then Inl ''unsupported invite version''
      else (case network_parse (iv_network v) of Inl e \<Rightarrow> Inl e
       | Inr network \<Rightarrow>
        (case node_parse (iv_signer v) of Inl e \<Rightarrow> Inl e
         | Inr nid \<Rightarrow>
          (case decode32 (iv_public_key v) of None \<Rightarrow> Inl ''invalid invite public key''
           | Some pub \<Rightarrow>
            if node_from_public_key C pub \<noteq> nid then Inl ''invite signer identity mismatch''
            else if sint (iv_issued v) > sint (unix (now + minutes 5))
            then Inl ''invite timestamp is in the future''
            else (case b64_decode (iv_signature v) of None \<Rightarrow> Inl ''invalid invite signature encoding''
             | Some sig \<Rightarrow>
              if \<not> ed_verify C pub (invite_canonical v) sig then Inl ''invalid invite signature''
              else Inr network)))))"

lemma invite_verify_new:
  assumes "good_identity C i" "sint (unix now) \<le> sint (unix (now' + minutes 5))"
  shows "invite_verify C (new_invite C i w bs ps now) now' = Inr w"
proof -
  let ?v = "new_invite C i w bs ps now"
  have f: "iv_version ?v = 1" "iv_network ?v = network_string w" "iv_signer ?v = node_string (id_node i)"
      "iv_public_key ?v = b64_encode (id_public i)" "iv_issued ?v = unix now"
    by (simp_all add: new_invite_def invite_body.defs invite.defs Let_def)
  have "iv_signature ?v = b64_encode (identity_sign C i (invite_canonical ?v))"
    by (simp add: new_invite_def invite_body.defs invite.defs Let_def invite_canonical_def invite_json_def)
  with f show ?thesis
    using assms good_identityD [OF assms(1)] by (simp add: invite_verify_def)
qed

subsection \<open>Properties\<close>

definition toy_service :: "byte \<Rightarrow> service_identity" where
  "toy_service k = service_generate toy (replicate 32 0 @ replicate 32 k)"

lemma toy_service_good [simp]: "good_service toy (toy_service k)"
  unfolding toy_service_def by (intro good_generate toy_signs) simp

text \<open>A descriptor made by \<open>New\<close> with one to eight introduction points survives JSON and verifies on
  its own network as the service's until it expires; on any other network it is rejected.\<close>

theorem descriptor_accepted:
  assumes "good_service C i" "ins \<noteq> []" "length ins \<le> 8" "sorted_map m"
    and "sint (unix now') < sint (unix (now + ttl))" "sint (unix now) \<le> sint (unix (now' + minutes 5))"
  shows "\<exists>d. descriptor_unmarshal (marshal (descriptor_json (new_descriptor C now i w ins rv ttl m))) = Some d \<and>
    descriptor_verify C d now' w = Inr (sid_service i) \<and> d_revision d = rv \<and>
    (\<forall>w'. is_ok (descriptor_verify C d now' w') = (w' = w))"
proof -
  let ?d = "new_descriptor C now i w ins rv ttl m"
  have v: "descriptor_verify C ?d now' w = Inr (sid_service i)"
    using assms by (intro descriptor_verify_new) auto
  have "is_ok (descriptor_verify C ?d now' w') = (w' = w)" for w'
    using v by (cases "w' = w") (auto simp: descriptor_verify_def)
  moreover have "descriptor_unmarshal (marshal (descriptor_json ?d)) = Some ?d"
    using descriptor_roundtrip [of ?d] assms(4)
    by (simp add: descriptor_unmarshal_def unmarshal_marshal go_int_def descriptor_version_def)
  ultimately show ?thesis using v by simp
qed

lemma descriptor_accepted_witness:
  "\<exists>d. descriptor_unmarshal (marshal (descriptor_json
      (new_descriptor toy 0 (toy_service 9) zero_network [zero_node] 5 (seconds 60) [(''title'', ''x'')]))) = Some d \<and>
    descriptor_verify toy d 0 zero_network = Inr (sid_service (toy_service 9))"
  using descriptor_accepted [of toy "toy_service 9" "[zero_node]" "[(''title'', ''x'')]" 0 0 "seconds 60" zero_network 5]
  by (auto simp: unix_small sorted_map_def)

text \<open>An invite verifies for everyone whose clock is not more than five minutes behind the issuer's,
  and yields the network it was made for.\<close>

theorem invite_accepted:
  assumes "good_identity C i" "sint (unix now) \<le> sint (unix (now' + minutes 5))"
  shows "invite_verify C (new_invite C i w beacons peers now) now' = Inr w"
  using assms by (rule invite_verify_new)

lemma invite_accepted_witness:
  "invite_verify toy (new_invite toy (toy_identity 3) zero_network [''http://b''] [] 0) 0 = Inr zero_network"
  by (rule invite_accepted) (simp_all add: unix_small)

end
