(* ===== verification/Session.thy ===== *)
theory Session
  imports Descriptor
begin

section \<open>Session keys and sealed messages\<close>

text \<open>
  \<open>internal/overlay/crypto.go\<close>, the key derivations of \<open>circuit.go\<close> and \<open>rendezvous_crypto.go\<close>,
  and the two sealing functions of streams and circuit layers. HMAC and HKDF are written out over
  the hash. The interface \<open>seq_channel\<close> states what a sealing function with sequence numbers
  promises; streams and circuit layers are its instances, and the lemmas about whole sequences of
  messages are proved once inside it.
\<close>

subsection \<open>HMAC and HKDF\<close>

definition hmac_block :: "crypto \<Rightarrow> bytes \<Rightarrow> bytes" where
  "hmac_block C key =
     (let k = (if length key > 64 then arr_bytes (sha256 C key) else key)
      in k @ replicate (64 - length k) 0)"

definition hmac :: "crypto \<Rightarrow> bytes \<Rightarrow> bytes \<Rightarrow> bytes" where
  "hmac C key msg =
     (let k = hmac_block C key
      in arr_bytes (sha256 C (map (\<lambda>b. b XOR 0x5C) k
           @ arr_bytes (sha256 C (map (\<lambda>b. b XOR 0x36) k @ msg)))))"

lemma length_hmac [simp]: "length (hmac C key msg) = 32"
  by (simp add: hmac_def Let_def)

text \<open>The expand loop: \<open>previous\<close> is the last block, \<open>counter\<close> a wrapping byte.\<close>

function hkdf_expand :: "crypto \<Rightarrow> bytes \<Rightarrow> bytes \<Rightarrow> nat \<Rightarrow> bytes \<Rightarrow> bytes \<Rightarrow> byte \<Rightarrow> bytes" where
  "hkdf_expand C prk info len out previous counter =
     (if length out < len
      then let block = hmac C prk (previous @ info @ [counter])
           in hkdf_expand C prk info len (out @ block) block (counter + 1)
      else take len out)"
  by pat_completeness auto

termination
  by (relation "measure (\<lambda>(C, prk, info, len, out, previous, counter). len - length out)") auto

declare hkdf_expand.simps [simp del]

definition hkdf_sha256 :: "crypto \<Rightarrow> bytes \<Rightarrow> bytes \<Rightarrow> bytes \<Rightarrow> nat \<Rightarrow> bytes" where
  "hkdf_sha256 C secret salt info len = hkdf_expand C (hmac C salt secret) info len [] [] 1"

lemma length_hkdf_expand: "length (hkdf_expand C prk info len out previous counter) = len"
proof (induction C prk info len out previous counter rule: hkdf_expand.induct)
  case (1 C prk info len out previous counter)
  then show ?case
    by (subst hkdf_expand.simps) (auto simp: Let_def)
qed

lemma length_hkdf [simp]: "length (hkdf_sha256 C secret salt info len) = len"
  by (simp add: hkdf_sha256_def length_hkdf_expand)

text \<open>The first block of output and the second one, of RFC 5869.\<close>

lemma hkdf_two_blocks:
  "hkdf_sha256 C secret salt info 64 =
    (let prk = hmac C salt secret; t1 = hmac C prk (info @ [1])
     in t1 @ hmac C prk (t1 @ info @ [2]))"
  unfolding hkdf_sha256_def Let_def
  by (subst hkdf_expand.simps, simp add: Let_def, subst hkdf_expand.simps, simp add: Let_def,
      subst hkdf_expand.simps, simp add: Let_def)

subsection \<open>Key agreement\<close>

definition session_key_size :: nat where "session_key_size = 32"

record ephemeral_key =
  ek_private :: bytes
  ek_public :: bytes

definition new_ephemeral_key :: "crypto \<Rightarrow> bytes \<Rightarrow> ephemeral_key" where
  "new_ephemeral_key C random = \<lparr> ek_private = random, ek_public = x_public C random \<rparr>"

text \<open>\<open>NewPublicKey\<close> fails unless the key has 32 bytes, \<open>ECDH\<close> on a key of low order.\<close>

definition shared_secret :: "crypto \<Rightarrow> bytes \<Rightarrow> bytes \<Rightarrow> bytes result" where
  "shared_secret C private peer_public =
     (if length peer_public \<noteq> 32 then Inl ''crypto/ecdh: invalid public key''
      else (case x_shared C private peer_public of
          None \<Rightarrow> Inl ''crypto/ecdh: bad X25519 remote ECDH input: low order point''
        | Some s \<Rightarrow> Inr s))"

definition derive_session_keys ::
  "crypto \<Rightarrow> bytes \<Rightarrow> bytes \<Rightarrow> bytes \<Rightarrow> 16 barr \<Rightarrow> node_id \<Rightarrow> node_id \<Rightarrow> bytes \<times> bytes" where
  "derive_session_keys C shared open_nonce ack_nonce stream src dst =
     (let salt = arr_bytes (sha256 C (open_nonce @ ack_nonce));
          info = string_bytes ''knotroute/session/v1'' @ arr_bytes stream @ node_bytes src @ node_bytes dst;
          material = hkdf_sha256 C shared salt info (session_key_size * 2)
      in (take session_key_size material, drop session_key_size material))"

definition derive_circuit_hop :: "crypto \<Rightarrow> bytes \<Rightarrow> bytes \<Rightarrow> bytes \<Rightarrow> bytes \<Rightarrow> (bytes \<times> bytes) result" where
  "derive_circuit_hop C private peer_public client_nonce server_nonce =
     (case shared_secret C private peer_public of Inl e \<Rightarrow> Inl e
      | Inr shared \<Rightarrow>
          let m = hkdf_sha256 C shared (client_nonce @ server_nonce)
                    (string_bytes ''knotroute/circuit-hop/v1'') 64
          in Inr (take 32 m, drop 32 m))"

definition derive_rendezvous_keys ::
  "crypto \<Rightarrow> bytes \<Rightarrow> bytes \<Rightarrow> bytes \<Rightarrow> bytes \<Rightarrow> service_id \<Rightarrow> bytes \<Rightarrow> (bytes \<times> bytes) result" where
  "derive_rendezvous_keys C private peer client_nonce service_nonce sid cookie =
     (case shared_secret C private peer of Inl e \<Rightarrow> Inl e
      | Inr shared \<Rightarrow>
          let salt = arr_bytes (sha256 C (client_nonce @ service_nonce));
              info = string_bytes ''knotroute/rendezvous/v1|'' @ service_bytes sid @ cookie;
              m = hkdf_sha256 C shared salt info 64
          in Inr (take 32 m, drop 32 m))"

lemma shared_secret_agree:
  assumes "dh_ok C"
  shows "shared_secret C a (x_public C b) = shared_secret C b (x_public C a)"
  using dh_okD [OF assms] by (simp add: shared_secret_def)

lemma length_session_keys:
  "derive_session_keys C shared n m stream src dst = (c2s, s2c) \<Longrightarrow> length c2s = 32 \<and> length s2c = 32"
  by (auto simp: derive_session_keys_def session_key_size_def Let_def)

lemma length_circuit_keys:
  "derive_circuit_hop C a p n m = Inr (fwd, rv) \<Longrightarrow> length fwd = 32 \<and> length rv = 32"
  by (auto simp: derive_circuit_hop_def Let_def split: sum.splits)

lemma length_rendezvous_keys:
  "derive_rendezvous_keys C a p n m i ck = Inr (c2s, s2c) \<Longrightarrow> length c2s = 32 \<and> length s2c = 32"
  by (auto simp: derive_rendezvous_keys_def Let_def split: sum.splits)

lemma circuit_keys_agree:
  "dh_ok C \<Longrightarrow> derive_circuit_hop C a (x_public C b) n m = derive_circuit_hop C b (x_public C a) n m"
  by (simp add: derive_circuit_hop_def shared_secret_agree [of C a b])

lemma rendezvous_keys_agree:
  "dh_ok C \<Longrightarrow> derive_rendezvous_keys C a (x_public C b) n m i ck = derive_rendezvous_keys C b (x_public C a) n m i ck"
  by (simp add: derive_rendezvous_keys_def shared_secret_agree [of C a b])

subsection \<open>Sealing\<close>

definition new_aead :: "bytes \<Rightarrow> unit result" where
  "new_aead key =
     (if length key \<in> {16, 24, 32} then Inr ()
      else Inl (''crypto/aes: invalid key size '' @ show_nat (length key)))"

definition make_nonce :: "crypto \<Rightarrow> bytes \<Rightarrow> uint64 \<Rightarrow> bytes" where
  "make_nonce C key sq =
     (let digest = arr_bytes (sha256 C (key @ string_bytes ''nonce''))
      in take 4 digest @ put_u64 sq)"

definition make_aad :: "16 barr \<Rightarrow> node_id \<Rightarrow> node_id \<Rightarrow> uint64 \<Rightarrow> bytes" where
  "make_aad stream src dst sq = arr_bytes stream @ node_bytes src @ node_bytes dst @ put_u64 sq"

definition seal :: "crypto \<Rightarrow> bytes \<Rightarrow> 16 barr \<Rightarrow> node_id \<Rightarrow> node_id \<Rightarrow> uint64 \<Rightarrow> bytes \<Rightarrow> bytes result" where
  "seal C key stream src dst sq plain =
     (case new_aead key of Inl e \<Rightarrow> Inl e
      | Inr _ \<Rightarrow> Inr (gcm_seal C key (make_nonce C key sq) plain (make_aad stream src dst sq)))"

definition auth_error :: error where
  "auth_error = ''cipher: message authentication failed''"

definition open_ciphertext ::
  "crypto \<Rightarrow> bytes \<Rightarrow> 16 barr \<Rightarrow> node_id \<Rightarrow> node_id \<Rightarrow> uint64 \<Rightarrow> bytes \<Rightarrow> bytes result" where
  "open_ciphertext C key stream src dst sq ct =
     (case new_aead key of Inl e \<Rightarrow> Inl e
      | Inr _ \<Rightarrow>
          (case gcm_open C key (make_nonce C key sq) ct (make_aad stream src dst sq) of
             None \<Rightarrow> Inl (''decrypt stream data: '' @ auth_error)
           | Some p \<Rightarrow> Inr p))"

definition layer_aad :: "uint64 \<Rightarrow> bytes" where
  "layer_aad sq = string_bytes ''knotroute/circuit-layer/v1|'' @ put_u64 sq"

definition seal_circuit_layer :: "crypto \<Rightarrow> bytes \<Rightarrow> uint64 \<Rightarrow> bytes \<Rightarrow> bytes result" where
  "seal_circuit_layer C key sq plain =
     (case new_aead key of Inl e \<Rightarrow> Inl e
      | Inr _ \<Rightarrow> Inr (put_u64 sq @ gcm_seal C key (make_nonce C key sq) plain (layer_aad sq)))"

definition open_circuit_layer :: "crypto \<Rightarrow> bytes \<Rightarrow> uint64 \<Rightarrow> bytes \<Rightarrow> bytes result" where
  "open_circuit_layer C key want inp =
     (if length inp < 8 then Inl ''circuit layer truncated''
      else
        let sq = get_u64 (take 8 inp) in
        if sq \<noteq> want
        then Inl (''circuit sequence mismatch: got '' @ show_nat (unat sq) @ '' want '' @ show_nat (unat want))
        else (case new_aead key of Inl e \<Rightarrow> Inl e
          | Inr _ \<Rightarrow>
              (case gcm_open C key (make_nonce C key sq) (drop 8 inp) (layer_aad sq) of
                 None \<Rightarrow> Inl auth_error | Some p \<Rightarrow> Inr p)))"

lemma make_nonce_inject [simp]: "make_nonce C k s = make_nonce C k t \<longleftrightarrow> s = t"
  by (simp add: make_nonce_def Let_def)

lemma length_make_nonce [simp]: "length (make_nonce C k s) = 12"
  by (simp add: make_nonce_def Let_def)

lemma new_aead_32 [simp]: "length k = 32 \<Longrightarrow> new_aead k = Inr ()"
  by (simp add: new_aead_def)

subsection \<open>The interface of a sealing function\<close>

text \<open>
  With a good key every message can be sealed, what is sealed at a sequence number opens at that
  number, and only that opens to it. \<open>send\<close> and \<open>receive\<close> run a whole sequence of messages with the
  counters of the two ends.
\<close>

fun send_all :: "(uint64 \<Rightarrow> bytes \<Rightarrow> bytes result) \<Rightarrow> uint64 \<Rightarrow> bytes list \<Rightarrow> bytes list result" where
  "send_all f s [] = Inr []"
| "send_all f s (p # ps) =
     (case f s p of Inl e \<Rightarrow> Inl e
      | Inr c \<Rightarrow> (case send_all f (s + 1) ps of Inl e \<Rightarrow> Inl e | Inr cs \<Rightarrow> Inr (c # cs)))"

locale seq_channel =
  fixes good :: "'k \<Rightarrow> bool"
    and sealf :: "'k \<Rightarrow> uint64 \<Rightarrow> bytes \<Rightarrow> bytes result"
    and openf :: "'k \<Rightarrow> uint64 \<Rightarrow> bytes \<Rightarrow> bytes result"
  assumes seal_ok: "good k \<Longrightarrow> \<exists>c. sealf k s p = Inr c"
    and open_seal: "good k \<Longrightarrow> sealf k s p = Inr c \<Longrightarrow> openf k s c = Inr p"
    and open_only: "good k \<Longrightarrow> openf k s c = Inr p \<Longrightarrow> sealf k s p = Inr c"
begin

lemma send_ok: "good k \<Longrightarrow> \<exists>cs. send_all (sealf k) s ps = Inr cs"
proof (induction ps arbitrary: s)
  case (Cons p ps)
  obtain c cs where "sealf k s p = Inr c" "send_all (sealf k) (s + 1) ps = Inr cs"
    using seal_ok [OF Cons.prems, of s p] Cons.IH [OF Cons.prems, of "s + 1"] by blast
  then show ?case by simp
qed simp

lemma receive_send:
  "good k \<Longrightarrow> send_all (sealf k) s ps = Inr cs \<Longrightarrow> send_all (openf k) s cs = Inr ps"
proof (induction ps arbitrary: s cs)
  case (Cons p ps)
  then show ?case
    by (auto split: sum.splits dest: open_seal)
qed simp

text \<open>Whatever a receiver accepts is what a sender with the same counter would have sent.\<close>

lemma receive_authentic:
  "good k \<Longrightarrow> send_all (openf k) s cs = Inr ps \<Longrightarrow> send_all (sealf k) s ps = Inr cs"
proof (induction cs arbitrary: s ps)
  case (Cons c cs)
  then show ?case
    by (auto split: sum.splits dest: open_only)
qed simp

end

text \<open>A channel whose messages carry their number: they do not open at any other.\<close>

locale numbered_channel = seq_channel +
  assumes numbered: "good k \<Longrightarrow> sealf k s p = Inr c \<Longrightarrow> t \<noteq> s \<Longrightarrow> \<exists>e. openf k t c = Inl e"
begin

lemma no_replay: "good k \<Longrightarrow> openf k s c = Inr p \<Longrightarrow> openf k t c = Inr q \<Longrightarrow> s = t \<and> p = q"
proof -
  assume k: "good k" and o: "openf k s c = Inr p" "openf k t c = Inr q"
  from k o(1) have "sealf k s p = Inr c" by (rule open_only)
  from numbered [OF k this] o(2) have "t = s" by force
  with o show ?thesis by simp
qed

end

definition stream_good :: "crypto \<times> bytes \<times> 16 barr \<times> node_id \<times> node_id \<Rightarrow> bool" where
  "stream_good = (\<lambda>(C, key, stream, src, dst). aead_ok C \<and> length key = 32)"

definition layer_good :: "crypto \<times> bytes \<Rightarrow> bool" where
  "layer_good = (\<lambda>(C, key). aead_ok C \<and> length key = 32)"

interpretation stream_channel: seq_channel stream_good
  "\<lambda>(C, key, stream, src, dst). seal C key stream src dst"
  "\<lambda>(C, key, stream, src, dst). open_ciphertext C key stream src dst"
  by unfold_locales
    (auto simp: stream_good_def seal_def open_ciphertext_def aead_okD(1) dest: aead_okD(2) split: option.splits)

lemma open_seal_layer:
  "aead_ok C \<Longrightarrow> length k = 32 \<Longrightarrow> seal_circuit_layer C k s p = Inr c \<Longrightarrow> open_circuit_layer C k s c = Inr p"
  by (auto simp: seal_circuit_layer_def open_circuit_layer_def aead_okD(1))

lemma open_layer_InrD:
  "aead_ok C \<Longrightarrow> length k = 32 \<Longrightarrow> open_circuit_layer C k s c = Inr p \<Longrightarrow> seal_circuit_layer C k s p = Inr c"
proof -
  assume a: "aead_ok C" "length k = 32" and o: "open_circuit_layer C k s c = Inr p"
  then have "8 \<le> length c" "get_u64 (take 8 c) = s"
      "gcm_open C k (make_nonce C k s) (drop 8 c) (layer_aad s) = Some p"
    by (auto simp: open_circuit_layer_def Let_def split: if_splits option.splits)
  then have "drop 8 c = gcm_seal C k (make_nonce C k s) p (layer_aad s)" "put_u64 s = take 8 c"
    using aead_okD(2) [OF a(1)] put_u64_get_u64 [of "take 8 c"] by auto
  then show ?thesis
    using a(2) by (simp add: seal_circuit_layer_def) (metis append_take_drop_id)
qed

interpretation layer_channel: numbered_channel layer_good
  "\<lambda>(C, key). seal_circuit_layer C key" "\<lambda>(C, key). open_circuit_layer C key"
proof unfold_locales
  fix k :: "crypto \<times> bytes" and s p c t
  assume g: "layer_good k"
  obtain C key where k: "k = (C, key)" by (cases k)
  have a: "aead_ok C" "length key = 32" using g by (auto simp: layer_good_def k)
  show "\<exists>c. (case k of (C, key) \<Rightarrow> seal_circuit_layer C key) s p = Inr c"
    using a by (simp add: k seal_circuit_layer_def)
  show "(case k of (C, key) \<Rightarrow> open_circuit_layer C key) s c = Inr p"
    if "(case k of (C, key) \<Rightarrow> seal_circuit_layer C key) s p = Inr c"
    using open_seal_layer [OF a] that by (simp add: k)
  show "(case k of (C, key) \<Rightarrow> seal_circuit_layer C key) s p = Inr c"
    if "(case k of (C, key) \<Rightarrow> open_circuit_layer C key) s c = Inr p"
    using open_layer_InrD [OF a] that by (simp add: k)
  show "\<exists>e. (case k of (C, key) \<Rightarrow> open_circuit_layer C key) t c = Inl e"
    if "(case k of (C, key) \<Rightarrow> seal_circuit_layer C key) s p = Inr c" "t \<noteq> s"
    using that a by (auto simp: k seal_circuit_layer_def open_circuit_layer_def)
qed

end
