(* ===== verification/Net_Lib.thy ===== *)
theory Net_Lib
  imports Session
begin

section \<open>Addresses and durations\<close>

text \<open>
  The functions of the packages \<open>net\<close> and \<open>time\<close> the configuration and the node use:
  \<open>SplitHostPort\<close>, \<open>JoinHostPort\<close>, \<open>ParseIP\<close> and \<open>ParseDuration\<close>, following their Go sources branch by
  branch. A fraction in a duration is rounded down exactly, where Go goes through a float.
\<close>

subsection \<open>Host and port\<close>

definition index_of :: "char \<Rightarrow> string \<Rightarrow> nat option" where
  "index_of c s = (if c \<in> set s then Some (length (takeWhile (\<lambda>x. x \<noteq> c) s)) else None)"

definition last_index_of :: "char \<Rightarrow> string \<Rightarrow> nat option" where
  "last_index_of c s =
     (if c \<in> set s then Some (length s - 1 - length (takeWhile (\<lambda>x. x \<noteq> c) (rev s))) else None)"

definition addr_error :: "string \<Rightarrow> string \<Rightarrow> error" where
  "addr_error addr e = (if addr = [] then e else ''address '' @ addr @ '': '' @ e)"

definition missing_port :: string where "missing_port = ''missing port in address''"
definition too_many_colons :: string where "too_many_colons = ''too many colons in address''"

text \<open>The host, and the positions from which stray brackets are looked for.\<close>

definition split_host :: "string \<Rightarrow> nat \<Rightarrow> (string \<times> nat \<times> nat) result" where
  "split_host a i =
     (if take 1 a = ''['' then
        (case index_of (CHR '']'') a of
           None \<Rightarrow> Inl (addr_error a ''missing bracket in address'')
         | Some e \<Rightarrow>
             if e + 1 = length a then Inl (addr_error a missing_port)
             else if e + 1 = i then Inr (drop 1 (take e a), 1, e + 1)
             else if a ! (e + 1) = CHR '':'' then Inl (addr_error a too_many_colons)
             else Inl (addr_error a missing_port))
      else if CHR '':'' \<in> set (take i a) then Inl (addr_error a too_many_colons)
      else Inr (take i a, 0, 0))"

definition split_host_port :: "string \<Rightarrow> (string \<times> string) result" where
  "split_host_port a =
     (case last_index_of (CHR '':'') a of
        None \<Rightarrow> Inl (addr_error a missing_port)
      | Some i \<Rightarrow>
          (case split_host a i of Inl e \<Rightarrow> Inl e
           | Inr (host, j, k) \<Rightarrow>
               if CHR ''['' \<in> set (drop j a) \<or> CHR '']'' \<in> set (drop k a)
               then Inl (addr_error a ''unexpected bracket in address'')
               else Inr (host, drop (i + 1) a)))"

definition join_host_port :: "string \<Rightarrow> string \<Rightarrow> string" where
  "join_host_port host port =
     (if CHR '':'' \<in> set host then ''['' @ host @ '']:'' @ port else host @ '':'' @ port)"

lemma takeWhile_neq_append [simp]: "c \<notin> set t \<Longrightarrow> takeWhile (\<lambda>x. x \<noteq> c) (t @ c # s) = t"
  by (induction t) auto

lemma last_index_of_append:
  "c \<notin> set t \<Longrightarrow> last_index_of c (s @ c # t) = Some (length s)"
  by (simp add: last_index_of_def)

text \<open>A host without brackets and a port without colon and brackets come apart again.\<close>

lemma split_join_host_port:
  assumes "CHR '':'' \<notin> set port" "CHR ''['' \<notin> set port" "CHR '']'' \<notin> set port"
    and "CHR ''['' \<notin> set host" "CHR '']'' \<notin> set host"
  shows "split_host_port (join_host_port host port) = Inr (host, port)"
proof (cases "CHR '':'' \<in> set host")
  case False
  have "take 1 (host @ CHR '':'' # port) \<noteq> ''[''"
    using assms(4) by (cases host) auto
  then show ?thesis
    using False assms
    by (simp add: join_host_port_def split_host_port_def last_index_of_append split_host_def)
next
  case True
  let ?a = "''['' @ host @ '']:'' @ port"
  have i: "last_index_of (CHR '':'') ?a = Some (length host + 2)"
    using last_index_of_append [OF assms(1), of "''['' @ host @ '']''"] by simp
  have e: "index_of (CHR '']'') ?a = Some (length host + 1)"
    using assms(5) by (simp add: index_of_def)
  show ?thesis
    using True assms i e by (simp add: join_host_port_def split_host_port_def split_host_def)
qed

subsection \<open>IP addresses\<close>

definition parse_octet :: "string \<Rightarrow> nat option" where
  "parse_octet s =
     (if s = [] \<or> length s > 3 \<or> (length s > 1 \<and> hd s = CHR ''0'') then None
      else (case read_nat_acc 0 s of Some n \<Rightarrow> if n < 256 then Some n else None | None \<Rightarrow> None))"

fun all_some :: "'a option list \<Rightarrow> 'a list option" where
  "all_some [] = Some []"
| "all_some (None # xs) = None"
| "all_some (Some x # xs) = map_option ((#) x) (all_some xs)"

definition parse_ipv4 :: "string \<Rightarrow> nat list option" where
  "parse_ipv4 s =
     (let parts = split_on (CHR ''.'') s
      in if length parts \<noteq> 4 then None else all_some (map parse_octet parts))"

fun parse_hex_acc :: "nat \<Rightarrow> string \<Rightarrow> nat option" where
  "parse_hex_acc a [] = Some a"
| "parse_hex_acc a (c # s) = (case hex_val c of None \<Rightarrow> None | Some d \<Rightarrow> parse_hex_acc (16 * a + d) s)"

definition parse_group :: "string \<Rightarrow> nat list option" where
  "parse_group s =
     (if s = [] \<or> length s > 4 then None
      else map_option (\<lambda>n. [n div 256, n mod 256]) (parse_hex_acc 0 s))"

text \<open>Colon-separated groups; the last one may be an IPv4 address.\<close>

definition parse_groups :: "bool \<Rightarrow> string \<Rightarrow> nat list option" where
  "parse_groups v4_last s =
     (if s = [] then Some []
      else let parts = split_on (CHR '':'') s in
        map_option concat (all_some (map parse_group (butlast parts) @
          [if v4_last \<and> CHR ''.'' \<in> set (last parts) then parse_ipv4 (last parts)
           else parse_group (last parts)])))"

fun split_ellipsis :: "string \<Rightarrow> string \<Rightarrow> (string \<times> string) option" where
  "split_ellipsis acc (a # b # s) =
     (if a = CHR '':'' \<and> b = CHR '':'' then Some (rev acc, s) else split_ellipsis (a # acc) (b # s))"
| "split_ellipsis acc _ = None"

definition parse_ipv6 :: "string \<Rightarrow> nat list option" where
  "parse_ipv6 s =
     (case split_ellipsis [] s of
        None \<Rightarrow> (case parse_groups True s of Some bs \<Rightarrow> if length bs = 16 then Some bs else None | None \<Rightarrow> None)
      | Some (l, r) \<Rightarrow>
          (case (parse_groups False l, parse_groups True r) of
             (Some a, Some b) \<Rightarrow>
               if length a + length b \<le> 14 then Some (a @ replicate (16 - length a - length b) 0 @ b) else None
           | _ \<Rightarrow> None))"

text \<open>\<open>net.ParseIP\<close> as 16 bytes, an IPv4 address in its mapped form.\<close>

definition mapped_prefix :: "nat list" where
  "mapped_prefix = replicate 10 0 @ [255, 255]"

definition parse_ip :: "string \<Rightarrow> nat list option" where
  "parse_ip s =
     (case find (\<lambda>c. c = CHR ''.'' \<or> c = CHR '':'' \<or> c = CHR ''%'') s of
        None \<Rightarrow> None
      | Some c \<Rightarrow>
          if c = CHR ''.'' then map_option (\<lambda>v. mapped_prefix @ v) (parse_ipv4 s)
          else if c = CHR '':'' then parse_ipv6 s else None)"

definition ip_unspecified :: "nat list \<Rightarrow> bool" where
  "ip_unspecified ip \<longleftrightarrow> ip = replicate 16 0 \<or> ip = mapped_prefix @ [0, 0, 0, 0]"

definition ip_loopback :: "nat list \<Rightarrow> bool" where
  "ip_loopback ip \<longleftrightarrow> ip = replicate 15 0 @ [1] \<or> take 12 ip = mapped_prefix \<and> ip ! 12 = 127"

subsection \<open>Durations\<close>

definition unit_ns :: "string \<Rightarrow> nat option" where
  "unit_ns u =
     (if u = ''ns'' then Some 1
      else if u = ''us'' \<or> u = [CHR 0xC2, CHR 0xB5, CHR ''s''] \<or> u = [CHR 0xCE, CHR 0xBC, CHR ''s''] then Some 1000
      else if u = ''ms'' then Some 1000000
      else if u = ''s'' then Some 1000000000
      else if u = ''m'' then Some 60000000000
      else if u = ''h'' then Some 3600000000000 else None)"

definition max_dur :: nat where "max_dur = 9223372036854775808"

definition digits_value :: "string \<Rightarrow> nat" where
  "digits_value s = foldl (\<lambda>a c. 10 * a + (of_char c - 48)) 0 s"

text \<open>One number with its unit: its nanoseconds and the rest of the text.\<close>

definition duration_item :: "string \<Rightarrow> (nat \<times> string) option" where
  "duration_item s =
     (let whole = takeWhile digit_char s; s1 = dropWhile digit_char s;
          dot = (take 1 s1 = ''.'');
          frac = (if dot then takeWhile digit_char (drop 1 s1) else []);
          s2 = (if dot then dropWhile digit_char (drop 1 s1) else s1);
          u = takeWhile (\<lambda>c. \<not> (c = CHR ''.'' \<or> digit_char c)) s2;
          rest = dropWhile (\<lambda>c. \<not> (c = CHR ''.'' \<or> digit_char c)) s2
      in if whole = [] \<and> frac = [] then None
         else if digits_value whole > max_dur then None
         else (case unit_ns u of None \<Rightarrow> None
           | Some k \<Rightarrow>
               if digits_value whole > max_dur div k then None
               else let v = digits_value whole * k + digits_value frac * k div 10 ^ length frac
                 in if v > max_dur then None else Some (v, rest)))"

fun duration_sum :: "nat \<Rightarrow> nat \<Rightarrow> string \<Rightarrow> nat option" where
  "duration_sum 0 d s = (if s = [] then Some d else None)"
| "duration_sum (Suc n) d s =
     (if s = [] then Some d
      else (case duration_item s of None \<Rightarrow> None
        | Some (v, rest) \<Rightarrow>
            let t = (d + v) mod 2 ^ 64 in if t > max_dur then None else duration_sum n t rest))"

definition parse_duration :: "string \<Rightarrow> int result" where
  "parse_duration orig =
     (let neg = (take 1 orig = ''-'');
          s = (if neg \<or> take 1 orig = ''+'' then drop 1 orig else orig);
          bad = Inl (''time: invalid duration '' @ quoted orig)
      in if s = ''0'' then Inr 0
         else if s = [] then bad
         else (case duration_sum (length s) 0 s of None \<Rightarrow> bad
           | Some d \<Rightarrow> if neg then Inr (- int d) else if d > max_dur - 1 then bad else Inr (int d)))"

text \<open>Every item takes at least its unit off the text, so the length of the text is enough fuel.\<close>

lemma duration_item_shorter: "duration_item s = Some (v, rest) \<Longrightarrow> length rest < length s"
proof -
  assume d: "duration_item s = Some (v, rest)"
  let ?f = "\<lambda>c. \<not> (c = CHR ''.'' \<or> digit_char c)"
  let ?s1 = "dropWhile digit_char s"
  let ?s2 = "if take 1 ?s1 = ''.'' then dropWhile digit_char (drop 1 ?s1) else ?s1"
  from d have r: "rest = dropWhile ?f ?s2" and u: "unit_ns (takeWhile ?f ?s2) \<noteq> None"
    by (auto simp: duration_item_def Let_def split: if_splits option.splits)
  from u have "takeWhile ?f ?s2 \<noteq> []"
    by (auto simp: unit_ns_def)
  moreover have "length ?s2 = length (takeWhile ?f ?s2) + length (dropWhile ?f ?s2)"
    by (metis length_append takeWhile_dropWhile_id)
  moreover have "length ?s2 \<le> length s"
    using length_dropWhile_le [of digit_char s] length_dropWhile_le [of digit_char "drop 1 ?s1"]
    by (auto intro: order_trans)
  ultimately show ?thesis
    using r by (cases "takeWhile ?f ?s2") auto
qed

end
