(* ===== verification/Config.thy ===== *)
theory Config
  imports Net_Lib
begin

section \<open>Configuration\<close>

text \<open>
  \<open>internal/config\<close>: the configuration record with its defaults, \<open>Normalize\<close>, \<open>Validate\<close> and the
  accessors, and \<open>ValidateBeaconURL\<close> of \<open>internal/discovery\<close>. The parser of package \<open>net/url\<close> is an
  argument (\<open>url_parser\<close>); \<open>Validate\<close> is the list of the errors it joins, empty for none, and checks the
  three directory durations in the order they are written. The lemmas give what a validated
  configuration guarantees to the components that use it.
\<close>

subsection \<open>The records\<close>

record service_config =
  sc_name :: string
  sc_target :: string
  sc_description :: string
  sc_allow :: "string list"
  sc_publish :: bool
  sc_identity_file :: string
  sc_intro_count :: int
  sc_metadata :: "(string \<times> string) list"

record forward_config =
  fc_listen :: string
  fc_node :: string
  fc_service :: string

record discovery_config =
  dc_enabled :: bool
  dc_beacons :: "string list"
  dc_lan :: bool
  dc_peer_exchange :: bool
  dc_cache_file :: string
  dc_interval :: string

record privacy_config =
  vc_circuit_hops :: int
  vc_circuit_timeout :: string

record directory_config =
  yc_replicas :: int
  yc_descriptor_ttl :: string
  yc_publish_interval :: string
  yc_lookup_timeout :: string

record routing_config =
  rc_lsa_interval :: string
  rc_lsa_ttl :: string
  rc_max_hops :: int

record cert_subject =
  cs_common_name :: string
  cs_organization :: "string list"
  cs_organizational_unit :: "string list"
  cs_country :: "string list"
  cs_province :: "string list"
  cs_locality :: "string list"
  cs_street_address :: "string list"
  cs_postal_code :: "string list"

record ca_config =
  ca_enabled :: bool
  ca_directory :: string
  ca_intercept :: bool
  ca_validity_days :: int
  ca_subject :: cert_subject

record transport_endpoint =
  te_name :: string
  te_type :: string
  te_endpoint :: string
  te_username :: string
  te_password :: string
  te_priority :: int
  te_enabled :: bool

record transport_config =
  tc_mode :: string
  tc_direct_first :: bool
  tc_fallback_direct :: bool
  tc_endpoints :: "transport_endpoint list"

record proxy_config =
  xc_socks :: string
  xc_http :: string
  xc_direct :: bool
  xc_default_http :: string
  xc_default_https :: string

record config =
  cf_network :: string
  cf_identity_file :: string
  cf_listen :: "string list"
  cf_advertise :: "string list"
  cf_peers :: "peer_config list"
  cf_services :: "service_config list"
  cf_forwards :: "forward_config list"
  cf_aliases :: "alias_entry list"
  cf_proxy :: proxy_config
  cf_ca :: ca_config
  cf_dashboard :: string
  cf_routing :: routing_config
  cf_discovery :: discovery_config
  cf_directory :: directory_config
  cf_privacy :: privacy_config
  cf_transport :: transport_config
  cf_path :: string

subsection \<open>Defaults and normalisation\<close>

definition default_subject :: cert_subject where
  "default_subject = \<lparr> cs_common_name = ''KnotRoute Local Root CA'', cs_organization = [''KnotRoute''],
     cs_organizational_unit = [], cs_country = [], cs_province = [], cs_locality = [],
     cs_street_address = [], cs_postal_code = [] \<rparr>"

definition default_config :: "crypto \<Rightarrow> config" where
  "default_config C = \<lparr>
     cf_network = network_string (default_network C), cf_identity_file = ''identity.json'',
     cf_listen = [''0.0.0.0:7447''], cf_advertise = [], cf_peers = [], cf_services = [], cf_forwards = [],
     cf_aliases = [],
     cf_proxy = \<lparr> xc_socks = ''127.0.0.1:9477'', xc_http = ''127.0.0.1:9478'', xc_direct = True,
       xc_default_http = ''http'', xc_default_https = ''https'' \<rparr>,
     cf_ca = \<lparr> ca_enabled = True, ca_directory = ''ca'', ca_intercept = True, ca_validity_days = 3650,
       ca_subject = default_subject \<rparr>,
     cf_dashboard = ''127.0.0.1:8484'',
     cf_routing = \<lparr> rc_lsa_interval = ''20s'', rc_lsa_ttl = ''90s'', rc_max_hops = 16 \<rparr>,
     cf_discovery = \<lparr> dc_enabled = True, dc_beacons = [], dc_lan = True, dc_peer_exchange = True,
       dc_cache_file = ''peers.json'', dc_interval = ''30s'' \<rparr>,
     cf_directory = \<lparr> yc_replicas = 5, yc_descriptor_ttl = ''10m'', yc_publish_interval = ''2m'',
       yc_lookup_timeout = ''8s'' \<rparr>,
     cf_privacy = \<lparr> vc_circuit_hops = 3, vc_circuit_timeout = ''15s'' \<rparr>,
     cf_transport = \<lparr> tc_mode = ''auto'', tc_direct_first = True, tc_fallback_direct = True, tc_endpoints = [] \<rparr>,
     cf_path = [] \<rparr>"

definition blank :: "string \<Rightarrow> bool" where
  "blank s \<longleftrightarrow> trim_space s = []"

definition transport_normalize :: "transport_config \<Rightarrow> transport_config" where
  "transport_normalize t = (if blank (tc_mode t) then t\<lparr>tc_mode := ''auto''\<rparr> else t)"

definition subject_normalize :: "cert_subject \<Rightarrow> cert_subject" where
  "subject_normalize s =
     s\<lparr> cs_common_name := (if blank (cs_common_name s) then ''KnotRoute Local Root CA'' else cs_common_name s),
        cs_organization := (if cs_organization s = [] then [''KnotRoute''] else cs_organization s) \<rparr>"

definition ca_normalize :: "ca_config \<Rightarrow> ca_config" where
  "ca_normalize a =
     a\<lparr> ca_validity_days := (if ca_validity_days a = 0 then 3650 else ca_validity_days a),
        ca_subject := subject_normalize (ca_subject a) \<rparr>"

definition proxy_normalize :: "proxy_config \<Rightarrow> proxy_config" where
  "proxy_normalize p =
     p\<lparr> xc_default_http := (if blank (xc_default_http p) then ''http'' else xc_default_http p),
        xc_default_https := (if blank (xc_default_https p) then ''https'' else xc_default_https p) \<rparr>"

definition config_normalize :: "config \<Rightarrow> config" where
  "config_normalize c =
     c\<lparr> cf_transport := transport_normalize (cf_transport c), cf_ca := ca_normalize (cf_ca c),
        cf_proxy := proxy_normalize (cf_proxy c),
        cf_discovery := (if blank (dc_interval (cf_discovery c))
          then (cf_discovery c)\<lparr>dc_interval := ''30s''\<rparr> else cf_discovery c) \<rparr>"

subsection \<open>Accessors\<close>

definition config_network :: "config \<Rightarrow> network_id result" where
  "config_network c = network_parse (cf_network c)"

text \<open>A duration that does not parse is 0 where the error is dropped.\<close>

definition duration_or_zero :: "string \<Rightarrow> int" where
  "duration_or_zero s = (case parse_duration s of Inl _ \<Rightarrow> 0 | Inr d \<Rightarrow> d)"

definition duration_or :: "int \<Rightarrow> string \<Rightarrow> int" where
  "duration_or z s = (let d = duration_or_zero s in if d \<le> 0 then z else d)"

definition discovery_interval :: "config \<Rightarrow> int" where
  "discovery_interval c = duration_or (seconds 30) (dc_interval (cf_discovery c))"

definition descriptor_ttl :: "config \<Rightarrow> int" where
  "descriptor_ttl c = duration_or (minutes 10) (yc_descriptor_ttl (cf_directory c))"

definition descriptor_publish_interval :: "config \<Rightarrow> int" where
  "descriptor_publish_interval c = duration_or (minutes 2) (yc_publish_interval (cf_directory c))"

definition descriptor_lookup_timeout :: "config \<Rightarrow> int" where
  "descriptor_lookup_timeout c = duration_or (seconds 8) (yc_lookup_timeout (cf_directory c))"

definition circuit_timeout :: "config \<Rightarrow> int" where
  "circuit_timeout c = duration_or (seconds 15) (vc_circuit_timeout (cf_privacy c))"

definition lsa_interval :: "config \<Rightarrow> int result" where
  "lsa_interval c = parse_duration (rc_lsa_interval (cf_routing c))"

definition lsa_ttl :: "config \<Rightarrow> int result" where
  "lsa_ttl c = parse_duration (rc_lsa_ttl (cf_routing c))"

lemma duration_or_pos: "0 < z \<Longrightarrow> 0 < duration_or z s"
  by (simp add: duration_or_def Let_def)

subsection \<open>Validation\<close>

record url =
  url_scheme :: string
  url_host :: string
  url_port :: string
  url_user :: bool
  url_query :: string
  url_fragment :: string
  url_path :: string

text \<open>The parser, and the text of a URL whose path is empty.\<close>

record url_parser =
  url_parse :: "string \<Rightarrow> url option"
  url_print :: "url \<Rightarrow> string"

definition trim_right_slash :: "string \<Rightarrow> string" where
  "trim_right_slash s = rev (dropWhile (\<lambda>c. c = CHR ''/'') (rev s))"

definition validate_beacon_url :: "url_parser \<Rightarrow> string \<Rightarrow> string result" where
  "validate_beacon_url U text =
     (let raw = trim_space text in
      if raw = [] then Inl ''beacon URL is empty''
      else (case url_parse U raw of
          None \<Rightarrow> Inl ''beacon URL must be an HTTP(S) URL, for example https://beacon.example.net''
        | Some u \<Rightarrow>
            if url_host u = [] \<or> (url_scheme u \<noteq> ''http'' \<and> url_scheme u \<noteq> ''https'')
            then Inl ''beacon URL must be an HTTP(S) URL, for example https://beacon.example.net''
            else if url_user u \<or> url_query u \<noteq> [] \<or> url_fragment u \<noteq> []
            then Inl ''beacon URL must not contain credentials, query parameters, or a fragment''
            else if url_path u \<noteq> [] \<and> url_path u \<noteq> ''/''
            then Inl (''beacon URL must point to the Beacon API root, not '' @ quoted (url_path u))
            else if url_port u = ''7447''
            then Inl ''port 7447 is the KnotRoute relay transport, not the Beacon HTTP API; use the HTTPS Beacon URL or its HTTP port (default 8080)''
            else Inr (trim_right_slash (url_print U (u\<lparr>url_path := []\<rparr>)))))"

definition validate_address :: "string \<Rightarrow> string \<Rightarrow> error list" where
  "validate_address name address =
     (if blank address then [name @ '' is empty'']
      else (case split_host_port address of
          Inl e \<Rightarrow> [name @ '': '' @ e]
        | Inr (host, port) \<Rightarrow>
            if host = [] \<and> \<not> has_prefix address '':'' then [name @ '' has an empty host'']
            else if port = [] then [name @ '' has an empty port''] else []))"

text \<open>A loop over a slice with its index; the body also sees the entries before it.\<close>

definition each :: "'a list \<Rightarrow> (nat \<Rightarrow> 'a list \<Rightarrow> 'a \<Rightarrow> error list) \<Rightarrow> error list" where
  "each xs f = concat (map (\<lambda>i. f i (take i xs) (xs ! i)) [0..<length xs])"

definition indexed :: "string \<Rightarrow> nat \<Rightarrow> string \<Rightarrow> string" where
  "indexed a i b = a @ ''['' @ show_nat i @ '']'' @ b"

definition err_if :: "bool \<Rightarrow> error \<Rightarrow> error list" where
  "err_if b e = (if b then [e] else [])"

definition err_of :: "string \<Rightarrow> 'a result \<Rightarrow> error list" where
  "err_of name r = (case r of Inl e \<Rightarrow> [name @ '': '' @ e] | Inr _ \<Rightarrow> [])"

definition validate_transport :: "transport_config \<Rightarrow> error list" where
  "validate_transport t =
     err_if (tc_mode t \<notin> {''auto'', ''direct'', ''proxy''})
       (''transport.mode must be auto, direct, or proxy, got '' @ quoted (tc_mode t))
     @ each (tc_endpoints t) (\<lambda>i before e.
         err_if (blank (te_name e)) (indexed ''transport.endpoints'' i ''.name is required'')
         @ err_if (te_name e \<in> te_name ` set before)
             (''transport endpoint name '' @ quoted (te_name e) @ '' is duplicated'')
         @ err_if (te_type e \<noteq> ''socks5'')
             (''transport endpoint '' @ quoted (te_name e) @ '': unsupported type '' @ quoted (te_type e))
         @ (if te_endpoint e = []
            then [''transport endpoint '' @ quoted (te_name e) @ '': endpoint is required'']
            else validate_address (''transport endpoint '' @ te_name e) (te_endpoint e)))"

definition validate_service :: "crypto \<Rightarrow> nat \<Rightarrow> service_config list \<Rightarrow> service_config \<Rightarrow> error list" where
  "validate_service C i before s =
     err_if (\<not> service_name (sc_name s)) (indexed ''services'' i ''.name is invalid'')
     @ err_if (sc_name s \<in> sc_name ` set before) (''duplicate service '' @ quoted (sc_name s))
     @ validate_address (indexed ''services'' i ''.target'') (sc_target s)
     @ err_if (sc_publish s \<and> (sc_intro_count s < 0 \<or> sc_intro_count s > 8))
         (indexed ''services'' i ''.intro_count must be 0..8'')
     @ concat (map (\<lambda>a. if a = ''*'' then []
         else err_of (indexed ''services'' i ''.allow'') (parse_node_reference C a)) (sc_allow s))"

definition alias_key :: "alias_entry \<Rightarrow> string" where
  "alias_key a = to_lower (trim_space (al_name a))"

definition validate_ca :: "ca_config \<Rightarrow> error list" where
  "validate_ca a =
     err_if (ca_enabled a \<and> blank (ca_directory a)) ''ca.directory is required when CA is enabled''
     @ (if ca_enabled a
        then err_if (blank (cs_common_name (ca_subject a))) ''ca.subject.common_name is required''
             @ err_if (ca_validity_days a < 30 \<or> ca_validity_days a > 7300)
                 ''ca.validity_days must be between 30 and 7300''
        else [])"

definition validate_proxy :: "proxy_config \<Rightarrow> error list" where
  "validate_proxy p =
     (if xc_socks p \<noteq> [] then validate_address ''proxy.socks'' (xc_socks p) else [])
     @ (if xc_http p \<noteq> [] then validate_address ''proxy.http'' (xc_http p) else [])
     @ err_if (\<not> service_name (xc_default_http p)) ''proxy.default_http_service is invalid''
     @ err_if (\<not> service_name (xc_default_https p)) ''proxy.default_https_service is invalid''"

definition bad_duration :: "int \<Rightarrow> string \<Rightarrow> bool" where
  "bad_duration least s = (case parse_duration s of Inl _ \<Rightarrow> True | Inr d \<Rightarrow> d < least)"

definition validate_discovery :: "url_parser \<Rightarrow> discovery_config \<Rightarrow> error list" where
  "validate_discovery U d =
     (if dc_enabled d
      then err_if (bad_duration (seconds 5) (dc_interval d)) ''discovery.interval must be at least 5s''
           @ each (dc_beacons d) (\<lambda>i before u. err_of (indexed ''discovery.beacons'' i []) (validate_beacon_url U u))
      else [])"

definition validate_limits :: "config \<Rightarrow> error list" where
  "validate_limits c =
     err_if (vc_circuit_hops (cf_privacy c) < 1 \<or> vc_circuit_hops (cf_privacy c) > 8)
       ''privacy.circuit_hops must be 1..8''
     @ err_if (bad_duration 1 (vc_circuit_timeout (cf_privacy c)))
       ''privacy.circuit_timeout must be a positive duration''
     @ err_if (yc_replicas (cf_directory c) < 1 \<or> yc_replicas (cf_directory c) > 16)
       ''directory.replicas must be 1..16''
     @ concat (map (\<lambda>(name, raw). err_if (bad_duration 1 raw)
           (''directory.'' @ name @ '' must be a positive duration''))
         [(''descriptor_ttl'', yc_descriptor_ttl (cf_directory c)),
          (''publish_interval'', yc_publish_interval (cf_directory c)),
          (''lookup_timeout'', yc_lookup_timeout (cf_directory c))])"

definition validate_routing :: "config \<Rightarrow> error list" where
  "validate_routing c =
     (let interval = duration_or_zero (rc_lsa_interval (cf_routing c));
          ttl = duration_or_zero (rc_lsa_ttl (cf_routing c))
      in err_of ''routing.lsa_interval'' (lsa_interval c)
         @ err_of ''routing.lsa_ttl'' (lsa_ttl c)
         @ err_if (interval > 0 \<and> ttl > 0 \<and> ttl < interval * 2)
             ''routing.lsa_ttl must be at least twice lsa_interval''
         @ err_if (rc_max_hops (cf_routing c) < 2 \<or> rc_max_hops (cf_routing c) > 64)
             ''routing.max_hops must be between 2 and 64'')"

definition config_validate :: "crypto \<Rightarrow> url_parser \<Rightarrow> config \<Rightarrow> error list" where
  "config_validate C U c =
     err_of ''network_id'' (network_parse (cf_network c))
     @ err_if (blank (cf_identity_file c)) ''identity_file is required''
     @ validate_transport (cf_transport c)
     @ err_if (cf_listen c = []) ''at least one listen address is required''
     @ concat (map (validate_address ''listen'') (cf_listen c))
     @ concat (map (validate_address ''advertise'') (cf_advertise c))
     @ each (cf_peers c) (\<lambda>i before p.
         validate_address (indexed ''peers'' i ''.address'') (pc_address p)
         @ (if pc_expected p \<noteq> [] then err_of (indexed ''peers'' i ''.expected_id'') (parse_node_reference C (pc_expected p)) else []))
     @ each (cf_services c) (validate_service C)
     @ each (cf_forwards c) (\<lambda>i before f.
         validate_address (indexed ''forwards'' i ''.listen'') (fc_listen f)
         @ err_of (indexed ''forwards'' i ''.node'') (resolve_node_reference C (fc_node f) (cf_aliases c))
         @ err_if (\<not> service_name (fc_service f)) (indexed ''forwards'' i ''.service is invalid''))
     @ each (cf_aliases c) (\<lambda>i before a.
         err_of (indexed ''aliases'' i []) (validate_alias C a)
         @ err_if (alias_key a \<in> alias_key ` set before) (''duplicate alias '' @ quoted (al_name a)))
     @ validate_ca (cf_ca c)
     @ validate_proxy (cf_proxy c)
     @ (if cf_dashboard c \<noteq> [] then validate_address ''dashboard'' (cf_dashboard c) else [])
     @ validate_discovery U (cf_discovery c)
     @ validate_limits c
     @ validate_routing c"

lemma err_if_Nil [simp]: "err_if b e = [] \<longleftrightarrow> \<not> b"
  by (simp add: err_if_def)

lemma err_of_Nil [simp]: "err_of name r = [] \<longleftrightarrow> is_ok r"
  by (cases r) (simp_all add: err_of_def)

lemma each_Nil: "each xs f = [] \<longleftrightarrow> (\<forall>i < length xs. f i (take i xs) (xs ! i) = [])"
  by (auto simp: each_def)

lemma each_distinct:
  assumes "each xs f = []" "\<And>i before x. f i before x = [] \<Longrightarrow> g x \<notin> g ` set before"
  shows "distinct (map g xs)"
proof -
  have ne: "g (xs ! j) \<noteq> g (xs ! i)" if "j < i" "i < length xs" for i j
  proof -
    have "f i (take i xs) (xs ! i) = []"
      using assms(1) that(2) by (simp add: each_Nil)
    then have "g (xs ! i) \<notin> g ` set (take i xs)"
      by (rule assms(2))
    moreover have "xs ! j \<in> set (take i xs)"
      using that by (auto simp: in_set_conv_nth intro!: exI [of _ j])
    ultimately show ?thesis by (metis imageI)
  qed
  show ?thesis
    unfolding distinct_conv_nth
  proof (intro allI impI)
    fix i j
    assume "i < length (map g xs)" "j < length (map g xs)" "i \<noteq> j"
    then show "map g xs ! i \<noteq> map g xs ! j"
      using ne [of i j] ne [of j i] by (cases "i < j") auto
  qed
qed

text \<open>What a validated configuration guarantees.\<close>

lemma config_valid_facts:
  assumes "config_validate C U c = []"
  shows "is_ok (network_parse (cf_network c))"
    "distinct (map sc_name (cf_services c))" "distinct (map alias_key (cf_aliases c))"
    "distinct (map te_name (tc_endpoints (cf_transport c)))"
    "2 \<le> rc_max_hops (cf_routing c)" "rc_max_hops (cf_routing c) \<le> 64"
    "1 \<le> yc_replicas (cf_directory c)" "yc_replicas (cf_directory c) \<le> 16"
    "1 \<le> vc_circuit_hops (cf_privacy c)" "vc_circuit_hops (cf_privacy c) \<le> 8"
    "\<And>s. s \<in> set (cf_services c) \<Longrightarrow> service_name (sc_name s)"
    "\<And>a. a \<in> set (cf_aliases c) \<Longrightarrow> validate_alias C a = Inr ()"
proof -
  have parts: "each (cf_services c) (validate_service C) = []"
      "each (tc_endpoints (cf_transport c)) (\<lambda>i before e.
         err_if (blank (te_name e)) (indexed ''transport.endpoints'' i ''.name is required'')
         @ err_if (te_name e \<in> te_name ` set before)
             (''transport endpoint name '' @ quoted (te_name e) @ '' is duplicated'')
         @ err_if (te_type e \<noteq> ''socks5'')
             (''transport endpoint '' @ quoted (te_name e) @ '': unsupported type '' @ quoted (te_type e))
         @ (if te_endpoint e = []
            then [''transport endpoint '' @ quoted (te_name e) @ '': endpoint is required'']
            else validate_address (''transport endpoint '' @ te_name e) (te_endpoint e))) = []"
      "each (cf_aliases c) (\<lambda>i before a.
         err_of (indexed ''aliases'' i []) (validate_alias C a)
         @ err_if (alias_key a \<in> alias_key ` set before) (''duplicate alias '' @ quoted (al_name a))) = []"
    using assms unfolding config_validate_def validate_transport_def append_is_Nil_conv by blast+
  show "distinct (map sc_name (cf_services c))"
    by (rule each_distinct [OF parts(1)]) (simp add: validate_service_def)
  show "distinct (map te_name (tc_endpoints (cf_transport c)))"
    by (rule each_distinct [OF parts(2)]) simp
  show "distinct (map alias_key (cf_aliases c))"
    by (rule each_distinct [OF parts(3)]) simp
  show "service_name (sc_name s)" if "s \<in> set (cf_services c)" for s
    using that parts(1) by (auto simp: each_Nil in_set_conv_nth validate_service_def)
  show "validate_alias C a = Inr ()" if "a \<in> set (cf_aliases c)" for a
    using that parts(3) by (auto simp: each_Nil in_set_conv_nth is_ok_iff)
  show "is_ok (network_parse (cf_network c))"
    using assms by (simp add: config_validate_def)
  have "validate_routing c = []" "validate_limits c = []"
    using assms by (simp_all add: config_validate_def)
  then show "2 \<le> rc_max_hops (cf_routing c)" "rc_max_hops (cf_routing c) \<le> 64"
    "1 \<le> yc_replicas (cf_directory c)" "yc_replicas (cf_directory c) \<le> 16"
    "1 \<le> vc_circuit_hops (cf_privacy c)" "vc_circuit_hops (cf_privacy c) \<le> 8"
    by (auto simp: validate_routing_def validate_limits_def Let_def)
qed

subsection \<open>Evaluation on the defaults\<close>

lemmas duration_eval = parse_duration_def duration_item_def digits_value_def unit_ns_def max_dur_def
  digit_char_def

lemma default_durations:
  "parse_duration ''20s'' = Inr (seconds 20)" "parse_duration ''90s'' = Inr (seconds 90)"
  "parse_duration ''30s'' = Inr (seconds 30)" "parse_duration ''10m'' = Inr (minutes 10)"
  "parse_duration ''2m'' = Inr (minutes 2)" "parse_duration ''8s'' = Inr (seconds 8)"
  "parse_duration ''15s'' = Inr (seconds 15)" "parse_duration ''0s'' = Inr 0"
  by (simp_all add: duration_eval seconds_def minutes_def Let_def)

lemma default_addresses:
  "validate_address name ''0.0.0.0:7447'' = []" "validate_address name ''127.0.0.1:9477'' = []"
  "validate_address name ''127.0.0.1:9478'' = []" "validate_address name ''127.0.0.1:8484'' = []"
  by (simp_all add: validate_address_def blank_def trim_space_spaceless is_space_def
      split_host_port_def last_index_of_def split_host_def)

lemma default_routing_parts:
  "validate_routing (default_config C) = []"
  "validate_routing (default_config C \<lparr>cf_routing := \<lparr> rc_lsa_interval = ''0s'', rc_lsa_ttl = ''90s'', rc_max_hops = 16 \<rparr>\<rparr>) = []"
  by (simp_all add: validate_routing_def default_config_def lsa_interval_def lsa_ttl_def
      default_durations duration_or_zero_def err_if_def err_of_def seconds_def)

lemma default_limits: "validate_limits (default_config C) = []"
  by (simp add: validate_limits_def default_config_def bad_duration_def default_durations err_if_def
      seconds_def minutes_def)

lemma default_names:
  "service_name ''http''" "service_name ''https''"
  by (simp_all add: service_name_def lower_or_digit_def)

lemma not_blank [simp]: "spaceless s \<Longrightarrow> blank s \<longleftrightarrow> s = []"
  by (simp add: blank_def trim_space_spaceless)

lemma blank_common_name: "\<not> blank ''KnotRoute Local Root CA''"
  by (simp add: blank_def trim_space_def trim_right_def is_space_def)

lemma default_rest:
  "validate_transport (cf_transport (default_config C)) = []"
  "validate_ca (cf_ca (default_config C)) = []"
  "validate_proxy (cf_proxy (default_config C)) = []"
  "validate_discovery U (cf_discovery (default_config C)) = []"
  by (simp_all add: default_config_def validate_transport_def validate_ca_def validate_proxy_def
      validate_discovery_def each_def err_if_def blank_common_name default_subject_def is_space_def
      default_addresses default_names bad_duration_def default_durations seconds_def)

lemma config_validate_default_with:
  assumes "validate_routing (default_config C \<lparr>cf_routing := r\<rparr>) = []"
  shows "config_validate C U (default_config C \<lparr>cf_routing := r\<rparr>) = []"
  using assms default_rest(1-3) [of C] default_rest(4) [of U C] default_limits [of C]
  by (simp add: config_validate_def validate_limits_def default_config_def each_def err_if_def err_of_def
      default_addresses is_space_def)

subsection \<open>Properties\<close>

text \<open>The configuration \<open>Default\<close> returns passes \<open>Validate\<close>, before and after \<open>Normalize\<close>.\<close>

theorem default_config_valid:
  "config_validate C U (default_config C) = [] \<and> config_normalize (default_config C) = default_config C"
proof
  have "default_config C \<lparr>cf_routing := cf_routing (default_config C)\<rparr> = default_config C"
    by simp
  then show "config_validate C U (default_config C) = []"
    using config_validate_default_with [where C = C and U = U and r = "cf_routing (default_config C)"] default_routing_parts(1) [of C]
    by simp
  show "config_normalize (default_config C) = default_config C"
    by (simp add: config_normalize_def default_config_def transport_normalize_def ca_normalize_def
        subject_normalize_def proxy_normalize_def default_subject_def blank_common_name is_space_def)
qed

text \<open>C39. A configuration without validation errors has a network identifier that parses, distinct service,
  alias and transport names, valid aliases, and its limits in range: the hop limit fits the packet's
  byte and lets a packet pass at least one relay.\<close>

theorem config_valid_guarantees:
  assumes "config_validate C U c = []"
  shows "is_ok (config_network c) \<and> distinct (map sc_name (cf_services c)) \<and>
    distinct (map alias_key (cf_aliases c)) \<and> distinct (map te_name (tc_endpoints (cf_transport c))) \<and>
    (\<forall>a \<in> set (cf_aliases c). validate_alias C a = Inr ()) \<and>
    1 \<le> yc_replicas (cf_directory c) \<and> yc_replicas (cf_directory c) \<le> 16 \<and>
    1 \<le> vc_circuit_hops (cf_privacy c) \<and> vc_circuit_hops (cf_privacy c) \<le> 8 \<and>
    2 \<le> rc_max_hops (cf_routing c) \<and> unat (word_of_int (rc_max_hops (cf_routing c)) :: byte) = nat (rc_max_hops (cf_routing c))"
proof -
  note f = config_valid_facts [OF assms]
  have "rc_max_hops (cf_routing c) mod 256 = rc_max_hops (cf_routing c)"
    using f(5,6) by simp
  then have "unat (word_of_int (rc_max_hops (cf_routing c)) :: byte) = nat (rc_max_hops (cf_routing c))"
    by (simp add: unat_eq_nat_uint uint_word_of_int_eq take_bit_eq_mod)
  with f show ?thesis
    by (simp add: config_network_def)
qed

lemma config_valid_guarantees_witness:
  "2 \<le> rc_max_hops (cf_routing (default_config toy)) \<and> is_ok (config_network (default_config toy))"
proof -
  have "config_validate toy U (default_config toy) = []" for U
    using config_validate_default_with [where C = toy and U = U and r = "cf_routing (default_config toy)"] default_routing_parts(1) [of toy]
    by simp
  from config_valid_guarantees [OF this] show ?thesis by blast
qed

text \<open>\<open>Validate\<close> accepts a link-state interval of zero, which \<open>maintenanceLoop\<close> passes to
  \<open>time.NewTicker\<close>, which panics on it.\<close>

theorem zero_lsa_interval_valid:
  "\<exists>c. config_validate C U c = [] \<and> lsa_interval c = Inr 0"
proof -
  let ?c = "default_config C \<lparr>cf_routing := \<lparr> rc_lsa_interval = ''0s'', rc_lsa_ttl = ''90s'', rc_max_hops = 16 \<rparr>\<rparr>"
  have "config_validate C U ?c = []"
    by (rule config_validate_default_with) (rule default_routing_parts(2))
  moreover have "lsa_interval ?c = Inr 0"
    by (simp add: lsa_interval_def default_durations)
  ultimately show ?thesis by blast
qed

end
