(* ===== verification/Sizes.thy ===== *)
theory Sizes
  imports Control
begin

section \<open>Sizes of encoded messages\<close>

text \<open>
  Upper bounds for the texts the encoders print, coarse but enough to see that a message fits a frame:
  six characters per character of a JSON string, two digits per byte of base32 and base64, twenty
  digits for a 64-bit number.
\<close>

lemma length_esc_char: "length (esc_char c) \<le> 6"
  by (simp add: esc_char_def Let_def)

lemma length_print_string: "length (print_string s) \<le> 6 * length s + 2"
proof -
  have "length (concat (map esc_char s)) \<le> 6 * length s"
    by (induction s) (auto intro: add_mono length_esc_char order_trans [OF add_mono [OF length_esc_char order_refl]])
  then show ?thesis by (simp add: print_string_def)
qed

lemma length_print_le: "length s \<le> k \<Longrightarrow> length (print_string s) \<le> 6 * k + 2"
  using length_print_string [of s] by simp

lemma length_encode_groups:
  assumes "\<And>k. 1 \<le> k \<Longrightarrow> k \<le> K \<Longrightarrow> group_len w k \<le> 2 * k"
  shows "length (encode_groups w K bs) \<le> 2 * length bs"
  using assms
proof (induction w K bs rule: encode_groups.induct)
  case (1 w K bs)
  show ?case
  proof (cases "bs = [] \<or> K = 0")
    case True
    then show ?thesis by (subst encode_groups.simps) simp
  next
    case False
    have e: "encode_groups w K bs = encode_group w (take K bs) @ encode_groups w K (drop K bs)"
      using False by (subst encode_groups.simps) simp
    have "1 \<le> length (take K bs)" "length (take K bs) \<le> K"
      using False by (auto simp: Suc_le_eq)
    then have g: "group_len w (length (take K bs)) \<le> 2 * length (take K bs)"
      using 1(2) by blast
    have r: "length (encode_groups w K (drop K bs)) \<le> 2 * length (drop K bs)"
      using 1(1) [OF False 1(2)] by blast
    have "length (encode_groups w K bs) = group_len w (length (take K bs)) + length (encode_groups w K (drop K bs))"
      by (simp add: e)
    also have "\<dots> \<le> 2 * (length (take K bs) + length (drop K bs))"
      unfolding distrib_left by (rule add_mono [OF g r])
    also have "\<dots> = 2 * length bs" by simp
    finally show ?thesis .
  qed
qed

lemma length_b64_encode: "length (b64_encode bs) \<le> 2 * length bs + 3"
proof -
  have "group_len 6 k \<le> 2 * k" if "1 \<le> k" for k
    using that by (simp add: group_len_def)
  then have "length (encode_groups 6 3 bs) \<le> 2 * length bs"
    by (intro length_encode_groups) simp
  moreover have "length (b64_pad n) \<le> 3" for n
    by (simp add: b64_pad_def)
  ultimately show ?thesis
    by (auto simp: b64_encode_def b64_raw_encode_def Let_def intro: add_mono)
qed

lemma length_b32_le: "length (b32_encode bs) \<le> 2 * length bs"
proof -
  have "group_len 5 k \<le> 2 * k" if "1 \<le> k" for k
    using that by (simp add: group_len_def)
  then show ?thesis
    by (simp add: length_b32_encode length_encode_groups)
qed

lemma length_id_strings: "length (node_string i) \<le> 67" "length (network_string w) \<le> 67" "length (service_string v) \<le> 67"
  using length_b32_le [of "node_bytes i"] length_b32_le [of "network_bytes w"] length_b32_le [of "service_bytes v"]
  by (simp_all add: node_string_def network_string_def service_string_def node_prefix_def network_prefix_def
      service_prefix_def)

lemma length_show_nat: "n < 10 ^ Suc k \<Longrightarrow> length (show_nat n) \<le> Suc k"
proof (induction k arbitrary: n)
  case 0
  then show ?case by (subst show_nat.simps) simp
next
  case (Suc k)
  then have "n div 10 < 10 ^ Suc k"
    by (simp add: less_mult_imp_div_less mult.commute)
  with Suc.IH [of "n div 10"] show ?case
    by (subst show_nat.simps) simp
qed

lemma length_show_int64: "length (show_int (sint (w :: int64))) \<le> 21"
proof -
  have "nat \<bar>sint w\<bar> < 10 ^ Suc 19"
    using sint_range_64 [of w] by simp
  from length_show_nat [OF this] show ?thesis
    by (auto simp: show_int_def abs_if split: if_splits)
qed

lemma length_show_uint64: "length (show_nat (unat (w :: uint64))) \<le> 20"
proof -
  have "unat w < 10 ^ Suc 19"
    using unsigned_less [of w, where 'a = nat] by simp
  from length_show_nat [OF this] show ?thesis by simp
qed

text \<open>The printed object, member by member.\<close>

lemma length_join: "length (join sep xs) \<le> sum_list (map length xs) + length sep * length xs"
proof (induction xs rule: join.induct)
  case (3 sep x y xs)
  then show ?case by simp
qed simp_all

definition member_size :: "string \<times> json \<Rightarrow> nat" where
  "member_size = (\<lambda>(k, v). 6 * length k + length (json_print v) + 4)"

lemma length_print_object:
  "length (json_print (JObj kvs)) \<le> sum_list (map member_size kvs) + 2"
proof -
  let ?f = "\<lambda>(k, v). print_string k @ '':'' @ json_print v"
  have "sum_list (map length (map ?f kvs)) + length kvs \<le> sum_list (map member_size kvs)"
  proof (induction kvs)
    case (Cons x kvs)
    then show ?case
      using length_print_string [of "fst x"] by (cases x) (simp add: member_size_def)
  qed simp
  with length_join [of "'',''" "map ?f kvs"] show ?thesis by simp
qed

lemma length_marshal_object: "length (marshal (JObj kvs)) \<le> sum_list (map member_size kvs) + 2"
  using length_print_object [of kvs] by (simp add: marshal_def)

lemma member_size_str: "length s \<le> k \<Longrightarrow> member_size (name, JStr s) \<le> 6 * length name + 6 * k + 6"
  using length_print_string [of s] by (simp add: member_size_def)

lemma member_size_num:
  "member_size (name, jm_int64 t) \<le> 6 * length name + 25" "member_size (name, jm_uint64 u) \<le> 6 * length name + 24"
  using length_show_int64 [of t] length_show_uint64 [of u]
  by (simp_all add: member_size_def jm_int64_def jm_uint64_def)

end
