(* ===== verification/Discovery.thy ===== *)
theory Discovery
  imports Complex_Main Config Sizes
begin

section \<open>Discovery: beacons, peer cache, local network\<close>

text \<open>
  \<open>internal/discovery\<close>: signed announcements, the beacon server with its records, bootstrap relays and
  rate limit, what its answers contain and who signed it, the cached peers, and what a datagram of the local network yields. A beacon answers one
  HTTP request per call of \<open>handle_peers\<close>; the records of a network are kept in the order Go's map is
  walked in. The token counters, Go floats, are rationals here, so rounding is left out. Interfaces of
  the host and the network sockets are arguments.
\<close>

subsection \<open>Announcements and candidates\<close>

record announcement =
  an_network :: string
  an_node :: string
  an_public_key :: string
  an_endpoints :: "string list"
  an_time :: int64
  an_nonce :: string
  an_signature :: string

record candidate =
  cd_node :: string
  cd_endpoints :: "string list"
  cd_seen :: int64

definition normalize_endpoints :: "string list \<Rightarrow> string list" where
  "normalize_endpoints xs = sort xs"

definition valid_endpoint :: "string \<Rightarrow> bool" where
  "valid_endpoint ep = (case split_host_port ep of
       Inl _ \<Rightarrow> False | Inr (host, port) \<Rightarrow> \<not> blank host \<and> \<not> blank port)"

definition announcement_message :: "announcement \<Rightarrow> bytes" where
  "announcement_message a = string_bytes
     (''knotroute/beacon/v1|'' @ an_network a @ ''|'' @ an_node a @ ''|'' @ an_public_key a @ ''|''
      @ join '','' (normalize_endpoints (an_endpoints a)) @ ''|'' @ show_int (sint (an_time a)))"

definition sign_announcement ::
  "crypto \<Rightarrow> identity \<Rightarrow> network_id \<Rightarrow> string list \<Rightarrow> time \<Rightarrow> announcement" where
  "sign_announcement C i network endpoints now =
     (let a = \<lparr> an_network = network_string network, an_node = node_string (id_node i),
            an_public_key = b64_encode (id_public i), an_endpoints = normalize_endpoints endpoints,
            an_time = unix now, an_nonce = [], an_signature = [] \<rparr>
      in a\<lparr>an_signature := b64_encode (identity_sign C i (announcement_message a))\<rparr>)"

definition announcement_verify :: "crypto \<Rightarrow> announcement \<Rightarrow> time \<Rightarrow> (node_id \<times> network_id) result" where
  "announcement_verify C a now =
     (case node_parse (an_node a) of Inl e \<Rightarrow> Inl e
      | Inr nid \<Rightarrow>
       (case network_parse (an_network a) of Inl e \<Rightarrow> Inl e
        | Inr network \<Rightarrow>
         if outside_window 180 (unix now) (an_time a)
         then Inl ''announcement timestamp outside allowed window''
         else (case b64_decode (an_public_key a) of None \<Rightarrow> Inl ''invalid public key''
          | Some pub \<Rightarrow>
            if length pub \<noteq> 32 then Inl ''invalid public key''
            else if node_from_public_key C pub \<noteq> nid then Inl ''node id does not match public key''
            else (case b64_decode (an_signature a) of None \<Rightarrow> Inl ''invalid announcement signature''
             | Some sig \<Rightarrow>
               if \<not> identity_verify C pub (announcement_message a) sig
               then Inl ''invalid announcement signature''
               else if length (an_endpoints a) > 16 then Inl ''invalid endpoint count''
               else (case filter (\<lambda>ep. \<not> valid_endpoint ep) (an_endpoints a) of
                   ep # _ \<Rightarrow> Inl (''invalid endpoint '' @ quoted ep)
                 | [] \<Rightarrow> Inr (nid, network))))))"

subsection \<open>JSON\<close>

text \<open>A slice copied from an empty one is \<open>nil\<close> and prints as \<open>null\<close>.\<close>

definition jm_endpoints :: "string list \<Rightarrow> json" where
  "jm_endpoints xs = (if xs = [] then JNull else jm_strs xs)"

definition announcement_json :: "announcement \<Rightarrow> json" where
  "announcement_json a = JObj ([(''network_id'', JStr (an_network a)), (''node_id'', JStr (an_node a)),
     (''public_key'', JStr (an_public_key a)), (''endpoints'', jm_endpoints (an_endpoints a)),
     (''time_unix'', jm_int64 (an_time a))]
     @ omit_if (an_nonce a = []) ''nonce'' (JStr (an_nonce a))
     @ [(''signature'', JStr (an_signature a))])"

definition announcement_of_json :: "json \<Rightarrow> announcement option" where
  "announcement_of_json j =
     do { kvs \<leftarrow> jobject j;
          net \<leftarrow> field str_field ''network_id'' kvs [];
          nid \<leftarrow> field str_field ''node_id'' kvs [];
          pub \<leftarrow> field str_field ''public_key'' kvs [];
          eps \<leftarrow> field strs_field ''endpoints'' kvs [];
          t \<leftarrow> field int64_field ''time_unix'' kvs 0;
          nonce \<leftarrow> field str_field ''nonce'' kvs [];
          sg \<leftarrow> field str_field ''signature'' kvs [];
          Some \<lparr> an_network = net, an_node = nid, an_public_key = pub, an_endpoints = eps,
                 an_time = t, an_nonce = nonce, an_signature = sg \<rparr> }"

definition candidate_json :: "candidate \<Rightarrow> json" where
  "candidate_json c = JObj [(''node_id'', JStr (cd_node c)), (''endpoints'', jm_endpoints (cd_endpoints c)),
     (''seen_unix'', jm_int64 (cd_seen c))]"

definition candidate_field :: "candidate \<Rightarrow> json \<Rightarrow> candidate option" where
  "candidate_field z j =
     (case j of JNull \<Rightarrow> Some z
      | _ \<Rightarrow> do { kvs \<leftarrow> jobject j;
                 nid \<leftarrow> field str_field ''node_id'' kvs (cd_node z);
                 eps \<leftarrow> field strs_field ''endpoints'' kvs (cd_endpoints z);
                 t \<leftarrow> field int64_field ''seen_unix'' kvs (cd_seen z);
                 Some \<lparr> cd_node = nid, cd_endpoints = eps, cd_seen = t \<rparr> })"

definition zero_candidate :: candidate where
  "zero_candidate = \<lparr> cd_node = [], cd_endpoints = [], cd_seen = 0 \<rparr>"

definition response_json :: "candidate list \<Rightarrow> json" where
  "response_json cs = JObj [(''peers'', JArr (map candidate_json cs))]"

definition response_of_json :: "json \<Rightarrow> candidate list option" where
  "response_of_json j =
     do { kvs \<leftarrow> jobject j; field (slice candidate_field zero_candidate) ''peers'' kvs [] }"

definition response_unmarshal :: "bytes \<Rightarrow> candidate list option" where
  "response_unmarshal raw = Option.bind (unmarshal raw) response_of_json"

text \<open>\<open>json.NewDecoder(..).Decode\<close> reads the first value and leaves the rest.\<close>

definition decode_first :: "bytes \<Rightarrow> json option" where
  "decode_first raw = (let s = bytes_string raw in map_option fst (parse_value (Suc (length s)) s))"

definition announcement_unmarshal :: "bytes \<Rightarrow> announcement option" where
  "announcement_unmarshal raw = Option.bind (unmarshal raw) announcement_of_json"

lemma strs_field_endpoints [simp]: "strs_field z (jm_endpoints xs) = Some xs"
  using strs_field_jm [of z xs]
  by (simp add: jm_endpoints_def strs_field_def slice_def)

lemma json_wf_endpoints [simp]: "json_wf (jm_endpoints xs)"
  by (simp add: jm_endpoints_def)

lemma candidate_field_json [simp]: "candidate_field z (candidate_json c) = Some c"
  by (simp add: candidate_field_def candidate_json_def jobject_def name_simps)

lemma response_roundtrip: "response_unmarshal (marshal (response_json cs)) = Some cs"
proof -
  have "json_wf (response_json cs)"
    by (auto simp: response_json_def candidate_json_def list_all_iff)
  then show ?thesis
    by (simp add: response_unmarshal_def unmarshal_marshal)
      (simp add: response_of_json_def response_json_def jobject_def name_simps slice_def)
qed

lemma announcement_json_wf [simp]: "json_wf (announcement_json a)"
  by (simp add: announcement_json_def)

lemma announcement_of_json_json [simp]: "announcement_of_json (announcement_json a) = Some a"
  by (cases "an_nonce a = []")
    (simp_all add: announcement_of_json_def announcement_json_def jobject_def name_simps)

lemma announcement_roundtrip: "announcement_unmarshal (marshal (announcement_json a)) = Some a"
  by (simp add: announcement_unmarshal_def unmarshal_marshal)

lemma decode_first_marshal:
  assumes "json_wf j"
  shows "decode_first (marshal j) = Some j"
proof -
  have "parse_value (Suc (length (json_print j))) (json_print j @ []) = Some (j, [])"
    by (rule parsesD [OF parses_json [OF assms]]) simp_all
  then show ?thesis
    by (simp add: decode_first_def marshal_def Let_def)
qed

subsection \<open>The beacon server\<close>

record beacon_record =
  br_candidate :: candidate
  br_expires :: time

record bootstrap_record =
  bb_candidate :: candidate
  bb_fallback_port :: string

record rate_record =
  rr_tokens :: rat
  rr_last :: time

record beacon =
  bs_ttl :: int
  bs_max :: int
  bs_records :: "string \<rightharpoonup> (string \<times> beacon_record) list"
  bs_bootstrap :: "string \<rightharpoonup> bootstrap_record"
  bs_rate :: "(string \<times> rate_record) list"
  bs_rate_per_second :: rat
  bs_rate_burst :: rat

definition new_beacon :: "int \<Rightarrow> int \<Rightarrow> beacon" where
  "new_beacon ttl limit =
     \<lparr> bs_ttl = (if ttl \<le> 0 then minutes 2 else ttl), bs_max = (if limit \<le> 0 then 10000 else limit),
       bs_records = Map.empty, bs_bootstrap = Map.empty, bs_rate = [],
       bs_rate_per_second = 2, bs_rate_burst = 8 \<rparr>"

text \<open>\<open>strconv.Atoi\<close> succeeds.\<close>

definition is_atoi :: "string \<Rightarrow> bool" where
  "is_atoi s =
     (let d = (if has_prefix s ''-'' \<or> has_prefix s ''+'' then drop 1 s else s)
      in d \<noteq> [] \<and> list_all digit_char d \<and>
         (case read_nat_acc 0 d of None \<Rightarrow> False
          | Some n \<Rightarrow> if has_prefix s ''-'' then n \<le> 9223372036854775808 else n < 9223372036854775808))"

definition set_bootstrap ::
  "network_id \<Rightarrow> node_id \<Rightarrow> string list \<Rightarrow> string \<Rightarrow> beacon \<Rightarrow> error option \<times> beacon" where
  "set_bootstrap network i endpoints fallback s =
     (case filter (\<lambda>ep. \<not> valid_endpoint ep) endpoints of
        ep # _ \<Rightarrow> (Some (''invalid endpoint '' @ quoted ep), s)
      | [] \<Rightarrow>
        if endpoints = [] \<and> \<not> is_atoi fallback
        then (Some (''invalid bootstrap port '' @ quoted fallback), s)
        else (None, s\<lparr>bs_bootstrap := (bs_bootstrap s)(network_string network \<mapsto>
               \<lparr> bb_candidate = \<lparr> cd_node = node_string i, cd_endpoints = normalize_endpoints endpoints, cd_seen = 0 \<rparr>,
                 bb_fallback_port = fallback \<rparr>)\<rparr>))"

definition set_rate_limit :: "rat \<Rightarrow> int \<Rightarrow> beacon \<Rightarrow> beacon" where
  "set_rate_limit rps burst s =
     (if rps \<le> 0 \<or> burst \<le> 0 then s
      else s\<lparr>bs_rate_per_second := rps, bs_rate_burst := rat_of_int burst\<rparr>)"

definition trim_brackets :: "string \<Rightarrow> string" where
  "trim_brackets s =
     (let f = dropWhile (\<lambda>c. c = CHR ''['' \<or> c = CHR '']'') in rev (f (rev (f s))))"

definition request_host :: "string \<Rightarrow> string" where
  "request_host v = (case split_host_port v of
       Inr (host, _) \<Rightarrow> trim_brackets host | Inl _ \<Rightarrow> trim_brackets (trim_space v))"

definition rate_host :: "string \<Rightarrow> string" where
  "rate_host remote =
     (let host = (case split_host_port remote of Inl _ \<Rightarrow> remote | Inr (h, _) \<Rightarrow> h)
      in if host = [] then ''unknown'' else host)"

definition in_seconds :: "int \<Rightarrow> rat" where
  "in_seconds d = rat_of_int d / 1000000000"

text \<open>The bucket before a request at \<open>now\<close> takes its token.\<close>

definition refill :: "beacon \<Rightarrow> time \<Rightarrow> rate_record option \<Rightarrow> rat" where
  "refill s now r =
     (case r of None \<Rightarrow> bs_rate_burst s
      | Some c \<Rightarrow> min (bs_rate_burst s) (rr_tokens c + in_seconds (now - rr_last c) * bs_rate_per_second s))"

definition allow_request :: "string \<Rightarrow> time \<Rightarrow> beacon \<Rightarrow> bool \<times> beacon" where
  "allow_request remote now s =
     (let host = rate_host remote;
          tokens = refill s now (map_of (bs_rate s) host)
      in if tokens < 1
         then (False, s\<lparr>bs_rate := AList.update host \<lparr>rr_tokens = tokens, rr_last = now\<rparr> (bs_rate s)\<rparr>)
         else let rate = AList.update host \<lparr>rr_tokens = tokens - 1, rr_last = now\<rparr> (bs_rate s);
                  kept = (if length rate > 4096
                          then filter (\<lambda>(k, v). \<not> rr_last v < now - minutes 10) rate else rate)
              in (True, s\<lparr>bs_rate := kept\<rparr>))"

record http_request =
  hr_method :: string
  hr_remote :: string
  hr_host :: string
  hr_body :: bytes

datatype http_response = Http_error nat string | Http_peers "candidate list"

definition bootstrap_candidate :: "string \<Rightarrow> time \<Rightarrow> bootstrap_record \<Rightarrow> candidate" where
  "bootstrap_candidate host_header now b =
     (let c = (bb_candidate b)\<lparr>cd_seen := unix now\<rparr>
      in if cd_endpoints c = []
         then let host = request_host host_header
              in if host \<noteq> [] then c\<lparr>cd_endpoints := [join_host_port host (bb_fallback_port b)]\<rparr> else c
         else c)"

definition newer_candidate :: "candidate \<Rightarrow> candidate \<Rightarrow> bool" where
  "newer_candidate a b \<longleftrightarrow> sint (cd_seen a) > sint (cd_seen b)"

text \<open>The candidates a caller gets from a network's records.\<close>

definition beacon_peers ::
  "string \<Rightarrow> time \<Rightarrow> string \<Rightarrow> (string \<times> beacon_record) list \<Rightarrow> bootstrap_record option \<Rightarrow> candidate list" where
  "beacon_peers host_header now self bucket boot =
     (let others = filter (\<lambda>(i, r). i \<noteq> self) bucket;
          peers = map (br_candidate \<circ> snd) others;
          extra = (case boot of None \<Rightarrow> []
            | Some b \<Rightarrow>
                if cd_node (bb_candidate b) = self \<or> cd_node (bb_candidate b) \<in> fst ` set others then []
                else let c = bootstrap_candidate host_header now b
                     in if cd_endpoints c \<noteq> [] then [c] else [])
      in take 64 (sort_by newer_candidate (peers @ extra)))"

definition store_announcement ::
  "beacon \<Rightarrow> time \<Rightarrow> string \<Rightarrow> string list \<Rightarrow> (string \<times> beacon_record) list \<Rightarrow> (string \<times> beacon_record) list option" where
  "store_announcement s now self endpoints bucket =
     (if endpoints = [] then Some (AList.delete self bucket)
      else if self \<notin> fst ` set bucket \<and> int (length bucket) \<ge> bs_max s then None
      else Some (AList.update self
        \<lparr> br_candidate = \<lparr> cd_node = self, cd_endpoints = normalize_endpoints endpoints, cd_seen = unix now \<rparr>,
          br_expires = now + bs_ttl s \<rparr> bucket))"

definition live_records :: "time \<Rightarrow> (string \<times> beacon_record) list option \<Rightarrow> (string \<times> beacon_record) list" where
  "live_records now b =
     (case b of None \<Rightarrow> [] | Some xs \<Rightarrow> filter (\<lambda>(i, r). \<not> now > br_expires r) xs)"

definition handle_peers :: "crypto \<Rightarrow> time \<Rightarrow> http_request \<Rightarrow> beacon \<Rightarrow> http_response \<times> beacon" where
  "handle_peers C now r s =
     (if hr_method r \<noteq> ''POST'' then (Http_error 405 ''method not allowed'', s)
      else (case allow_request (hr_remote r) now s of
        (False, s) \<Rightarrow> (Http_error 429 ''rate limit exceeded'', s)
      | (True, s) \<Rightarrow>
        (case Option.bind (decode_first (take 65536 (hr_body r))) announcement_of_json of
          None \<Rightarrow> (Http_error 400 ''invalid request'', s)
        | Some a \<Rightarrow>
          (case announcement_verify C a now of
            Inl e \<Rightarrow> (Http_error 400 e, s)
          | Inr (nid, network) \<Rightarrow>
            let key = network_string network; self = node_string nid;
                bucket = live_records now (bs_records s key)
            in (case store_announcement s now self (an_endpoints a) bucket of
                None \<Rightarrow> (Http_error 429 ''network capacity reached'', s\<lparr>bs_records := (bs_records s)(key \<mapsto> bucket)\<rparr>)
              | Some b \<Rightarrow> (Http_peers (beacon_peers (hr_host r) now self b (bs_bootstrap s key)),
                           s\<lparr>bs_records := (bs_records s)(key \<mapsto> b)\<rparr>))))))"

subsection \<open>Peer cache and local network\<close>

definition load_cache :: "bytes option \<Rightarrow> int \<Rightarrow> time \<Rightarrow> candidate list" where
  "load_cache contents max_age now =
     (case Option.bind contents response_unmarshal of None \<Rightarrow> []
      | Some peers \<Rightarrow> filter (\<lambda>p. sint (cd_seen p) \<ge> sint (unix (now - max_age))) peers)"

text \<open>The peers \<open>SaveCache\<close> writes.\<close>

definition cache_entries :: "candidate list \<Rightarrow> candidate list" where
  "cache_entries peers = take 512 (sort_by newer_candidate peers)"

definition lan_announcement ::
  "crypto \<Rightarrow> identity \<Rightarrow> network_id \<Rightarrow> string list \<Rightarrow> time \<Rightarrow> bytes option" where
  "lan_announcement C i network endpoints now =
     (let raw = marshal (announcement_json (sign_announcement C i network endpoints now))
      in if length raw \<le> 32768 then Some raw else None)"

definition lan_receive :: "crypto \<Rightarrow> identity \<Rightarrow> network_id \<Rightarrow> bytes \<Rightarrow> time \<Rightarrow> candidate option" where
  "lan_receive C i network datagram now =
     (case announcement_unmarshal (take 32768 datagram) of None \<Rightarrow> None
      | Some a \<Rightarrow>
        (case announcement_verify C a now of
           Inr (nid, nw) \<Rightarrow>
             if nw = network \<and> nid \<noteq> id_node i
             then Some \<lparr> cd_node = node_string nid, cd_endpoints = normalize_endpoints (an_endpoints a),
                         cd_seen = unix now \<rparr>
             else None
         | Inl _ \<Rightarrow> None))"

definition listen_ports :: "string list \<Rightarrow> string list" where
  "listen_ports listen = remdups (concat (map (\<lambda>a. case split_host_port a of
       Inl _ \<Rightarrow> [] | Inr (_, p) \<Rightarrow> if p \<noteq> ''0'' then [p] else []) listen))"

text \<open>\<open>ips\<close>: the IPv4 addresses of the interfaces that are up.\<close>

definition lan_endpoints :: "string list \<Rightarrow> string list \<Rightarrow> string list \<Rightarrow> string list" where
  "lan_endpoints ips listen advertise =
     (if advertise \<noteq> [] then normalize_endpoints advertise
      else normalize_endpoints (concat (map (\<lambda>p. map (\<lambda>ip. join_host_port ip p) ips) (listen_ports listen))))"

subsection \<open>Announcements verify\<close>

lemma sign_announcement_simps [simp]:
  "an_node (sign_announcement C i nw eps now) = node_string (id_node i)"
  "an_network (sign_announcement C i nw eps now) = network_string nw"
  "an_public_key (sign_announcement C i nw eps now) = b64_encode (id_public i)"
  "an_endpoints (sign_announcement C i nw eps now) = sort eps"
  "an_time (sign_announcement C i nw eps now) = unix now"
  by (simp_all add: sign_announcement_def normalize_endpoints_def Let_def)

lemma sign_announcement_signature:
  "an_signature (sign_announcement C i nw eps now) =
    b64_encode (identity_sign C i (announcement_message (sign_announcement C i nw eps now)))"
  by (simp add: sign_announcement_def announcement_message_def Let_def)

lemma verify_signed_announcement:
  assumes "good_identity C i" "\<not> outside_window 180 (unix now') (unix now)" "length eps \<le> 16"
    and "\<forall>ep \<in> set eps. valid_endpoint ep"
  shows "announcement_verify C (sign_announcement C i nw eps now) now' = Inr (id_node i, nw)"
proof -
  have "filter (\<lambda>ep. \<not> valid_endpoint ep) (sort eps) = []"
    using assms(4) by (simp add: filter_empty_conv)
  then show ?thesis
    using assms good_identityD [OF assms(1)]
    by (simp add: announcement_verify_def sign_announcement_signature)
qed

lemma announcement_verify_InrD:
  assumes "announcement_verify C a now = Inr (i, nw)"
  shows "node_parse (an_node a) = Inr i" "network_parse (an_network a) = Inr nw"
    "length (an_endpoints a) \<le> 16" "\<forall>ep \<in> set (an_endpoints a). valid_endpoint ep"
    "\<not> outside_window 180 (unix now) (an_time a)"
  using assms
  by (auto simp: announcement_verify_def filter_empty_conv split: sum.splits option.splits if_splits list.splits)

text \<open>What an accepted announcement is, in terms of the signature scheme: the key it carries is that of the node it
  names, and its signature is one of this key on its text.\<close>

definition signed_by :: "crypto \<Rightarrow> announcement \<Rightarrow> time \<Rightarrow> node_id \<Rightarrow> network_id \<Rightarrow> bool" where
  "signed_by C a now i nw \<longleftrightarrow> node_parse (an_node a) = Inr i \<and> network_parse (an_network a) = Inr nw \<and>
     \<not> outside_window 180 (unix now) (an_time a) \<and>
     (\<exists>pub sig. b64_decode (an_public_key a) = Some pub \<and> length pub = 32 \<and> node_from_public_key C pub = i \<and>
        b64_decode (an_signature a) = Some sig \<and> ed_verify C pub (announcement_message a) sig)"

lemma announcement_verify_signed: "announcement_verify C a now = Inr (i, nw) \<Longrightarrow> signed_by C a now i nw"
  by (auto simp: announcement_verify_def signed_by_def identity_verify_def filter_empty_conv
      split: sum.splits option.splits if_splits list.splits)

subsection \<open>What the beacon keeps and answers\<close>

definition record_ok :: "string \<times> beacon_record \<Rightarrow> bool" where
  "record_ok = (\<lambda>(i, r). cd_node (br_candidate r) = i \<and> cd_endpoints (br_candidate r) \<noteq> [] \<and>
     length (cd_endpoints (br_candidate r)) \<le> 16 \<and>
     (\<forall>ep \<in> set (cd_endpoints (br_candidate r)). valid_endpoint ep))"

definition bucket_ok :: "beacon \<Rightarrow> (string \<times> beacon_record) list \<Rightarrow> bool" where
  "bucket_ok s b \<longleftrightarrow> distinct (map fst b) \<and> int (length b) \<le> bs_max s \<and> (\<forall>p \<in> set b. record_ok p)"

definition beacon_ok :: "beacon \<Rightarrow> bool" where
  "beacon_ok s \<longleftrightarrow> 0 < bs_max s \<and> (\<forall>key b. bs_records s key = Some b \<longrightarrow> bucket_ok s b)"

lemma bucket_ok_shrink:
  assumes "bucket_ok s b" "distinct (map fst b')" "length b' \<le> length b" "set b' \<subseteq> set b"
  shows "bucket_ok s b'"
proof -
  have "int (length b') \<le> int (length b)" using assms(3) by simp
  also have "\<dots> \<le> bs_max s" using assms(1) by (simp add: bucket_ok_def)
  finally show ?thesis using assms by (auto simp: bucket_ok_def)
qed

lemma bucket_ok_live:
  assumes "beacon_ok s"
  shows "bucket_ok s (live_records now (bs_records s key))"
proof (cases "bs_records s key")
  case (Some b)
  with assms have b: "bucket_ok s b" by (simp add: beacon_ok_def)
  show ?thesis
    unfolding Some live_records_def option.case
    by (rule bucket_ok_shrink [OF b]) (use b in \<open>auto simp: bucket_ok_def intro: distinct_filter_keys\<close>)
qed (use assms in \<open>simp add: live_records_def bucket_ok_def beacon_ok_def\<close>)

lemma delete_facts:
  "length (AList.delete k xs) \<le> length xs" "set (AList.delete k xs) \<subseteq> set xs"
  by (auto simp: AList.delete_eq)

lemma length_update: "length (AList.update k v xs) = (if k \<in> fst ` set xs then length xs else Suc (length xs))"
  by (induction xs) auto

lemma set_update_subset: "set (AList.update k v xs) \<subseteq> insert (k, v) (set xs)"
  by (induction xs) auto

lemma bucket_ok_store:
  assumes "bucket_ok s b" "store_announcement s now self eps b = Some b'"
    and "length eps \<le> 16" "\<forall>ep \<in> set eps. valid_endpoint ep"
  shows "bucket_ok s b'"
proof (cases "eps = []")
  case True
  with assms(2) have b': "b' = AList.delete self b" by (simp add: store_announcement_def)
  show ?thesis
    unfolding b' by (rule bucket_ok_shrink [OF assms(1)])
      (use assms(1) delete_facts [of self b] in \<open>auto simp: bucket_ok_def distinct_delete\<close>)
next
  case False
  let ?r = "\<lparr> br_candidate = \<lparr> cd_node = self, cd_endpoints = normalize_endpoints eps, cd_seen = unix now \<rparr>,
    br_expires = now + bs_ttl s \<rparr>"
  from False assms(2) have b': "b' = AList.update self ?r b"
    and room: "self \<in> fst ` set b \<or> int (length b) < bs_max s"
    by (auto simp: store_announcement_def split: if_splits)
  have "sort eps \<noteq> []" using False by (metis length_0_conv length_sort)
  then have "record_ok (self, ?r)"
    using assms(3,4) by (simp add: record_ok_def normalize_endpoints_def)
  moreover have "set b' \<subseteq> insert (self, ?r) (set b)"
    unfolding b' by (rule set_update_subset)
  moreover have "int (length b') \<le> bs_max s"
    using room assms(1) by (auto simp: b' length_update bucket_ok_def)
  ultimately show ?thesis
    using assms(1) by (auto simp: b' bucket_ok_def distinct_update)
qed

lemma allow_request_keeps:
  "allow_request remote now s = (ok, s') \<Longrightarrow>
    bs_records s' = bs_records s \<and> bs_max s' = bs_max s \<and> bs_bootstrap s' = bs_bootstrap s \<and> bs_ttl s' = bs_ttl s
    \<and> bs_rate_burst s' = bs_rate_burst s \<and> bs_rate_per_second s' = bs_rate_per_second s"
  by (auto simp: allow_request_def Let_def split: if_splits)

lemma beacon_ok_cong:
  "bs_max s' = bs_max s \<Longrightarrow> bs_records s' = bs_records s \<Longrightarrow> beacon_ok s' = beacon_ok s"
  by (simp add: beacon_ok_def bucket_ok_def)

lemma beacon_ok_put: "beacon_ok s \<Longrightarrow> bucket_ok s b \<Longrightarrow> beacon_ok (s\<lparr>bs_records := (bs_records s)(key \<mapsto> b)\<rparr>)"
  by (simp add: beacon_ok_def bucket_ok_def)

lemma handle_peers_ok:
  assumes "beacon_ok s"
  shows "beacon_ok (snd (handle_peers C now r s))"
proof -
  obtain ok s1 where a: "allow_request (hr_remote r) now s = (ok, s1)" by fastforce
  have s1: "beacon_ok s1"
    using assms allow_request_keeps [OF a] by (simp cong: beacon_ok_cong)
  show ?thesis
  proof (cases "hr_method r = ''POST'' \<and> ok")
    case True
    show ?thesis
    proof (cases "Option.bind (decode_first (take 65536 (hr_body r))) announcement_of_json")
      case (Some an)
      show ?thesis
      proof (cases "announcement_verify C an now")
        case (Inr p)
        obtain nid nw where p: "p = (nid, nw)" by (cases p)
        note v = announcement_verify_InrD [OF Inr [unfolded p]]
        let ?b = "live_records now (bs_records s1 (network_string nw))"
        have b: "bucket_ok s1 ?b" by (rule bucket_ok_live [OF s1])
        show ?thesis
        proof (cases "store_announcement s1 now (node_string nid) (an_endpoints an) ?b")
          case None
          then show ?thesis
            using True a Some Inr p beacon_ok_put [OF s1 b]
            by (simp add: handle_peers_def Let_def)
        next
          case (Some b')
          then show ?thesis
            using True a \<open>_ = Some an\<close> Inr p beacon_ok_put [OF s1 bucket_ok_store [OF b Some v(3,4)]]
            by (simp add: handle_peers_def Let_def)
        qed
      qed (use True a Some s1 in \<open>simp add: handle_peers_def\<close>)
    qed (use True a s1 in \<open>simp add: handle_peers_def\<close>)
  next
    case False
    then show ?thesis
      using a s1 assms by (cases ok) (simp_all add: handle_peers_def)
  qed
qed

lemma bootstrap_node [simp]: "cd_node (bootstrap_candidate host now r) = cd_node (bb_candidate r)"
  by (simp add: bootstrap_candidate_def Let_def)

lemma beacon_peers_cases:
  assumes "c \<in> set (beacon_peers host now self b boot)"
  obtains (other) i r where "(i, r) \<in> set b" "i \<noteq> self" "c = br_candidate r"
  | (boot) r where "boot = Some r" "cd_node (bb_candidate r) \<noteq> self" "c = bootstrap_candidate host now r"
      "cd_endpoints c \<noteq> []"
proof -
  let ?others = "filter (\<lambda>(i, r). i \<noteq> self) b"
  let ?extra = "case boot of None \<Rightarrow> []
    | Some r \<Rightarrow> if cd_node (bb_candidate r) = self \<or> cd_node (bb_candidate r) \<in> fst ` set ?others then []
        else if cd_endpoints (bootstrap_candidate host now r) \<noteq> [] then [bootstrap_candidate host now r] else []"
  have "c \<in> set (map (br_candidate \<circ> snd) ?others @ ?extra)"
    using in_set_takeD [OF assms [unfolded beacon_peers_def Let_def]] unfolding set_sort_by .
  then consider "c \<in> set (map (br_candidate \<circ> snd) ?others)" | "c \<in> set ?extra"
    by auto
  then show thesis
  proof cases
    case 1
    then show ?thesis by (auto intro: other)
  next
    case 2
    then show ?thesis by (cases boot) (auto intro: boot split: if_splits)
  qed
qed

subsection \<open>The rate limit\<close>

lemma in_seconds_add: "in_seconds (a + b) = in_seconds a + in_seconds b"
  by (simp add: in_seconds_def add_divide_distrib)

lemma in_seconds_mono: "a \<le> b \<Longrightarrow> in_seconds a \<le> in_seconds b"
  by (simp add: in_seconds_def divide_right_mono)

lemma in_seconds_nonneg: "0 \<le> a \<Longrightarrow> 0 \<le> in_seconds a"
  by (simp add: in_seconds_def)

text \<open>The counters of every host are between zero and the burst and none is ahead of the clock; ten idle
  minutes refill a bucket.\<close>

definition rate_entry_ok :: "time \<Rightarrow> string \<times> rate_record \<Rightarrow> bool" where
  "rate_entry_ok now = (\<lambda>(h, r). 0 \<le> rr_tokens r \<and> rr_last r \<le> now)"

definition rate_ok :: "time \<Rightarrow> beacon \<Rightarrow> bool" where
  "rate_ok now s \<longleftrightarrow> 0 \<le> bs_rate_per_second s \<and> 0 \<le> bs_rate_burst s \<and>
     bs_rate_burst s \<le> 600 * bs_rate_per_second s \<and> distinct (map fst (bs_rate s)) \<and>
     (\<forall>p \<in> set (bs_rate s). rate_entry_ok now p)"

definition bucket_level :: "beacon \<Rightarrow> time \<Rightarrow> string \<Rightarrow> rat" where
  "bucket_level s now host = refill s now (map_of (bs_rate s) host)"

lemma rate_ok_later: "rate_ok t s \<Longrightarrow> t \<le> t' \<Longrightarrow> rate_ok t' s"
  by (force simp: rate_ok_def rate_entry_ok_def)

lemma rate_ok_entry: "rate_ok t s \<Longrightarrow> map_of (bs_rate s) h = Some r \<Longrightarrow> 0 \<le> rr_tokens r \<and> rr_last r \<le> t"
  by (auto simp: rate_ok_def rate_entry_ok_def dest!: map_of_SomeD)

lemma level_bounds:
  assumes "rate_ok t s"
  shows "0 \<le> bucket_level s t h" "bucket_level s t h \<le> bs_rate_burst s"
proof -
  show "bucket_level s t h \<le> bs_rate_burst s"
    by (simp add: bucket_level_def refill_def split: option.split)
  show "0 \<le> bucket_level s t h"
  proof (cases "map_of (bs_rate s) h")
    case (Some r)
    with rate_ok_entry [OF assms Some] assms show ?thesis
      by (simp add: bucket_level_def refill_def rate_ok_def in_seconds_nonneg)
  qed (use assms in \<open>simp add: bucket_level_def refill_def rate_ok_def\<close>)
qed

lemma level_later:
  assumes "rate_ok t s" "t \<le> t'"
  shows "bucket_level s t' h \<le> bucket_level s t h + in_seconds (t' - t) * bs_rate_per_second s"
proof (cases "map_of (bs_rate s) h")
  case None
  with assms show ?thesis
    by (simp add: bucket_level_def refill_def rate_ok_def in_seconds_nonneg)
next
  case (Some r)
  have "in_seconds (t' - rr_last r) = in_seconds (t - rr_last r) + in_seconds (t' - t)"
    using in_seconds_add [of "t - rr_last r" "t' - t"] by simp
  then have "in_seconds (t' - rr_last r) * bs_rate_per_second s =
      in_seconds (t - rr_last r) * bs_rate_per_second s + in_seconds (t' - t) * bs_rate_per_second s"
    by (simp add: distrib_right)
  moreover have "0 \<le> in_seconds (t' - t) * bs_rate_per_second s"
    using assms by (simp add: rate_ok_def in_seconds_nonneg)
  ultimately show ?thesis
    by (simp add: bucket_level_def refill_def Some)
qed

lemma idle_bucket_full:
  assumes "rate_ok t s" "map_of (bs_rate s) h = Some r" "rr_last r < t - minutes 10"
  shows "bucket_level s t h = bs_rate_burst s"
proof -
  have "in_seconds (minutes 10) \<le> in_seconds (t - rr_last r)"
    using assms(3) by (intro in_seconds_mono) simp
  then have "600 \<le> in_seconds (t - rr_last r)"
    by (simp add: in_seconds_def minutes_def)
  then have "600 * bs_rate_per_second s \<le> in_seconds (t - rr_last r) * bs_rate_per_second s"
    using assms(1) by (intro mult_right_mono) (simp_all add: rate_ok_def)
  with assms(1) rate_ok_entry [OF assms(1,2)] show ?thesis
    by (simp add: bucket_level_def refill_def assms(2) rate_ok_def)
qed

text \<open>One request at \<open>now\<close>: the level of the caller falls by the token it takes; nobody else's rises.\<close>

lemma rate_ok_put:
  "rate_ok t s \<Longrightarrow> 0 \<le> v \<Longrightarrow>
    rate_ok t (s\<lparr>bs_rate := AList.update h \<lparr>rr_tokens = v, rr_last = t\<rparr> (bs_rate s)\<rparr>)"
  using set_update_subset [of h "\<lparr>rr_tokens = v, rr_last = t\<rparr>" "bs_rate s"]
  by (auto simp: rate_ok_def rate_entry_ok_def distinct_update)

lemma rate_ok_purge: "rate_ok t s \<Longrightarrow> rate_ok t (s\<lparr>bs_rate := filter P (bs_rate s)\<rparr>)"
  by (simp add: rate_ok_def distinct_filter_keys)

lemma level_put:
  "bucket_level (s\<lparr>bs_rate := AList.update h \<lparr>rr_tokens = v, rr_last = t\<rparr> (bs_rate s)\<rparr>) t h' =
    (if h' = h then min (bs_rate_burst s) v else bucket_level s t h')"
  by (simp add: bucket_level_def refill_def update_conv' in_seconds_def split: option.split)

lemma level_purge:
  assumes "rate_ok t s"
  shows "bucket_level (s\<lparr>bs_rate := filter (\<lambda>(k, v). \<not> rr_last v < t - minutes 10) (bs_rate s)\<rparr>) t h = bucket_level s t h"
proof (cases "map_of (bs_rate s) h")
  case (Some r)
  show ?thesis
  proof (cases "rr_last r < t - minutes 10")
    case True
    then show ?thesis
      using idle_bucket_full [OF assms Some] assms map_of_filter_keys [of "bs_rate s" "\<lambda>k v. \<not> rr_last v < t - minutes 10" h]
      by (simp add: bucket_level_def refill_def Some rate_ok_def)
  next
    case False
    then show ?thesis
      using assms map_of_filter_keys [of "bs_rate s" "\<lambda>k v. \<not> rr_last v < t - minutes 10" h]
      by (simp add: bucket_level_def refill_def Some rate_ok_def)
  qed
next
  case None
  then show ?thesis
    using assms map_of_filter_keys [of "bs_rate s" "\<lambda>k v. \<not> rr_last v < t - minutes 10" h]
    by (simp add: bucket_level_def refill_def rate_ok_def)
qed

lemma allow_request_level:
  assumes "rate_ok t s" "allow_request remote t s = (ok, s')"
  shows "rate_ok t s' \<and> bucket_level s' t h + (if ok \<and> rate_host remote = h then 1 else 0) \<le> bucket_level s t h"
proof -
  let ?host = "rate_host remote"
  let ?v = "refill s t (map_of (bs_rate s) ?host)"
  have v: "?v = bucket_level s t ?host" by (simp add: bucket_level_def)
  let ?put = "\<lambda>v. s\<lparr>bs_rate := AList.update ?host \<lparr>rr_tokens = v, rr_last = t\<rparr> (bs_rate s)\<rparr>"
  show ?thesis
  proof (cases "?v < 1")
    case True
    with assms(2) have "ok = False" "s' = ?put ?v"
      by (simp_all add: allow_request_def Let_def)
    with level_bounds [OF assms(1), of ?host] rate_ok_put [OF assms(1), of ?v ?host]
    show ?thesis by (simp add: level_put v)
  next
    case False
    define s1 where "s1 = ?put (?v - 1)"
    have s1: "rate_ok t s1" "bucket_level s1 t h + (if ?host = h then 1 else 0) \<le> bucket_level s t h"
      using False rate_ok_put [OF assms(1), of "?v - 1" ?host]
      by (auto simp: s1_def level_put v min_def)
    have "ok" "s' = s1 \<or> s' = s1\<lparr>bs_rate := filter (\<lambda>(k, v). \<not> rr_last v < t - minutes 10) (bs_rate s1)\<rparr>"
      using False assms(2) by (auto simp: allow_request_def Let_def s1_def split: if_splits)
    then show ?thesis
      using s1 rate_ok_purge [OF s1(1)] level_purge [OF s1(1), of h] by auto
  qed
qed

fun allowed_count :: "string \<Rightarrow> (string \<times> time) list \<Rightarrow> beacon \<Rightarrow> nat" where
  "allowed_count h [] s = 0"
| "allowed_count h ((remote, now) # rs) s =
     (case allow_request remote now s of (ok, s') \<Rightarrow>
        (if ok \<and> rate_host remote = h then 1 else 0) + allowed_count h rs s')"

lemma allowed_count_level:
  "rate_ok t s \<Longrightarrow> sorted (t # map snd rs) \<Longrightarrow> \<forall>p \<in> set rs. snd p \<le> t' \<Longrightarrow> t \<le> t' \<Longrightarrow>
    rat_of_nat (allowed_count h rs s) \<le> bucket_level s t h + in_seconds (t' - t) * bs_rate_per_second s"
proof (induction rs arbitrary: s t)
  case Nil
  then show ?case
    using level_bounds(1) [OF Nil.prems(1), of h]
    by (simp add: rate_ok_def in_seconds_nonneg)
next
  case (Cons p rs)
  obtain remote now where p: "p = (remote, now)" by (cases p)
  obtain ok s' where a: "allow_request remote now s = (ok, s')" by fastforce
  from Cons.prems have le: "t \<le> now" "now \<le> t'" by (auto simp: p)
  have s: "rate_ok now s" by (rule rate_ok_later [OF Cons.prems(1) le(1)])
  note r = allow_request_level [OF s a, of h]
  have rps: "bs_rate_per_second s' = bs_rate_per_second s"
    using allow_request_keeps [OF a] by simp
  have "rat_of_nat (allowed_count h rs s') \<le> bucket_level s' now h + in_seconds (t' - now) * bs_rate_per_second s"
    using Cons.IH [of now s'] r Cons.prems le by (auto simp: p rps)
  moreover have "in_seconds (t' - t) = in_seconds (now - t) + in_seconds (t' - now)"
    using in_seconds_add [of "now - t" "t' - now"] by simp
  ultimately show ?case
    using r level_later [OF Cons.prems(1) le(1), of h]
    by (auto simp: p a distrib_right split: if_splits)
qed

subsection \<open>Reachable beacons\<close>

inductive beacon_reachable :: "crypto \<Rightarrow> beacon \<Rightarrow> bool" for C where
  fresh: "beacon_reachable C (new_beacon ttl limit)"
| bootstrap: "beacon_reachable C s \<Longrightarrow> beacon_reachable C (snd (set_bootstrap nw i eps port s))"
| limits: "beacon_reachable C s \<Longrightarrow> beacon_reachable C (set_rate_limit rps burst s)"
| served: "beacon_reachable C s \<Longrightarrow> beacon_reachable C (snd (handle_peers C now r s))"

lemma beacon_reachable_ok: "beacon_reachable C s \<Longrightarrow> beacon_ok s"
proof (induction rule: beacon_reachable.induct)
  case (fresh ttl limit)
  then show ?case by (simp add: new_beacon_def beacon_ok_def)
next
  case (bootstrap s nw i eps port)
  have "bs_max (snd (set_bootstrap nw i eps port s)) = bs_max s"
    "bs_records (snd (set_bootstrap nw i eps port s)) = bs_records s"
    by (simp_all add: set_bootstrap_def split: list.split)
  with bootstrap show ?case by (simp cong: beacon_ok_cong)
next
  case (limits s rps burst)
  have "bs_max (set_rate_limit rps burst s) = bs_max s" "bs_records (set_rate_limit rps burst s) = bs_records s"
    by (simp_all add: set_rate_limit_def)
  with limits show ?case by (simp cong: beacon_ok_cong)
next
  case (served s now r)
  then show ?case by (rule_tac handle_peers_ok)
qed

text \<open>Every record of a network is what an announcement of its node for this network said, signed by the node itself.\<close>

definition announced :: "crypto \<Rightarrow> int \<Rightarrow> string \<Rightarrow> string \<Rightarrow> beacon_record \<Rightarrow> bool" where
  "announced C ttl key i rec \<longleftrightarrow> (\<exists>a t nid nw. signed_by C a t nid nw \<and> node_string nid = i \<and> network_string nw = key \<and>
     rec = \<lparr> br_candidate = \<lparr> cd_node = i, cd_endpoints = normalize_endpoints (an_endpoints a), cd_seen = unix t \<rparr>,
             br_expires = t + ttl \<rparr>)"

definition all_announced :: "crypto \<Rightarrow> beacon \<Rightarrow> bool" where
  "all_announced C s \<longleftrightarrow>
     (\<forall>key b i rec. bs_records s key = Some b \<longrightarrow> (i, rec) \<in> set b \<longrightarrow> announced C (bs_ttl s) key i rec)"

lemma all_announced_cong:
  "bs_records s' = bs_records s \<Longrightarrow> bs_ttl s' = bs_ttl s \<Longrightarrow> all_announced C s' = all_announced C s"
  by (simp add: all_announced_def)

lemma all_announced_put:
  "all_announced C s \<Longrightarrow> (\<And>i rec. (i, rec) \<in> set b \<Longrightarrow> announced C (bs_ttl s) key i rec) \<Longrightarrow>
    all_announced C (s\<lparr>bs_records := (bs_records s)(key \<mapsto> b)\<rparr>)"
  by (simp add: all_announced_def)

lemma live_records_member: "(i, rec) \<in> set (live_records now b) \<longleftrightarrow> (\<exists>xs. b = Some xs \<and> (i, rec) \<in> set xs \<and> now \<le> br_expires rec)"
  by (auto simp: live_records_def not_less split: option.splits)

lemma store_announcement_member:
  assumes "store_announcement s now self eps b = Some b'" "(i, rec) \<in> set b'"
  shows "(i, rec) \<in> set b \<or> (i = self \<and> rec = \<lparr> br_candidate = \<lparr> cd_node = self, cd_endpoints = normalize_endpoints eps, cd_seen = unix now \<rparr>,
    br_expires = now + bs_ttl s \<rparr>)"
  using assms delete_facts(2) [of self b] set_update_subset [of self _ b]
  by (auto simp: store_announcement_def split: if_splits)

lemma handle_peers_announced:
  assumes "all_announced C s"
  shows "all_announced C (snd (handle_peers C now r s))"
proof -
  obtain ok s1 where a: "allow_request (hr_remote r) now s = (ok, s1)" by fastforce
  have s1: "all_announced C s1"
    using assms allow_request_keeps [OF a] by (simp cong: all_announced_cong)
  show ?thesis
  proof (cases "hr_method r = ''POST'' \<and> ok")
    case True
    show ?thesis
    proof (cases "Option.bind (decode_first (take 65536 (hr_body r))) announcement_of_json")
      case an: (Some an)
      show ?thesis
      proof (cases "announcement_verify C an now")
        case (Inr p)
        obtain nid nw where p: "p = (nid, nw)" by (cases p)
        let ?b = "live_records now (bs_records s1 (network_string nw))"
        have live: "announced C (bs_ttl s1) (network_string nw) i rec" if "(i, rec) \<in> set ?b" for i rec
          using s1 that by (auto simp: live_records_member all_announced_def)
        have new: "announced C (bs_ttl s1) (network_string nw) (node_string nid)
            \<lparr> br_candidate = \<lparr> cd_node = node_string nid, cd_endpoints = normalize_endpoints (an_endpoints an), cd_seen = unix now \<rparr>,
              br_expires = now + bs_ttl s1 \<rparr>"
          unfolding announced_def using announcement_verify_signed [OF Inr [unfolded p]] by blast
        show ?thesis
        proof (cases "store_announcement s1 now (node_string nid) (an_endpoints an) ?b")
          case None
          then show ?thesis
            using True a an Inr p all_announced_put [OF s1 live] by (simp add: handle_peers_def Let_def)
        next
          case (Some b')
          have "announced C (bs_ttl s1) (network_string nw) i rec" if "(i, rec) \<in> set b'" for i rec
            using store_announcement_member [OF Some that] live new by blast
          then show ?thesis
            using True a an Some Inr p all_announced_put [OF s1] by (simp add: handle_peers_def Let_def)
        qed
      qed (use True a an s1 in \<open>simp add: handle_peers_def\<close>)
    qed (use True a s1 in \<open>simp add: handle_peers_def\<close>)
  next
    case False
    then show ?thesis
      using a s1 assms by (cases ok) (simp_all add: handle_peers_def)
  qed
qed

lemma beacon_reachable_announced: "beacon_reachable C s \<Longrightarrow> all_announced C s"
proof (induction rule: beacon_reachable.induct)
  case (fresh ttl limit)
  then show ?case by (simp add: new_beacon_def all_announced_def)
next
  case (bootstrap s nw i eps port)
  have "bs_ttl (snd (set_bootstrap nw i eps port s)) = bs_ttl s"
    "bs_records (snd (set_bootstrap nw i eps port s)) = bs_records s"
    by (simp_all add: set_bootstrap_def split: list.split)
  with bootstrap show ?case by (simp cong: all_announced_cong)
next
  case (limits s rps burst)
  have "bs_ttl (set_rate_limit rps burst s) = bs_ttl s" "bs_records (set_rate_limit rps burst s) = bs_records s"
    by (simp_all add: set_rate_limit_def)
  with limits show ?case by (simp cong: all_announced_cong)
next
  case (served s now r)
  then show ?case by (rule_tac handle_peers_announced)
qed

text \<open>What one answer is made of: only live records of other nodes, each announced by its node, and the bootstrap
  relay; and all of the live records of other nodes when the network has fewer than 64.\<close>

definition live_record :: "beacon \<Rightarrow> string \<Rightarrow> time \<Rightarrow> string \<Rightarrow> beacon_record \<Rightarrow> bool" where
  "live_record s key now i rec \<longleftrightarrow> (\<exists>b. bs_records s key = Some b \<and> (i, rec) \<in> set b \<and> now \<le> br_expires rec)"

definition answer_ok :: "crypto \<Rightarrow> time \<Rightarrow> http_request \<Rightarrow> beacon \<Rightarrow> candidate list \<Rightarrow> bool" where
  "answer_ok C now r s cs \<longleftrightarrow> length cs \<le> 64 \<and>
     (\<exists>a nid nw. Option.bind (decode_first (take 65536 (hr_body r))) announcement_of_json = Some a \<and> signed_by C a now nid nw \<and>
        (\<forall>c \<in> set cs. cd_node c \<noteq> node_string nid \<and> cd_endpoints c \<noteq> [] \<and>
           ((\<exists>rec. live_record s (network_string nw) now (cd_node c) rec \<and> br_candidate rec = c \<and>
               announced C (bs_ttl s) (network_string nw) (cd_node c) rec) \<or>
            (\<exists>bt. bs_bootstrap s (network_string nw) = Some bt \<and> c = bootstrap_candidate (hr_host r) now bt))) \<and>
        (\<forall>b i rec. bs_records s (network_string nw) = Some b \<longrightarrow> length b < 64 \<longrightarrow> live_record s (network_string nw) now i rec \<longrightarrow>
           i \<noteq> node_string nid \<longrightarrow> br_candidate rec \<in> set cs))"

lemma others_of_update: "filter (\<lambda>(i, r). i \<noteq> self) (AList.update self v xs) = filter (\<lambda>(i, r). i \<noteq> self) xs"
  by (induction xs) auto

lemma others_of_delete: "filter (\<lambda>(i, r). i \<noteq> self) (AList.delete self xs) = filter (\<lambda>(i, r). i \<noteq> self) xs"
  by (induction xs) auto

lemma store_announcement_filter:
  "store_announcement s now self eps b = Some b' \<Longrightarrow> filter (\<lambda>(i, r). i \<noteq> self) b' = filter (\<lambda>(i, r). i \<noteq> self) b"
  by (auto simp: store_announcement_def others_of_update others_of_delete split: if_splits)

lemma beacon_peers_complete:
  assumes "length (filter (\<lambda>(i, r). i \<noteq> self) b) < 64" "(i, rec) \<in> set b" "i \<noteq> self"
  shows "br_candidate rec \<in> set (beacon_peers host now self b boot)"
proof -
  let ?peers = "map (br_candidate \<circ> snd) (filter (\<lambda>(i, r). i \<noteq> self) b)"
  have "br_candidate rec \<in> set ?peers"
    using assms(2,3) by force
  moreover have "length (?peers @ (case boot of None \<Rightarrow> []
            | Some b' \<Rightarrow>
                if cd_node (bb_candidate b') = self \<or> cd_node (bb_candidate b') \<in> fst ` set (filter (\<lambda>(i, r). i \<noteq> self) b) then []
                else let c = bootstrap_candidate host now b' in if cd_endpoints c \<noteq> [] then [c] else [])) \<le> 64"
    using assms(1) by (simp add: Let_def split: option.split)
  ultimately show ?thesis
    unfolding beacon_peers_def Let_def by (subst take_all) (simp_all add: Let_def)
qed

lemma store_announcement_others:
  assumes "store_announcement s now self eps b = Some b'" "distinct (map fst b)" "(i, r) \<in> set b'" "i \<noteq> self"
  shows "(i, r) \<in> set b"
proof -
  have d: "distinct (map fst b')"
    using assms(1,2) by (auto simp: store_announcement_def distinct_delete distinct_update split: if_splits)
  have "map_of b' i = map_of b i"
    using assms(1,4) by (auto simp: store_announcement_def update_conv' delete_conv' split: if_splits)
  with assms(2,3) d show ?thesis by (metis map_of_eq_Some_iff)
qed

lemma handle_peers_answer:
  assumes "beacon_ok s" "all_announced C s" "handle_peers C now r s = (Http_peers cs, s')"
  shows "answer_ok C now r s cs"
proof -
  obtain ok s1 where a: "allow_request (hr_remote r) now s = (ok, s1)" by fastforce
  note keeps = allow_request_keeps [OF a]
  have s1: "beacon_ok s1" using assms(1) keeps by (simp cong: beacon_ok_cong)
  obtain an where an: "Option.bind (decode_first (take 65536 (hr_body r))) announcement_of_json = Some an"
    using assms(3) a by (fastforce simp: handle_peers_def split: if_splits bool.splits option.splits)
  obtain nid nw where v: "announcement_verify C an now = Inr (nid, nw)"
    using assms(3) a an by (fastforce simp: handle_peers_def split: if_splits bool.splits sum.splits)
  let ?b = "live_records now (bs_records s1 (network_string nw))"
  note facts = announcement_verify_InrD [OF v]
  have b: "bucket_ok s1 ?b" by (rule bucket_ok_live [OF s1])
  obtain b' where b': "store_announcement s1 now (node_string nid) (an_endpoints an) ?b = Some b'"
    and cs: "cs = beacon_peers (hr_host r) now (node_string nid) b' (bs_bootstrap s1 (network_string nw))"
    using assms(3) a an v
    by (auto simp: handle_peers_def Let_def split: if_splits bool.splits option.splits)
  have ok': "bucket_ok s1 b'" by (rule bucket_ok_store [OF b b' facts(3,4)])
  have sound: "cd_node c \<noteq> node_string nid \<and> cd_endpoints c \<noteq> [] \<and>
      ((\<exists>rec. live_record s (network_string nw) now (cd_node c) rec \<and> br_candidate rec = c \<and>
          announced C (bs_ttl s) (network_string nw) (cd_node c) rec) \<or>
       (\<exists>bt. bs_bootstrap s (network_string nw) = Some bt \<and> c = bootstrap_candidate (hr_host r) now bt))"
    if "c \<in> set cs" for c
    using that unfolding cs
  proof (cases rule: beacon_peers_cases)
    case (other i rec)
    have rec: "record_ok (i, rec)" using ok' other(1) by (auto simp: bucket_ok_def)
    have "(i, rec) \<in> set ?b"
      by (rule store_announcement_others [OF b' _ other(1,2)]) (use b in \<open>simp add: bucket_ok_def\<close>)
    then have "live_record s (network_string nw) now i rec"
      using keeps by (auto simp: live_records_member live_record_def)
    moreover from this have "announced C (bs_ttl s) (network_string nw) i rec"
      using assms(2) by (auto simp: live_record_def all_announced_def)
    ultimately show ?thesis using rec other by (auto simp: record_ok_def)
  next
    case (boot bt)
    then show ?thesis using keeps by auto
  qed
  have complete: "br_candidate rec \<in> set cs"
    if few: "bs_records s (network_string nw) = Some xs" "length xs < 64"
      and live: "live_record s (network_string nw) now i rec" "i \<noteq> node_string nid" for xs i rec
  proof -
    have "(i, rec) \<in> set ?b" using live(1) keeps by (auto simp: live_records_member live_record_def)
    then have "(i, rec) \<in> set (filter (\<lambda>(i, r). i \<noteq> node_string nid) b')"
      using live(2) by (simp add: store_announcement_filter [OF b'])
    moreover have "length (filter (\<lambda>(i, r). i \<noteq> node_string nid) b') < 64"
    proof -
      have "length (filter (\<lambda>(i, r). i \<noteq> node_string nid) b') \<le> length ?b"
        unfolding store_announcement_filter [OF b'] by (rule length_filter_le)
      also have "\<dots> \<le> length xs" using few(1) keeps by (simp add: live_records_def)
      finally show ?thesis using few(2) by simp
    qed
    ultimately show ?thesis unfolding cs using live(2) by (intro beacon_peers_complete) auto
  qed
  have "length cs \<le> 64" by (simp add: cs beacon_peers_def Let_def)
  then show ?thesis using an announcement_verify_signed [OF v] sound complete unfolding answer_ok_def by blast
qed

subsection \<open>Properties\<close>

text \<open>An announcement signed by a node, printed as JSON and decoded at the beacon or on the local
  network, verifies there for three minutes as that node's and that network's.\<close>

theorem announcement_accepted:
  assumes "good_identity C i" "\<not> outside_window 180 (unix now') (unix now)"
    and "length eps \<le> 16" "\<forall>ep \<in> set eps. valid_endpoint ep"
  shows "\<exists>a. Option.bind (decode_first (marshal (announcement_json (sign_announcement C i nw eps now)))) announcement_of_json = Some a
    \<and> announcement_unmarshal (marshal (announcement_json (sign_announcement C i nw eps now))) = Some a
    \<and> announcement_verify C a now' = Inr (id_node i, nw)"
  using verify_signed_announcement [OF assms] by (simp add: decode_first_marshal announcement_roundtrip)

lemma announcement_accepted_witness:
  "\<exists>a. announcement_unmarshal (marshal (announcement_json
      (sign_announcement toy (toy_identity 7) (default_network toy) [''1.2.3.4:7447''] 0))) = Some a
    \<and> announcement_verify toy a 0 = Inr (id_node (toy_identity 7), default_network toy)"
proof -
  have "valid_endpoint ''1.2.3.4:7447''"
    by (simp add: valid_endpoint_def split_host_port_def last_index_of_def split_host_def blank_def
        trim_space_spaceless is_space_def)
  then show ?thesis
    using announcement_accepted [of toy "toy_identity 7" 0 0 "[''1.2.3.4:7447'']" "default_network toy"]
    by (auto simp: outside_window_def)
qed

text \<open>C34. Whatever requests a beacon has served, one it answers carries an announcement signed by the key of the node it
  names, and the answer lists at most 64 relays, never the caller, each one with an endpoint, and each either what the
  node itself announced for the caller's network, in an announcement signed with its own key and not expired, or the
  network's bootstrap relay; while the network has fewer than 64 records, no live one of another node is missing.
  And no network has more records than the capacity.\<close>

theorem beacon_answers:
  assumes "beacon_reachable C s"
  shows "(case fst (handle_peers C now r s) of Http_error _ _ \<Rightarrow> True | Http_peers cs \<Rightarrow> answer_ok C now r s cs) \<and>
    (\<forall>key b. bs_records (snd (handle_peers C now r s)) key = Some b \<longrightarrow>
       int (length b) \<le> bs_max (snd (handle_peers C now r s)) \<and> distinct (map fst b))"
proof
  note ok = beacon_reachable_ok [OF assms]
  obtain x s' where x: "handle_peers C now r s = (x, s')" by fastforce
  show "case fst (handle_peers C now r s) of Http_error _ _ \<Rightarrow> True | Http_peers cs \<Rightarrow> answer_ok C now r s cs"
    using handle_peers_answer [OF ok beacon_reachable_announced [OF assms]] x by (cases x) simp_all
  show "\<forall>key b. bs_records (snd (handle_peers C now r s)) key = Some b \<longrightarrow>
       int (length b) \<le> bs_max (snd (handle_peers C now r s)) \<and> distinct (map fst b)"
    using handle_peers_ok [OF ok, of C now r] by (auto simp: beacon_ok_def bucket_ok_def)
qed

text \<open>Node 8 announces an endpoint, node 7 then asks.\<close>

definition toy_post :: "byte \<Rightarrow> string list \<Rightarrow> http_request" where
  "toy_post k eps = \<lparr> hr_method = ''POST'', hr_remote = ''1.2.3.4:5'', hr_host = ''beacon'',
     hr_body = marshal (announcement_json (sign_announcement toy (toy_identity k) (default_network toy) eps 0)) \<rparr>"

lemma toy_post_size:
  assumes "eps \<in> {[], [''1.2.3.4:7447'']}"
  shows "length (hr_body (toy_post k eps)) \<le> 65536"
proof -
  let ?a = "sign_announcement toy (toy_identity k) (default_network toy) eps 0"
  have pub: "length (b64_encode (id_public (toy_identity k))) \<le> 67"
    using length_b64_encode [of "id_public (toy_identity k)"] good_identityD(1) [OF toy_identity_good] by simp
  have sort: "sort eps = eps" using assms by auto
  have printed: "length (print_string ''1.2.3.4:7447'') \<le> 74"
    using length_print_string [of "''1.2.3.4:7447''"] by simp
  have eps: "member_size (''endpoints'', jm_endpoints eps) \<le> 200"
    using assms printed by (auto simp: member_size_def jm_endpoints_def jm_strs_def)
  have "length (join '','' eps) \<le> 12" using assms by auto
  then have "length (announcement_message ?a) \<le> 500"
    using length_id_strings(1) [of "id_node (toy_identity k)"] length_id_strings(2) [of "default_network toy"] pub
      length_show_int64 [of "unix 0"]
    by (simp add: announcement_message_def normalize_endpoints_def sort)
  then have "length (identity_sign toy (toy_identity k) (announcement_message ?a)) \<le> 532"
    by (simp add: identity_sign_def toy_def toy_identity_def identity_generate_def)
  then have "length (an_signature ?a) \<le> 1067"
    using length_b64_encode [of "identity_sign toy (toy_identity k) (announcement_message ?a)"]
    unfolding sign_announcement_signature by simp
  from member_size_str [OF this, of "''signature''"]
  have "sum_list (map member_size [(''network_id'', JStr (an_network ?a)), (''node_id'', JStr (an_node ?a)),
     (''public_key'', JStr (an_public_key ?a)), (''endpoints'', jm_endpoints (an_endpoints ?a)),
     (''time_unix'', jm_int64 (an_time ?a)), (''signature'', JStr (an_signature ?a))]) \<le> 12000"
    using member_size_str [OF length_id_strings(2) [of "default_network toy"], of "''network_id''"]
      member_size_str [OF length_id_strings(1) [of "id_node (toy_identity k)"], of "''node_id''"]
      member_size_str [OF pub, of "''public_key''"] member_size_num(1) [of "''time_unix''" "unix 0"]
      eps by (simp add: sort)
  then show ?thesis
    using length_marshal_object [of "[(''network_id'', JStr (an_network ?a)), (''node_id'', JStr (an_node ?a)),
     (''public_key'', JStr (an_public_key ?a)), (''endpoints'', jm_endpoints (an_endpoints ?a)),
     (''time_unix'', jm_int64 (an_time ?a)), (''signature'', JStr (an_signature ?a))]"]
    by (simp add: toy_post_def announcement_json_def omit_if_def)
      (simp add: sign_announcement_def Let_def)
qed

lemma toy_post_read:
  assumes "eps \<in> {[], [''1.2.3.4:7447'']}"
  shows "Option.bind (decode_first (take 65536 (hr_body (toy_post k eps)))) announcement_of_json =
      Some (sign_announcement toy (toy_identity k) (default_network toy) eps 0)"
    "announcement_verify toy (sign_announcement toy (toy_identity k) (default_network toy) eps 0) 0 =
      Inr (id_node (toy_identity k), default_network toy)"
    "hr_method (toy_post k eps) = ''POST''"
proof -
  have "valid_endpoint ''1.2.3.4:7447''"
    by (simp add: valid_endpoint_def split_host_port_def last_index_of_def split_host_def blank_def
        trim_space_spaceless is_space_def)
  then have ok: "length eps \<le> 16" "\<forall>ep \<in> set eps. valid_endpoint ep" using assms by auto
  show "announcement_verify toy (sign_announcement toy (toy_identity k) (default_network toy) eps 0) 0 =
      Inr (id_node (toy_identity k), default_network toy)"
    by (rule verify_signed_announcement) (use ok in \<open>simp_all add: outside_window_def\<close>)
  show "Option.bind (decode_first (take 65536 (hr_body (toy_post k eps)))) announcement_of_json =
      Some (sign_announcement toy (toy_identity k) (default_network toy) eps 0)"
    using toy_post_size [OF assms, of k]
    by (simp add: decode_first_marshal toy_post_def announcement_roundtrip)
  show "hr_method (toy_post k eps) = ''POST''" by (simp add: toy_post_def)
qed

definition toy_beacon :: beacon where
  "toy_beacon = snd (handle_peers toy 0 (toy_post 8 [''1.2.3.4:7447'']) (new_beacon 0 0))"

definition toy_listed :: beacon_record where
  "toy_listed = \<lparr> br_candidate = \<lparr> cd_node = node_string (id_node (toy_identity 8)), cd_endpoints = [''1.2.3.4:7447''], cd_seen = unix 0 \<rparr>,
     br_expires = minutes 2 \<rparr>"

lemma toy_beacon_simps:
  "bs_records toy_beacon = [network_string (default_network toy) \<mapsto> [(node_string (id_node (toy_identity 8)), toy_listed)]]"
  "bs_max toy_beacon = 10000" "bs_bootstrap toy_beacon = Map.empty" "fst (allow_request ''1.2.3.4:5'' 0 toy_beacon)"
proof -
  have e: "[''1.2.3.4:7447''] \<in> {[], [''1.2.3.4:7447'']}" by simp
  obtain s where s: "allow_request ''1.2.3.4:5'' 0 (new_beacon 0 0) = (True, s)" "bs_records s = Map.empty" "bs_ttl s = minutes 2"
    "bs_max s = 10000" "bs_bootstrap s = Map.empty" "fst (allow_request ''1.2.3.4:5'' 0 s)"
    by (simp add: allow_request_def new_beacon_def refill_def Let_def in_seconds_def)
  have r: "hr_remote (toy_post 8 eps) = ''1.2.3.4:5''" for eps by (simp add: toy_post_def)
  have b: "toy_beacon = s\<lparr>bs_records := [network_string (default_network toy) \<mapsto> [(node_string (id_node (toy_identity 8)), toy_listed)]]\<rparr>"
    using s toy_post_read [OF e, of 8]
    by (simp add: toy_beacon_def handle_peers_def r Let_def live_records_def store_announcement_def toy_listed_def normalize_endpoints_def)
  show "bs_records toy_beacon = [network_string (default_network toy) \<mapsto> [(node_string (id_node (toy_identity 8)), toy_listed)]]"
    "bs_max toy_beacon = 10000" "bs_bootstrap toy_beacon = Map.empty"
    by (simp_all add: b s)
  show "fst (allow_request ''1.2.3.4:5'' 0 toy_beacon)"
    using s(6) by (simp add: b allow_request_def refill_def Let_def cong: option.case_cong split: if_splits)
qed

lemma toy_ask_answered: "\<exists>cs. fst (handle_peers toy 0 (toy_post 7 []) toy_beacon) = Http_peers cs"
proof -
  have r: "hr_remote (toy_post 7 []) = ''1.2.3.4:5''" by (simp add: toy_post_def)
  obtain s where "allow_request ''1.2.3.4:5'' 0 toy_beacon = (True, s)" using toy_beacon_simps(4) by (metis prod.collapse)
  then show ?thesis
    using toy_post_read [of "[]" 7] by (simp add: handle_peers_def r Let_def store_announcement_def)
qed

lemma beacon_answers_witness:
  "\<exists>cs. fst (handle_peers toy 0 (toy_post 7 []) toy_beacon) = Http_peers cs \<and> br_candidate toy_listed \<in> set cs"
proof -
  have reach: "beacon_reachable toy toy_beacon"
    unfolding toy_beacon_def by (rule beacon_reachable.served [OF beacon_reachable.fresh])
  obtain cs where cs: "fst (handle_peers toy 0 (toy_post 7 []) toy_beacon) = Http_peers cs" using toy_ask_answered by blast
  have "answer_ok toy 0 (toy_post 7 []) toy_beacon cs"
    using beacon_answers [OF reach, of 0 "toy_post 7 []"] cs by simp
  then obtain nid nw where nw: "signed_by toy (sign_announcement toy (toy_identity 7) (default_network toy) [] 0) 0 nid nw"
    and complete: "\<And>b i rec. bs_records toy_beacon (network_string nw) = Some b \<Longrightarrow> length b < 64 \<Longrightarrow> live_record toy_beacon (network_string nw) 0 i rec \<Longrightarrow>
        i \<noteq> node_string nid \<Longrightarrow> br_candidate rec \<in> set cs"
    using toy_post_read(1) [of "[]" 7] by (auto simp: answer_ok_def)
  have ids: "nid = id_node (toy_identity 7)" "nw = default_network toy"
    using nw by (auto simp: signed_by_def)
  have "node_string (id_node (toy_identity 8)) \<noteq> node_string (id_node (toy_identity 7))"
  proof
    assume "node_string (id_node (toy_identity 8)) = node_string (id_node (toy_identity 7))"
    then have "id_node (toy_identity 8) = id_node (toy_identity 7)" by (metis node_parse_string sum.inject(2))
    then show False
      by (simp add: toy_identity_def identity_generate_def ed_public_def node_from_public_key_def toy_def arr_of_eq_iff)
  qed
  then have "br_candidate toy_listed \<in> set cs"
    using complete [of "[(node_string (id_node (toy_identity 8)), toy_listed)]"]
    by (simp add: toy_beacon_simps ids live_record_def) (simp add: toy_listed_def minutes_def)
  with cs show ?thesis by blast
qed

text \<open>C35. The token bucket of the beacon: in any run of requests, those it lets pass for one host between two
  times are at most the burst and the rate times the seconds between them, although idle buckets are
  thrown away, if ten minutes suffice to refill one.\<close>

theorem rate_limit_bounds:
  assumes "rate_ok t s" "sorted (t # map snd rs)" "\<forall>p \<in> set rs. snd p \<le> t'" "t \<le> t'"
  shows "rat_of_nat (allowed_count h rs s) \<le> bs_rate_burst s + in_seconds (t' - t) * bs_rate_per_second s"
  using allowed_count_level [OF assms, of h] level_bounds(2) [OF assms(1), of h] by simp

lemma rate_limit_bounds_witness:
  "rat_of_nat (allowed_count ''h'' [(''h:1'', seconds 1), (''h:2'', seconds 3)] (new_beacon 0 0)) \<le> 8 + in_seconds (seconds 3) * 2"
  using rate_limit_bounds [of 0 "new_beacon 0 0" "[(''h:1'', seconds 1), (''h:2'', seconds 3)]" "seconds 3" "''h''"]
  by (simp add: new_beacon_def rate_ok_def seconds_def)

end
