(* ===== verification/Node.thy ===== *)
theory Node
  imports Discovery Descriptor Router
begin

section \<open>The node: peers, link state and forwarding\<close>

text \<open>
  \<open>internal/overlay/node.go\<close>, \<open>peer.go\<close> and \<open>discovery.go\<close>: the registry of peer connections, the local
  announcement and its flooding, the routing table, the forwarding of packets, peer exchange and the
  events. The state is the part of Go's \<open>Node\<close> these files use; later theories extend the record. A
  handler runs to its end (Go's mutexes are not modelled), reads the clock and the outcome of socket
  writes from an environment, and appends the frames it writes to \<open>nd_sent\<close>. A connection is a number:
  two peers are the same Go pointer when their numbers agree, and \<open>nd_open\<close> holds the connections whose
  \<open>closeOnce\<close> has not fired. A failed write closes its peer, which announces again and may fail again:
  these nested calls are a stack of tasks, and the search for the end of the stack is bounded by the
  connections still open. A goroutine that outlives its handler is an entry of a list
  (\<open>nd_retries\<close>, \<open>nd_dials\<close>) and a step of its own.
\<close>

subsection \<open>State\<close>

record peer =
  pr_id :: node_id
  pr_conn :: nat
  pr_outbound :: bool
  pr_remote :: string
  pr_advertise :: "string list"

record event =
  ev_time :: time
  ev_level :: string
  ev_message :: string

record node =
  nd_cfg :: config
  nd_id :: identity
  nd_network :: network_id
  nd_addresses :: "string list"
  nd_started :: bool
  nd_stopped :: bool
  nd_peers :: "(node_id \<times> peer) list"
  nd_open :: "nat list"
  nd_lsas :: lsa_map
  nd_routes :: routes
  nd_sequence :: uint64
  nd_seen :: "(16 barr \<times> time) list"
  nd_events :: "event list"
  nd_discovered :: "(node_id \<times> candidate) list"
  nd_dialing :: "node_id list"
  nd_dials :: "node_id list"
  nd_wake :: bool
  nd_retries :: "packet list"
  nd_sent :: "(nat \<times> byte \<times> bytes) list"
  nd_bytes_sent :: uint64
  nd_bytes_received :: uint64
  nd_frames_sent :: uint64
  nd_frames_received :: uint64

text \<open>The clock, and the error of a write to a connection, if it fails.\<close>

record env =
  en_now :: time
  en_write :: "nat \<Rightarrow> error option"

definition nd_self :: "'a node_scheme \<Rightarrow> node_id" where
  "nd_self n = id_node (nd_id n)"

text \<open>\<open>New\<close>: the local certificate authority and the certificate are left out.\<close>

definition new_node :: "config \<Rightarrow> identity \<Rightarrow> node result" where
  "new_node cfg i =
     (case config_network cfg of Inl e \<Rightarrow> Inl e
      | Inr network \<Rightarrow> Inr
        \<lparr> nd_cfg = cfg, nd_id = i, nd_network = network, nd_addresses = [], nd_started = False, nd_stopped = False,
          nd_peers = [], nd_open = [], nd_lsas = [], nd_routes = Map.empty, nd_sequence = 0, nd_seen = [],
          nd_events = [], nd_discovered = [], nd_dialing = [], nd_dials = [], nd_wake = False, nd_retries = [],
          nd_sent = [], nd_bytes_sent = 0, nd_bytes_received = 0, nd_frames_sent = 0, nd_frames_received = 0 \<rparr>)"

definition add_event :: "env \<Rightarrow> string \<Rightarrow> string \<Rightarrow> 'a node_scheme \<Rightarrow> 'a node_scheme" where
  "add_event E level message n =
     n\<lparr>nd_events := push_capped 200 (nd_events n) \<lparr>ev_time = en_now E, ev_level = level, ev_message = message\<rparr>\<rparr>"

definition wake_publisher :: "'a node_scheme \<Rightarrow> 'a node_scheme" where
  "wake_publisher n = n\<lparr>nd_wake := True\<rparr>"

subsection \<open>Addresses and local facts\<close>

definition routable_address :: "string \<Rightarrow> bool" where
  "routable_address a = (case split_host_port a of
       Inl _ \<Rightarrow> False
     | Inr (host, port) \<Rightarrow> port \<noteq> [] \<and>
         (case parse_ip host of None \<Rightarrow> False | Some ip \<Rightarrow> \<not> ip_unspecified ip \<and> \<not> ip_loopback ip))"

definition advertised_addresses :: "'a node_scheme \<Rightarrow> string list" where
  "advertised_addresses n =
     (if cf_advertise (nd_cfg n) \<noteq> [] then cf_advertise (nd_cfg n)
      else filter routable_address (nd_addresses n))"

definition peer_ids :: "'a node_scheme \<Rightarrow> node_id list" where
  "peer_ids n = sort_by node_less (map fst (nd_peers n))"

definition route_to :: "node_id \<Rightarrow> 'a node_scheme \<Rightarrow> route option" where
  "route_to i n = nd_routes n i"

definition service_of :: "string \<Rightarrow> 'a node_scheme \<Rightarrow> service_config option" where
  "service_of name n = find (\<lambda>s. sc_name s = name) (cf_services (nd_cfg n))"

definition allowed :: "crypto \<Rightarrow> service_config \<Rightarrow> node_id \<Rightarrow> bool" where
  "allowed C s src \<longleftrightarrow> sc_allow s = [] \<or>
     list_ex (\<lambda>a. a = ''*'' \<or> parse_node_reference C a = Inr src) (sc_allow s)"

subsection \<open>Frames out\<close>

definition closed_error :: error where
  "closed_error = ''use of closed network connection''"

text \<open>\<open>peer.send\<close>.\<close>

definition peer_send :: "env \<Rightarrow> peer \<Rightarrow> byte \<Rightarrow> bytes \<Rightarrow> 'a node_scheme \<Rightarrow> unit result \<times> 'a node_scheme" where
  "peer_send E p kd payload n =
     (case write_frame kd payload of Inl e \<Rightarrow> (Inl e, n)
      | Inr _ \<Rightarrow>
        if pr_conn p \<notin> set (nd_open n) then (Inl closed_error, n)
        else (case en_write E (pr_conn p) of Some e \<Rightarrow> (Inl e, n)
         | None \<Rightarrow> (Inr (), n\<lparr> nd_sent := nd_sent n @ [(pr_conn p, kd, payload)],
             nd_frames_sent := nd_frames_sent n + 1,
             nd_bytes_sent := nd_bytes_sent n + of_nat (length payload + 5) \<rparr>)))"

definition peer_send_packet :: "env \<Rightarrow> peer \<Rightarrow> packet \<Rightarrow> 'a node_scheme \<Rightarrow> unit result \<times> 'a node_scheme" where
  "peer_send_packet E p pkt n =
     (case packet_marshal pkt of Inl e \<Rightarrow> (Inl e, n) | Inr raw \<Rightarrow> peer_send E p frame_packet raw n)"

definition peer_send_circuit :: "env \<Rightarrow> peer \<Rightarrow> circuit_cell \<Rightarrow> 'a node_scheme \<Rightarrow> unit result \<times> 'a node_scheme" where
  "peer_send_circuit E p cell n =
     (case cell_marshal cell of Inl e \<Rightarrow> (Inl e, n) | Inr raw \<Rightarrow> peer_send E p frame_circuit raw n)"

subsection \<open>The local announcement\<close>

datatype task = Write peer byte bytes | Wake | Note string string

definition frame_tasks :: "byte \<Rightarrow> bytes \<Rightarrow> nat option \<Rightarrow> 'a node_scheme \<Rightarrow> task list" where
  "frame_tasks kd payload except n =
     map (\<lambda>p. Write p kd payload) (filter (\<lambda>p. Some (pr_conn p) \<noteq> except) (map snd (nd_peers n)))"

definition local_lsa :: "crypto \<Rightarrow> env \<Rightarrow> 'a node_scheme \<Rightarrow> lsa" where
  "local_lsa C E n =
     new_lsa C (en_now E) (nd_id n) (nd_sequence n + 1) (duration_or_zero (rc_lsa_ttl (cf_routing (nd_cfg n))))
       (advertised_addresses n) (peer_ids n)
       (map (\<lambda>s. \<lparr>si_name = sc_name s, si_description = sc_description s\<rparr>) (cf_services (nd_cfg n)))"

definition put_lsa :: "node_id \<Rightarrow> lsa \<Rightarrow> 'a node_scheme \<Rightarrow> 'a node_scheme" where
  "put_lsa i l n =
     (let lsas = AList.update i l (nd_lsas n)
      in n\<lparr>nd_lsas := lsas, nd_routes := compute (nd_self n) lsas\<rparr>)"

text \<open>\<open>emitLocalLSA\<close> up to its broadcast.\<close>

definition announce :: "crypto \<Rightarrow> env \<Rightarrow> 'a node_scheme \<Rightarrow> task list \<times> 'a node_scheme" where
  "announce C E n =
     (if \<not> nd_started n then ([], n)
      else let l = local_lsa C E n;
               n' = put_lsa (nd_self n) l (n\<lparr>nd_sequence := nd_sequence n + 1\<rparr>)
           in (frame_tasks frame_lsa (lsa_marshal l) None n', n'))"

text \<open>\<open>peer.close\<close> on a connection that is open, with \<open>unregisterPeer\<close>, up to the broadcast in it.\<close>

definition drop_peer :: "peer \<Rightarrow> 'a node_scheme \<Rightarrow> 'a node_scheme" where
  "drop_peer p n =
     (if map_option pr_conn (map_of (nd_peers n) (pr_id p)) = Some (pr_conn p)
      then n\<lparr>nd_peers := AList.delete (pr_id p) (nd_peers n)\<rparr> else n)"

definition start_close :: "crypto \<Rightarrow> env \<Rightarrow> peer \<Rightarrow> string \<Rightarrow> 'a node_scheme \<Rightarrow> task list \<times> 'a node_scheme" where
  "start_close C E p reason n =
     (case announce C E (drop_peer p (n\<lparr>nd_open := removeAll (pr_conn p) (nd_open n)\<rparr>)) of
        (ts, n') \<Rightarrow> (ts @ [Wake, Note ''info'' (''peer '' @ node_short (pr_id p) @ '' disconnected: '' @ reason)], n'))"

lemma open_simps [simp]:
  "nd_open (add_event E lv msg n) = nd_open n" "nd_open (wake_publisher n) = nd_open n"
  "nd_open (put_lsa i l n) = nd_open n" "nd_open (drop_peer p n) = nd_open n"
  "nd_open (snd (announce C E n)) = nd_open n"
  "nd_open (snd (peer_send E p kd payload n)) = nd_open n"
  "nd_open (snd (start_close C E p reason n)) = removeAll (pr_conn p) (nd_open n)"
  by (simp_all add: add_event_def wake_publisher_def put_lsa_def drop_peer_def announce_def peer_send_def
      start_close_def Let_def split: sum.split option.split prod.split)

lemma peer_send_open: "peer_send E p kd payload n = (r, n') \<Longrightarrow> nd_open n' = nd_open n"
  using open_simps(6) [of E p kd payload n] by simp

lemma start_close_open: "start_close C E p reason n = (ts, n') \<Longrightarrow> nd_open n' = removeAll (pr_conn p) (nd_open n)"
  using open_simps(7) [of C E p reason n] by simp

lemma length_removeAll_open: "c \<in> set xs \<Longrightarrow> length (removeAll c xs) < length xs"
  by (induction xs) (auto simp: less_Suc_eq_le)

text \<open>The loop of \<open>broadcast\<close> with the closes it causes, depth first.\<close>

function run_tasks :: "crypto \<Rightarrow> env \<Rightarrow> task list \<Rightarrow> 'a node_scheme \<Rightarrow> 'a node_scheme" where
  "run_tasks C E [] n = n"
| "run_tasks C E (Wake # ts) n = run_tasks C E ts (wake_publisher n)"
| "run_tasks C E (Note level message # ts) n = run_tasks C E ts (add_event E level message n)"
| "run_tasks C E (Write p kd payload # ts) n =
     (case peer_send E p kd payload n of
        (Inr _, n') \<Rightarrow> run_tasks C E ts n'
      | (Inl e, n') \<Rightarrow>
          if pr_conn p \<notin> set (nd_open n') then run_tasks C E ts n'
          else (case start_close C E p (''write failed: '' @ e) n' of (ts', n'') \<Rightarrow> run_tasks C E (ts' @ ts) n''))"
  by pat_completeness auto

termination
proof (relation "measures [\<lambda>(C, E, ts, n). length (nd_open n), \<lambda>(C, E, ts, n). length ts]")
  fix C :: crypto and E p kd payload ts and n n' n'' :: "'a node_scheme" and r e x ts' y
  assume s: "(r, n') = peer_send E p kd payload n" "\<not> pr_conn p \<notin> set (nd_open n')"
    "(ts', n'') = start_close C E p (''write failed: '' @ e) n'"
  have "nd_open n' = nd_open n" by (rule peer_send_open [OF s(1) [symmetric]])
  moreover have "nd_open n'' = removeAll (pr_conn p) (nd_open n')"
    by (rule start_close_open [OF s(3) [symmetric]])
  ultimately show "((C, E, ts' @ ts, n''), C, E, Write p kd payload # ts, n)
    \<in> measures [\<lambda>(C, E, ts, n). length (nd_open n), \<lambda>(C, E, ts, n). length ts]"
    using s(2) by (auto intro: length_removeAll_open)
qed (auto dest!: peer_send_open [OF sym])

definition broadcast :: "crypto \<Rightarrow> env \<Rightarrow> byte \<Rightarrow> bytes \<Rightarrow> nat option \<Rightarrow> 'a node_scheme \<Rightarrow> 'a node_scheme" where
  "broadcast C E kd payload except n = run_tasks C E (frame_tasks kd payload except n) n"

definition close_peer :: "crypto \<Rightarrow> env \<Rightarrow> peer \<Rightarrow> string \<Rightarrow> 'a node_scheme \<Rightarrow> 'a node_scheme" where
  "close_peer C E p reason n =
     (if pr_conn p \<notin> set (nd_open n) then n
      else (case start_close C E p reason n of (ts, n') \<Rightarrow> run_tasks C E ts n'))"

definition emit_local_lsa :: "crypto \<Rightarrow> env \<Rightarrow> 'a node_scheme \<Rightarrow> 'a node_scheme" where
  "emit_local_lsa C E n = (case announce C E n of (ts, n') \<Rightarrow> run_tasks C E ts n')"

subsection \<open>Peer exchange and candidates\<close>

definition pex_less :: "candidate \<Rightarrow> candidate \<Rightarrow> bool" where
  "pex_less a b \<longleftrightarrow> cd_node a < cd_node b"

definition pex_candidates :: "env \<Rightarrow> 'a node_scheme \<Rightarrow> candidate list" where
  "pex_candidates E n =
     (let seen = unix (en_now E);
          others = concat (map (\<lambda>(i, p). if pr_advertise p = [] then []
             else [\<lparr>cd_node = node_string i, cd_endpoints = pr_advertise p, cd_seen = seen\<rparr>]) (nd_peers n));
          own = (if advertised_addresses n = [] then []
             else [\<lparr>cd_node = node_string (nd_self n), cd_endpoints = advertised_addresses n, cd_seen = seen\<rparr>])
      in take 128 (sort_by pex_less (others @ own)))"

definition pex_payload :: "env \<Rightarrow> 'a node_scheme \<Rightarrow> bytes" where
  "pex_payload E n = marshal (response_json (pex_candidates E n))"

definition broadcast_pex :: "crypto \<Rightarrow> env \<Rightarrow> 'a node_scheme \<Rightarrow> 'a node_scheme" where
  "broadcast_pex C E n = broadcast C E frame_pex (pex_payload E n) None n"

definition consider_candidate :: "env \<Rightarrow> string \<Rightarrow> candidate \<Rightarrow> 'a node_scheme \<Rightarrow> 'a node_scheme" where
  "consider_candidate E source c n =
     (case node_parse (cd_node c) of Inl _ \<Rightarrow> n
      | Inr i \<Rightarrow>
        if i = nd_self n \<or> cd_endpoints c = [] \<or> i \<in> fst ` set (nd_peers n) then n
        else let n1 = (case map_of (nd_discovered n) i of
                 Some old \<Rightarrow> if sint (cd_seen c) \<ge> sint (cd_seen old)
                             then n\<lparr>nd_discovered := AList.update i c (nd_discovered n)\<rparr> else n
               | None \<Rightarrow> n\<lparr>nd_discovered := AList.update i c (nd_discovered n)\<rparr>)
             in if i \<in> set (nd_dialing n1) then n1
                else add_event E ''info'' (''discovered peer '' @ node_short i @ '' via '' @ source)
                       (n1\<lparr>nd_dialing := i # nd_dialing n1, nd_dials := nd_dials n1 @ [i]\<rparr>))"

text \<open>The goroutine of a candidate: where \<open>dialCandidate\<close> dials, and its end.\<close>

definition dial_endpoints :: "node_id \<Rightarrow> 'a node_scheme \<Rightarrow> string list" where
  "dial_endpoints i n = (case map_of (nd_discovered n) i of None \<Rightarrow> [] | Some c \<Rightarrow> cd_endpoints c)"

definition finish_dial :: "node_id \<Rightarrow> 'a node_scheme \<Rightarrow> 'a node_scheme" where
  "finish_dial i n = n\<lparr>nd_dialing := removeAll i (nd_dialing n), nd_dials := remove1 i (nd_dials n)\<rparr>"

definition handle_pex :: "env \<Rightarrow> bytes \<Rightarrow> 'a node_scheme \<Rightarrow> 'a node_scheme" where
  "handle_pex E raw n =
     (if \<not> dc_enabled (cf_discovery (nd_cfg n)) \<or> \<not> dc_peer_exchange (cf_discovery (nd_cfg n)) then n
      else (case response_unmarshal raw of None \<Rightarrow> n
       | Some cs \<Rightarrow> if length cs > 128 then n else fold (consider_candidate E ''pex'') cs n))"

subsection \<open>Registering a connection\<close>

definition send_all_lsas :: "env \<Rightarrow> peer \<Rightarrow> 'a node_scheme \<Rightarrow> 'a node_scheme" where
  "send_all_lsas E p n =
     fold (\<lambda>raw m. snd (peer_send E p frame_lsa raw m)) (map (lsa_marshal \<circ> snd) (nd_lsas n)) n"

text \<open>Of two connections to one peer the one dialled by the smaller identifier stays.\<close>

definition preferred :: "'a node_scheme \<Rightarrow> peer \<Rightarrow> bool" where
  "preferred n p \<longleftrightarrow> pr_outbound p = (node_compare (nd_self n) (pr_id p) < 0)"

definition register_peer :: "crypto \<Rightarrow> env \<Rightarrow> peer \<Rightarrow> 'a node_scheme \<Rightarrow> bool \<times> 'a node_scheme" where
  "register_peer C E p n =
     (let old = map_of (nd_peers n) (pr_id p);
          put = n\<lparr>nd_peers := AList.update (pr_id p) p (nd_peers n), nd_open := pr_conn p # nd_open n\<rparr>
      in if (case old of None \<Rightarrow> False | Some q \<Rightarrow> \<not> preferred n p \<or> preferred n q) then (False, n)
         else let n1 = (case old of None \<Rightarrow> put | Some q \<Rightarrow> close_peer C E q ''replaced duplicate connection'' put);
                  n2 = send_all_lsas E p (wake_publisher (emit_local_lsa C E n1))
              in (True, if dc_enabled (cf_discovery (nd_cfg n2)) \<and> dc_peer_exchange (cf_discovery (nd_cfg n2))
                        then snd (peer_send E p frame_pex (pex_payload E n2) n2) else n2))"

text \<open>\<open>establishPeer\<close>: the handshake gives the number of certificates and the Ed25519 key of the first,
  if it is one; \<open>incoming\<close> is what the connection reads.\<close>

record tls =
  tls_certificates :: nat
  tls_key :: "bytes option"

definition local_hello :: "env \<Rightarrow> 'a node_scheme \<Rightarrow> hello" where
  "local_hello E n =
     \<lparr> h_version = uint protocol_version, h_network = network_string (nd_network n),
       h_node = node_string (nd_self n), h_public_key = b64_encode (id_public (nd_id n)),
       h_advertise = advertised_addresses n, h_time = unix (en_now E) \<rparr>"

definition check_hello :: "env \<Rightarrow> bytes \<Rightarrow> node_id \<Rightarrow> bytes \<Rightarrow> 'a node_scheme \<Rightarrow> hello result" where
  "check_hello E pub peer_id payload n =
     (case hello_unmarshal payload of None \<Rightarrow> Inl ''decode hello: invalid JSON''
      | Some h \<Rightarrow>
        if h_version h \<noteq> uint protocol_version
        then Inl (''unsupported peer protocol version '' @ show_int (h_version h))
        else if h_network h \<noteq> network_string (nd_network n)
        then Inl (''network mismatch: peer is on '' @ h_network h)
        else if node_parse (h_node h) \<noteq> Inr peer_id
        then Inl ''peer hello identity does not match TLS certificate''
        else if b64_decode (h_public_key h) \<noteq> Some pub
        then Inl ''peer hello public key does not match TLS certificate''
        else if outside_window 300 (unix (en_now E)) (h_time h)
        then Inl ''peer clock differs by more than five minutes''
        else if peer_id = nd_self n then Inl ''refusing self-connection''
        else Inr h)"

definition establish_peer ::
  "crypto \<Rightarrow> env \<Rightarrow> bool \<Rightarrow> node_id option \<Rightarrow> nat \<Rightarrow> string \<Rightarrow> tls result \<Rightarrow> bytes \<Rightarrow> 'a node_scheme
    \<Rightarrow> peer result \<times> 'a node_scheme" where
  "establish_peer C E outbound expected conn remote handshake incoming n =
     (case handshake of Inl e \<Rightarrow> (Inl (''TLS handshake: '' @ e), n)
      | Inr t \<Rightarrow>
        if tls_certificates t \<noteq> 1 then (Inl ''peer did not provide exactly one certificate'', n)
        else (case tls_key t of None \<Rightarrow> (Inl ''peer certificate does not use Ed25519'', n)
         | Some pub \<Rightarrow>
           let peer_id = node_from_public_key C pub in
           if expected \<noteq> None \<and> expected \<noteq> Some peer_id
           then (Inl (''peer identity mismatch: got '' @ node_string peer_id @ '', expected ''
                  @ node_string (the expected)), n)
           else (case write_frame frame_hello (marshal (hello_json (local_hello E n))) of
               Inl e \<Rightarrow> (Inl (''send hello: '' @ e), n)
             | Inr _ \<Rightarrow>
               (case en_write E conn of Some e \<Rightarrow> (Inl (''send hello: '' @ e), n)
                | None \<Rightarrow>
                 (case read_frame incoming of Inl e \<Rightarrow> (Inl (''read hello: '' @ e), n)
                  | Inr ((kd, payload), _) \<Rightarrow>
                    if kd \<noteq> frame_hello then (Inl ''first peer frame is not hello'', n)
                    else (case check_hello E pub peer_id payload n of Inl e \<Rightarrow> (Inl e, n)
                     | Inr h \<Rightarrow>
                       let p = \<lparr> pr_id = peer_id, pr_conn = conn, pr_outbound = outbound, pr_remote = remote,
                             pr_advertise = h_advertise h \<rparr>
                       in (case register_peer C E p n of
                           (False, n') \<Rightarrow> (Inl ''duplicate peer connection rejected'', n')
                         | (True, n') \<Rightarrow> (Inr p, n'))))))))"

subsection \<open>Link state from a peer\<close>

definition handle_lsa :: "crypto \<Rightarrow> env \<Rightarrow> bytes \<Rightarrow> peer \<Rightarrow> 'a node_scheme \<Rightarrow> 'a node_scheme" where
  "handle_lsa C E raw source n =
     (case lsa_unmarshal raw of None \<Rightarrow> add_event E ''warn'' ''invalid LSA JSON'' n
      | Some l \<Rightarrow>
        (case lsa_verify C (en_now E) l of Inl e \<Rightarrow> add_event E ''warn'' (''invalid LSA: '' @ e) n
         | Inr i \<Rightarrow>
           if i = nd_self n then n
           else if (case map_of (nd_lsas n) i of None \<Rightarrow> False | Some old \<Rightarrow> l_sequence old \<ge> l_sequence l) then n
           else broadcast C E frame_lsa raw (Some (pr_conn source)) (wake_publisher (put_lsa i l n))))"

definition cleanup_expired :: "env \<Rightarrow> 'a node_scheme \<Rightarrow> 'a node_scheme" where
  "cleanup_expired E n =
     (let now = en_now E;
          live = filter (\<lambda>(i, l). i = nd_self n \<or> \<not> sint (l_expires l) \<le> sint (unix now)) (nd_lsas n);
          n1 = (if live \<noteq> nd_lsas n
                then wake_publisher (n\<lparr>nd_lsas := live, nd_routes := compute (nd_self n) live\<rparr>) else n)
      in n1\<lparr>nd_seen := filter (\<lambda>(i, t). \<not> now - t > minutes 2) (nd_seen n1)\<rparr>)"

subsection \<open>Packets\<close>

text \<open>\<open>local\<close> is \<open>handleLocalPacket\<close>.\<close>

definition send_packet ::
  "env \<Rightarrow> (packet \<Rightarrow> 'a node_scheme \<Rightarrow> 'a node_scheme) \<Rightarrow> packet \<Rightarrow> 'a node_scheme \<Rightarrow> unit result \<times> 'a node_scheme" where
  "send_packet E local pkt n =
     (if p_dst pkt = nd_self n then (Inr (), local pkt n)
      else (case nd_routes n (p_dst pkt) of None \<Rightarrow> (Inl (''no route to '' @ node_string (p_dst pkt)), n)
       | Some r \<Rightarrow>
         (case map_of (nd_peers n) (rt_next_hop r) of
            None \<Rightarrow> (Inl (''next hop '' @ node_string (rt_next_hop r) @ '' is disconnected''), n)
          | Some p \<Rightarrow> peer_send_packet E p pkt n)))"

definition stream_control :: "byte \<Rightarrow> bool" where
  "stream_control kind \<longleftrightarrow> kind \<in> {packet_open, packet_open_ack, packet_error, packet_ready, packet_close}"

definition handle_packet ::
  "env \<Rightarrow> (packet \<Rightarrow> 'a node_scheme \<Rightarrow> 'a node_scheme) \<Rightarrow> packet \<Rightarrow> 'a node_scheme \<Rightarrow> 'a node_scheme" where
  "handle_packet E local pkt n =
     (if p_dst pkt \<noteq> nd_self n then
        if p_ttl pkt \<le> 1 then n
        else if p_packet_id pkt \<in> fst ` set (nd_seen n) then n
        else let n1 = n\<lparr>nd_seen := AList.update (p_packet_id pkt) (en_now E) (nd_seen n)\<rparr>;
                 pkt1 = pkt\<lparr>p_ttl := p_ttl pkt - 1\<rparr>
             in if stream_control (p_kind pkt1) then n1\<lparr>nd_retries := nd_retries n1 @ [pkt1]\<rparr>
                else (case send_packet E local pkt1 n1 of
                    (Inr _, n2) \<Rightarrow> n2
                  | (Inl e, n2) \<Rightarrow> add_event E ''warn'' (''relay packet: '' @ e) n2)
      else local pkt n)"

definition new_packet :: "byte \<Rightarrow> node_id \<Rightarrow> 16 barr \<Rightarrow> uint64 \<Rightarrow> bytes \<Rightarrow> 16 barr \<Rightarrow> 'a node_scheme \<Rightarrow> packet" where
  "new_packet kind dst stream sq payload fresh n =
     \<lparr> p_version = protocol_version, p_kind = kind, p_ttl = word_of_int (rc_max_hops (cf_routing (nd_cfg n))),
       p_flags = 0, p_src = nd_self n, p_dst = dst, p_packet_id = fresh, p_stream_id = stream, p_seq = sq,
       p_payload = payload \<rparr>"

text \<open>One attempt of \<open>sendPacketWithRetry\<close>; after a failure the packet goes on with a fresh identifier.\<close>

datatype retry = Sent | Gave_up error | Again packet

definition retry_attempt ::
  "env \<Rightarrow> (packet \<Rightarrow> 'a node_scheme \<Rightarrow> 'a node_scheme) \<Rightarrow> time \<Rightarrow> 16 barr \<Rightarrow> packet \<Rightarrow> 'a node_scheme
    \<Rightarrow> retry \<times> 'a node_scheme" where
  "retry_attempt E local deadline fresh pkt n =
     (case send_packet E local pkt n of
        (Inr _, n') \<Rightarrow> (Sent, n')
      | (Inl e, n') \<Rightarrow>
          if deadline - en_now E \<le> 0 then (Gave_up e, n')
          else if nd_stopped n' then (Gave_up ''node stopped'', n')
          else (Again (pkt\<lparr>p_packet_id := fresh\<rparr>), n'))"

text \<open>The worker that forwards a control packet.\<close>

definition relay_retry ::
  "env \<Rightarrow> (packet \<Rightarrow> 'a node_scheme \<Rightarrow> 'a node_scheme) \<Rightarrow> time \<Rightarrow> 16 barr \<Rightarrow> packet \<Rightarrow> 'a node_scheme \<Rightarrow> 'a node_scheme" where
  "relay_retry E local deadline fresh pkt n =
     (case retry_attempt E local deadline fresh pkt (n\<lparr>nd_retries := remove1 pkt (nd_retries n)\<rparr>) of
        (Sent, n') \<Rightarrow> n'
      | (Gave_up e, n') \<Rightarrow> if nd_stopped n' then n' else add_event E ''warn'' (''relay control packet: '' @ e) n'
      | (Again pkt', n') \<Rightarrow> n'\<lparr>nd_retries := nd_retries n' @ [pkt']\<rparr>)"

subsection \<open>Frames in\<close>

text \<open>One turn of \<open>peer.run\<close>; \<open>circuit\<close> is \<open>handleCircuitCell\<close>.\<close>

definition handle_frame ::
  "crypto \<Rightarrow> env \<Rightarrow> (packet \<Rightarrow> 'a node_scheme \<Rightarrow> 'a node_scheme) \<Rightarrow> (peer \<Rightarrow> circuit_cell \<Rightarrow> 'a node_scheme \<Rightarrow> 'a node_scheme)
    \<Rightarrow> peer \<Rightarrow> byte \<Rightarrow> bytes \<Rightarrow> 'a node_scheme \<Rightarrow> 'a node_scheme" where
  "handle_frame C E local circuit p kd payload n0 =
     (let n = n0\<lparr> nd_frames_received := nd_frames_received n0 + 1,
                  nd_bytes_received := nd_bytes_received n0 + of_nat (length payload + 5) \<rparr> in
      if kd = frame_lsa then handle_lsa C E payload p n
      else if kd = frame_packet then
        (case packet_parse payload of
           Inl e \<Rightarrow> add_event E ''warn'' (''discarded malformed packet from '' @ node_short (pr_id p) @ '': '' @ e) n
         | Inr pkt \<Rightarrow> handle_packet E local pkt n)
      else if kd = frame_ping then snd (peer_send E p frame_pong payload n)
      else if kd = frame_pong then n
      else if kd = frame_pex then handle_pex E payload n
      else if kd = frame_circuit then
        (case cell_parse payload of
           Inl e \<Rightarrow> add_event E ''warn'' (''bad circuit cell: '' @ e) n
         | Inr cell \<Rightarrow> circuit p cell n)
      else add_event E ''warn'' (''peer '' @ node_short (pr_id p) @ '' sent unknown frame type '' @ show_nat (unat kd)) n)"

subsection \<open>Start, maintenance, stop\<close>

definition start_node :: "crypto \<Rightarrow> env \<Rightarrow> string list \<Rightarrow> 'a node_scheme \<Rightarrow> 'a node_scheme" where
  "start_node C E addresses n =
     (if nd_started n then n
      else emit_local_lsa C E (add_event E ''info'' (''node started as '' @ node_string (nd_self n))
             (n\<lparr>nd_started := True, nd_addresses := addresses\<rparr>)))"

definition ping_peers :: "crypto \<Rightarrow> env \<Rightarrow> bytes \<Rightarrow> 'a node_scheme \<Rightarrow> 'a node_scheme" where
  "ping_peers C E nonce n = broadcast C E frame_ping nonce None n"

definition stop_peers :: "crypto \<Rightarrow> env \<Rightarrow> 'a node_scheme \<Rightarrow> 'a node_scheme" where
  "stop_peers C E n =
     fold (\<lambda>p. close_peer C E p ''node stopping'') (map snd (nd_peers n)) (n\<lparr>nd_stopped := True\<rparr>)"

end
