(* ===== verification/Node_Inv.thy ===== *)
theory Node_Inv
  imports Node
begin

section \<open>Invariants of the node\<close>

text \<open>
  What every handler of \<open>Node\<close> keeps: the registry has one open connection per peer, the routing table is
  the one \<open>Compute\<close> gives for the stored announcements, and the node's own announcement names exactly its
  peers. \<open>run_tasks_keeps\<close> reduces each of these to the four steps of the task stack; the reachable
  states of a node are those of \<open>node_step\<close>.
\<close>

subsection \<open>Fields the small operations leave alone\<close>

definition same_tables :: "'a node_scheme \<Rightarrow> 'a node_scheme \<Rightarrow> bool" where
  "same_tables n m \<longleftrightarrow> nd_peers n = nd_peers m \<and> nd_open n = nd_open m \<and> nd_lsas n = nd_lsas m \<and>
     nd_routes n = nd_routes m \<and> nd_cfg n = nd_cfg m \<and> nd_id n = nd_id m \<and> nd_started n = nd_started m \<and>
     nd_sequence n = nd_sequence m \<and> nd_seen n = nd_seen m \<and> nd_network n = nd_network m"

lemma same_tables_refl [simp, intro]: "same_tables n n"
  by (simp add: same_tables_def)

lemma same_tables_trans [trans]: "same_tables a b \<Longrightarrow> same_tables b c \<Longrightarrow> same_tables a c"
  by (simp add: same_tables_def)

lemma same_tables_steps [simp]:
  "same_tables (add_event E lv msg n) n" "same_tables (wake_publisher n) n"
  "same_tables (snd (peer_send E p kd payload n)) n"
  by (simp_all add: same_tables_def add_event_def wake_publisher_def peer_send_def split: sum.split option.split)

lemma nd_self_cong: "same_tables n m \<Longrightarrow> nd_self n = nd_self m"
  by (simp add: same_tables_def nd_self_def)

lemma nd_self_simps [simp]:
  "nd_self (n\<lparr>nd_peers := a\<rparr>) = nd_self n" "nd_self (n\<lparr>nd_open := b\<rparr>) = nd_self n"
  "nd_self (n\<lparr>nd_sequence := s\<rparr>) = nd_self n" "nd_self (n\<lparr>nd_lsas := ls\<rparr>) = nd_self n"
  "nd_self (n\<lparr>nd_routes := r\<rparr>) = nd_self n" "nd_self (n\<lparr>nd_started := st\<rparr>) = nd_self n"
  "nd_self (n\<lparr>nd_addresses := ad\<rparr>) = nd_self n" "nd_self (n\<lparr>nd_seen := se\<rparr>) = nd_self n"
  "nd_self (n\<lparr>nd_wake := w\<rparr>) = nd_self n" "nd_self (n\<lparr>nd_stopped := sp\<rparr>) = nd_self n"
  by (simp_all add: nd_self_def)

subsection \<open>The registry\<close>

definition peer_ok :: "'a node_scheme \<Rightarrow> node_id \<times> peer \<Rightarrow> bool" where
  "peer_ok n = (\<lambda>(i, p). pr_id p = i \<and> i \<noteq> nd_self n \<and> pr_conn p \<in> set (nd_open n))"

definition peers_ok :: "'a node_scheme \<Rightarrow> bool" where
  "peers_ok n \<longleftrightarrow> distinct (map fst (nd_peers n)) \<and> distinct (map (pr_conn \<circ> snd) (nd_peers n)) \<and>
     (\<forall>x \<in> set (nd_peers n). peer_ok n x)"

text \<open>A peer whose connection nobody else in the registry has.\<close>

definition conn_fits :: "peer \<Rightarrow> 'a node_scheme \<Rightarrow> bool" where
  "conn_fits p n \<longleftrightarrow> (\<forall>(i, q) \<in> set (nd_peers n). pr_conn q = pr_conn p \<longrightarrow> i = pr_id p)"

definition tasks_fit :: "task list \<Rightarrow> 'a node_scheme \<Rightarrow> bool" where
  "tasks_fit ts n \<longleftrightarrow> (\<forall>p kd payload. Write p kd payload \<in> set ts \<longrightarrow> conn_fits p n)"

lemma peers_ok_cong: "same_tables n m \<Longrightarrow> peers_ok n = peers_ok m"
  by (simp add: peers_ok_def peer_ok_def same_tables_def nd_self_def)

lemma conn_fits_shrink: "conn_fits p n \<Longrightarrow> set (nd_peers m) \<subseteq> set (nd_peers n) \<Longrightarrow> conn_fits p m"
  by (auto simp: conn_fits_def)

lemma tasks_fit_shrink: "tasks_fit ts n \<Longrightarrow> set (nd_peers m) \<subseteq> set (nd_peers n) \<Longrightarrow> tasks_fit ts m"
  unfolding tasks_fit_def by (blast intro: conn_fits_shrink)

lemma conn_fits_member:
  assumes "peers_ok n" "(i, p) \<in> set (nd_peers n)"
  shows "conn_fits p n"
proof -
  have inj: "inj_on (pr_conn \<circ> snd) (set (nd_peers n))"
    using assms(1) by (simp add: peers_ok_def distinct_map)
  have "j = i" if "(j, q) \<in> set (nd_peers n)" "pr_conn q = pr_conn p" for j q
    using inj_onD [OF inj, of "(j, q)" "(i, p)"] that assms(2) by simp
  then show ?thesis
    using assms by (fastforce simp: conn_fits_def peers_ok_def peer_ok_def)
qed

lemma tasks_fit_append: "tasks_fit (ts @ us) n \<longleftrightarrow> tasks_fit ts n \<and> tasks_fit us n"
  unfolding tasks_fit_def set_append by blast

lemma tasks_fit_same: "same_tables m n \<Longrightarrow> tasks_fit (t # ts) n \<Longrightarrow> tasks_fit ts m"
  by (rule tasks_fit_shrink [of _ n]) (auto simp: tasks_fit_def same_tables_def)

lemma tasks_fit_frames: "peers_ok n \<Longrightarrow> tasks_fit (frame_tasks kd payload except n) n"
  by (auto simp: tasks_fit_def frame_tasks_def intro: conn_fits_member)

lemma drop_peer_subset: "set (nd_peers (drop_peer p n)) \<subseteq> set (nd_peers n)"
  by (auto simp: drop_peer_def AList.delete_eq)

lemma peers_ok_drop:
  assumes "peers_ok n" "conn_fits p n"
  shows "peers_ok (drop_peer p (n\<lparr>nd_open := removeAll (pr_conn p) (nd_open n)\<rparr>))"
proof -
  let ?m = "drop_peer p (n\<lparr>nd_open := removeAll (pr_conn p) (nd_open n)\<rparr>)"
  have sub: "set (nd_peers ?m) \<subseteq> set (nd_peers n)"
    using drop_peer_subset [of p "n\<lparr>nd_open := removeAll (pr_conn p) (nd_open n)\<rparr>"] by simp
  have d: "distinct (map fst (nd_peers n))" using assms(1) by (simp add: peers_ok_def)
  have ne: "pr_conn q \<noteq> pr_conn p" if "(i, q) \<in> set (nd_peers ?m)" for i q
  proof
    assume c: "pr_conn q = pr_conn p"
    have "(i, q) \<in> set (nd_peers n)" using that sub by blast
    with assms(2) c have "i = pr_id p" by (auto simp: conn_fits_def)
    moreover have "map_of (nd_peers n) i = Some q"
      using d \<open>(i, q) \<in> set (nd_peers n)\<close> by simp
    ultimately show False
      using that c by (simp add: drop_peer_def AList.delete_eq)
  qed
  have "peer_ok ?m (i, q)" if "(i, q) \<in> set (nd_peers ?m)" for i q
    using that ne [OF that] sub assms(1) by (auto simp: peers_ok_def peer_ok_def drop_peer_def)
  moreover have "distinct (map fst (nd_peers ?m))" "distinct (map (pr_conn \<circ> snd) (nd_peers ?m))"
    using assms(1) by (auto simp: peers_ok_def drop_peer_def AList.delete_eq distinct_map_filter)
  ultimately show ?thesis by (auto simp: peers_ok_def)
qed

lemma put_lsa_peers [simp]:
  "nd_peers (put_lsa i l n) = nd_peers n" "nd_self (put_lsa i l n) = nd_self n"
  "nd_cfg (put_lsa i l n) = nd_cfg n" "nd_id (put_lsa i l n) = nd_id n" "nd_started (put_lsa i l n) = nd_started n"
  "peers_ok (put_lsa i l n) = peers_ok n" "nd_events (put_lsa i l n) = nd_events n"
  by (simp_all add: put_lsa_def Let_def nd_self_def peers_ok_def peer_ok_def)

lemma drop_peer_simps [simp]:
  "nd_self (drop_peer p n) = nd_self n" "nd_cfg (drop_peer p n) = nd_cfg n" "nd_id (drop_peer p n) = nd_id n"
  "nd_started (drop_peer p n) = nd_started n" "nd_lsas (drop_peer p n) = nd_lsas n"
  "nd_routes (drop_peer p n) = nd_routes n" "nd_events (drop_peer p n) = nd_events n"
  by (simp_all add: drop_peer_def nd_self_def)

lemma announce_peers [simp]:
  "nd_peers (snd (announce C E n)) = nd_peers n" "nd_self (snd (announce C E n)) = nd_self n"
  "nd_started (snd (announce C E n)) = nd_started n" "nd_events (snd (announce C E n)) = nd_events n"
  "nd_cfg (snd (announce C E n)) = nd_cfg n" "nd_id (snd (announce C E n)) = nd_id n"
  by (simp_all add: announce_def Let_def)

lemma peers_ok_seq [simp]: "peers_ok (n\<lparr>nd_sequence := s\<rparr>) = peers_ok n"
  by (simp add: peers_ok_def peer_ok_def)

lemma peers_ok_announce [simp]: "peers_ok (snd (announce C E n)) = peers_ok n"
  by (simp add: announce_def Let_def)

lemma tasks_fit_announce:
  assumes "peers_ok n" "announce C E n = (ts, n')"
  shows "tasks_fit ts n'"
proof (cases "nd_started n")
  case True
  have "peers_ok n'" using peers_ok_announce [of C E n] assms by simp
  moreover have "ts = frame_tasks frame_lsa (lsa_marshal (local_lsa C E n)) None n'"
    using True assms(2) by (auto simp: announce_def Let_def)
  ultimately show ?thesis by (simp add: tasks_fit_frames)
qed (use assms(2) in \<open>simp add: announce_def tasks_fit_def\<close>)

lemma start_close_snd:
  "snd (start_close C E p reason n) =
    snd (announce C E (drop_peer p (n\<lparr>nd_open := removeAll (pr_conn p) (nd_open n)\<rparr>)))"
  by (simp add: start_close_def split: prod.split)

lemma start_close_facts:
  assumes "start_close C E p reason n = (ts, m)" "peers_ok n" "conn_fits p n"
  shows "peers_ok m" "tasks_fit ts m" "set (nd_peers m) \<subseteq> set (nd_peers n)"
proof -
  let ?d = "drop_peer p (n\<lparr>nd_open := removeAll (pr_conn p) (nd_open n)\<rparr>)"
  obtain ts' where a: "announce C E ?d = (ts', m)"
    and ts: "ts = ts' @ [Wake, Note ''info'' (''peer '' @ node_short (pr_id p) @ '' disconnected: '' @ reason)]"
    using assms(1) by (auto simp: start_close_def split: prod.splits)
  have d: "peers_ok ?d" by (rule peers_ok_drop [OF assms(2,3)])
  show "peers_ok m" using peers_ok_announce [of C E ?d] d a by simp
  show "tasks_fit ts m" using tasks_fit_announce [OF d a] by (simp add: ts tasks_fit_def)
  show "set (nd_peers m) \<subseteq> set (nd_peers n)"
    using announce_peers(1) [of C E ?d] drop_peer_subset [of p "n\<lparr>nd_open := removeAll (pr_conn p) (nd_open n)\<rparr>"] a by simp
qed

text \<open>A predicate the four steps keep is kept by the whole stack.\<close>

definition stable :: "crypto \<Rightarrow> env \<Rightarrow> ('a node_scheme \<Rightarrow> bool) \<Rightarrow> bool" where
  "stable C E P \<longleftrightarrow> (\<forall>n m. same_tables m n \<longrightarrow> length (nd_events n) \<le> 200 \<longrightarrow> length (nd_events m) \<le> 200 \<longrightarrow> P n \<longrightarrow> P m) \<and>
     (\<forall>n p reason. P n \<longrightarrow> peers_ok n \<longrightarrow> conn_fits p n \<longrightarrow> P (snd (start_close C E p reason n)))"

lemma events_steps:
  "length (nd_events n) \<le> 200 \<Longrightarrow> length (nd_events (add_event E lv msg n)) \<le> 200"
  "nd_events (wake_publisher n) = nd_events n"
  "nd_events (snd (peer_send E p kd payload n)) = nd_events n"
  "nd_events (snd (start_close C E p reason n)) = nd_events n"
  by (simp_all add: add_event_def wake_publisher_def peer_send_def length_push_capped start_close_snd
      split: sum.split option.split)

lemma stable_same:
  "stable C E P \<Longrightarrow> same_tables m n \<Longrightarrow> length (nd_events n) \<le> 200 \<Longrightarrow> length (nd_events m) \<le> 200 \<Longrightarrow> P n \<Longrightarrow> P m"
  unfolding stable_def by blast

lemma stable_close:
  "stable C E P \<Longrightarrow> P n \<Longrightarrow> peers_ok n \<Longrightarrow> conn_fits p n \<Longrightarrow> P (snd (start_close C E p reason n))"
  unfolding stable_def by blast

lemma run_tasks_keeps:
  assumes "stable C E P"
  shows "P n \<Longrightarrow> peers_ok n \<Longrightarrow> tasks_fit ts n \<Longrightarrow> length (nd_events n) \<le> 200 \<Longrightarrow>
    P (run_tasks C E ts n) \<and> peers_ok (run_tasks C E ts n) \<and> length (nd_events (run_tasks C E ts n)) \<le> 200"
  using assms
proof (induction C E ts n rule: run_tasks.induct)
  case (1 C E n)
  then show ?case by simp
next
  case (2 C E ts n)
  have same: "same_tables (wake_publisher n) n" by simp
  have ev: "length (nd_events (wake_publisher n)) \<le> 200" using 2(5) by (simp add: events_steps)
  have fit: "tasks_fit ts (wake_publisher n)"
    by (rule tasks_fit_same [OF same 2(4)])
  show ?case
    using 2(1) [OF stable_same [OF 2(6) same 2(5) ev 2(2)] _ fit ev 2(6)] 2(3) peers_ok_cong [OF same] by simp
next
  case (3 C E lv msg ts n)
  have same: "same_tables (add_event E lv msg n) n" by simp
  have ev: "length (nd_events (add_event E lv msg n)) \<le> 200" using 3(5) by (rule events_steps)
  have fit: "tasks_fit ts (add_event E lv msg n)"
    by (rule tasks_fit_same [OF same 3(4)])
  show ?case
    using 3(1) [OF stable_same [OF 3(6) same 3(5) ev 3(2)] _ fit ev 3(6)] 3(3) peers_ok_cong [OF same] by simp
next
  case (4 C E p kd payload ts n)
  obtain r n1 where s: "peer_send E p kd payload n = (r, n1)" by fastforce
  have same: "same_tables n1 n" using same_tables_steps(3) [of E p kd payload n] s by simp
  have ev: "length (nd_events n1) \<le> 200" using events_steps(3) [of E p kd payload n] s 4(7) by simp
  have P1: "P n1" by (rule stable_same [OF 4(8) same 4(7) ev 4(4)])
  have ok1: "peers_ok n1" using peers_ok_cong [OF same] 4(5) by simp
  have sub: "set (nd_peers n1) \<subseteq> set (nd_peers n)" using same by (simp add: same_tables_def)
  have fit1: "tasks_fit (Write p kd payload # ts) n1" using tasks_fit_shrink [OF 4(6) sub] .
  then have fit: "tasks_fit ts n1" "conn_fits p n1" by (auto simp: tasks_fit_def)
  show ?case
  proof (cases r)
    case (Inr u)
    then show ?thesis using 4(3) [OF s [symmetric] Inr P1 ok1 fit(1) ev 4(8)] s by simp
  next
    case (Inl e)
    show ?thesis
    proof (cases "pr_conn p \<in> set (nd_open n1)")
      case False
      then show ?thesis using 4(1) [OF s [symmetric] Inl _ P1 ok1 fit(1) ev 4(8)] s Inl by simp
    next
      case True
      obtain ts' n2 where c: "start_close C E p (''write failed: '' @ e) n1 = (ts', n2)" by fastforce
      note f = start_close_facts [OF c ok1 fit(2)]
      have P2: "P n2" using stable_close [OF 4(8) P1 ok1 fit(2), of "''write failed: '' @ e"] c by simp
      have "tasks_fit (ts' @ ts) n2" using f(2) tasks_fit_shrink [OF fit(1) f(3)] by (simp add: tasks_fit_append)
      moreover have "length (nd_events n2) \<le> 200"
        using events_steps(4) [of C E p "''write failed: '' @ e" n1] c ev by simp
      ultimately show ?thesis
        using 4(2) [OF s [symmetric] Inl _ c [symmetric] P2 f(1) _ _ 4(8)] s Inl c True by simp
    qed
  qed
qed

subsection \<open>Tables\<close>

definition tables_ok :: "'a node_scheme \<Rightarrow> bool" where
  "tables_ok n \<longleftrightarrow> distinct (map fst (nd_lsas n)) \<and> nd_routes n = compute (nd_self n) (nd_lsas n) \<and>
     (\<forall>(i, l) \<in> set (nd_lsas n). node_parse (l_node l) = Inr i) \<and> distinct (map fst (nd_seen n))"

definition own_ok :: "'a node_scheme \<Rightarrow> bool" where
  "own_ok n \<longleftrightarrow> (nd_started n \<longrightarrow> (\<exists>l. map_of (nd_lsas n) (nd_self n) = Some l \<and>
     l_neighbors l = Some (sort (map node_string (peer_ids n)))))"

definition node_ok :: "'a node_scheme \<Rightarrow> bool" where
  "node_ok n \<longleftrightarrow> peers_ok n \<and> tables_ok n \<and> own_ok n \<and> length (nd_events n) \<le> 200"

lemma tables_ok_same: "same_tables m n \<Longrightarrow> tables_ok n \<Longrightarrow> tables_ok m"
  by (simp add: tables_ok_def same_tables_def nd_self_def)

lemma own_ok_same: "same_tables m n \<Longrightarrow> own_ok n \<Longrightarrow> own_ok m"
  by (simp add: own_ok_def same_tables_def nd_self_def peer_ids_def)

lemma node_ok_same: "same_tables m n \<Longrightarrow> length (nd_events m) \<le> 200 \<Longrightarrow> node_ok n \<Longrightarrow> node_ok m"
  using tables_ok_same [of m n] own_ok_same [of m n] peers_ok_cong [of m n] by (simp add: node_ok_def)

lemma tables_ok_put_lsa:
  assumes "tables_ok n" "node_parse (l_node l) = Inr i"
  shows "tables_ok (put_lsa i l n)"
  using assms set_update_subset [of i l "nd_lsas n"]
  by (auto simp: tables_ok_def put_lsa_def Let_def distinct_update nd_self_def)

lemma local_lsa_node [simp]: "l_node (local_lsa C E n) = node_string (nd_self n)"
  by (simp add: local_lsa_def nd_self_def)

lemma tables_ok_announce:
  assumes "tables_ok n"
  shows "tables_ok (snd (announce C E n))"
proof -
  have "tables_ok (n\<lparr>nd_sequence := nd_sequence n + 1\<rparr>)"
    using assms by (simp add: tables_ok_def)
  then show ?thesis
    using assms by (simp add: announce_def Let_def tables_ok_put_lsa)
qed

lemma own_ok_announce: "own_ok (snd (announce C E n))"
  by (simp add: own_ok_def announce_def Let_def put_lsa_def update_conv' local_lsa_def peer_ids_def nd_self_def)

lemma tables_ok_drop:
  "tables_ok n \<Longrightarrow> tables_ok (drop_peer p (n\<lparr>nd_open := xs\<rparr>))"
  by (simp add: tables_ok_def drop_peer_def)

lemma stable_tables: "stable C E tables_ok"
  unfolding stable_def start_close_snd
  by (blast intro: tables_ok_same tables_ok_announce tables_ok_drop)

lemma stable_own: "stable C E own_ok"
  unfolding stable_def start_close_snd by (blast intro: own_ok_same own_ok_announce)

text \<open>The parts without and with the own announcement.\<close>

definition node_base :: "'a node_scheme \<Rightarrow> bool" where
  "node_base n \<longleftrightarrow> peers_ok n \<and> tables_ok n \<and> length (nd_events n) \<le> 200"

lemma node_ok_base: "node_ok n \<longleftrightarrow> node_base n \<and> own_ok n"
  by (auto simp: node_ok_def node_base_def)

lemma node_base_same: "same_tables m n \<Longrightarrow> length (nd_events m) \<le> 200 \<Longrightarrow> node_base n \<Longrightarrow> node_base m"
  using tables_ok_same [of m n] peers_ok_cong [of m n] by (simp add: node_base_def)

lemma run_tasks_base: "node_base n \<Longrightarrow> tasks_fit ts n \<Longrightarrow> node_base (run_tasks C E ts n)"
  using run_tasks_keeps [OF stable_tables, of n ts C E] by (simp add: node_base_def)

lemma run_tasks_ok: "node_ok n \<Longrightarrow> tasks_fit ts n \<Longrightarrow> node_ok (run_tasks C E ts n)"
  using run_tasks_keeps [OF stable_own, of n ts C E] run_tasks_base [of n ts C E]
  by (simp add: node_ok_base node_base_def)

lemma broadcast_ok: "node_ok n \<Longrightarrow> node_ok (broadcast C E kd payload except n)"
  unfolding broadcast_def by (rule run_tasks_ok) (simp_all add: tasks_fit_frames node_ok_def)

lemma node_base_announce: "node_base n \<Longrightarrow> node_base (snd (announce C E n))"
  by (simp add: node_base_def tables_ok_announce)

lemma emit_ok: "node_base n \<Longrightarrow> node_ok (emit_local_lsa C E n)"
proof -
  assume n: "node_base n"
  obtain ts m where a: "announce C E n = (ts, m)" by fastforce
  have "node_ok m"
    using node_base_announce [OF n, of C E] own_ok_announce [of C E n] a by (simp add: node_ok_base)
  moreover have "tasks_fit ts m"
    by (rule tasks_fit_announce [OF _ a]) (use n in \<open>simp add: node_base_def\<close>)
  ultimately show ?thesis by (simp add: emit_local_lsa_def a run_tasks_ok)
qed

lemma close_peer_cases:
  assumes "node_base n" "conn_fits p n"
  shows "node_base (close_peer C E p reason n)"
    "pr_conn p \<in> set (nd_open n) \<or> own_ok n \<Longrightarrow> own_ok (close_peer C E p reason n)"
proof -
  obtain ts m where c: "start_close C E p reason n = (ts, m)" by fastforce
  have m: "node_base m" "own_ok m" "tasks_fit ts m"
    using start_close_facts [OF c] assms stable_close [OF stable_tables _ _ assms(2), where reason = reason and C = C and E = E]
      start_close_snd [of C E p reason n] own_ok_announce events_steps(4) [of C E p reason n]
    by (auto simp: node_base_def c)
  then have "node_ok (run_tasks C E ts m)" by (intro run_tasks_ok) (simp_all add: node_ok_base)
  with assms c show "node_base (close_peer C E p reason n)"
    "pr_conn p \<in> set (nd_open n) \<or> own_ok n \<Longrightarrow> own_ok (close_peer C E p reason n)"
    by (auto simp: close_peer_def node_ok_base)
qed

lemma close_peer_ok: "node_ok n \<Longrightarrow> conn_fits p n \<Longrightarrow> node_ok (close_peer C E p reason n)"
  using close_peer_cases [of n p C E reason] by (simp add: node_ok_base)

subsection \<open>Registration\<close>

lemma same_send_all: "same_tables (send_all_lsas E p n) n"
proof -
  have "same_tables (fold (\<lambda>raw m. snd (peer_send E p frame_lsa raw m)) raws n) n" for raws
    by (induction raws arbitrary: n) (auto intro: same_tables_trans same_tables_steps)
  then show ?thesis by (simp add: send_all_lsas_def)
qed

lemma events_send_all: "nd_events (send_all_lsas E p n) = nd_events n"
proof -
  have "nd_events (fold (\<lambda>raw m. snd (peer_send E p frame_lsa raw m)) raws n) = nd_events n" for raws
    by (induction raws arbitrary: n) (auto simp: events_steps)
  then show ?thesis by (simp add: send_all_lsas_def)
qed

lemma peers_ok_put:
  assumes "peers_ok n" "pr_conn p \<notin> set (nd_open n)" "pr_id p \<noteq> nd_self n"
  shows "peers_ok (n\<lparr>nd_peers := AList.update (pr_id p) p (nd_peers n), nd_open := pr_conn p # nd_open n\<rparr>)"
    (is "peers_ok ?m")
proof -
  have new: "pr_conn q \<noteq> pr_conn p" if "(i, q) \<in> set (nd_peers n)" for i q
    using assms(1,2) that by (auto simp: peers_ok_def peer_ok_def)
  have "distinct (map (pr_conn \<circ> snd) (AList.update (pr_id p) p xs))"
    if "distinct (map (pr_conn \<circ> snd) xs)" "\<forall>(i, q) \<in> set xs. pr_conn q \<noteq> pr_conn p" for xs
    using that
  proof (induction xs)
    case (Cons x xs)
    obtain k v where x: "x = (k, v)" by (cases x)
    have "(pr_conn \<circ> snd) ` set (AList.update (pr_id p) p xs) \<subseteq> insert (pr_conn p) ((pr_conn \<circ> snd) ` set xs)"
      using image_mono [OF set_update_subset [of "pr_id p" p xs], of "pr_conn \<circ> snd"] by simp
    with Cons show ?case by (auto simp: x)
  qed simp
  then have "distinct (map (pr_conn \<circ> snd) (nd_peers ?m))"
    using assms(1) new by (auto simp: peers_ok_def)
  moreover have "peer_ok ?m x" if "x \<in> set (nd_peers ?m)" for x
    using that assms set_update_subset [of "pr_id p" p "nd_peers n"]
    by (fastforce simp: peers_ok_def peer_ok_def nd_self_def)
  ultimately show ?thesis
    using assms(1) by (auto simp: peers_ok_def distinct_update)
qed

lemma register_peer_ok:
  fixes n :: "'a node_scheme"
  assumes "node_ok n" "pr_conn p \<notin> set (nd_open n)" "pr_id p \<noteq> nd_self n"
  shows "node_ok (snd (register_peer C E p n))"
proof -
  let ?put = "n\<lparr>nd_peers := AList.update (pr_id p) p (nd_peers n), nd_open := pr_conn p # nd_open n\<rparr>"
  have peers: "peers_ok n" using assms(1) by (simp add: node_ok_def)
  have put: "node_base ?put"
    using peers_ok_put [OF peers assms(2,3)] assms(1)
    by (simp add: node_base_def node_ok_def tables_ok_def nd_self_def)
  have closing: "node_base (close_peer C E q reason ?put)" if "map_of (nd_peers n) (pr_id p) = Some q" for q reason
  proof (rule close_peer_cases(1) [OF put])
    have q: "(pr_id p, q) \<in> set (nd_peers n)" by (rule map_of_SomeD [OF that])
    have "pr_conn q \<in> set (nd_open n)" "pr_id q = pr_id p"
      using q peers by (auto simp: peers_ok_def peer_ok_def)
    then have "conn_fits q n" "pr_conn q \<noteq> pr_conn p"
      using conn_fits_member [OF peers q] assms(2) by auto
    then show "conn_fits q ?put"
      using set_update_subset [of "pr_id p" p "nd_peers n"] by (fastforce simp: conn_fits_def)
  qed
  have finish: "node_ok (send_all_lsas E p (wake_publisher (emit_local_lsa C E m)))" if "node_base m" for m :: "'a node_scheme"
  proof -
    have e: "node_ok (emit_local_lsa C E m)" by (rule emit_ok [OF that])
    have "same_tables (send_all_lsas E p (wake_publisher (emit_local_lsa C E m))) (emit_local_lsa C E m)"
      by (rule same_tables_trans [OF same_send_all]) simp
    then show ?thesis
      by (rule node_ok_same) (use e in \<open>simp_all add: events_send_all events_steps node_ok_def\<close>)
  qed
  have send: "node_ok (snd (peer_send E p kd payload m))" if "node_ok m" for kd payload and m :: "'a node_scheme"
    by (rule node_ok_same [OF same_tables_steps(3) _ that])
      (use that in \<open>simp add: events_steps node_ok_def\<close>)
  have exchange: "node_ok (snd (True, if b then snd (peer_send E p frame_pex (pex_payload E m) m) else m))"
    if "node_ok m" for b and m :: "'a node_scheme"
    using that send [OF that] by simp
  show ?thesis
  proof (cases "map_of (nd_peers n) (pr_id p)")
    case None
    show ?thesis
      unfolding register_peer_def Let_def None option.case if_False
      by (rule exchange [OF finish [OF put]])
  next
    case (Some q)
    show ?thesis
    proof (cases "\<not> preferred n p \<or> preferred n q")
      case True
      then show ?thesis using assms(1) by (simp add: register_peer_def Let_def Some)
    next
      case False
      show ?thesis
        unfolding register_peer_def Let_def Some option.case if_not_P [OF False]
        by (rule exchange [OF finish [OF closing [OF Some]]])
    qed
  qed
qed

lemma establish_peer_ok:
  assumes "node_ok n" "conn \<notin> set (nd_open n)"
  shows "node_ok (snd (establish_peer C E outbound expected conn remote handshake incoming n))"
proof -
  have reg: "node_ok n'"
    if "check_hello E pub i payload n = Inr h"
      "register_peer C E \<lparr>pr_id = i, pr_conn = conn, pr_outbound = outbound, pr_remote = remote, pr_advertise = adv\<rparr> n = (b, n')"
    for pub i payload h adv b n'
  proof -
    have "i \<noteq> nd_self n"
      using that(1) by (auto simp: check_hello_def split: option.splits if_splits)
    then show ?thesis
      using register_peer_ok [OF assms(1), of "\<lparr>pr_id = i, pr_conn = conn, pr_outbound = outbound, pr_remote = remote, pr_advertise = adv\<rparr>" C E]
        assms(2) that(2) by simp
  qed
  show ?thesis
    using assms(1) reg
    by (auto simp: establish_peer_def Let_def split: sum.split option.split prod.split bool.split)
qed

subsection \<open>The other handlers\<close>

lemma node_ok_send: "node_ok n \<Longrightarrow> node_ok (snd (peer_send E p kd payload n))"
  by (rule node_ok_same [OF same_tables_steps(3)]) (simp_all add: events_steps node_ok_def)

lemma node_ok_event: "node_ok n \<Longrightarrow> node_ok (add_event E lv msg n)"
  by (rule node_ok_same [OF same_tables_steps(1)]) (simp_all add: events_steps node_ok_def)

lemma node_ok_wake: "node_ok n \<Longrightarrow> node_ok (wake_publisher n)"
  by (rule node_ok_same [OF same_tables_steps(2)]) (simp_all add: events_steps node_ok_def)

lemma node_ok_send_packet:
  "node_ok n \<Longrightarrow> node_ok (snd (peer_send_packet E p pkt n))"
  by (simp add: peer_send_packet_def node_ok_send split: sum.split)

lemma put_lsa_ok:
  assumes "node_ok n" "node_parse (l_node l) = Inr i" "i \<noteq> nd_self n"
  shows "node_ok (put_lsa i l n)"
proof -
  have "own_ok (put_lsa i l n)"
    using assms(1,3) by (simp add: own_ok_def node_ok_def put_lsa_def Let_def update_conv' peer_ids_def nd_self_def)
  then show ?thesis
    using assms by (simp add: node_ok_def tables_ok_put_lsa)
qed

lemma handle_lsa_ok: "node_ok n \<Longrightarrow> node_ok (handle_lsa C E raw p n)"
  unfolding handle_lsa_def
  by (auto intro!: node_ok_event broadcast_ok node_ok_wake put_lsa_ok elim: lsa_verify_InrD
      split: option.split sum.split)

lemma inert:
  "own_ok (n\<lparr>nd_seen := xs\<rparr>) = own_ok n" "peers_ok (n\<lparr>nd_seen := xs\<rparr>) = peers_ok n"
  by (simp_all add: own_ok_def peer_ids_def peers_ok_def peer_ok_def)

lemma own_ok_filter:
  assumes "own_ok n" "tables_ok n"
  shows "own_ok (n\<lparr>nd_lsas := filter (\<lambda>(i, l). i = nd_self n \<or> Q l) (nd_lsas n), nd_routes := r\<rparr>)"
  using assms map_of_filter_keys [of "nd_lsas n" "\<lambda>i l. i = nd_self n \<or> Q l" "nd_self n"]
  by (auto simp: own_ok_def tables_ok_def peer_ids_def nd_self_def)

lemma node_ok_seen: "node_ok n \<Longrightarrow> distinct (map fst xs) \<Longrightarrow> node_ok (n\<lparr>nd_seen := xs\<rparr>)"
  by (simp add: node_ok_def inert tables_ok_def)

lemma cleanup_ok:
  assumes "node_ok n"
  shows "node_ok (cleanup_expired E n)"
proof -
  let ?live = "filter (\<lambda>(i, l). i = nd_self n \<or> \<not> sint (l_expires l) \<le> sint (unix (en_now E))) (nd_lsas n)"
  let ?n1 = "wake_publisher (n\<lparr>nd_lsas := ?live, nd_routes := compute (nd_self n) ?live\<rparr>)"
  have "node_ok (n\<lparr>nd_lsas := ?live, nd_routes := compute (nd_self n) ?live\<rparr>)"
    using assms own_ok_filter [of n _ "\<lambda>l. \<not> sint (l_expires l) \<le> sint (unix (en_now E))"]
    by (auto simp: node_ok_def tables_ok_def peers_ok_def peer_ok_def distinct_filter_keys)
  then have n1: "node_ok ?n1" by (rule node_ok_wake)
  have "distinct (map fst (nd_seen m))" if "node_ok m" for m :: "'a node_scheme"
    using that by (simp add: node_ok_def tables_ok_def)
  with n1 assms show ?thesis
    unfolding cleanup_expired_def Let_def
    by (cases "?live = nd_lsas n") (auto intro!: node_ok_seen distinct_filter_keys)
qed

lemma consider_candidate_same: "same_tables (consider_candidate E src c n) n"
proof -
  have "same_tables (n\<lparr>nd_discovered := d\<rparr>) n" for d
    by (simp add: same_tables_def)
  moreover have "same_tables (add_event E lv msg (n\<lparr>nd_dialing := a, nd_dials := b\<rparr>)) n"
    "same_tables (add_event E lv msg (n\<lparr>nd_discovered := d, nd_dialing := a, nd_dials := b\<rparr>)) n" for lv msg a b d
    by (rule same_tables_trans [OF same_tables_steps(1)], simp add: same_tables_def)+
  ultimately show ?thesis
    by (auto simp: consider_candidate_def Let_def split: sum.split option.split)
qed

lemma consider_candidate_ok:
  assumes "node_ok n"
  shows "node_ok (consider_candidate E src c n)"
  by (rule node_ok_same [OF consider_candidate_same _ assms])
    (use assms in \<open>auto simp: consider_candidate_def Let_def node_ok_def events_steps split: sum.split option.split\<close>)

lemma handle_pex_ok: "node_ok n \<Longrightarrow> node_ok (handle_pex E raw n)"
proof -
  have "node_ok (fold (consider_candidate E ''pex'') cs m)" if "node_ok m" for cs and m :: "'a node_scheme"
    using that by (induction cs arbitrary: m) (simp_all add: consider_candidate_ok)
  then show "node_ok n \<Longrightarrow> node_ok (handle_pex E raw n)"
    by (simp add: handle_pex_def split: option.split)
qed

lemma send_packet_ok:
  assumes "\<And>pkt m. node_ok m \<Longrightarrow> node_ok (local pkt m)" "node_ok n"
  shows "node_ok (snd (send_packet E local pkt n))"
  using assms by (simp add: send_packet_def node_ok_send_packet split: option.split)

lemma node_ok_retries [simp]: "node_ok (n\<lparr>nd_retries := xs\<rparr>) = node_ok n"
  by (simp add: node_ok_def peers_ok_def peer_ok_def tables_ok_def own_ok_def peer_ids_def nd_self_def)

lemma node_ok_stats [simp]:
  "node_ok (n\<lparr>nd_frames_received := a, nd_bytes_received := b\<rparr>) = node_ok n"
  "node_ok (n\<lparr>nd_dialing := d, nd_dials := ds\<rparr>) = node_ok n" "node_ok (n\<lparr>nd_stopped := st\<rparr>) = node_ok n"
  by (simp_all add: node_ok_def peers_ok_def peer_ok_def tables_ok_def own_ok_def peer_ids_def nd_self_def)

lemma handle_packet_ok:
  assumes "\<And>pkt m. node_ok m \<Longrightarrow> node_ok (local pkt m)" "node_ok n"
  shows "node_ok (handle_packet E local pkt n)"
proof -
  let ?n1 = "n\<lparr>nd_seen := AList.update (p_packet_id pkt) (en_now E) (nd_seen n)\<rparr>"
  have n1: "node_ok ?n1"
    by (rule node_ok_seen [OF assms(2)])
      (use assms(2) in \<open>simp add: node_ok_def tables_ok_def distinct_update\<close>)
  obtain r n2 where s: "send_packet E local (pkt\<lparr>p_ttl := p_ttl pkt - 1\<rparr>) ?n1 = (r, n2)" by fastforce
  have n2: "node_ok n2" using send_packet_ok [of local ?n1 E "pkt\<lparr>p_ttl := p_ttl pkt - 1\<rparr>", OF assms(1) n1] s by simp
  show ?thesis
    using assms n1 n2 s
    by (cases r) (simp_all add: handle_packet_def Let_def node_ok_event)
qed

lemma relay_retry_ok:
  assumes "\<And>pkt m. node_ok m \<Longrightarrow> node_ok (local pkt m)" "node_ok n"
  shows "node_ok (relay_retry E local deadline fresh pkt n)"
proof -
  let ?n = "n\<lparr>nd_retries := remove1 pkt (nd_retries n)\<rparr>"
  obtain r m where s: "send_packet E local pkt ?n = (r, m)" by fastforce
  have "node_ok m" using send_packet_ok [of local ?n E pkt, OF assms(1)] assms(2) s by simp
  then show ?thesis
    using s by (cases r) (simp_all add: relay_retry_def retry_attempt_def node_ok_event)
qed

lemma handle_frame_ok:
  assumes "\<And>pkt m. node_ok m \<Longrightarrow> node_ok (local pkt m)" "\<And>p cell m. node_ok m \<Longrightarrow> node_ok (circuit p cell m)"
    and "node_ok n"
  shows "node_ok (handle_frame C E local circuit p kd payload n)"
proof -
  let ?n = "n\<lparr>nd_frames_received := nd_frames_received n + 1,
              nd_bytes_received := nd_bytes_received n + of_nat (length payload + 5)\<rparr>"
  have "node_ok ?n" using assms(3) by simp
  then show ?thesis
    unfolding handle_frame_def Let_def
    by (auto intro!: handle_lsa_ok node_ok_event node_ok_send handle_pex_ok handle_packet_ok assms(1,2) split: sum.split)
qed

lemma start_node_ok: "node_ok n \<Longrightarrow> node_ok (start_node C E addresses n)"
proof -
  assume n: "node_ok n"
  have "node_base (n\<lparr>nd_started := True, nd_addresses := addresses\<rparr>)"
    using n by (simp add: node_ok_def node_base_def peers_ok_def peer_ok_def tables_ok_def)
  then have "node_base (add_event E lv msg (n\<lparr>nd_started := True, nd_addresses := addresses\<rparr>))" for lv msg
    by (intro node_base_same [OF same_tables_steps(1)]) (simp_all add: events_steps node_base_def)
  with n show ?thesis by (simp add: start_node_def emit_ok)
qed

lemma stable_subset: "stable C E (\<lambda>m. set (nd_peers m) \<subseteq> S)"
  unfolding stable_def start_close_snd announce_peers
  using drop_peer_subset by (fastforce simp: same_tables_def)

lemma close_peer_subset:
  assumes "node_ok n" "conn_fits p n"
  shows "set (nd_peers (close_peer C E p reason n)) \<subseteq> set (nd_peers n)"
proof (cases "pr_conn p \<in> set (nd_open n)")
  case True
  obtain ts m where c: "start_close C E p reason n = (ts, m)" by fastforce
  note f = start_close_facts [OF c _ assms(2)]
  have "length (nd_events m) \<le> 200"
    using events_steps(4) [of C E p reason n] c assms(1) by (simp add: node_ok_def)
  then show ?thesis
    using run_tasks_keeps [OF stable_subset [of C E "set (nd_peers n)"], of m ts] f assms(1) True c
    by (simp add: close_peer_def node_ok_def)
qed (simp add: close_peer_def)

lemma stop_peers_ok:
  assumes "node_ok n"
  shows "node_ok (stop_peers C E n)"
proof -
  have "node_ok (fold (\<lambda>p. close_peer C E p r) ps m)" if "node_ok m" "\<forall>p \<in> set ps. conn_fits p m"
    for ps r and m :: "'a node_scheme"
    using that
  proof (induction ps arbitrary: m)
    case (Cons p ps)
    then have "node_ok (close_peer C E p r m)" "set (nd_peers (close_peer C E p r m)) \<subseteq> set (nd_peers m)"
      by (simp_all add: close_peer_ok close_peer_subset)
    moreover have "\<forall>q \<in> set ps. conn_fits q (close_peer C E p r m)"
      using Cons.prems(2) calculation(2) by (auto intro: conn_fits_shrink)
    ultimately show ?case using Cons.IH by simp
  qed simp
  moreover have "conn_fits p (n\<lparr>nd_stopped := True\<rparr>)" if "p \<in> snd ` set (nd_peers n)" for p
    using that conn_fits_member [of "n\<lparr>nd_stopped := True\<rparr>"] assms
    by (auto simp: node_ok_def peers_ok_def peer_ok_def)
  ultimately show ?thesis
    using assms by (simp add: stop_peers_def)
qed

subsection \<open>Reachable nodes\<close>

text \<open>The steps of a node whose packets for itself and circuit cells leave its tables alone.\<close>

inductive node_step :: "crypto \<Rightarrow> node \<Rightarrow> node \<Rightarrow> bool" for C where
  starting: "node_step C n (start_node C E addresses n)"
| established: "conn \<notin> set (nd_open n) \<Longrightarrow>
    node_step C n (snd (establish_peer C E outbound expected conn remote handshake incoming n))"
| frame: "(i, p) \<in> set (nd_peers n) \<Longrightarrow>
    node_step C n (handle_frame C E (\<lambda>pkt m. m) (\<lambda>q cell m. m) p kd payload n)"
| closed: "(i, p) \<in> set (nd_peers n) \<Longrightarrow> node_step C n (close_peer C E p reason n)"
| announced: "node_step C n (emit_local_lsa C E n)"
| cleaned: "node_step C n (cleanup_expired E n)"
| pinged: "node_step C n (ping_peers C E nonce n)"
| exchanged: "node_step C n (broadcast_pex C E n)"
| candidate: "node_step C n (consider_candidate E src c n)"
| dialled: "node_step C n (finish_dial i n)"
| sent: "node_step C n (snd (send_packet E (\<lambda>pkt m. m) pkt n))"
| retried: "pkt \<in> set (nd_retries n) \<Longrightarrow> node_step C n (relay_retry E (\<lambda>pkt m. m) deadline fresh pkt n)"
| stopped: "node_step C n (stop_peers C E n)"

inductive node_reachable :: "crypto \<Rightarrow> node \<Rightarrow> bool" for C where
  created: "new_node cfg i = Inr n \<Longrightarrow> node_reachable C n"
| step: "node_reachable C n \<Longrightarrow> node_step C n m \<Longrightarrow> node_reachable C m"

inductive_cases node_stepE: "node_step C n m"

lemma compute_no_lsas: "compute i [] = Map.empty"
proof (rule ext)
  fix dst
  show "compute i [] dst = None"
  proof (rule ccontr)
    assume "compute i [] dst \<noteq> None"
    then obtain r where r: "compute i [] dst = Some r" by auto
    note p = compute_path [OF r]
    obtain a b q where q: "rt_path r = a # b # q"
      using p(5) by (cases "rt_path r" rule: list.exhaust; cases "tl (rt_path r)") auto
    then have "linked (advertised_of []) a b"
      using p(1) unfolding walk_def q by auto
    then show False using linked_key by (fastforce simp: advertised_of_def)
  qed
qed

lemma new_node_ok: "new_node cfg i = Inr n \<Longrightarrow> node_ok n"
  by (auto simp: new_node_def node_ok_def peers_ok_def tables_ok_def own_ok_def compute_no_lsas split: sum.splits)

lemma node_step_ok: "node_step C n m \<Longrightarrow> node_ok n \<Longrightarrow> node_ok m"
proof (induction rule: node_step.induct)
  case (closed i p n E reason)
  have "conn_fits p n" by (rule conn_fits_member [OF _ closed(1)]) (use closed(2) in \<open>simp add: node_ok_def\<close>)
  with closed(2) show ?case by (rule close_peer_ok)
next
  case (announced n E)
  show ?case by (rule emit_ok) (use announced in \<open>simp add: node_ok_base\<close>)
qed (auto simp: ping_peers_def broadcast_pex_def finish_dial_def
    intro: start_node_ok establish_peer_ok handle_frame_ok cleanup_ok broadcast_ok consider_candidate_ok
      send_packet_ok relay_retry_ok stop_peers_ok)

lemma node_reachable_ok: "node_reachable C n \<Longrightarrow> node_ok n"
  by (induction rule: node_reachable.induct) (auto intro: new_node_ok node_step_ok)

end
