(* ===== verification/Circuit.thy ===== *)
theory Circuit
  imports Node_Inv Session
begin

section \<open>Onion circuits\<close>

text \<open>
  \<open>internal/overlay/circuit.go\<close>: the circuits a node relays and those it has opened. The state of the
  node is extended by \<open>circuitState\<close>; relay circuits, client circuits and waiting \<open>EXTEND\<close>s are Go
  pointers, here positions of lists that only grow, so that an object taken from a map keeps its
  identity after it has left it. A goroutine that waits is two steps: \<open>extend_circuit\<close> and
  \<open>extend_done\<close>, \<open>build_start\<close> and one \<open>build_step\<close> per answer. Random bytes, dialled connections and the
  outcome of writes to applications are arguments (\<open>draw\<close>); a connection to an application is a number
  and what is written to it goes to \<open>cs_app_out\<close>.
\<close>

subsection \<open>State\<close>

type_synonym circuit_key = "node_id \<times> uint64"

record circuit_hop =
  ch_id :: node_id
  ch_fwd :: bytes
  ch_rev :: bytes
  ch_send :: uint64
  ch_recv :: uint64

datatype relay_response = Response byte bytes | Response_error error

record client_circuit =
  cc_id :: uint64
  cc_first :: peer
  cc_path :: "node_id list"
  cc_hops :: "circuit_hop list"
  cc_responses :: "relay_response list"
  cc_done :: bool

record relay_circuit =
  rc_incoming :: peer
  rc_in :: uint64
  rc_fwd :: bytes
  rc_rev :: bytes
  rc_fwd_seq :: uint64
  rc_rev_seq :: uint64
  rc_outgoing :: "(peer \<times> uint64) option"
  rc_app :: "nat option"
  rc_closed :: bool

text \<open>A goroutine of \<open>extendCircuit\<close> with its channel of one place.\<close>

record extend =
  ex_relay :: nat
  ex_peer :: peer
  ex_id :: uint64
  ex_result :: "bytes option"
  ex_running :: bool

record circuit_node = node +
  cs_relays :: "relay_circuit list"
  cs_relay_in :: "(circuit_key \<times> nat) list"
  cs_relay_out :: "(circuit_key \<times> nat) list"
  cs_all_clients :: "client_circuit list"
  cs_clients :: "(uint64 \<times> nat) list"
  cs_extends :: "extend list"
  cs_pending :: "(circuit_key \<times> nat) list"
  cs_app_out :: "(nat \<times> bytes) list"
  cs_app_closed :: "nat list"
  cs_internal :: "(nat \<times> string \<times> node_id) list"

text \<open>What a handler draws from outside: key material, a circuit identifier, connections.\<close>

record draw =
  dw_private :: bytes
  dw_nonce :: bytes
  dw_circuits :: "nat \<Rightarrow> 8 barr"
  dw_pipe :: nat
  dw_dial :: "string \<Rightarrow> nat result"
  dw_app_write :: "nat \<Rightarrow> bool"

definition init_circuits :: "node \<Rightarrow> circuit_node" where
  "init_circuits n = node.extend n (circuit_node.fields [] [] [] [] [] [] [] [] [] [])"

definition random_circuit_id :: "8 barr \<Rightarrow> uint64" where
  "random_circuit_id b = (let v = get_u64 (arr_bytes b) in if v = 0 then 1 else v)"

definition set_relay :: "nat \<Rightarrow> relay_circuit \<Rightarrow> 'a circuit_node_scheme \<Rightarrow> 'a circuit_node_scheme" where
  "set_relay i rc n = n\<lparr>cs_relays := (cs_relays n)[i := rc]\<rparr>"

definition set_client :: "nat \<Rightarrow> client_circuit \<Rightarrow> 'a circuit_node_scheme \<Rightarrow> 'a circuit_node_scheme" where
  "set_client i cc n = n\<lparr>cs_all_clients := (cs_all_clients n)[i := cc]\<rparr>"

definition cell_of :: "byte \<Rightarrow> uint64 \<Rightarrow> bytes \<Rightarrow> circuit_cell" where
  "cell_of kind i payload = \<lparr> c_version = 0, c_kind = kind, c_circuit_id = i, c_payload = payload \<rparr>"

subsection \<open>Relayed circuits\<close>

definition close_app :: "nat option \<Rightarrow> 'a circuit_node_scheme \<Rightarrow> 'a circuit_node_scheme" where
  "close_app a n = (case a of None \<Rightarrow> n | Some c \<Rightarrow> n\<lparr>cs_app_closed := c # cs_app_closed n\<rparr>)"

definition close_relay :: "env \<Rightarrow> nat \<Rightarrow> 'a circuit_node_scheme \<Rightarrow> 'a circuit_node_scheme" where
  "close_relay E i n =
     (let rc = cs_relays n ! i in
      if rc_closed rc then n
      else let n1 = close_app (rc_app rc) (set_relay i (rc\<lparr>rc_closed := True\<rparr>) n);
               n2 = n1\<lparr>cs_relay_in := AList.delete (pr_id (rc_incoming rc), rc_in rc) (cs_relay_in n1)\<rparr>
           in (case rc_outgoing rc of None \<Rightarrow> n2
               | Some (out, oid) \<Rightarrow>
                   snd (peer_send_circuit E out (cell_of circuit_destroy oid [])
                     (n2\<lparr>cs_relay_out := AList.delete (pr_id out, oid) (cs_relay_out n2)\<rparr>))))"

definition handle_create ::
  "crypto \<Rightarrow> env \<Rightarrow> draw \<Rightarrow> peer \<Rightarrow> circuit_cell \<Rightarrow> 'a circuit_node_scheme \<Rightarrow> 'a circuit_node_scheme" where
  "handle_create C E R p cell n =
     (if length (c_payload cell) \<noteq> 64 then n
      else (case derive_circuit_hop C (dw_private R) (take 32 (c_payload cell)) (drop 32 (c_payload cell)) (dw_nonce R) of
          Inl _ \<Rightarrow> n
        | Inr (fk, rk) \<Rightarrow>
            let key = (pr_id p, c_circuit_id cell) in
            if map_of (cs_relay_in n) key \<noteq> None then n
            else let rc = \<lparr> rc_incoming = p, rc_in = c_circuit_id cell, rc_fwd = fk, rc_rev = rk, rc_fwd_seq = 0,
                       rc_rev_seq = 0, rc_outgoing = None, rc_app = None, rc_closed = False \<rparr>
                 in snd (peer_send_circuit E p
                      (cell_of circuit_created (c_circuit_id cell) (x_public C (dw_private R) @ dw_nonce R))
                      (n\<lparr>cs_relay_in := AList.update key (length (cs_relays n)) (cs_relay_in n),
                         cs_relays := cs_relays n @ [rc]\<rparr>))))"

definition closed_circuit :: error where
  "closed_circuit = ''use of closed network connection''"

text \<open>What a relay does to the counters and keys of its layer.\<close>

definition relay_unwrap :: "crypto \<Rightarrow> relay_circuit \<Rightarrow> bytes \<Rightarrow> bytes result \<times> relay_circuit" where
  "relay_unwrap C rc payload =
     (case open_circuit_layer C (rc_fwd rc) (rc_fwd_seq rc) payload of
        Inl e \<Rightarrow> (Inl e, rc) | Inr plain \<Rightarrow> (Inr plain, rc\<lparr>rc_fwd_seq := rc_fwd_seq rc + 1\<rparr>))"

definition relay_wrap :: "crypto \<Rightarrow> relay_circuit \<Rightarrow> bytes \<Rightarrow> bytes result \<times> relay_circuit" where
  "relay_wrap C rc payload =
     (seal_circuit_layer C (rc_rev rc) (rc_rev_seq rc) payload, rc\<lparr>rc_rev_seq := rc_rev_seq rc + 1\<rparr>)"

definition send_relay_reverse ::
  "crypto \<Rightarrow> env \<Rightarrow> nat \<Rightarrow> byte \<Rightarrow> bytes \<Rightarrow> 'a circuit_node_scheme \<Rightarrow> unit result \<times> 'a circuit_node_scheme" where
  "send_relay_reverse C E i cmd body n =
     (let rc = cs_relays n ! i in
      if rc_closed rc then (Inl closed_circuit, n)
      else (case relay_wrap C rc (relay_payload cmd body) of
          (Inl e, rc') \<Rightarrow> (Inl e, set_relay i rc' n)
        | (Inr wrapped, rc') \<Rightarrow>
            peer_send_circuit E (rc_incoming rc) (cell_of circuit_relay (rc_in rc) wrapped) (set_relay i rc' n)))"

definition handle_reverse_cell ::
  "crypto \<Rightarrow> env \<Rightarrow> nat \<Rightarrow> bytes \<Rightarrow> 'a circuit_node_scheme \<Rightarrow> 'a circuit_node_scheme" where
  "handle_reverse_cell C E i payload n =
     (let rc = cs_relays n ! i in
      if rc_closed rc then n
      else (case relay_wrap C rc payload of
          (Inl e, rc') \<Rightarrow> close_relay E i (set_relay i rc' n)
        | (Inr wrapped, rc') \<Rightarrow>
            snd (peer_send_circuit E (rc_incoming rc) (cell_of circuit_relay (rc_in rc) wrapped) (set_relay i rc' n))))"

definition open_error :: "crypto \<Rightarrow> env \<Rightarrow> nat \<Rightarrow> string \<Rightarrow> 'a circuit_node_scheme \<Rightarrow> 'a circuit_node_scheme" where
  "open_error C E i text n = snd (send_relay_reverse C E i relay_open_error (string_bytes text) n)"

text \<open>The entry of \<open>pending\<close> with the goroutine that waits for it, and its removal.\<close>

definition start_extend :: "nat \<Rightarrow> peer \<Rightarrow> uint64 \<Rightarrow> 'a circuit_node_scheme \<Rightarrow> 'a circuit_node_scheme" where
  "start_extend i p cid n =
     n\<lparr>cs_pending := AList.update (pr_id p, cid) (length (cs_extends n)) (cs_pending n),
       cs_extends := cs_extends n @
         [\<lparr> ex_relay = i, ex_peer = p, ex_id = cid, ex_result = None, ex_running = True \<rparr>]\<rparr>"

definition stop_extend :: "nat \<Rightarrow> 'a circuit_node_scheme \<Rightarrow> 'a circuit_node_scheme" where
  "stop_extend x n =
     (let ex = cs_extends n ! x
      in n\<lparr>cs_pending := AList.delete (pr_id (ex_peer ex), ex_id ex) (cs_pending n),
           cs_extends := (cs_extends n)[x := ex\<lparr>ex_running := False\<rparr>]\<rparr>)"

definition extend_circuit ::
  "crypto \<Rightarrow> env \<Rightarrow> draw \<Rightarrow> nat \<Rightarrow> bytes \<Rightarrow> 'a circuit_node_scheme \<Rightarrow> 'a circuit_node_scheme" where
  "extend_circuit C E R i body n =
     (if length body \<noteq> 96 then open_error C E i ''invalid EXTEND'' n
      else (case map_of (nd_peers n) (NodeID (arr_of (take 32 body))) of
           None \<Rightarrow> open_error C E i ''next hop unavailable'' n
         | Some p \<Rightarrow>
             let cid = random_circuit_id (dw_circuits R 0)
             in (case peer_send_circuit E p (cell_of circuit_create cid (drop 32 body)) (start_extend i p cid n) of
                  (Inl e, n1) \<Rightarrow> open_error C E i e (stop_extend (length (cs_extends n)) n1)
                | (Inr _, n1) \<Rightarrow> n1)))"

text \<open>The end of the goroutine: \<open>failed\<close> says that the timer or the context won.\<close>

definition extend_done ::
  "crypto \<Rightarrow> env \<Rightarrow> nat \<Rightarrow> error option \<Rightarrow> 'a circuit_node_scheme \<Rightarrow> 'a circuit_node_scheme" where
  "extend_done C E x failed n =
     (let ex = cs_extends n ! x;
          i = ex_relay ex;
          n1 = stop_extend x n;
          rc = cs_relays n1 ! i
      in if \<not> ex_running ex then n
         else (case failed of Some e \<Rightarrow> open_error C E i e n1
          | None \<Rightarrow>
            (case ex_result ex of None \<Rightarrow> n
             | Some payload \<Rightarrow>
               if rc_closed rc then n1
               else let n2 = set_relay i (rc\<lparr>rc_outgoing := Some (ex_peer ex, ex_id ex)\<rparr>) n1;
                        n3 = n2\<lparr>cs_relay_out := AList.update (pr_id (ex_peer ex), ex_id ex) i (cs_relay_out n2)\<rparr>
                    in snd (send_relay_reverse C E i relay_extended payload n3))))"

definition allowed_anonymous :: "service_config \<Rightarrow> bool" where
  "allowed_anonymous s \<longleftrightarrow> ''*'' \<in> set (sc_allow s)"

text \<open>\<open>internalService\<close> up to its goroutine: a pipe whose other end waits in \<open>cs_internal\<close> for its handler.\<close>

definition internal_services :: "string list" where
  "internal_services = [''kr-intro-register'', ''kr-introduce'', ''kr-rendezvous'']"

definition internal_service ::
  "draw \<Rightarrow> string \<Rightarrow> node_id \<Rightarrow> 'a circuit_node_scheme \<Rightarrow> (nat \<times> 'a circuit_node_scheme) option" where
  "internal_service R name source n =
     (if name \<in> set internal_services
      then Some (dw_pipe R, n\<lparr>cs_internal := cs_internal n @ [(dw_pipe R, name, source)]\<rparr>) else None)"

text \<open>The connection \<open>openCircuitTarget\<close> finds for a service name.\<close>

definition anonymous_target ::
  "draw \<Rightarrow> string \<Rightarrow> 'a circuit_node_scheme \<Rightarrow> nat result \<times> 'a circuit_node_scheme" where
  "anonymous_target R name n =
     (case internal_service R name (NodeID (arr_of [])) n of Some (c, n1) \<Rightarrow> (Inr c, n1)
      | None \<Rightarrow>
        (case service_of name n of
           None \<Rightarrow> (Inl (''service '' @ quoted name @ '' is not available on destination; use an advertised node service (<service>.<node>.knot) or a published service identity''), n)
         | Some s \<Rightarrow>
             if \<not> allowed_anonymous s then (Inl (''service '' @ quoted name @ '' does not allow anonymous circuits''), n)
             else (dw_dial R (sc_target s), n)))"

definition open_circuit_target ::
  "crypto \<Rightarrow> env \<Rightarrow> draw \<Rightarrow> nat \<Rightarrow> bytes \<Rightarrow> 'a circuit_node_scheme \<Rightarrow> 'a circuit_node_scheme" where
  "open_circuit_target C E R i body n =
     (if length body < 2 then n
      else let ln = 256 * unat (body ! 0) + unat (body ! 1) in
        if ln = 0 \<or> ln > length body - 2 then n
        else (case anonymous_target R (bytes_string (take ln (drop 2 body))) n of
            (Inl e, n1) \<Rightarrow> open_error C E i e n1
          | (Inr c, n1) \<Rightarrow>
              let rc = cs_relays n1 ! i in
              if rc_closed rc then close_app (Some c) n1
              else (case send_relay_reverse C E i relay_open_ok [] (set_relay i (rc\<lparr>rc_app := Some c\<rparr>) n1) of
                  (Inl _, n2) \<Rightarrow> close_relay E i n2
                | (Inr _, n2) \<Rightarrow> n2)))"

text \<open>One read of the goroutine that copies from the application: the bytes, and whether an error came
  with them.\<close>

definition app_read ::
  "crypto \<Rightarrow> env \<Rightarrow> nat \<Rightarrow> bytes \<Rightarrow> bool \<Rightarrow> 'a circuit_node_scheme \<Rightarrow> 'a circuit_node_scheme" where
  "app_read C E i chunk failed n =
     (case (if chunk = [] then (Inr (), n) else send_relay_reverse C E i relay_data chunk n) of
        (Inl _, n1) \<Rightarrow> n1
      | (Inr _, n1) \<Rightarrow>
          if failed then close_relay E i (snd (send_relay_reverse C E i relay_close [] n1)) else n1)"

definition handle_forward_cell ::
  "crypto \<Rightarrow> env \<Rightarrow> draw \<Rightarrow> nat \<Rightarrow> bytes \<Rightarrow> 'a circuit_node_scheme \<Rightarrow> 'a circuit_node_scheme" where
  "handle_forward_cell C E R i payload n =
     (let rc = cs_relays n ! i in
      if rc_closed rc then n
      else (case relay_unwrap C rc payload of
          (Inl e, rc') \<Rightarrow> close_relay E i n
        | (Inr plain, rc') \<Rightarrow>
            let n1 = set_relay i rc' n in
            (case rc_outgoing rc' of
               Some (out, oid) \<Rightarrow> snd (peer_send_circuit E out (cell_of circuit_relay oid plain) n1)
             | None \<Rightarrow>
                 (case relay_parse plain of Inl _ \<Rightarrow> close_relay E i n1
                  | Inr (cmd, body) \<Rightarrow>
                      if cmd = relay_extend then extend_circuit C E R i body n1
                      else if cmd = relay_open then open_circuit_target C E R i body n1
                      else if cmd = relay_data then
                        (case rc_app rc' of None \<Rightarrow> n1
                         | Some c \<Rightarrow> if dw_app_write R c then n1\<lparr>cs_app_out := cs_app_out n1 @ [(c, body)]\<rparr>
                                     else close_relay E i n1)
                      else if cmd = relay_close then close_relay E i n1
                      else n1))))"

subsection \<open>The circuits a node has opened\<close>

text \<open>The loops of \<open>sendRelay\<close> and \<open>handleReverse\<close> over the hops: sealing starts at the last one.\<close>

fun seal_hops :: "crypto \<Rightarrow> circuit_hop list \<Rightarrow> bytes \<Rightarrow> bytes result \<times> circuit_hop list" where
  "seal_hops C [] payload = (Inr payload, [])"
| "seal_hops C (h # hs) payload =
     (case seal_hops C hs payload of
        (Inl e, hs') \<Rightarrow> (Inl e, h # hs')
      | (Inr q, hs') \<Rightarrow>
          (case seal_circuit_layer C (ch_fwd h) (ch_send h) q of
             Inl e \<Rightarrow> (Inl e, h # hs')
           | Inr w \<Rightarrow> (Inr w, h\<lparr>ch_send := ch_send h + 1\<rparr> # hs')))"

fun open_hops :: "crypto \<Rightarrow> circuit_hop list \<Rightarrow> bytes \<Rightarrow> bytes result \<times> circuit_hop list" where
  "open_hops C [] payload = (Inr payload, [])"
| "open_hops C (h # hs) payload =
     (case open_circuit_layer C (ch_rev h) (ch_recv h) payload of
        Inl e \<Rightarrow> (Inl e, h # hs)
      | Inr q \<Rightarrow> (case open_hops C hs q of (r, hs') \<Rightarrow> (r, h\<lparr>ch_recv := ch_recv h + 1\<rparr> # hs')))"

definition close_local :: "env \<Rightarrow> bool \<Rightarrow> nat \<Rightarrow> 'a circuit_node_scheme \<Rightarrow> 'a circuit_node_scheme" where
  "close_local E send i n =
     (let cc = cs_all_clients n ! i in
      if cc_done cc then n
      else let n1 = (if send then snd (peer_send_circuit E (cc_first cc) (cell_of circuit_destroy (cc_id cc) []) n) else n)
           in set_client i (cc\<lparr>cc_done := True\<rparr>) (n1\<lparr>cs_clients := AList.delete (cc_id cc) (cs_clients n1)\<rparr>))"

definition send_relay ::
  "crypto \<Rightarrow> env \<Rightarrow> nat \<Rightarrow> byte \<Rightarrow> bytes \<Rightarrow> 'a circuit_node_scheme \<Rightarrow> unit result \<times> 'a circuit_node_scheme" where
  "send_relay C E i cmd body n =
     (let cc = cs_all_clients n ! i in
      if cc_hops cc = [] then (Inl ''circuit has no hops'', n)
      else (case seal_hops C (cc_hops cc) (relay_payload cmd body) of
          (Inl e, hs) \<Rightarrow> (Inl e, set_client i (cc\<lparr>cc_hops := hs\<rparr>) n)
        | (Inr w, hs) \<Rightarrow>
            peer_send_circuit E (cc_first cc) (cell_of circuit_relay (cc_id cc) w) (set_client i (cc\<lparr>cc_hops := hs\<rparr>) n)))"

text \<open>A response that does not wait: the channel has 128 places. A sender that waits for a place is the
  last element of the list; of a circuit that is done and has places \<open>handleReverse\<close> takes the former.\<close>

definition offer_response :: "relay_response \<Rightarrow> client_circuit \<Rightarrow> client_circuit" where
  "offer_response r cc = (if length (cc_responses cc) < 128 then cc\<lparr>cc_responses := cc_responses cc @ [r]\<rparr> else cc)"

definition update_client ::
  "nat \<Rightarrow> (client_circuit \<Rightarrow> client_circuit) \<Rightarrow> 'a circuit_node_scheme \<Rightarrow> 'a circuit_node_scheme" where
  "update_client i f n = set_client i (f (cs_all_clients n ! i)) n"

definition handle_reverse ::
  "crypto \<Rightarrow> env \<Rightarrow> nat \<Rightarrow> bytes \<Rightarrow> 'a circuit_node_scheme \<Rightarrow> 'a circuit_node_scheme" where
  "handle_reverse C E i payload n =
     (let cc = cs_all_clients n ! i in
      (case open_hops C (cc_hops cc) payload of
         (Inl e, hs) \<Rightarrow> update_client i (offer_response (Response_error e))
           (close_local E False i (set_client i (cc\<lparr>cc_hops := hs\<rparr>) n))
       | (Inr plain, hs) \<Rightarrow>
           let n1 = set_client i (cc\<lparr>cc_hops := hs\<rparr>) n in
           (case relay_parse plain of
              Inl e \<Rightarrow> update_client i (offer_response (Response_error e)) n1
            | Inr (cmd, body) \<Rightarrow>
                if cc_done cc then n1
                else update_client i (\<lambda>c. c\<lparr>cc_responses := cc_responses c @ [Response cmd body]\<rparr>) n1)))"

text \<open>What wakes the \<open>select\<close> of \<open>wait\<close>: the timer or the context, the end of the circuit, a response.\<close>

datatype waking = Interrupted error | Seen_done | Seen_response

fun take_response :: "byte list \<Rightarrow> relay_response list \<Rightarrow> bytes result option \<times> relay_response list" where
  "take_response cmds [] = (None, [])"
| "take_response cmds (Response_error e # rs) = (Some (Inl e), rs)"
| "take_response cmds (Response cmd body # rs) =
     (if cmd = relay_open_error then (Some (Inl (bytes_string body)), rs)
      else if cmd \<in> set cmds then (Some (Inr body), rs) else take_response cmds rs)"

definition wait_step ::
  "waking \<Rightarrow> byte list \<Rightarrow> nat \<Rightarrow> 'a circuit_node_scheme \<Rightarrow> bytes result option \<times> 'a circuit_node_scheme" where
  "wait_step w cmds i n =
     (let cc = cs_all_clients n ! i in
      (case w of Interrupted e \<Rightarrow> (Some (Inl e), n)
       | Seen_done \<Rightarrow> (if cc_done cc then Some (Inl closed_circuit) else None, n)
       | Seen_response \<Rightarrow> (case take_response cmds (cc_responses cc) of
             (r, rs) \<Rightarrow> (r, set_client i (cc\<lparr>cc_responses := rs\<rparr>) n))))"

subsection \<open>Building a circuit\<close>

text \<open>The loop that draws an identifier; it may draw used ones for ever.\<close>

partial_function (option) fresh_circuit_id ::
  "(uint64 \<times> nat) list \<Rightarrow> (nat \<Rightarrow> 8 barr) \<Rightarrow> nat \<Rightarrow> uint64 option" where
  "fresh_circuit_id clients draws k =
     (if map_of clients (random_circuit_id (draws k)) \<noteq> None then fresh_circuit_id clients draws (k + 1)
      else Some (random_circuit_id (draws k)))"

text \<open>The goroutine that builds: \<open>bd_at\<close> is the position in the path of the hop it waits for.\<close>

record builder =
  bd_circuit :: nat
  bd_path :: "node_id list"
  bd_at :: nat
  bd_private :: bytes
  bd_nonce :: bytes

datatype build = Building builder | Built nat | Failed error

definition fail_build :: "env \<Rightarrow> nat \<Rightarrow> error \<Rightarrow> 'a circuit_node_scheme \<Rightarrow> build \<times> 'a circuit_node_scheme" where
  "fail_build E i e n = (Failed e, close_local E True i n)"

definition build_start ::
  "crypto \<Rightarrow> env \<Rightarrow> draw \<Rightarrow> node_id list \<Rightarrow> 'a circuit_node_scheme \<Rightarrow> (build \<times> 'a circuit_node_scheme) option" where
  "build_start C E R path n =
     (if length path < 2 \<or> path ! 0 \<noteq> nd_self n then Some (Failed ''invalid circuit path'', n)
      else (case map_of (nd_peers n) (path ! 1) of
          None \<Rightarrow> Some (Failed ''first circuit hop is disconnected'', n)
        | Some first \<Rightarrow>
            (case fresh_circuit_id (cs_clients n) (dw_circuits R) 0 of None \<Rightarrow> None
             | Some cid \<Rightarrow>
                 let i = length (cs_all_clients n);
                     cc = \<lparr> cc_id = cid, cc_first = first, cc_path = path, cc_hops = [], cc_responses = [], cc_done = False \<rparr>;
                     n1 = n\<lparr>cs_all_clients := cs_all_clients n @ [cc], cs_clients := AList.update cid i (cs_clients n)\<rparr>
                 in Some (case peer_send_circuit E first
                       (cell_of circuit_create cid (x_public C (dw_private R) @ dw_nonce R)) n1 of
                     (Inl e, n2) \<Rightarrow> fail_build E i e n2
                   | (Inr _, n2) \<Rightarrow> (Building \<lparr> bd_circuit = i, bd_path = path, bd_at = 1,
                         bd_private = dw_private R, bd_nonce = dw_nonce R \<rparr>, n2)))))"

definition add_hop :: "circuit_hop \<Rightarrow> client_circuit \<Rightarrow> client_circuit" where
  "add_hop h cc = cc\<lparr>cc_hops := cc_hops cc @ [h]\<rparr>"

definition extend_body :: "crypto \<Rightarrow> node_id \<Rightarrow> bytes \<Rightarrow> bytes \<Rightarrow> bytes" where
  "extend_body C next private nonce = node_bytes next @ x_public C private @ nonce"

text \<open>The next round of the loop, once a hop has been added: \<open>bd_at\<close> hops are there.\<close>

definition build_next ::
  "crypto \<Rightarrow> env \<Rightarrow> draw \<Rightarrow> builder \<Rightarrow> 'a circuit_node_scheme \<Rightarrow> build \<times> 'a circuit_node_scheme" where
  "build_next C E R b n =
     (let k = bd_at b + 1 in
      if k < length (bd_path b) then
        (case send_relay C E (bd_circuit b) relay_extend (extend_body C (bd_path b ! k) (dw_private R) (dw_nonce R)) n of
           (Inl e, n1) \<Rightarrow> fail_build E (bd_circuit b) e n1
         | (Inr _, n1) \<Rightarrow> (Building (b\<lparr>bd_at := k, bd_private := dw_private R, bd_nonce := dw_nonce R\<rparr>), n1))
      else (Built (bd_circuit b), n))"

definition build_step ::
  "crypto \<Rightarrow> env \<Rightarrow> draw \<Rightarrow> waking \<Rightarrow> builder \<Rightarrow> 'a circuit_node_scheme \<Rightarrow> build \<times> 'a circuit_node_scheme" where
  "build_step C E R w b n =
     (let i = bd_circuit b; k = bd_at b; hop = bd_path b ! k;
          fail = fail_build E i
      in (case wait_step w [if k = 1 then circuit_created else relay_extended] i n of
            (None, n1) \<Rightarrow> (Building b, n1)
          | (Some (Inl e), n1) \<Rightarrow> fail (if k = 1 then e else ''extend to '' @ node_short hop @ '': '' @ e) n1
          | (Some (Inr body), n1) \<Rightarrow>
              if length body \<noteq> 64
              then fail (if k = 1 then ''invalid CREATED payload'' else ''invalid EXTENDED payload'') n1
              else (case derive_circuit_hop C (bd_private b) (take 32 body) (bd_nonce b) (drop 32 body) of
                  Inl e \<Rightarrow> fail e n1
                | Inr (fk, rk) \<Rightarrow>
                    build_next C E R b (update_client i
                      (add_hop \<lparr> ch_id = hop, ch_fwd = fk, ch_rev = rk, ch_send = 0, ch_recv = 0 \<rparr>) n1))))"

subsection \<open>Choosing the path\<close>

definition detour :: "'a node_scheme \<Rightarrow> node_id \<Rightarrow> node_id \<Rightarrow> node_id list option" where
  "detour n dst way =
     (case (compute (nd_self n) (nd_lsas n) way, compute way (nd_lsas n) dst) of
        (Some r1, Some r2) \<Rightarrow>
          let combined = rt_path r1 @ drop 1 (rt_path r2); hops = int (length combined) - 1
          in if distinct combined \<and> hops \<ge> vc_circuit_hops (cf_privacy (nd_cfg n)) \<and>
                hops \<le> rc_max_hops (cf_routing (nd_cfg n)) then Some combined else None
      | _ \<Rightarrow> None)"

definition circuit_path_to :: "node_id \<Rightarrow> 'a node_scheme \<Rightarrow> node_id list result" where
  "circuit_path_to dst n =
     (case nd_routes n dst of None \<Rightarrow> Inl (''no route to '' @ node_string dst)
      | Some shortest \<Rightarrow>
          if int (length (rt_path shortest)) - 1 \<ge> vc_circuit_hops (cf_privacy (nd_cfg n)) then Inr (rt_path shortest)
          else let ways = sort_by node_less (filter (\<lambda>i. i \<noteq> nd_self n \<and> i \<noteq> dst) (map fst (nd_lsas n)))
               in (case List.map_filter (detour n dst) ways of [] \<Rightarrow> Inr (rt_path shortest) | p # _ \<Rightarrow> Inr p))"

subsection \<open>Streams over a circuit\<close>

text \<open>\<open>OpenCircuitStream\<close> up to the first wait: \<open>Inl\<close> is a local connection, \<open>Inr\<close> a circuit being built. When
  the circuit is built \<open>stream_request\<close> asks its last hop for the service and \<open>stream_answer\<close> waits.\<close>

definition open_local_named_service ::
  "crypto \<Rightarrow> draw \<Rightarrow> string \<Rightarrow> 'a node_scheme \<Rightarrow> nat result" where
  "open_local_named_service C R name n =
     (case service_of name n of None \<Rightarrow> Inl (''service '' @ quoted name @ '' not found'')
      | Some s \<Rightarrow>
          if \<not> allowed C s (nd_self n) then Inl ''local node is not allowed to access this service''
          else (case dw_dial R (sc_target s) of Inl e \<Rightarrow> Inl (''service target unavailable: '' @ e) | Inr c \<Rightarrow> Inr c))"

definition stream_start ::
  "crypto \<Rightarrow> env \<Rightarrow> draw \<Rightarrow> node_id \<Rightarrow> string \<Rightarrow> 'a circuit_node_scheme
    \<Rightarrow> ((nat result + build) \<times> 'a circuit_node_scheme) option" where
  "stream_start C E R dst service n =
     (if dst = nd_self n then
        (case internal_service R service (nd_self n) n of
           Some (c, n1) \<Rightarrow> Some (Inl (Inr c), n1)
         | None \<Rightarrow> Some (Inl (open_local_named_service C R service n), n))
      else (case circuit_path_to dst n of Inl e \<Rightarrow> Some (Inl (Inl e), n)
       | Inr path \<Rightarrow> (case build_start C E R path n of None \<Rightarrow> None | Some (b, n1) \<Rightarrow> Some (Inr b, n1))))"

definition service_body :: "string \<Rightarrow> bytes" where
  "service_body service = put_u16 (of_nat (length service)) @ string_bytes service"

definition stream_request ::
  "crypto \<Rightarrow> env \<Rightarrow> nat \<Rightarrow> string \<Rightarrow> 'a circuit_node_scheme \<Rightarrow> unit result \<times> 'a circuit_node_scheme" where
  "stream_request C E i service n =
     (if length service > 65535 then (Inl ''service name too long'', close_local E True i n)
      else (case send_relay C E i relay_open (service_body service) n of
          (Inl e, n1) \<Rightarrow> (Inl e, close_local E True i n1)
        | (Inr _, n1) \<Rightarrow> (Inr (), n1)))"

text \<open>A connection over a circuit. \<open>cn_deadline\<close> is \<open>None\<close> for Go's zero time.\<close>

record circuit_conn =
  cn_circuit :: nat
  cn_buf :: bytes
  cn_deadline :: "time option"
  cn_closed :: bool

definition stream_answer ::
  "env \<Rightarrow> waking \<Rightarrow> nat \<Rightarrow> string \<Rightarrow> node_id \<Rightarrow> 'a circuit_node_scheme
    \<Rightarrow> circuit_conn result option \<times> 'a circuit_node_scheme" where
  "stream_answer E w i service dst n =
     (case wait_step w [relay_open_ok] i n of
        (None, n1) \<Rightarrow> (None, n1)
      | (Some (Inl e), n1) \<Rightarrow> (Some (Inl e), close_local E True i n1)
      | (Some (Inr _), n1) \<Rightarrow>
          (Some (Inr \<lparr> cn_circuit = i, cn_buf = [], cn_deadline = None, cn_closed = False \<rparr>),
           add_event E ''info'' (''opened '' @ show_nat (length (cc_path (cs_all_clients n1 ! i)) - 1)
             @ ''-hop onion circuit to '' @ node_short dst @ ''/'' @ service) n1))"

definition timeout_error :: error where
  "timeout_error = ''i/o timeout''"

definition eof_error :: error where
  "eof_error = ''EOF''"

text \<open>One turn of \<open>Read\<close> into a buffer of \<open>cap\<close> bytes; no result: it waits on.\<close>

fun read_response :: "relay_response list \<Rightarrow> bytes result option \<times> relay_response list" where
  "read_response [] = (None, [])"
| "read_response (Response_error e # rs) = (Some (Inl e), rs)"
| "read_response (Response cmd body # rs) =
     (if cmd = relay_data then (Some (Inr body), rs)
      else if cmd = relay_close then (Some (Inl eof_error), rs)
      else if cmd = relay_open_error then (Some (Inl (bytes_string body)), rs)
      else read_response rs)"

definition conn_read ::
  "env \<Rightarrow> waking \<Rightarrow> nat \<Rightarrow> circuit_conn \<Rightarrow> 'a circuit_node_scheme
    \<Rightarrow> bytes result option \<times> circuit_conn \<times> 'a circuit_node_scheme" where
  "conn_read E w cap c n =
     (if cn_buf c \<noteq> [] then (Some (Inr (take cap (cn_buf c))), c\<lparr>cn_buf := drop cap (cn_buf c)\<rparr>, n)
      else if cn_closed c then (Some (Inl closed_circuit), c, n)
      else if (case cn_deadline c of None \<Rightarrow> False | Some d \<Rightarrow> d - en_now E \<le> 0) then (Some (Inl timeout_error), c, n)
      else let cc = cs_all_clients n ! cn_circuit c in
        (case w of Interrupted e \<Rightarrow> (if cn_deadline c \<noteq> None then Some (Inl timeout_error) else None, c, n)
         | Seen_done \<Rightarrow> (if cc_done cc then Some (Inl eof_error) else None, c, n)
         | Seen_response \<Rightarrow>
             (case read_response (cc_responses cc) of
                (r, rs) \<Rightarrow>
                  let n1 = set_client (cn_circuit c) (cc\<lparr>cc_responses := rs\<rparr>) n
                  in (case r of
                        Some (Inr body) \<Rightarrow> (Some (Inr (take cap body)), c\<lparr>cn_buf := cn_buf c @ drop cap body\<rparr>, n1)
                      | _ \<Rightarrow> (r, c, n1)))))"

definition max_chunk :: nat where
  "max_chunk = 24 * 1024"

function write_chunks ::
  "crypto \<Rightarrow> env \<Rightarrow> nat \<Rightarrow> nat \<Rightarrow> bytes \<Rightarrow> 'a circuit_node_scheme \<Rightarrow> nat \<times> error option \<times> 'a circuit_node_scheme" where
  "write_chunks C E i sofar p n =
     (if p = [] then (sofar, None, n)
      else let k = min (length p) max_chunk in
        (case send_relay C E i relay_data (take k p) n of
           (Inl e, n1) \<Rightarrow> (sofar, Some e, n1)
         | (Inr _, n1) \<Rightarrow> write_chunks C E i (sofar + k) (drop k p) n1))"
  by pat_completeness auto

termination
  by (relation "measure (\<lambda>(C, E, i, sofar, p, n). length p)") (auto simp: max_chunk_def)

declare write_chunks.simps [simp del]

definition conn_write ::
  "crypto \<Rightarrow> env \<Rightarrow> circuit_conn \<Rightarrow> bytes \<Rightarrow> 'a circuit_node_scheme \<Rightarrow> nat \<times> error option \<times> 'a circuit_node_scheme" where
  "conn_write C E c p n =
     (if cn_closed c then (0, Some closed_circuit, n)
      else if (case cn_deadline c of None \<Rightarrow> False | Some d \<Rightarrow> en_now E > d) then (0, Some timeout_error, n)
      else write_chunks C E (cn_circuit c) 0 p n)"

definition conn_close ::
  "crypto \<Rightarrow> env \<Rightarrow> circuit_conn \<Rightarrow> 'a circuit_node_scheme \<Rightarrow> circuit_conn \<times> 'a circuit_node_scheme" where
  "conn_close C E c n =
     (if cn_closed c then (c, n)
      else (c\<lparr>cn_closed := True\<rparr>,
            close_local E True (cn_circuit c) (snd (send_relay C E (cn_circuit c) relay_close [] n))))"

definition set_deadline :: "time option \<Rightarrow> circuit_conn \<Rightarrow> circuit_conn" where
  "set_deadline t c = c\<lparr>cn_deadline := t\<rparr>"

subsection \<open>Cells\<close>

definition destroy_circuit :: "env \<Rightarrow> circuit_key \<Rightarrow> 'a circuit_node_scheme \<Rightarrow> 'a circuit_node_scheme" where
  "destroy_circuit E key n =
     (case (case map_of (cs_relay_in n) key of None \<Rightarrow> map_of (cs_relay_out n) key | Some i \<Rightarrow> Some i) of
        Some i \<Rightarrow> close_relay E i n
      | None \<Rightarrow> (case map_of (cs_clients n) (snd key) of None \<Rightarrow> n | Some i \<Rightarrow> close_local E False i n))"

text \<open>The client circuit a cell of this peer belongs to.\<close>

definition client_of :: "peer \<Rightarrow> uint64 \<Rightarrow> 'a circuit_node_scheme \<Rightarrow> nat option" where
  "client_of p cid n =
     (case map_of (cs_clients n) cid of None \<Rightarrow> None
      | Some i \<Rightarrow> if pr_id (cc_first (cs_all_clients n ! i)) = pr_id p then Some i else None)"

definition answer_extend :: "nat \<Rightarrow> bytes \<Rightarrow> 'a circuit_node_scheme \<Rightarrow> 'a circuit_node_scheme" where
  "answer_extend x payload n =
     (let ex = cs_extends n ! x in
      if ex_result ex = None then n\<lparr>cs_extends := (cs_extends n)[x := ex\<lparr>ex_result := Some payload\<rparr>]\<rparr> else n)"

definition handle_circuit_cell ::
  "crypto \<Rightarrow> env \<Rightarrow> draw \<Rightarrow> peer \<Rightarrow> circuit_cell \<Rightarrow> 'a circuit_node_scheme \<Rightarrow> 'a circuit_node_scheme" where
  "handle_circuit_cell C E R p cell n =
     (let key = (pr_id p, c_circuit_id cell); payload = c_payload cell; kind = c_kind cell in
      if kind = circuit_create then handle_create C E R p cell n
      else if kind = circuit_created then
        (case map_of (cs_pending n) key of Some x \<Rightarrow> answer_extend x payload n
         | None \<Rightarrow> (case client_of p (c_circuit_id cell) n of None \<Rightarrow> n
            | Some i \<Rightarrow> update_client i (offer_response (Response circuit_created payload)) n))
      else if kind = circuit_relay then
        (case map_of (cs_relay_in n) key of Some i \<Rightarrow> handle_forward_cell C E R i payload n
         | None \<Rightarrow>
           (case map_of (cs_relay_out n) key of Some i \<Rightarrow> handle_reverse_cell C E i payload n
            | None \<Rightarrow> (case client_of p (c_circuit_id cell) n of None \<Rightarrow> n
               | Some i \<Rightarrow> handle_reverse C E i payload n)))
      else if kind = circuit_destroy then destroy_circuit E key n
      else n)"

definition close_circuits :: "env \<Rightarrow> 'a circuit_node_scheme \<Rightarrow> 'a circuit_node_scheme" where
  "close_circuits E n =
     fold (close_relay E) (map snd (cs_relay_in n)) (fold (close_local E True) (map snd (cs_clients n)) n)"

end
