(* ===== verification/Circuit_Inv.thy ===== *)
theory Circuit_Inv
  imports Circuit
begin

section \<open>Invariants of the circuit tables\<close>

text \<open>
  What the handlers of \<open>circuit.go\<close> keep: the circuits that are registered are exactly the ones that are
  open, each under its own key; waiting \<open>EXTEND\<close>s are running; \<open>relayOut\<close> refers to relayed circuits extended over
  its link; all keys have 32 bytes. No handler touches
  the tables of \<open>node.go\<close>. The reachable states of the circuit tables are those of \<open>circuit_step\<close>.
\<close>

subsection \<open>What the handlers leave alone\<close>

lemma peer_send_more [simp]: "node.more (snd (peer_send E p kd payload n)) = node.more n"
  by (simp add: peer_send_def split: sum.split option.split)

lemma peer_send_circuit_more [simp]: "node.more (snd (peer_send_circuit E p cell n)) = node.more n"
  by (simp add: peer_send_circuit_def split: sum.split)

lemma cs_of_more:
  fixes n m :: "'a circuit_node_scheme"
  assumes "node.more n = node.more m"
  shows "cs_relays n = cs_relays m" "cs_relay_in n = cs_relay_in m" "cs_relay_out n = cs_relay_out m"
    "cs_all_clients n = cs_all_clients m" "cs_clients n = cs_clients m" "cs_extends n = cs_extends m"
    "cs_pending n = cs_pending m" "cs_app_out n = cs_app_out m" "cs_app_closed n = cs_app_closed m"
    "cs_internal n = cs_internal m"
  using assms by (cases n; cases m; simp)+

lemmas cs_send [simp] = cs_of_more [OF peer_send_circuit_more]

lemma cs_event [simp]:
  "cs_relays (add_event E lv msg n) = cs_relays n" "cs_relay_in (add_event E lv msg n) = cs_relay_in n"
  "cs_relay_out (add_event E lv msg n) = cs_relay_out n" "cs_all_clients (add_event E lv msg n) = cs_all_clients n"
  "cs_clients (add_event E lv msg n) = cs_clients n" "cs_extends (add_event E lv msg n) = cs_extends n"
  "cs_pending (add_event E lv msg n) = cs_pending n"
  by (simp_all add: add_event_def)

lemma circuit_more_of_more:
  fixes m n :: "'a circuit_node_scheme"
  shows "node.more m = node.more n \<Longrightarrow> circuit_node.more m = circuit_node.more n"
  by (cases m; cases n) simp

text \<open>The tables of the node, its events and what extends a circuit node are those of another state.\<close>

definition same_node :: "'a circuit_node_scheme \<Rightarrow> 'a circuit_node_scheme \<Rightarrow> bool" where
  "same_node n m \<longleftrightarrow> same_tables n m \<and> nd_events n = nd_events m \<and> circuit_node.more n = circuit_node.more m"

lemma same_node_refl [simp, intro]: "same_node n n"
  by (simp add: same_node_def)

lemma same_node_trans: "same_node a b \<Longrightarrow> same_node b c \<Longrightarrow> same_node a c"
  by (auto simp: same_node_def intro: same_tables_trans)

lemma same_node_send: "same_node (snd (peer_send_circuit E p cell n)) n"
  using circuit_more_of_more [OF peer_send_circuit_more [of E p cell n]]
  by (simp add: same_node_def peer_send_circuit_def events_steps split: sum.split)

lemma same_node_set:
  "same_node (set_relay i rc n) n" "same_node (set_client i cc n) n" "same_node (close_app a n) n"
  "same_node (n\<lparr>cs_relay_in := t\<rparr>) n" "same_node (n\<lparr>cs_relay_out := t\<rparr>) n" "same_node (n\<lparr>cs_clients := u\<rparr>) n"
  "same_node (n\<lparr>cs_extends := x\<rparr>) n" "same_node (n\<lparr>cs_pending := t\<rparr>) n" "same_node (n\<lparr>cs_app_out := o'\<rparr>) n"
  "same_node (n\<lparr>cs_relay_in := t, cs_relays := r\<rparr>) n" "same_node (n\<lparr>cs_pending := t, cs_extends := x\<rparr>) n"
  "same_node (n\<lparr>cs_all_clients := cl, cs_clients := u\<rparr>) n" "same_node (n\<lparr>cs_internal := s\<rparr>) n"
  by (simp_all add: same_node_def same_tables_def set_relay_def set_client_def close_app_def split: option.split)

text \<open>To show that an operation leaves the node alone: peel its last step.\<close>

lemma same_node_after:
  "same_node m n \<Longrightarrow> same_node (snd (peer_send_circuit E p cell m)) n"
  "same_node m n \<Longrightarrow> same_node (set_relay i rc m) n" "same_node m n \<Longrightarrow> same_node (set_client i cc m) n"
  "same_node m n \<Longrightarrow> same_node (close_app a m) n"
  "same_node m n \<Longrightarrow> same_node (m\<lparr>cs_relay_in := t\<rparr>) n" "same_node m n \<Longrightarrow> same_node (m\<lparr>cs_relay_out := t\<rparr>) n"
  "same_node m n \<Longrightarrow> same_node (m\<lparr>cs_clients := u\<rparr>) n" "same_node m n \<Longrightarrow> same_node (m\<lparr>cs_pending := t\<rparr>) n"
  "same_node m n \<Longrightarrow> same_node (m\<lparr>cs_pending := t, cs_extends := x\<rparr>) n"
  "same_node m n \<Longrightarrow> same_node (m\<lparr>cs_relay_in := t, cs_relays := r\<rparr>) n"
  "same_node m n \<Longrightarrow> same_node (m\<lparr>cs_all_clients := cl, cs_clients := u\<rparr>) n"
  "same_node m n \<Longrightarrow> same_node (m\<lparr>cs_app_out := o'\<rparr>) n" "same_node m n \<Longrightarrow> same_node (m\<lparr>cs_extends := x\<rparr>) n"
  "same_node m n \<Longrightarrow> same_node (m\<lparr>cs_internal := s\<rparr>) n"
  by (rule same_node_trans, rule same_node_send same_node_set, assumption)+

lemma close_relay_same: "same_node (close_relay E i n) n"
  by (auto simp: close_relay_def Let_def intro!: same_node_after split: option.split)

lemma send_relay_reverse_same: "same_node (snd (send_relay_reverse C E i cmd body n)) n"
  by (auto simp: send_relay_reverse_def Let_def intro!: same_node_after split: prod.split sum.split)

lemma open_error_same: "same_node (open_error C E i text n) n"
  by (simp add: open_error_def send_relay_reverse_same)

lemma handle_reverse_cell_same: "same_node (handle_reverse_cell C E i payload n) n"
  by (auto simp: handle_reverse_cell_def Let_def intro!: same_node_after same_node_trans [OF close_relay_same]
      split: prod.split sum.split)

lemma handle_create_same: "same_node (handle_create C E R p cell n) n"
  by (auto simp: handle_create_def Let_def intro!: same_node_after split: sum.split)

lemma same_node_result: "g n = (r, m) \<Longrightarrow> same_node (snd (g n)) n \<Longrightarrow> same_node m n"
  by simp

lemma same_node_extends:
  "same_node (start_extend i p cid n) n" "same_node (stop_extend x n) n"
  "same_node m n \<Longrightarrow> same_node (start_extend i p cid m) n" "same_node m n \<Longrightarrow> same_node (stop_extend x m) n"
  by (simp_all add: start_extend_def stop_extend_def Let_def same_node_set same_node_after)

lemma extend_circuit_same: "same_node (extend_circuit C E R i body n) n"
  by (auto simp: extend_circuit_def Let_def split: option.split sum.split prod.split
      dest!: same_node_result [where g = "peer_send_circuit E p cell" for p cell, OF _ same_node_send]
      intro: open_error_same same_node_trans [OF open_error_same] same_node_trans [OF _ same_node_extends(1)]
        same_node_trans [OF open_error_same same_node_extends(4)] same_node_trans [OF open_error_same same_node_extends(4) [OF same_node_trans [OF _ same_node_extends(1)]]])

lemma internal_service_same: "internal_service R name source n = Some (c, m) \<Longrightarrow> same_node m n"
  by (auto simp: internal_service_def same_node_set split: if_splits)

lemma anonymous_target_same: "anonymous_target R name n = (r, m) \<Longrightarrow> same_node m n"
  by (auto simp: anonymous_target_def split: option.splits if_splits dest: internal_service_same)

lemma open_circuit_target_same: "same_node (open_circuit_target C E R i body n) n"
  by (auto simp: open_circuit_target_def Let_def split: prod.split sum.split
      dest!: anonymous_target_same same_node_result [where g = "send_relay_reverse C E i cmd b" for cmd b, OF _ send_relay_reverse_same]
      intro: same_node_trans [OF open_error_same] same_node_trans [OF close_relay_same]
        same_node_trans same_node_trans [OF _ same_node_trans [OF same_node_set(1)]] same_node_after)

lemma handle_forward_cell_same: "same_node (handle_forward_cell C E R i payload n) n"
  unfolding handle_forward_cell_def Let_def
  by (auto split: prod.split sum.split option.split
      intro: close_relay_same same_node_after same_node_trans [OF close_relay_same]
        same_node_trans [OF extend_circuit_same] same_node_trans [OF open_circuit_target_same])

lemma extend_done_same: "same_node (extend_done C E x failed n) n"
  by (auto simp: extend_done_def Let_def split: option.split
      intro!: same_node_trans [OF open_error_same] same_node_trans [OF send_relay_reverse_same] same_node_after same_node_extends)

lemma app_read_same: "same_node (app_read C E i chunk failed n) n"
  by (auto simp: app_read_def split: prod.split sum.split if_splits
      dest!: same_node_result [where g = "send_relay_reverse C E i cmd b" for cmd b, OF _ send_relay_reverse_same]
      intro: same_node_trans [OF close_relay_same] same_node_trans [OF send_relay_reverse_same]
        same_node_trans [OF close_relay_same same_node_trans [OF send_relay_reverse_same]])

lemma close_local_same: "same_node (close_local E send i n) n"
  by (auto simp: close_local_def Let_def intro!: same_node_after)

lemma send_relay_same: "same_node (snd (send_relay C E i cmd body n)) n"
  by (auto simp: send_relay_def Let_def split: prod.split sum.split intro!: same_node_after)

lemma update_client_same: "same_node m n \<Longrightarrow> same_node (update_client i f m) n"
  by (simp add: update_client_def same_node_after)

lemma handle_reverse_same: "same_node (handle_reverse C E i payload n) n"
  by (auto simp: handle_reverse_def Let_def split: prod.split sum.split
      intro!: update_client_same same_node_trans [OF close_local_same] same_node_after)

lemma wait_step_same: "same_node (snd (wait_step w cmds i n)) n"
  by (auto simp: wait_step_def Let_def split: waking.split prod.split intro!: same_node_after)

lemma answer_extend_same: "same_node (answer_extend x payload n) n"
  by (auto simp: answer_extend_def Let_def intro!: same_node_after)

lemma destroy_circuit_same: "same_node (destroy_circuit E key n) n"
  by (auto simp: destroy_circuit_def close_relay_same close_local_same split: option.split)

lemma handle_circuit_cell_same: "same_node (handle_circuit_cell C E R p cell n) n"
  unfolding handle_circuit_cell_def Let_def
  by (auto split: option.split intro: handle_create_same answer_extend_same update_client_same handle_forward_cell_same
      handle_reverse_cell_same handle_reverse_same destroy_circuit_same)

lemma build_next_same: "same_node (snd (build_next C E R b n)) n"
  by (auto simp: build_next_def fail_build_def Let_def split: prod.split sum.split
      dest!: same_node_result [where g = "send_relay C E i cmd b" for i cmd b, OF _ send_relay_same]
      intro: same_node_trans [OF close_local_same])

lemma build_step_same: "same_node (snd (build_step C E R w b n)) n"
  unfolding build_step_def Let_def fail_build_def
  by (auto split: prod.split sum.split option.split
      dest!: same_node_result [where g = "wait_step w cmds i" for cmds i, OF _ wait_step_same]
      intro: same_node_trans [OF close_local_same] same_node_trans [OF build_next_same] update_client_same)

lemma build_start_same: "build_start C E R path n = Some (b, m) \<Longrightarrow> same_node m n"
  by (auto simp: build_start_def fail_build_def Let_def split: if_splits option.splits prod.splits sum.splits
      dest!: same_node_result [where g = "peer_send_circuit E p cell" for p cell, OF _ same_node_send]
      intro: same_node_trans [OF close_local_same] same_node_trans [OF _ same_node_set(12)]
        same_node_trans [OF close_local_same same_node_trans [OF _ same_node_set(12)]])

lemma close_circuits_same: "same_node (close_circuits E n) n"
proof -
  have fold: "same_node (fold f xs m) m" if "\<And>x m. same_node (f x m) m" for f xs and m :: "'a circuit_node_scheme"
    by (induction xs arbitrary: m) (auto intro: same_node_trans that)
  show ?thesis
    unfolding close_circuits_def
    by (rule same_node_trans) (rule fold, rule close_relay_same close_local_same)+
qed

lemma node_ok_same_node: "same_node m n \<Longrightarrow> node_ok n \<Longrightarrow> node_ok m"
  by (rule node_ok_same) (auto simp: same_node_def node_ok_def)

text \<open>A node whose packets for itself are handled soundly stays sound when its circuits are, too.\<close>

lemma frames_with_circuits:
  assumes "\<And>pkt m. node_ok m \<Longrightarrow> node_ok (local pkt m)" "node_ok n"
  shows "node_ok (handle_frame C E local (handle_circuit_cell C E R) p kd payload n)"
  by (rule handle_frame_ok [OF _ node_ok_same_node [OF handle_circuit_cell_same]]) (use assms in auto)


subsection \<open>Open circuits are the registered ones\<close>

definition relay_key :: "relay_circuit \<Rightarrow> circuit_key" where
  "relay_key rc = (pr_id (rc_incoming rc), rc_in rc)"

definition good_relay :: "relay_circuit \<Rightarrow> bool" where
  "good_relay rc \<longleftrightarrow> length (rc_fwd rc) = 32 \<and> length (rc_rev rc) = 32"

definition good_hop :: "circuit_hop \<Rightarrow> bool" where
  "good_hop h \<longleftrightarrow> length (ch_fwd h) = 32 \<and> length (ch_rev h) = 32"

text \<open>A table of positions: the entries are the objects that are not closed, each under its key.\<close>

definition registered :: "('c \<Rightarrow> bool) \<Rightarrow> ('c \<Rightarrow> 'k) \<Rightarrow> 'c list \<Rightarrow> ('k \<times> nat) list \<Rightarrow> bool" where
  "registered shut key objs tab \<longleftrightarrow> distinct (map fst tab) \<and>
     (\<forall>k i. map_of tab k = Some i \<longleftrightarrow> i < length objs \<and> \<not> shut (objs ! i) \<and> key (objs ! i) = k)"

lemma registered_Nil [simp]: "registered shut key [] []"
  by (simp add: registered_def)

lemma registeredD:
  "registered shut key objs tab \<Longrightarrow> map_of tab k = Some i \<Longrightarrow> i < length objs \<and> \<not> shut (objs ! i) \<and> key (objs ! i) = k"
  by (simp add: registered_def)

lemma registered_member:
  "registered shut key objs tab \<Longrightarrow> (k, i) \<in> set tab \<Longrightarrow> i < length objs"
  by (metis map_of_eq_Some_iff registered_def)

lemma registered_set:
  assumes "registered shut key objs tab" "shut x = shut (objs ! i)" "key x = key (objs ! i)"
  shows "registered shut key (objs[i := x]) tab"
proof (cases "i < length objs")
  case True
  have "\<not> shut (objs[i := x] ! j) \<and> key (objs[i := x] ! j) = k \<longleftrightarrow> \<not> shut (objs ! j) \<and> key (objs ! j) = k"
    if "j < length objs" for j k
    using that assms True by (cases "i = j") auto
  with assms(1) show ?thesis by (auto simp: registered_def)
qed (use assms(1) in \<open>simp add: list_update_beyond\<close>)

lemma registered_close:
  assumes "registered shut key objs tab" "i < length objs" "\<not> shut (objs ! i)" "shut x"
  shows "registered shut key (objs[i := x]) (AList.delete (key (objs ! i)) tab)"
proof -
  have d: "distinct (map fst tab)" and r: "map_of tab k = Some j \<longleftrightarrow> j < length objs \<and> \<not> shut (objs ! j) \<and> key (objs ! j) = k" for j k
    using assms(1) by (simp_all add: registered_def)
  have "map_of (AList.delete (key (objs ! i)) tab) k = Some j \<longleftrightarrow>
      j < length objs \<and> \<not> shut (objs[i := x] ! j) \<and> key (objs[i := x] ! j) = k" for j k
  proof (cases "i = j")
    case True
    have "map_of tab (key (objs ! i)) = Some i" using r assms by blast
    then show ?thesis
      using True assms r [of k j] by (auto simp: delete_conv')
  next
    case False
    moreover have "key (objs ! j) \<noteq> key (objs ! i)" if "j < length objs" "\<not> shut (objs ! j)"
      using that r [of "key (objs ! i)" j] r [of "key (objs ! i)" i] assms False by auto
    ultimately show ?thesis using r [of k j] by (auto simp: delete_conv')
  qed
  then show ?thesis using d by (simp add: registered_def distinct_delete)
qed

lemma registered_add:
  assumes "registered shut key objs tab" "map_of tab (key x) = None" "\<not> shut x"
  shows "registered shut key (objs @ [x]) (AList.update (key x) (length objs) tab)"
proof -
  have "map_of (AList.update (key x) (length objs) tab) k = Some j \<longleftrightarrow>
      j < length (objs @ [x]) \<and> \<not> shut ((objs @ [x]) ! j) \<and> key ((objs @ [x]) ! j) = k" for j k
  proof (cases "j = length objs")
    case True
    then show ?thesis using assms by (auto simp: registered_def update_conv')
  next
    case False
    then show ?thesis using assms by (auto simp: registered_def update_conv' nth_append)
  qed
  then show ?thesis using assms(1) by (simp add: registered_def distinct_update)
qed

definition extend_ok :: "nat \<Rightarrow> (circuit_key \<times> nat) list \<Rightarrow> extend list \<Rightarrow> bool" where
  "extend_ok relays pending xs \<longleftrightarrow> distinct (map fst pending) \<and> (\<forall>x \<in> set xs. ex_relay x < relays) \<and>
     (\<forall>(k, i) \<in> set pending. i < length xs \<and> ex_running (xs ! i) \<and> k = (pr_id (ex_peer (xs ! i)), ex_id (xs ! i)))"

text \<open>The entries of \<open>relayOut\<close>: each key is the link of an \<open>EXTEND\<close> of the circuit it refers to.\<close>

definition extend_link :: "extend \<Rightarrow> nat \<times> circuit_key" where
  "extend_link x = (ex_relay x, (pr_id (ex_peer x), ex_id x))"

definition out_ok :: "nat \<Rightarrow> (circuit_key \<times> nat) list \<Rightarrow> extend list \<Rightarrow> bool" where
  "out_ok relays out xs \<longleftrightarrow> distinct (map fst out) \<and>
     (\<forall>(k, i) \<in> set out. i < relays \<and> (i, k) \<in> set (map extend_link xs))"

lemma out_ok_Nil [simp]: "out_ok r [] xs"
  by (simp add: out_ok_def)

lemma out_ok_more: "out_ok r out xs \<Longrightarrow> r \<le> s \<Longrightarrow> out_ok s out xs"
  by (fastforce simp: out_ok_def)

lemma out_ok_append: "out_ok r out xs \<Longrightarrow> out_ok r out (xs @ ys)"
  by (fastforce simp: out_ok_def)

lemma out_ok_delete: "out_ok r out xs \<Longrightarrow> out_ok r (AList.delete k out) xs"
  by (simp add: out_ok_def distinct_delete) (auto simp: AList.delete_eq)

lemma out_ok_update:
  "out_ok r out xs \<Longrightarrow> i < r \<Longrightarrow> (i, k) \<in> set (map extend_link xs) \<Longrightarrow> out_ok r (AList.update k i out) xs"
  using set_update_subset [of k i out] by (fastforce simp: out_ok_def distinct_update)

lemma out_ok_same_link:
  assumes "out_ok r out xs" "extend_link y = extend_link (xs ! x)"
  shows "out_ok r out (xs[x := y])"
proof -
  have "map extend_link (xs[x := y]) = map extend_link xs"
    using assms(2) by (cases "x < length xs") (simp_all add: map_update list_update_same_conv list_update_beyond)
  then show ?thesis using assms(1) by (simp add: out_ok_def del: set_map)
qed

lemma extend_link_simps [simp]:
  "extend_link (x\<lparr>ex_running := b\<rparr>) = extend_link x" "extend_link (x\<lparr>ex_result := r\<rparr>) = extend_link x"
  by (simp_all add: extend_link_def)

definition relays_ok :: "'a circuit_node_scheme \<Rightarrow> bool" where
  "relays_ok n \<longleftrightarrow> registered rc_closed relay_key (cs_relays n) (cs_relay_in n) \<and>
     out_ok (length (cs_relays n)) (cs_relay_out n) (cs_extends n) \<and> (\<forall>rc \<in> set (cs_relays n). good_relay rc) \<and>
     extend_ok (length (cs_relays n)) (cs_pending n) (cs_extends n)"

definition clients_ok :: "'a circuit_node_scheme \<Rightarrow> bool" where
  "clients_ok n \<longleftrightarrow> registered cc_done cc_id (cs_all_clients n) (cs_clients n) \<and>
     (\<forall>cc \<in> set (cs_all_clients n). \<forall>h \<in> set (cc_hops cc). good_hop h)"

definition circuits_ok :: "'a circuit_node_scheme \<Rightarrow> bool" where
  "circuits_ok n \<longleftrightarrow> relays_ok n \<and> clients_ok n"

lemma circuits_ok_more:
  "node.more m = node.more n \<Longrightarrow> circuits_ok m = circuits_ok (n :: 'a circuit_node_scheme)"
  using cs_of_more [of m n] by (simp add: circuits_ok_def relays_ok_def clients_ok_def)

lemma set_relay_simps [simp]:
  "cs_relays (set_relay i rc n) = (cs_relays n)[i := rc]" "cs_relay_in (set_relay i rc n) = cs_relay_in n"
  "cs_relay_out (set_relay i rc n) = cs_relay_out n" "cs_all_clients (set_relay i rc n) = cs_all_clients n"
  "cs_clients (set_relay i rc n) = cs_clients n" "cs_extends (set_relay i rc n) = cs_extends n"
  "cs_pending (set_relay i rc n) = cs_pending n"
  by (simp_all add: set_relay_def)

lemma set_client_simps [simp]:
  "cs_relays (set_client i cc n) = cs_relays n" "cs_relay_in (set_client i cc n) = cs_relay_in n"
  "cs_relay_out (set_client i cc n) = cs_relay_out n" "cs_all_clients (set_client i cc n) = (cs_all_clients n)[i := cc]"
  "cs_clients (set_client i cc n) = cs_clients n" "cs_extends (set_client i cc n) = cs_extends n"
  "cs_pending (set_client i cc n) = cs_pending n"
  by (simp_all add: set_client_def)

lemma close_app_simps [simp]:
  "cs_relays (close_app a n) = cs_relays n" "cs_relay_in (close_app a n) = cs_relay_in n"
  "cs_relay_out (close_app a n) = cs_relay_out n" "cs_all_clients (close_app a n) = cs_all_clients n"
  "cs_clients (close_app a n) = cs_clients n" "cs_extends (close_app a n) = cs_extends n"
  "cs_pending (close_app a n) = cs_pending n"
  by (simp_all add: close_app_def split: option.split)

text \<open>The state is sound and the circuit exists.\<close>

definition relay_at :: "nat \<Rightarrow> 'a circuit_node_scheme \<Rightarrow> bool" where
  "relay_at i n \<longleftrightarrow> circuits_ok n \<and> i < length (cs_relays n)"

definition client_at :: "nat \<Rightarrow> 'a circuit_node_scheme \<Rightarrow> bool" where
  "client_at i n \<longleftrightarrow> circuits_ok n \<and> i < length (cs_all_clients n)"

lemma ok_simps [simp]:
  "circuits_ok (snd (peer_send_circuit E p cell n)) = circuits_ok n" "circuits_ok (close_app a n) = circuits_ok n"
  "circuits_ok (n\<lparr>cs_app_out := out\<rparr>) = circuits_ok n" "circuits_ok (n\<lparr>cs_internal := s\<rparr>) = circuits_ok n"
  "circuits_ok (add_event E lv msg n) = circuits_ok n"
  by (simp_all add: circuits_ok_def relays_ok_def clients_ok_def)

lemma at_simps [simp]:
  "relay_at i (snd (peer_send_circuit E p cell n)) = relay_at i n" "relay_at i (close_app a n) = relay_at i n"
  "relay_at i (n\<lparr>cs_app_out := out\<rparr>) = relay_at i n" "relay_at i (n\<lparr>cs_internal := s\<rparr>) = relay_at i n"
  "client_at i (snd (peer_send_circuit E p cell n)) = client_at i n"
  "client_at i (add_event E lv msg n) = client_at i n"
  by (simp_all add: relay_at_def client_at_def)

lemma relay_at_good: "relay_at i n \<Longrightarrow> good_relay (cs_relays n ! i)"
  by (simp add: relay_at_def circuits_ok_def relays_ok_def)

lemma set_relay_at:
  assumes "relay_at i n" "rc_closed rc = rc_closed (cs_relays n ! j)" "relay_key rc = relay_key (cs_relays n ! j)" "good_relay rc"
  shows "relay_at i (set_relay j rc n)"
  using assms set_update_subset_insert [of "cs_relays n" j rc]
  by (auto simp: relay_at_def circuits_ok_def relays_ok_def clients_ok_def intro: registered_set)

lemma wrap_facts:
  "relay_wrap C rc payload = (r, rc') \<Longrightarrow>
    rc_closed rc' = rc_closed rc \<and> relay_key rc' = relay_key rc \<and> good_relay rc' = good_relay rc \<and> rc_incoming rc' = rc_incoming rc"
  by (auto simp: relay_wrap_def relay_key_def good_relay_def)

lemma unwrap_facts:
  "relay_unwrap C rc payload = (r, rc') \<Longrightarrow>
    rc_closed rc' = rc_closed rc \<and> relay_key rc' = relay_key rc \<and> good_relay rc' = good_relay rc \<and> rc_outgoing rc' = rc_outgoing rc"
  by (auto simp: relay_unwrap_def relay_key_def good_relay_def split: sum.splits)

lemma set_wrapped_at:
  "relay_at i n \<Longrightarrow> relay_wrap C (cs_relays n ! i) payload = (r, rc') \<Longrightarrow> relay_at i (set_relay i rc' n)"
  using wrap_facts [of C "cs_relays n ! i" payload r rc'] relay_at_good [of i n] by (auto intro: set_relay_at)

lemma set_unwrapped_at:
  "relay_at i n \<Longrightarrow> relay_unwrap C (cs_relays n ! i) payload = (r, rc') \<Longrightarrow> relay_at i (set_relay i rc' n)"
  using unwrap_facts [of C "cs_relays n ! i" payload r rc'] relay_at_good [of i n] by (auto intro: set_relay_at)

lemma relay_key_simps [simp]:
  "relay_key (rc\<lparr>rc_closed := b\<rparr>) = relay_key rc" "relay_key (rc\<lparr>rc_outgoing := out\<rparr>) = relay_key rc"
  "relay_key (rc\<lparr>rc_app := a\<rparr>) = relay_key rc" "good_relay (rc\<lparr>rc_closed := b\<rparr>) = good_relay rc"
  "good_relay (rc\<lparr>rc_outgoing := out\<rparr>) = good_relay rc" "good_relay (rc\<lparr>rc_app := a\<rparr>) = good_relay rc"
  by (simp_all add: relay_key_def good_relay_def)

lemma close_relay_at:
  assumes "relay_at i n"
  shows "relay_at i (close_relay E i n)"
proof (cases "rc_closed (cs_relays n ! i)")
  case False
  let ?rc = "cs_relays n ! i"
  let ?n2 = "(close_app (rc_app ?rc) (set_relay i (?rc\<lparr>rc_closed := True\<rparr>) n))
      \<lparr>cs_relay_in := AList.delete (relay_key ?rc) (cs_relay_in n)\<rparr>"
  have n2: "relay_at i (?n2\<lparr>cs_relay_out := t\<rparr>)" if "out_ok (length (cs_relays n)) t (cs_extends n)" for t
    using assms False that registered_close [of rc_closed relay_key "cs_relays n" "cs_relay_in n" i "?rc\<lparr>rc_closed := True\<rparr>"]
      set_update_subset_insert [of "cs_relays n" i "?rc\<lparr>rc_closed := True\<rparr>"] relay_at_good [OF assms]
    by (auto simp: relay_at_def circuits_ok_def relays_ok_def clients_ok_def)
  have out: "out_ok (length (cs_relays n)) (cs_relay_out n) (cs_extends n)"
    using assms by (simp add: relay_at_def circuits_ok_def relays_ok_def)
  from n2 [OF out] have "relay_at i ?n2"
    by (simp add: relay_at_def circuits_ok_def relays_ok_def clients_ok_def)
  moreover have "relay_at i (?n2\<lparr>cs_relay_out := AList.delete k (cs_relay_out n)\<rparr>)" for k
    by (rule n2 [OF out_ok_delete [OF out]])
  ultimately show ?thesis
    using False by (simp add: close_relay_def Let_def relay_key_def split: option.split)
qed (use assms in \<open>simp add: close_relay_def\<close>)

lemma send_relay_reverse_at: "relay_at i n \<Longrightarrow> relay_at i (snd (send_relay_reverse C E i cmd body n))"
  by (auto simp: send_relay_reverse_def Let_def split: prod.split sum.split intro: set_wrapped_at)

lemma open_error_at: "relay_at i n \<Longrightarrow> relay_at i (open_error C E i text n)"
  by (simp add: open_error_def send_relay_reverse_at)

lemma handle_reverse_cell_at: "relay_at i n \<Longrightarrow> relay_at i (handle_reverse_cell C E i payload n)"
  by (auto simp: handle_reverse_cell_def Let_def split: prod.split sum.split
      intro: set_wrapped_at close_relay_at)

lemma extend_ok_more: "extend_ok r p xs \<Longrightarrow> r \<le> s \<Longrightarrow> extend_ok s p xs"
  by (fastforce simp: extend_ok_def)

lemma add_relay_ok:
  assumes "circuits_ok n" "map_of (cs_relay_in n) (relay_key rc) = None" "\<not> rc_closed rc" "good_relay rc"
  shows "circuits_ok (n\<lparr>cs_relay_in := AList.update (relay_key rc) (length (cs_relays n)) (cs_relay_in n),
    cs_relays := cs_relays n @ [rc]\<rparr>)"
  using assms registered_add [of rc_closed relay_key "cs_relays n" "cs_relay_in n" rc]
  by (fastforce simp: circuits_ok_def relays_ok_def clients_ok_def intro: extend_ok_more out_ok_more)

lemma handle_create_ok:
  assumes "circuits_ok n"
  shows "circuits_ok (handle_create C E R p cell n)"
proof -
  have "circuits_ok (n\<lparr>cs_relay_in := AList.update (pr_id p, c_circuit_id cell) (length (cs_relays n)) (cs_relay_in n),
      cs_relays := cs_relays n @ [rc]\<rparr>)"
    if "derive_circuit_hop C a b c d = Inr (fk, rk)" "map_of (cs_relay_in n) (pr_id p, c_circuit_id cell) = None"
      "rc = \<lparr>rc_incoming = p, rc_in = c_circuit_id cell, rc_fwd = fk, rc_rev = rk, rc_fwd_seq = 0,
         rc_rev_seq = 0, rc_outgoing = None, rc_app = None, rc_closed = False\<rparr>" for a b c d fk rk rc
    using add_relay_ok [OF assms, of rc] length_circuit_keys [OF that(1)] that(2,3)
    by (simp add: relay_key_def good_relay_def)
  then show ?thesis
    using assms by (auto simp: handle_create_def Let_def split: sum.split)
qed

lemma extend_ok_add:
  assumes "extend_ok r pending xs" "ex_relay x < r" "ex_running x" "k = (pr_id (ex_peer x), ex_id x)"
  shows "extend_ok r (AList.update k (length xs) pending) (xs @ [x])"
  using assms set_update_subset [of k "length xs" pending]
  by (fastforce simp: extend_ok_def distinct_update nth_append)

lemma extend_ok_stop:
  assumes "extend_ok r pending xs" "x < length xs"
  shows "extend_ok r (AList.delete (pr_id (ex_peer (xs ! x)), ex_id (xs ! x)) pending) (xs[x := (xs ! x)\<lparr>ex_running := False\<rparr>])"
proof -
  let ?p = "AList.delete (pr_id (ex_peer (xs ! x)), ex_id (xs ! x)) pending"
  have old: "i < length xs" "ex_running (xs ! i)" "k = (pr_id (ex_peer (xs ! i)), ex_id (xs ! i))" "i \<noteq> x"
    if "(k, i) \<in> set ?p" for k i
    using that assms(1) by (auto simp: extend_ok_def AList.delete_eq)
  have "\<forall>y \<in> set (xs[x := (xs ! x)\<lparr>ex_running := False\<rparr>]). ex_relay y < r"
    using assms set_update_subset_insert [of xs x "(xs ! x)\<lparr>ex_running := False\<rparr>"] by (auto simp: extend_ok_def)
  moreover have "distinct (map fst ?p)" using assms(1) by (simp add: extend_ok_def distinct_delete)
  moreover have "i < length (xs[x := (xs ! x)\<lparr>ex_running := False\<rparr>]) \<and> ex_running (xs[x := (xs ! x)\<lparr>ex_running := False\<rparr>] ! i) \<and>
      k = (pr_id (ex_peer (xs[x := (xs ! x)\<lparr>ex_running := False\<rparr>] ! i)), ex_id (xs[x := (xs ! x)\<lparr>ex_running := False\<rparr>] ! i))"
    if "(k, i) \<in> set ?p" for k i
    using old [OF that] by simp
  ultimately show ?thesis
    unfolding extend_ok_def by blast
qed

lemma extend_at:
  "relay_at i n \<Longrightarrow> relay_at i (start_extend i p cid n)"
  "relay_at i n \<Longrightarrow> x < length (cs_extends n) \<Longrightarrow> relay_at i (stop_extend x n)"
  by (simp_all add: start_extend_def stop_extend_def Let_def relay_at_def circuits_ok_def relays_ok_def clients_ok_def
      extend_ok_add extend_ok_stop out_ok_append out_ok_same_link)

lemma extend_circuit_at:
  assumes "relay_at i n"
  shows "relay_at i (extend_circuit C E R i body n)"
proof -
  have sent: "relay_at i m \<and> length (cs_extends n) < length (cs_extends m)"
    if "peer_send_circuit E p cell (start_extend i p cid n) = (r, m)" for p cell cid r m
  proof -
    have m: "m = snd (peer_send_circuit E p cell (start_extend i p cid n))" using that by simp
    show ?thesis by (simp add: m extend_at(1) assms) (simp add: start_extend_def)
  qed
  show ?thesis
    unfolding extend_circuit_def Let_def
    using assms by (auto split: option.split prod.split sum.split intro!: open_error_at extend_at(2) dest!: sent)
qed

lemma set_outgoing_at:
  assumes "relay_at i n" "(i, k) \<in> set (map extend_link (cs_extends n))"
  shows "relay_at i ((set_relay i ((cs_relays n ! i)\<lparr>rc_outgoing := out\<rparr>) n)\<lparr>cs_relay_out := AList.update k i (cs_relay_out n)\<rparr>)"
proof -
  have "relay_at i (set_relay i ((cs_relays n ! i)\<lparr>rc_outgoing := out\<rparr>) n)"
    by (rule set_relay_at [OF assms(1)]) (use relay_at_good [OF assms(1)] in simp_all)
  then show ?thesis
    using assms(2) by (auto simp: relay_at_def circuits_ok_def relays_ok_def clients_ok_def intro!: out_ok_update)
qed

lemma extend_done_ok:
  assumes "circuits_ok n" "x < length (cs_extends n)"
  shows "circuits_ok (extend_done C E x failed n)"
proof -
  let ?i = "ex_relay (cs_extends n ! x)"
  have i: "relay_at ?i n"
    using assms by (auto simp: relay_at_def circuits_ok_def relays_ok_def extend_ok_def)
  have n1: "relay_at ?i (stop_extend x n)" by (rule extend_at(2) [OF i assms(2)])
  let ?k = "(pr_id (ex_peer (cs_extends n ! x)), ex_id (cs_extends n ! x))"
  have link: "(?i, ?k) \<in> set (map extend_link (cs_extends (stop_extend x n)))"
    using imageI [OF set_update_memI [OF assms(2), of "(cs_extends n ! x)\<lparr>ex_running := False\<rparr>"], of extend_link]
    by (simp add: stop_extend_def Let_def) (simp add: extend_link_def)
  show ?thesis
    using assms(1) n1 open_error_at [OF n1] send_relay_reverse_at [OF set_outgoing_at [OF n1 link]]
    unfolding extend_done_def Let_def set_relay_simps
    by (auto simp: relay_at_def split: option.split)
qed

lemma anonymous_target_at: "anonymous_target R name n = (r, m) \<Longrightarrow> relay_at i n \<Longrightarrow> relay_at i m"
  by (auto simp: anonymous_target_def internal_service_def split: option.splits if_splits)

lemma open_circuit_target_at:
  assumes "relay_at i n"
  shows "relay_at i (open_circuit_target C E R i body n)"
proof -
  have app: "relay_at i (set_relay i ((cs_relays m ! i)\<lparr>rc_app := Some c\<rparr>) m)" if "relay_at i m" for c and m :: "'a circuit_node_scheme"
    by (rule set_relay_at [OF that]) (use relay_at_good [OF that] in simp_all)
  have reply: "relay_at i m'" if "send_relay_reverse C E i cmd b m = (r, m')" "relay_at i m" for cmd b r m' and m :: "'a circuit_node_scheme"
    using send_relay_reverse_at [OF that(2), of C E cmd b] that(1) by simp
  show ?thesis
    using assms
    by (auto simp: open_circuit_target_def Let_def split: prod.split sum.split
        dest!: anonymous_target_at intro!: open_error_at close_relay_at dest: reply [OF _ app])
qed

lemma handle_forward_cell_at:
  assumes "relay_at i n"
  shows "relay_at i (handle_forward_cell C E R i payload n)"
proof (cases "rc_closed (cs_relays n ! i)")
  case False
  obtain r rc' where u: "relay_unwrap C (cs_relays n ! i) payload = (r, rc')" by fastforce
  have "relay_at i (set_relay i rc' n)" by (rule set_unwrapped_at [OF assms u])
  then show ?thesis
    using False u close_relay_at [OF assms] unfolding handle_forward_cell_def Let_def
    by (auto split: sum.split option.split intro: close_relay_at extend_circuit_at open_circuit_target_at)
qed (use assms in \<open>simp add: handle_forward_cell_def\<close>)

lemma app_read_at:
  assumes "relay_at i n"
  shows "relay_at i (app_read C E i chunk failed n)"
proof -
  have "relay_at i (snd (if chunk = [] then (Inr (), n) else send_relay_reverse C E i relay_data chunk n))"
    using assms by (simp add: send_relay_reverse_at)
  then show ?thesis
    unfolding app_read_def
    by (auto split: prod.split sum.split intro!: close_relay_at send_relay_reverse_at)
qed

subsection \<open>The client side\<close>

lemma client_at_hops: "client_at i n \<Longrightarrow> \<forall>h \<in> set (cc_hops (cs_all_clients n ! i)). good_hop h"
  using nth_mem [of i "cs_all_clients n"] by (auto simp: client_at_def circuits_ok_def clients_ok_def)

lemma set_client_at:
  assumes "client_at i n" "cc_done cc = cc_done (cs_all_clients n ! j)" "cc_id cc = cc_id (cs_all_clients n ! j)"
    "\<forall>h \<in> set (cc_hops cc). good_hop h"
  shows "client_at i (set_client j cc n)"
  using assms set_update_subset_insert [of "cs_all_clients n" j cc]
  by (fastforce simp: client_at_def circuits_ok_def relays_ok_def clients_ok_def intro: registered_set)

lemma close_local_at:
  assumes "client_at i n"
  shows "client_at i (close_local E send i n)"
proof (cases "cc_done (cs_all_clients n ! i)")
  case False
  let ?cc = "cs_all_clients n ! i"
  have "client_at i (set_client i (?cc\<lparr>cc_done := True\<rparr>) (m\<lparr>cs_clients := AList.delete (cc_id ?cc) (cs_clients m)\<rparr>))"
    if m: "node.more m = node.more n" for m :: "'a circuit_node_scheme"
    using assms False cs_of_more [OF m] registered_close [of cc_done cc_id "cs_all_clients n" "cs_clients n" i "?cc\<lparr>cc_done := True\<rparr>"]
      set_update_subset_insert [of "cs_all_clients n" i "?cc\<lparr>cc_done := True\<rparr>"] client_at_hops [OF assms]
    by (fastforce simp: client_at_def circuits_ok_def relays_ok_def clients_ok_def)
  then show ?thesis using False by (simp add: close_local_def Let_def)
qed (use assms in \<open>simp add: close_local_def\<close>)

lemma seal_hops_facts:
  "seal_hops C hs p = (r, hs') \<Longrightarrow> \<forall>h \<in> set hs. good_hop h \<Longrightarrow> \<forall>h \<in> set hs'. good_hop h"
proof (induction hs arbitrary: r hs')
  case (Cons h hs)
  obtain r1 hs1 where s: "seal_hops C hs p = (r1, hs1)" by fastforce
  then have "\<forall>h \<in> set hs1. good_hop h" using Cons.IH Cons.prems(2) by simp
  with s Cons.prems show ?case by (auto simp: good_hop_def split: sum.splits)
qed simp

lemma open_hops_facts:
  "open_hops C hs p = (r, hs') \<Longrightarrow> \<forall>h \<in> set hs. good_hop h \<Longrightarrow> \<forall>h \<in> set hs'. good_hop h"
proof (induction hs arbitrary: p r hs')
  case (Cons h hs)
  show ?case
  proof (cases "open_circuit_layer C (ch_rev h) (ch_recv h) p")
    case (Inr q)
    obtain r1 hs1 where s: "open_hops C hs q = (r1, hs1)" by fastforce
    then have "\<forall>h \<in> set hs1. good_hop h" using Cons.IH Cons.prems(2) by simp
    with Inr s Cons.prems show ?thesis by (auto simp: good_hop_def)
  qed (use Cons.prems in auto)
qed simp

lemma set_hops_at:
  "client_at i n \<Longrightarrow> \<forall>h \<in> set hs. good_hop h \<Longrightarrow> client_at i (set_client i ((cs_all_clients n ! i)\<lparr>cc_hops := hs\<rparr>) n)"
  by (rule set_client_at) simp_all

lemma send_relay_at:
  assumes "client_at i n"
  shows "client_at i (snd (send_relay C E i cmd body n))"
  using assms client_at_hops [OF assms]
  by (auto simp: send_relay_def Let_def split: prod.split sum.split intro!: set_hops_at dest: seal_hops_facts)

lemma update_client_at:
  assumes "client_at i n" "\<And>cc. cc_done (f cc) = cc_done cc" "\<And>cc. cc_id (f cc) = cc_id cc"
    "\<forall>h \<in> set (cc_hops (f (cs_all_clients n ! i))). good_hop h"
  shows "client_at i (update_client i f n)"
  using assms unfolding update_client_def by (intro set_client_at)

lemma offer_facts [simp]:
  "cc_done (offer_response r cc) = cc_done cc" "cc_id (offer_response r cc) = cc_id cc"
  "cc_hops (offer_response r cc) = cc_hops cc"
  by (simp_all add: offer_response_def)

lemma offer_at: "client_at i n \<Longrightarrow> client_at i (update_client i (offer_response r) n)"
  by (rule update_client_at) (use client_at_hops [of i n] in simp_all)

lemma handle_reverse_at:
  assumes "client_at i n"
  shows "client_at i (handle_reverse C E i payload n)"
proof -
  obtain r hs where o: "open_hops C (cc_hops (cs_all_clients n ! i)) payload = (r, hs)" by fastforce
  have set: "client_at i (set_client i ((cs_all_clients n ! i)\<lparr>cc_hops := hs\<rparr>) n)"
    by (rule set_hops_at [OF assms open_hops_facts [OF o client_at_hops [OF assms]]])
  then have "client_at i (update_client i (\<lambda>c. c\<lparr>cc_responses := cc_responses c @ [x]\<rparr>)
      (set_client i ((cs_all_clients n ! i)\<lparr>cc_hops := hs\<rparr>) n))" for x
    by (rule update_client_at) (use client_at_hops [OF set] in simp_all)
  with set show ?thesis
    by (auto simp: handle_reverse_def Let_def o split: sum.split prod.split intro!: offer_at close_local_at)
qed

lemma wait_step_at: "client_at i n \<Longrightarrow> client_at i (snd (wait_step w cmds i n))"
  using client_at_hops [of i n]
  by (auto simp: wait_step_def Let_def split: waking.split prod.split intro!: set_client_at)

subsection \<open>Cells and builders\<close>

lemma answer_extend_ok:
  assumes "circuits_ok n"
  shows "circuits_ok (answer_extend x payload n)"
proof -
  have "extend_ok r p (xs[x := (xs ! x)\<lparr>ex_result := y\<rparr>])" if "extend_ok r p xs" for r p xs y
  proof (cases "x < length xs")
    case True
    have "ex_running (xs[x := (xs ! x)\<lparr>ex_result := y\<rparr>] ! i) = ex_running (xs ! i)"
      "ex_peer (xs[x := (xs ! x)\<lparr>ex_result := y\<rparr>] ! i) = ex_peer (xs ! i)"
      "ex_id (xs[x := (xs ! x)\<lparr>ex_result := y\<rparr>] ! i) = ex_id (xs ! i)" for i
      using True by (cases "i = x"; simp)+
    moreover have "\<forall>z \<in> set (xs[x := (xs ! x)\<lparr>ex_result := y\<rparr>]). ex_relay z < r"
      using that True set_update_subset_insert [of xs x "(xs ! x)\<lparr>ex_result := y\<rparr>"] by (auto simp: extend_ok_def)
    ultimately show ?thesis using that by (simp add: extend_ok_def)
  qed (use that in \<open>simp add: list_update_beyond\<close>)
  then show ?thesis
    using assms by (auto simp: answer_extend_def Let_def circuits_ok_def relays_ok_def clients_ok_def intro: out_ok_same_link)
qed

lemma relay_found:
  assumes "circuits_ok n"
  shows "map_of (cs_relay_in n) k = Some i \<Longrightarrow> relay_at i n" "map_of (cs_relay_out n) k = Some i \<Longrightarrow> relay_at i n"
    "map_of (cs_clients n) cid = Some j \<Longrightarrow> client_at j n"
  using assms by (auto simp: relay_at_def client_at_def circuits_ok_def relays_ok_def clients_ok_def out_ok_def
      dest: registered_member dest!: map_of_SomeD)

lemma relay_at_ok: "relay_at i n \<Longrightarrow> circuits_ok n" and client_at_ok: "client_at i n \<Longrightarrow> circuits_ok n"
  by (simp_all add: relay_at_def client_at_def)

lemma destroy_circuit_ok: "circuits_ok n \<Longrightarrow> circuits_ok (destroy_circuit E key n)"
  by (auto simp: destroy_circuit_def split: option.split
      intro: relay_at_ok [OF close_relay_at] client_at_ok [OF close_local_at] relay_found)

lemma client_of_at: "circuits_ok n \<Longrightarrow> client_of p cid n = Some i \<Longrightarrow> client_at i n"
  using relay_found(3) by (auto simp: client_of_def split: option.splits if_splits)

lemma handle_circuit_cell_ok: "circuits_ok n \<Longrightarrow> circuits_ok (handle_circuit_cell C E R p cell n)"
  unfolding handle_circuit_cell_def Let_def
  by (auto split: option.split intro: relay_found client_of_at handle_create_ok answer_extend_ok destroy_circuit_ok
      relay_at_ok [OF handle_forward_cell_at] relay_at_ok [OF handle_reverse_cell_at]
      client_at_ok [OF handle_reverse_at] client_at_ok [OF offer_at])

lemma fresh_circuit_id_unused:
  "fresh_circuit_id clients draws k = Some i \<Longrightarrow> map_of clients i = None"
  by (rule fresh_circuit_id.raw_induct [of "\<lambda>clients draws k i. map_of clients i = None"])
    (auto split: if_splits)

text \<open>The circuit of a build that has not failed.\<close>

fun build_at :: "build \<times> 'a circuit_node_scheme \<Rightarrow> bool" where
  "build_at (Building b, n) \<longleftrightarrow> client_at (bd_circuit b) n"
| "build_at (Built i, n) \<longleftrightarrow> client_at i n"
| "build_at (Failed e, n) \<longleftrightarrow> circuits_ok n"

lemma build_at_ok: "build_at (b, n) \<Longrightarrow> circuits_ok n"
  by (cases b) (auto dest: client_at_ok)

lemma fail_build_at: "client_at i n \<Longrightarrow> build_at (fail_build E i e n)"
  by (simp add: fail_build_def client_at_ok [OF close_local_at])

lemma build_start_at:
  assumes "circuits_ok n" "build_start C E R path n = Some r"
  shows "build_at r"
proof -
  have add: "client_at (length (cs_all_clients n)) (n\<lparr>cs_all_clients := cs_all_clients n @ [cc],
      cs_clients := AList.update (cc_id cc) (length (cs_all_clients n)) (cs_clients n)\<rparr>)"
    if "map_of (cs_clients n) (cc_id cc) = None" "\<not> cc_done cc" "cc_hops cc = []" for cc
    using assms(1) that registered_add [of cc_done cc_id "cs_all_clients n" "cs_clients n" cc]
    by (simp add: client_at_def circuits_ok_def relays_ok_def clients_ok_def)
  have sent: "client_at (length (cs_all_clients n)) m"
    if "peer_send_circuit E first cell (n\<lparr>cs_all_clients := cs_all_clients n @ [cc],
        cs_clients := AList.update cid (length (cs_all_clients n)) (cs_clients n)\<rparr>) = (x, m)"
      "map_of (cs_clients n) cid = None" "cc_id cc = cid" "\<not> cc_done cc" "cc_hops cc = []" for first cell cc x m cid
    using add [of cc] that by (metis at_simps(5) snd_conv)
  show ?thesis
    using assms unfolding build_start_def Let_def
    by (auto split: if_splits option.splits prod.splits sum.splits
        intro!: fail_build_at dest!: sent fresh_circuit_id_unused)
qed

lemma build_next_at: "client_at (bd_circuit b) n \<Longrightarrow> build_at (build_next C E R b n)"
  using send_relay_at [of "bd_circuit b" n C E]
  by (auto simp: build_next_def Let_def split: prod.split sum.split intro!: fail_build_at) (metis snd_conv)+

lemma build_step_at:
  assumes "client_at (bd_circuit b) n"
  shows "build_at (build_step C E R w b n)"
proof -
  let ?i = "bd_circuit b"
  obtain r n1 where w: "wait_step w [if bd_at b = 1 then circuit_created else relay_extended] ?i n = (r, n1)"
    by fastforce
  have n1: "client_at ?i n1" using wait_step_at [OF assms, of w] w by (metis snd_conv)
  have hop: "client_at ?i (update_client ?i (add_hop h) n1)" if "good_hop h" for h
    by (rule update_client_at [OF n1]) (use that client_at_hops [OF n1] in \<open>auto simp: add_hop_def\<close>)
  show ?thesis
    unfolding build_step_def Let_def w
    using n1 by (auto split: option.split sum.split intro!: fail_build_at build_next_at hop
        dest!: length_circuit_keys simp: good_hop_def)
qed

subsection \<open>Streams over circuits\<close>

lemma stream_start_ok: "circuits_ok n \<Longrightarrow> stream_start C E R dst service n = Some (r, m) \<Longrightarrow> circuits_ok m"
  using build_start_at [of n C E R _ "(b, m)" for b]
  by (auto simp: stream_start_def internal_service_def split: if_splits option.splits sum.splits intro: build_at_ok)

lemma stream_request_ok: "client_at i n \<Longrightarrow> client_at i (snd (stream_request C E i service n))"
  using send_relay_at [of i n C E relay_open "service_body service"]
  by (auto simp: stream_request_def close_local_at split: prod.split sum.split)

lemma stream_answer_ok: "client_at i n \<Longrightarrow> client_at i (snd (stream_answer E w i service dst n))"
  using wait_step_at [of i n w "[relay_open_ok]"]
  by (auto simp: stream_answer_def close_local_at split: prod.split option.split sum.split)

lemma conn_read_ok: "client_at (cn_circuit c) n \<Longrightarrow> client_at (cn_circuit c) (snd (snd (conn_read E w cap c n)))"
  using client_at_hops [of "cn_circuit c" n]
  by (auto simp: conn_read_def Let_def split: waking.split prod.split option.split sum.split intro!: set_client_at)

lemma write_chunks_ok: "client_at i n \<Longrightarrow> client_at i (snd (snd (write_chunks C E i sofar p n)))"
proof (induction C E i sofar p n rule: write_chunks.induct)
  case (1 C E i sofar p n)
  show ?case
  proof (cases "p = []")
    case False
    obtain r n1 where s: "send_relay C E i relay_data (take (min (length p) max_chunk) p) n = (r, n1)" by fastforce
    have "client_at i n1" using send_relay_at [OF 1(2), of C E relay_data "take (min (length p) max_chunk) p"] s by simp
    with 1(1) [OF False refl s [symmetric]] False s show ?thesis
      by (subst write_chunks.simps) (auto simp: Let_def split: sum.split)
  qed (use 1(2) in \<open>subst write_chunks.simps, simp\<close>)
qed

lemma conn_write_ok: "client_at (cn_circuit c) n \<Longrightarrow> client_at (cn_circuit c) (snd (snd (conn_write C E c p n)))"
  by (simp add: conn_write_def write_chunks_ok)

lemma conn_close_ok: "client_at (cn_circuit c) n \<Longrightarrow> client_at (cn_circuit c) (snd (conn_close C E c n))"
  by (simp add: conn_close_def close_local_at send_relay_at)

lemma lengths_close [simp]:
  "length (cs_relays (close_relay E i n)) = length (cs_relays n)" "length (cs_relays (close_local E b i n)) = length (cs_relays n)"
  "length (cs_all_clients (close_local E b i n)) = length (cs_all_clients n)"
  by (simp_all add: close_relay_def close_local_def Let_def split: option.split)

lemma close_circuits_ok:
  assumes "circuits_ok n"
  shows "circuits_ok (close_circuits E n)"
proof -
  have clients: "circuits_ok (fold (close_local E True) xs m) \<and>
      length (cs_relays (fold (close_local E True) xs m)) = length (cs_relays m)"
    if "circuits_ok m" "\<forall>i \<in> set xs. i < length (cs_all_clients m)" for xs and m :: "'a circuit_node_scheme"
    using that
  proof (induction xs arbitrary: m)
    case (Cons i xs)
    have "circuits_ok (close_local E True i m)"
      by (rule client_at_ok [OF close_local_at]) (use Cons.prems in \<open>simp add: client_at_def\<close>)
    then show ?case using Cons by simp
  qed simp
  have relays: "circuits_ok (fold (close_relay E) xs m)"
    if "circuits_ok m" "\<forall>i \<in> set xs. i < length (cs_relays m)" for xs and m :: "'a circuit_node_scheme"
    using that
  proof (induction xs arbitrary: m)
    case (Cons i xs)
    have "circuits_ok (close_relay E i m)"
      by (rule relay_at_ok [OF close_relay_at]) (use Cons.prems in \<open>simp add: relay_at_def\<close>)
    then show ?case using Cons by simp
  qed simp
  have "\<forall>i \<in> set (map snd (cs_clients n)). i < length (cs_all_clients n)"
    "\<forall>i \<in> set (map snd (cs_relay_in n)). i < length (cs_relays n)"
    using assms by (auto simp: circuits_ok_def relays_ok_def clients_ok_def dest: registered_member)
  with clients [OF assms] relays show ?thesis by (simp add: close_circuits_def)
qed

end
