(* ===== verification/Directory.thy ===== *)
theory Directory
  imports Circuit_Inv
begin

section \<open>The service directory\<close>

text \<open>
  \<open>internal/overlay/directory.go\<close>: the descriptors a node stores for others, the services it publishes with
  their persistent revision numbers, publication to the replicas closest to the service, and lookups. The
  state of the node is extended by \<open>directoryState\<close>; lookups that run are positions of a list, like circuits,
  and a publication that retries a replica is a step of its own. The file system and its errors are
  those of theory \<open>Identity\<close>.
\<close>

subsection \<open>State\<close>

record published_service =
  ps_cfg :: service_config
  ps_identity :: service_identity
  ps_revision :: uint64
  ps_path :: string
  ps_intros :: "(node_id \<times> nat) list"
  ps_dialing :: "node_id list"

text \<open>A running lookup: what it waits for, its channel of 16 places, and the best descriptor so far
  (\<open>None\<close>: the zero descriptor, whose service is empty).\<close>

record lookup =
  lk_request :: "16 barr"
  lk_sent :: nat
  lk_received :: nat
  lk_best :: "descriptor option"
  lk_answers :: "(bool \<times> descriptor) list"

record dir_node = circuit_node +
  ds_descriptors :: "(service_id \<times> descriptor) list"
  ds_pending :: "(16 barr \<times> nat) list"
  ds_lookups :: "lookup list"
  ds_local :: "(string \<times> published_service) list"
  ds_files :: files

subsection \<open>Revisions\<close>

definition revision_epoch :: "time \<Rightarrow> uint64" where
  "revision_epoch now = push_bit 16 (word_of_int (now div 1000000))"

definition parse_uint :: "string \<Rightarrow> uint64 result" where
  "parse_uint s =
     (case (if s = [] then None else read_nat_acc 0 s) of
        None \<Rightarrow> Inl (''strconv.ParseUint: parsing '' @ quoted s @ '': invalid syntax'')
      | Some v \<Rightarrow> if v < 18446744073709551616 then Inr (of_nat v)
                  else Inl (''strconv.ParseUint: parsing '' @ quoted s @ '': value out of range''))"

definition load_revision :: "io \<Rightarrow> time \<Rightarrow> string \<Rightarrow> files \<Rightarrow> uint64 result" where
  "load_revision io now path fs =
     (case read_file io path fs of
        Inl e \<Rightarrow> if e = not_exist then Inr (revision_epoch now) else Inl e
      | Inr raw \<Rightarrow>
          (case parse_uint (trim_space (bytes_string raw)) of
             Inl e \<Rightarrow> Inl (''parse '' @ path @ '': '' @ e) | Inr v \<Rightarrow> Inr v))"

definition revision_text :: "uint64 \<Rightarrow> string" where
  "revision_text r = show_nat (unat r) @ [CHR 0x0A]"

text \<open>The file operations in their order; the new contents appear with the rename.\<close>

definition save_revision :: "io \<Rightarrow> bool \<Rightarrow> string \<Rightarrow> uint64 \<Rightarrow> files \<Rightarrow> files \<times> unit result" where
  "save_revision io dir_is_dot path r fs =
     (if path = [] then (fs, Inr ())
      else (case List.map_filter io
          ((if dir_is_dot then [] else [''mkdir'']) @ [''create'', ''chmod'', ''write'', ''sync'', ''close'', ''rename'']) of
          e # _ \<Rightarrow> (fs, Inl e)
        | [] \<Rightarrow> (fs(path \<mapsto> string_bytes (revision_text r)), Inr ())))"

definition next_revision ::
  "io \<Rightarrow> bool \<Rightarrow> published_service \<Rightarrow> files \<Rightarrow> published_service \<times> files \<times> uint64 result" where
  "next_revision io dir_is_dot s fs =
     (let r = ps_revision s + 1; s' = s\<lparr>ps_revision := r\<rparr>
      in (case save_revision io dir_is_dot (ps_path s) r fs of
            (fs', Inl e) \<Rightarrow> (s', fs', Inl (''persist descriptor revision: '' @ e))
          | (fs', Inr _) \<Rightarrow> (s', fs', Inr r)))"

subsection \<open>The services of the configuration\<close>

text \<open>\<open>beside\<close> gives the identity file of a service next to the configuration file; \<open>dot\<close> tells which paths
  lie in the directory \<open>.\<close>.\<close>

definition identity_path :: "(string \<Rightarrow> string) \<Rightarrow> config \<Rightarrow> service_config \<Rightarrow> string" where
  "identity_path beside cfg s =
     (if sc_identity_file s = [] \<and> cf_path cfg \<noteq> [] then beside (sc_name s) else sc_identity_file s)"

definition init_service ::
  "crypto \<Rightarrow> io \<Rightarrow> time \<Rightarrow> (string \<Rightarrow> bool) \<Rightarrow> bytes \<Rightarrow> string \<Rightarrow> service_config \<Rightarrow> files
    \<Rightarrow> files \<times> published_service result" where
  "init_service C io now dot fresh_key path s fs =
     (case (if path = [] then (fs, Inr (service_generate C fresh_key))
            else service_load_or_create C io (dot path) fresh_key path fs) of
        (fs', Inl e) \<Rightarrow> (fs', Inl (''service '' @ sc_name s @ '' identity: '' @ e))
      | (fs', Inr i) \<Rightarrow>
          let pub = \<lparr> ps_cfg = s, ps_identity = i, ps_revision = revision_epoch now, ps_path = [], ps_intros = [], ps_dialing = [] \<rparr>
          in if path = [] then (fs', Inr pub)
             else (case load_revision io now (path @ ''.revision'') fs' of
                 Inl e \<Rightarrow> (fs', Inl (''service '' @ sc_name s @ '' descriptor revision: '' @ e))
               | Inr r \<Rightarrow> (fs', Inr (pub\<lparr>ps_path := path @ ''.revision'', ps_revision := r\<rparr>))))"

fun init_services ::
  "crypto \<Rightarrow> io \<Rightarrow> time \<Rightarrow> (string \<Rightarrow> bool) \<Rightarrow> (string \<Rightarrow> string) \<Rightarrow> config \<Rightarrow> (string \<Rightarrow> bytes)
    \<Rightarrow> service_config list \<Rightarrow> (string \<times> published_service) list \<Rightarrow> files
    \<Rightarrow> files \<times> (string \<times> published_service) list result" where
  "init_services C io now dot beside cfg keys [] tab fs = (fs, Inr tab)"
| "init_services C io now dot beside cfg keys (s # ss) tab fs =
     (if \<not> sc_publish s then init_services C io now dot beside cfg keys ss tab fs
      else (case init_service C io now dot (keys (sc_name s)) (identity_path beside cfg s) s fs of
          (fs', Inl e) \<Rightarrow> (fs', Inl e)
        | (fs', Inr pub) \<Rightarrow>
            init_services C io now dot beside cfg keys ss (AList.update (sc_name s) pub tab) fs'))"

definition init_directory ::
  "crypto \<Rightarrow> io \<Rightarrow> time \<Rightarrow> (string \<Rightarrow> bool) \<Rightarrow> (string \<Rightarrow> string) \<Rightarrow> (string \<Rightarrow> bytes) \<Rightarrow> files \<Rightarrow> circuit_node
    \<Rightarrow> files \<times> dir_node result" where
  "init_directory C io now dot beside keys fs n =
     (case init_services C io now dot beside (nd_cfg n) keys (cf_services (nd_cfg n)) [] fs of
        (fs', Inl e) \<Rightarrow> (fs', Inl e)
      | (fs', Inr tab) \<Rightarrow> (fs', Inr (circuit_node.extend n (dir_node.fields [] [] [] tab fs'))))"

definition service_domains :: "crypto \<Rightarrow> 'a dir_node_scheme \<Rightarrow> (string \<times> string) list" where
  "service_domains C n = map (\<lambda>(name, s). (name, service_canonical_domain C (sid_service (ps_identity s)))) (ds_local n)"

subsection \<open>Stored descriptors\<close>

definition store_descriptor :: "crypto \<Rightarrow> env \<Rightarrow> descriptor \<Rightarrow> 'a dir_node_scheme \<Rightarrow> bool \<times> 'a dir_node_scheme" where
  "store_descriptor C E d n =
     (case descriptor_verify C d (en_now E) (nd_network n) of Inl _ \<Rightarrow> (False, n)
      | Inr i \<Rightarrow>
          if (case map_of (ds_descriptors n) i of None \<Rightarrow> False | Some old \<Rightarrow> d_revision old \<ge> d_revision d) then (False, n)
          else (True, n\<lparr>ds_descriptors := AList.update i d (ds_descriptors n)\<rparr>))"

definition clean_descriptors :: "env \<Rightarrow> 'a dir_node_scheme \<Rightarrow> 'a dir_node_scheme" where
  "clean_descriptors E n =
     n\<lparr>ds_descriptors := filter (\<lambda>(i, d). \<not> sint (d_expires d) \<le> sint (unix (en_now E))) (ds_descriptors n)\<rparr>"

definition invalidate_descriptor :: "service_id \<Rightarrow> 'a dir_node_scheme \<Rightarrow> 'a dir_node_scheme" where
  "invalidate_descriptor i n = n\<lparr>ds_descriptors := AList.delete i (ds_descriptors n)\<rparr>"

subsection \<open>Choosing nodes\<close>

text \<open>The keys of \<open>n.routes\<close>: every destination has announced itself.\<close>

definition route_ids :: "'a node_scheme \<Rightarrow> node_id list" where
  "route_ids n = filter (\<lambda>i. nd_routes n i \<noteq> None) (map fst (nd_lsas n))"

fun xor_less_bytes :: "bytes \<Rightarrow> bytes \<Rightarrow> bytes \<Rightarrow> bool" where
  "xor_less_bytes (x # xs) (y # ys) (t # ts) =
     (if x XOR t < y XOR t then True else if x XOR t > y XOR t then False else xor_less_bytes xs ys ts)"
| "xor_less_bytes _ _ _ = False"

definition xor_less :: "service_id \<Rightarrow> node_id \<Rightarrow> node_id \<Rightarrow> bool" where
  "xor_less target a b \<longleftrightarrow> xor_less_bytes (node_bytes a) (node_bytes b) (service_bytes target) \<or>
     (\<not> xor_less_bytes (node_bytes b) (node_bytes a) (service_bytes target) \<and> node_compare a b < 0)"

text \<open>\<open>ids[:count]\<close> panics for a negative count, which \<open>Validate\<close> rules out.\<close>

definition closest_nodes :: "service_id \<Rightarrow> int \<Rightarrow> 'a node_scheme \<Rightarrow> node_id list" where
  "closest_nodes target wanted n = take (nat wanted) (sort_by (xor_less target) (nd_self n # route_ids n))"

definition replicas :: "service_id \<Rightarrow> 'a node_scheme \<Rightarrow> node_id list" where
  "replicas target n = closest_nodes target (yc_replicas (cf_directory (nd_cfg n))) n"

text \<open>\<open>selectIntroductionPoints\<close>, which nothing calls.\<close>

definition select_intros :: "int \<Rightarrow> 'a node_scheme \<Rightarrow> node_id list" where
  "select_intros wanted n =
     (if route_ids n = [] then [nd_self n]
      else take (nat (if wanted \<le> 0 then 3 else wanted)) (sort_by node_less (route_ids n)))"

subsection \<open>Publication\<close>

definition active_intros :: "published_service \<Rightarrow> node_id list" where
  "active_intros s = sort_by node_less (map fst (ps_intros s))"

definition put_service :: "string \<Rightarrow> published_service \<Rightarrow> 'a dir_node_scheme \<Rightarrow> 'a dir_node_scheme" where
  "put_service name s n = n\<lparr>ds_local := AList.update name s (ds_local n)\<rparr>"

text \<open>\<open>ensureIntroductionPoints\<close> of \<open>rendezvous.go\<close>: every entry of \<open>ps_dialing\<close> is a goroutine \<open>maintainIntro\<close>.\<close>

definition intro_score_less :: "service_id \<Rightarrow> node_id \<Rightarrow> node_id \<Rightarrow> bool" where
  "intro_score_less i a b \<longleftrightarrow> xor_less i a b"

definition intro_candidates :: "published_service \<Rightarrow> 'a node_scheme \<Rightarrow> node_id list" where
  "intro_candidates s n =
     (let wanted = (if sc_intro_count (ps_cfg s) \<le> 0 then 3 else sc_intro_count (ps_cfg s))
      in take (nat wanted) (sort_by (intro_score_less (sid_service (ps_identity s))) (route_ids n)))"

definition ensure_intros :: "string \<Rightarrow> 'a dir_node_scheme \<Rightarrow> 'a dir_node_scheme" where
  "ensure_intros name n =
     (case map_of (ds_local n) name of None \<Rightarrow> n
      | Some s \<Rightarrow>
          put_service name (s\<lparr>ps_dialing := ps_dialing s @
            filter (\<lambda>i. i \<notin> fst ` set (ps_intros s) \<and> i \<notin> set (ps_dialing s)) (intro_candidates s n)\<rparr>) n)"

text \<open>A publication under way: the replicas left, the packet being tried and its deadline.\<close>

datatype publishing = Publishing string bytes "node_id list" packet time | Published | Publish_failed error

definition publish_next ::
  "crypto \<Rightarrow> env \<Rightarrow> 16 barr \<Rightarrow> string \<Rightarrow> bytes \<Rightarrow> node_id list \<Rightarrow> 'a dir_node_scheme \<Rightarrow> publishing \<times> 'a dir_node_scheme" where
  "publish_next C E fresh name raw dsts n =
     (case dsts of
        dst # rest \<Rightarrow> (Publishing name raw rest (new_packet packet_descriptor_put dst (arr_of []) 0 raw fresh n) (en_now E + seconds 3), n)
      | [] \<Rightarrow> (Published, add_event E ''info'' (''published service '' @ name @ '' as ''
          @ (case map_of (ds_local n) name of None \<Rightarrow> [] | Some s \<Rightarrow> service_canonical_domain C (sid_service (ps_identity s)))) n))"

definition publish_start ::
  "crypto \<Rightarrow> env \<Rightarrow> io \<Rightarrow> bool \<Rightarrow> 16 barr \<Rightarrow> string \<Rightarrow> published_service \<Rightarrow> 'a dir_node_scheme
    \<Rightarrow> publishing \<times> 'a dir_node_scheme" where
  "publish_start C E io dir_is_dot fresh name s n =
     (if active_intros s = [] then (Publish_failed ''no active introduction points'', n)
      else (case next_revision io dir_is_dot s (ds_files n) of
          (s', fs', Inl e) \<Rightarrow> (Publish_failed e, (put_service name s' n)\<lparr>ds_files := fs'\<rparr>)
        | (s', fs', Inr r) \<Rightarrow>
            let n1 = (put_service name s' n)\<lparr>ds_files := fs'\<rparr>;
                d = new_descriptor C (en_now E) (ps_identity s) (nd_network n) (active_intros s) r
                      (descriptor_ttl (nd_cfg n)) (sc_metadata (ps_cfg s));
                n2 = snd (store_descriptor C E d n1)
            in publish_next C E fresh name (marshal (descriptor_json d))
                 (filter (\<lambda>i. i \<noteq> nd_self n) (replicas (sid_service (ps_identity s)) n)) n2))"

definition publish_attempt ::
  "crypto \<Rightarrow> env \<Rightarrow> (packet \<Rightarrow> 'a dir_node_scheme \<Rightarrow> 'a dir_node_scheme) \<Rightarrow> 16 barr \<Rightarrow> publishing \<Rightarrow> 'a dir_node_scheme
    \<Rightarrow> publishing \<times> 'a dir_node_scheme" where
  "publish_attempt C E local fresh p n =
     (case p of
        Publishing name raw rest pkt deadline \<Rightarrow>
          (case retry_attempt E local deadline fresh pkt n of
             (Sent, n1) \<Rightarrow> publish_next C E fresh name raw rest n1
           | (Gave_up e, n1) \<Rightarrow> publish_next C E fresh name raw rest
               (add_event E ''warn'' (''descriptor replica '' @ node_short (p_dst pkt) @ '': '' @ e) n1)
           | (Again pkt', n1) \<Rightarrow> (Publishing name raw rest pkt' deadline, n1))
      | _ \<Rightarrow> (p, n))"

definition publish_warn :: "env \<Rightarrow> string \<Rightarrow> error \<Rightarrow> 'a dir_node_scheme \<Rightarrow> 'a dir_node_scheme" where
  "publish_warn E name e n = (if nd_stopped n then n else add_event E ''warn'' (''publish '' @ name @ '': '' @ e) n)"

text \<open>One turn of \<open>publishAllDescriptors\<close>, for one service.\<close>

definition publish_service ::
  "crypto \<Rightarrow> env \<Rightarrow> io \<Rightarrow> bool \<Rightarrow> 16 barr \<Rightarrow> string \<Rightarrow> 'a dir_node_scheme \<Rightarrow> publishing \<times> 'a dir_node_scheme" where
  "publish_service C E io dir_is_dot fresh name n =
     (let n1 = ensure_intros name n in
      (case map_of (ds_local n1) name of None \<Rightarrow> (Published, n1)
       | Some s \<Rightarrow>
          (case publish_start C E io dir_is_dot fresh name s n1 of
             (Publish_failed e, n2) \<Rightarrow> (Publish_failed e, publish_warn E name e n2)
           | r \<Rightarrow> r)))"

text \<open>The \<open>select\<close> of \<open>directoryLoop\<close>: whether to publish, and whether the wake timer runs.\<close>

datatype loop_event = Ticked | Woken | Wake_fired | Clean_ticked

definition directory_turn :: "env \<Rightarrow> loop_event \<Rightarrow> bool \<Rightarrow> 'a dir_node_scheme \<Rightarrow> bool \<times> bool \<times> 'a dir_node_scheme" where
  "directory_turn E ev timer n =
     (case ev of Ticked \<Rightarrow> (True, timer, n)
      | Woken \<Rightarrow> if nd_wake n then (False, True, n\<lparr>nd_wake := False\<rparr>) else (False, timer, n)
      | Wake_fired \<Rightarrow> if timer then (True, False, n) else (False, False, n)
      | Clean_ticked \<Rightarrow> (False, timer, clean_descriptors E n))"

subsection \<open>Lookups\<close>

definition cached_descriptor :: "env \<Rightarrow> service_id \<Rightarrow> 'a dir_node_scheme \<Rightarrow> descriptor option" where
  "cached_descriptor E i n =
     (case map_of (ds_descriptors n) i of None \<Rightarrow> None
      | Some d \<Rightarrow> if sint (d_expires d) > sint (unix (en_now E)) then Some d else None)"

fun send_queries ::
  "env \<Rightarrow> (packet \<Rightarrow> 'a dir_node_scheme \<Rightarrow> 'a dir_node_scheme) \<Rightarrow> 16 barr \<Rightarrow> bytes \<Rightarrow> (nat \<Rightarrow> 16 barr) \<Rightarrow> nat
    \<Rightarrow> node_id list \<Rightarrow> 'a dir_node_scheme \<Rightarrow> nat \<times> 'a dir_node_scheme" where
  "send_queries E local req raw fresh k [] n = (0, n)"
| "send_queries E local req raw fresh k (dst # dsts) n =
     (if dst = nd_self n then send_queries E local req raw fresh (k + 1) dsts n
      else (case send_packet E local (new_packet packet_descriptor_get dst req 0 raw (fresh k) n) n of
          (r, n1) \<Rightarrow> (case send_queries E local req raw fresh (k + 1) dsts n1 of
             (sent, n2) \<Rightarrow> (if is_ok r then sent + 1 else sent, n2))))"

datatype looking = Found descriptor | Looking nat | Lookup_failed error

definition end_lookup :: "16 barr \<Rightarrow> 'a dir_node_scheme \<Rightarrow> 'a dir_node_scheme" where
  "end_lookup req n = n\<lparr>ds_pending := AList.delete req (ds_pending n)\<rparr>"

definition lookup_start ::
  "env \<Rightarrow> (packet \<Rightarrow> 'a dir_node_scheme \<Rightarrow> 'a dir_node_scheme) \<Rightarrow> 16 barr \<Rightarrow> (nat \<Rightarrow> 16 barr) \<Rightarrow> service_id \<Rightarrow> bool
    \<Rightarrow> 'a dir_node_scheme \<Rightarrow> looking \<times> 'a dir_node_scheme" where
  "lookup_start E local req fresh i use_cache n =
     (case (if use_cache then cached_descriptor E i n else None) of
        Some d \<Rightarrow> (Found d, n)
      | None \<Rightarrow>
          let x = length (ds_lookups n);
              lk = \<lparr> lk_request = req, lk_sent = 0, lk_received = 0, lk_best = None, lk_answers = [] \<rparr>;
              n1 = n\<lparr>ds_pending := AList.update req x (ds_pending n), ds_lookups := ds_lookups n @ [lk]\<rparr>
          in (case send_queries E local req (marshal (descriptor_get_json (service_string i))) fresh 0 (replicas i n1) n1 of
              (sent, n2) \<Rightarrow>
                if sent = 0 then (Lookup_failed ''no directory replicas reachable'', end_lookup req n2)
                else (Looking x, n2\<lparr>ds_lookups := (ds_lookups n2)[x := (ds_lookups n2 ! x)\<lparr>lk_sent := sent\<rparr>]\<rparr>)))"

text \<open>The wait of \<open>lookupService\<close>: the context or the node ends it, a timer fires (the settle timer only
  once there is a best descriptor), or an answer is taken.\<close>

datatype lookup_waking = Lookup_ended error | Timed_out | Settled | Answered

definition return_best :: "crypto \<Rightarrow> env \<Rightarrow> lookup \<Rightarrow> 'a dir_node_scheme \<Rightarrow> looking \<times> 'a dir_node_scheme" where
  "return_best C E lk n =
     (case lk_best lk of None \<Rightarrow> (Lookup_failed ''service descriptor not found'', end_lookup (lk_request lk) n)
      | Some d \<Rightarrow> (Found d, end_lookup (lk_request lk) (snd (store_descriptor C E d n))))"

definition better :: "descriptor \<Rightarrow> descriptor option \<Rightarrow> bool" where
  "better d best = (case best of None \<Rightarrow> True | Some b \<Rightarrow> d_revision d > d_revision b)"

definition take_answer :: "crypto \<Rightarrow> env \<Rightarrow> network_id \<Rightarrow> lookup \<Rightarrow> lookup" where
  "take_answer C E network lk =
     (case lk_answers lk of [] \<Rightarrow> lk
      | (found, d) # rest \<Rightarrow>
          let lk1 = lk\<lparr>lk_received := lk_received lk + 1, lk_answers := rest\<rparr>
          in if found \<and> is_ok (descriptor_verify C d (en_now E) network) \<and> better d (lk_best lk)
             then lk1\<lparr>lk_best := Some d\<rparr> else lk1)"

definition lookup_step ::
  "crypto \<Rightarrow> env \<Rightarrow> lookup_waking \<Rightarrow> nat \<Rightarrow> 'a dir_node_scheme \<Rightarrow> looking \<times> 'a dir_node_scheme" where
  "lookup_step C E w x n =
     (let lk = ds_lookups n ! x in
      (case w of
         Lookup_ended e \<Rightarrow> (Lookup_failed e, end_lookup (lk_request lk) n)
       | Timed_out \<Rightarrow> return_best C E lk n
       | Settled \<Rightarrow> if lk_best lk = None then (Looking x, n) else return_best C E lk n
       | Answered \<Rightarrow>
           if lk_answers lk = [] then (Looking x, n)
           else let lk1 = take_answer C E (nd_network n) lk; n1 = n\<lparr>ds_lookups := (ds_lookups n)[x := lk1]\<rparr>
                in if lk_received lk1 \<ge> lk_sent lk1 then return_best C E lk1 n1 else (Looking x, n1)))"

subsection \<open>Packets\<close>

definition answer_lookup :: "packet \<Rightarrow> 'a dir_node_scheme \<Rightarrow> 'a dir_node_scheme" where
  "answer_lookup pkt n =
     (case descriptor_response_unmarshal (p_payload pkt) of None \<Rightarrow> n
      | Some (found, raw) \<Rightarrow>
          (case (case (found, raw) of (True, Some j) \<Rightarrow> descriptor_of_json j | _ \<Rightarrow> Some zero_descriptor) of
             None \<Rightarrow> n
           | Some d \<Rightarrow>
               (case map_of (ds_pending n) (p_stream_id pkt) of None \<Rightarrow> n
                | Some x \<Rightarrow> let lk = ds_lookups n ! x in
                    if length (lk_answers lk) < 16
                    then n\<lparr>ds_lookups := (ds_lookups n)[x := lk\<lparr>lk_answers := lk_answers lk @ [(found, d)]\<rparr>]\<rparr> else n)))"

text \<open>The reply to a request of the node itself comes straight back and is a \<open>PacketDescriptorResponse\<close>, so
  what \<open>sendPacket\<close> hands it to is \<open>answer_lookup\<close>.\<close>

definition reply_descriptor :: "env \<Rightarrow> 16 barr \<Rightarrow> packet \<Rightarrow> 'a dir_node_scheme \<Rightarrow> 'a dir_node_scheme" where
  "reply_descriptor E fresh pkt n =
     (case descriptor_get_unmarshal (p_payload pkt) of None \<Rightarrow> n
      | Some text \<Rightarrow>
          (case service_parse text of Inl _ \<Rightarrow> n
           | Inr i \<Rightarrow>
               let d = map_of (ds_descriptors n) i;
                   raw = marshal (descriptor_response_json (d \<noteq> None) (map_option descriptor_json d))
               in snd (send_packet E answer_lookup
                    (new_packet packet_descriptor_response (p_src pkt) (p_stream_id pkt) 0 raw fresh n) n)))"

definition put_packet :: "crypto \<Rightarrow> env \<Rightarrow> packet \<Rightarrow> 'a dir_node_scheme \<Rightarrow> 'a dir_node_scheme" where
  "put_packet C E pkt n =
     (case descriptor_unmarshal (p_payload pkt) of None \<Rightarrow> n | Some d \<Rightarrow> snd (store_descriptor C E d n))"

definition handle_directory_packet ::
  "crypto \<Rightarrow> env \<Rightarrow> 16 barr \<Rightarrow> packet \<Rightarrow> 'a dir_node_scheme \<Rightarrow> bool \<times> 'a dir_node_scheme" where
  "handle_directory_packet C E fresh pkt n =
     (if p_kind pkt = packet_descriptor_put then (True, put_packet C E pkt n)
      else if p_kind pkt = packet_descriptor_get then (True, reply_descriptor E fresh pkt n)
      else if p_kind pkt = packet_descriptor_response then (True, answer_lookup pkt n)
      else (False, n))"

end
