(* ===== verification/Stream.thy ===== *)
theory Stream
  imports Directory
begin

section \<open>Direct streams\<close>

text \<open>
  \<open>internal/overlay/stream.go\<close>: end-to-end encrypted streams between two nodes over routed packets, and the
  forwards of \<open>forward.go\<close> that use them. Streams and openings are Go pointers, here positions of lists
  that only grow. The goroutines are steps: \<open>pump_step\<close> is one read of the local connection, \<open>receive_step\<close>
  one packet taken from the stream's queue, \<open>handle_open\<close> runs a request that waits in \<open>sn_requests\<close>, a control
  reply that \<open>sendPacketWithRetry\<close> sends is one \<open>reply_step\<close> per attempt, and \<open>openWithConn\<close> is \<open>open_start\<close> and
  \<open>open_finish\<close>. Connections are numbers as in theory \<open>Circuit\<close>, with \<open>cs_app_out\<close> and \<open>cs_app_closed\<close>.
\<close>

subsection \<open>State\<close>

datatype open_result = Opened_ack open_ack node_id | Open_rejected error node_id

text \<open>The goroutine \<open>pumpLoop\<close>, which \<open>pumpOnce\<close> starts once.\<close>

datatype pump = Pump_idle | Pump_running | Pump_ended

record stream =
  st_id :: "16 barr"
  st_peer :: node_id
  st_initiator :: bool
  st_conn :: nat
  st_send_key :: bytes
  st_recv_key :: bytes
  st_send_seq :: uint64
  st_recv_seq :: uint64
  st_incoming :: "packet list"
  st_done :: bool
  st_pump :: pump
  st_receiving :: bool

record stream_opening =
  op_dst :: node_id
  op_service :: string
  op_conn :: nat
  op_id :: "16 barr"
  op_key :: ephemeral_key
  op_nonce :: bytes
  op_result :: "open_result option"

text \<open>A reply under way: what happens to the stream when it is given up, and the event when it is sent.\<close>

record reply =
  rp_packet :: packet
  rp_deadline :: time
  rp_stream :: "nat option"
  rp_event :: string

record stream_node = dir_node +
  sn_all :: "stream list"
  sn_streams :: "(16 barr \<times> nat) list"
  sn_openings :: "stream_opening list"
  sn_pending :: "(16 barr \<times> nat) list"
  sn_requests :: "packet list"
  sn_replies :: "reply list"
  sn_proxies :: "(nat \<times> nat) list"

definition init_streams :: "dir_node \<Rightarrow> stream_node" where
  "init_streams n = dir_node.extend n (stream_node.fields [] [] [] [] [] [] [])"

definition new_stream :: "16 barr \<Rightarrow> node_id \<Rightarrow> nat \<Rightarrow> bool \<Rightarrow> bytes \<Rightarrow> bytes \<Rightarrow> stream" where
  "new_stream i peer conn initiator send_key recv_key =
     \<lparr> st_id = i, st_peer = peer, st_initiator = initiator, st_conn = conn, st_send_key = send_key, st_recv_key = recv_key,
       st_send_seq = 0, st_recv_seq = 0, st_incoming = [], st_done = False, st_pump = Pump_idle, st_receiving = False \<rparr>"

definition set_stream :: "nat \<Rightarrow> stream \<Rightarrow> 'a stream_node_scheme \<Rightarrow> 'a stream_node_scheme" where
  "set_stream i s n = n\<lparr>sn_all := (sn_all n)[i := s]\<rparr>"

definition start_receiver :: "stream \<Rightarrow> stream" where
  "start_receiver s = s\<lparr>st_receiving := True\<rparr>"

definition start_pump :: "stream \<Rightarrow> stream" where
  "start_pump s = (if st_pump s = Pump_idle then s\<lparr>st_pump := Pump_running\<rparr> else s)"

subsection \<open>Closing\<close>

text \<open>A \<open>CLOSE\<close> that a stream to the node itself would send comes back while \<open>closeOnce\<close> runs; no stream has
  the node itself as its peer, so \<open>local\<close> is not reached from here.\<close>

definition close_stream ::
  "env \<Rightarrow> (packet \<Rightarrow> 'a stream_node_scheme \<Rightarrow> 'a stream_node_scheme) \<Rightarrow> 16 barr \<Rightarrow> nat \<Rightarrow> error \<Rightarrow> bool
    \<Rightarrow> 'a stream_node_scheme \<Rightarrow> 'a stream_node_scheme" where
  "close_stream E local fresh i reason notify n =
     (let s = sn_all n ! i in
      if st_done s then n
      else let n1 = (if notify \<and> \<not> nd_stopped n
               then snd (send_packet E local (new_packet packet_close (st_peer s) (st_id s) 0
                      (marshal (close_message_json reason)) fresh n) n) else n);
               n2 = set_stream i ((sn_all n1 ! i)\<lparr>st_done := True\<rparr>) (close_app (Some (st_conn s)) n1)
           in (if map_of (sn_streams n2) (st_id s) = Some i
               then n2\<lparr>sn_streams := AList.delete (st_id s) (sn_streams n2)\<rparr> else n2))"

text \<open>The closing loop of \<open>Stop\<close>, over the streams that are registered.\<close>

definition stop_streams ::
  "env \<Rightarrow> (packet \<Rightarrow> 'a stream_node_scheme \<Rightarrow> 'a stream_node_scheme) \<Rightarrow> 16 barr \<Rightarrow> 'a stream_node_scheme \<Rightarrow> 'a stream_node_scheme" where
  "stop_streams E local fresh n =
     fold (\<lambda>i. close_stream E local fresh i ''node stopping'' False) (map snd (sn_streams n)) n"

subsection \<open>Sending\<close>

text \<open>How a read of at most 32 KiB ended.\<close>

datatype read_end = More | Eof | Failed_read error

definition end_pump :: "nat \<Rightarrow> 'a stream_node_scheme \<Rightarrow> 'a stream_node_scheme" where
  "end_pump i n = set_stream i ((sn_all n ! i)\<lparr>st_pump := Pump_ended\<rparr>) n"

definition pump_chunk ::
  "crypto \<Rightarrow> env \<Rightarrow> (packet \<Rightarrow> 'a stream_node_scheme \<Rightarrow> 'a stream_node_scheme) \<Rightarrow> 16 barr \<Rightarrow> nat \<Rightarrow> bytes
    \<Rightarrow> 'a stream_node_scheme \<Rightarrow> (error \<times> bool) option \<times> 'a stream_node_scheme" where
  "pump_chunk C E local fresh i chunk n =
     (if chunk = [] then (None, n)
      else let s = sn_all n ! i;
               n1 = set_stream i (s\<lparr>st_send_seq := st_send_seq s + 1\<rparr>) n
           in (case seal C (st_send_key s) (st_id s) (nd_self n) (st_peer s) (st_send_seq s) chunk of
                 Inl e \<Rightarrow> (Some (e, True), n1)
               | Inr ct \<Rightarrow>
                   (case send_packet E local (new_packet packet_data (st_peer s) (st_id s) (st_send_seq s) ct fresh n) n1 of
                      (Inl e, n2) \<Rightarrow> (Some (e, False), n2)
                    | (Inr _, n2) \<Rightarrow> (None, n2))))"

definition pump_step ::
  "crypto \<Rightarrow> env \<Rightarrow> (packet \<Rightarrow> 'a stream_node_scheme \<Rightarrow> 'a stream_node_scheme) \<Rightarrow> 16 barr \<Rightarrow> nat \<Rightarrow> bytes \<Rightarrow> read_end
    \<Rightarrow> 'a stream_node_scheme \<Rightarrow> 'a stream_node_scheme" where
  "pump_step C E local fresh i chunk ending n =
     (if st_pump (sn_all n ! i) \<noteq> Pump_running then n
      else (case pump_chunk C E local fresh i chunk n of
          (Some (e, notify), n1) \<Rightarrow> end_pump i (close_stream E local fresh i e notify n1)
        | (None, n1) \<Rightarrow>
            (case ending of More \<Rightarrow> n1
             | Eof \<Rightarrow> end_pump i (close_stream E local fresh i ''local endpoint closed'' True n1)
             | Failed_read e \<Rightarrow> end_pump i (close_stream E local fresh i ''local endpoint closed'' True
                 (if e = closed_error then n1 else add_event E ''warn'' (''stream read failed: '' @ e) n1)))))"

subsection \<open>Receiving\<close>

text \<open>\<open>writeAll\<close>: \<open>fail\<close> tells how many bytes are written before an error.\<close>

definition write_conn :: "(nat \<times> error) option \<Rightarrow> nat \<Rightarrow> bytes \<Rightarrow> 'a stream_node_scheme \<Rightarrow> unit result \<times> 'a stream_node_scheme" where
  "write_conn fail c plain n =
     (if plain = [] then (Inr (), n)
      else if c \<in> set (cs_app_closed n) then (Inl closed_error, n)
      else (case fail of None \<Rightarrow> (Inr (), n\<lparr>cs_app_out := cs_app_out n @ [(c, plain)]\<rparr>)
        | Some (k, e) \<Rightarrow> (Inl e, n\<lparr>cs_app_out := cs_app_out n @ [(c, take k plain)]\<rparr>)))"

definition end_receiver :: "nat \<Rightarrow> 'a stream_node_scheme \<Rightarrow> 'a stream_node_scheme" where
  "end_receiver i n = set_stream i ((sn_all n ! i)\<lparr>st_receiving := False\<rparr>) n"

text \<open>What the loop does with a packet: \<open>Some\<close> the reason for which it closes the stream.\<close>

definition receive_packet ::
  "crypto \<Rightarrow> (nat \<times> error) option \<Rightarrow> nat \<Rightarrow> packet \<Rightarrow> 'a stream_node_scheme \<Rightarrow> error option \<times> 'a stream_node_scheme" where
  "receive_packet C fail i pkt n =
     (let s = sn_all n ! i in
      if p_src pkt \<noteq> st_peer s then (Some ''stream source changed'', n)
      else if p_seq pkt \<noteq> st_recv_seq s
      then (Some (''out-of-order stream packet: got '' @ show_nat (unat (p_seq pkt)) @ '', expected '' @ show_nat (unat (st_recv_seq s))), n)
      else (case open_ciphertext C (st_recv_key s) (st_id s) (p_src pkt) (p_dst pkt) (p_seq pkt) (p_payload pkt) of
          Inl e \<Rightarrow> (Some e, n)
        | Inr plain \<Rightarrow>
            (case write_conn fail (st_conn s) plain (set_stream i (s\<lparr>st_recv_seq := st_recv_seq s + 1\<rparr>) n) of
               (Inl e, n1) \<Rightarrow> (Some (''write local endpoint: '' @ e), n1) | (Inr _, n1) \<Rightarrow> (None, n1))))"

text \<open>One turn of \<open>receiveLoop\<close>: \<open>ended\<close> when its \<open>select\<close> sees \<open>done\<close>; a packet that waits may still be taken
  after that.\<close>

definition receive_step ::
  "crypto \<Rightarrow> env \<Rightarrow> (packet \<Rightarrow> 'a stream_node_scheme \<Rightarrow> 'a stream_node_scheme) \<Rightarrow> 16 barr \<Rightarrow> (nat \<times> error) option \<Rightarrow> bool \<Rightarrow> nat
    \<Rightarrow> 'a stream_node_scheme \<Rightarrow> 'a stream_node_scheme" where
  "receive_step C E local fresh fail ended i n =
     (let s = sn_all n ! i in
      if \<not> st_receiving s then n
      else if ended then (if st_done s then end_receiver i n else n)
      else (case st_incoming s of [] \<Rightarrow> n
        | pkt # rest \<Rightarrow>
            (case receive_packet C fail i pkt (set_stream i (s\<lparr>st_incoming := rest\<rparr>) n) of
               (Some e, n1) \<Rightarrow> end_receiver i (close_stream E local fresh i e True n1)
             | (None, n1) \<Rightarrow> n1)))"

text \<open>\<open>deliver\<close>: a sender that waits for one of the 128 places is the last element of the queue, until the
  stream is done or the node stops.\<close>

definition deliver :: "packet \<Rightarrow> nat \<Rightarrow> 'a stream_node_scheme \<Rightarrow> 'a stream_node_scheme" where
  "deliver pkt i n =
     (let s = sn_all n ! i in
      if length (st_incoming s) \<ge> 128 \<and> (st_done s \<or> nd_stopped n) then n
      else set_stream i (s\<lparr>st_incoming := st_incoming s @ [pkt]\<rparr>) n)"

subsection \<open>Opening\<close>

datatype open_outcome = Open_failed error | Opening nat | Open_local | Open_done nat

definition open_start ::
  "crypto \<Rightarrow> env \<Rightarrow> (packet \<Rightarrow> 'a stream_node_scheme \<Rightarrow> 'a stream_node_scheme) \<Rightarrow> draw \<Rightarrow> 16 barr \<Rightarrow> 16 barr \<Rightarrow> node_id \<Rightarrow> string \<Rightarrow> nat
    \<Rightarrow> 'a stream_node_scheme \<Rightarrow> open_outcome \<times> 'a stream_node_scheme" where
  "open_start C E local R sid fresh dst service conn n =
     (if dst = nd_self n then
        (case open_local_named_service C R service n of Inl e \<Rightarrow> (Open_failed e, n)
         | Inr c \<Rightarrow> (Open_local, n\<lparr>sn_proxies := sn_proxies n @ [(conn, c)]\<rparr>))
      else if nd_routes n dst = None then (Open_failed (''no route to '' @ node_string dst), n)
      else let eph = new_ephemeral_key C (dw_private R);
               req = sign_open_request C (nd_id n) sid dst service (ek_public eph) (dw_nonce R) (en_now E);
               x = length (sn_openings n);
               op = \<lparr> op_dst = dst, op_service = service, op_conn = conn, op_id = sid, op_key = eph, op_nonce = dw_nonce R, op_result = None \<rparr>;
               n1 = n\<lparr>sn_openings := sn_openings n @ [op], sn_pending := AList.update sid x (sn_pending n)\<rparr>
           in (case send_packet E local (new_packet packet_open dst sid 0 (marshal (open_request_json req)) fresh n) n1 of
                 (Inl e, n2) \<Rightarrow> (Open_failed e, n2\<lparr>sn_pending := AList.delete sid (sn_pending n2)\<rparr>)
               | (Inr _, n2) \<Rightarrow> (Opening x, n2)))"

text \<open>What \<open>openWithConn\<close> makes of an acknowledgement.\<close>

definition accept_ack :: "crypto \<Rightarrow> env \<Rightarrow> stream_opening \<Rightarrow> open_result \<Rightarrow> 'a node_scheme \<Rightarrow> stream result" where
  "accept_ack C E op r n =
     (case r of Open_rejected e src \<Rightarrow> Inl e
      | Opened_ack ack src \<Rightarrow>
          if src \<noteq> op_dst op then Inl ''open acknowledgement came from unexpected node''
          else (case verify_open_ack C ack (op_id op) (nd_self n) (op_dst op) (en_now E) of Inl e \<Rightarrow> Inl e
            | Inr (peer_eph, ack_nonce) \<Rightarrow>
                (case shared_secret C (ek_private (op_key op)) peer_eph of Inl e \<Rightarrow> Inl e
                 | Inr shared \<Rightarrow>
                     (case derive_session_keys C shared (op_nonce op) ack_nonce (op_id op) (nd_self n) (op_dst op) of (c2s, s2c) \<Rightarrow>
                        Inr (new_stream (op_id op) (op_dst op) (op_conn op) True c2s s2c)))))"

text \<open>The stream is registered whether or not its identifier is taken, and only closed again when \<open>READY\<close> cannot
  be sent.\<close>

definition open_ready ::
  "env \<Rightarrow> (packet \<Rightarrow> 'a stream_node_scheme \<Rightarrow> 'a stream_node_scheme) \<Rightarrow> 16 barr \<Rightarrow> stream_opening \<Rightarrow> stream \<Rightarrow> 'a stream_node_scheme
    \<Rightarrow> open_outcome \<times> 'a stream_node_scheme" where
  "open_ready E local fresh op s n =
     (let i = length (sn_all n);
          n1 = n\<lparr>sn_all := sn_all n @ [start_receiver s], sn_streams := AList.update (op_id op) i (sn_streams n)\<rparr>
      in (case send_packet E local (new_packet packet_ready (op_dst op) (op_id op) 0 [] fresh n) n1 of
            (Inl e, n2) \<Rightarrow> (Open_failed e, close_stream E local fresh i e False n2)
          | (Inr _, n2) \<Rightarrow> (Open_done i, add_event E ''info'' (''opened stream '' @ hex_encode (take 4 (arr_bytes (op_id op))) @ '' to ''
               @ node_short (op_dst op) @ ''/'' @ op_service op) (set_stream i (start_pump (sn_all n2 ! i)) n2))))"

definition end_opening :: "16 barr \<Rightarrow> 'a stream_node_scheme \<Rightarrow> 'a stream_node_scheme" where
  "end_opening sid n = n\<lparr>sn_pending := AList.delete sid (sn_pending n)\<rparr>"

text \<open>The wait: \<open>interrupted\<close> when the context, the node or the timer of 15 seconds ends it.\<close>

definition open_finish ::
  "crypto \<Rightarrow> env \<Rightarrow> (packet \<Rightarrow> 'a stream_node_scheme \<Rightarrow> 'a stream_node_scheme) \<Rightarrow> 16 barr \<Rightarrow> error option \<Rightarrow> nat
    \<Rightarrow> 'a stream_node_scheme \<Rightarrow> open_outcome \<times> 'a stream_node_scheme" where
  "open_finish C E local fresh interrupted x n =
     (let op = sn_openings n ! x in
      (case interrupted of Some e \<Rightarrow> (Open_failed e, end_opening (op_id op) n)
       | None \<Rightarrow>
          (case op_result op of None \<Rightarrow> (Opening x, n)
           | Some r \<Rightarrow>
               (case accept_ack C E op r n of Inl e \<Rightarrow> (Open_failed e, end_opening (op_id op) n)
                | Inr s \<Rightarrow> (case open_ready E local fresh op s n of (out, n1) \<Rightarrow> (out, end_opening (op_id op) n1))))))"

text \<open>What the callers do: \<open>OpenStream\<close> closes both ends of its pipe, a forward logs and closes.\<close>

definition open_stream_failed :: "nat \<Rightarrow> nat \<Rightarrow> 'a stream_node_scheme \<Rightarrow> 'a stream_node_scheme" where
  "open_stream_failed conn app n = close_app (Some app) (close_app (Some conn) n)"

definition forward_failed :: "env \<Rightarrow> string \<Rightarrow> node_id \<Rightarrow> string \<Rightarrow> nat \<Rightarrow> error \<Rightarrow> 'a stream_node_scheme \<Rightarrow> 'a stream_node_scheme" where
  "forward_failed E listen dst service conn e n =
     close_app (Some conn) (add_event E ''warn'' (''forward '' @ listen @ '' -> '' @ node_short dst @ ''/'' @ service @ '' failed: '' @ e) n)"

subsection \<open>Answering\<close>

definition push_reply :: "env \<Rightarrow> packet \<Rightarrow> nat option \<Rightarrow> string \<Rightarrow> 'a stream_node_scheme \<Rightarrow> 'a stream_node_scheme" where
  "push_reply E pkt i text n =
     n\<lparr>sn_replies := sn_replies n @ [\<lparr> rp_packet = pkt, rp_deadline = en_now E + seconds 5, rp_stream = i, rp_event = text \<rparr>]\<rparr>"

definition send_open_error :: "env \<Rightarrow> 16 barr \<Rightarrow> packet \<Rightarrow> string \<Rightarrow> 'a stream_node_scheme \<Rightarrow> 'a stream_node_scheme" where
  "send_open_error E fresh pkt message n =
     push_reply E (new_packet packet_error (p_src pkt) (p_stream_id pkt) 0 (marshal (error_message_json message)) fresh n) None [] n"

text \<open>The connection for a request: an internal service, or a service of the configuration that allows the source.\<close>

definition request_target ::
  "crypto \<Rightarrow> draw \<Rightarrow> string \<Rightarrow> node_id \<Rightarrow> 'a stream_node_scheme \<Rightarrow> nat result \<times> 'a stream_node_scheme" where
  "request_target C R name src n =
     (case internal_service R name src n of Some (c, n1) \<Rightarrow> (Inr c, n1)
      | None \<Rightarrow>
          (case service_of name n of None \<Rightarrow> (Inl ''service not found'', n)
           | Some s \<Rightarrow>
               if \<not> allowed C s src then (Inl ''source is not allowed to access this service'', n)
               else (case dw_dial R (sc_target s) of Inl e \<Rightarrow> (Inl (''service target unavailable: '' @ e), n) | Inr c \<Rightarrow> (Inr c, n))))"

definition request_keys :: "crypto \<Rightarrow> draw \<Rightarrow> packet \<Rightarrow> bytes \<Rightarrow> bytes \<Rightarrow> 'a node_scheme \<Rightarrow> (bytes \<times> bytes) result" where
  "request_keys C R pkt peer_eph open_nonce n =
     (case shared_secret C (ek_private (new_ephemeral_key C (dw_private R))) peer_eph of Inl e \<Rightarrow> Inl e
      | Inr shared \<Rightarrow> Inr (derive_session_keys C shared open_nonce (dw_nonce R) (p_stream_id pkt) (p_src pkt) (nd_self n)))"

definition accept_request ::
  "crypto \<Rightarrow> env \<Rightarrow> draw \<Rightarrow> 16 barr \<Rightarrow> packet \<Rightarrow> open_request \<Rightarrow> nat \<Rightarrow> bytes \<times> bytes \<Rightarrow> 'a stream_node_scheme \<Rightarrow> 'a stream_node_scheme" where
  "accept_request C E R fresh pkt req c keys n =
     (if map_of (sn_streams n) (p_stream_id pkt) \<noteq> None
      then send_open_error E fresh pkt ''stream id already exists'' (close_app (Some c) n)
      else let i = length (sn_all n);
               s = start_receiver (new_stream (p_stream_id pkt) (p_src pkt) c False (snd keys) (fst keys));
               ack = sign_open_ack C (nd_id n) (p_stream_id pkt) (p_src pkt) (x_public C (dw_private R)) (dw_nonce R) (en_now E)
           in push_reply E (new_packet packet_open_ack (p_src pkt) (p_stream_id pkt) 0 (marshal (open_ack_json ack)) fresh n) (Some i)
                (''accepted stream '' @ hex_encode (take 4 (arr_bytes (p_stream_id pkt))) @ '' from '' @ node_short (p_src pkt)
                  @ '' to service '' @ r_service req)
                (n\<lparr>sn_all := sn_all n @ [s], sn_streams := AList.update (p_stream_id pkt) i (sn_streams n)\<rparr>))"

definition handle_open ::
  "crypto \<Rightarrow> env \<Rightarrow> draw \<Rightarrow> 16 barr \<Rightarrow> packet \<Rightarrow> 'a stream_node_scheme \<Rightarrow> 'a stream_node_scheme" where
  "handle_open C E R fresh pkt n0 =
     (let n = n0\<lparr>sn_requests := remove1 pkt (sn_requests n0)\<rparr> in
      (case open_request_unmarshal (p_payload pkt) of None \<Rightarrow> send_open_error E fresh pkt ''malformed open request'' n
       | Some req \<Rightarrow>
          (case verify_open_request C req (p_stream_id pkt) (p_src pkt) (nd_self n) (en_now E) of
             Inl e \<Rightarrow> send_open_error E fresh pkt e n
           | Inr (peer_eph, open_nonce) \<Rightarrow>
              (case request_target C R (r_service req) (p_src pkt) n of
                 (Inl e, n1) \<Rightarrow> send_open_error E fresh pkt e n1
               | (Inr c, n1) \<Rightarrow>
                  (case request_keys C R pkt peer_eph open_nonce n1 of
                     Inl e \<Rightarrow> send_open_error E fresh pkt e (close_app (Some c) n1)
                   | Inr keys \<Rightarrow> accept_request C E R fresh pkt req c keys n1)))))"

text \<open>One attempt to send the reply at position \<open>k\<close>.\<close>

definition reply_step ::
  "env \<Rightarrow> (packet \<Rightarrow> 'a stream_node_scheme \<Rightarrow> 'a stream_node_scheme) \<Rightarrow> 16 barr \<Rightarrow> reply \<Rightarrow> 'a stream_node_scheme \<Rightarrow> 'a stream_node_scheme" where
  "reply_step E local fresh r n =
     (case retry_attempt E local (rp_deadline r) fresh (rp_packet r) (n\<lparr>sn_replies := remove1 r (sn_replies n)\<rparr>) of
        (Sent, n1) \<Rightarrow> if rp_stream r = None then n1 else add_event E ''info'' (rp_event r) n1
      | (Gave_up e, n1) \<Rightarrow> (case rp_stream r of None \<Rightarrow> n1 | Some i \<Rightarrow> close_stream E local fresh i e False n1)
      | (Again pkt, n1) \<Rightarrow> n1\<lparr>sn_replies := sn_replies n1 @ [r\<lparr>rp_packet := pkt\<rparr>]\<rparr>)"

subsection \<open>Local packets\<close>

text \<open>The channel of an opening has one place.\<close>

definition offer_result :: "open_result \<Rightarrow> 16 barr \<Rightarrow> 'a stream_node_scheme \<Rightarrow> 'a stream_node_scheme" where
  "offer_result r sid n =
     (case map_of (sn_pending n) sid of None \<Rightarrow> n
      | Some x \<Rightarrow> let op = sn_openings n ! x in
          if op_result op = None then n\<lparr>sn_openings := (sn_openings n)[x := op\<lparr>op_result := Some r\<rparr>]\<rparr> else n)"

definition handle_stream_packet :: "env \<Rightarrow> 16 barr \<Rightarrow> packet \<Rightarrow> 'a stream_node_scheme \<Rightarrow> 'a stream_node_scheme" where
  "handle_stream_packet E fresh pkt n =
     (let kind = p_kind pkt; place = map_of (sn_streams n) (p_stream_id pkt) in
      if kind = packet_open then n\<lparr>sn_requests := sn_requests n @ [pkt]\<rparr>
      else if kind = packet_open_ack then
        (case open_ack_unmarshal (p_payload pkt) of None \<Rightarrow> n
         | Some ack \<Rightarrow> offer_result (Opened_ack ack (p_src pkt)) (p_stream_id pkt) n)
      else if kind = packet_error then
        (let m = error_message_unmarshal (p_payload pkt)
         in offer_result (Open_rejected (if m = [] then ''remote node rejected the stream'' else m) (p_src pkt)) (p_stream_id pkt) n)
      else if kind = packet_ready then
        (case place of Some i \<Rightarrow> if st_peer (sn_all n ! i) = p_src pkt then set_stream i (start_pump (sn_all n ! i)) n else n
         | None \<Rightarrow> n)
      else if kind = packet_data then (case place of Some i \<Rightarrow> deliver pkt i n | None \<Rightarrow> n)
      else if kind = packet_close then
        (case place of Some i \<Rightarrow> close_stream E (\<lambda>_ m. m) fresh i (close_message_unmarshal (p_payload pkt)) False n | None \<Rightarrow> n)
      else n)"

definition handle_local_packet :: "crypto \<Rightarrow> env \<Rightarrow> 16 barr \<Rightarrow> packet \<Rightarrow> 'a stream_node_scheme \<Rightarrow> 'a stream_node_scheme" where
  "handle_local_packet C E fresh pkt n =
     (case handle_directory_packet C E fresh pkt n of (True, n1) \<Rightarrow> n1 | (False, n1) \<Rightarrow> handle_stream_packet E fresh pkt n1)"

end
