(* ===== verification/Rendezvous_Crypto.thy ===== *)
theory Rendezvous_Crypto
  imports Wire Session Json_Fields Control Identity
begin

section \<open>Rendezvous: messages and the secured connection\<close>

text \<open>
  \<open>internal/overlay/rendezvous_crypto.go\<close> and the messages of \<open>rendezvous.go\<close>: control messages with their
  length prefix, the signed acknowledgement of a service, registrations at introduction points, and
  \<open>rendezvousConn\<close>, which seals what two proxied ends write.
\<close>

subsection \<open>Control messages\<close>

definition max_control :: nat where
  "max_control = 65536"

definition write_control :: "bytes \<Rightarrow> bytes result" where
  "write_control raw =
     (if length raw > max_control then Inl ''control message too large'' else Inr (put_u32 (of_nat (length raw)) @ raw))"

definition read_control :: "bytes \<Rightarrow> (bytes \<times> bytes) result" where
  "read_control r =
     (case read_full 4 r of Inl e \<Rightarrow> Inl e
      | Inr (h, r1) \<Rightarrow>
          let k = unat (get_u32 h) in
          if k = 0 \<or> k > max_control then Inl ''invalid control message size'' else read_full k r1)"

definition control_ok :: "bytes \<Rightarrow> bool" where
  "control_ok raw \<longleftrightarrow> raw \<noteq> [] \<and> length raw \<le> max_control"

interpretation controls: frame_codec control_ok write_control read_control
proof
  show "\<exists>bs. write_control x = Inr bs" if "control_ok x" for x using that by (simp add: control_ok_def write_control_def)
  show "read_control (bs @ rest) = Inr (x, rest)" if "write_control x = Inr bs" "control_ok x" for x bs rest
  proof -
    have l: "x \<noteq> []" "length x \<le> max_control" "bs = put_u32 (of_nat (length x)) @ x"
      using that by (auto simp: write_control_def control_ok_def split: if_splits)
    then have "unat (of_nat (length x) :: 32 word) = length x" by (simp add: max_control_def unat_of_nat)
    with l show ?thesis by (simp add: read_control_def Let_def)
  qed
qed

record intro_registration =
  ir_network :: string
  ir_service :: string
  ir_public_key :: string
  ir_intro :: string
  ir_expires :: int64
  ir_signature :: string

record introduce_request =
  iq_service :: string
  iq_rendezvous :: string
  iq_cookie :: string
  iq_ephemeral :: string
  iq_nonce :: string
  iq_time :: int64

record simple_ack =
  sa_ok :: bool
  sa_error :: string

record rendezvous_hello =
  rh_role :: string
  rh_cookie :: string

record service_ack =
  sk_service :: string
  sk_public_key :: string
  sk_ephemeral :: string
  sk_nonce :: string
  sk_cookie :: string
  sk_time :: int64
  sk_signature :: string

definition registration_json :: "intro_registration \<Rightarrow> json" where
  "registration_json m = JObj [(''network_id'', JStr (ir_network m)), (''service_id'', JStr (ir_service m)),
     (''public_key'', JStr (ir_public_key m)), (''intro_node'', JStr (ir_intro m)), (''expires_unix'', jm_int64 (ir_expires m)),
     (''signature'', JStr (ir_signature m))]"

definition registration_unmarshal :: "bytes \<Rightarrow> intro_registration option" where
  "registration_unmarshal raw =
     do { j \<leftarrow> unmarshal raw; kvs \<leftarrow> jobject j;
          w \<leftarrow> field str_field ''network_id'' kvs []; s \<leftarrow> field str_field ''service_id'' kvs [];
          k \<leftarrow> field str_field ''public_key'' kvs []; i \<leftarrow> field str_field ''intro_node'' kvs [];
          e \<leftarrow> field int64_field ''expires_unix'' kvs 0; g \<leftarrow> field str_field ''signature'' kvs [];
          Some \<lparr> ir_network = w, ir_service = s, ir_public_key = k, ir_intro = i, ir_expires = e, ir_signature = g \<rparr> }"

definition introduce_json :: "introduce_request \<Rightarrow> json" where
  "introduce_json q = JObj [(''service_id'', JStr (iq_service q)), (''rendezvous'', JStr (iq_rendezvous q)), (''cookie'', JStr (iq_cookie q)),
     (''client_ephemeral'', JStr (iq_ephemeral q)), (''client_nonce'', JStr (iq_nonce q)), (''time_unix'', jm_int64 (iq_time q))]"

definition introduce_unmarshal :: "bytes \<Rightarrow> introduce_request option" where
  "introduce_unmarshal raw =
     do { j \<leftarrow> unmarshal raw; kvs \<leftarrow> jobject j;
          s \<leftarrow> field str_field ''service_id'' kvs []; r \<leftarrow> field str_field ''rendezvous'' kvs [];
          c \<leftarrow> field str_field ''cookie'' kvs []; e \<leftarrow> field str_field ''client_ephemeral'' kvs [];
          n \<leftarrow> field str_field ''client_nonce'' kvs []; t \<leftarrow> field int64_field ''time_unix'' kvs 0;
          Some \<lparr> iq_service = s, iq_rendezvous = r, iq_cookie = c, iq_ephemeral = e, iq_nonce = n, iq_time = t \<rparr> }"

definition simple_ack_json :: "simple_ack \<Rightarrow> json" where
  "simple_ack_json a = JObj ((''ok'', JBool (sa_ok a)) # omit_if (sa_error a = []) ''error'' (JStr (sa_error a)))"

definition simple_ack_unmarshal :: "bytes \<Rightarrow> simple_ack option" where
  "simple_ack_unmarshal raw =
     do { j \<leftarrow> unmarshal raw; kvs \<leftarrow> jobject j;
          k \<leftarrow> field bool_field ''ok'' kvs False; e \<leftarrow> field str_field ''error'' kvs [];
          Some \<lparr> sa_ok = k, sa_error = e \<rparr> }"

definition rendezvous_hello_json :: "rendezvous_hello \<Rightarrow> json" where
  "rendezvous_hello_json h = JObj [(''role'', JStr (rh_role h)), (''cookie'', JStr (rh_cookie h))]"

definition rendezvous_hello_unmarshal :: "bytes \<Rightarrow> rendezvous_hello option" where
  "rendezvous_hello_unmarshal raw =
     do { j \<leftarrow> unmarshal raw; kvs \<leftarrow> jobject j;
          r \<leftarrow> field str_field ''role'' kvs []; c \<leftarrow> field str_field ''cookie'' kvs [];
          Some \<lparr> rh_role = r, rh_cookie = c \<rparr> }"

definition service_ack_json :: "service_ack \<Rightarrow> json" where
  "service_ack_json a = JObj [(''service_id'', JStr (sk_service a)), (''public_key'', JStr (sk_public_key a)),
     (''ephemeral_key'', JStr (sk_ephemeral a)), (''nonce'', JStr (sk_nonce a)), (''cookie'', JStr (sk_cookie a)),
     (''time_unix'', jm_int64 (sk_time a)), (''signature'', JStr (sk_signature a))]"

definition service_ack_unmarshal :: "bytes \<Rightarrow> service_ack option" where
  "service_ack_unmarshal raw =
     do { j \<leftarrow> unmarshal raw; kvs \<leftarrow> jobject j;
          s \<leftarrow> field str_field ''service_id'' kvs []; k \<leftarrow> field str_field ''public_key'' kvs [];
          e \<leftarrow> field str_field ''ephemeral_key'' kvs []; n \<leftarrow> field str_field ''nonce'' kvs [];
          c \<leftarrow> field str_field ''cookie'' kvs []; t \<leftarrow> field int64_field ''time_unix'' kvs 0;
          g \<leftarrow> field str_field ''signature'' kvs [];
          Some \<lparr> sk_service = s, sk_public_key = k, sk_ephemeral = e, sk_nonce = n, sk_cookie = c, sk_time = t, sk_signature = g \<rparr> }"

lemma rendezvous_messages_roundtrip:
  "registration_unmarshal (marshal (registration_json m)) = Some m" "introduce_unmarshal (marshal (introduce_json q)) = Some q"
  "rendezvous_hello_unmarshal (marshal (rendezvous_hello_json h)) = Some h"
  "service_ack_unmarshal (marshal (service_ack_json a)) = Some a" "simple_ack_unmarshal (marshal (simple_ack_json k)) = Some k"
  by (simp_all add: registration_unmarshal_def registration_json_def introduce_unmarshal_def introduce_json_def rendezvous_hello_unmarshal_def
      rendezvous_hello_json_def service_ack_unmarshal_def service_ack_json_def unmarshal_marshal jobject_def name_simps)
    (cases "sa_error k = []"; simp add: simple_ack_unmarshal_def simple_ack_json_def unmarshal_marshal jobject_def name_simps)

subsection \<open>Acknowledgements\<close>

definition service_ack_message :: "service_ack \<Rightarrow> bytes \<Rightarrow> bytes \<Rightarrow> bytes" where
  "service_ack_message a client_eph client_nonce = string_bytes
     (''knotroute/service-ack/v1|'' @ sk_service a @ bar @ sk_ephemeral a @ bar @ sk_nonce a @ bar @ sk_cookie a @ bar
      @ b64_encode client_eph @ bar @ b64_encode client_nonce @ bar @ show_int (sint (sk_time a)))"

definition sign_service_ack ::
  "crypto \<Rightarrow> service_identity \<Rightarrow> time \<Rightarrow> string \<Rightarrow> bytes \<Rightarrow> bytes \<Rightarrow> bytes \<Rightarrow> bytes \<Rightarrow> service_ack" where
  "sign_service_ack C i now cookie client_eph client_nonce service_eph service_nonce =
     (let a = \<lparr> sk_service = service_string (sid_service i), sk_public_key = b64_encode (sid_public i),
            sk_ephemeral = b64_encode service_eph, sk_nonce = b64_encode service_nonce, sk_cookie = cookie,
            sk_time = unix now, sk_signature = [] \<rparr>
      in a\<lparr>sk_signature := b64_encode (service_sign C i (service_ack_message a client_eph client_nonce))\<rparr>)"

definition verify_service_ack ::
  "crypto \<Rightarrow> service_ack \<Rightarrow> service_id \<Rightarrow> bytes \<Rightarrow> bytes \<Rightarrow> time \<Rightarrow> (bytes \<times> bytes) result" where
  "verify_service_ack C a want client_eph client_nonce now =
     (if sk_service a \<noteq> service_string want then Inl ''service acknowledgement identity mismatch''
      else if outside_window 180 (unix now) (sk_time a) then Inl ''service acknowledgement timestamp outside allowed window''
      else (case decode32 (sk_public_key a) of None \<Rightarrow> Inl ''invalid service public key''
        | Some pub \<Rightarrow>
            if service_from_public_key C pub \<noteq> want then Inl ''invalid service public key''
            else (case decode32 (sk_ephemeral a) of None \<Rightarrow> Inl ''invalid service ephemeral key''
              | Some eph \<Rightarrow>
                  (case decode32 (sk_nonce a) of None \<Rightarrow> Inl ''invalid service nonce''
                   | Some nonce \<Rightarrow>
                       (case b64_decode (sk_signature a) of None \<Rightarrow> Inl ''invalid service acknowledgement signature''
                        | Some sig \<Rightarrow>
                            if ed_verify C pub (service_ack_message a client_eph client_nonce) sig then Inr (eph, nonce)
                            else Inl ''invalid service acknowledgement signature'')))))"

subsection \<open>Registrations\<close>

definition registration_message :: "string \<Rightarrow> string \<Rightarrow> string \<Rightarrow> int64 \<Rightarrow> bytes" where
  "registration_message service network intro expires = string_bytes
     (''knotroute/intro-registration/v1|'' @ network @ bar @ service @ bar @ intro @ bar @ show_int (sint expires))"

definition make_registration :: "crypto \<Rightarrow> service_identity \<Rightarrow> network_id \<Rightarrow> node_id \<Rightarrow> time \<Rightarrow> intro_registration" where
  "make_registration C i network intro now =
     (let m = \<lparr> ir_network = network_string network, ir_service = service_string (sid_service i), ir_public_key = b64_encode (sid_public i),
            ir_intro = node_string intro, ir_expires = unix (now + minutes 5), ir_signature = [] \<rparr>
      in m\<lparr>ir_signature := b64_encode (service_sign C i (registration_message (ir_service m) (ir_network m) (ir_intro m) (ir_expires m)))\<rparr>)"

definition verify_registration ::
  "crypto \<Rightarrow> intro_registration \<Rightarrow> network_id \<Rightarrow> node_id \<Rightarrow> time \<Rightarrow> service_id result" where
  "verify_registration C m network self now =
     (if ir_network m \<noteq> network_string network \<or> ir_intro m \<noteq> node_string self then Inl ''registration target mismatch''
      else if sint (ir_expires m) \<le> sint (unix now) \<or> sint (ir_expires m) > sint (unix (now + minutes 10)) then Inl ''invalid registration expiry''
      else (case service_parse (ir_service m) of Inl e \<Rightarrow> Inl e
        | Inr i \<Rightarrow>
            (case decode32 (ir_public_key m) of None \<Rightarrow> Inl ''invalid service identity''
             | Some pub \<Rightarrow>
                 if service_from_public_key C pub \<noteq> i then Inl ''invalid service identity''
                 else (case b64_decode (ir_signature m) of None \<Rightarrow> Inl ''invalid registration signature''
                   | Some sig \<Rightarrow>
                       if ed_verify C pub (registration_message (ir_service m) (ir_network m) (ir_intro m) (ir_expires m)) sig then Inr i
                       else Inl ''invalid registration signature''))))"

subsection \<open>The secured connection\<close>

record rendezvous_conn =
  rv_id :: service_id
  rv_cookie :: "32 barr"
  rv_send_key :: bytes
  rv_recv_key :: bytes
  rv_send_seq :: uint64
  rv_recv_seq :: uint64
  rv_buf :: bytes

definition new_rendezvous_conn :: "service_id \<Rightarrow> bytes \<Rightarrow> bytes \<Rightarrow> bytes \<Rightarrow> rendezvous_conn" where
  "new_rendezvous_conn i cookie send_key recv_key =
     \<lparr> rv_id = i, rv_cookie = arr_of cookie, rv_send_key = send_key, rv_recv_key = recv_key, rv_send_seq = 0, rv_recv_seq = 0, rv_buf = [] \<rparr>"

definition rv_aad :: "service_id \<Rightarrow> 32 barr \<Rightarrow> uint64 \<Rightarrow> bytes" where
  "rv_aad i cookie sq = service_bytes i @ arr_bytes cookie @ put_u64 sq"

definition rv_seal :: "crypto \<Rightarrow> bytes \<Rightarrow> service_id \<Rightarrow> 32 barr \<Rightarrow> uint64 \<Rightarrow> bytes \<Rightarrow> bytes result" where
  "rv_seal C key i cookie sq plain =
     (case new_aead key of Inl e \<Rightarrow> Inl e | Inr _ \<Rightarrow> Inr (gcm_seal C key (make_nonce C key sq) plain (rv_aad i cookie sq)))"

definition rv_open :: "crypto \<Rightarrow> bytes \<Rightarrow> service_id \<Rightarrow> 32 barr \<Rightarrow> uint64 \<Rightarrow> bytes \<Rightarrow> bytes result" where
  "rv_open C key i cookie sq ct =
     (case new_aead key of Inl e \<Rightarrow> Inl e
      | Inr _ \<Rightarrow> (case gcm_open C key (make_nonce C key sq) ct (rv_aad i cookie sq) of
            None \<Rightarrow> Inl ''rendezvous authentication failed'' | Some p \<Rightarrow> Inr p))"

definition rv_chunk :: nat where "rv_chunk = 32768"

definition rv_max_frame :: nat where "rv_max_frame = 1048576"

text \<open>\<open>Write\<close>: \<open>wr k\<close> is the outcome of the \<open>k\<close>-th write to the connection below; the result has the count, the error
  and what went out.\<close>

function rv_write ::
  "crypto \<Rightarrow> (nat \<Rightarrow> error option) \<Rightarrow> nat \<Rightarrow> rendezvous_conn \<Rightarrow> bytes \<Rightarrow> nat \<times> error option \<times> rendezvous_conn \<times> bytes" where
  "rv_write C wr k r p =
     (if p = [] then (0, None, r, [])
      else let m = min (length p) rv_chunk in
        (case rv_seal C (rv_send_key r) (rv_id r) (rv_cookie r) (rv_send_seq r) (take m p) of
           Inl e \<Rightarrow> (0, Some e, r, [])
         | Inr ct \<Rightarrow>
             let header = put_u32 (of_nat (8 + length ct)) @ put_u64 (rv_send_seq r) in
             if 8 + length ct > rv_max_frame then (0, Some ''rendezvous frame too large'', r, [])
             else (case wr k of Some e \<Rightarrow> (0, Some e, r, [])
               | None \<Rightarrow>
                   (case wr (k + 1) of Some e \<Rightarrow> (0, Some e, r, header)
                    | None \<Rightarrow>
                        (case rv_write C wr (k + 2) (r\<lparr>rv_send_seq := rv_send_seq r + 1\<rparr>) (drop m p) of
                           (sofar, e, r', out) \<Rightarrow> (m + sofar, e, r', header @ ct @ out))))))"
  by pat_completeness auto

termination
  by (relation "measure (\<lambda>(C, wr, k, r, p). length p)") (auto simp: rv_chunk_def)

declare rv_write.simps [simp del]

text \<open>\<open>Read\<close> into a buffer of \<open>cap\<close> bytes, from the bytes \<open>inp\<close> that the connection below yields.\<close>

definition rv_read :: "crypto \<Rightarrow> nat \<Rightarrow> rendezvous_conn \<Rightarrow> bytes \<Rightarrow> bytes result \<times> rendezvous_conn \<times> bytes" where
  "rv_read C cap r inp =
     (if rv_buf r \<noteq> [] then (Inr (take cap (rv_buf r)), r\<lparr>rv_buf := drop cap (rv_buf r)\<rparr>, inp)
      else (case read_full 12 inp of Inl e \<Rightarrow> (Inl e, r, [])
        | Inr (h, r1) \<Rightarrow>
            let ln = unat (get_u32 (take 4 h)); sq = get_u64 (drop 4 h) in
            if sq \<noteq> rv_recv_seq r
            then (Inl (''rendezvous sequence mismatch: got '' @ show_nat (unat sq) @ '' want '' @ show_nat (unat (rv_recv_seq r))), r, r1)
            else if ln < 24 \<or> ln > rv_max_frame then (Inl ''invalid rendezvous frame size'', r, r1)
            else (case read_full (ln - 8) r1 of Inl e \<Rightarrow> (Inl e, r, [])
              | Inr (ct, r2) \<Rightarrow>
                  (case rv_open C (rv_recv_key r) (rv_id r) (rv_cookie r) sq ct of Inl e \<Rightarrow> (Inl e, r, r2)
                   | Inr pt \<Rightarrow> (Inr (take cap pt), r\<lparr>rv_recv_seq := rv_recv_seq r + 1, rv_buf := drop cap pt\<rparr>, r2)))))"

definition rv_good :: "crypto \<times> bytes \<times> service_id \<times> 32 barr \<Rightarrow> bool" where
  "rv_good = (\<lambda>(C, key, i, cookie). aead_ok C \<and> length key = 32)"

interpretation rv_channel: seq_channel rv_good "\<lambda>(C, key, i, cookie). rv_seal C key i cookie" "\<lambda>(C, key, i, cookie). rv_open C key i cookie"
  by unfold_locales (auto simp: rv_good_def rv_seal_def rv_open_def new_aead_def aead_okD(1) dest: aead_okD(2) split: option.splits)

subsection \<open>Properties\<close>

lemma sign_service_ack_simps:
  "sk_service (sign_service_ack C i now cookie ce cn se sn) = service_string (sid_service i)"
  "sk_public_key (sign_service_ack C i now cookie ce cn se sn) = b64_encode (sid_public i)"
  "sk_ephemeral (sign_service_ack C i now cookie ce cn se sn) = b64_encode se" "sk_nonce (sign_service_ack C i now cookie ce cn se sn) = b64_encode sn"
  "sk_time (sign_service_ack C i now cookie ce cn se sn) = unix now"
  "sk_signature (sign_service_ack C i now cookie ce cn se sn) =
     b64_encode (service_sign C i (service_ack_message (sign_service_ack C i now cookie ce cn se sn) ce cn))"
  by (simp_all add: sign_service_ack_def Let_def service_ack_message_def)

lemma verify_sign_service_ack:
  assumes "good_service C i" "length se = 32" "length sn = 32" "\<not> outside_window 180 (unix now') (unix now)"
  shows "verify_service_ack C (sign_service_ack C i now cookie ce cn se sn) (sid_service i) ce cn now' = Inr (se, sn)"
  using assms good_serviceD [OF assms(1)]
  by (simp add: verify_service_ack_def sign_service_ack_simps(1-5) sign_service_ack_simps(6))

lemma verify_make_registration:
  assumes "good_service C i" "sint (unix now') < sint (unix (now + minutes 5))" "sint (unix (now + minutes 5)) \<le> sint (unix (now' + minutes 10))"
  shows "verify_registration C (make_registration C i w intro now) w intro now' = Inr (sid_service i)"
  using assms good_serviceD [OF assms(1)]
  by (simp add: verify_registration_def make_registration_def Let_def)

text \<open>Frames that carry a text: \<open>frames_of C key i cookie sq inp q\<close> says that \<open>inp\<close> is a sequence of sealed frames,
  numbered from \<open>sq\<close>, whose texts together are \<open>q\<close>.\<close>

inductive frames_of :: "crypto \<Rightarrow> bytes \<Rightarrow> service_id \<Rightarrow> 32 barr \<Rightarrow> uint64 \<Rightarrow> bytes \<Rightarrow> bytes \<Rightarrow> bool" for C key i cookie where
  none: "frames_of C key i cookie sq [] []"
| frame: "rv_seal C key i cookie sq p = Inr ct \<Longrightarrow> p \<noteq> [] \<Longrightarrow> length p \<le> rv_chunk \<Longrightarrow> frames_of C key i cookie (sq + 1) inp q \<Longrightarrow>
    frames_of C key i cookie sq (put_u32 (of_nat (8 + length ct)) @ put_u64 sq @ ct @ inp) (p @ q)"

inductive_cases frames_of_cons: "frames_of C key i cookie sq inp q"

lemma rv_seal_length: "aead_ok C \<Longrightarrow> rv_seal C key i cookie sq p = Inr ct \<Longrightarrow> length ct = length p + 16"
  by (auto simp: rv_seal_def aead_okD split: sum.splits)

lemma rv_write_frames:
  assumes "aead_ok C" "\<And>j. wr j = None"
  shows "length (rv_send_key r) = 32 \<Longrightarrow>
    \<exists>r' out. rv_write C wr k r p = (length p, None, r', out) \<and> frames_of C (rv_send_key r) (rv_id r) (rv_cookie r) (rv_send_seq r) out p"
proof (induction "length p" arbitrary: k r p rule: less_induct)
  case less
  show ?case
  proof (cases "p = []")
    case False
    let ?m = "min (length p) rv_chunk" and ?r = "r\<lparr>rv_send_seq := rv_send_seq r + 1\<rparr>"
    have m: "0 < ?m" using False by (simp add: rv_chunk_def)
    obtain ct where ct: "rv_seal C (rv_send_key r) (rv_id r) (rv_cookie r) (rv_send_seq r) (take ?m p) = Inr ct"
      using less(2) by (auto simp: rv_seal_def new_aead_def)
    have "length ct = ?m + 16" using rv_seal_length [OF assms(1) ct] by simp
    then have l: "\<not> 8 + length ct > rv_max_frame" by (simp add: rv_chunk_def rv_max_frame_def)
    have "length (drop ?m p) < length p" using m False by auto
    then obtain r' out where ih: "rv_write C wr (k + 2) ?r (drop ?m p) = (length (drop ?m p), None, r', out)"
      "frames_of C (rv_send_key r) (rv_id r) (rv_cookie r) (rv_send_seq r + 1) out (drop ?m p)"
      using less(1) [of "drop ?m p" ?r "k + 2"] less(2) by auto
    have "rv_write C wr k r p = (length p, None, r', put_u32 (of_nat (8 + length ct)) @ put_u64 (rv_send_seq r) @ ct @ out)"
      by (subst rv_write.simps) (use False ct l ih(1) assms(2) in \<open>simp add: Let_def\<close>)
    moreover have "frames_of C (rv_send_key r) (rv_id r) (rv_cookie r) (rv_send_seq r)
        (put_u32 (of_nat (8 + length ct)) @ put_u64 (rv_send_seq r) @ ct @ out) (take ?m p @ drop ?m p)"
      by (rule frames_of.frame [OF ct _ _ ih(2)]) (use m False in auto)
    ultimately show ?thesis by simp
  qed (simp add: rv_write.simps frames_of.none)
qed

text \<open>What a reader still holds: its buffer and the frames that come.\<close>

definition rv_holds :: "crypto \<Rightarrow> rendezvous_conn \<Rightarrow> bytes \<Rightarrow> bytes \<Rightarrow> bool" where
  "rv_holds C r inp q \<longleftrightarrow> length (rv_recv_key r) = 32 \<and>
     (\<exists>q'. q = rv_buf r @ q' \<and> frames_of C (rv_recv_key r) (rv_id r) (rv_cookie r) (rv_recv_seq r) inp q')"

lemma rv_read_holds:
  assumes "aead_ok C" "rv_holds C r inp q" "q \<noteq> []" "0 < cap"
  shows "\<exists>x r' inp' q'. rv_read C cap r inp = (Inr x, r', inp') \<and> x \<noteq> [] \<and> length x \<le> cap \<and> q = x @ q' \<and> rv_holds C r' inp' q'"
proof (cases "rv_buf r")
  case (Cons b bs)
  obtain q' where q': "q = rv_buf r @ q'" using assms(2) by (auto simp: rv_holds_def)
  show ?thesis
    using assms(2,4) q'
    by (intro exI [of _ "take cap (rv_buf r)"] exI [of _ "r\<lparr>rv_buf := drop cap (rv_buf r)\<rparr>"] exI [of _ inp] exI [of _ "drop cap (rv_buf r) @ q'"])
      (auto simp: rv_read_def Cons rv_holds_def)
next
  case Nil
  let ?f = "frames_of C (rv_recv_key r) (rv_id r) (rv_cookie r)"
  have f: "?f (rv_recv_seq r) inp q" and key: "length (rv_recv_key r) = 32" using assms(2) by (auto simp: rv_holds_def Nil)
  from f assms(3) obtain p ct rest q' where fr: "inp = put_u32 (of_nat (8 + length ct)) @ put_u64 (rv_recv_seq r) @ ct @ rest" "q = p @ q'" "p \<noteq> []"
    "length p \<le> rv_chunk" "rv_seal C (rv_recv_key r) (rv_id r) (rv_cookie r) (rv_recv_seq r) p = Inr ct" "?f (rv_recv_seq r + 1) rest q'"
    by (cases rule: frames_of.cases) auto
  have ct: "length ct = length p + 16" by (rule rv_seal_length [OF assms(1) fr(5)])
  have k: "unat (of_nat (8 + length ct) :: 32 word) = 8 + length ct"
    using ct fr(4) by (simp only: unat_of_nat) (simp add: rv_chunk_def)
  have open_ct: "rv_open C (rv_recv_key r) (rv_id r) (rv_cookie r) (rv_recv_seq r) ct = Inr p"
    using rv_channel.open_seal [of "(C, rv_recv_key r, rv_id r, rv_cookie r)"] fr(5) assms(1) key by (simp add: rv_good_def)
  have "read_full 12 inp = Inr (put_u32 (of_nat (8 + length ct)) @ put_u64 (rv_recv_seq r), ct @ rest)"
    using read_full_append [of "put_u32 (of_nat (8 + length ct)) @ put_u64 (rv_recv_seq r)" 12 "ct @ rest"] by (simp add: fr(1))
  then have "rv_read C cap r inp = (Inr (take cap p), r\<lparr>rv_recv_seq := rv_recv_seq r + 1, rv_buf := drop cap p\<rparr>, rest)"
    using k ct fr(3,4) open_ct read_full_append [of ct "length ct" rest]
    by (simp add: rv_read_def Nil Let_def rv_max_frame_def rv_chunk_def Suc_le_eq)
  then show ?thesis
    using fr(2,3,6) key assms(4)
    by (intro exI [of _ "take cap p"] exI [of _ "r\<lparr>rv_recv_seq := rv_recv_seq r + 1, rv_buf := drop cap p\<rparr>"] exI [of _ rest]
        exI [of _ "drop cap p @ q'"]) (auto simp: rv_holds_def)
qed

text \<open>Reads with buffers of the given sizes, until nothing is left.\<close>

fun rv_reads :: "crypto \<Rightarrow> nat list \<Rightarrow> rendezvous_conn \<Rightarrow> bytes \<Rightarrow> bytes result" where
  "rv_reads C [] r inp = Inr []"
| "rv_reads C (cap # caps) r inp =
     (if rv_buf r = [] \<and> inp = [] then Inr []
      else (case rv_read C cap r inp of (Inl e, _, _) \<Rightarrow> Inl e
        | (Inr x, r', inp') \<Rightarrow> (case rv_reads C caps r' inp' of Inl e \<Rightarrow> Inl e | Inr y \<Rightarrow> Inr (x @ y))))"

lemma rv_holds_Nil: "rv_holds C r inp [] \<Longrightarrow> rv_buf r = [] \<and> inp = []"
  by (auto simp: rv_holds_def elim: frames_of.cases)

lemma rv_reads_holds:
  assumes "aead_ok C"
  shows "rv_holds C r inp q \<Longrightarrow> list_all ((<) 0) caps \<Longrightarrow>
    \<exists>out rest. rv_reads C caps r inp = Inr out \<and> q = out @ rest \<and> (length q \<le> length caps \<longrightarrow> rest = [])"
proof (induction caps arbitrary: r inp q)
  case (Cons cap caps)
  show ?case
  proof (cases "q = []")
    case True
    then show ?thesis using rv_holds_Nil Cons.prems(1) by fastforce
  next
    case False
    obtain x r' inp' q' where x: "rv_read C cap r inp = (Inr x, r', inp')" "x \<noteq> []" "q = x @ q'" "rv_holds C r' inp' q'"
      using rv_read_holds [OF assms Cons.prems(1) False, of cap] Cons.prems(2) by auto
    obtain out rest where o: "rv_reads C caps r' inp' = Inr out" "q' = out @ rest" "length q' \<le> length caps \<longrightarrow> rest = []"
      using Cons.IH [OF x(4)] Cons.prems(2) by auto
    have "\<not> (rv_buf r = [] \<and> inp = [])" using x(1) by (auto simp: rv_read_def read_full_def)
    then show ?thesis using x o by (cases x) auto
  qed
qed simp

text \<open>C14. A rendezvous connection is a byte stream: whatever is written at one end, in frames of at most 32 KiB
  sealed and numbered, is read at the other end as the same bytes in order, whatever the sizes of the read buffers.\<close>

theorem rendezvous_refines_bytes:
  assumes "aead_ok C" "length (rv_send_key r) = 32" "\<forall>j. wr j = None" "0 \<notin> set caps"
    and "rv_recv_key s = rv_send_key r" "rv_id s = rv_id r" "rv_cookie s = rv_cookie r" "rv_recv_seq s = rv_send_seq r" "rv_buf s = []"
  shows "\<exists>r' wire out rest. rv_write C wr 0 r p = (length p, None, r', wire) \<and> rv_reads C caps s wire = Inr out \<and> p = out @ rest \<and>
    (length p \<le> length caps \<longrightarrow> rest = [])"
proof -
  obtain r' wire where w: "rv_write C wr 0 r p = (length p, None, r', wire)"
    "frames_of C (rv_send_key r) (rv_id r) (rv_cookie r) (rv_send_seq r) wire p"
    using rv_write_frames [OF assms(1) _ assms(2), of wr 0 p] assms(3) by blast
  then have "rv_holds C s wire p" using assms by (simp add: rv_holds_def)
  from rv_reads_holds [OF assms(1) this, of caps] assms(4) w(1) show ?thesis
    by (auto simp: list_all_iff) (metis gr0I)+
qed

lemma rendezvous_refines_bytes_witness:
  "\<exists>r' wire. rv_write toy (\<lambda>j. None) 0 (new_rendezvous_conn (ServiceID (arr_of [9])) [1] (replicate 32 3) (replicate 32 4)) [10, 20, 30] = (3, None, r', wire) \<and>
    rv_reads toy [1, 5, 1] (new_rendezvous_conn (ServiceID (arr_of [9])) [1] (replicate 32 4) (replicate 32 3)) wire = Inr [10, 20, 30]"
  using rendezvous_refines_bytes [OF toy_aead_ok, of "new_rendezvous_conn (ServiceID (arr_of [9])) [1] (replicate 32 3) (replicate 32 4)" "\<lambda>j. None"
      "[1, 5, 1]" "new_rendezvous_conn (ServiceID (arr_of [9])) [1] (replicate 32 4) (replicate 32 3)" "[10, 20, 30]"]
  by (auto simp: new_rendezvous_conn_def simp del: rv_reads.simps)

text \<open>A service's acknowledgement reaches the client that asked: it passes the client's check with the service's
  key and nonce when it was signed for the client's key and nonce within three minutes, and both then derive
  the same two keys.\<close>

theorem service_ack_accepted:
  assumes "good_service C i" "dh_ok C" "length sn = 32" "\<not> outside_window 180 (unix now') (unix now)"
    and "derive_rendezvous_keys C spriv (x_public C cpriv) cn sn (sid_service i) cookie = Inr (c2s, s2c)"
  shows "\<exists>a. service_ack_unmarshal (marshal (service_ack_json (sign_service_ack C i now ck (x_public C cpriv) cn (x_public C spriv) sn))) = Some a \<and>
    verify_service_ack C a (sid_service i) (x_public C cpriv) cn now' = Inr (x_public C spriv, sn) \<and>
    derive_rendezvous_keys C cpriv (x_public C spriv) cn sn (sid_service i) cookie = Inr (c2s, s2c) \<and>
    (\<forall>other. other \<noteq> sid_service i \<longrightarrow> \<not> is_ok (verify_service_ack C a other (x_public C cpriv) cn now'))"
  using verify_sign_service_ack [OF assms(1) dh_okD(1) [OF assms(2)] assms(3,4)] rendezvous_keys_agree [OF assms(2)] assms(5)
  by (auto simp: rendezvous_messages_roundtrip verify_service_ack_def sign_service_ack_simps(1))

lemma service_ack_accepted_witness:
  "\<exists>a. verify_service_ack toy a (sid_service (service_generate toy (replicate 32 0 @ replicate 32 9))) (x_public toy [1]) [2] 0 =
    Inr (x_public toy [3], replicate 32 4)"
proof -
  let ?i = "service_generate toy (replicate 32 0 @ replicate 32 9)"
  have g: "good_service toy ?i" by (rule good_generate(2) [OF toy_signs]) simp
  have "is_ok (shared_secret toy [3] (x_public toy [1]))" by (simp add: shared_secret_def toy_def)
  then obtain c2s s2c where k: "derive_rendezvous_keys toy [3] (x_public toy [1]) [2] (replicate 32 4) (sid_service ?i) [5] = Inr (c2s, s2c)"
    by (auto simp: is_ok_iff derive_rendezvous_keys_def Let_def)
  show ?thesis
    using service_ack_accepted [OF g toy_dh_ok _ _ k, of 0 0 "''c''"] by (auto simp: outside_window_def)
qed

end
