(* ===== verification/Rendezvous.thy ===== *)
theory Rendezvous
  imports Stream Rendezvous_Crypto
begin

section \<open>Introduction points and rendezvous\<close>

text \<open>
  \<open>internal/overlay/rendezvous.go\<close> with the rest of \<open>local_service.go\<close>: the internal services of a node (registrations at an
  introduction point, forwarded introductions, pairing at a rendezvous), a service that keeps itself introduced
  and accepts introductions, and a client that opens a service. The goroutines are steps between their reads and
  openings: what a step reads (\<open>bytes result\<close>, the body of a control message) and the connection a circuit
  gives it are arguments. An internal service is one end of a pipe, whose number also names the other end;
  \<open>rz_out\<close> and \<open>rz_closed\<close> are what the handlers' ends wrote and closed. The text of a JSON error is not modelled;
  it is written \<open>json\<close>.
\<close>

subsection \<open>State\<close>

record registration =
  rg_conn :: nat
  rg_expires :: time
  rg_source :: node_id

record rendezvous_wait =
  rw_role :: string
  rw_conn :: nat
  rw_expires :: time
  rw_source :: node_id

record rv_node = stream_node +
  rz_registrations :: "(service_id \<times> registration) list"
  rz_waiting :: "(string \<times> rendezvous_wait) list"
  rz_out :: "(nat \<times> bytes) list"
  rz_closed :: "nat list"

definition init_rendezvous :: "stream_node \<Rightarrow> rv_node" where
  "init_rendezvous n = stream_node.extend (n\<lparr>ds_local := map (\<lambda>(name, s). (name, s\<lparr>ps_intros := [], ps_dialing := []\<rparr>)) (ds_local n)\<rparr>)
     (rv_node.fields [] [] [] [])"

subsection \<open>Connections\<close>

definition pipe_error :: error where
  "pipe_error = ''io: read/write on closed pipe''"

text \<open>A handler writes to its end of a pipe; \<open>fail\<close> is an error of the write, should there be one.\<close>

definition handler_write :: "error option \<Rightarrow> nat \<Rightarrow> bytes \<Rightarrow> 'a rv_node_scheme \<Rightarrow> unit result \<times> 'a rv_node_scheme" where
  "handler_write fail c bs n =
     (if c \<in> set (rz_closed n) \<or> c \<in> set (cs_app_closed n) then (Inl pipe_error, n)
      else (case fail of Some e \<Rightarrow> (Inl e, n) | None \<Rightarrow> (Inr (), n\<lparr>rz_out := rz_out n @ [(c, bs)]\<rparr>)))"

definition handler_send :: "error option \<Rightarrow> nat \<Rightarrow> json \<Rightarrow> 'a rv_node_scheme \<Rightarrow> unit result \<times> 'a rv_node_scheme" where
  "handler_send fail c j n =
     (case write_control (marshal j) of Inl e \<Rightarrow> (Inl e, n) | Inr bs \<Rightarrow> handler_write fail c bs n)"

definition close_handler :: "nat \<Rightarrow> 'a rv_node_scheme \<Rightarrow> 'a rv_node_scheme" where
  "close_handler c n = n\<lparr>rz_closed := c # rz_closed n\<rparr>"

text \<open>The deferred end of the goroutine of \<open>internalService\<close>.\<close>

definition end_internal :: "nat \<Rightarrow> 'a rv_node_scheme \<Rightarrow> 'a rv_node_scheme" where
  "end_internal c n = close_handler c (n\<lparr>cs_internal := filter (\<lambda>(d, _). d \<noteq> c) (cs_internal n)\<rparr>)"

definition close_internal_services :: "'a rv_node_scheme \<Rightarrow> 'a rv_node_scheme" where
  "close_internal_services n = fold close_handler (map fst (cs_internal n)) n"

text \<open>The other side: a pipe to an own internal service, or a circuit.\<close>

datatype endpoint = Pipe_end nat | Circuit_end circuit_conn

definition end_write :: "crypto \<Rightarrow> env \<Rightarrow> (nat \<times> error) option \<Rightarrow> endpoint \<Rightarrow> bytes \<Rightarrow> 'a rv_node_scheme \<Rightarrow> unit result \<times> 'a rv_node_scheme" where
  "end_write C E fail ep bs n =
     (case ep of Pipe_end c \<Rightarrow> write_conn fail c bs n
      | Circuit_end cc \<Rightarrow> (case conn_write C E cc bs n of (_, Some e, n1) \<Rightarrow> (Inl e, n1) | (_, None, n1) \<Rightarrow> (Inr (), n1)))"

definition end_send :: "crypto \<Rightarrow> env \<Rightarrow> (nat \<times> error) option \<Rightarrow> endpoint \<Rightarrow> json \<Rightarrow> 'a rv_node_scheme \<Rightarrow> unit result \<times> 'a rv_node_scheme" where
  "end_send C E fail ep j n =
     (case write_control (marshal j) of Inl e \<Rightarrow> (Inl e, n) | Inr bs \<Rightarrow> end_write C E fail ep bs n)"

definition end_close :: "crypto \<Rightarrow> env \<Rightarrow> endpoint \<Rightarrow> 'a rv_node_scheme \<Rightarrow> 'a rv_node_scheme" where
  "end_close C E ep n = (case ep of Pipe_end c \<Rightarrow> close_app (Some c) n | Circuit_end cc \<Rightarrow> snd (conn_close C E cc n))"

text \<open>\<open>openInternalEndpoint\<close>: a pipe at once, or a circuit to build (\<open>None\<close>: the drawing of its identifier does not end).\<close>

definition open_internal_endpoint ::
  "crypto \<Rightarrow> env \<Rightarrow> draw \<Rightarrow> node_id \<Rightarrow> string \<Rightarrow> 'a rv_node_scheme \<Rightarrow> ((endpoint result + build) \<times> 'a rv_node_scheme) option" where
  "open_internal_endpoint C E R dst name n =
     (if dst = nd_self n then
        Some (case internal_service R name (nd_self n) n of
            Some (c, n1) \<Rightarrow> (Inl (Inr (Pipe_end c)), n1) | None \<Rightarrow> (Inl (Inl ''unknown internal service''), n))
      else (case stream_start C E R dst name n of None \<Rightarrow> None
        | Some (Inl (Inl e), n1) \<Rightarrow> Some (Inl (Inl e), n1)
        | Some (Inl (Inr c), n1) \<Rightarrow> Some (Inl (Inr (Pipe_end c)), n1)
        | Some (Inr b, n1) \<Rightarrow> Some (Inr b, n1)))"

subsection \<open>An introduction point\<close>

definition ack_ok :: simple_ack where "ack_ok = \<lparr> sa_ok = True, sa_error = [] \<rparr>"
definition ack_error :: "error \<Rightarrow> simple_ack" where "ack_error e = \<lparr> sa_ok = False, sa_error = e \<rparr>"

text \<open>\<open>handleIntroRegister\<close> up to the read that waits for the connection to end: \<open>Some\<close> the service it waits for.
  When the acknowledgement cannot be written the registration stays.\<close>

definition set_registration :: "service_id \<Rightarrow> registration \<Rightarrow> 'a rv_node_scheme \<Rightarrow> 'a rv_node_scheme" where
  "set_registration i reg n =
     (let n1 = n\<lparr>rz_registrations := AList.update i reg (rz_registrations n)\<rparr>
      in (case map_of (rz_registrations n) i of None \<Rightarrow> n1 | Some old \<Rightarrow> close_handler (rg_conn old) n1))"

definition intro_register ::
  "crypto \<Rightarrow> env \<Rightarrow> error option \<Rightarrow> bytes result \<Rightarrow> nat \<Rightarrow> node_id \<Rightarrow> 'a rv_node_scheme \<Rightarrow> service_id option \<times> 'a rv_node_scheme" where
  "intro_register C E fail msg c source n =
     (case (case msg of Inl e \<Rightarrow> None | Inr raw \<Rightarrow> registration_unmarshal raw) of None \<Rightarrow> (None, end_internal c n)
      | Some m \<Rightarrow>
          (case verify_registration C m (nd_network n) (nd_self n) (en_now E) of
             Inl e \<Rightarrow> (None, end_internal c (snd (handler_send fail c (simple_ack_json (ack_error e)) n)))
           | Inr i \<Rightarrow>
               let reg = \<lparr> rg_conn = c, rg_expires = sint (ir_expires m) * 1000000000, rg_source = source \<rparr>
               in (case handler_send fail c (simple_ack_json ack_ok) (set_registration i reg n) of
                     (Inl _, n1) \<Rightarrow> (None, end_internal c n1)
                   | (Inr _, n1) \<Rightarrow> (Some i, add_event E ''info'' (''introduction registration for '' @ service_short i @ '' via '' @ node_short source) n1))))"

definition intro_register_end :: "service_id \<Rightarrow> nat \<Rightarrow> 'a rv_node_scheme \<Rightarrow> 'a rv_node_scheme" where
  "intro_register_end i c n =
     end_internal c (if map_option rg_conn (map_of (rz_registrations n) i) = Some c
       then n\<lparr>rz_registrations := AList.delete i (rz_registrations n)\<rparr> else n)"

text \<open>The checks of \<open>handleIntroduce\<close>.\<close>

definition check_introduce :: "env \<Rightarrow> introduce_request \<Rightarrow> service_id result" where
  "check_introduce E q =
     (case service_parse (iq_service q) of Inl _ \<Rightarrow> Inl ''invalid service id''
      | Inr i \<Rightarrow>
          if outside_window 180 (unix (en_now E)) (iq_time q) then Inl ''stale introduction''
          else if \<not> is_ok (node_parse (iq_rendezvous q)) then Inl ''invalid rendezvous''
          else if b64_decode (iq_cookie q) = None then Inl ''invalid cookie''
          else Inr i)"

definition live_registration :: "env \<Rightarrow> service_id \<Rightarrow> 'a rv_node_scheme \<Rightarrow> registration option \<times> 'a rv_node_scheme" where
  "live_registration E i n =
     (case map_of (rz_registrations n) i of None \<Rightarrow> (None, n)
      | Some reg \<Rightarrow> if en_now E > rg_expires reg then (None, n\<lparr>rz_registrations := AList.delete i (rz_registrations n)\<rparr>) else (Some reg, n))"

definition handle_introduce ::
  "env \<Rightarrow> error option \<Rightarrow> error option \<Rightarrow> bytes result \<Rightarrow> nat \<Rightarrow> node_id \<Rightarrow> 'a rv_node_scheme \<Rightarrow> 'a rv_node_scheme" where
  "handle_introduce E fail fail' msg c source n =
     end_internal c
       (case (case msg of Inl e \<Rightarrow> Inl e | Inr raw \<Rightarrow> (case introduce_unmarshal raw of None \<Rightarrow> Inl ''json'' | Some q \<Rightarrow> Inr q)) of
          Inl e \<Rightarrow> add_event E ''warn'' (''introduce read: '' @ e) n
        | Inr q \<Rightarrow>
            (case check_introduce E q of Inl e \<Rightarrow> snd (handler_send fail' c (simple_ack_json (ack_error e)) n)
             | Inr i \<Rightarrow>
                (case live_registration E i n of
                   (None, n1) \<Rightarrow> snd (handler_send fail' c (simple_ack_json (ack_error ''service is not registered at this introduction point''))
                     (add_event E ''warn'' (''introduce: no registration for '' @ service_short i) n1))
                 | (Some reg, n1) \<Rightarrow>
                    (case handler_send fail (rg_conn reg) (introduce_json q) n1 of
                       (Inl e, n2) \<Rightarrow> snd (handler_send fail' c (simple_ack_json (ack_error ''introduction channel unavailable''))
                         (add_event E ''warn'' (''introduce forward: '' @ e) n2))
                     | (Inr _, n2) \<Rightarrow>
                        (case handler_send fail' c (simple_ack_json ack_ok) n2 of
                           (Inl e, n3) \<Rightarrow> add_event E ''warn'' (''introduce ack: '' @ e) n3
                         | (Inr _, n3) \<Rightarrow> add_event E ''info'' (''forwarded introduction for '' @ service_short i @ '' from '' @ node_short source) n3)))))"

subsection \<open>A rendezvous\<close>

datatype meeting = Meeting_ended | Meeting_waits | Met nat nat

definition purge_waiting :: "env \<Rightarrow> 'a rv_node_scheme \<Rightarrow> 'a rv_node_scheme" where
  "purge_waiting E n =
     fold close_handler (map (\<lambda>(k, w). rw_conn w) (filter (\<lambda>(k, w). en_now E > rw_expires w) (rz_waiting n)))
       (n\<lparr>rz_waiting := filter (\<lambda>(k, w). \<not> en_now E > rw_expires w) (rz_waiting n)\<rparr>)"

definition handle_rendezvous ::
  "env \<Rightarrow> bytes result \<Rightarrow> nat \<Rightarrow> node_id \<Rightarrow> 'a rv_node_scheme \<Rightarrow> meeting \<times> 'a rv_node_scheme" where
  "handle_rendezvous E msg c source n0 =
     (case (case msg of Inl e \<Rightarrow> None | Inr raw \<Rightarrow> rendezvous_hello_unmarshal raw) of None \<Rightarrow> (Meeting_ended, end_internal c n0)
      | Some h \<Rightarrow>
          if rh_role h \<noteq> ''client'' \<and> rh_role h \<noteq> ''service'' then (Meeting_ended, end_internal c n0)
          else if decode32 (rh_cookie h) = None then (Meeting_ended, end_internal c n0)
          else let n = purge_waiting E n0 in
            (case map_of (rz_waiting n) (rh_cookie h) of
               None \<Rightarrow>
                 (Meeting_waits, n\<lparr>rz_waiting := AList.update (rh_cookie h)
                    \<lparr> rw_role = rh_role h, rw_conn = c, rw_expires = en_now E + seconds 90, rw_source = source \<rparr> (rz_waiting n)\<rparr>)
             | Some first \<Rightarrow>
                 if rw_role first = rh_role h then (Meeting_ended, end_internal c n)
                 else (Met (rw_conn first) c, add_event E ''info'' (''rendezvous paired '' @ node_short (rw_source first) @ '' and '' @ node_short source)
                   (n\<lparr>rz_waiting := AList.delete (rh_cookie h) (rz_waiting n), sn_proxies := sn_proxies n @ [(rw_conn first, c)]\<rparr>))))"

text \<open>The waiting handler wakes up when its \<open>done\<close> is closed or the node stops; the proxy of a pair ends.\<close>

definition rendezvous_wake :: "nat \<Rightarrow> 'a rv_node_scheme \<Rightarrow> 'a rv_node_scheme" where
  "rendezvous_wake c n = end_internal c n"

definition rendezvous_part :: "nat \<Rightarrow> nat \<Rightarrow> 'a rv_node_scheme \<Rightarrow> 'a rv_node_scheme" where
  "rendezvous_part first c n = end_internal c (end_internal first (n\<lparr>sn_proxies := remove1 (first, c) (sn_proxies n)\<rparr>))"

subsection \<open>A service that keeps itself introduced\<close>

text \<open>One round of \<open>maintainIntro\<close>. A session is known by the number of its connection.\<close>

datatype introducing = Intro_failed error | Intro_registering endpoint | Intro_session endpoint

definition update_service :: "string \<Rightarrow> (published_service \<Rightarrow> published_service) \<Rightarrow> 'a dir_node_scheme \<Rightarrow> 'a dir_node_scheme" where
  "update_service name f n = (case map_of (ds_local n) name of None \<Rightarrow> n | Some s \<Rightarrow> put_service name (f s) n)"

definition intro_warn :: "env \<Rightarrow> string \<Rightarrow> node_id \<Rightarrow> error \<Rightarrow> 'a node_scheme \<Rightarrow> 'a node_scheme" where
  "intro_warn E name dst e n =
     (if nd_stopped n then n else add_event E ''warn'' (''introduction '' @ name @ '' via '' @ node_short dst @ '': '' @ e) n)"

definition intro_opened ::
  "crypto \<Rightarrow> env \<Rightarrow> (nat \<times> error) option \<Rightarrow> string \<Rightarrow> published_service \<Rightarrow> node_id \<Rightarrow> endpoint result \<Rightarrow> 'a rv_node_scheme
    \<Rightarrow> introducing \<times> 'a rv_node_scheme" where
  "intro_opened C E fail name s dst r n =
     (case r of Inl e \<Rightarrow> (Intro_failed e, intro_warn E name dst e n)
      | Inr ep \<Rightarrow>
          (case end_send C E fail ep (registration_json (make_registration C (ps_identity s) (nd_network n) dst (en_now E))) n of
             (Inl e, n1) \<Rightarrow> (Intro_failed e, intro_warn E name dst e (end_close C E ep n1))
           | (Inr _, n1) \<Rightarrow> (Intro_registering ep, n1)))"

definition intro_acked ::
  "crypto \<Rightarrow> env \<Rightarrow> nat \<Rightarrow> string \<Rightarrow> node_id \<Rightarrow> endpoint \<Rightarrow> bytes result \<Rightarrow> 'a rv_node_scheme \<Rightarrow> introducing \<times> 'a rv_node_scheme" where
  "intro_acked C E session name dst ep msg n =
     (case (case msg of Inl e \<Rightarrow> Inl e
          | Inr raw \<Rightarrow> (case simple_ack_unmarshal raw of None \<Rightarrow> Inl ''json'' | Some a \<Rightarrow> if sa_ok a then Inr () else Inl (sa_error a))) of
        Inl e \<Rightarrow> (Intro_failed e, intro_warn E name dst e (end_close C E ep n))
      | Inr _ \<Rightarrow> (Intro_session ep, wake_publisher (add_event E ''info'' (''service '' @ name @ '' introduced at '' @ node_short dst)
          (update_service name (\<lambda>s. s\<lparr>ps_intros := AList.update dst session (ps_intros s)\<rparr>) n))))"

text \<open>The end of \<open>readIntroductions\<close>.\<close>

definition intro_lost ::
  "crypto \<Rightarrow> env \<Rightarrow> nat \<Rightarrow> string \<Rightarrow> node_id \<Rightarrow> endpoint \<Rightarrow> 'a rv_node_scheme \<Rightarrow> 'a rv_node_scheme" where
  "intro_lost C E session name dst ep n =
     end_close C E ep
       (case map_of (ds_local n) name of None \<Rightarrow> n
        | Some s \<Rightarrow>
            if map_of (ps_intros s) dst = Some session
            then wake_publisher (put_service name (s\<lparr>ps_intros := AList.delete dst (ps_intros s)\<rparr>) n) else n)"

definition next_backoff :: "int \<Rightarrow> int" where
  "next_backoff b = (if b < seconds 30 then b * 2 else b)"

definition intro_stop :: "string \<Rightarrow> node_id \<Rightarrow> 'a dir_node_scheme \<Rightarrow> 'a dir_node_scheme" where
  "intro_stop name dst n = update_service name (\<lambda>s. s\<lparr>ps_dialing := removeAll dst (ps_dialing s)\<rparr>) n"

text \<open>\<open>acceptIntroduction\<close>: what it takes from the request, and what it does with the connection to the rendezvous.\<close>

definition accept_introduction :: "env \<Rightarrow> service_id \<Rightarrow> introduce_request \<Rightarrow> (node_id \<times> bytes \<times> bytes \<times> bytes) option" where
  "accept_introduction E i q =
     (if iq_service q \<noteq> service_string i \<or> en_now E - sint (iq_time q) * 1000000000 > minutes 3 then None
      else (case node_parse (iq_rendezvous q) of Inl _ \<Rightarrow> None
        | Inr rv \<Rightarrow>
            (case (decode32 (iq_cookie q), decode32 (iq_ephemeral q), decode32 (iq_nonce q)) of
               (Some cookie, Some eph, Some nonce) \<Rightarrow> Some (rv, cookie, eph, nonce) | _ \<Rightarrow> None)))"

definition introduction_connected ::
  "crypto \<Rightarrow> env \<Rightarrow> draw \<Rightarrow> (nat \<times> error) option \<Rightarrow> (nat \<times> error) option \<Rightarrow> published_service \<Rightarrow> introduce_request
    \<Rightarrow> bytes \<times> bytes \<times> bytes \<Rightarrow> endpoint \<Rightarrow> 'a rv_node_scheme \<Rightarrow> (rendezvous_conn \<times> nat) option \<times> 'a rv_node_scheme" where
  "introduction_connected C E R fail fail' s q got ep n =
     (case got of (cookie, eph, nonce) \<Rightarrow>
        (case end_send C E fail ep (rendezvous_hello_json \<lparr> rh_role = ''service'', rh_cookie = iq_cookie q \<rparr>) n of
           (Inl _, n1) \<Rightarrow> (None, end_close C E ep n1)
         | (Inr _, n1) \<Rightarrow>
             (case end_send C E fail' ep (service_ack_json (sign_service_ack C (ps_identity s) (en_now E) (iq_cookie q) eph nonce
                  (x_public C (dw_private R)) (dw_nonce R))) n1 of
                (Inl _, n2) \<Rightarrow> (None, end_close C E ep n2)
              | (Inr _, n2) \<Rightarrow>
                  (case derive_rendezvous_keys C (dw_private R) eph nonce (dw_nonce R) (sid_service (ps_identity s)) cookie of
                     Inl _ \<Rightarrow> (None, end_close C E ep n2)
                   | Inr (c2s, s2c) \<Rightarrow>
                       (case dw_dial R (sc_target (ps_cfg s)) of Inl _ \<Rightarrow> (None, end_close C E ep n2)
                        | Inr t \<Rightarrow> (Some (new_rendezvous_conn (sid_service (ps_identity s)) cookie s2c c2s, t), n2))))))"

subsection \<open>A client that opens a service\<close>

definition local_published_service :: "service_id \<Rightarrow> 'a dir_node_scheme \<Rightarrow> service_config option" where
  "local_published_service i n = map_option (ps_cfg \<circ> snd) (find (\<lambda>(name, s). sid_service (ps_identity s) = i) (ds_local n))"

definition dial_local_service :: "draw \<Rightarrow> service_config \<Rightarrow> nat result" where
  "dial_local_service R s = (case dw_dial R (sc_target s) of Inl e \<Rightarrow> Inl (''service target unavailable: '' @ e) | Inr c \<Rightarrow> Inr c)"

text \<open>\<open>OpenService\<close>: at most two attempts, the first with a cached descriptor.\<close>

datatype service_opening = Service_local "nat result" | Service_lookup nat looking | Service_failed error

definition open_service_attempt ::
  "env \<Rightarrow> (packet \<Rightarrow> 'a rv_node_scheme \<Rightarrow> 'a rv_node_scheme) \<Rightarrow> 16 barr \<Rightarrow> (nat \<Rightarrow> 16 barr) \<Rightarrow> service_id \<Rightarrow> nat \<Rightarrow> 'a rv_node_scheme
    \<Rightarrow> service_opening \<times> 'a rv_node_scheme" where
  "open_service_attempt E local req fresh i attempt n =
     (case lookup_start E local req fresh i (attempt = 0) n of (l, n1) \<Rightarrow> (Service_lookup attempt l, n1))"

definition open_service ::
  "env \<Rightarrow> (packet \<Rightarrow> 'a rv_node_scheme \<Rightarrow> 'a rv_node_scheme) \<Rightarrow> draw \<Rightarrow> 16 barr \<Rightarrow> (nat \<Rightarrow> 16 barr) \<Rightarrow> service_id \<Rightarrow> 'a rv_node_scheme
    \<Rightarrow> service_opening \<times> 'a rv_node_scheme" where
  "open_service E local R req fresh i n =
     (case local_published_service i n of Some s \<Rightarrow> (Service_local (dial_local_service R s), n)
      | None \<Rightarrow> open_service_attempt E local req fresh i 0 n)"

text \<open>After a failure: of the lookup (\<open>opened = False\<close>) or of the opening with the descriptor found.\<close>

definition open_service_failed ::
  "env \<Rightarrow> (packet \<Rightarrow> 'a rv_node_scheme \<Rightarrow> 'a rv_node_scheme) \<Rightarrow> 16 barr \<Rightarrow> (nat \<Rightarrow> 16 barr) \<Rightarrow> service_id \<Rightarrow> nat \<Rightarrow> bool \<Rightarrow> error
    \<Rightarrow> 'a rv_node_scheme \<Rightarrow> service_opening \<times> 'a rv_node_scheme" where
  "open_service_failed E local req fresh i attempt opened e n =
     (let n1 = (if opened then (let n2 = invalidate_descriptor i n
            in if attempt = 0 then add_event E ''warn'' (''service '' @ service_short i @ '' descriptor failed; refreshing: '' @ e) n2 else n2) else n)
      in if attempt + 1 < 2 then open_service_attempt E local req fresh i (attempt + 1) n1 else (Service_failed e, n1))"

definition service_intros :: "descriptor \<Rightarrow> 'a node_scheme \<Rightarrow> node_id list" where
  "service_intros d n =
     List.map_filter (\<lambda>raw. case node_parse raw of Inl _ \<Rightarrow> None | Inr i \<Rightarrow> if nd_routes n i = None then None else Some i)
       (items (d_intros d))"

definition choose_rendezvous :: "byte \<Rightarrow> node_id list \<Rightarrow> 'a node_scheme \<Rightarrow> node_id result" where
  "choose_rendezvous seed exclude n =
     (let kept = filter (\<lambda>i. i \<notin> set exclude) (route_ids n); ids = (if kept = [] then route_ids n else kept)
      in if ids = [] then Inl ''no rendezvous node available'' else Inr (sort_by node_less ids ! (unat seed mod length ids)))"

text \<open>The client's secrets for one opening, and what it sends.\<close>

record client_secret =
  sc_cookie :: bytes
  sc_private :: bytes
  sc_client_nonce :: bytes

definition client_hello :: "client_secret \<Rightarrow> rendezvous_hello" where
  "client_hello k = \<lparr> rh_role = ''client'', rh_cookie = b64_encode (sc_cookie k) \<rparr>"

definition introduction :: "crypto \<Rightarrow> time \<Rightarrow> service_id \<Rightarrow> node_id \<Rightarrow> client_secret \<Rightarrow> introduce_request" where
  "introduction C now i rv k =
     \<lparr> iq_service = service_string i, iq_rendezvous = node_string rv, iq_cookie = b64_encode (sc_cookie k),
       iq_ephemeral = b64_encode (x_public C (sc_private k)), iq_nonce = b64_encode (sc_client_nonce k), iq_time = unix now \<rparr>"

text \<open>The start of \<open>openServiceDescriptor\<close>, up to the circuit to the rendezvous.\<close>

definition service_start :: "byte \<Rightarrow> descriptor \<Rightarrow> 'a node_scheme \<Rightarrow> (node_id list \<times> node_id) result" where
  "service_start seed d n =
     (case service_intros d n of [] \<Rightarrow> Inl ''no reachable introduction point''
      | intros \<Rightarrow> (case choose_rendezvous seed intros n of Inl e \<Rightarrow> Inl e | Inr rv \<Rightarrow> Inr (intros, rv)))"

definition service_hello ::
  "crypto \<Rightarrow> env \<Rightarrow> (nat \<times> error) option \<Rightarrow> client_secret \<Rightarrow> endpoint \<Rightarrow> 'a rv_node_scheme \<Rightarrow> unit result \<times> 'a rv_node_scheme" where
  "service_hello C E fail k ep n =
     (case end_send C E fail ep (rendezvous_hello_json (client_hello k)) n of
        (Inl e, n1) \<Rightarrow> (Inl (''rendezvous establish: '' @ e), end_close C E ep n1) | (Inr _, n1) \<Rightarrow> (Inr (), n1))"

text \<open>One introduction point: the request, then its answer.\<close>

definition service_introduce ::
  "crypto \<Rightarrow> env \<Rightarrow> (nat \<times> error) option \<Rightarrow> service_id \<Rightarrow> node_id \<Rightarrow> client_secret \<Rightarrow> node_id \<Rightarrow> endpoint result \<Rightarrow> 'a rv_node_scheme
    \<Rightarrow> endpoint result \<times> 'a rv_node_scheme" where
  "service_introduce C E fail i rv k intro r n =
     (case r of Inl e \<Rightarrow> (Inl (''introduction connect via '' @ node_short intro @ '': '' @ e), n)
      | Inr ep \<Rightarrow>
          (case end_send C E fail ep (introduce_json (introduction C (en_now E) i rv k)) n of
             (Inl e, n1) \<Rightarrow> (Inl (''introduction via '' @ node_short intro @ '': '' @ e), end_close C E ep n1)
           | (Inr _, n1) \<Rightarrow> (Inr ep, n1)))"

definition service_introduced ::
  "crypto \<Rightarrow> env \<Rightarrow> node_id \<Rightarrow> endpoint \<Rightarrow> bytes result \<Rightarrow> 'a rv_node_scheme \<Rightarrow> unit result \<times> 'a rv_node_scheme" where
  "service_introduced C E intro ep msg n =
     (let via = ''introduction via '' @ node_short intro @ '': '' in
      (case msg of Inl e \<Rightarrow> Inl (via @ e)
       | Inr raw \<Rightarrow> (case simple_ack_unmarshal raw of None \<Rightarrow> Inl (via @ ''json'')
           | Some a \<Rightarrow> if sa_ok a then Inr () else Inl (via @ sa_error a)), end_close C E ep n))"

definition service_finish ::
  "crypto \<Rightarrow> env \<Rightarrow> service_id \<Rightarrow> node_id \<Rightarrow> client_secret \<Rightarrow> endpoint \<Rightarrow> bytes result \<Rightarrow> 'a rv_node_scheme
    \<Rightarrow> rendezvous_conn result \<times> 'a rv_node_scheme" where
  "service_finish C E i rv k ep msg n =
     (case (case msg of Inl e \<Rightarrow> Inl (''rendezvous service acknowledgement: '' @ e)
          | Inr raw \<Rightarrow> (case service_ack_unmarshal raw of None \<Rightarrow> Inl ''rendezvous service acknowledgement: json''
              | Some a \<Rightarrow> verify_service_ack C a i (x_public C (sc_private k)) (sc_client_nonce k) (en_now E))) of
        Inl e \<Rightarrow> (Inl e, end_close C E ep n)
      | Inr (eph, nonce) \<Rightarrow>
          (case derive_rendezvous_keys C (sc_private k) eph (sc_client_nonce k) nonce i (sc_cookie k) of
             Inl e \<Rightarrow> (Inl e, end_close C E ep n)
           | Inr (c2s, s2c) \<Rightarrow> (Inr (new_rendezvous_conn i (sc_cookie k) c2s s2c),
               add_event E ''info'' (''opened rendezvous service '' @ service_short i @ '' via '' @ node_short rv) n)))"

end
