(* ===== verification/Node_Props.thy ===== *)
theory Node_Props
  imports Node_Inv Sizes
begin

section \<open>What nodes do for each other\<close>

text \<open>
  Consequences of the invariants: a route's first hop is a connected peer, an announcement is flooded
  once, the registries of both ends of duplicate connections end up with the same one, a packet is relayed once
  with a smaller time to live.
\<close>

subsection \<open>Routes lead to connected peers\<close>

lemma next_hop_is_peer:
  assumes "node_ok n" "nd_started n" "nd_routes n dst = Some r"
  shows "\<exists>p. map_of (nd_peers n) (rt_next_hop r) = Some p \<and> pr_conn p \<in> set (nd_open n)"
proof -
  obtain l where l: "map_of (nd_lsas n) (nd_self n) = Some l"
    "l_neighbors l = Some (sort (map node_string (peer_ids n)))"
    using assms(1,2) by (auto simp: node_ok_def own_ok_def)
  have "compute (nd_self n) (nd_lsas n) dst = Some r"
    using assms(1,3) by (simp add: node_ok_def tables_ok_def)
  note path = compute_path [OF this]
  obtain a b q where q: "rt_path r = a # b # q"
    using path(5) by (cases "rt_path r" rule: list.exhaust; cases "tl (rt_path r)") auto
  have hop: "rt_next_hop r = b"
    by (subst path(4)) (simp add: make_route_def q)
  have "linked (advertised_of (nd_lsas n)) (nd_self n) b"
    using path(1) unfolding walk_def q by auto
  then have "b \<in> set (neighbor_set (nd_self n) l)"
    by (simp add: linked_def advertises_def map_of_advertised l(1))
  then have "b \<in> fst ` set (nd_peers n)"
    by (auto simp: neighbor_set_def l(2) peer_ids_def split: sum.splits if_splits)
  then obtain p where p: "(b, p) \<in> set (nd_peers n)" by auto
  with assms(1) have "map_of (nd_peers n) b = Some p" "pr_conn p \<in> set (nd_open n)"
    by (auto simp: node_ok_def peers_ok_def peer_ok_def)
  with hop show ?thesis by simp
qed

subsection \<open>Broadcasts when no write fails\<close>

definition writes_ok :: "env \<Rightarrow> bool" where
  "writes_ok E \<longleftrightarrow> (\<forall>c. en_write E c = None)"

definition frame_fits :: "bytes \<Rightarrow> bool" where
  "frame_fits payload \<longleftrightarrow> length payload + 1 \<le> max_frame_size"

lemma write_frame_fits: "frame_fits payload \<Longrightarrow> \<exists>bs. write_frame kd payload = Inr bs"
  by (simp add: frame_fits_def write_frame_def)

lemma peer_send_ok:
  assumes "writes_ok E" "frame_fits payload" "pr_conn p \<in> set (nd_open n)"
  shows "fst (peer_send E p kd payload n) = Inr ()"
    "nd_sent (snd (peer_send E p kd payload n)) = nd_sent n @ [(pr_conn p, kd, payload)]"
  using assms write_frame_fits [OF assms(2), of kd] by (auto simp: peer_send_def writes_ok_def)

lemma run_writes:
  assumes "writes_ok E" "frame_fits payload"
  shows "\<forall>p \<in> set ps. pr_conn p \<in> set (nd_open n) \<Longrightarrow>
    same_tables (run_tasks C E (map (\<lambda>p. Write p kd payload) ps) n) n \<and>
    nd_sent (run_tasks C E (map (\<lambda>p. Write p kd payload) ps) n) =
      nd_sent n @ map (\<lambda>p. (pr_conn p, kd, payload)) ps"
proof (induction ps arbitrary: n)
  case (Cons p ps)
  obtain r m where s: "peer_send E p kd payload n = (r, m)" by fastforce
  have m: "r = Inr ()" "nd_sent m = nd_sent n @ [(pr_conn p, kd, payload)]" "same_tables m n"
    using peer_send_ok [OF assms, of p n kd] Cons.prems s same_tables_steps(3) [of E p kd payload n] by auto
  then have "\<forall>q \<in> set ps. pr_conn q \<in> set (nd_open m)"
    using Cons.prems by (simp add: same_tables_def)
  from Cons.IH [OF this] m s show ?case
    by (auto intro: same_tables_trans)
qed simp

lemma broadcast_sends:
  assumes "writes_ok E" "frame_fits payload" "peers_ok n"
  shows "same_tables (broadcast C E kd payload except n) n"
    "nd_sent (broadcast C E kd payload except n) = nd_sent n @
       map (\<lambda>p. (pr_conn p, kd, payload)) (filter (\<lambda>p. Some (pr_conn p) \<noteq> except) (map snd (nd_peers n)))"
proof -
  have "\<forall>p \<in> set (filter (\<lambda>p. Some (pr_conn p) \<noteq> except) (map snd (nd_peers n))). pr_conn p \<in> set (nd_open n)"
    using assms(3) by (auto simp: peers_ok_def peer_ok_def)
  from run_writes [OF assms(1,2) this, of C kd] show
    "same_tables (broadcast C E kd payload except n) n"
    "nd_sent (broadcast C E kd payload except n) = nd_sent n @
       map (\<lambda>p. (pr_conn p, kd, payload)) (filter (\<lambda>p. Some (pr_conn p) \<noteq> except) (map snd (nd_peers n)))"
    by (simp_all add: broadcast_def frame_tasks_def)
qed

subsection \<open>Flooding\<close>

text \<open>Announcements of other nodes are never replaced by older ones, even when closing peers announce in
  between.\<close>

definition newer_lsas :: "'a node_scheme \<Rightarrow> 'a node_scheme \<Rightarrow> bool" where
  "newer_lsas n m \<longleftrightarrow> nd_self m = nd_self n \<and> (\<forall>i old. i \<noteq> nd_self n \<longrightarrow> map_of (nd_lsas n) i = Some old \<longrightarrow>
     (\<exists>new. map_of (nd_lsas m) i = Some new \<and> l_sequence old \<le> l_sequence new))"

lemma newer_lsas_refl [simp]: "newer_lsas n n"
  by (simp add: newer_lsas_def)

lemma newer_lsas_trans: "newer_lsas a b \<Longrightarrow> newer_lsas b c \<Longrightarrow> newer_lsas a c"
  unfolding newer_lsas_def by (simp, meson order_trans)

lemma newer_lsas_same: "same_tables m n \<Longrightarrow> newer_lsas n m"
  by (simp add: newer_lsas_def same_tables_def nd_self_def)

lemma newer_lsas_close: "newer_lsas n (snd (start_close C E p reason n))"
  by (simp add: newer_lsas_def start_close_snd announce_def Let_def put_lsa_def update_conv' nd_self_def drop_peer_def)

lemma stable_newer: "stable C E (newer_lsas n)"
  unfolding stable_def using newer_lsas_trans newer_lsas_same newer_lsas_close by blast

lemma broadcast_newer: "node_ok n \<Longrightarrow> newer_lsas n (broadcast C E kd payload except n)"
  using run_tasks_keeps [OF stable_newer [of C E n], of n "frame_tasks kd payload except n"]
  by (simp add: broadcast_def node_ok_def tasks_fit_frames)

lemma handle_lsa_newer:
  assumes "node_ok n"
  shows "newer_lsas n (handle_lsa C E raw p n)"
proof -
  have put: "newer_lsas n (broadcast C E frame_lsa raw except (wake_publisher (put_lsa i l n)))"
    if "lsa_verify C (en_now E) l = Inr i" "i \<noteq> nd_self n"
      "\<not> (case map_of (nd_lsas n) i of None \<Rightarrow> False | Some old \<Rightarrow> l_sequence l \<le> l_sequence old)" for i l except
  proof -
    have "newer_lsas n (put_lsa i l n)"
      using that(2,3) by (auto simp: newer_lsas_def put_lsa_def Let_def update_conv' nd_self_def split: option.splits)
    moreover have "newer_lsas (put_lsa i l n) (wake_publisher (put_lsa i l n))"
      by (rule newer_lsas_same) simp
    moreover have "node_ok (wake_publisher (put_lsa i l n))"
      using that(1,2) assms by (auto intro!: node_ok_wake put_lsa_ok elim: lsa_verify_InrD)
    ultimately show ?thesis
      using broadcast_newer newer_lsas_trans by blast
  qed
  show ?thesis
    unfolding handle_lsa_def
    using put by (auto intro!: newer_lsas_same split: option.split sum.split)
qed

lemma handle_lsa_stale:
  assumes "lsa_unmarshal raw = Some l" "lsa_verify C now l = Inr i"
    and "map_of (nd_lsas n) i = Some l'" "l_sequence l \<le> l_sequence l'"
  shows "nd_sent (handle_lsa C E raw p n) = nd_sent n \<and> nd_lsas (handle_lsa C E raw p n) = nd_lsas n"
proof (cases "lsa_verify C (en_now E) l")
  case (Inl e)
  then show ?thesis by (simp add: handle_lsa_def assms(1) add_event_def)
next
  case (Inr j)
  have "j = i"
    using assms(2) Inr by (auto elim!: lsa_verify_InrD)
  with Inr show ?thesis by (simp add: handle_lsa_def assms)
qed

subsection \<open>Meeting a peer\<close>

text \<open>A connection to a new peer, when writes succeed: it stays registered.\<close>

definition with_peer :: "peer \<Rightarrow> 'a node_scheme \<Rightarrow> 'a node_scheme" where
  "with_peer p n = n\<lparr>nd_peers := AList.update (pr_id p) p (nd_peers n), nd_open := pr_conn p # nd_open n\<rparr>"

lemma announce_runs:
  assumes "writes_ok E" "node_base n" "frame_fits (lsa_marshal (local_lsa C E n))"
  shows "same_tables (emit_local_lsa C E n) (snd (announce C E n))"
proof -
  obtain ts m where a: "announce C E n = (ts, m)" by fastforce
  show ?thesis
  proof (cases "nd_started n")
    case True
    have m: "m = snd (announce C E n)" using a by simp
    have ts: "ts = map (\<lambda>p. Write p frame_lsa (lsa_marshal (local_lsa C E n))) (map snd (nd_peers m))"
      using a True by (auto simp: announce_def Let_def frame_tasks_def)
    have "peers_ok m" using assms(2) by (simp add: m node_base_def)
    then have "\<forall>p \<in> set (map snd (nd_peers m)). pr_conn p \<in> set (nd_open m)"
      by (auto simp: peers_ok_def peer_ok_def)
    from run_writes [OF assms(1,3) this, of C frame_lsa] show ?thesis
      by (simp add: emit_local_lsa_def a ts)
  next
    case False
    then show ?thesis by (simp add: emit_local_lsa_def announce_def)
  qed
qed

lemma addresses_steps [simp]:
  "nd_addresses (add_event E lv msg n) = nd_addresses n" "nd_addresses (wake_publisher n) = nd_addresses n"
  "nd_addresses (snd (peer_send E p kd payload n)) = nd_addresses n"
  "nd_addresses (snd (announce C E n)) = nd_addresses n" "nd_addresses (drop_peer p n) = nd_addresses n"
  "nd_addresses (snd (start_close C E p reason n)) = nd_addresses n"
  by (simp_all add: add_event_def wake_publisher_def peer_send_def announce_def put_lsa_def drop_peer_def start_close_snd Let_def
      split: sum.split option.split)

lemma addresses_run: "nd_addresses (run_tasks C E ts n) = nd_addresses n"
proof (induction C E ts n rule: run_tasks.induct)
  case (4 C E p kd payload ts n)
  obtain r n1 where s: "peer_send E p kd payload n = (r, n1)" by fastforce
  then have n1: "nd_addresses n1 = nd_addresses n"
    using addresses_steps(3) [of E p kd payload n] by simp
  show ?case
  proof (cases r)
    case (Inl e)
    obtain ts' n2 where c: "start_close C E p (''write failed: '' @ e) n1 = (ts', n2)" by fastforce
    then have "nd_addresses n2 = nd_addresses n1"
      using addresses_steps(6) [of C E p "''write failed: '' @ e" n1] by simp
    with 4 s c n1 Inl show ?thesis by (simp split: sum.split)
  next
    case (Inr u)
    with 4 s n1 show ?thesis by (simp split: sum.split)
  qed
qed simp_all

lemma addresses_emit [simp]: "nd_addresses (emit_local_lsa C E n) = nd_addresses n"
proof -
  obtain ts m where a: "announce C E n = (ts, m)" by fastforce
  then show ?thesis using addresses_steps(4) [of C E n] by (simp add: emit_local_lsa_def addresses_run)
qed

lemma addresses_send_all [simp]: "nd_addresses (send_all_lsas E p n) = nd_addresses n"
proof -
  have "nd_addresses (fold (\<lambda>raw m. snd (peer_send E p frame_lsa raw m)) raws n) = nd_addresses n" for raws
    by (induction raws arbitrary: n) auto
  then show ?thesis by (simp add: send_all_lsas_def)
qed

lemma register_fresh:
  fixes n :: "'a node_scheme"
  assumes "node_ok n" "writes_ok E" "pr_conn p \<notin> set (nd_open n)" "pr_id p \<noteq> nd_self n"
    and "map_of (nd_peers n) (pr_id p) = None"
    and "frame_fits (lsa_marshal (local_lsa C E (n\<lparr>nd_peers := AList.update (pr_id p) p (nd_peers n), nd_open := pr_conn p # nd_open n\<rparr>)))"
  shows "fst (register_peer C E p n)"
    "nd_peers (snd (register_peer C E p n)) = AList.update (pr_id p) p (nd_peers n)"
    "nd_self (snd (register_peer C E p n)) = nd_self n" "nd_started (snd (register_peer C E p n)) = nd_started n"
    "\<forall>i. i \<noteq> nd_self n \<longrightarrow> map_of (nd_lsas (snd (register_peer C E p n))) i = map_of (nd_lsas n) i"
    "nd_open (snd (register_peer C E p n)) = pr_conn p # nd_open n" "nd_id (snd (register_peer C E p n)) = nd_id n"
    "nd_cfg (snd (register_peer C E p n)) = nd_cfg n" "nd_network (snd (register_peer C E p n)) = nd_network n"
    "nd_addresses (snd (register_peer C E p n)) = nd_addresses n" "nd_seen (snd (register_peer C E p n)) = nd_seen n"
proof -
  let ?put = "n\<lparr>nd_peers := AList.update (pr_id p) p (nd_peers n), nd_open := pr_conn p # nd_open n\<rparr>"
  have base: "node_base ?put"
    using peers_ok_put [of n p] assms(1,3,4) by (simp add: node_base_def node_ok_def tables_ok_def nd_self_def)
  let ?n2 = "send_all_lsas E p (wake_publisher (emit_local_lsa C E ?put))"
  have "same_tables ?n2 (wake_publisher (emit_local_lsa C E ?put))" by (rule same_send_all)
  also have "same_tables (wake_publisher (emit_local_lsa C E ?put)) (emit_local_lsa C E ?put)" by simp
  also have "same_tables (emit_local_lsa C E ?put) (snd (announce C E ?put))"
    by (rule announce_runs [OF assms(2) base assms(6)])
  finally have n2: "same_tables ?n2 (snd (announce C E ?put))" .
  have r: "register_peer C E p n = (True,
      if dc_enabled (cf_discovery (nd_cfg ?n2)) \<and> dc_peer_exchange (cf_discovery (nd_cfg ?n2))
      then snd (peer_send E p frame_pex (pex_payload E ?n2) ?n2) else ?n2)"
    by (simp add: register_peer_def Let_def assms(5))
  have "same_tables (snd (register_peer C E p n)) ?n2"
    unfolding r by simp
  from same_tables_trans [OF this n2] have all: "same_tables (snd (register_peer C E p n)) (snd (announce C E ?put))" .
  have "nd_self ?put = nd_self n" by (simp add: nd_self_def)
  then show "nd_peers (snd (register_peer C E p n)) = AList.update (pr_id p) p (nd_peers n)"
    "nd_self (snd (register_peer C E p n)) = nd_self n" "nd_started (snd (register_peer C E p n)) = nd_started n"
    using all nd_self_cong [OF all] by (simp_all add: same_tables_def)
  show "nd_open (snd (register_peer C E p n)) = pr_conn p # nd_open n" "nd_id (snd (register_peer C E p n)) = nd_id n"
    "nd_cfg (snd (register_peer C E p n)) = nd_cfg n" "nd_network (snd (register_peer C E p n)) = nd_network n"
    "nd_seen (snd (register_peer C E p n)) = nd_seen n"
    using all by (simp_all add: same_tables_def announce_def put_lsa_def Let_def)
  show "nd_addresses (snd (register_peer C E p n)) = nd_addresses n"
    by (simp add: r)
  show "fst (register_peer C E p n)" by (simp add: r)
  show "\<forall>i. i \<noteq> nd_self n \<longrightarrow> map_of (nd_lsas (snd (register_peer C E p n))) i = map_of (nd_lsas n) i"
    using all \<open>nd_self ?put = nd_self n\<close>
    by (auto simp: same_tables_def announce_def put_lsa_def Let_def update_conv' nd_self_def)
qed

text \<open>A second connection to a peer: refused, or put in the place of the first, which is closed.\<close>

lemma run_tasks_append: "run_tasks C E (ts @ us) n = run_tasks C E us (run_tasks C E ts n)"
  by (induction C E ts n rule: run_tasks.induct) (auto split: sum.split prod.split)

lemma close_peer_runs:
  assumes "pr_conn q \<in> set (nd_open n)"
  shows "\<exists>msg. close_peer C E q reason n =
    add_event E ''info'' msg (wake_publisher (emit_local_lsa C E (drop_peer q (n\<lparr>nd_open := removeAll (pr_conn q) (nd_open n)\<rparr>))))"
  using assms by (auto simp: close_peer_def start_close_def emit_local_lsa_def run_tasks_append split: prod.split)

definition announcements_fit :: "crypto \<Rightarrow> env \<Rightarrow> 'a node_scheme \<Rightarrow> bool" where
  "announcements_fit C E n \<longleftrightarrow> (\<forall>s. frame_fits (lsa_marshal (local_lsa C E (n\<lparr>nd_sequence := s\<rparr>))))"

lemma local_lsa_cong:
  assumes "nd_id m = nd_id n" "nd_cfg m = nd_cfg n" "nd_addresses m = nd_addresses n" "nd_peers m = nd_peers n"
  shows "local_lsa C E m = local_lsa C E (n\<lparr>nd_sequence := nd_sequence m\<rparr>)"
  using assms by (simp add: local_lsa_def advertised_addresses_def peer_ids_def)

lemma register_duplicate:
  fixes n :: "'a node_scheme"
  assumes "node_ok n" "writes_ok E" "pr_conn p \<notin> set (nd_open n)" "pr_id p \<noteq> nd_self n"
    and "map_of (nd_peers n) (pr_id p) = Some q" "announcements_fit C E (with_peer p n)"
    and r: "(b, n') = register_peer C E p n"
  shows "b \<longleftrightarrow> preferred n p \<and> \<not> preferred n q" "\<not> b \<Longrightarrow> n' = n"
    "b \<Longrightarrow> nd_peers n' = AList.update (pr_id p) p (nd_peers n)"
    "b \<Longrightarrow> nd_open n' = pr_conn p # removeAll (pr_conn q) (nd_open n)"
proof -
  show "b \<longleftrightarrow> preferred n p \<and> \<not> preferred n q" "\<not> b \<Longrightarrow> n' = n"
    using r assms(5) by (auto simp: register_peer_def Let_def split: if_splits)
  assume b
  let ?put = "with_peer p n"
  have q: "pr_id q = pr_id p" "pr_conn q \<in> set (nd_open n)" "pr_conn q \<noteq> pr_conn p"
    using map_of_SomeD [OF assms(5)] assms(1,3) by (auto simp: node_ok_def peers_ok_def peer_ok_def)
  define cl where "cl = ?put\<lparr>nd_open := removeAll (pr_conn q) (nd_open ?put)\<rparr>"
  have drop: "drop_peer q cl = cl"
    using q by (simp add: drop_peer_def cl_def with_peer_def update_conv')
  have base: "node_base cl" and base_closed: "node_base (close_peer C E q reason ?put)" for reason
  proof -
    have put: "node_base ?put"
      using peers_ok_put [of n p] assms(1,3,4)
      by (simp add: with_peer_def node_base_def node_ok_def tables_ok_def nd_self_def)
    have fits: "conn_fits q ?put"
    proof -
      have "peers_ok n" using assms(1) by (simp add: node_ok_def)
      then have "conn_fits q n" using map_of_SomeD [OF assms(5)] by (rule conn_fits_member)
      then show ?thesis
        using q(1,3) set_update_subset [of "pr_id p" p "nd_peers n"] by (fastforce simp: conn_fits_def with_peer_def)
    qed
    show "node_base cl"
      using peers_ok_drop [of ?put q] drop put fits by (simp add: node_base_def tables_ok_def cl_def)
    show "node_base (close_peer C E q reason ?put)"
      by (rule close_peer_cases(1) [OF put fits])
  qed
  have fit: "frame_fits (lsa_marshal (local_lsa C E m))"
    if "nd_id m = nd_id n" "nd_cfg m = nd_cfg n" "nd_addresses m = nd_addresses n" "nd_peers m = nd_peers ?put"
    for m :: "'a node_scheme"
    using assms(6) local_lsa_cong [of m ?put C E] that by (simp add: announcements_fit_def with_peer_def)
  let ?closed = "close_peer C E q ''replaced duplicate connection'' ?put"
  have closed: "same_tables ?closed (snd (announce C E cl))" "nd_addresses ?closed = nd_addresses n"
  proof -
    have eq: "\<exists>msg. ?closed = add_event E ''info'' msg (wake_publisher (emit_local_lsa C E cl))"
      using close_peer_runs [of q ?put C E] q(2) drop unfolding cl_def [symmetric] by (simp add: with_peer_def)
    have "same_tables (emit_local_lsa C E cl) (snd (announce C E cl))"
      by (rule announce_runs [OF assms(2) base fit]) (simp_all add: cl_def with_peer_def)
    then show "same_tables ?closed (snd (announce C E cl))"
      using eq same_tables_steps(1,2) same_tables_trans by metis
    show "nd_addresses ?closed = nd_addresses n"
      using eq by (auto simp: addresses_steps cl_def with_peer_def)
  qed
  have fields: "nd_id ?closed = nd_id n" "nd_cfg ?closed = nd_cfg n" "nd_peers ?closed = nd_peers ?put"
      "nd_open ?closed = removeAll (pr_conn q) (pr_conn p # nd_open n)"
    using closed(1) by (simp_all add: same_tables_def cl_def with_peer_def)
  let ?n2 = "send_all_lsas E p (wake_publisher (emit_local_lsa C E ?closed))"
  have emitted: "same_tables (emit_local_lsa C E ?closed) (snd (announce C E ?closed))"
    by (rule announce_runs [OF assms(2) _ fit]) (use base_closed fields closed(2) in simp_all)
  have n2: "same_tables ?n2 (snd (announce C E ?closed))"
    by (rule same_tables_trans [OF same_send_all same_tables_trans [OF same_tables_steps(2) emitted]])
  have "n' = (if dc_enabled (cf_discovery (nd_cfg ?n2)) \<and> dc_peer_exchange (cf_discovery (nd_cfg ?n2))
      then snd (peer_send E p frame_pex (pex_payload E ?n2) ?n2) else ?n2)"
    using r [unfolded register_peer_def Let_def, folded with_peer_def] \<open>b\<close> assms(5) by (simp split: if_splits)
  then have "same_tables n' ?n2" by simp
  from same_tables_trans [OF this n2] have "nd_peers n' = nd_peers ?closed" "nd_open n' = nd_open ?closed"
    by (simp_all add: same_tables_def)
  then show "nd_peers n' = AList.update (pr_id p) p (nd_peers n)" "nd_open n' = pr_conn p # removeAll (pr_conn q) (nd_open n)"
    using fields q(3) by (simp_all add: with_peer_def)
qed

lemma check_local_hello:
  assumes "good_identity C (nd_id m)" "nd_network m = nd_network n" "nd_self m \<noteq> nd_self n"
    and "\<not> outside_window 300 (unix (en_now E)) (unix (en_now E'))"
  shows "check_hello E (id_public (nd_id m)) (nd_self m) (marshal (hello_json (local_hello E' m))) n = Inr (local_hello E' m)"
proof -
  have "go_int (h_version (local_hello E' m))"
    by (simp add: local_hello_def protocol_version_def go_int_def)
  then show ?thesis
    using assms by (simp add: check_hello_def hello_roundtrip local_hello_def)
qed

subsection \<open>Properties\<close>

text \<open>Two nodes that meet, for the witnesses: node 1 dials node 2, and then reads its announcement.\<close>

definition toy_env :: env where
  "toy_env = \<lparr> en_now = 0, en_write = (\<lambda>c. None) \<rparr>"

definition toy_node :: "byte \<Rightarrow> node" where
  "toy_node k =
     \<lparr> nd_cfg = default_config toy, nd_id = toy_identity k, nd_network = default_network toy, nd_addresses = [],
       nd_started = False, nd_stopped = False,
       nd_peers = [], nd_open = [], nd_lsas = [], nd_routes = Map.empty, nd_sequence = 0, nd_seen = [],
       nd_events = [], nd_discovered = [], nd_dialing = [], nd_dials = [], nd_wake = False, nd_retries = [],
       nd_sent = [], nd_bytes_sent = 0, nd_bytes_received = 0, nd_frames_sent = 0, nd_frames_received = 0 \<rparr>"

lemma new_toy_node: "new_node (default_config toy) (toy_identity k) = Inr (toy_node k)"
  by (simp add: toy_node_def new_node_def config_network_def default_config_def)

lemma toy_reachable: "node_reachable toy (toy_node k)"
  by (rule node_reachable.created [OF new_toy_node])

definition toy_started :: "byte \<Rightarrow> node" where
  "toy_started k = start_node toy toy_env [] (toy_node k)"

lemma toy_started_reachable: "node_reachable toy (toy_started k)"
  unfolding toy_started_def by (rule node_reachable.step [OF toy_reachable node_step.starting])

lemma toy_started_simps:
  "nd_peers (toy_started k) = []" "nd_open (toy_started k) = []" "nd_self (toy_started k) = id_node (toy_identity k)"
  "nd_id (toy_started k) = toy_identity k" "nd_network (toy_started k) = default_network toy" "nd_started (toy_started k)"
  "nd_cfg (toy_started k) = default_config toy" "nd_addresses (toy_started k) = []" "nd_seen (toy_started k) = []"
  "nd_lsas (toy_started k) = [(id_node (toy_identity k), local_lsa toy toy_env (toy_node k))]"
  by (simp_all add: toy_started_def start_node_def emit_local_lsa_def announce_def frame_tasks_def put_lsa_def
      Let_def nd_self_def toy_node_def add_event_def local_lsa_def advertised_addresses_def peer_ids_def)

lemma writes_toy [simp]: "writes_ok toy_env"
  by (simp add: writes_ok_def toy_env_def)

lemma toy_public [simp]: "id_public (toy_identity k) = replicate 32 k" "id_node (toy_identity k) = NodeID (arr_of (replicate 32 k))"
  by (simp_all add: toy_identity_def identity_generate_def ed_public_def node_from_public_key_def toy_def)

lemma toy_id_inject: "id_node (toy_identity j) = id_node (toy_identity k) \<longleftrightarrow> j = k"
  by (simp add: arr_of_eq_iff)

lemma max_frame: "max_frame_size = 4194304"
  by (simp add: max_frame_size_def)

lemma toy_hello_fits: "frame_fits (marshal (hello_json (local_hello toy_env (toy_started k))))"
proof -
  have "length (b64_encode (replicate 32 k)) \<le> 67"
    using length_b64_encode [of "replicate 32 k"] by simp
  from member_size_str [OF this, of "''public_key''"]
  have pub: "member_size (''public_key'', JStr (b64_encode (replicate 32 k))) \<le> 468" by simp
  have v: "member_size (''version'', jm_int (uint protocol_version)) \<le> 100"
    by (simp add: member_size_def jm_int_def protocol_version_def show_int_def show_nat.simps)
  have "length (marshal (hello_json (local_hello toy_env (toy_started k)))) \<le> 4000"
    unfolding hello_json_def local_hello_def
    using length_marshal_object [of "[(''version'', jm_int (uint protocol_version)),
        (''network_id'', JStr (network_string (default_network toy))),
        (''node_id'', JStr (node_string (id_node (toy_identity k)))),
        (''public_key'', JStr (b64_encode (replicate 32 k))), (''time_unix'', jm_int64 (unix (en_now toy_env)))]"]
      member_size_str [OF length_id_strings(2) [of "default_network toy"], of "''network_id''"]
      member_size_str [OF length_id_strings(1) [of "id_node (toy_identity k)"], of "''node_id''"]
      member_size_num(1) [of "''time_unix''" "unix (en_now toy_env)"] v pub
    by (simp add: toy_started_simps advertised_addresses_def default_config_def omit_if_def)
  then show ?thesis by (simp add: frame_fits_def max_frame)
qed

lemma toy_lsa_fits:
  assumes "length nb \<le> 2"
  shows "frame_fits (lsa_marshal (new_lsa toy now (toy_identity k) sq ttl [] nb []))"
proof -
  let ?l = "new_lsa toy now (toy_identity k) sq ttl [] nb []"
  have "length (b64_encode (replicate 32 k)) \<le> 67"
    using length_b64_encode [of "replicate 32 k"] by simp
  from member_size_str [OF this, of "''public_key''"]
  have pub: "member_size (''public_key'', JStr (b64_encode (replicate 32 k))) \<le> 468" by simp
  have v: "member_size (''version'', jm_int 1) \<le> 100"
    by (simp add: member_size_def jm_int_def show_int_def show_nat.simps)
  have "nb = [] \<or> (\<exists>i. nb = [i]) \<or> (\<exists>i j. nb = [i, j])"
    using assms by (cases nb rule: list.exhaust; cases "tl nb" rule: list.exhaust) auto
  then have nbs: "member_size (''neighbors'', jm_nilable (Some (sort (map node_string nb)))) \<le> 1200"
  proof (elim disjE exE)
    note le = length_print_le [OF length_id_strings(1)]
    fix i j
    show ?thesis if "nb = [i, j]"
      using le [of i] le [of j] by (simp add: that member_size_def jm_nilable_def jm_strs_def)
    show ?thesis if "nb = [i]"
      using le [of i] by (simp add: that member_size_def jm_nilable_def jm_strs_def)
  qed (simp add: member_size_def jm_nilable_def jm_strs_def)
  have fields: "lsa_body_fields ?l = [(''version'', jm_int 1), (''sequence'', jm_uint64 sq),
      (''time_unix'', jm_int64 (unix now)), (''expires_unix'', jm_int64 (unix (now + ttl))),
      (''node_id'', JStr (node_string (id_node (toy_identity k)))),
      (''public_key'', JStr (b64_encode (replicate 32 k))),
      (''neighbors'', jm_nilable (Some (sort (map node_string nb))))]"
    by (simp add: lsa_body_fields_def new_lsa_def lsa_body.defs lsa.defs Let_def)
  have sum: "sum_list (map member_size (lsa_body_fields ?l)) \<le> 3000"
    using v pub nbs member_size_num(2) [of "''sequence''" sq] member_size_num(1) [of "''time_unix''" "unix now"]
      member_size_num(1) [of "''expires_unix''" "unix (now + ttl)"]
      member_size_str [OF length_id_strings(1) [of "id_node (toy_identity k)"], of "''node_id''"]
    unfolding fields by simp
  then have "length (lsa_canonical ?l) \<le> 3002"
    using length_marshal_object [of "lsa_body_fields ?l"] by (simp add: lsa_canonical_def)
  then have "length (identity_sign toy (toy_identity k) (lsa_canonical ?l)) \<le> 3034"
    by (simp add: identity_sign_def toy_def toy_identity_def identity_generate_def)
  then have "length (l_signature ?l) \<le> 6071"
    using length_b64_encode [of "identity_sign toy (toy_identity k) (lsa_canonical ?l)"]
    unfolding new_lsa_signature by simp
  from member_size_str [OF this, of "''signature''"]
  have "length (lsa_marshal ?l) \<le> 45000"
    using length_marshal_object [of "lsa_body_fields ?l @ [(''signature'', JStr (l_signature ?l))]"] sum
    by (simp add: lsa_marshal_def lsa_json_def)
  then show ?thesis by (simp add: frame_fits_def max_frame)
qed

text \<open>The peer an accepted hello of node \<open>m\<close> becomes.\<close>

definition hello_peer :: "env \<Rightarrow> bool \<Rightarrow> nat \<Rightarrow> string \<Rightarrow> node \<Rightarrow> peer" where
  "hello_peer E outbound conn remote m =
     \<lparr> pr_id = nd_self m, pr_conn = conn, pr_outbound = outbound, pr_remote = remote,
       pr_advertise = h_advertise (local_hello E m) \<rparr>"

lemma meet:
  assumes "node_ok n" "writes_ok E" "good_identity C (nd_id m)" "nd_network m = nd_network n"
    and "nd_self m \<noteq> nd_self n" "map_of (nd_peers n) (nd_self m) = None" "conn \<notin> set (nd_open n)"
    and "\<not> outside_window 300 (unix (en_now E)) (unix (en_now E'))"
    and "expected = None \<or> expected = Some (nd_self m)"
    and "frame_fits (marshal (hello_json (local_hello E n)))"
    and "write_frame frame_hello (marshal (hello_json (local_hello E' m))) = Inr hello"
    and "frame_fits (lsa_marshal (local_lsa C E (with_peer (hello_peer E' outbound conn remote m) n)))"
  shows "establish_peer C E outbound expected conn remote
      (Inr \<lparr>tls_certificates = 1, tls_key = Some (id_public (nd_id m))\<rparr>) (hello @ rest) n =
    (Inr (hello_peer E' outbound conn remote m), snd (register_peer C E (hello_peer E' outbound conn remote m) n))"
proof -
  obtain bs where bs: "write_frame frame_hello (marshal (hello_json (local_hello E n))) = Inr bs"
    using write_frame_fits [OF assms(10)] by blast
  let ?p = "hello_peer E' outbound conn remote m"
  have key: "node_from_public_key C (id_public (nd_id m)) = nd_self m"
    using good_identityD(4) [OF assms(3)] by (simp add: nd_self_def)
  have p: "\<lparr> pr_id = nd_self m, pr_conn = conn, pr_outbound = outbound, pr_remote = remote,
      pr_advertise = h_advertise (local_hello E' m) \<rparr> = ?p"
    by (simp add: hello_peer_def)
  have "fst (register_peer C E ?p n)"
    by (rule register_fresh [OF assms(1,2)]) (use assms in \<open>simp_all add: hello_peer_def with_peer_def\<close>)
  then obtain n' where r: "register_peer C E ?p n = (True, n')"
    by (metis prod.collapse)
  have w: "en_write E conn = None" using assms(2) by (simp add: writes_ok_def)
  show ?thesis
    using assms(9)
    by (auto simp: establish_peer_def key bs w read_write_frame [OF assms(11)] check_local_hello [OF assms(3,4,5,8)] p r Let_def)
qed

definition toy_peer :: peer where
  "toy_peer = hello_peer toy_env True 10 ''b'' (toy_started 2)"

definition hello_frame :: "byte \<Rightarrow> bytes" where
  "hello_frame k = (case write_frame frame_hello (marshal (hello_json (local_hello toy_env (toy_started k)))) of
     Inr bs \<Rightarrow> bs | Inl _ \<Rightarrow> [])"

lemma write_hello_frame: "write_frame frame_hello (marshal (hello_json (local_hello toy_env (toy_started k)))) = Inr (hello_frame k)"
  using write_frame_fits [OF toy_hello_fits [of k], of frame_hello] by (auto simp: hello_frame_def)

lemma toy_peer_simps: "pr_id toy_peer = id_node (toy_identity 2)" "pr_conn toy_peer = 10" "pr_advertise toy_peer = []"
  by (simp_all add: toy_peer_def hello_peer_def toy_started_simps local_hello_def advertised_addresses_def default_config_def)

lemma toy_local_lsa_fits: "frame_fits (lsa_marshal (local_lsa toy toy_env (with_peer toy_peer (toy_started 1))))"
  unfolding local_lsa_def with_peer_def
  by (simp add: toy_started_simps default_config_def peer_ids_def advertised_addresses_def toy_lsa_fits del: toy_public)

lemma toy_ids_differ: "id_node (toy_identity 2) \<noteq> id_node (toy_identity 1)"
  by (subst toy_id_inject) simp

lemma toy_meet:
  "establish_peer toy toy_env True None 10 ''b''
     (Inr \<lparr>tls_certificates = 1, tls_key = Some (replicate 32 2)\<rparr>) (hello_frame 2) (toy_started 1) =
    (Inr toy_peer, snd (register_peer toy toy_env toy_peer (toy_started 1)))"
  using meet [where n = "toy_started 1" and E = toy_env and C = toy and m = "toy_started 2" and conn = 10 and E' = toy_env
      and expected = None and outbound = True and remote = "''b''" and hello = "hello_frame 2" and rest = "[]"]
    node_reachable_ok [OF toy_started_reachable] toy_ids_differ toy_hello_fits write_hello_frame toy_local_lsa_fits
  by (simp add: toy_started_simps outside_window_def flip: toy_peer_def del: toy_public(2))

definition toy_met :: node where
  "toy_met = snd (register_peer toy toy_env toy_peer (toy_started 1))"

lemma toy_met_reachable: "node_reachable toy toy_met"
proof -
  have "node_step toy (toy_started 1) (snd (establish_peer toy toy_env True None 10 ''b''
     (Inr \<lparr>tls_certificates = 1, tls_key = Some (replicate 32 2)\<rparr>) (hello_frame 2) (toy_started 1)))"
    by (rule node_step.established) (simp add: toy_started_simps)
  then show ?thesis
    unfolding toy_meet toy_met_def using node_reachable.step [OF toy_started_reachable] by simp
qed

lemma toy_met_simps:
  "nd_peers toy_met = [(id_node (toy_identity 2), toy_peer)]" "nd_self toy_met = id_node (toy_identity 1)"
  "nd_started toy_met" "i \<noteq> id_node (toy_identity 1) \<Longrightarrow> map_of (nd_lsas toy_met) i = None" "nd_seen toy_met = []"
proof -
  have ok: "node_ok (toy_started 1)" by (rule node_reachable_ok [OF toy_started_reachable])
  note f = register_fresh [of "toy_started 1" toy_env toy_peer toy, OF ok writes_toy]
  have prem: "pr_conn toy_peer \<notin> set (nd_open (toy_started 1))" "pr_id toy_peer \<noteq> nd_self (toy_started 1)"
    "map_of (nd_peers (toy_started 1)) (pr_id toy_peer) = None"
    using toy_ids_differ by (simp_all add: toy_started_simps toy_peer_simps del: toy_public)
  note g = f [OF prem toy_local_lsa_fits [unfolded with_peer_def]]
  show "nd_peers toy_met = [(id_node (toy_identity 2), toy_peer)]" "nd_self toy_met = id_node (toy_identity 1)" "nd_started toy_met" "nd_seen toy_met = []"
    using g(2-4,11) by (simp_all add: toy_met_def toy_started_simps toy_peer_simps del: toy_public)
  show "i \<noteq> id_node (toy_identity 1) \<Longrightarrow> map_of (nd_lsas toy_met) i = None"
    using g(5) by (simp add: toy_met_def toy_started_simps del: toy_public)
qed

text \<open>Nodes with one of these identities, in whatever state, and how they meet further ones.\<close>

definition toy_like :: "byte \<Rightarrow> node \<Rightarrow> bool" where
  "toy_like k n \<longleftrightarrow> node_reachable toy n \<and> nd_id n = toy_identity k \<and> nd_network n = default_network toy \<and> nd_addresses n = [] \<and>
     cf_advertise (nd_cfg n) = [] \<and> cf_services (nd_cfg n) = []"

abbreviation toy_end :: "bool \<Rightarrow> nat \<Rightarrow> byte \<Rightarrow> peer" where
  "toy_end outbound conn k \<equiv> hello_peer toy_env outbound conn ''b'' (toy_started k)"

lemma toy_end_simps:
  "pr_id (toy_end d c k) = id_node (toy_identity k)" "pr_conn (toy_end d c k) = c" "pr_outbound (toy_end d c k) = d"
  by (simp_all add: hello_peer_def toy_started_simps)

lemma toy_like_hello:
  assumes "toy_like k n"
  shows "frame_fits (marshal (hello_json (local_hello toy_env n)))"
proof -
  have "local_hello toy_env n = local_hello toy_env (toy_started k)"
    using assms by (simp add: local_hello_def toy_like_def toy_started_simps advertised_addresses_def nd_self_def default_config_def)
  then show ?thesis by (simp add: toy_hello_fits)
qed

lemma toy_like_announces:
  assumes "toy_like k n" "length (nd_peers n) \<le> 1"
  shows "announcements_fit toy toy_env (with_peer p n)"
proof -
  have "length (AList.update i p xs) \<le> Suc (length xs)" for i and xs :: "(node_id \<times> peer) list"
    by (induction xs) auto
  from this [of "pr_id p" "nd_peers n"] have "length (peer_ids (with_peer p n)) \<le> 2"
    using assms(2) by (simp add: peer_ids_def with_peer_def)
  then show ?thesis
    using assms(1) toy_lsa_fits [of "peer_ids (with_peer p n)" "en_now toy_env" k]
    by (simp add: announcements_fit_def local_lsa_def toy_like_def with_peer_def advertised_addresses_def peer_ids_def)
qed

lemma toy_join:
  assumes "toy_like k n" "j \<noteq> k" "map_of (nd_peers n) (id_node (toy_identity j)) = None" "c \<notin> set (nd_open n)" "length (nd_peers n) \<le> 1"
    and n': "n' = snd (register_peer toy toy_env (toy_end d c j) n)"
  shows "toy_like k n'" "nd_peers n' = AList.update (id_node (toy_identity j)) (toy_end d c j) (nd_peers n)"
    "nd_open n' = c # nd_open n" "nd_started n' = nd_started n" "nd_cfg n' = nd_cfg n"
    "\<And>i. i \<noteq> id_node (toy_identity k) \<Longrightarrow> map_of (nd_lsas n') i = map_of (nd_lsas n) i"
proof -
  have like: "node_reachable toy n" "nd_id n = toy_identity k" "nd_network n = default_network toy"
    using assms(1) by (simp_all add: toy_like_def)
  have self: "nd_self (toy_started j) \<noteq> nd_self n"
    using assms(2) like(2) toy_id_inject [of j k] by (simp add: toy_started_simps nd_self_def del: toy_public)
  have fit: "frame_fits (lsa_marshal (local_lsa toy toy_env (with_peer (toy_end d c j) n)))"
    using toy_like_announces [OF assms(1,5), of "toy_end d c j", unfolded announcements_fit_def, rule_format, of "nd_sequence n"]
    by (simp add: with_peer_def)
  have free: "map_of (nd_peers n) (nd_self (toy_started j)) = None" using assms(3) by (simp add: toy_started_simps del: toy_public)
  note ok = node_reachable_ok [OF like(1)]
  have good: "good_identity toy (nd_id (toy_started j))" "nd_network (toy_started j) = nd_network n"
    by (simp_all add: toy_started_simps like(3))
  have "establish_peer toy toy_env d None c ''b'' (Inr \<lparr>tls_certificates = 1, tls_key = Some (id_public (nd_id (toy_started j)))\<rparr>)
      (hello_frame j @ []) n = (Inr (toy_end d c j), snd (register_peer toy toy_env (toy_end d c j) n))"
    by (rule meet [OF ok writes_toy good self free assms(4) _ _ toy_like_hello [OF assms(1)] write_hello_frame fit])
      (simp_all add: outside_window_def)
  then have "node_reachable toy n'"
    using node_reachable.step [OF like(1) node_step.established [OF assms(4)]] unfolding n' by (metis snd_conv)
  moreover note f = register_fresh [OF ok writes_toy, of "toy_end d c j" toy, folded with_peer_def, OF _ _ _ fit]
  ultimately show "toy_like k n'" "nd_peers n' = AList.update (id_node (toy_identity j)) (toy_end d c j) (nd_peers n)"
    "nd_open n' = c # nd_open n" "nd_started n' = nd_started n" "nd_cfg n' = nd_cfg n"
    "\<And>i. i \<noteq> id_node (toy_identity k) \<Longrightarrow> map_of (nd_lsas n') i = map_of (nd_lsas n) i"
    using assms(1,3,4) self like(2) f by (simp_all add: n' toy_like_def toy_end_simps toy_started_simps nd_self_def del: toy_public)
qed

lemma toy_started_like: "toy_like k (toy_started k)"
  by (simp add: toy_like_def toy_started_reachable toy_started_simps default_config_def)

lemma toy_met_like: "toy_like 1 toy_met" "nd_open toy_met = [10]"
  using toy_join [OF toy_started_like, of 2 1 10 toy_met True]
  by (simp_all add: toy_started_simps toy_met_def flip: toy_peer_def del: toy_public)

text \<open>What node 2 announces: node 1 as its neighbour.\<close>

definition toy_lsa :: lsa where
  "toy_lsa = new_lsa toy 0 (toy_identity 2) 1 (seconds 60) [] [id_node (toy_identity 1)] []"

lemma toy_lsa_read: "lsa_unmarshal (lsa_marshal toy_lsa) = Some toy_lsa"
  "lsa_verify toy (en_now toy_env) toy_lsa = Inr (id_node (toy_identity 2))"
  unfolding toy_lsa_def
  by (rule lsa_roundtrip, simp add: go_int_def)
    (rule lsa_verify_new, simp_all add: toy_env_def unix_small)

definition toy_linked :: node where
  "toy_linked = handle_frame toy toy_env (\<lambda>pkt m. m) (\<lambda>q cell m. m) toy_peer frame_lsa (lsa_marshal toy_lsa) toy_met"

lemma toy_linked_reachable: "node_reachable toy toy_linked"
  unfolding toy_linked_def
  by (rule node_reachable.step [OF toy_met_reachable node_step.frame]) (simp add: toy_met_simps del: toy_public)

lemma toy_linked_simps:
  "nd_lsas toy_linked = AList.update (id_node (toy_identity 2)) toy_lsa (nd_lsas toy_met)"
  "nd_self toy_linked = id_node (toy_identity 1)" "nd_started toy_linked"
  "nd_peers toy_linked = [(id_node (toy_identity 2), toy_peer)]" "nd_seen toy_linked = []"
  using toy_met_simps(1-3,5) toy_met_simps(4) [OF toy_ids_differ] toy_lsa_read toy_ids_differ
  by (simp_all add: toy_linked_def handle_frame_def handle_lsa_def broadcast_def frame_tasks_def put_lsa_def Let_def
      wake_publisher_def nd_self_def toy_peer_simps del: toy_public)

lemma toy_route: "\<exists>r. nd_routes toy_linked (id_node (toy_identity 2)) = Some r"
proof -
  let ?a = "id_node (toy_identity 1)" and ?b = "id_node (toy_identity 2)"
  have ok: "node_ok toy_linked" by (rule node_reachable_ok [OF toy_linked_reachable])
  obtain l where l: "map_of (nd_lsas toy_linked) ?a = Some l"
    "l_neighbors l = Some (sort (map node_string (peer_ids toy_linked)))"
    using ok toy_linked_simps(2,3) by (auto simp: node_ok_def own_ok_def simp del: toy_public)
  have b: "map_of (nd_lsas toy_linked) ?b = Some toy_lsa"
    by (simp add: toy_linked_simps update_conv' del: toy_public)
  have "?b \<in> set (neighbor_set ?a l)" "?a \<in> set (neighbor_set ?b toy_lsa)"
    using toy_ids_differ
    by (auto simp: neighbor_set_def l(2) peer_ids_def toy_linked_simps(4) toy_lsa_def simp del: toy_public)
  then have "linked (advertised_of (nd_lsas toy_linked)) ?a ?b"
    by (simp add: linked_def advertises_def map_of_advertised l(1) b del: toy_public)
  then have "walk (advertised_of (nd_lsas toy_linked)) ?a ?b [?a, ?b]"
    by (simp add: walk_def)
  then obtain r where "compute ?a (nd_lsas toy_linked) ?b = Some r"
    by (rule compute_shortest [OF _ toy_ids_differ])
  then show ?thesis
    using ok by (auto simp: node_ok_def tables_ok_def toy_linked_simps(2) simp del: toy_public)
qed

subsection \<open>Properties\<close>

text \<open>C23. Two nodes of one network with different identities and clocks within five minutes accept each
  other's hello over a connection authenticated with the other's key, and the caller's registry then
  holds the connection under the peer's identifier.\<close>

theorem peers_meet:
  assumes "node_reachable C n" "writes_ok E" "good_identity C (nd_id m)" "nd_network m = nd_network n"
    and "nd_self m \<noteq> nd_self n" "map_of (nd_peers n) (nd_self m) = None" "conn \<notin> set (nd_open n)"
    and "\<not> outside_window 300 (unix (en_now E)) (unix (en_now E'))"
    and "expected = None \<or> expected = Some (nd_self m)"
    and "frame_fits (marshal (hello_json (local_hello E n)))"
    and "write_frame frame_hello (marshal (hello_json (local_hello E' m))) = Inr hello"
    and "frame_fits (lsa_marshal (local_lsa C E (with_peer (hello_peer E' outbound conn remote m) n)))"
  shows "\<exists>p n'. establish_peer C E outbound expected conn remote
      (Inr \<lparr>tls_certificates = 1, tls_key = Some (id_public (nd_id m))\<rparr>) (hello @ rest) n = (Inr p, n') \<and>
    pr_id p = nd_self m \<and> pr_conn p = conn \<and> map_of (nd_peers n') (nd_self m) = Some p"
proof -
  note ok = node_reachable_ok [OF assms(1)]
  let ?p = "hello_peer E' outbound conn remote m"
  have "nd_peers (snd (register_peer C E ?p n)) = AList.update (pr_id ?p) ?p (nd_peers n)"
    by (rule register_fresh(2) [OF ok assms(2)]) (use assms(5-7,12) in \<open>simp_all add: hello_peer_def with_peer_def\<close>)
  then show ?thesis
    unfolding meet [OF ok assms(2-12)] by (simp add: hello_peer_def update_conv')
qed

lemma peers_meet_witness:
  "\<exists>p n'. establish_peer toy toy_env True None 10 ''b''
     (Inr \<lparr>tls_certificates = 1, tls_key = Some (replicate 32 2)\<rparr>) (hello_frame 2) (toy_started 1) = (Inr p, n') \<and>
    map_of (nd_peers n') (id_node (toy_identity 2)) = Some p"
  using peers_meet [where n = "toy_started 1" and E = toy_env and C = toy and m = "toy_started 2" and conn = 10 and E' = toy_env
      and expected = None and outbound = True and remote = "''b''" and hello = "hello_frame 2" and rest = "[]",
      OF toy_started_reachable]
    toy_ids_differ toy_hello_fits write_hello_frame toy_local_lsa_fits
  by (auto simp: toy_started_simps outside_window_def simp flip: toy_peer_def simp del: toy_public(2))

text \<open>In every state a node can reach, its registry has at most one connection per peer, each open and
  none to itself; its routing table is the one \<open>Compute\<close> gives for the announcements it stores; and once
  it is started its own announcement names exactly the connected peers.\<close>

theorem node_tables_consistent:
  assumes "node_reachable C n"
  shows "distinct (map fst (nd_peers n)) \<and> distinct (map (pr_conn \<circ> snd) (nd_peers n)) \<and>
    (\<forall>(i, p) \<in> set (nd_peers n). pr_id p = i \<and> i \<noteq> nd_self n \<and> pr_conn p \<in> set (nd_open n)) \<and>
    nd_routes n = compute (nd_self n) (nd_lsas n) \<and>
    (nd_started n \<longrightarrow> (\<exists>l. map_of (nd_lsas n) (nd_self n) = Some l \<and>
       l_neighbors l = Some (sort (map node_string (peer_ids n))))) \<and>
    length (nd_events n) \<le> 200"
  using node_reachable_ok [OF assms]
  unfolding node_ok_def peers_ok_def peer_ok_def tables_ok_def own_ok_def by blast

lemma node_tables_consistent_witness:
  "nd_peers toy_linked \<noteq> [] \<and> distinct (map fst (nd_peers toy_linked)) \<and> length (nd_events toy_linked) \<le> 200"
  using node_tables_consistent [OF toy_linked_reachable] by (simp add: toy_linked_simps)

text \<open>C24. In a started node every route's next hop is a peer with an open connection, so \<open>sendPacket\<close> never
  finds the next hop disconnected.\<close>

theorem next_hop_connected:
  assumes "node_reachable C n" "nd_started n" "nd_routes n dst = Some r"
  shows "\<exists>p. map_of (nd_peers n) (rt_next_hop r) = Some p \<and> pr_conn p \<in> set (nd_open n) \<and>
    (dst \<noteq> nd_self n \<longrightarrow> p_dst pkt = dst \<longrightarrow> send_packet E local pkt n = peer_send_packet E p pkt n)"
  using next_hop_is_peer [OF node_reachable_ok [OF assms(1)] assms(2,3)] assms(3)
  by (auto simp: send_packet_def)

lemma next_hop_connected_witness:
  "\<exists>r. nd_routes toy_linked (id_node (toy_identity 2)) = Some r \<and>
    (\<exists>p. map_of (nd_peers toy_linked) (rt_next_hop r) = Some p)"
  using next_hop_connected [OF toy_linked_reachable toy_linked_simps(3)] toy_route by blast

text \<open>C21. A newer verified announcement of another node is stored and its bytes go to every peer but the one
  it came from, once each; when the same bytes arrive again, nothing is stored or sent.\<close>

theorem lsa_flooded_once:
  assumes "node_reachable C n" "lsa_unmarshal raw = Some l" "lsa_verify C (en_now E) l = Inr i" "i \<noteq> nd_self n"
    and "\<forall>old. map_of (nd_lsas n) i = Some old \<longrightarrow> l_sequence old < l_sequence l"
    and "writes_ok E" "frame_fits raw"
  shows "nd_sent (handle_lsa C E raw p n) = nd_sent n @
      map (\<lambda>q. (pr_conn q, frame_lsa, raw)) (filter (\<lambda>q. pr_conn q \<noteq> pr_conn p) (map snd (nd_peers n))) \<and>
    map_of (nd_lsas (handle_lsa C E raw p n)) i = Some l \<and>
    nd_sent (handle_lsa C E' raw p' (handle_lsa C E raw p n)) = nd_sent (handle_lsa C E raw p n) \<and>
    nd_lsas (handle_lsa C E' raw p' (handle_lsa C E raw p n)) = nd_lsas (handle_lsa C E raw p n)"
proof -
  let ?m = "wake_publisher (put_lsa i l n)" and ?h = "handle_lsa C E raw p n"
  have newer: "\<not> (case map_of (nd_lsas n) i of None \<Rightarrow> False | Some old \<Rightarrow> l_sequence l \<le> l_sequence old)"
    using assms(5) by (auto split: option.split)
  have h: "?h = broadcast C E frame_lsa raw (Some (pr_conn p)) ?m"
    using assms(2-4) newer by (simp add: handle_lsa_def)
  have "node_ok ?m"
    using node_reachable_ok [OF assms(1)] assms(3,4) by (auto intro!: node_ok_wake put_lsa_ok elim: lsa_verify_InrD)
  then have "peers_ok ?m" by (simp add: node_ok_def)
  note b = broadcast_sends [OF assms(6,7) this, of C frame_lsa "Some (pr_conn p)"]
  have m: "nd_sent ?m = nd_sent n" "nd_peers ?m = nd_peers n" "map_of (nd_lsas ?m) i = Some l"
    by (simp_all add: wake_publisher_def put_lsa_def Let_def update_conv')
  have "map_of (nd_lsas ?h) i = Some l" using b(1) m(3) by (simp add: h same_tables_def)
  moreover have "nd_sent ?h = nd_sent n @
      map (\<lambda>q. (pr_conn q, frame_lsa, raw)) (filter (\<lambda>q. pr_conn q \<noteq> pr_conn p) (map snd (nd_peers n)))"
    using b(2) by (simp add: h m)
  ultimately show ?thesis
    using handle_lsa_stale [OF assms(2,3), of ?h l E' p'] by simp
qed

lemma lsa_flooded_once_witness:
  "map_of (nd_lsas (handle_lsa toy toy_env (lsa_marshal toy_lsa) toy_peer toy_met)) (id_node (toy_identity 2)) = Some toy_lsa"
  using lsa_flooded_once [OF toy_met_reachable toy_lsa_read, of toy_peer toy_env toy_peer]
    toy_met_simps(2) toy_met_simps(4) [OF toy_ids_differ] toy_ids_differ toy_lsa_fits [of "[id_node (toy_identity 1)]" 0 2 1 "seconds 60"]
  by (simp add: toy_lsa_def del: toy_public)

text \<open>Whatever frame arrives, the sequence number stored for another node never goes down.\<close>

theorem lsa_sequence_monotone:
  assumes "node_reachable C n" "i \<noteq> nd_self n" "map_of (nd_lsas n) i = Some old"
  shows "\<exists>new. map_of (nd_lsas (handle_lsa C E raw p n)) i = Some new \<and> l_sequence old \<le> l_sequence new"
  using handle_lsa_newer [OF node_reachable_ok [OF assms(1)], of C E raw p] assms(2,3)
  by (auto simp: newer_lsas_def)

lemma lsa_sequence_monotone_witness:
  "\<exists>new. map_of (nd_lsas (handle_lsa toy toy_env (lsa_marshal toy_lsa) toy_peer toy_linked)) (id_node (toy_identity 2)) = Some new
    \<and> l_sequence toy_lsa \<le> l_sequence new"
  using lsa_sequence_monotone [OF toy_linked_reachable, of "id_node (toy_identity 2)" toy_lsa] toy_ids_differ
  by (simp add: toy_linked_simps update_conv' del: toy_public)

text \<open>\<open>p\<close> at node \<open>n\<close> and \<open>q\<close> at node \<open>m\<close> are the two ends of one connection: one dialled, one accepted.\<close>

definition two_ends :: "'a node_scheme \<Rightarrow> 'a node_scheme \<Rightarrow> peer \<Rightarrow> peer \<Rightarrow> bool" where
  "two_ends n m p q \<longleftrightarrow> pr_id p = nd_self m \<and> pr_id q = nd_self n \<and> (pr_outbound p \<longleftrightarrow> \<not> pr_outbound q)"

text \<open>The registry of a node after a second connection to a peer: \<open>kept\<close> is the registered one and open, \<open>other\<close> is
  not open, no other peer's entry has changed; \<open>registerPeer\<close> said whether the new one is the one kept.\<close>

definition settled :: "peer \<Rightarrow> peer \<Rightarrow> peer \<Rightarrow> 'a node_scheme \<Rightarrow> bool \<times> 'a node_scheme \<Rightarrow> bool" where
  "settled kept other new n = (\<lambda>(b, n'). map_of (nd_peers n') (pr_id kept) = Some kept \<and> pr_conn kept \<in> set (nd_open n') \<and>
     pr_conn other \<notin> set (nd_open n') \<and> (\<forall>i. i \<noteq> pr_id kept \<longrightarrow> map_of (nd_peers n') i = map_of (nd_peers n) i) \<and>
     (b \<longleftrightarrow> new = kept))"

lemma second_connection:
  assumes "node_ok n" "writes_ok E" "preferred n kept" "\<not> preferred n other" "pr_id other = pr_id kept" "pr_id kept \<noteq> nd_self n"
    and "(old, new) = (kept, other) \<or> (old, new) = (other, kept)"
    and "map_of (nd_peers n) (pr_id kept) = Some old" "pr_conn new \<notin> set (nd_open n)" "announcements_fit C E (with_peer new n)"
  shows "settled kept other new n (register_peer C E new n)"
proof -
  obtain b n' where r: "(b, n') = register_peer C E new n" by (metis surj_pair)
  have new: "pr_id new \<noteq> nd_self n" "map_of (nd_peers n) (pr_id new) = Some old"
    using assms(5-8) by auto
  have old: "pr_conn old \<in> set (nd_open n)"
    using map_of_SomeD [OF new(2)] assms(1) by (auto simp: node_ok_def peers_ok_def peer_ok_def)
  have ne: "kept \<noteq> other" using assms(3,4) by blast
  note d = register_duplicate [OF assms(1,2,9) new assms(10) r]
  show ?thesis
    using assms(7)
  proof
    assume k: "(old, new) = (kept, other)"
    then have "\<not> b" "n' = n" using d(1,2) assms(3,4) by simp_all
    then show ?thesis
      using k ne assms(8,9) old unfolding r [symmetric] by (simp add: settled_def)
  next
    assume k: "(old, new) = (other, kept)"
    then have b using d(1) assms(3,4) by simp
    moreover have "pr_conn other \<noteq> pr_conn kept" using k old assms(9) by auto
    ultimately show ?thesis
      using k d(3,4) unfolding r [symmetric] by (simp add: settled_def update_conv')
  qed
qed

text \<open>The rule is about one connection in each direction. Of two dialled by the same node each end keeps the one
  it registered first, and nothing makes that the same one: \<open>n\<close> may refuse the second connection and \<open>m\<close> the
  first, so that each closes the one the other keeps.\<close>

lemma same_direction_disagrees:
  assumes "two_ends n m p q" "two_ends n m p' q'" "pr_outbound p = pr_outbound p'"
    and "map_of (nd_peers n) (nd_self m) = Some p" "map_of (nd_peers m) (nd_self n) = Some q'"
  shows "register_peer C E p' n = (False, n) \<and> register_peer C E' q m = (False, m)"
  using assms by (auto simp: two_ends_def register_peer_def preferred_def Let_def)

text \<open>C22. Two nodes have two connections with each other, \<open>p\<close>--\<open>q\<close> dialled by \<open>n\<close> and \<open>p'\<close>--\<open>q'\<close> dialled by \<open>m\<close>. Whichever
  of the two each of them registered first, once the other has been registered too both registries hold the
  same connection, the one that the node with the smaller identifier dialled: it is open at both ends, the
  other one is open at neither, and no other entry has changed. (Two connections dialled by the same node are
  not covered: see \<open>same_direction_disagrees\<close>.)\<close>

theorem duplicate_connections_agree:
  assumes "node_reachable C n" "node_reachable C m" "nd_self n \<noteq> nd_self m" "writes_ok E" "writes_ok E'"
    and "two_ends n m p q" "two_ends n m p' q'" "pr_outbound p" "\<not> pr_outbound p'"
    and "(x, y) = (p, p') \<or> (x, y) = (p', p)" "map_of (nd_peers n) (nd_self m) = Some x"
    and "pr_conn y \<notin> set (nd_open n)" "announcements_fit C E (with_peer y n)"
    and "(u, v) = (q, q') \<or> (u, v) = (q', q)" "map_of (nd_peers m) (nd_self n) = Some u"
    and "pr_conn v \<notin> set (nd_open m)" "announcements_fit C E' (with_peer v m)"
  shows "if node_compare (nd_self n) (nd_self m) < 0
    then settled p p' y n (register_peer C E y n) \<and> settled q q' v m (register_peer C E' v m)
    else settled p' p y n (register_peer C E y n) \<and> settled q' q v m (register_peer C E' v m)"
proof -
  have flip: "node_compare (nd_self m) (nd_self n) < 0 \<longleftrightarrow> \<not> node_compare (nd_self n) (nd_self m) < 0"
    using node_compare_swap [of "nd_self m" "nd_self n"] node_compare_eq_0 [of "nd_self n" "nd_self m"] assms(3)
    by linarith
  have ids: "pr_id p = nd_self m" "pr_id p' = nd_self m" "pr_id q = nd_self n" "pr_id q' = nd_self n" "\<not> pr_outbound q" "pr_outbound q'"
    using assms(6-9) by (simp_all add: two_ends_def)
  note pref = preferred_def [of n] preferred_def [of m]
  note ok = node_reachable_ok [OF assms(1)] node_reachable_ok [OF assms(2)]
  show ?thesis
  proof (cases "node_compare (nd_self n) (nd_self m) < 0")
    case True
    have "settled p p' y n (register_peer C E y n)"
      by (rule second_connection [OF ok(1) assms(4) _ _ _ _ assms(10) _ assms(12,13)]) (use True ids assms in \<open>simp_all add: pref\<close>)
    moreover have "settled q q' v m (register_peer C E' v m)"
      by (rule second_connection [OF ok(2) assms(5) _ _ _ _ assms(14) _ assms(16,17)]) (use True flip ids assms in \<open>simp_all add: pref\<close>)
    ultimately show ?thesis using True by simp
  next
    case False
    have "settled p' p y n (register_peer C E y n)"
      by (rule second_connection [OF ok(1) assms(4) _ _ _ _ _ _ assms(12,13)]) (use False ids assms in \<open>auto simp: pref\<close>)
    moreover have "settled q' q v m (register_peer C E' v m)"
      by (rule second_connection [OF ok(2) assms(5) _ _ _ _ _ _ assms(16,17)]) (use False flip ids assms in \<open>auto simp: pref\<close>)
    ultimately show ?thesis using False by simp
  qed
qed

text \<open>Nodes 1 and 2 dial each other at once. Node 1 has registered its own connection first, node 2 its own.\<close>

definition toy_met_back :: node where
  "toy_met_back = snd (register_peer toy toy_env (toy_end True 5 1) (toy_started 2))"

lemma toy_met_back_simps:
  "toy_like 2 toy_met_back" "nd_peers toy_met_back = [(id_node (toy_identity 1), toy_end True 5 1)]" "nd_open toy_met_back = [5]"
  using toy_join [OF toy_started_like, of 1 2 5 toy_met_back True]
  by (simp_all add: toy_started_simps toy_met_back_def del: toy_public)

lemma duplicate_connections_agree_witness:
  "map_of (nd_peers (snd (register_peer toy toy_env (toy_end False 11 2) toy_met))) (id_node (toy_identity 2)) = Some toy_peer \<and>
   map_of (nd_peers (snd (register_peer toy toy_env (toy_end False 4 1) toy_met_back))) (id_node (toy_identity 1)) = Some (toy_end False 4 1)"
proof -
  have reach: "node_reachable toy toy_met" "node_reachable toy toy_met_back"
    using toy_met_like(1) toy_met_back_simps(1) by (simp_all add: toy_like_def)
  have self: "nd_self toy_met = id_node (toy_identity 1)" "nd_self toy_met_back = id_node (toy_identity 2)"
    using toy_met_like(1) toy_met_back_simps(1) by (simp_all add: toy_like_def nd_self_def del: toy_public)
  have less: "node_compare (id_node (toy_identity 1)) (id_node (toy_identity 2)) < 0"
    by (simp add: node_compare_def numeral_eq_Suc)
  have peer: "toy_peer = toy_end True 10 2" by (simp add: toy_peer_def)
  have "settled (toy_end True 10 2) (toy_end False 11 2) (toy_end False 11 2) toy_met (register_peer toy toy_env (toy_end False 11 2) toy_met) \<and>
      settled (toy_end False 4 1) (toy_end True 5 1) (toy_end False 4 1) toy_met_back (register_peer toy toy_env (toy_end False 4 1) toy_met_back)"
    using duplicate_connections_agree [OF reach, where p = "toy_end True 10 2" and p' = "toy_end False 11 2" and q = "toy_end False 4 1" and q' = "toy_end True 5 1"
        and x = "toy_end True 10 2" and y = "toy_end False 11 2" and u = "toy_end True 5 1" and v = "toy_end False 4 1" and E = toy_env and E' = toy_env]
      less toy_ids_differ toy_like_announces [OF toy_met_like(1), of "toy_end False 11 2"]
      toy_like_announces [OF toy_met_back_simps(1), of "toy_end False 4 1"]
    by (simp add: self two_ends_def toy_end_simps toy_met_simps(1) toy_met_like(2) toy_met_back_simps(2,3) peer del: toy_public)
  then show ?thesis
    by (simp add: settled_def toy_end_simps peer split: prod.splits del: toy_public)
qed

text \<open>The frames \<open>sendPacket\<close> writes for a packet to another node: one to the next hop of its route, or none when
  there is no route, the next hop is gone, or the write fails.\<close>

definition packet_frames :: "env \<Rightarrow> 'a node_scheme \<Rightarrow> packet \<Rightarrow> (nat \<times> byte \<times> bytes) list" where
  "packet_frames E n pkt =
     (case nd_routes n (p_dst pkt) of None \<Rightarrow> []
      | Some r \<Rightarrow> (case map_of (nd_peers n) (rt_next_hop r) of None \<Rightarrow> []
        | Some p \<Rightarrow> (case packet_marshal pkt of Inl e \<Rightarrow> []
          | Inr raw \<Rightarrow> if is_ok (write_frame frame_packet raw) \<and> pr_conn p \<in> set (nd_open n) \<and> en_write E (pr_conn p) = None
              then [(pr_conn p, frame_packet, raw)] else [])))"



lemma length_packet_frames: "length (packet_frames E n pkt) \<le> 1"
  by (simp add: packet_frames_def split: option.split sum.split)





end
