(* ===== verification/Directory_Inv.thy ===== *)
theory Directory_Inv
  imports Directory Node_Props
begin

section \<open>Invariants of the directory\<close>

text \<open>
  Every descriptor a node holds passed \<open>Verify\<close> for the service it is stored under, the answers that wait for
  a lookup fit its channel, a waiting lookup is listed under its own identifier (\<open>listed\<close>). The directory's handlers leave the tables of \<open>node.go\<close> and \<open>circuit.go\<close> as they
  are (\<open>steady\<close>).
\<close>

subsection \<open>What the handlers leave alone\<close>

definition same_circuits :: "'a circuit_node_scheme \<Rightarrow> 'a circuit_node_scheme \<Rightarrow> bool" where
  "same_circuits m n \<longleftrightarrow> cs_relays m = cs_relays n \<and> cs_relay_in m = cs_relay_in n \<and> cs_relay_out m = cs_relay_out n \<and>
     cs_all_clients m = cs_all_clients n \<and> cs_clients m = cs_clients n \<and> cs_extends m = cs_extends n \<and> cs_pending m = cs_pending n"

definition few_events :: "'a node_scheme \<Rightarrow> 'a node_scheme \<Rightarrow> bool" where
  "few_events m n \<longleftrightarrow> (length (nd_events n) \<le> 200 \<longrightarrow> length (nd_events m) \<le> 200)"

definition steady :: "'a dir_node_scheme \<Rightarrow> 'a dir_node_scheme \<Rightarrow> bool" where
  "steady m n \<longleftrightarrow> same_tables m n \<and> few_events m n \<and> same_circuits m n \<and> dir_node.more m = dir_node.more n"

lemma steady_refl [simp, intro]: "steady n n"
  by (simp add: steady_def few_events_def same_circuits_def)

lemma steady_trans: "steady a b \<Longrightarrow> steady b c \<Longrightarrow> steady a c"
  by (auto simp: steady_def few_events_def same_circuits_def intro: same_tables_trans)

lemma steady_ok:
  assumes "steady m n"
  shows "node_ok n \<Longrightarrow> node_ok m" "circuits_ok n \<Longrightarrow> circuits_ok m"
  using assms node_ok_same [of m n]
  by (auto simp: steady_def few_events_def node_ok_def same_circuits_def circuits_ok_def relays_ok_def clients_ok_def)

lemma dir_more_of_node_more:
  fixes m n :: "'a dir_node_scheme"
  assumes "node.more m = node.more n"
  shows "same_circuits m n" "dir_node.more m = dir_node.more n" "ds_descriptors m = ds_descriptors n"
    "ds_pending m = ds_pending n" "ds_lookups m = ds_lookups n" "ds_local m = ds_local n" "ds_files m = ds_files n"
  using assms by (cases m; cases n; simp add: same_circuits_def)+

lemma steady_updates:
  "steady m n \<Longrightarrow> steady (m\<lparr>ds_descriptors := a\<rparr>) n" "steady m n \<Longrightarrow> steady (m\<lparr>ds_pending := b\<rparr>) n"
  "steady m n \<Longrightarrow> steady (m\<lparr>ds_lookups := c\<rparr>) n" "steady m n \<Longrightarrow> steady (m\<lparr>ds_local := d\<rparr>) n"
  "steady m n \<Longrightarrow> steady (m\<lparr>ds_files := e\<rparr>) n" "steady m n \<Longrightarrow> steady (m\<lparr>nd_wake := w\<rparr>) n"
  "steady m n \<Longrightarrow> steady (m\<lparr>ds_pending := b, ds_lookups := c\<rparr>) n"
  by (simp_all add: steady_def same_tables_def few_events_def same_circuits_def)

lemma add_event_more [simp]: "node.more (add_event E lv msg n) = node.more n"
  by (simp add: add_event_def)

lemma peer_send_packet_more [simp]: "node.more (snd (peer_send_packet E p pkt n)) = node.more n"
  by (simp add: peer_send_packet_def split: sum.split)

lemma steady_of_more:
  "same_tables m n \<Longrightarrow> few_events m n \<Longrightarrow> node.more m = node.more n \<Longrightarrow> steady m n"
  unfolding steady_def by (intro conjI dir_more_of_node_more(1,2))

lemma steady_event_self: "steady (add_event E lv msg n) n"
  by (rule steady_of_more) (simp_all add: few_events_def events_steps)

lemma steady_event: "steady m n \<Longrightarrow> steady (add_event E lv msg m) n"
  by (rule steady_trans [OF steady_event_self])

lemma same_send_packet: "same_tables (snd (peer_send_packet E p pkt n)) n" "nd_events (snd (peer_send_packet E p pkt n)) = nd_events n"
  by (simp_all add: peer_send_packet_def events_steps split: sum.split)

lemma steady_send:
  assumes "\<And>m. steady (local pkt m) m"
  shows "steady (snd (send_packet E local pkt n)) n"
  using assms
  by (auto simp: send_packet_def few_events_def same_send_packet intro: steady_of_more split: option.split)

subsection \<open>What is stored\<close>

definition authentic :: "crypto \<Rightarrow> network_id \<Rightarrow> service_id \<Rightarrow> descriptor \<Rightarrow> bool" where
  "authentic C w i d \<longleftrightarrow> (\<exists>t. descriptor_verify C d t w = Inr i)"

definition lookup_ok :: "crypto \<Rightarrow> network_id \<Rightarrow> lookup \<Rightarrow> bool" where
  "lookup_ok C w lk \<longleftrightarrow> length (lk_answers lk) \<le> 16 \<and> (\<forall>d. lk_best lk = Some d \<longrightarrow> (\<exists>i. authentic C w i d))"

text \<open>A table of positions whose entries refer to objects that carry the key they are listed under.\<close>

definition listed :: "('o \<Rightarrow> 'k) \<Rightarrow> 'o list \<Rightarrow> ('k \<times> nat) list \<Rightarrow> bool" where
  "listed key objs tab \<longleftrightarrow> (\<forall>(k, x) \<in> set tab. x < length objs \<and> key (objs ! x) = k)"

lemma listed_Nil [simp]: "listed key objs []"
  by (simp add: listed_def)

lemma listed_subset: "listed key objs tab \<Longrightarrow> set tab' \<subseteq> set tab \<Longrightarrow> listed key objs tab'"
  by (auto simp: listed_def)

lemma listed_delete: "listed key objs tab \<Longrightarrow> listed key objs (AList.delete k tab)"
  by (erule listed_subset) (auto simp: AList.delete_eq)

lemma listed_add: "listed key objs tab \<Longrightarrow> key x = k \<Longrightarrow> listed key (objs @ [x]) (AList.update k (length objs) tab)"
  using set_update_subset [of k "length objs" tab] by (fastforce simp: listed_def nth_append)

lemma listed_update: "listed key objs tab \<Longrightarrow> key y = key (objs ! x) \<Longrightarrow> listed key (objs[x := y]) tab"
  unfolding listed_def by (metis (no_types, lifting) case_prodD case_prodI2 length_list_update nth_list_update_eq nth_list_update_neq)

lemma listedD: "listed key objs tab \<Longrightarrow> map_of tab k = Some x \<Longrightarrow> x < length objs \<and> key (objs ! x) = k"
  by (auto simp: listed_def dest!: map_of_SomeD)

definition dir_ok :: "crypto \<Rightarrow> 'a dir_node_scheme \<Rightarrow> bool" where
  "dir_ok C n \<longleftrightarrow> distinct (map fst (ds_descriptors n)) \<and>
     (\<forall>(i, d) \<in> set (ds_descriptors n). authentic C (nd_network n) i d) \<and>
     listed lk_request (ds_lookups n) (ds_pending n) \<and>
     (\<forall>lk \<in> set (ds_lookups n). lookup_ok C (nd_network n) lk)"

lemma dir_ok_cong:
  assumes "node.more m = node.more n" "nd_network m = nd_network n"
  shows "dir_ok C m = dir_ok C n"
  using assms(2) dir_more_of_node_more [OF assms(1)] by (simp add: dir_ok_def)

lemma nd_network_simps [simp]:
  "nd_network (add_event E lv msg n) = nd_network n" "nd_network (snd (peer_send_packet E p pkt n)) = nd_network n"
  using same_send_packet(1) [of E p pkt n] by (simp_all add: add_event_def same_tables_def)

lemma dir_ok_simps [simp]:
  "dir_ok C (add_event E lv msg n) = dir_ok C n" "dir_ok C (snd (peer_send_packet E p pkt n)) = dir_ok C n"
  "dir_ok C (n\<lparr>ds_local := l\<rparr>) = dir_ok C n" "dir_ok C (n\<lparr>ds_files := f\<rparr>) = dir_ok C n" "dir_ok C (n\<lparr>nd_wake := w\<rparr>) = dir_ok C n"
  by (rule dir_ok_cong, simp, simp, rule dir_ok_cong, simp, simp) (simp_all add: dir_ok_def)

lemma send_packet_dir_ok:
  assumes "\<And>m. dir_ok C m \<Longrightarrow> dir_ok C (local pkt m)" "dir_ok C n"
  shows "dir_ok C (snd (send_packet E local pkt n))"
  using assms by (simp add: send_packet_def split: option.split)

lemma store_descriptor_steady: "steady (snd (store_descriptor C E d n)) n"
  by (auto simp: store_descriptor_def intro!: steady_updates split: sum.split)

lemma store_descriptor_ok:
  assumes "dir_ok C n"
  shows "dir_ok C (snd (store_descriptor C E d n))"
proof -
  have "dir_ok C (n\<lparr>ds_descriptors := AList.update i d (ds_descriptors n)\<rparr>)"
    if "descriptor_verify C d (en_now E) (nd_network n) = Inr i" for i
  proof -
    have "authentic C (nd_network n) i d" using that by (auto simp: authentic_def)
    with assms have "\<forall>(j, e) \<in> insert (i, d) (set (ds_descriptors n)). authentic C (nd_network n) j e"
      by (simp add: dir_ok_def)
    then have "\<forall>(j, e) \<in> set (AList.update i d (ds_descriptors n)). authentic C (nd_network n) j e"
      using set_update_subset [of i d "ds_descriptors n"] by blast
    with assms show ?thesis by (simp add: dir_ok_def distinct_update)
  qed
  then show ?thesis using assms by (auto simp: store_descriptor_def split: sum.split)
qed

lemma clean_descriptors_ok: "dir_ok C n \<Longrightarrow> dir_ok C (clean_descriptors E n)"
  by (auto simp: dir_ok_def clean_descriptors_def distinct_filter_keys)

lemma invalidate_ok: "dir_ok C n \<Longrightarrow> dir_ok C (invalidate_descriptor i n)"
  by (simp add: dir_ok_def invalidate_descriptor_def distinct_delete) (auto simp: AList.delete_eq)

lemma end_lookup_ok: "dir_ok C n \<Longrightarrow> dir_ok C (end_lookup req n)"
  by (simp add: dir_ok_def end_lookup_def listed_delete)

lemma set_lookup_ok:
  "dir_ok C n \<Longrightarrow> lookup_ok C (nd_network n) lk \<Longrightarrow> lk_request lk = lk_request (ds_lookups n ! x) \<Longrightarrow>
    dir_ok C (n\<lparr>ds_lookups := (ds_lookups n)[x := lk]\<rparr>)"
  using set_update_subset_insert [of "ds_lookups n" x lk] by (fastforce simp: dir_ok_def intro: listed_update)

lemma lookup_ok_nth:
  "dir_ok C n \<Longrightarrow> x < length (ds_lookups n) \<Longrightarrow> lookup_ok C (nd_network n) (ds_lookups n ! x)"
  by (simp add: dir_ok_def)

lemma pending_bound: "dir_ok C n \<Longrightarrow> map_of (ds_pending n) req = Some x \<Longrightarrow> x < length (ds_lookups n)"
  unfolding dir_ok_def by (blast dest: listedD)

lemma answer_lookup_steady: "steady (answer_lookup pkt n) n"
  by (auto simp: answer_lookup_def Let_def intro!: steady_updates split: option.split prod.split)

lemma push_answer_ok:
  assumes "dir_ok C n" "map_of (ds_pending n) req = Some x" "length (lk_answers (ds_lookups n ! x)) < 16"
  shows "dir_ok C (n\<lparr>ds_lookups := (ds_lookups n)[x := (ds_lookups n ! x)\<lparr>lk_answers := lk_answers (ds_lookups n ! x) @ [a]\<rparr>]\<rparr>)"
  by (rule set_lookup_ok [OF assms(1)])
    (use lookup_ok_nth [OF assms(1) pending_bound [OF assms(1,2)]] assms(3) in \<open>simp_all add: lookup_ok_def\<close>)

lemma answer_lookup_ok: "dir_ok C n \<Longrightarrow> dir_ok C (answer_lookup pkt n)"
  by (simp add: answer_lookup_def Let_def push_answer_ok split: option.split prod.split)

lemma handle_directory_packet_ok:
  assumes "dir_ok C n"
  shows "dir_ok C (snd (handle_directory_packet C E fresh pkt n))"
  using assms
  by (auto simp: handle_directory_packet_def put_packet_def reply_descriptor_def Let_def split: option.split sum.split
      intro!: store_descriptor_ok send_packet_dir_ok answer_lookup_ok)

lemma handle_directory_packet_steady: "steady (snd (handle_directory_packet C E fresh pkt n)) n"
  by (auto simp: handle_directory_packet_def put_packet_def reply_descriptor_def Let_def split: option.split sum.split
      intro!: store_descriptor_steady steady_send answer_lookup_steady)

subsection \<open>Handlers\<close>

text \<open>A step of the directory: it leaves the other tables alone and keeps its own invariant. What such steps
  keep is \<open>robust\<close>; handlers that send packets keep every robust property that handling a packet keeps.\<close>

definition dir_step :: "crypto \<Rightarrow> 'a dir_node_scheme \<Rightarrow> 'a dir_node_scheme \<Rightarrow> bool" where
  "dir_step C m n \<longleftrightarrow> steady m n \<and> (dir_ok C n \<longrightarrow> dir_ok C m)"

definition robust :: "crypto \<Rightarrow> ('a dir_node_scheme \<Rightarrow> bool) \<Rightarrow> bool" where
  "robust C P \<longleftrightarrow> (\<forall>m n. dir_step C m n \<longrightarrow> P n \<longrightarrow> P m)"

lemma dir_step_refl [simp, intro]: "dir_step C n n"
  by (simp add: dir_step_def)

lemma dir_step_trans: "dir_step C a b \<Longrightarrow> dir_step C b c \<Longrightarrow> dir_step C a c"
  by (auto simp: dir_step_def intro: steady_trans)

lemma robustD: "robust C P \<Longrightarrow> dir_step C m n \<Longrightarrow> P n \<Longrightarrow> P m"
  by (auto simp: robust_def)

lemma robust_conj: "robust C P \<Longrightarrow> robust C Q \<Longrightarrow> robust C (\<lambda>n. P n \<and> Q n)"
  by (auto simp: robust_def)

lemma robust_invariants: "robust C node_ok" "robust C circuits_ok" "robust C (dir_ok C)" "robust C (\<lambda>n. Q (dir_node.more n))"
  by (auto simp: robust_def dir_step_def dest: steady_ok) (auto simp: steady_def)

lemma dir_step_small:
  "dir_step C (add_event E lv msg n) n" "dir_step C (snd (peer_send_packet E p pkt n)) n"
  "dir_step C (put_service name s n) n" "dir_step C (n\<lparr>ds_files := f\<rparr>) n" "dir_step C (end_lookup req n) n"
  "dir_step C (snd (store_descriptor C E d n)) n" "dir_step C (clean_descriptors E n) n"
  "dir_step C (invalidate_descriptor i n) n" "dir_step C (snd (handle_directory_packet C E fresh pkt n)) n"
  "dir_step C (n\<lparr>nd_wake := w\<rparr>) n"
  by (simp_all add: dir_step_def steady_event_self store_descriptor_steady store_descriptor_ok clean_descriptors_ok invalidate_ok
      end_lookup_ok handle_directory_packet_ok handle_directory_packet_steady put_service_def steady_updates)
    (auto simp: clean_descriptors_def invalidate_descriptor_def end_lookup_def few_events_def same_send_packet
      intro: steady_updates steady_of_more)

text \<open>Handling a packet keeps a property.\<close>

definition handles :: "('a \<Rightarrow> bool) \<Rightarrow> (packet \<Rightarrow> 'a \<Rightarrow> 'a) \<Rightarrow> bool" where
  "handles P local \<longleftrightarrow> (\<forall>pkt m. P m \<longrightarrow> P (local pkt m))"

lemma send_packet_keeps:
  assumes "robust C P" "handles P local" "P n"
  shows "P (snd (send_packet E local pkt n))"
  using assms robustD [OF assms(1) dir_step_small(2)] by (simp add: send_packet_def handles_def split: option.split)

lemma retry_attempt_keeps:
  assumes "robust C P" "handles P local" "P n"
  shows "P (snd (retry_attempt E local deadline fresh pkt n))"
  using send_packet_keeps [OF assms, where E = E and pkt = pkt] by (auto simp: retry_attempt_def split: prod.split sum.split)

lemma publish_next_step: "dir_step C (snd (publish_next C E fresh name raw dsts n)) n"
  by (simp add: publish_next_def dir_step_small split: list.split)

lemma publish_start_step: "dir_step C (snd (publish_start C E io dir_is_dot fresh name s n)) n"
  by (auto simp: publish_start_def Let_def split: prod.split sum.split
      intro: dir_step_trans [OF dir_step_small(4) dir_step_small(3)]
        dir_step_trans [OF publish_next_step dir_step_trans [OF dir_step_small(6) dir_step_trans [OF dir_step_small(4) dir_step_small(3)]]])

lemma ensure_intros_step: "dir_step C (ensure_intros name n) n"
  by (simp add: ensure_intros_def dir_step_small split: option.split)

lemma publish_service_step: "dir_step C (snd (publish_service C E io dir_is_dot fresh name n)) n"
proof -
  have warn: "dir_step C (publish_warn E nm e m) m" for nm e and m :: "'a dir_node_scheme"
    by (simp add: publish_warn_def dir_step_small)
  show ?thesis
  proof (cases "map_of (ds_local (ensure_intros name n)) name")
    case (Some s)
    obtain p m where p: "publish_start C E io dir_is_dot fresh name s (ensure_intros name n) = (p, m)" by fastforce
    have "dir_step C m n"
      using dir_step_trans [OF publish_start_step ensure_intros_step, of C E io dir_is_dot fresh name s name n] p by simp
    then show ?thesis
      using Some p by (cases p) (auto simp: publish_service_def intro: dir_step_trans [OF warn])
  qed (simp add: publish_service_def ensure_intros_step)
qed

lemma publish_attempt_keeps:
  assumes "robust C P" "handles P local" "P n"
  shows "P (snd (publish_attempt C E local fresh p n))"
proof (cases p)
  case (Publishing name raw rest pkt deadline)
  obtain r m where r: "retry_attempt E local deadline fresh pkt n = (r, m)" by fastforce
  have "P m" using retry_attempt_keeps [OF assms, where E = E and deadline = deadline and fresh = fresh and pkt = pkt] r by simp
  then show ?thesis
    using r robustD [OF assms(1) publish_next_step] robustD [OF assms(1) dir_step_small(1)]
    by (cases r) (simp_all add: publish_attempt_def Publishing)
qed (use assms(3) in \<open>simp_all add: publish_attempt_def\<close>)

lemma directory_turn_step: "dir_step C (snd (snd (directory_turn E ev timer n))) n"
  by (simp add: directory_turn_def dir_step_small split: loop_event.split)

lemma send_queries_keeps:
  assumes "robust C P" "handles P local"
  shows "P n \<Longrightarrow> P (snd (send_queries E local req raw fresh k dsts n))"
proof (induction dsts arbitrary: k n)
  case (Cons dst dsts)
  obtain r m where r: "send_packet E local (new_packet packet_descriptor_get dst req 0 raw (fresh k) n) n = (r, m)" by fastforce
  have "P m" using send_packet_keeps [OF assms Cons.prems, where E = E] r by (metis snd_conv)
  with Cons show ?case by (auto simp: r split: prod.split) (metis snd_conv)+
qed simp

lemma new_lookup_step:
  assumes "lk = \<lparr> lk_request = req, lk_sent = 0, lk_received = 0, lk_best = None, lk_answers = [] \<rparr>"
  shows "dir_step C (n\<lparr>ds_pending := AList.update req (length (ds_lookups n)) (ds_pending n), ds_lookups := ds_lookups n @ [lk]\<rparr>) n"
  using assms by (auto simp: dir_step_def dir_ok_def lookup_ok_def intro: steady_updates intro!: listed_add)

lemma set_sent_step: "dir_step C (n\<lparr>ds_lookups := (ds_lookups n)[x := (ds_lookups n ! x)\<lparr>lk_sent := s\<rparr>]\<rparr>) n"
proof (cases "x < length (ds_lookups n)")
  case True
  have "dir_ok C (n\<lparr>ds_lookups := (ds_lookups n)[x := (ds_lookups n ! x)\<lparr>lk_sent := s\<rparr>]\<rparr>)" if "dir_ok C n"
    by (rule set_lookup_ok [OF that]) (use lookup_ok_nth [OF that True] in \<open>simp_all add: lookup_ok_def\<close>)
  then show ?thesis by (simp add: dir_step_def steady_updates)
qed (simp add: list_update_beyond dir_step_def steady_updates)

lemma lookup_start_keeps:
  assumes "robust C P" "handles P local" "P n"
  shows "P (snd (lookup_start E local req fresh i use_cache n))"
proof -
  let ?lk = "\<lparr> lk_request = req, lk_sent = 0, lk_received = 0, lk_best = None, lk_answers = [] \<rparr>"
  let ?n1 = "n\<lparr>ds_pending := AList.update req (length (ds_lookups n)) (ds_pending n), ds_lookups := ds_lookups n @ [?lk]\<rparr>"
  have "P ?n1" by (rule robustD [OF assms(1) new_lookup_step [OF refl] assms(3)])
  then have "P (snd (send_queries E local req raw fresh 0 dsts ?n1))" for raw dsts
    by (rule send_queries_keeps [OF assms(1,2)])
  then have sent: "P m" if "send_queries E local req raw fresh 0 dsts ?n1 = (s, m)" for raw dsts s m
    using that by (metis snd_conv)
  show ?thesis
    using assms(3)
    by (auto simp: lookup_start_def Let_def split: option.split prod.split dest!: sent
        intro: robustD [OF assms(1) dir_step_small(5)] robustD [OF assms(1) set_sent_step])
qed

lemma return_best_step: "dir_step C (snd (return_best C E lk n)) n"
  by (auto simp: return_best_def dir_step_small intro: dir_step_trans [OF dir_step_small(5) dir_step_small(6)] split: option.split)

lemma take_answer_ok: "lookup_ok C (nd_network n) lk \<Longrightarrow> lookup_ok C (nd_network n) (take_answer C E (nd_network n) lk)"
  by (auto simp: lookup_ok_def take_answer_def authentic_def is_ok_iff Let_def split: list.split)

lemma take_answer_request: "lk_request (take_answer C E w lk) = lk_request lk"
  by (simp add: take_answer_def Let_def split: list.split)

lemma lookup_step_step:
  assumes "x < length (ds_lookups n)"
  shows "dir_step C (snd (lookup_step C E w x n)) n"
proof -
  have "dir_ok C (n\<lparr>ds_lookups := (ds_lookups n)[x := take_answer C E (nd_network n) (ds_lookups n ! x)]\<rparr>)" if "dir_ok C n"
    by (rule set_lookup_ok [OF that take_answer_ok [OF lookup_ok_nth [OF that assms]] take_answer_request])
  then have a: "dir_step C (n\<lparr>ds_lookups := (ds_lookups n)[x := take_answer C E (nd_network n) (ds_lookups n ! x)]\<rparr>) n"
    by (simp add: dir_step_def steady_updates)
  show ?thesis
    using a dir_step_trans [OF return_best_step a]
    by (simp add: lookup_step_def Let_def dir_step_small return_best_step split: lookup_waking.split)
qed

end
