(* ===== verification/Stream_Inv.thy ===== *)
theory Stream_Inv
  imports Stream Directory_Inv
begin

section \<open>Invariants of streams\<close>

text \<open>
  The table of streams holds live streams under their own identifiers, every stream has keys of 32 bytes, and
  positions stay valid; a waiting opening is listed under its own identifier. \<open>all_ok\<close> collects the invariants of all components; a step (\<open>steps\<close>) keeps them and
  never changes what a stream is.
\<close>

definition good_stream :: "stream \<Rightarrow> bool" where
  "good_stream s \<longleftrightarrow> length (st_send_key s) = 32 \<and> length (st_recv_key s) = 32"

definition table_ok :: "stream list \<Rightarrow> (16 barr \<times> nat) list \<Rightarrow> bool" where
  "table_ok ss tab \<longleftrightarrow> distinct (map fst tab) \<and>
     (\<forall>sid i. (sid, i) \<in> set tab \<longrightarrow> i < length ss \<and> st_id (ss ! i) = sid \<and> \<not> st_done (ss ! i))"

definition replies_fit :: "nat \<Rightarrow> reply list \<Rightarrow> bool" where
  "replies_fit k rs \<longleftrightarrow> (\<forall>r \<in> set rs. case rp_stream r of None \<Rightarrow> True | Some i \<Rightarrow> i < k)"

definition streams_ok :: "'a stream_node_scheme \<Rightarrow> bool" where
  "streams_ok n \<longleftrightarrow> table_ok (sn_all n) (sn_streams n) \<and> listed op_id (sn_openings n) (sn_pending n) \<and>
     (\<forall>s \<in> set (sn_all n). good_stream s) \<and> replies_fit (length (sn_all n)) (sn_replies n)"

lemma table_update:
  "table_ok ss tab \<Longrightarrow> st_id s = st_id (ss ! i) \<Longrightarrow> st_done s = st_done (ss ! i) \<Longrightarrow> table_ok (ss[i := s]) tab"
  unfolding table_ok_def by (metis length_list_update nth_list_update_eq nth_list_update_neq)

lemma table_close:
  assumes "table_ok ss tab" "st_id s = st_id (ss ! i)"
  shows "table_ok (ss[i := s]) (if map_of tab (st_id (ss ! i)) = Some i then AList.delete (st_id (ss ! i)) tab else tab)"
proof -
  have d: "distinct (map fst tab)" and reg: "\<And>sid j. (sid, j) \<in> set tab \<Longrightarrow> j < length ss \<and> st_id (ss ! j) = sid \<and> \<not> st_done (ss ! j)"
    using assms(1) by (auto simp: table_ok_def)
  let ?tab = "if map_of tab (st_id (ss ! i)) = Some i then AList.delete (st_id (ss ! i)) tab else tab"
  have "j \<noteq> i \<and> (sid, j) \<in> set tab" if "(sid, j) \<in> set ?tab" for sid j
  proof -
    have m: "(sid, j) \<in> set tab" using that by (auto simp: AList.delete_eq split: if_splits)
    have s: "map_of tab sid = Some j" using d m by simp
    show ?thesis
    proof (cases "map_of tab (st_id (ss ! i)) = Some i")
      case True
      then have "sid \<noteq> st_id (ss ! i)" using that by (auto simp: AList.delete_eq)
      then show ?thesis using reg [OF m] m by auto
    next
      case False
      then show ?thesis using reg [OF m] m s by auto
    qed
  qed
  then have "j < length (ss[i := s]) \<and> st_id (ss[i := s] ! j) = sid \<and> \<not> st_done (ss[i := s] ! j)" if "(sid, j) \<in> set ?tab" for sid j
    using that reg by (metis length_list_update nth_list_update_neq)
  moreover have "distinct (map fst ?tab)" using d by (simp add: distinct_delete)
  ultimately show ?thesis unfolding table_ok_def by blast
qed

lemma good_update: "\<forall>s \<in> set ss. good_stream s \<Longrightarrow> good_stream s \<Longrightarrow> \<forall>s \<in> set (ss[i := s]). good_stream s"
  using set_update_subset_insert [of ss i s] by blast

lemma good_nth: "streams_ok n \<Longrightarrow> i < length (sn_all n) \<Longrightarrow> good_stream (sn_all n ! i)"
  by (simp add: streams_ok_def)

definition all_ok :: "crypto \<Rightarrow> 'a stream_node_scheme \<Rightarrow> bool" where
  "all_ok C n \<longleftrightarrow> node_ok n \<and> circuits_ok n \<and> dir_ok C n \<and> streams_ok n"

text \<open>The parts of a stream that never change.\<close>

definition same_stream :: "stream \<Rightarrow> stream \<Rightarrow> bool" where
  "same_stream s t \<longleftrightarrow> st_id s = st_id t \<and> st_peer s = st_peer t \<and> st_conn s = st_conn t \<and>
     st_send_key s = st_send_key t \<and> st_recv_key s = st_recv_key t"

definition grows :: "'a stream_node_scheme \<Rightarrow> 'a stream_node_scheme \<Rightarrow> bool" where
  "grows m n \<longleftrightarrow> length (sn_all n) \<le> length (sn_all m) \<and> length (sn_openings n) \<le> length (sn_openings m) \<and>
     (\<forall>i < length (sn_all n). same_stream (sn_all m ! i) (sn_all n ! i))"

definition steps :: "crypto \<Rightarrow> 'a stream_node_scheme \<Rightarrow> 'a stream_node_scheme \<Rightarrow> bool" where
  "steps C m n \<longleftrightarrow> (all_ok C n \<longrightarrow> all_ok C m \<and> grows m n)"

lemma same_stream_refl [simp, intro]: "same_stream s s"
  by (simp add: same_stream_def)

lemma grows_refl [simp, intro]: "grows n n"
  by (simp add: grows_def)

lemma grows_trans: "grows a b \<Longrightarrow> grows b c \<Longrightarrow> grows a c"
  by (auto simp: grows_def same_stream_def)

lemma stepsI: "(all_ok C n \<Longrightarrow> steps C m n) \<Longrightarrow> steps C m n"
  by (simp add: steps_def)

lemma if_cases_steps: "(b \<Longrightarrow> steps C x n) \<Longrightarrow> (\<not> b \<Longrightarrow> steps C y n) \<Longrightarrow> steps C (if b then x else y) n"
  by simp

lemma steps_refl [simp, intro]: "steps C n n"
  by (simp add: steps_def)

lemma steps_trans: "steps C a b \<Longrightarrow> steps C b c \<Longrightarrow> steps C a c"
  by (auto simp: steps_def intro: grows_trans)

lemma sn_of_more:
  fixes m n :: "'a stream_node_scheme"
  assumes "dir_node.more m = dir_node.more n"
  shows "sn_all m = sn_all n" "sn_streams m = sn_streams n" "sn_openings m = sn_openings n" "sn_pending m = sn_pending n"
    "sn_requests m = sn_requests n" "sn_replies m = sn_replies n"
  using assms by (cases m; cases n; simp)+

lemma add_event_streams [simp]:
  "sn_all (add_event E lv msg n) = sn_all n" "sn_streams (add_event E lv msg n) = sn_streams n"
  "sn_pending (add_event E lv msg n) = sn_pending n" "sn_openings (add_event E lv msg n) = sn_openings n"
  by (simp_all add: add_event_def)

lemma streams_ok_more: "dir_node.more m = dir_node.more n \<Longrightarrow> streams_ok m = streams_ok n"
  using sn_of_more [of m n] by (simp add: streams_ok_def)

lemma grows_more: "dir_node.more m = dir_node.more n \<Longrightarrow> grows m n"
  using sn_of_more [of m n] by (simp add: grows_def)

lemma dir_step_steps: "dir_step C m n \<Longrightarrow> steps C m n"
  using steady_ok [of m n] streams_ok_more [of m n]
  by (auto simp: dir_step_def steps_def all_ok_def intro!: grows_more) (simp_all add: steady_def)

text \<open>Steps that touch only the fields of streams and the application side.\<close>

definition apart :: "'a stream_node_scheme \<Rightarrow> 'a stream_node_scheme \<Rightarrow> bool" where
  "apart m n \<longleftrightarrow> same_tables m n \<and> nd_events m = nd_events n \<and> same_circuits m n \<and> ds_descriptors m = ds_descriptors n \<and>
     ds_pending m = ds_pending n \<and> ds_lookups m = ds_lookups n"

lemma apart_ok:
  assumes "apart m n"
  shows "node_ok n \<Longrightarrow> node_ok m" "circuits_ok n \<Longrightarrow> circuits_ok m" "dir_ok C n \<Longrightarrow> dir_ok C m"
  using assms node_ok_same [of m n]
  by (auto simp: apart_def node_ok_def same_circuits_def circuits_ok_def relays_ok_def clients_ok_def dir_ok_def same_tables_def)

lemma apart_steps: "apart m n \<Longrightarrow> (streams_ok n \<Longrightarrow> streams_ok m) \<Longrightarrow> grows m n \<Longrightarrow> steps C m n"
  using apart_ok(1,2) [of m n] apart_ok(3) [of m n C] by (auto simp: steps_def all_ok_def)

lemmas apart_defs = apart_def same_tables_def same_circuits_def

lemma close_app_streams [simp]:
  "sn_all (close_app a n) = sn_all n" "sn_streams (close_app a n) = sn_streams n" "sn_openings (close_app a n) = sn_openings n"
  "sn_pending (close_app a n) = sn_pending n" "sn_replies (close_app a n) = sn_replies n" "sn_requests (close_app a n) = sn_requests n"
  "nd_self (close_app a n) = nd_self n" "nd_routes (close_app a n) = nd_routes n" "nd_peers (close_app a n) = nd_peers n"
  "cs_app_out (close_app a n) = cs_app_out n"
  by (simp_all add: close_app_def nd_self_def split: option.split)

lemma apart_close_app: "apart (close_app a n) n"
  by (simp add: close_app_def apart_defs split: option.split)

lemma close_app_steps: "steps C (close_app a n) n"
  by (rule apart_steps [OF apart_close_app]) (simp_all add: streams_ok_def grows_def)

lemma set_stream_steps:
  assumes "same_stream s (sn_all n ! i)" "st_done s = st_done (sn_all n ! i)"
  shows "steps C (set_stream i s n) n"
proof (cases "i < length (sn_all n)")
  case True
  have "good_stream s" if "streams_ok n" using good_nth [OF that True] assms(1) by (simp add: good_stream_def same_stream_def)
  moreover have "table_ok ((sn_all n)[i := s]) (sn_streams n)" if "streams_ok n"
    by (rule table_update) (use that assms in \<open>simp_all add: streams_ok_def same_stream_def\<close>)
  ultimately have "streams_ok (set_stream i s n)" if "streams_ok n"
    unfolding streams_ok_def set_stream_def
    using that by (simp add: streams_ok_def) (intro good_update; blast)
  moreover have "grows (set_stream i s n) n"
    using assms True by (simp add: grows_def set_stream_def nth_list_update)
  ultimately show ?thesis by (intro apart_steps) (simp_all add: set_stream_def apart_defs)
qed (simp add: set_stream_def list_update_beyond)

lemma small_steps:
  "steps C (add_event E lv msg n) n" "steps C (n\<lparr>cs_app_out := a\<rparr>) n" "steps C (n\<lparr>sn_requests := q\<rparr>) n"
  "steps C (n\<lparr>sn_proxies := p\<rparr>) n" "steps C (n\<lparr>cs_internal := c\<rparr>) n"
  "set rs \<subseteq> set (sn_replies n) \<Longrightarrow> steps C (n\<lparr>sn_replies := rs\<rparr>) n"
  "set ps \<subseteq> set (sn_pending n) \<Longrightarrow> steps C (n\<lparr>sn_pending := ps\<rparr>) n"
proof -
  show "steps C (add_event E lv msg n) n" by (rule dir_step_steps [OF dir_step_small(1)])
  show "steps C (n\<lparr>cs_app_out := a\<rparr>) n" "steps C (n\<lparr>sn_requests := q\<rparr>) n" "steps C (n\<lparr>sn_proxies := p\<rparr>) n"
    "steps C (n\<lparr>cs_internal := c\<rparr>) n"
    by (rule apart_steps, simp add: apart_defs, simp add: streams_ok_def, simp add: grows_def)+
  show "steps C (n\<lparr>sn_replies := rs\<rparr>) n" if "set rs \<subseteq> set (sn_replies n)"
    by (rule apart_steps, simp add: apart_defs, use that in \<open>simp add: streams_ok_def replies_fit_def subset_iff\<close>, simp add: grows_def)
  show "steps C (n\<lparr>sn_pending := ps\<rparr>) n" if "set ps \<subseteq> set (sn_pending n)"
  proof (rule apart_steps)
    show "streams_ok (n\<lparr>sn_pending := ps\<rparr>)" if "streams_ok n"
      using that \<open>set ps \<subseteq> _\<close> unfolding streams_ok_def by (auto intro: listed_subset)
  qed (simp_all add: apart_defs grows_def)
qed

text \<open>Handling a packet is a step.\<close>

definition good_local :: "crypto \<Rightarrow> (packet \<Rightarrow> 'a stream_node_scheme \<Rightarrow> 'a stream_node_scheme) \<Rightarrow> bool" where
  "good_local C local \<longleftrightarrow> (\<forall>pkt n. steps C (local pkt n) n)"

lemma robust_steps: "robust C (\<lambda>m. steps C m n)"
  unfolding robust_def by (blast intro: steps_trans [OF dir_step_steps])

lemma handles_steps: "good_local C local \<Longrightarrow> handles (\<lambda>m. steps C m n) local"
  unfolding handles_def good_local_def by (blast intro: steps_trans)

lemma send_steps: "good_local C local \<Longrightarrow> steps C (snd (send_packet E local pkt n)) n"
  by (rule send_packet_keeps [OF robust_steps handles_steps steps_refl])

lemma retry_steps: "good_local C local \<Longrightarrow> steps C (snd (retry_attempt E local deadline fresh pkt n)) n"
  by (rule retry_attempt_keeps [OF robust_steps handles_steps steps_refl])

lemma stepsD: "steps C m n \<Longrightarrow> all_ok C n \<Longrightarrow> all_ok C m" "steps C m n \<Longrightarrow> all_ok C n \<Longrightarrow> grows m n"
  by (simp_all add: steps_def)

lemma steps_length: "steps C m n \<Longrightarrow> all_ok C n \<Longrightarrow> i < length (sn_all n) \<Longrightarrow> i < length (sn_all m)"
  by (simp add: steps_def grows_def)

lemma grows_length: "grows m n \<Longrightarrow> i < length (sn_all n) \<Longrightarrow> i < length (sn_all m)"
  by (simp add: grows_def)

subsection \<open>Closing\<close>

definition end_stream :: "nat \<Rightarrow> 'a stream_node_scheme \<Rightarrow> 'a stream_node_scheme" where
  "end_stream i n =
     (let s = sn_all n ! i; n2 = set_stream i (s\<lparr>st_done := True\<rparr>) n
      in if map_of (sn_streams n2) (st_id s) = Some i then n2\<lparr>sn_streams := AList.delete (st_id s) (sn_streams n2)\<rparr> else n2)"

lemma end_stream_simps:
  "sn_all (end_stream i n) = (sn_all n)[i := (sn_all n ! i)\<lparr>st_done := True\<rparr>]"
  "sn_streams (end_stream i n) = (if map_of (sn_streams n) (st_id (sn_all n ! i)) = Some i
     then AList.delete (st_id (sn_all n ! i)) (sn_streams n) else sn_streams n)"
  "sn_pending (end_stream i n) = sn_pending n" "sn_openings (end_stream i n) = sn_openings n" "sn_replies (end_stream i n) = sn_replies n"
  "apart (end_stream i n) n"
  by (simp_all add: end_stream_def set_stream_def Let_def apart_defs)

lemma end_stream_ok:
  assumes "streams_ok n" "i < length (sn_all n)"
  shows "streams_ok (end_stream i n)"
proof -
  have "good_stream ((sn_all n ! i)\<lparr>st_done := True\<rparr>)" using good_nth [OF assms] by (simp add: good_stream_def)
  then show ?thesis
    using assms(1) good_update [of "sn_all n"] table_close [of "sn_all n" "sn_streams n" "(sn_all n ! i)\<lparr>st_done := True\<rparr>" i]
    by (simp add: streams_ok_def end_stream_simps)
qed

lemma end_stream_steps: "i < length (sn_all n) \<Longrightarrow> steps C (end_stream i n) n"
  by (rule apart_steps [OF end_stream_simps(6) end_stream_ok])
    (simp_all add: grows_def end_stream_simps nth_list_update same_stream_def)

definition notified ::
  "env \<Rightarrow> (packet \<Rightarrow> 'a stream_node_scheme \<Rightarrow> 'a stream_node_scheme) \<Rightarrow> 16 barr \<Rightarrow> nat \<Rightarrow> error \<Rightarrow> bool
    \<Rightarrow> 'a stream_node_scheme \<Rightarrow> 'a stream_node_scheme" where
  "notified E local fresh i reason notify n = (if notify \<and> \<not> nd_stopped n
     then snd (send_packet E local (new_packet packet_close (st_peer (sn_all n ! i)) (st_id (sn_all n ! i)) 0
       (marshal (close_message_json reason)) fresh n) n) else n)"

lemma close_stream_alt:
  assumes "st_id (sn_all (notified E local fresh i reason notify n) ! i) = st_id (sn_all n ! i)" "\<not> st_done (sn_all n ! i)"
  shows "close_stream E local fresh i reason notify n = end_stream i (close_app (Some (st_conn (sn_all n ! i))) (notified E local fresh i reason notify n))"
  using assms unfolding close_stream_def end_stream_def notified_def [symmetric] Let_def by simp

lemma close_stream_steps:
  assumes "good_local C local" "i < length (sn_all n)"
  shows "steps C (close_stream E local fresh i reason notify n) n"
proof (rule stepsI, cases "st_done (sn_all n ! i)")
  case False
  assume ok: "all_ok C n"
  let ?n1 = "notified E local fresh i reason notify n"
  have s: "steps C ?n1 n" using send_steps [OF assms(1)] by (simp add: notified_def)
  from s ok have g: "grows ?n1 n" by (rule stepsD)
  then have "st_id (sn_all ?n1 ! i) = st_id (sn_all n ! i)" using assms(2) by (simp add: grows_def same_stream_def)
  from close_stream_alt [OF this False] show ?thesis
    using steps_trans [OF end_stream_steps steps_trans [OF close_app_steps s], of i "Some (st_conn (sn_all n ! i))"] grows_length [OF g assms(2)]
    by simp
qed (simp add: close_stream_def)

lemma fold_steps:
  assumes "\<And>x m. x \<in> set xs \<Longrightarrow> grows m n \<Longrightarrow> steps C (f x m) m"
  shows "steps C (fold f xs n) n"
proof -
  have *: "steps C (fold f ys m) n" if "set ys \<subseteq> set xs" "steps C m n" "all_ok C n" for ys m
    using that
  proof (induction ys arbitrary: m)
    case (Cons y ys)
    have "grows m n" using Cons.prems by (blast dest: stepsD)
    then have "steps C (f y m) m" using assms [of y m] Cons.prems(1) by simp
    then have "steps C (f y m) n" by (rule steps_trans [OF _ Cons.prems(2)])
    then have "steps C (fold f ys (f y m)) n" by (rule Cons.IH [rotated]) (use Cons.prems in simp_all)
    then show ?case by simp
  qed simp
  show ?thesis by (rule stepsI, rule *) simp_all
qed

lemma stop_streams_steps:
  assumes "good_local C local"
  shows "steps C (stop_streams E local fresh n) n"
proof (rule stepsI)
  assume "all_ok C n"
  then have "i < length (sn_all n)" if "i \<in> set (map snd (sn_streams n))" for i
    using that by (auto simp: all_ok_def streams_ok_def table_ok_def)
  then show "steps C (stop_streams E local fresh n) n"
    unfolding stop_streams_def by (intro fold_steps close_stream_steps [OF assms]) (blast intro: grows_length)
qed

subsection \<open>Sending and receiving\<close>

lemma end_steps: "steps C (end_pump i n) n" "steps C (end_receiver i n) n"
  by (simp_all add: end_pump_def end_receiver_def set_stream_steps same_stream_def)

lemma pump_chunk_steps:
  assumes "good_local C local"
  shows "steps C (snd (pump_chunk C E local fresh i chunk n)) n"
proof -
  have s: "steps C (set_stream i ((sn_all n ! i)\<lparr>st_send_seq := st_send_seq (sn_all n ! i) + 1\<rparr>) n) n"
    by (rule set_stream_steps) (simp_all add: same_stream_def)
  show ?thesis
    using s steps_trans [OF send_steps [OF assms] s]
    by (simp add: pump_chunk_def Let_def split: sum.split prod.split) (metis snd_conv)
qed

lemma pump_step_steps:
  assumes "good_local C local" "i < length (sn_all n)"
  shows "steps C (pump_step C E local fresh i chunk ending n) n"
proof (rule stepsI)
  assume ok: "all_ok C n"
  obtain r n1 where r: "pump_chunk C E local fresh i chunk n = (r, n1)" by fastforce
  have s: "steps C n1 n" using pump_chunk_steps [OF assms(1), of E fresh i chunk n] r by simp
  have close: "steps C (end_pump i (close_stream E local fresh i e notify m)) n" if "steps C m n" for e notify m
    using steps_trans [OF end_steps(1) steps_trans [OF close_stream_steps [OF assms(1) steps_length [OF that ok assms(2)]] that]] .
  show "steps C (pump_step C E local fresh i chunk ending n) n"
    using close [OF s] close [OF steps_trans [OF small_steps(1) s]] s
    by (simp add: pump_step_def r split: option.split read_end.split)
qed

lemma write_conn_steps: "steps C (snd (write_conn fail c plain n)) n"
  by (simp add: write_conn_def small_steps split: option.split)

lemma receive_packet_steps: "steps C (snd (receive_packet C fail i pkt n)) n"
proof -
  have s: "steps C (set_stream i ((sn_all n ! i)\<lparr>st_recv_seq := st_recv_seq (sn_all n ! i) + 1\<rparr>) n) n"
    by (rule set_stream_steps) (simp_all add: same_stream_def)
  show ?thesis
    using steps_trans [OF write_conn_steps s]
    by (simp add: receive_packet_def Let_def split: sum.split prod.split) (metis snd_conv)
qed

lemma receive_step_steps:
  assumes "good_local C local" "i < length (sn_all n)"
  shows "steps C (receive_step C E local fresh fail ended i n) n"
proof (rule stepsI, cases "st_incoming (sn_all n ! i)")
  case (Cons pkt rest)
  assume ok: "all_ok C n"
  define m where "m = set_stream i ((sn_all n ! i)\<lparr>st_incoming := rest\<rparr>) n"
  obtain r n1 where r: "receive_packet C fail i pkt m = (r, n1)" by fastforce
  have "steps C m n" unfolding m_def by (rule set_stream_steps) (simp_all add: same_stream_def)
  from steps_trans [OF receive_packet_steps this, of fail i pkt] have s: "steps C n1 n" by (simp add: r)
  have "steps C (end_receiver i (close_stream E local fresh i e True n1)) n" for e
    using steps_trans [OF end_steps(2) steps_trans [OF close_stream_steps [OF assms(1) steps_length [OF s ok assms(2)]] s]] .
  then show ?thesis
    using s by (simp add: receive_step_def Let_def Cons r end_steps flip: m_def split: option.split)
qed (simp add: receive_step_def Let_def end_steps)

lemma deliver_steps: "steps C (deliver pkt i n) n"
  by (simp add: deliver_def Let_def set_stream_steps same_stream_def)

subsection \<open>Opening and answering\<close>

lemma table_add:
  assumes "table_ok ss tab" "st_id s = sid" "\<not> st_done s"
  shows "table_ok (ss @ [s]) (AList.update sid (length ss) tab)"
proof -
  have "j < length (ss @ [s]) \<and> st_id ((ss @ [s]) ! j) = sid' \<and> \<not> st_done ((ss @ [s]) ! j)"
    if "(sid', j) \<in> insert (sid, length ss) (set tab)" for sid' j
    using that assms by (auto simp: table_ok_def nth_append)
  then have "j < length (ss @ [s]) \<and> st_id ((ss @ [s]) ! j) = sid' \<and> \<not> st_done ((ss @ [s]) ! j)"
    if "(sid', j) \<in> set (AList.update sid (length ss) tab)" for sid' j
    using that set_update_subset [of sid "length ss" tab] by blast
  then show ?thesis
    using assms(1) unfolding table_ok_def by (blast intro: distinct_update)
qed

lemma add_stream_steps:
  assumes "st_id s = sid" "\<not> st_done s" "good_stream s"
  shows "steps C (n\<lparr>sn_all := sn_all n @ [s], sn_streams := AList.update sid (length (sn_all n)) (sn_streams n)\<rparr>) n"
proof (rule apart_steps)
  show "streams_ok (n\<lparr>sn_all := sn_all n @ [s], sn_streams := AList.update sid (length (sn_all n)) (sn_streams n)\<rparr>)" if "streams_ok n"
  proof -
    have "replies_fit (length (sn_all n @ [s])) (sn_replies n)"
      using that by (force simp: streams_ok_def replies_fit_def split: option.splits)
    then show ?thesis using that table_add [OF _ assms(1,2)] assms(3) by (simp add: streams_ok_def)
  qed
qed (simp_all add: apart_defs grows_def nth_append)

lemma new_stream_good: "derive_session_keys C sh on an sid src dst = (a, b) \<Longrightarrow>
    good_stream (start_receiver (new_stream i p c ini a b)) \<and> good_stream (start_receiver (new_stream i p c ini b a))"
  by (drule length_session_keys) (simp add: good_stream_def start_receiver_def new_stream_def)

lemma accept_ack_good:
  assumes "accept_ack C E op r n = Inr s"
  shows "good_stream (start_receiver s)" "st_id (start_receiver s) = op_id op" "\<not> st_done (start_receiver s)"
  using assms new_stream_good
  by (auto simp: accept_ack_def new_stream_def start_receiver_def split: open_result.splits if_splits sum.splits prod.splits)

lemma open_start_steps:
  assumes "good_local C local"
  shows "steps C (snd (open_start C E local R sid fresh dst service conn n)) n"
proof -
  have "streams_ok (n\<lparr>sn_openings := sn_openings n @ [op], sn_pending := AList.update sid (length (sn_openings n)) (sn_pending n)\<rparr>)"
    if "op_id op = sid" "streams_ok n" for op
    using that by (simp add: streams_ok_def listed_add)
  note pending = this
  have a: "steps C (n\<lparr>sn_openings := sn_openings n @ [op], sn_pending := AList.update sid (length (sn_openings n)) (sn_pending n)\<rparr>) n"
    if "op_id op = sid" for op
    using pending [OF that]
    by (rule apart_steps [rotated]) (simp_all add: apart_defs grows_def)
  have "steps C (m\<lparr>sn_pending := AList.delete sid (sn_pending m)\<rparr>) m" for m :: "'a stream_node_scheme"
    by (rule small_steps) (auto simp: AList.delete_eq)
  note d = steps_trans [OF this steps_trans [OF send_steps [OF assms] a]]
  show ?thesis
  proof (cases "dst = nd_self n \<or> nd_routes n dst = None")
    case True
    then show ?thesis by (auto simp: open_start_def small_steps split: sum.split)
  next
    case False
    define req where "req = sign_open_request C (nd_id n) sid dst service (ek_public (new_ephemeral_key C (dw_private R))) (dw_nonce R) (en_now E)"
    define op where "op = \<lparr> op_dst = dst, op_service = service, op_conn = conn, op_id = sid, op_key = new_ephemeral_key C (dw_private R),
      op_nonce = dw_nonce R, op_result = None \<rparr>"
    have sid: "op_id op = sid" by (simp add: op_def)
    define n1 where "n1 = n\<lparr>sn_openings := sn_openings n @ [op], sn_pending := AList.update sid (length (sn_openings n)) (sn_pending n)\<rparr>"
    obtain r n2 where r: "send_packet E local (new_packet packet_open dst sid 0 (marshal (open_request_json req)) fresh n) n1 = (r, n2)" by fastforce
    have "steps C n2 n" "steps C (n2\<lparr>sn_pending := AList.delete sid (sn_pending n2)\<rparr>) n"
      using steps_trans [OF send_steps [OF assms] a [OF sid], of E "new_packet packet_open dst sid 0 (marshal (open_request_json req)) fresh n"]
        d [OF sid, of E "new_packet packet_open dst sid 0 (marshal (open_request_json req)) fresh n"] r by (simp_all flip: n1_def)
    then show ?thesis
      using False r unfolding n1_def req_def op_def by (auto simp: open_start_def Let_def split: sum.split)
  qed
qed

lemma end_opening_steps: "steps C (end_opening sid n) n"
  unfolding end_opening_def by (rule small_steps) (auto simp: AList.delete_eq)

lemma open_ready_steps:
  assumes "good_local C local" "good_stream (start_receiver s)" "st_id (start_receiver s) = op_id op" "\<not> st_done (start_receiver s)"
  shows "steps C (snd (open_ready E local fresh op s n)) n"
proof (rule stepsI)
  assume ok: "all_ok C n"
  let ?i = "length (sn_all n)"
  define n1 where "n1 = n\<lparr>sn_all := sn_all n @ [start_receiver s], sn_streams := AList.update (op_id op) ?i (sn_streams n)\<rparr>"
  obtain r n2 where r: "send_packet E local (new_packet packet_ready (op_dst op) (op_id op) 0 [] fresh n) n1 = (r, n2)" by fastforce
  have n1: "steps C n1 n" unfolding n1_def by (rule add_stream_steps [OF assms(3,4,2)])
  have s: "steps C n2 n1"
    using send_steps [OF assms(1), of E "new_packet packet_ready (op_dst op) (op_id op) 0 [] fresh n" n1] r by simp
  have i: "?i < length (sn_all n2)" by (rule steps_length [OF s stepsD(1) [OF n1 ok]]) (simp add: n1_def)
  have "steps C (set_stream ?i (start_pump (sn_all n2 ! ?i)) n2) n2"
    by (rule set_stream_steps) (simp_all add: start_pump_def same_stream_def)
  note pump = steps_trans [OF steps_trans [OF small_steps(1) this] steps_trans [OF s n1]]
  show "steps C (snd (open_ready E local fresh op s n)) n"
    using steps_trans [OF close_stream_steps [OF assms(1) i] steps_trans [OF s n1]] pump
    by (simp add: open_ready_def Let_def r flip: n1_def split: sum.split)
qed

lemma open_finish_steps:
  assumes "good_local C local"
  shows "steps C (snd (open_finish C E local fresh interrupted x n)) n"
proof -
  have "steps C (snd (case open_ready E local fresh op s n of (out, n1) \<Rightarrow> (out, end_opening sid n1))) n"
    if "accept_ack C E op r n = Inr s" for op r s sid
    using steps_trans [OF end_opening_steps open_ready_steps [OF assms accept_ack_good [OF that]]] by (simp split: prod.split) (metis snd_conv)
  then show ?thesis
    by (simp add: open_finish_def Let_def end_opening_steps split: option.split sum.split)
qed

lemma failed_steps:
  "steps C (open_stream_failed conn app n) n" "steps C (forward_failed E listen dst service conn e n) n"
  by (simp_all add: open_stream_failed_def forward_failed_def close_app_steps steps_trans [OF close_app_steps] small_steps)

lemma push_reply_steps: "(case i of None \<Rightarrow> True | Some k \<Rightarrow> k < length (sn_all n)) \<Longrightarrow> steps C (push_reply E pkt i text n) n"
  by (rule apart_steps) (simp_all add: push_reply_def apart_defs streams_ok_def grows_def replies_fit_def)

lemma send_open_error_steps: "steps C (send_open_error E fresh pkt message n) n"
  by (simp add: send_open_error_def push_reply_steps)

lemma request_target_steps: "steps C (snd (request_target C' R name src n)) n"
  by (simp add: request_target_def internal_service_def small_steps split: option.split sum.split)

lemma accept_request_steps:
  assumes "length (fst keys) = 32" "length (snd keys) = 32"
  shows "steps C (accept_request C' E R fresh pkt req c keys n) n"
proof (cases "map_of (sn_streams n) (p_stream_id pkt)")
  case None
  let ?s = "start_receiver (new_stream (p_stream_id pkt) (p_src pkt) c False (snd keys) (fst keys))"
  have "steps C (n\<lparr>sn_all := sn_all n @ [?s], sn_streams := AList.update (p_stream_id pkt) (length (sn_all n)) (sn_streams n)\<rparr>) n"
    by (rule add_stream_steps) (use assms in \<open>simp_all add: start_receiver_def new_stream_def good_stream_def\<close>)
  then show ?thesis
    by (simp add: accept_request_def None Let_def steps_trans [OF push_reply_steps])
qed (simp add: accept_request_def steps_trans [OF send_open_error_steps close_app_steps])

lemma request_keys_good: "request_keys C R pkt eph on n = Inr keys \<Longrightarrow> length (fst keys) = 32 \<and> length (snd keys) = 32"
  by (cases "keys") (auto simp: request_keys_def split: sum.splits dest: length_session_keys)

lemma handle_open_steps: "steps C (handle_open C E R fresh pkt n) n"
proof -
  define m where "m = n\<lparr>sn_requests := remove1 pkt (sn_requests n)\<rparr>"
  have m: "steps C m n" unfolding m_def by (rule small_steps)
  have t: "steps C n1 m" if "request_target C R name src m = (r, n1)" for r n1 name src
    using request_target_steps [of C C R name src m] that by simp
  show ?thesis
    using t request_keys_good m
    by (simp add: handle_open_def Let_def flip: m_def split: option.split sum.split prod.split)
      (blast intro: steps_trans [OF send_open_error_steps] steps_trans [OF close_app_steps] steps_trans [OF accept_request_steps] steps_trans [OF _ m])
qed

lemma reply_step_steps:
  assumes "good_local C local" "replies_fit (length (sn_all n)) [r]"
  shows "steps C (reply_step E local fresh r n) n"
proof (rule stepsI)
  assume ok: "all_ok C n"
  define m where "m = n\<lparr>sn_replies := remove1 r (sn_replies n)\<rparr>"
  obtain a n1 where a: "retry_attempt E local (rp_deadline r) fresh (rp_packet r) m = (a, n1)" by fastforce
  have m: "steps C m n" unfolding m_def by (rule small_steps) (rule set_remove1_subset)
  have "steps C n1 m" using retry_steps [OF assms(1), of E "rp_deadline r" fresh "rp_packet r" m] a by simp
  from steps_trans [OF this m] have s: "steps C n1 n" .
  have close: "steps C (close_stream E local fresh i e False n1) n" if "rp_stream r = Some i" for i e
    using steps_trans [OF close_stream_steps [OF assms(1) steps_length [OF s ok]] s] that assms(2) by (simp add: replies_fit_def)
  have "steps C (n1\<lparr>sn_replies := sn_replies n1 @ [r\<lparr>rp_packet := pkt\<rparr>]\<rparr>) n1" for pkt
    using steps_length [OF s ok] assms(2)
    by (intro apart_steps) (auto simp: apart_defs streams_ok_def grows_def replies_fit_def split: option.splits)
  from steps_trans [OF this s] show "steps C (reply_step E local fresh r n) n"
    using s close steps_trans [OF small_steps(1) s]
    by (simp add: reply_step_def a flip: m_def split: retry.split option.split)
qed

subsection \<open>Local packets\<close>

lemma offer_result_steps: "steps C (offer_result r sid n) n"
  by (cases "map_of (sn_pending n) sid")
    (auto simp: offer_result_def Let_def apart_defs streams_ok_def grows_def intro!: apart_steps listed_update)

lemma handle_stream_packet_steps: "steps C (handle_stream_packet E fresh pkt n) n"
proof (rule stepsI)
  assume ok: "all_ok C n"
  have l: "good_local C (\<lambda>_ m. m)" by (simp add: good_local_def)
  have i: "i < length (sn_all n)" if "map_of (sn_streams n) (p_stream_id pkt) = Some i" for i
    using that ok by (auto simp: all_ok_def streams_ok_def table_ok_def dest: map_of_SomeD)
  have c: "steps C (case map_of (sn_streams n) (p_stream_id pkt) of
      Some i \<Rightarrow> close_stream E (\<lambda>_ m. m) fresh i (close_message_unmarshal (p_payload pkt)) False n | None \<Rightarrow> n) n"
    using close_stream_steps [OF l i] by (simp split: option.split)
  show "steps C (handle_stream_packet E fresh pkt n) n"
    unfolding handle_stream_packet_def Let_def
    by (intro if_cases_steps c)
      (simp_all add: small_steps offer_result_steps deliver_steps set_stream_steps start_pump_def same_stream_def split: option.split)
qed

lemma handle_local_good: "good_local C (handle_local_packet C E fresh :: packet \<Rightarrow> 'a stream_node_scheme \<Rightarrow> 'a stream_node_scheme)"
proof -
  have "steps C (handle_local_packet C E fresh pkt n) n" for pkt and n :: "'a stream_node_scheme"
  proof (cases "handle_directory_packet C E fresh pkt n")
    case (Pair b m)
    then have "steps C m n" using dir_step_steps [OF dir_step_small(9), of C E fresh pkt n] by simp
    then show ?thesis
      using steps_trans [OF handle_stream_packet_steps, of C m n E fresh pkt] by (simp add: handle_local_packet_def Pair split: bool.split)
  qed
  then show ?thesis by (simp add: good_local_def)
qed

subsection \<open>The first state\<close>

text \<open>The invariants of a component only look at its own fields.\<close>

lemma node_ok_truncate: "node_ok n = node_ok (node.truncate n)"
  by (simp add: node_ok_def tables_ok_def own_ok_def peers_ok_def peer_ok_def nd_self_def peer_ids_def node.defs)

lemma circuits_ok_truncate: "circuits_ok n = circuits_ok (circuit_node.truncate n)"
  by (simp add: circuits_ok_def relays_ok_def clients_ok_def circuit_node.defs)

lemma dir_ok_truncate: "dir_ok C n = dir_ok C (dir_node.truncate n)"
  by (simp add: dir_ok_def dir_node.defs)

lemma init_truncate:
  "node.truncate (init_circuits n) = n" "node.truncate (circuit_node.extend m d) = node.truncate m"
  "circuit_node.truncate (circuit_node.extend m d) = m"
  "node.truncate (init_streams q) = node.truncate q" "circuit_node.truncate (init_streams q) = circuit_node.truncate q"
  "dir_node.truncate (init_streams q) = q"
  by (simp_all add: init_circuits_def init_streams_def node.defs circuit_node.defs dir_node.defs)

lemma init_streams_ok:
  assumes "node_ok q" "circuits_ok q" "dir_ok C q"
  shows "all_ok C (init_streams q)"
  using assms node_ok_truncate [of q] node_ok_truncate [of "init_streams q"] circuits_ok_truncate [of q] circuits_ok_truncate [of "init_streams q"]
    dir_ok_truncate [of C "init_streams q"]
  by (simp add: all_ok_def init_truncate)
    (simp add: streams_ok_def table_ok_def replies_fit_def init_streams_def node.defs circuit_node.defs dir_node.defs stream_node.defs)

end
