(* ===== verification/Directory_Props.thy ===== *)
theory Directory_Props
  imports Directory_Inv
begin

section \<open>What the directory promises\<close>

text \<open>
  Copies of the directory converge whatever the order in which descriptors arrive; all nodes with the same
  view of the network agree on the replicas of a service, which are the closest ones; revisions stay
  monotone across restarts; a published descriptor is what a lookup at its replica returns.
\<close>

subsection \<open>Distance\<close>

definition distance :: "service_id \<Rightarrow> node_id \<Rightarrow> bytes" where
  "distance target i = map2 (XOR) (node_bytes i) (service_bytes target)"

lemma xor_less_bytes_iff:
  "length xs = length ts \<Longrightarrow> length ys = length ts \<Longrightarrow>
    xor_less_bytes xs ys ts \<longleftrightarrow> map2 (XOR) xs ts < map2 (XOR) ys ts"
proof (induction xs ys ts rule: xor_less_bytes.induct)
  case (1 x xs y ys t ts)
  then show ?case by auto
qed auto

lemma map2_xor_cancel:
  "length xs = length ts \<Longrightarrow> length ys = length ts \<Longrightarrow> map2 (XOR) xs ts = map2 (XOR) ys (ts :: bytes) \<Longrightarrow> xs = ys"
proof (induction xs ys arbitrary: ts rule: list_induct2')
  case (4 x xs y ys)
  then obtain t ts' where ts: "ts = t # ts'" by (cases ts) auto
  have "(x XOR t) XOR t = (y XOR t) XOR t" using 4(4) by (simp add: ts)
  then have "x = y" by (simp add: xor.assoc)
  moreover have "xs = ys" by (rule 4(1) [of ts']) (use 4(2,3,4) in \<open>simp_all add: ts\<close>)
  ultimately show ?case by simp
qed auto

lemma distance_inject: "distance t a = distance t b \<Longrightarrow> a = b"
  using map2_xor_cancel [of "node_bytes a" "service_bytes t" "node_bytes b"]
  by (cases a; cases b) (auto simp: distance_def arr_bytes_eq_iff)

lemma xor_less_iff: "xor_less t a b \<longleftrightarrow> distance t a < distance t b"
proof -
  have b: "xor_less_bytes (node_bytes x) (node_bytes y) (service_bytes t) \<longleftrightarrow> distance t x < distance t y" for x y
    unfolding distance_def by (rule xor_less_bytes_iff) simp_all
  show ?thesis
    unfolding xor_less_def b using distance_inject [of t a b] less_linear [of "distance t a" "distance t b"]
    by (cases "a = b") (auto simp flip: node_less_def)
qed

interpretation xor_order: strict_order "xor_less target" for target
proof unfold_locales
  show "xor_less target a b \<or> xor_less target b a" if "a \<noteq> b" for a b
    using that distance_inject [of target a b] less_linear [of "distance target a" "distance target b"] by (auto simp: xor_less_iff)
qed (auto simp: xor_less_iff)

lemma route_known:
  assumes "node_ok n" "nd_routes n i = Some r"
  shows "i \<in> set (map fst (nd_lsas n))" "i \<noteq> nd_self n"
proof -
  have "nd_routes n = compute (nd_self n) (nd_lsas n)" using assms(1) by (simp add: node_ok_def tables_ok_def)
  note p = compute_path [OF assms(2) [unfolded this]]
  obtain q a where q: "rt_path r = q @ [a, i]"
    using p(1,5) by (cases "rt_path r" rule: rev_cases; cases "butlast (rt_path r)" rule: rev_cases) (auto simp: walk_def)
  have "linked (advertised_of (nd_lsas n)) a i" using p(1) by (simp add: walk_def q successively_append_iff)
  then show "i \<in> set (map fst (nd_lsas n))"
    by (auto simp: linked_def advertises_def map_of_advertised split: option.splits dest!: map_of_SomeD) (force dest: map_of_SomeD)?
  show "i \<noteq> nd_self n" by (rule p(3))
qed

lemma route_ids_dom:
  assumes "node_ok n"
  shows "set (route_ids n) = dom (nd_routes n)" "distinct (nd_self n # route_ids n)"
proof -
  show "set (route_ids n) = dom (nd_routes n)"
    using route_known(1) [OF assms] by (auto simp: route_ids_def dom_def)
  have "distinct (map fst (nd_lsas n))" using assms by (simp add: node_ok_def tables_ok_def)
  then show "distinct (nd_self n # route_ids n)"
    using route_known(2) [OF assms, of "nd_self n"]
    by (cases "nd_routes n (nd_self n)") (auto simp: route_ids_def)
qed

text \<open>C19. All nodes that know the same nodes choose the same replicas for a service, and these are the
  closest ones: every chosen node has a smaller exclusive-or distance to the service than every node that
  is not chosen.\<close>

theorem replicas_agree:
  assumes "node_ok n" "node_ok m"
    and "insert (nd_self n) (dom (nd_routes n)) = insert (nd_self m) (dom (nd_routes m))"
    and "yc_replicas (cf_directory (nd_cfg n)) = yc_replicas (cf_directory (nd_cfg m))"
  shows "replicas target n = replicas target m \<and> distinct (replicas target n) \<and>
    (\<forall>a b. a \<in> set (replicas target n) \<longrightarrow> b \<in> insert (nd_self n) (dom (nd_routes n)) \<longrightarrow> b \<notin> set (replicas target n) \<longrightarrow>
      distance target a < distance target b)"
proof -
  note n = route_ids_dom [OF assms(1)] and m = route_ids_dom [OF assms(2)]
  have "set (nd_self n # route_ids n) = set (nd_self m # route_ids m)"
    using assms(3) by (simp add: n(1) m(1))
  then have "sort_by (xor_less target) (nd_self n # route_ids n) = sort_by (xor_less target) (nd_self m # route_ids m)"
    by (rule xor_order.sort_by_cong [OF n(2) m(2)])
  moreover have "distance target a < distance target b"
    if "a \<in> set (replicas target n)" "b \<in> insert (nd_self n) (dom (nd_routes n))" "b \<notin> set (replicas target n)" for a b
    using xor_order.take_least [OF n(2) that(1) [unfolded replicas_def closest_nodes_def], of b] that n(1)
    by (simp add: xor_less_iff replicas_def closest_nodes_def)
  moreover have "distinct (replicas target n)"
    using n(2) unfolding replicas_def closest_nodes_def by (metis distinct_sort_by distinct_take)
  ultimately show ?thesis using assms(4) by (simp add: replicas_def closest_nodes_def)
qed

lemma replicas_agree_witness:
  "distinct (replicas (sid_service (toy_service 9)) toy_linked) \<and> dom (nd_routes toy_linked) \<noteq> {}"
  using replicas_agree [OF node_reachable_ok [OF toy_linked_reachable] node_reachable_ok [OF toy_linked_reachable] refl refl,
      of "sid_service (toy_service 9)"] toy_route by auto

subsection \<open>Convergence\<close>

text \<open>The descriptors a sequence of puts offers for a service, with the one that was there.\<close>

definition put_all :: "crypto \<Rightarrow> (env \<times> descriptor) list \<Rightarrow> 'a dir_node_scheme \<Rightarrow> 'a dir_node_scheme" where
  "put_all C puts n = fold (\<lambda>(E, d) m. snd (store_descriptor C E d m)) puts n"

definition offered :: "crypto \<Rightarrow> (env \<times> descriptor) list \<Rightarrow> 'a dir_node_scheme \<Rightarrow> service_id \<Rightarrow> descriptor set" where
  "offered C puts n i = set_option (map_of (ds_descriptors n) i) \<union>
     {d. \<exists>E. (E, d) \<in> set puts \<and> descriptor_verify C d (en_now E) (nd_network n) = Inr i}"

definition latest :: "descriptor option \<Rightarrow> descriptor set \<Rightarrow> bool" where
  "latest r S \<longleftrightarrow> (case r of None \<Rightarrow> S = {} | Some d \<Rightarrow> d \<in> S \<and> (\<forall>e \<in> S. d_revision e \<le> d_revision d))"

lemma latest_unique: "inj_on d_revision S \<Longrightarrow> latest r S \<Longrightarrow> latest s S \<Longrightarrow> r = s"
  by (auto simp: latest_def inj_on_def split: option.splits) (metis order.antisym)

lemma store_latest:
  "nd_network (snd (store_descriptor C E d n)) = nd_network n"
  "latest (map_of (ds_descriptors n) i) S \<Longrightarrow>
    latest (map_of (ds_descriptors (snd (store_descriptor C E d n))) i)
      (if descriptor_verify C d (en_now E) (nd_network n) = Inr i then insert d S else S)"
  by (auto simp: store_descriptor_def latest_def update_conv' split: sum.splits option.splits if_splits)

lemma put_all_latest:
  "latest (map_of (ds_descriptors n) i) S \<Longrightarrow>
    latest (map_of (ds_descriptors (put_all C puts n)) i)
      (S \<union> {d. \<exists>E. (E, d) \<in> set puts \<and> descriptor_verify C d (en_now E) (nd_network n) = Inr i})"
proof (induction puts arbitrary: n S)
  case (Cons p puts)
  obtain E d where p: "p = (E, d)" by (cases p)
  let ?S = "if descriptor_verify C d (en_now E) (nd_network n) = Inr i then insert d S else S"
  have "S \<union> {e. \<exists>F. (F, e) \<in> set (p # puts) \<and> descriptor_verify C e (en_now F) (nd_network n) = Inr i} =
    ?S \<union> {e. \<exists>F. (F, e) \<in> set puts \<and> descriptor_verify C e (en_now F) (nd_network n) = Inr i}"
    by (auto simp: p)
  moreover have "put_all C (p # puts) n = put_all C puts (snd (store_descriptor C E d n))"
    by (simp add: put_all_def p)
  ultimately show ?case
    using Cons.IH [OF store_latest(2) [OF Cons.prems, of C E d]] by (simp only: store_latest(1))
qed (simp add: put_all_def)

text \<open>C17. Replicas converge: after any two sequences of puts that offer the same valid descriptors for a
  service, in whatever order and however often, two replicas hold the same descriptor for it, the one of the
  highest revision, provided the service never signed two descriptors with one revision.\<close>

theorem directory_converges:
  assumes "offered C puts n i = offered C puts' m i" "inj_on d_revision (offered C puts n i)"
  shows "map_of (ds_descriptors (put_all C puts n)) i = map_of (ds_descriptors (put_all C puts' m)) i \<and>
    latest (map_of (ds_descriptors (put_all C puts n)) i) (offered C puts n i)"
proof -
  have l: "latest (map_of (ds_descriptors (put_all C ps k)) i) (offered C ps k i)" for ps and k :: "'c dir_node_scheme"
    unfolding offered_def by (rule put_all_latest) (simp add: latest_def split: option.split)
  show ?thesis
    using latest_unique [OF assms(2)] l [of puts n] l [of puts' m] assms(1) by auto
qed

definition toy_dir_node :: "circuit_node \<Rightarrow> dir_node" where
  "toy_dir_node n = circuit_node.extend n (dir_node.fields [] [] [] [] Map.empty)"

lemma toy_dir_simps [simp]:
  "ds_descriptors (toy_dir_node n) = []" "nd_network (toy_dir_node n) = nd_network n" "ds_pending (toy_dir_node n) = []"
  "ds_lookups (toy_dir_node n) = []"
  by (simp_all add: toy_dir_node_def node.defs circuit_node.defs dir_node.defs)

definition toy_descriptor :: "byte \<Rightarrow> uint64 \<Rightarrow> descriptor" where
  "toy_descriptor k r = new_descriptor toy 0 (toy_service k) (default_network toy) [zero_node] r (seconds 60) []"

lemma toy_descriptor_verify: "descriptor_verify toy (toy_descriptor k r) (en_now toy_env) (default_network toy) = Inr (sid_service (toy_service k))"
  unfolding toy_descriptor_def
  by (rule descriptor_verify_new) (simp_all add: toy_env_def unix_small)

lemma toy_descriptor_simps [simp]: "d_revision (toy_descriptor k r) = r" "sorted_map (d_metadata (toy_descriptor k r))"
  "go_int (d_version (toy_descriptor k r))"
  by (simp_all add: toy_descriptor_def new_descriptor_def Let_def descriptor_body.defs descriptor.defs sorted_map_def
      go_int_def descriptor_version_def)

lemma directory_converges_witness:
  "map_of (ds_descriptors (put_all toy [(toy_env, toy_descriptor 9 1), (toy_env, toy_descriptor 9 2)] (toy_dir_node (init_circuits (toy_node 1)))))
     (sid_service (toy_service 9)) =
   map_of (ds_descriptors (put_all toy [(toy_env, toy_descriptor 9 2), (toy_env, toy_descriptor 9 1), (toy_env, toy_descriptor 9 2)]
     (toy_dir_node (init_circuits (toy_node 2))))) (sid_service (toy_service 9))"
  by (rule conjunct1 [OF directory_converges])
    (auto simp: offered_def inj_on_def init_circuits_def node.defs toy_node_def circuit_node.defs)

subsection \<open>Revisions\<close>

lemma revision_text_parsed: "parse_uint (trim_space (revision_text r)) = Inr r"
proof -
  let ?s = "show_nat (unat r)"
  have sp: "spaceless ?s"
    using show_nat_digits [of _ "unat r"] by (fastforce simp: spaceless_def list_all_iff is_space_def)
  have ne: "?s \<noteq> []" by (subst show_nat.simps) simp
  have "dropWhile is_space (?s @ [CHR 0x0A]) = ?s @ [CHR 0x0A]"
    using sp ne by (cases ?s) (auto simp: spaceless_def)
  moreover have "is_space (CHR 0x0A)" by (simp add: is_space_def)
  ultimately have "trim_space (revision_text r) = trim_right ?s"
    by (simp add: trim_space_def revision_text_def trim_right_def)
  also have "\<dots> = ?s"
    using trim_space_spaceless [OF sp] sp ne by (cases ?s) (auto simp: trim_space_def spaceless_def)
  finally show ?thesis
    using unsigned_less [of r, where 'a = nat] ne by (simp add: parse_uint_def read_show_nat)
qed

text \<open>C20. The revision a publication uses is on disk before the descriptor exists, and it is the one a
  restarted node loads: revisions grow by one per publication and never go back, until the counter of 64 bits
  is used up.\<close>

theorem revision_survives_restart:
  assumes "next_revision io dot s fs = (s', fs', Inr r)" "ps_path s \<noteq> []" "io' ''read'' = None"
  shows "load_revision io' now (ps_path s) fs' = Inr r \<and> r = ps_revision s + 1 \<and> ps_revision s' = r \<and>
    (ps_revision s < r \<or> ps_revision s = - 1)"
proof -
  have save: "save_revision io dot (ps_path s) (ps_revision s + 1) fs = (fs', Inr ())"
    and r: "r = ps_revision s + 1" "ps_revision s' = r"
    using assms(1) by (auto simp: next_revision_def Let_def split: prod.splits sum.splits)
  have "fs' = fs(ps_path s \<mapsto> string_bytes (revision_text r))"
    using save assms(2) by (auto simp: save_revision_def r split: list.splits if_splits)
  then have "load_revision io' now (ps_path s) fs' = Inr r"
    using assms(3) by (simp add: load_revision_def read_file_def revision_text_parsed)
  moreover have "ps_revision s < r \<or> ps_revision s = - 1"
  proof (cases "1 + ps_revision s = 0")
    case False
    from unatSuc [OF this] show ?thesis by (simp add: r(1) word_less_nat_alt add.commute)
  qed (simp add: eq_neg_iff_add_eq_0 add.commute)
  ultimately show ?thesis using r by simp
qed

definition toy_published :: published_service where
  "toy_published = \<lparr> ps_cfg = \<lparr>sc_name = ''web'', sc_target = [], sc_description = [], sc_allow = [], sc_publish = True,
     sc_identity_file = [], sc_intro_count = 3, sc_metadata = []\<rparr>, ps_identity = toy_service 9, ps_revision = 41, ps_path = ''web.revision'',
     ps_intros = [(zero_node, 5)], ps_dialing = [] \<rparr>"

lemma revision_survives_restart_witness:
  "load_revision (\<lambda>op. None) 0 ''web.revision'' (fst (snd (next_revision (\<lambda>op. None) True toy_published Map.empty))) = Inr 42"
proof -
  have "next_revision (\<lambda>op. None) True toy_published Map.empty =
      (toy_published\<lparr>ps_revision := 42\<rparr>, [''web.revision'' \<mapsto> string_bytes (revision_text 42)], Inr 42)"
    by (simp add: next_revision_def toy_published_def save_revision_def map_filter_def)
  from revision_survives_restart [OF this, of "\<lambda>op. None" 0] show ?thesis
    by (simp add: \<open>next_revision _ _ _ _ = _\<close>) (simp add: toy_published_def)
qed

subsection \<open>Publication and lookup\<close>

lemma put_stores:
  assumes "descriptor_unmarshal (p_payload pkt) = Some d" "descriptor_verify C d (en_now E) (nd_network n) = Inr i"
    and "case map_of (ds_descriptors n) i of None \<Rightarrow> True | Some old \<Rightarrow> d_revision old < d_revision d"
    and "p_kind pkt = packet_descriptor_put"
  shows "handle_directory_packet C E fresh pkt n = (True, n\<lparr>ds_descriptors := AList.update i d (ds_descriptors n)\<rparr>)"
  using assms by (cases "map_of (ds_descriptors n) i") (simp_all add: handle_directory_packet_def put_packet_def store_descriptor_def not_le)

lemma get_answered:
  assumes "p_kind pkt = packet_descriptor_get" "p_payload pkt = marshal (descriptor_get_json (service_string i))"
    and "map_of (ds_descriptors n) i = Some d"
  shows "handle_directory_packet C E fresh pkt n = (True, snd (send_packet E answer_lookup
    (new_packet packet_descriptor_response (p_src pkt) (p_stream_id pkt) 0
      (marshal (descriptor_response_json True (Some (descriptor_json d)))) fresh n) n))"
  using assms
  by (simp add: handle_directory_packet_def reply_descriptor_def small_messages_roundtrip packet_descriptor_get_def packet_descriptor_put_def)

lemma response_received:
  assumes "p_kind pkt = packet_descriptor_response"
    and "p_payload pkt = marshal (descriptor_response_json True (Some (descriptor_json d)))"
    and "go_int (d_version d)" "sorted_map (d_metadata d)"
    and "map_of (ds_pending n) (p_stream_id pkt) = Some x" "length (lk_answers (ds_lookups n ! x)) < 16"
  shows "handle_directory_packet C E fresh pkt n = (True, n\<lparr>ds_lookups := (ds_lookups n)[x := (ds_lookups n ! x)
    \<lparr>lk_answers := lk_answers (ds_lookups n ! x) @ [(True, d)]\<rparr>]\<rparr>)"
  using assms descriptor_roundtrip [OF assms(3,4)]
  by (simp add: handle_directory_packet_def answer_lookup_def descriptor_response_roundtrip Let_def
      packet_descriptor_response_def packet_descriptor_get_def packet_descriptor_put_def)

text \<open>A lookup that waits for its last answer.\<close>

definition awaiting :: "16 barr \<Rightarrow> nat \<Rightarrow> 'a dir_node_scheme \<Rightarrow> bool" where
  "awaiting req x n \<longleftrightarrow> map_of (ds_pending n) req = Some x \<and> x < length (ds_lookups n) \<and>
     lk_answers (ds_lookups n ! x) = [] \<and> lk_best (ds_lookups n ! x) = None \<and>
     lk_sent (ds_lookups n ! x) = lk_received (ds_lookups n ! x) + 1"

lemma answer_returned:
  assumes "awaiting (p_stream_id pkt) x n" "p_kind pkt = packet_descriptor_response"
    and "p_payload pkt = marshal (descriptor_response_json True (Some (descriptor_json d)))"
    and "go_int (d_version d)" "sorted_map (d_metadata d)" "descriptor_verify C d (en_now E) (nd_network n) = Inr i"
  shows "fst (lookup_step C E Answered x (snd (handle_directory_packet C E fresh pkt n))) = Found d"
proof -
  have w: "map_of (ds_pending n) (p_stream_id pkt) = Some x" "x < length (ds_lookups n)" "lk_answers (ds_lookups n ! x) = []"
    "lk_best (ds_lookups n ! x) = None" "lk_sent (ds_lookups n ! x) = lk_received (ds_lookups n ! x) + 1"
    using assms(1) by (simp_all add: awaiting_def)
  show ?thesis
    using response_received [OF assms(2,3,4,5) w(1), of C E fresh] w assms(6)
    by (simp add: lookup_step_def take_answer_def better_def return_best_def)
qed

text \<open>C18. What a service publishes is what clients find: a replica that has nothing newer stores the
  descriptor of the put packet, answers a request for the service with it, and the client whose lookup waits
  for that answer returns it, within the descriptor's lifetime on both clocks.\<close>

theorem published_descriptor_found:
  assumes "good_service C i" "ins \<noteq> []" "length ins \<le> 8" "sorted_map md"
    and "\<forall>t \<in> {en_now E, en_now E'}. sint (unix t) < sint (unix (now + ttl)) \<and> sint (unix now) \<le> sint (unix (t + minutes 5))"
    and "nd_network m = w" "nd_network n = w" "d = new_descriptor C now i w ins r ttl md"
    and "case map_of (ds_descriptors m) (sid_service i) of None \<Rightarrow> True | Some old \<Rightarrow> d_revision old < r"
    and "p_kind put = packet_descriptor_put" "p_payload put = marshal (descriptor_json d)"
    and "p_kind get = packet_descriptor_get" "p_payload get = marshal (descriptor_get_json (service_string (sid_service i)))"
    and "m' = snd (handle_directory_packet C E fresh put m)" "awaiting (p_stream_id get) x n"
  shows "\<exists>answer. handle_directory_packet C E fresh get m' =
      (True, snd (send_packet E answer_lookup (new_packet packet_descriptor_response (p_src get) (p_stream_id get) 0 answer fresh m') m')) \<and>
    (\<forall>returned. p_kind returned = packet_descriptor_response \<longrightarrow> p_stream_id returned = p_stream_id get \<longrightarrow> p_payload returned = answer \<longrightarrow>
      fst (lookup_step C E' Answered x (snd (handle_directory_packet C E' fresh' returned n))) = Found d)"
proof -
  have ver: "descriptor_verify C d t w = Inr (sid_service i)" if "t \<in> {en_now E, en_now E'}" for t
    unfolding assms(8) by (rule descriptor_verify_new) (use assms(1-3,5) that in auto)
  have d: "d_revision d = r" "sorted_map (d_metadata d)" "go_int (d_version d)"
    using assms(4) by (simp_all add: assms(8) new_descriptor_def Let_def descriptor_body.defs descriptor.defs go_int_def descriptor_version_def)
  have "descriptor_unmarshal (p_payload put) = Some d"
    using descriptor_roundtrip [OF d(3,2)] assms(11) by (simp add: descriptor_unmarshal_def unmarshal_marshal)
  moreover have "case map_of (ds_descriptors m) (sid_service i) of None \<Rightarrow> True | Some old \<Rightarrow> d_revision old < d_revision d"
    using assms(9) by (simp add: d(1) split: option.splits)
  ultimately have m': "m' = m\<lparr>ds_descriptors := AList.update (sid_service i) d (ds_descriptors m)\<rparr>"
    using put_stores [OF _ _ _ assms(10), of d C E m "sid_service i" fresh] ver assms(6,14) by simp
  show ?thesis
    using get_answered [OF assms(12,13), of m' d C E fresh]
      answer_returned [OF _ _ _ d(3,2), of _ x n C E' "sid_service i" fresh'] ver assms(7,15)
    by (intro exI conjI) (auto simp: m' update_conv')
qed

lemma send_queries_more: "node.more (snd (send_queries E local req raw fresh k dsts n)) = node.more n \<and>
  nd_self (snd (send_queries E local req raw fresh k dsts n)) = nd_self n"
proof (induction dsts arbitrary: k n)
  case (Cons dst dsts)
  have "nd_self (snd (peer_send_packet E p pkt n)) = nd_self n" for p pkt
    using same_send_packet(1) [of E p pkt n] by (simp add: same_tables_def nd_self_def)
  then have "node.more (snd (send_packet E local (new_packet packet_descriptor_get dst req 0 raw (fresh k) n) n)) = node.more n \<and>
      nd_self (snd (send_packet E local (new_packet packet_descriptor_get dst req 0 raw (fresh k) n) n)) = nd_self n" if "dst \<noteq> nd_self n"
    using that by (simp add: send_packet_def new_packet_def split: option.split)
  then show ?case
    using Cons.IH [of "k + 1"] by (auto split: prod.split) (metis snd_conv)+
qed simp

lemma send_queries_network: "nd_network (snd (send_queries E local req raw fresh k dsts n)) = nd_network n"
proof (induction dsts arbitrary: k n)
  case (Cons dst dsts)
  have "nd_network (snd (send_packet E local (new_packet packet_descriptor_get dst req 0 raw (fresh k) n) n)) = nd_network n" if "dst \<noteq> nd_self n"
    using that by (simp add: send_packet_def new_packet_def split: option.split)
  then show ?case
    using Cons.IH [of "k + 1"] by (auto split: prod.split) (metis snd_conv)+
qed simp

lemma lookup_start_awaiting:
  assumes "lookup_start E local req fresh i use_cache n = (Looking x, m)" "lk_sent (ds_lookups m ! x) = 1"
  shows "awaiting req x m"
proof -
  let ?lk = "\<lparr> lk_request = req, lk_sent = 0, lk_received = 0, lk_best = None, lk_answers = [] \<rparr>"
  let ?n1 = "n\<lparr>ds_pending := AList.update req (length (ds_lookups n)) (ds_pending n), ds_lookups := ds_lookups n @ [?lk]\<rparr>"
  let ?q = "send_queries E local req (marshal (descriptor_get_json (service_string i))) fresh 0 (replicas i ?n1) ?n1"
  have "node.more (snd ?q) = node.more ?n1" using send_queries_more by blast
  then have q: "ds_lookups (snd ?q) = ds_lookups ?n1" "ds_pending (snd ?q) = ds_pending ?n1"
    by (rule dir_more_of_node_more)+
  have "x = length (ds_lookups n)" "m = (snd ?q)\<lparr>ds_lookups := (ds_lookups (snd ?q))[x := (ds_lookups (snd ?q) ! x)\<lparr>lk_sent := fst ?q\<rparr>]\<rparr>"
    using assms(1) by (auto simp: lookup_start_def Let_def split: option.splits prod.splits if_splits)
  with assms(2) q show ?thesis by (simp add: awaiting_def update_conv')
qed

lemma new_packet_simps:
  "p_kind (new_packet kd dst stream sq payload fresh n) = kd" "p_payload (new_packet kd dst stream sq payload fresh n) = payload"
  "p_stream_id (new_packet kd dst stream sq payload fresh n) = stream"
  by (simp_all add: new_packet_def)

definition toy_lookup :: "16 barr \<Rightarrow> dir_node" where
  "toy_lookup req = (toy_dir_node (init_circuits (toy_node 1)))\<lparr>ds_pending := [(req, 0)],
     ds_lookups := [\<lparr> lk_request = req, lk_sent = 1, lk_received = 0, lk_best = None, lk_answers = [] \<rparr>]\<rparr>"

lemma toy_network: "nd_network (toy_dir_node (init_circuits (toy_node k))) = default_network toy"
  by (simp add: init_circuits_def node.defs toy_node_def circuit_node.defs)

lemma published_descriptor_found_witness:
  "\<exists>answer. fst (lookup_step toy toy_env Answered 0 (snd (handle_directory_packet toy toy_env (arr_of [])
     (new_packet packet_descriptor_response (id_node (toy_identity 1)) (arr_of [7]) 0 answer (arr_of []) (toy_node 2)) (toy_lookup (arr_of [7]))))) =
     Found (toy_descriptor 9 5)"
proof -
  let ?put = "new_packet packet_descriptor_put (id_node (toy_identity 2)) (arr_of []) 0 (marshal (descriptor_json (toy_descriptor 9 5))) (arr_of []) (toy_node 1)"
    and ?get = "new_packet packet_descriptor_get (id_node (toy_identity 2)) (arr_of [7]) 0
      (marshal (descriptor_get_json (service_string (sid_service (toy_service 9))))) (arr_of []) (toy_node 1)"
  have times: "\<forall>t \<in> {en_now toy_env, en_now toy_env}. sint (unix t) < sint (unix (0 + seconds 60)) \<and> sint (unix 0) \<le> sint (unix (t + minutes 5))"
    by (simp add: toy_env_def unix_small)
  have w: "nd_network (toy_lookup req) = default_network toy" "awaiting req 0 (toy_lookup req)" for req
    using toy_network by (simp_all add: toy_lookup_def awaiting_def)
  obtain answer where "\<forall>returned. p_kind returned = packet_descriptor_response \<longrightarrow> p_stream_id returned = p_stream_id ?get \<longrightarrow> p_payload returned = answer \<longrightarrow>
      fst (lookup_step toy toy_env Answered 0 (snd (handle_directory_packet toy toy_env (arr_of []) returned (toy_lookup (arr_of [7]))))) = Found (toy_descriptor 9 5)"
    using published_descriptor_found [where C = toy and i = "toy_service 9" and ins = "[zero_node]" and md = "[]" and E = toy_env
        and E' = toy_env and now = 0 and ttl = "seconds 60" and m = "toy_dir_node (init_circuits (toy_node 2))" and n = "toy_lookup (arr_of [7])"
        and w = "default_network toy" and d = "toy_descriptor 9 5" and r = 5 and put = ?put and get = ?get and x = 0 and fresh = "arr_of []"
        and fresh' = "arr_of []", OF toy_service_good _ _ _ times toy_network w(1) toy_descriptor_def _ _ _ _ _ refl] w(2) [of "arr_of [7]"]
    by (simp only: new_packet_simps toy_dir_simps) (force simp: sorted_map_def)
  then show ?thesis by (intro exI [of _ answer]) (simp add: new_packet_simps)
qed

text \<open>C40. A lookup does not check which service an answer is about: when a lookup of one service asked one
  replica, and that replica answers with any valid descriptor of another service, the lookup returns it.\<close>

theorem lookup_takes_other_service:
  assumes "lookup_start E local req fresh i use_cache n = (Looking x, m)" "lk_sent (ds_lookups m ! x) = 1"
    and "p_stream_id returned = req" "p_kind returned = packet_descriptor_response"
    and "p_payload returned = marshal (descriptor_response_json True (Some (descriptor_json d)))"
    and "go_int (d_version d)" "sorted_map (d_metadata d)" "descriptor_verify C d (en_now E') (nd_network m) = Inr other"
  shows "fst (lookup_step C E' Answered x (snd (handle_directory_packet C E' fresh' returned m))) = Found d"
  by (rule answer_returned [OF _ assms(4-8)]) (use lookup_start_awaiting [OF assms(1,2)] assms(3) in simp)

definition toy_looker :: dir_node where
  "toy_looker = (toy_dir_node (init_circuits (toy_node 1)))\<lparr>nd_open := [10], nd_peers := [(id_node (toy_identity 2), toy_peer)],
     nd_lsas := [(id_node (toy_identity 2), toy_lsa)],
     nd_routes := [id_node (toy_identity 2) \<mapsto> make_route (id_node (toy_identity 2)) [id_node (toy_identity 1), id_node (toy_identity 2)]]\<rparr>"

lemma get_fits: "length (marshal (descriptor_get_json (service_string i))) \<le> 1000"
  using length_marshal_object [of "[(''service_id'', JStr (service_string i))]"]
    member_size_str [OF length_id_strings(3) [of i], of "''service_id''"]
  by (simp add: descriptor_get_json_def)

lemma toy_looker_simps:
  "nd_open toy_looker = [10]" "nd_self toy_looker = id_node (toy_identity 1)" "nd_network toy_looker = default_network toy"
  "nd_peers toy_looker = [(id_node (toy_identity 2), toy_peer)]" "route_ids toy_looker = [id_node (toy_identity 2)]"
  "nd_routes toy_looker (id_node (toy_identity 2)) = Some (make_route (id_node (toy_identity 2)) [id_node (toy_identity 1), id_node (toy_identity 2)])"
  "yc_replicas (cf_directory (nd_cfg toy_looker)) = 5" "ds_lookups toy_looker = []"
  by (simp_all add: toy_looker_def toy_dir_node_def init_circuits_def node.defs circuit_node.defs dir_node.defs toy_node_def
      nd_self_def route_ids_def default_config_def del: toy_public)

lemma toy_query_sent:
  assumes "nd_open n = [10]" "nd_self n = id_node (toy_identity 1)" "nd_peers n = nd_peers toy_looker" "nd_routes n = nd_routes toy_looker"
    and "set dsts = {id_node (toy_identity 1), id_node (toy_identity 2)}" "length dsts = 2" "length raw \<le> 1000"
  shows "fst (send_queries toy_env local req raw fresh k dsts n) = 1"
proof -
  let ?a = "id_node (toy_identity 1)" and ?b = "id_node (toy_identity 2)"
  have ok: "is_ok (fst (send_packet toy_env local (new_packet packet_descriptor_get ?b req 0 raw (fresh j) n) n))" for j
    using assms(1-4,7) toy_ids_differ
    by (simp add: send_packet_def new_packet_def toy_looker_simps make_route_def peer_send_packet_def packet_marshal_def protocol_version_def
        peer_send_def write_frame_def max_frame_size_def toy_peer_simps toy_env_def del: toy_public)
  have self: "nd_self (snd (send_packet toy_env local (new_packet packet_descriptor_get ?b req 0 raw (fresh j) n) n)) = nd_self n" for j
    using send_queries_more [of toy_env local req raw fresh j "[?b]" n] toy_ids_differ assms(2)
    by (auto split: prod.splits simp del: toy_public) (metis snd_conv)?
  obtain x y where xy: "dsts = [x, y]" using assms(6) by (cases dsts rule: list.exhaust; cases "tl dsts") auto
  then have "x = ?a \<and> y = ?b \<or> x = ?b \<and> y = ?a" using assms(5) by (auto simp: doubleton_eq_iff)
  moreover define r m where "r j = fst (send_packet toy_env local (new_packet packet_descriptor_get ?b req 0 raw (fresh j) n) n)"
    and "m j = snd (send_packet toy_env local (new_packet packet_descriptor_get ?b req 0 raw (fresh j) n) n)" for j
  then have m: "send_packet toy_env local (new_packet packet_descriptor_get ?b req 0 raw (fresh j) n) n = (r j, m j)" for j by simp
  have "is_ok (r j)" "nd_self (m j) = ?a" for j using ok [of j] self [of j] m [of j] assms(2) by simp_all
  ultimately show ?thesis
    using toy_ids_differ by (elim disjE) (simp_all add: xy m assms(2) del: toy_public)
qed

lemma toy_looker_starts:
  "\<exists>m. lookup_start toy_env local req fresh i False toy_looker = (Looking 0, m) \<and> lk_sent (ds_lookups m ! 0) = 1 \<and> nd_network m = default_network toy"
proof -
  let ?lk = "\<lparr> lk_request = req, lk_sent = 0, lk_received = 0, lk_best = None, lk_answers = [] \<rparr>"
  let ?n1 = "toy_looker\<lparr>ds_pending := AList.update req 0 (ds_pending toy_looker), ds_lookups := [?lk]\<rparr>"
  let ?raw = "marshal (descriptor_get_json (service_string i))"
  let ?q = "send_queries toy_env local req ?raw fresh 0 (replicas i ?n1) ?n1"
  have self: "nd_self ?n1 = id_node (toy_identity 1)" "route_ids ?n1 = [id_node (toy_identity 2)]" "nd_cfg ?n1 = nd_cfg toy_looker"
    using toy_looker_simps by (simp_all add: nd_self_def route_ids_def del: toy_public)
  have "replicas i ?n1 = sort_by (xor_less i) [id_node (toy_identity 1), id_node (toy_identity 2)]"
    unfolding replicas_def closest_nodes_def self by (simp add: toy_looker_simps del: toy_public)
  then have one: "fst ?q = 1"
    using get_fits [of i] self by (intro toy_query_sent) (simp_all add: toy_looker_simps insert_commute del: toy_public)
  have more: "node.more (snd ?q) = node.more ?n1" and net: "nd_network (snd ?q) = nd_network ?n1"
    using send_queries_more send_queries_network by blast+
  have "ds_lookups (snd ?q) = [?lk]" using dir_more_of_node_more(5) [OF more] by simp
  then show ?thesis
    using one net by (auto simp: lookup_start_def toy_looker_simps Let_def split: prod.split)
qed

lemma lookup_takes_other_service_witness:
  "\<exists>x (m :: dir_node) returned. lookup_start toy_env (\<lambda>pkt m. m) (arr_of [7]) (\<lambda>k. arr_of []) (sid_service (toy_service 8)) False toy_looker = (Looking x, m) \<and>
     fst (lookup_step toy toy_env Answered x (snd (handle_directory_packet toy toy_env (arr_of []) returned m))) = Found (toy_descriptor 9 5)"
proof -
  obtain m where m: "lookup_start toy_env (\<lambda>pkt m. m) (arr_of [7]) (\<lambda>k. arr_of []) (sid_service (toy_service 8)) False toy_looker = (Looking 0, m)"
    "lk_sent (ds_lookups m ! 0) = 1" "nd_network m = default_network toy"
    using toy_looker_starts by blast
  let ?returned = "new_packet packet_descriptor_response (id_node (toy_identity 1)) (arr_of [7]) 0
    (marshal (descriptor_response_json True (Some (descriptor_json (toy_descriptor 9 5))))) (arr_of []) (toy_node 2)"
  have "fst (lookup_step toy toy_env Answered 0 (snd (handle_directory_packet toy toy_env (arr_of []) ?returned m))) = Found (toy_descriptor 9 5)"
    by (rule lookup_takes_other_service [OF m(1,2)]) (simp_all add: new_packet_simps m(3) toy_descriptor_verify)
  then show ?thesis
    by (intro exI [of _ 0] exI [of _ m] exI [of _ ?returned] conjI) (rule m(1))
qed

end
