(* ===== verification/Circuit_Props.thy ===== *)
theory Circuit_Props
  imports Circuit_Inv Node_Props
begin

section \<open>What circuits promise\<close>

text \<open>
  A circuit of any length is a pair of queues: what the client seals is what the last relay reads, in
  order, and the other way round. The keys come from the messages that build the circuit; a replayed cell
  closes it; the loop that draws identifiers returns the first that is free; the path is simple and the shortest
  route or the first detour that fits.
\<close>

subsection \<open>The layers of a circuit\<close>

text \<open>The relays of a circuit in the order of its path, and what becomes of a payload on its way out and
  back: only the code's \<open>relay_unwrap\<close> and \<open>relay_wrap\<close>.\<close>

fun unwrap_path :: "crypto \<Rightarrow> relay_circuit list \<Rightarrow> bytes \<Rightarrow> bytes result \<times> relay_circuit list" where
  "unwrap_path C [] p = (Inr p, [])"
| "unwrap_path C (rc # rcs) p =
     (case relay_unwrap C rc p of (Inl e, rc') \<Rightarrow> (Inl e, rc' # rcs)
      | (Inr q, rc') \<Rightarrow> (case unwrap_path C rcs q of (r, rcs') \<Rightarrow> (r, rc' # rcs')))"

fun wrap_path :: "crypto \<Rightarrow> relay_circuit list \<Rightarrow> bytes \<Rightarrow> bytes result \<times> relay_circuit list" where
  "wrap_path C [] p = (Inr p, [])"
| "wrap_path C (rc # rcs) p =
     (case wrap_path C rcs p of (Inl e, rcs') \<Rightarrow> (Inl e, rc # rcs')
      | (Inr q, rcs') \<Rightarrow> (case relay_wrap C rc q of (r, rc') \<Rightarrow> (r, rc' # rcs')))"

definition paired :: "circuit_hop \<Rightarrow> relay_circuit \<Rightarrow> bool" where
  "paired h rc \<longleftrightarrow> good_hop h \<and> rc_fwd rc = ch_fwd h \<and> rc_rev rc = ch_rev h \<and> rc_fwd_seq rc = ch_send h \<and> rc_rev_seq rc = ch_recv h"

abbreviation lockstep :: "circuit_hop list \<Rightarrow> relay_circuit list \<Rightarrow> bool" where
  "lockstep \<equiv> list_all2 paired"

lemma seal_layer_32: "length k = 32 \<Longrightarrow> \<exists>c. seal_circuit_layer C k s p = Inr c"
  by (simp add: seal_circuit_layer_def)

lemma onion_out:
  assumes "aead_ok C"
  shows "lockstep hs rcs \<Longrightarrow> \<exists>w hs' rcs'. seal_hops C hs p = (Inr w, hs') \<and> unwrap_path C rcs w = (Inr p, rcs') \<and> lockstep hs' rcs'"
proof (induction rule: list_all2_induct)
  case (Cons h hs rc rcs)
  obtain w hs' rcs' where ih: "seal_hops C hs p = (Inr w, hs')" "unwrap_path C rcs w = (Inr p, rcs')" "lockstep hs' rcs'"
    using Cons.IH by blast
  have h: "length (ch_fwd h) = 32" using Cons.hyps(1) by (simp add: paired_def good_hop_def)
  obtain c where c: "seal_circuit_layer C (ch_fwd h) (ch_send h) w = Inr c" using seal_layer_32 [OF h] by blast
  have "open_circuit_layer C (ch_fwd h) (ch_send h) c = Inr w" by (rule open_seal_layer [OF assms h c])
  then have "unwrap_path C (rc # rcs) c = (Inr p, rc\<lparr>rc_fwd_seq := rc_fwd_seq rc + 1\<rparr> # rcs')"
    using Cons.hyps(1) ih(2) by (simp add: relay_unwrap_def paired_def)
  moreover have "paired (h\<lparr>ch_send := ch_send h + 1\<rparr>) (rc\<lparr>rc_fwd_seq := rc_fwd_seq rc + 1\<rparr>)"
    using Cons.hyps(1) by (simp add: paired_def good_hop_def)
  ultimately show ?case using ih c by simp
qed simp

lemma onion_back:
  assumes "aead_ok C"
  shows "lockstep hs rcs \<Longrightarrow> \<exists>w hs' rcs'. wrap_path C rcs p = (Inr w, rcs') \<and> open_hops C hs w = (Inr p, hs') \<and> lockstep hs' rcs'"
proof (induction rule: list_all2_induct)
  case (Cons h hs rc rcs)
  obtain w hs' rcs' where ih: "wrap_path C rcs p = (Inr w, rcs')" "open_hops C hs w = (Inr p, hs')" "lockstep hs' rcs'"
    using Cons.IH by blast
  have h: "length (ch_rev h) = 32" using Cons.hyps(1) by (simp add: paired_def good_hop_def)
  obtain c where c: "seal_circuit_layer C (ch_rev h) (ch_recv h) w = Inr c" using seal_layer_32 [OF h] by blast
  have "open_circuit_layer C (ch_rev h) (ch_recv h) c = Inr w" by (rule open_seal_layer [OF assms h c])
  then have "open_hops C (h # hs) c = (Inr p, h\<lparr>ch_recv := ch_recv h + 1\<rparr> # hs')" using ih(2) by simp
  moreover have "wrap_path C (rc # rcs) p = (Inr c, rc\<lparr>rc_rev_seq := rc_rev_seq rc + 1\<rparr> # rcs')"
    using Cons.hyps(1) ih(1) c by (simp add: relay_wrap_def paired_def)
  moreover have "paired (h\<lparr>ch_recv := ch_recv h + 1\<rparr>) (rc\<lparr>rc_rev_seq := rc_rev_seq rc + 1\<rparr>)"
    using Cons.hyps(1) by (simp add: paired_def good_hop_def)
  ultimately show ?case using ih(3) by simp
qed simp

text \<open>A run of a circuit: payloads sent by the client and by the last relay, in any order.\<close>

datatype flow = Out bytes | Back bytes

fun circuit_run :: "crypto \<Rightarrow> circuit_hop list \<Rightarrow> relay_circuit list \<Rightarrow> flow list \<Rightarrow> flow list result" where
  "circuit_run C hs rcs [] = Inr []"
| "circuit_run C hs rcs (Out p # fs) =
     (case seal_hops C hs p of (Inl e, _) \<Rightarrow> Inl e
      | (Inr w, hs') \<Rightarrow> (case unwrap_path C rcs w of (Inl e, _) \<Rightarrow> Inl e
        | (Inr q, rcs') \<Rightarrow> (case circuit_run C hs' rcs' fs of Inl e \<Rightarrow> Inl e | Inr got \<Rightarrow> Inr (Out q # got))))"
| "circuit_run C hs rcs (Back p # fs) =
     (case wrap_path C rcs p of (Inl e, _) \<Rightarrow> Inl e
      | (Inr w, rcs') \<Rightarrow> (case open_hops C hs w of (Inl e, _) \<Rightarrow> Inl e
        | (Inr q, hs') \<Rightarrow> (case circuit_run C hs' rcs' fs of Inl e \<Rightarrow> Inl e | Inr got \<Rightarrow> Inr (Back q # got))))"

text \<open>C8. A circuit of any number of hops whose two ends agree on keys and counters is an abstract duplex
  channel: whatever the client and the last relay send, in any order and number, with every layer sealed
  by \<open>sendRelay\<close> and removed by the relays (and the other way round), arrives unchanged and in order.\<close>

theorem circuit_refines_duplex:
  assumes "aead_ok C" "lockstep hs rcs"
  shows "circuit_run C hs rcs fs = Inr fs"
  using assms(2)
proof (induction fs arbitrary: hs rcs)
  case (Cons f fs)
  show ?case
  proof (cases f)
    case (Out p)
    then show ?thesis using onion_out [OF assms(1) Cons.prems, of p] Cons.IH by auto
  next
    case (Back p)
    then show ?thesis using onion_back [OF assms(1) Cons.prems, of p] Cons.IH by auto
  qed
qed simp

definition toy_hop :: "byte \<Rightarrow> circuit_hop" where
  "toy_hop k = \<lparr> ch_id = id_node (toy_identity k), ch_fwd = replicate 32 k, ch_rev = replicate 32 (k + 1), ch_send = 0, ch_recv = 0 \<rparr>"

definition toy_relay :: "byte \<Rightarrow> relay_circuit" where
  "toy_relay k = \<lparr> rc_incoming = toy_peer, rc_in = of_nat (unat k), rc_fwd = replicate 32 k, rc_rev = replicate 32 (k + 1),
     rc_fwd_seq = 0, rc_rev_seq = 0, rc_outgoing = None, rc_app = None, rc_closed = False \<rparr>"

lemma toy_paired: "paired (toy_hop k) (toy_relay k)"
  by (simp add: paired_def toy_hop_def toy_relay_def good_hop_def)

lemma circuit_refines_duplex_witness:
  "circuit_run toy [toy_hop 1, toy_hop 4] [toy_relay 1, toy_relay 4] [Out [1], Back [7, 8], Out []] = Inr [Out [1], Back [7, 8], Out []]"
  by (rule circuit_refines_duplex [OF toy_aead_ok]) (simp add: toy_paired)

subsection \<open>Building\<close>

lemma peer_send_circuit_ok:
  assumes "en_write E (pr_conn p) = None" "pr_conn p \<in> set (nd_open n)" "length (c_payload cell) < 4000000" "c_version cell = 0"
  shows "peer_send_circuit E p cell n = (Inr (), snd (peer_send_circuit E p cell n))"
    "nd_sent (snd (peer_send_circuit E p cell n)) =
      nd_sent n @ [(pr_conn p, frame_circuit, [circuit_version, c_kind cell] @ put_u64 (c_circuit_id cell) @ c_payload cell)]"
    "nd_open (snd (peer_send_circuit E p cell n)) = nd_open n"
  using assms by (simp_all add: peer_send_circuit_def cell_marshal_def peer_send_def write_frame_def max_frame_size_def)

lemma cell_of_simps [simp]:
  "c_version (cell_of k i p) = 0" "c_kind (cell_of k i p) = k" "c_circuit_id (cell_of k i p) = i" "c_payload (cell_of k i p) = p"
  by (simp_all add: cell_of_def)

text \<open>The relay that answers a \<open>CREATE\<close>, as an entry of its tables and as the answer it sends.\<close>

lemma handle_create_answers:
  assumes "dh_ok C" "length nonce = 32" "length (dw_nonce R) = 32"
    and free: "map_of (cs_relay_in m) (pr_id p, cid) = None"
    and send: "en_write E (pr_conn p) = None" "pr_conn p \<in> set (nd_open m)"
    and keys: "derive_circuit_hop C (dw_private R) (x_public C a) nonce (dw_nonce R) = Inr (fk, rk)"
    and m': "m' = handle_create C E R p (cell_of circuit_create cid (x_public C a @ nonce)) m"
  shows "map_of (cs_relay_in m') (pr_id p, cid) = Some (length (cs_relays m))"
    "cs_relays m' = cs_relays m @ [\<lparr>rc_incoming = p, rc_in = cid, rc_fwd = fk, rc_rev = rk, rc_fwd_seq = 0,
       rc_rev_seq = 0, rc_outgoing = None, rc_app = None, rc_closed = False\<rparr>]"
    "nd_sent m' = nd_sent m @ [(pr_conn p, frame_circuit, [circuit_version, circuit_created] @ put_u64 cid
       @ x_public C (dw_private R) @ dw_nonce R)]"
proof -
  have l: "length (x_public C a) = 32" "length (x_public C (dw_private R)) = 32"
    using dh_okD(1) [OF assms(1)] by simp_all
  let ?n = "m\<lparr>cs_relay_in := AList.update (pr_id p, cid) (length (cs_relays m)) (cs_relay_in m),
     cs_relays := cs_relays m @ [\<lparr>rc_incoming = p, rc_in = cid, rc_fwd = fk, rc_rev = rk, rc_fwd_seq = 0,
       rc_rev_seq = 0, rc_outgoing = None, rc_app = None, rc_closed = False\<rparr>]\<rparr>"
  have eq: "m' = snd (peer_send_circuit E p (cell_of circuit_created cid (x_public C (dw_private R) @ dw_nonce R)) ?n)"
    using l assms(2) free keys by (simp add: m' handle_create_def Let_def)
  show "map_of (cs_relay_in m') (pr_id p, cid) = Some (length (cs_relays m))"
    by (simp add: eq update_conv')
  show "cs_relays m' = cs_relays m @ [\<lparr>rc_incoming = p, rc_in = cid, rc_fwd = fk, rc_rev = rk, rc_fwd_seq = 0,
       rc_rev_seq = 0, rc_outgoing = None, rc_app = None, rc_closed = False\<rparr>]"
    by (simp add: eq)
  show "nd_sent m' = nd_sent m @ [(pr_conn p, frame_circuit, [circuit_version, circuit_created] @ put_u64 cid
       @ x_public C (dw_private R) @ dw_nonce R)]"
    unfolding eq using peer_send_circuit_ok(2) [of E p ?n "cell_of circuit_created cid (x_public C (dw_private R) @ dw_nonce R)"] send l assms(3)
    by simp
qed

abbreviation answer_kind :: "builder \<Rightarrow> byte" where
  "answer_kind b \<equiv> if bd_at b = 1 then circuit_created else relay_extended"

lemma answer_kind_not_error: "answer_kind b \<noteq> relay_open_error"
  by (simp add: circuit_created_def relay_extended_def relay_open_error_def)

lemma build_step_answer:
  assumes "client_at (bd_circuit b) n" "cc_responses (cs_all_clients n ! bd_circuit b) = Response (answer_kind b) body # rs"
    and "length body = 64" "derive_circuit_hop C (bd_private b) (take 32 body) (bd_nonce b) (drop 32 body) = Inr (fk, rk)"
  shows "build_step C E R Seen_response b n =
    build_next C E R b (update_client (bd_circuit b) (add_hop \<lparr>ch_id = bd_path b ! bd_at b, ch_fwd = fk, ch_rev = rk, ch_send = 0, ch_recv = 0\<rparr>)
      (set_client (bd_circuit b) ((cs_all_clients n ! bd_circuit b)\<lparr>cc_responses := rs\<rparr>) n))"
proof -
  have "wait_step Seen_response [answer_kind b] (bd_circuit b) n =
      (Some (Inr body), set_client (bd_circuit b) ((cs_all_clients n ! bd_circuit b)\<lparr>cc_responses := rs\<rparr>) n)"
    using assms(2) answer_kind_not_error [of b] by (simp add: wait_step_def Let_def)
  then show ?thesis using assms(3,4) by (simp add: build_step_def Let_def)
qed

text \<open>C9. The two ends of a new hop agree: if a relay is sent the \<open>CREATE\<close> that carries the builder's
  public key and nonce, it registers a circuit and answers with a \<open>CREATED\<close> whose payload, delivered to
  the builder (directly, or inside \<open>EXTENDED\<close> for a later hop), makes it add a hop that has the keys and
  counters of the relay's circuit, and go on with the next hop.\<close>

theorem hop_keys_agree:
  assumes "dh_ok C" "length (bd_nonce b) = 32" "length (dw_nonce R) = 32"
    and "x_shared C (bd_private b) (x_public C (dw_private R)) \<noteq> None"
    and "map_of (cs_relay_in m) (pr_id p, cid) = None"
    and "en_write E (pr_conn p) = None" "pr_conn p \<in> set (nd_open m)"
    and "m' = handle_create C E R p (cell_of circuit_create cid (x_public C (bd_private b) @ bd_nonce b)) m"
    and "client_at (bd_circuit b) n"
    and "cc_responses (cs_all_clients n ! bd_circuit b) = Response (answer_kind b) (x_public C (dw_private R) @ dw_nonce R) # rs"
  shows "\<exists>i h. map_of (cs_relay_in m') (pr_id p, cid) = Some i \<and> i < length (cs_relays m') \<and> paired h (cs_relays m' ! i) \<and>
    nd_sent m' = nd_sent m @ [(pr_conn p, frame_circuit, [circuit_version, circuit_created] @ put_u64 cid @ x_public C (dw_private R) @ dw_nonce R)] \<and>
    build_step C E' R' Seen_response b n = build_next C E' R' b (update_client (bd_circuit b) (add_hop h)
      (set_client (bd_circuit b) ((cs_all_clients n ! bd_circuit b)\<lparr>cc_responses := rs\<rparr>) n))"
proof -
  let ?body = "x_public C (dw_private R) @ dw_nonce R"
  have l: "length (x_public C (dw_private R)) = 32" using dh_okD(1) [OF assms(1)] by simp
  obtain fk rk where keys: "derive_circuit_hop C (bd_private b) (x_public C (dw_private R)) (bd_nonce b) (dw_nonce R) = Inr (fk, rk)"
    using assms(4) l by (auto simp: derive_circuit_hop_def shared_secret_def Let_def)
  note create = handle_create_answers [OF assms(1-3,5-7) _ assms(8),
      OF trans [OF circuit_keys_agree [OF assms(1), symmetric] keys]]
  have len: "length ?body = 64" using l assms(3) by simp
  note step = build_step_answer [OF assms(9,10) len, of C fk rk]
  have body: "take 32 ?body = x_public C (dw_private R)" "drop 32 ?body = dw_nonce R" using l by simp_all
  let ?h = "\<lparr>ch_id = bd_path b ! bd_at b, ch_fwd = fk, ch_rev = rk, ch_send = 0, ch_recv = 0\<rparr>"
  have "paired ?h (cs_relays m' ! length (cs_relays m))"
    using length_circuit_keys [OF keys] by (simp add: create(2) paired_def good_hop_def)
  moreover have "length (cs_relays m) < length (cs_relays m')" by (simp add: create(2))
  ultimately show ?thesis
    using create(1,3) step keys unfolding body by (intro exI conjI) auto
qed

definition toy_relay_node :: circuit_node where
  "toy_relay_node = (init_circuits (toy_node 2))\<lparr>nd_open := [10]\<rparr>"

definition toy_draw :: "byte \<Rightarrow> draw" where
  "toy_draw k = \<lparr> dw_private = replicate 32 k, dw_nonce = replicate 32 (k + 1), dw_circuits = (\<lambda>j. arr_of (replicate 8 (of_nat j))),
     dw_pipe = 100, dw_dial = (\<lambda>t. Inr 101), dw_app_write = (\<lambda>c. True) \<rparr>"

definition toy_builder :: builder where
  "toy_builder = \<lparr> bd_circuit = 0, bd_path = [id_node (toy_identity 1), id_node (toy_identity 2)], bd_at = 1,
     bd_private = replicate 32 7, bd_nonce = replicate 32 8 \<rparr>"

definition toy_client :: "relay_response list \<Rightarrow> client_circuit" where
  "toy_client rs = \<lparr> cc_id = 5, cc_first = toy_peer, cc_path = bd_path toy_builder, cc_hops = [], cc_responses = rs, cc_done = False \<rparr>"

definition toy_client_node :: "relay_response list \<Rightarrow> circuit_node" where
  "toy_client_node rs = (init_circuits (toy_node 1))\<lparr>nd_open := [10], cs_all_clients := [toy_client rs], cs_clients := [(5, 0)]\<rparr>"

lemma init_simps [simp]:
  "cs_relays (init_circuits n) = []" "cs_relay_in (init_circuits n) = []" "cs_relay_out (init_circuits n) = []"
  "cs_all_clients (init_circuits n) = []" "cs_clients (init_circuits n) = []" "cs_extends (init_circuits n) = []"
  "cs_pending (init_circuits n) = []"
  by (simp_all add: init_circuits_def node.defs circuit_node.defs)

lemma init_circuits_ok: "circuits_ok (init_circuits n)"
  by (simp add: circuits_ok_def relays_ok_def clients_ok_def extend_ok_def)

lemma toy_client_at: "client_at 0 (toy_client_node rs)"
proof -
  have "registered cc_done cc_id [toy_client rs] [(5, 0)]"
    using registered_add [of cc_done cc_id "[]" "[]" "toy_client rs"] by (simp add: toy_client_def)
  then show ?thesis
    by (simp add: toy_client_node_def client_at_def circuits_ok_def relays_ok_def clients_ok_def extend_ok_def)
      (simp add: toy_client_def)
qed

lemma hop_keys_agree_witness:
  "\<exists>(m' :: circuit_node) i h. map_of (cs_relay_in m') (pr_id toy_peer, 9) = Some i \<and> paired h (cs_relays m' ! i) \<and>
     build_step toy toy_env (toy_draw 1) Seen_response toy_builder (toy_client_node [Response circuit_created (replicate 32 3 @ replicate 32 4)])
      = build_next toy toy_env (toy_draw 1) toy_builder (update_client 0 (add_hop h) (toy_client_node []))"
proof -
  define m' where "m' = handle_create toy toy_env (toy_draw 3) toy_peer
    (cell_of circuit_create 9 (x_public toy (bd_private toy_builder) @ bd_nonce toy_builder)) toy_relay_node"
  have c: "bd_circuit toy_builder = 0" "bd_at toy_builder = 1" by (simp_all add: toy_builder_def)
  have at: "client_at (bd_circuit toy_builder) (toy_client_node rs)" for rs using toy_client_at by (simp add: c)
  have s: "set_client 0 ((cs_all_clients (toy_client_node rs) ! 0)\<lparr>cc_responses := []\<rparr>) (toy_client_node rs) = toy_client_node []" for rs
    by (simp add: toy_client_node_def toy_client_def set_client_def)
  have d: "x_public toy (dw_private (toy_draw 3)) = replicate 32 3" "dw_nonce (toy_draw 3) = replicate 32 4"
    by (simp_all add: toy_draw_def toy_def)
  have resp: "cc_responses (cs_all_clients (toy_client_node [Response circuit_created (replicate 32 3 @ replicate 32 4)]) ! bd_circuit toy_builder)
      = Response (answer_kind toy_builder) (x_public toy (dw_private (toy_draw 3)) @ dw_nonce (toy_draw 3)) # []"
    by (simp add: c d) (simp add: toy_client_node_def toy_client_def)
  have l: "length (bd_nonce toy_builder) = 32" "length (dw_nonce (toy_draw 3)) = 32"
    by (simp_all add: toy_builder_def d)
  have sh: "x_shared toy (bd_private toy_builder) (x_public toy (dw_private (toy_draw 3))) \<noteq> None"
    by (simp add: toy_def)
  have r: "map_of (cs_relay_in toy_relay_node) (pr_id toy_peer, 9) = None" "pr_conn toy_peer \<in> set (nd_open toy_relay_node)"
    "en_write toy_env (pr_conn toy_peer) = None"
    by (simp_all add: toy_relay_node_def toy_peer_def hello_peer_def toy_env_def)
  show ?thesis
    using hop_keys_agree [OF toy_dh_ok l sh r(1,3,2) m'_def at resp, of toy_env "toy_draw 1"]
    unfolding c(1) s by blast
qed

text \<open>A build whose every message is answered.\<close>

fun answer_all :: "crypto \<Rightarrow> env \<Rightarrow> (draw \<times> bytes) list \<Rightarrow> build \<times> 'a circuit_node_scheme \<Rightarrow> build \<times> 'a circuit_node_scheme" where
  "answer_all C E ((R, body) # rest) (Building b, n) =
     answer_all C E rest (build_step C E R Seen_response b
       (update_client (bd_circuit b) (offer_response (Response (answer_kind b) body)) n))"
| "answer_all C E steps r = r"

definition building :: "peer \<Rightarrow> builder \<Rightarrow> 'a circuit_node_scheme \<Rightarrow> bool" where
  "building p b n \<longleftrightarrow> client_at (bd_circuit b) n \<and> 1 \<le> bd_at b \<and> bd_at b < length (bd_path b) \<and> pr_conn p \<in> set (nd_open n) \<and>
     (let cc = cs_all_clients n ! bd_circuit b in cc_first cc = p \<and> cc_responses cc = [] \<and>
        map ch_id (cc_hops cc) = take (bd_at b - 1) (drop 1 (bd_path b)))"

definition answers :: "crypto \<Rightarrow> draw \<times> bytes \<Rightarrow> bool" where
  "answers C = (\<lambda>(R, body). length (dw_nonce R) = 32 \<and> length body = 64 \<and> (\<forall>a. x_shared C a (take 32 body) \<noteq> None))"

lemma seal_hops_ok:
  assumes "aead_ok C" "\<forall>h \<in> set hs. good_hop h"
  shows "\<exists>w hs'. seal_hops C hs p = (Inr w, hs') \<and> length w = length p + 24 * length hs \<and> map ch_id hs' = map ch_id hs"
  using assms(2)
proof (induction hs)
  case (Cons h hs)
  obtain w hs' where ih: "seal_hops C hs p = (Inr w, hs')" "length w = length p + 24 * length hs" "map ch_id hs' = map ch_id hs"
    using Cons by auto
  have "length (ch_fwd h) = 32" using Cons.prems by (simp add: good_hop_def)
  then show ?case using ih aead_okD(3) [OF assms(1)] by (auto simp: seal_circuit_layer_def)
qed simp

lemma open_set_client [simp]:
  "nd_open (set_client i cc n) = nd_open n" "nd_open (update_client i f n) = nd_open n"
  "cs_all_clients (update_client i f n) = (cs_all_clients n)[i := f (cs_all_clients n ! i)]"
  by (simp_all add: set_client_def update_client_def)

lemma send_relay_ok:
  assumes "aead_ok C" "client_at i n" "cc_hops (cs_all_clients n ! i) \<noteq> []" "length (cc_hops (cs_all_clients n ! i)) \<le> 1000" "length body \<le> 65536"
    and "en_write E (pr_conn (cc_first (cs_all_clients n ! i))) = None" "pr_conn (cc_first (cs_all_clients n ! i)) \<in> set (nd_open n)"
  shows "\<exists>n' hs. send_relay C E i cmd body n = (Inr (), n') \<and> nd_open n' = nd_open n \<and>
    cs_all_clients n' = (cs_all_clients n)[i := (cs_all_clients n ! i)\<lparr>cc_hops := hs\<rparr>] \<and>
    map ch_id hs = map ch_id (cc_hops (cs_all_clients n ! i))"
proof -
  let ?cc = "cs_all_clients n ! i"
  obtain w hs where s: "seal_hops C (cc_hops ?cc) (relay_payload cmd body) = (Inr w, hs)"
    "length w = Suc (length body) + 24 * length (cc_hops ?cc)" "map ch_id hs = map ch_id (cc_hops ?cc)"
    using seal_hops_ok [OF assms(1) client_at_hops [OF assms(2)], of "relay_payload cmd body"] by (auto simp: relay_payload_def)
  let ?m = "set_client i (?cc\<lparr>cc_hops := hs\<rparr>) n" and ?cell = "cell_of circuit_relay (cc_id ?cc) w"
  have "peer_send_circuit E (cc_first ?cc) ?cell ?m = (Inr (), snd (peer_send_circuit E (cc_first ?cc) ?cell ?m))"
    "nd_open (snd (peer_send_circuit E (cc_first ?cc) ?cell ?m)) = nd_open n"
    using peer_send_circuit_ok [of E "cc_first ?cc" ?m ?cell] assms(4-7) s(2) by simp_all
  moreover have "send_relay C E i cmd body n = peer_send_circuit E (cc_first ?cc) ?cell ?m"
    using assms(3) s(1) by (simp add: send_relay_def Let_def)
  moreover have "cs_all_clients (snd (peer_send_circuit E (cc_first ?cc) ?cell ?m)) = (cs_all_clients n)[i := ?cc\<lparr>cc_hops := hs\<rparr>]"
    by simp
  ultimately show ?thesis using s(3) by metis
qed

lemma build_step_progress:
  assumes "aead_ok C" "dh_ok C" "building p b n" "length (bd_path b) \<le> 1000" "en_write E (pr_conn p) = None" "answers C (R, body)"
    and r: "r = build_step C E R Seen_response b (update_client (bd_circuit b) (offer_response (Response (answer_kind b) body)) n)"
  shows "if bd_at b + 1 < length (bd_path b)
    then \<exists>b' n'. r = (Building b', n') \<and> building p b' n' \<and> bd_at b' = bd_at b + 1 \<and> bd_path b' = bd_path b
    else \<exists>i n'. r = (Built i, n') \<and> map ch_id (cc_hops (cs_all_clients n' ! i)) = drop 1 (bd_path b)"
proof -
  let ?i = "bd_circuit b" and ?k = "bd_at b"
  let ?cc = "cs_all_clients n ! ?i"
  have b: "client_at ?i n" "1 \<le> ?k" "?k < length (bd_path b)" "pr_conn p \<in> set (nd_open n)"
      "cc_first ?cc = p" "cc_responses ?cc = []" "map ch_id (cc_hops ?cc) = take (?k - 1) (drop 1 (bd_path b))"
    using assms(3) by (simp_all add: building_def Let_def)
  have i: "?i < length (cs_all_clients n)" using b(1) by (simp add: client_at_def)
  let ?n1 = "update_client ?i (offer_response (Response (answer_kind b) body)) n"
  have n1: "client_at ?i ?n1" by (rule offer_at [OF b(1)])
  have cc1: "cs_all_clients ?n1 ! ?i = ?cc\<lparr>cc_responses := [Response (answer_kind b) body]\<rparr>"
    using i b(6) by (simp add: offer_response_def)
  have body: "length body = 64" "length (dw_nonce R) = 32" "\<exists>s. x_shared C (bd_private b) (take 32 body) = Some s"
    using assms(6) by (auto simp: answers_def)
  obtain fk rk where keys: "derive_circuit_hop C (bd_private b) (take 32 body) (bd_nonce b) (drop 32 body) = Inr (fk, rk)"
    using body by (auto simp: derive_circuit_hop_def shared_secret_def Let_def)
  let ?h = "\<lparr>ch_id = bd_path b ! ?k, ch_fwd = fk, ch_rev = rk, ch_send = 0, ch_recv = 0\<rparr>"
  let ?cc2 = "?cc\<lparr>cc_responses := []\<rparr>"
  let ?n2 = "update_client ?i (add_hop ?h) (set_client ?i ((cs_all_clients ?n1 ! ?i)\<lparr>cc_responses := []\<rparr>) ?n1)"
  have step: "r = build_next C E R b ?n2"
    using build_step_answer [OF n1 _ body(1) keys, of "[]"] cc1 by (simp add: r)
  have "client_at ?i (set_client ?i ((cs_all_clients ?n1 ! ?i)\<lparr>cc_responses := []\<rparr>) ?n1)"
    by (rule set_client_at [OF n1]) (use client_at_hops [OF n1] in simp_all)
  then have n2: "client_at ?i ?n2"
    by (rule update_client_at) (use length_circuit_keys [OF keys] client_at_hops [OF b(1)] i cc1 in \<open>auto simp: add_hop_def good_hop_def\<close>)
  have cc2: "cs_all_clients ?n2 ! ?i = ?cc\<lparr>cc_responses := [], cc_hops := cc_hops ?cc @ [?h]\<rparr>"
    using i cc1 by (simp add: add_hop_def)
  have ids: "map ch_id (cc_hops ?cc @ [?h]) = take ?k (drop 1 (bd_path b))"
    using b(2,3,7) take_Suc_conv_app_nth [of "?k - 1" "drop 1 (bd_path b)"] by simp
  show ?thesis
  proof (cases "?k + 1 < length (bd_path b)")
    case True
    have len: "length (cc_hops ?cc @ [?h]) \<le> 1000"
      using arg_cong [OF ids, of length] b(3) assms(4) by simp
    let ?body = "extend_body C (bd_path b ! (?k + 1)) (dw_private R) (dw_nonce R)"
    obtain n' hs where s: "send_relay C E ?i relay_extend ?body ?n2 = (Inr (), n')" "nd_open n' = nd_open ?n2"
      "cs_all_clients n' = (cs_all_clients ?n2)[?i := (cs_all_clients ?n2 ! ?i)\<lparr>cc_hops := hs\<rparr>]"
      "map ch_id hs = map ch_id (cc_hops ?cc @ [?h])"
      using send_relay_ok [OF assms(1) n2, of ?body E relay_extend] cc2 len assms(5) b(4,5) body(2) dh_okD(1) [OF assms(2)]
      by (auto simp: extend_body_def)
    have at: "client_at ?i n'" using send_relay_at [OF n2, of C E relay_extend ?body] s(1) by simp
    have "?i < length (cs_all_clients ?n2)" using n2 by (simp add: client_at_def)
    then have cc3: "cs_all_clients n' ! ?i = ?cc\<lparr>cc_responses := [], cc_hops := hs\<rparr>"
      using cc2 by (simp add: s(3))
    have "building p (b\<lparr>bd_at := ?k + 1, bd_private := dw_private R, bd_nonce := dw_nonce R\<rparr>) n'"
      using True at b(4,5) s(2,4) ids cc3 by (simp add: building_def)
    then show ?thesis using True s(1) step by (simp add: build_next_def Let_def)
  next
    case False
    then have "take ?k (drop 1 (bd_path b)) = drop 1 (bd_path b)" by simp
    then show ?thesis using False step cc2 ids by (simp add: build_next_def)
  qed
qed

lemma build_answered:
  assumes "aead_ok C" "dh_ok C" "en_write E (pr_conn p) = None"
  shows "building p b n \<Longrightarrow> length (bd_path b) \<le> 1000 \<Longrightarrow> length steps = length (bd_path b) - bd_at b \<Longrightarrow> list_all (answers C) steps \<Longrightarrow>
    \<exists>i n'. answer_all C E steps (Building b, n) = (Built i, n') \<and> map ch_id (cc_hops (cs_all_clients n' ! i)) = drop 1 (bd_path b)"
proof (induction steps arbitrary: b n)
  case Nil
  then show ?case by (simp add: building_def)
next
  case (Cons s steps)
  obtain R body where s: "s = (R, body)" by (cases s)
  have a: "answers C (R, body)" "list_all (answers C) steps" using Cons.prems(4) by (simp_all add: s)
  note step = build_step_progress [OF assms(1,2) Cons.prems(1,2) assms(3) a(1) refl]
  show ?case
  proof (cases "bd_at b + 1 < length (bd_path b)")
    case True
    then obtain b' n' where b': "build_step C E R Seen_response b (update_client (bd_circuit b) (offer_response (Response (answer_kind b) body)) n) = (Building b', n')"
      "building p b' n'" "bd_at b' = bd_at b + 1" "bd_path b' = bd_path b"
      using step by (auto simp del: One_nat_def)
    have "length steps = length (bd_path b') - bd_at b'" using Cons.prems(3) b'(3,4) by simp
    from Cons.IH [OF b'(2) _ this a(2)] Cons.prems(2) b'(1,4) show ?thesis by (simp add: s)
  next
    case False
    then have "length (bd_path b) - bd_at b \<le> 1" by simp
    then have "length steps = 0" using Cons.prems(3) by (simp only: list.size)
    then have "steps = []" by simp
    with step False show ?thesis by (auto simp: s)
  qed
qed


lemma fresh_circuit_id_first:
  assumes "map_of clients (random_circuit_id (draws k)) = None" "\<forall>j < k. map_of clients (random_circuit_id (draws j)) \<noteq> None"
  shows "d \<le> k \<Longrightarrow> fresh_circuit_id clients draws (k - d) = Some (random_circuit_id (draws k))"
proof (induction d)
  case 0
  then show ?case using assms(1) by (subst fresh_circuit_id.simps) simp
next
  case (Suc d)
  then have "fresh_circuit_id clients draws (k - Suc d + 1) = Some (random_circuit_id (draws k))" by (simp add: Suc_diff_Suc)
  moreover have "map_of clients (random_circuit_id (draws (k - Suc d))) \<noteq> None" using Suc.prems assms(2) by simp
  ultimately show ?case by (subst fresh_circuit_id.simps) simp
qed

lemma fresh_circuit_id_drawn:
  assumes "fresh_circuit_id clients draws k = Some i"
  shows "\<exists>j. map_of clients (random_circuit_id (draws j)) = None"
proof -
  have "\<exists>j. i = random_circuit_id (draws j)"
    by (rule fresh_circuit_id.raw_induct [of "\<lambda>clients draws k i. \<exists>j. i = random_circuit_id (draws j)", OF _ assms])
      (auto split: if_splits)
  then show ?thesis using fresh_circuit_id_unused [OF assms] by blast
qed

lemma fresh_circuit_id_exists:
  assumes "map_of clients (random_circuit_id (draws k)) = None"
  shows "fresh_circuit_id clients draws 0 = Some (random_circuit_id (draws (LEAST k. map_of clients (random_circuit_id (draws k)) = None)))"
proof -
  define free where "free = (\<lambda>k. map_of clients (random_circuit_id (draws k)) = None)"
  have "free (Least free)" by (rule LeastI [of free k]) (simp add: free_def assms)
  moreover have "\<not> free j" if "j < Least free" for j using that by (rule not_less_Least)
  ultimately have "fresh_circuit_id clients draws (Least free - Least free) = Some (random_circuit_id (draws (Least free)))"
    by (intro fresh_circuit_id_first) (auto simp: free_def)
  then show ?thesis by (simp add: free_def)
qed

lemma random_circuit_id_nonzero: "random_circuit_id w \<noteq> 0"
  by (simp add: random_circuit_id_def Let_def)

text \<open>C30. The loop in \<open>buildCircuit\<close> that draws circuit identifiers ends exactly when one of the draws is not
  the identifier of a circuit the node has, and returns the first such draw, which is not zero.\<close>

theorem circuit_id_drawn:
  "fresh_circuit_id clients draws 0 =
     (if \<exists>k. map_of clients (random_circuit_id (draws k)) = None
      then Some (random_circuit_id (draws (LEAST k. map_of clients (random_circuit_id (draws k)) = None))) else None) \<and>
   fresh_circuit_id clients draws 0 \<noteq> Some 0"
proof (cases "\<exists>k. map_of clients (random_circuit_id (draws k)) = None")
  case True
  then show ?thesis using fresh_circuit_id_exists random_circuit_id_nonzero by auto
next
  case False
  then have "fresh_circuit_id clients draws 0 = None" using fresh_circuit_id_drawn by (metis not_None_eq)
  with False show ?thesis by simp
qed

text \<open>C10. Building ends: if the first hop is connected, some drawn identifier is free and writes to the first
  hop succeed, then once every message has been answered with a usable key, which takes one answer per
  hop, the circuit is built and its hops are those of the path in their order.\<close>

theorem circuit_build_completes:
  fixes n :: "'a circuit_node_scheme"
  assumes "aead_ok C" "dh_ok C" "circuits_ok n" "2 \<le> length path" "length path \<le> 1000" "path ! 0 = nd_self n"
    and "map_of (nd_peers n) (path ! 1) = Some p" "pr_conn p \<in> set (nd_open n)" "en_write E (pr_conn p) = None"
    and "map_of (cs_clients n) (random_circuit_id (dw_circuits R k)) = None" "length (dw_nonce R) = 32"
    and "length steps = length path - 1" "list_all (answers C) steps"
  shows "\<exists>r i m. build_start C E R path n = Some r \<and> answer_all C E steps r = (Built i, m) \<and>
    map ch_id (cc_hops (cs_all_clients m ! i)) = drop 1 path"
proof -
  obtain cid where cid: "fresh_circuit_id (cs_clients n) (dw_circuits R) 0 = Some cid"
    using fresh_circuit_id_exists [of "cs_clients n" "dw_circuits R" k] assms(10) by blast
  let ?i = "length (cs_all_clients n)"
  let ?cc = "\<lparr>cc_id = cid, cc_first = p, cc_path = path, cc_hops = [], cc_responses = [], cc_done = False\<rparr>"
  let ?n1 = "n\<lparr>cs_all_clients := cs_all_clients n @ [?cc], cs_clients := AList.update cid ?i (cs_clients n)\<rparr>"
  let ?cell = "cell_of circuit_create cid (x_public C (dw_private R) @ dw_nonce R)"
  let ?b = "\<lparr>bd_circuit = ?i, bd_path = path, bd_at = 1, bd_private = dw_private R, bd_nonce = dw_nonce R\<rparr>"
  obtain m where s: "peer_send_circuit E p ?cell ?n1 = (Inr (), m)" "nd_open m = nd_open n"
    and cc: "cs_all_clients m = cs_all_clients n @ [?cc]"
    using peer_send_circuit_ok [of E p ?n1 ?cell] cs_send(4) [of E p ?cell ?n1] assms(8,9,11) dh_okD(1) [OF assms(2)] by simp
  have start: "build_start C E R path n = Some (Building ?b, m)"
    using assms(4,6,7) cid s(1) by (simp add: build_start_def Let_def)
  have "client_at ?i m" using build_start_at [OF assms(3) start] by simp
  then have "building p ?b m" using s(2) cc assms(4,8) by (simp add: building_def)
  from build_answered [OF assms(1,2,9) this _ _ assms(13)] assms(5,12) start show ?thesis by auto
qed

lemma toy_steps: "answers toy (toy_draw k, replicate 64 k)"
  by (simp add: answers_def toy_draw_def toy_def)

lemma circuit_build_completes_witness:
  "\<exists>r i (m :: circuit_node). build_start toy toy_env (toy_draw 1) [nd_self (toy_node 1), pr_id toy_peer, nd_self (toy_node 3)]
      ((toy_client_node [])\<lparr>nd_peers := [(pr_id toy_peer, toy_peer)]\<rparr>) = Some r \<and>
    answer_all toy toy_env [(toy_draw 2, replicate 64 2), (toy_draw 3, replicate 64 3)] r = (Built i, m) \<and>
    map ch_id (cc_hops (cs_all_clients m ! i)) = [pr_id toy_peer, nd_self (toy_node 3)]"
proof -
  let ?n = "(toy_client_node [])\<lparr>nd_peers := [(pr_id toy_peer, toy_peer)]\<rparr>"
  have eight: "replicate 8 (0 :: byte) = [0, 0, 0, 0, 0, 0, 0, 0]" by (simp add: numeral_eq_Suc)
  have "circuits_ok ?n"
    using client_at_ok [OF toy_client_at, of "[]"] by (simp add: circuits_ok_def relays_ok_def clients_ok_def)
  moreover have "map_of (cs_clients ?n) (random_circuit_id (dw_circuits (toy_draw 1) 0)) = None"
    by (simp add: toy_client_node_def toy_draw_def random_circuit_id_def get_u64_def be_nat_def of_digits_def eight Let_def)
  moreover have "nd_self ?n = nd_self (toy_node 1)"
    by (simp add: toy_client_node_def init_circuits_def nd_self_def node.defs)
  moreover have "pr_conn toy_peer \<in> set (nd_open ?n)" "en_write toy_env (pr_conn toy_peer) = None" "length (dw_nonce (toy_draw 1)) = 32"
    by (simp_all add: toy_client_node_def toy_peer_def hello_peer_def toy_env_def toy_draw_def)
  ultimately show ?thesis
    using circuit_build_completes [OF toy_aead_ok toy_dh_ok, of ?n "[nd_self (toy_node 1), pr_id toy_peer, nd_self (toy_node 3)]"
        toy_peer toy_env "toy_draw 1" 0 "[(toy_draw 2, replicate 64 2), (toy_draw 3, replicate 64 3)]"] toy_steps
    by simp
qed

subsection \<open>The path of a circuit\<close>

lemma walk_join:
  assumes "walk adv a b p" "walk adv b c q"
  shows "walk adv a c (p @ drop 1 q)"
proof (cases q)
  case Nil
  then show ?thesis using assms(2) by (simp add: walk_def)
next
  case (Cons x qs)
  with assms show ?thesis by (cases qs) (auto simp: walk_def successively_append_iff)
qed

text \<open>A path by way of \<open>way\<close>: the route to it and the route \<open>Compute\<close> gives from it, without a repeated node and
  within the hop limits of the configuration.\<close>

definition way_path :: "'a node_scheme \<Rightarrow> node_id \<Rightarrow> node_id \<Rightarrow> node_id list \<Rightarrow> bool" where
  "way_path n dst way path \<longleftrightarrow> way \<in> fst ` set (nd_lsas n) \<and> way \<noteq> nd_self n \<and> way \<noteq> dst \<and>
     (\<exists>r1 r2. compute (nd_self n) (nd_lsas n) way = Some r1 \<and> compute way (nd_lsas n) dst = Some r2 \<and>
        path = rt_path r1 @ tl (rt_path r2)) \<and>
     distinct path \<and> vc_circuit_hops (cf_privacy (nd_cfg n)) \<le> int (length path) - 1 \<and>
     int (length path) - 1 \<le> rc_max_hops (cf_routing (nd_cfg n))"

lemma detour_way_path:
  "way \<in> fst ` set (nd_lsas n) \<Longrightarrow> way \<noteq> nd_self n \<Longrightarrow> way \<noteq> dst \<Longrightarrow> detour n dst way = Some path \<longleftrightarrow> way_path n dst way path"
  by (auto simp: detour_def way_path_def Let_def drop_Suc split: option.splits)

text \<open>The first result of a search through a sorted list is the one for the least element that has one.\<close>

lemma map_filter_first:
  assumes "sorted_wrt lt xs"
  shows "case List.map_filter f xs of [] \<Rightarrow> \<forall>x \<in> set xs. f x = None
    | y # ys \<Rightarrow> \<exists>x \<in> set xs. f x = Some y \<and> (\<forall>x' \<in> set xs. f x' \<noteq> None \<longrightarrow> x' = x \<or> lt x x')"
  using assms
proof (induction xs)
  case (Cons x xs)
  show ?case
  proof (cases "f x")
    case None
    with Cons show ?thesis by (auto simp: map_filter_simps split: list.splits)
  next
    case (Some y)
    with Cons.prems show ?thesis by (auto simp: map_filter_simps)
  qed
qed (simp add: map_filter_simps)

lemma circuit_path_cases:
  assumes "circuit_path_to dst n = Inr path" "distinct (map fst (nd_lsas n))"
  obtains s where "nd_routes n dst = Some s" "path = rt_path s"
      "vc_circuit_hops (cf_privacy (nd_cfg n)) \<le> int (length path) - 1 \<or> (\<forall>w q. \<not> way_path n dst w q)"
  | s w where "nd_routes n dst = Some s" "int (length (rt_path s)) - 1 < vc_circuit_hops (cf_privacy (nd_cfg n))"
      "way_path n dst w path" "\<forall>w' q. way_path n dst w' q \<longrightarrow> w' = w \<or> node_less w w'"
proof -
  obtain s where s: "nd_routes n dst = Some s" using assms(1) by (auto simp: circuit_path_to_def split: option.splits)
  let ?ways = "sort_by node_less (filter (\<lambda>i. i \<noteq> nd_self n \<and> i \<noteq> dst) (map fst (nd_lsas n)))"
  have set: "set ?ways = {i \<in> fst ` set (nd_lsas n). i \<noteq> nd_self n \<and> i \<noteq> dst}" by auto
  have "sorted_wrt node_less ?ways"
    by (rule node_order.sorted_sort_by) (use assms(2) in simp)
  note first = map_filter_first [OF this, of "detour n dst"]
  have ways: "w \<in> set ?ways" if "way_path n dst w q" for w q using that by (auto simp: way_path_def)
  have detour: "w \<in> set ?ways \<Longrightarrow> detour n dst w = Some q \<longleftrightarrow> way_path n dst w q" for w q
    by (rule detour_way_path) auto
  show ?thesis
  proof (cases "vc_circuit_hops (cf_privacy (nd_cfg n)) \<le> int (length (rt_path s)) - 1")
    case True
    then have "path = rt_path s" using assms(1) s by (simp add: circuit_path_to_def)
    with s True that(1) show ?thesis by blast
  next
    case short: False
    show ?thesis
    proof (cases "List.map_filter (detour n dst) ?ways")
      case Nil
      then have "path = rt_path s" using assms(1) s short by (simp add: circuit_path_to_def Let_def)
      moreover have "\<not> way_path n dst w q" for w q
      proof
        assume w: "way_path n dst w q"
        have "detour n dst w = None" using first ways [OF w] by (simp add: Nil)
        with detour [OF ways [OF w]] w show False by simp
      qed
      ultimately show ?thesis using s that(1) by blast
    next
      case (Cons p ps)
      then have "path = p" using assms(1) s short by (simp add: circuit_path_to_def Let_def)
      then obtain w where w: "w \<in> set ?ways" "detour n dst w = Some path"
          "\<forall>w' \<in> set ?ways. detour n dst w' \<noteq> None \<longrightarrow> w' = w \<or> node_less w w'"
        using first by (auto simp: Cons)
      have "way_path n dst w path" using w(1,2) detour by blast
      moreover have "w' = w \<or> node_less w w'" if "way_path n dst w' q" for w' q
        using w(3) ways [OF that] detour that by blast
      ultimately show ?thesis using s short that(2) by (metis not_le)
    qed
  qed
qed

lemma node_route_first_hop:
  assumes "node_ok n" "nd_started n" "compute (nd_self n) (nd_lsas n) w = Some r"
  shows "\<exists>p. map_of (nd_peers n) (rt_path r ! 1) = Some p \<and> pr_conn p \<in> set (nd_open n)"
proof -
  have "nd_routes n w = Some r" using assms(1,3) by (simp add: node_ok_def tables_ok_def)
  moreover have "rt_next_hop r = rt_path r ! 1"
    by (subst compute_path(4) [OF assms(3)]) (simp add: make_route_def)
  ultimately show ?thesis using next_hop_is_peer [OF assms(1,2)] by metis
qed

text \<open>C26. The path \<open>circuitPathTo\<close> chooses in a reachable started node is a simple path of mutually advertised
  links from the node to the destination, and its first hop is a connected peer. It is the current route when
  that has at least \<open>circuit_hops\<close> hops, or when no known node gives a path by way of it that is simple, has at
  least \<open>circuit_hops\<close> and at most \<open>MaxHops\<close> hops; otherwise it is such a path, by way of the smallest node that
  gives one.\<close>

theorem circuit_path_sound:
  assumes "node_reachable C n" "nd_started n" "circuit_path_to dst n = Inr path"
  shows "hd path = nd_self n \<and> last path = dst \<and> distinct path \<and> successively (mutual (nd_lsas n)) path \<and>
    (\<exists>p. map_of (nd_peers n) (path ! 1) = Some p \<and> pr_conn p \<in> set (nd_open n)) \<and>
    (\<exists>s. nd_routes n dst = Some s \<and>
      (if vc_circuit_hops (cf_privacy (nd_cfg n)) \<le> int (length (rt_path s)) - 1 \<or> \<not> (\<exists>w q. way_path n dst w q)
       then path = rt_path s
       else \<exists>w. way_path n dst w path \<and> (\<forall>w' q. way_path n dst w' q \<longrightarrow> w' = w \<or> node_less w w')))"
proof -
  note ok = node_reachable_ok [OF assms(1)]
  have routes: "nd_routes n = compute (nd_self n) (nd_lsas n)" using ok by (simp add: node_ok_def tables_ok_def)
  have keys: "distinct (map fst (nd_lsas n))" using ok by (simp add: node_ok_def tables_ok_def)
  from assms(3) keys show ?thesis
  proof (cases rule: circuit_path_cases)
    case (1 s)
    have c: "compute (nd_self n) (nd_lsas n) dst = Some s" using 1(1) routes by simp
    have "hd path = nd_self n \<and> last path = dst \<and> distinct path \<and> successively (mutual (nd_lsas n)) path"
      using compute_path [OF c] 1(2) by (auto simp: walk_def mutual_def [abs_def])
    moreover have "\<exists>p. map_of (nd_peers n) (path ! 1) = Some p \<and> pr_conn p \<in> set (nd_open n)"
      using node_route_first_hop [OF ok assms(2) c] 1(2) by simp
    ultimately show ?thesis using 1 by auto
  next
    case (2 s w)
    then obtain r1 r2 where r: "compute (nd_self n) (nd_lsas n) w = Some r1" "compute w (nd_lsas n) dst = Some r2"
      and path: "path = rt_path r1 @ drop 1 (rt_path r2)" "distinct path"
      by (auto simp: way_path_def drop_Suc)
    have "walk (advertised_of (nd_lsas n)) (nd_self n) dst path"
      unfolding path(1) by (rule walk_join [OF compute_path(1) [OF r(1)] compute_path(1) [OF r(2)]])
    then have "hd path = nd_self n \<and> last path = dst \<and> distinct path \<and> successively (mutual (nd_lsas n)) path"
      using path(2) by (auto simp: walk_def mutual_def [abs_def])
    moreover have "path ! 1 = rt_path r1 ! 1"
      using compute_path(5) [OF r(1)] by (simp add: path(1) nth_append)
    then have "\<exists>p. map_of (nd_peers n) (path ! 1) = Some p \<and> pr_conn p \<in> set (nd_open n)"
      using node_route_first_hop [OF ok assms(2) r(1)] by simp
    moreover have "\<not> (vc_circuit_hops (cf_privacy (nd_cfg n)) \<le> int (length (rt_path s)) - 1 \<or> \<not> (\<exists>w q. way_path n dst w q))"
      using 2(2,3) by auto
    ultimately show ?thesis using 2(1,3,4) by auto
  qed
qed

text \<open>Three nodes linked with each other, with two hops asked for. Node 1 hears what the other two announce.\<close>

definition toy_announced :: "byte \<Rightarrow> node_id list \<Rightarrow> lsa" where
  "toy_announced j nb = new_lsa toy 0 (toy_identity j) 1 (seconds 60) [] nb []"

lemma toy_announced_read:
  "lsa_unmarshal (lsa_marshal (toy_announced j nb)) = Some (toy_announced j nb)"
  "lsa_verify toy (en_now toy_env) (toy_announced j nb) = Inr (id_node (toy_identity j))"
  unfolding toy_announced_def
  by (rule lsa_roundtrip, simp add: go_int_def)
    (rule lsa_verify_new, simp_all add: toy_env_def unix_small)

lemma toy_hear:
  assumes "toy_like k n" "(i, p) \<in> set (nd_peers n)" "j \<noteq> k" "map_of (nd_lsas n) (id_node (toy_identity j)) = None" "length nb \<le> 2"
    and n': "n' = handle_frame toy toy_env (\<lambda>pkt m. m) (\<lambda>q cell m. m) p frame_lsa (lsa_marshal (toy_announced j nb)) n"
  shows "toy_like k n'" "nd_peers n' = nd_peers n" "nd_lsas n' = AList.update (id_node (toy_identity j)) (toy_announced j nb) (nd_lsas n)"
    "nd_started n' = nd_started n" "nd_cfg n' = nd_cfg n"
proof -
  let ?raw = "lsa_marshal (toy_announced j nb)" and ?j = "id_node (toy_identity j)"
  let ?n = "n\<lparr>nd_frames_received := nd_frames_received n + 1, nd_bytes_received := nd_bytes_received n + of_nat (length ?raw + 5)\<rparr>"
  let ?m = "wake_publisher (put_lsa ?j (toy_announced j nb) ?n)"
  have like: "node_reachable toy n" "nd_self n = id_node (toy_identity k)"
    using assms(1) by (simp_all add: toy_like_def nd_self_def del: toy_public)
  have "nd_self ?n = nd_self n" by (simp add: nd_self_def)
  then have "n' = broadcast toy toy_env frame_lsa ?raw (Some (pr_conn p)) ?m"
    using assms(3,4) like(2) toy_id_inject [of j k]
    by (simp add: n' handle_frame_def handle_lsa_def toy_announced_read del: toy_public)
  moreover have "peers_ok ?m"
    using node_reachable_ok [OF like(1)]
    by (simp add: node_ok_def peers_ok_def peer_ok_def wake_publisher_def put_lsa_def Let_def nd_self_def)
  ultimately have same: "same_tables n' ?m" and addr: "nd_addresses n' = nd_addresses n"
    using broadcast_sends(1) [OF writes_toy toy_lsa_fits [OF assms(5)], where n = ?m and C = toy and kd = frame_lsa and except = "Some (pr_conn p)"]
    by (simp_all add: toy_announced_def broadcast_def addresses_run put_lsa_def Let_def)
  have m: "nd_peers ?m = nd_peers n" "nd_lsas ?m = AList.update ?j (toy_announced j nb) (nd_lsas n)" "nd_started ?m = nd_started n"
      "nd_cfg ?m = nd_cfg n" "nd_id ?m = nd_id n" "nd_network ?m = nd_network n"
    by (simp_all add: wake_publisher_def put_lsa_def Let_def del: toy_public)
  show "nd_peers n' = nd_peers n" "nd_lsas n' = AList.update ?j (toy_announced j nb) (nd_lsas n)" "nd_started n' = nd_started n"
      "nd_cfg n' = nd_cfg n"
    using same unfolding same_tables_def m by simp_all
  have "node_reachable toy n'"
    unfolding n' by (rule node_reachable.step [OF like(1) node_step.frame [OF assms(2)]])
  then show "toy_like k n'"
    using assms(1) same addr unfolding same_tables_def m toy_like_def by simp
qed

definition tri_config :: config where
  "tri_config = (default_config toy)\<lparr>cf_privacy := \<lparr>vc_circuit_hops = 2, vc_circuit_timeout = ''15s''\<rparr>\<rparr>"

abbreviation tri_id :: "byte \<Rightarrow> node_id" where
  "tri_id k \<equiv> id_node (toy_identity k)"

definition tri_started :: node where
  "tri_started = start_node toy toy_env [] ((toy_node 1)\<lparr>nd_cfg := tri_config\<rparr>)"

definition tri_met :: node where
  "tri_met = snd (register_peer toy toy_env (toy_end True 11 3) (snd (register_peer toy toy_env (toy_end True 10 2) tri_started)))"

definition tri_two :: node where
  "tri_two = handle_frame toy toy_env (\<lambda>pkt m. m) (\<lambda>q cell m. m) (toy_end True 10 2) frame_lsa (lsa_marshal (toy_announced 2 [tri_id 1, tri_id 3])) tri_met"

definition tri_node :: node where
  "tri_node = handle_frame toy toy_env (\<lambda>pkt m. m) (\<lambda>q cell m. m) (toy_end True 11 3) frame_lsa (lsa_marshal (toy_announced 3 [tri_id 1, tri_id 2])) tri_two"

lemma tri_started_like:
  "toy_like 1 tri_started" "nd_peers tri_started = []" "nd_open tri_started = []" "nd_started tri_started"
  "nd_cfg tri_started = tri_config" "\<And>i. i \<noteq> tri_id 1 \<Longrightarrow> map_of (nd_lsas tri_started) i = None"
proof -
  have "new_node tri_config (toy_identity 1) = Inr ((toy_node 1)\<lparr>nd_cfg := tri_config\<rparr>)"
    by (simp add: toy_node_def new_node_def config_network_def tri_config_def default_config_def)
  then have "node_reachable toy tri_started"
    unfolding tri_started_def by (intro node_reachable.step [OF node_reachable.created node_step.starting])
  then show "toy_like 1 tri_started" "nd_peers tri_started = []" "nd_open tri_started = []" "nd_started tri_started"
    "nd_cfg tri_started = tri_config" "\<And>i. i \<noteq> tri_id 1 \<Longrightarrow> map_of (nd_lsas tri_started) i = None"
    by (simp_all add: toy_like_def tri_started_def start_node_def emit_local_lsa_def announce_def frame_tasks_def put_lsa_def
        Let_def nd_self_def toy_node_def add_event_def tri_config_def default_config_def del: toy_public)
qed

lemma tri_ids: "tri_id 1 \<noteq> tri_id 2" "tri_id 1 \<noteq> tri_id 3" "tri_id 2 \<noteq> tri_id 3"
  by (simp_all add: toy_id_inject del: toy_public)

lemma tri_simps:
  "toy_like 1 tri_node" "nd_started tri_node" "nd_cfg tri_node = tri_config" "set (map fst (nd_peers tri_node)) = {tri_id 2, tri_id 3}"
  "map_of (nd_lsas tri_node) (tri_id 2) = Some (toy_announced 2 [tri_id 1, tri_id 3])"
  "map_of (nd_lsas tri_node) (tri_id 3) = Some (toy_announced 3 [tri_id 1, tri_id 2])"
  "\<And>i. i \<noteq> tri_id 1 \<Longrightarrow> i \<noteq> tri_id 2 \<Longrightarrow> i \<noteq> tri_id 3 \<Longrightarrow> map_of (nd_lsas tri_node) i = None"
proof -
  let ?one = "snd (register_peer toy toy_env (toy_end True 10 2) tri_started)"
  note ids = tri_ids tri_ids [THEN not_sym]
  have one: "toy_like 1 ?one" "nd_peers ?one = [(tri_id 2, toy_end True 10 2)]" "nd_open ?one = [10]" "nd_started ?one"
      "nd_cfg ?one = tri_config" "\<And>i. i \<noteq> tri_id 1 \<Longrightarrow> map_of (nd_lsas ?one) i = None"
    using toy_join [OF tri_started_like(1), of 2 10 ?one True] tri_started_like by (simp_all del: toy_public)
  have met: "toy_like 1 tri_met" "nd_peers tri_met = [(tri_id 2, toy_end True 10 2), (tri_id 3, toy_end True 11 3)]" "nd_started tri_met"
      "nd_cfg tri_met = tri_config" "\<And>i. i \<noteq> tri_id 1 \<Longrightarrow> map_of (nd_lsas tri_met) i = None"
    using toy_join [OF one(1), of 3 11 tri_met True] one ids by (simp_all add: tri_met_def del: toy_public)
  have two: "toy_like 1 tri_two" "nd_peers tri_two = nd_peers tri_met" "nd_started tri_two" "nd_cfg tri_two = tri_config"
      "nd_lsas tri_two = AList.update (tri_id 2) (toy_announced 2 [tri_id 1, tri_id 3]) (nd_lsas tri_met)"
    using toy_hear [OF met(1), of "tri_id 2" "toy_end True 10 2" 2 "[tri_id 1, tri_id 3]" tri_two] met ids by (simp_all add: tri_two_def del: toy_public)
  have three: "toy_like 1 tri_node" "nd_peers tri_node = nd_peers tri_met" "nd_started tri_node" "nd_cfg tri_node = tri_config"
      "nd_lsas tri_node = AList.update (tri_id 3) (toy_announced 3 [tri_id 1, tri_id 2]) (nd_lsas tri_two)"
    using toy_hear [OF two(1), of "tri_id 3" "toy_end True 11 3" 3 "[tri_id 1, tri_id 2]" tri_node] two met ids
    by (simp_all add: tri_node_def update_conv' del: toy_public)
  show "toy_like 1 tri_node" "nd_started tri_node" "nd_cfg tri_node = tri_config" "set (map fst (nd_peers tri_node)) = {tri_id 2, tri_id 3}"
    "map_of (nd_lsas tri_node) (tri_id 2) = Some (toy_announced 2 [tri_id 1, tri_id 3])"
    "map_of (nd_lsas tri_node) (tri_id 3) = Some (toy_announced 3 [tri_id 1, tri_id 2])"
    "\<And>i. i \<noteq> tri_id 1 \<Longrightarrow> i \<noteq> tri_id 2 \<Longrightarrow> i \<noteq> tri_id 3 \<Longrightarrow> map_of (nd_lsas tri_node) i = None"
    using three two met ids by (simp_all add: update_conv' del: toy_public)
qed

text \<open>All three links are mutual, so that a route between two of the nodes is the link itself.\<close>

lemma tri_linked:
  assumes "i \<in> {tri_id 1, tri_id 2, tri_id 3}" "j \<in> {tri_id 1, tri_id 2, tri_id 3}" "i \<noteq> j"
  shows "linked (advertised_of (nd_lsas tri_node)) i j"
proof -
  have reach: "node_reachable toy tri_node" and self: "nd_self tri_node = tri_id 1"
    using tri_simps(1) by (simp_all add: toy_like_def nd_self_def del: toy_public)
  note ok = node_reachable_ok [OF reach]
  obtain l where l: "map_of (nd_lsas tri_node) (tri_id 1) = Some l" "l_neighbors l = Some (sort (map node_string (peer_ids tri_node)))"
    using ok tri_simps(2) self by (auto simp: node_ok_def own_ok_def simp del: toy_public)
  have "set (peer_ids tri_node) = {tri_id 2, tri_id 3}"
    using tri_simps(4) by (simp add: peer_ids_def del: toy_public)
  then have one: "tri_id 2 \<in> set (neighbor_set (tri_id 1) l)" "tri_id 3 \<in> set (neighbor_set (tri_id 1) l)"
    using tri_ids by (auto simp: neighbor_set_def l(2) simp del: toy_public)
  have other: "set (neighbor_set (tri_id a) (toy_announced a nb)) = set nb - {tri_id a}" for a nb
    by (auto simp: neighbor_set_def toy_announced_def simp del: toy_public)
  show ?thesis
    using assms one tri_ids
    by (auto simp: linked_def advertises_def map_of_advertised l(1) tri_simps(5,6) other simp del: toy_public)
qed

lemma tri_route:
  assumes "i \<in> {tri_id 1, tri_id 2, tri_id 3}" "j \<in> {tri_id 1, tri_id 2, tri_id 3}" "i \<noteq> j"
  shows "\<exists>r. compute i (nd_lsas tri_node) j = Some r \<and> rt_path r = [i, j]"
proof -
  have w: "walk (advertised_of (nd_lsas tri_node)) i j [i, j]"
    using tri_linked [OF assms] by (simp add: walk_def)
  obtain r where r: "compute i (nd_lsas tri_node) j = Some r" "rt_hops r \<le> length [i, j] - 1"
    using assms(3) by (metis compute_shortest [OF w])
  note p = compute_path [OF r(1)]
  have "rt_hops r = length (rt_path r) - 1" by (subst p(4)) (simp add: make_route_def)
  then have "length (rt_path r) = 2" using r(2) p(5) by simp
  then obtain a b where "rt_path r = [a, b]" by (auto simp: length_Suc_conv numeral_2_eq_2)
  with p(1) r(1) show ?thesis by (simp add: walk_def)
qed

text \<open>The route from node 1 to node 2 has one hop only; the path of the circuit makes a detour over node 3.\<close>

lemma circuit_path_sound_witness: "circuit_path_to (tri_id 2) tri_node = Inr [tri_id 1, tri_id 3, tri_id 2]"
proof -
  have reach: "node_reachable toy tri_node" and self: "nd_self tri_node = tri_id 1"
    using tri_simps(1) by (simp_all add: toy_like_def nd_self_def del: toy_public)
  have routes: "nd_routes tri_node = compute (tri_id 1) (nd_lsas tri_node)"
    using node_reachable_ok [OF reach] self by (simp add: node_ok_def tables_ok_def del: toy_public)
  obtain s where s: "nd_routes tri_node (tri_id 2) = Some s" "rt_path s = [tri_id 1, tri_id 2]"
    using tri_route [of "tri_id 1" "tri_id 2"] tri_ids routes by (auto simp del: toy_public)
  have "\<exists>path. circuit_path_to (tri_id 2) tri_node = Inr path"
    by (simp add: circuit_path_to_def s Let_def split: list.split del: toy_public)
  then obtain path where path: "circuit_path_to (tri_id 2) tri_node = Inr path" by blast
  have lim: "vc_circuit_hops (cf_privacy (nd_cfg tri_node)) = 2" "rc_max_hops (cf_routing (nd_cfg tri_node)) = 16"
    by (simp_all add: tri_simps(3) tri_config_def default_config_def)
  have "\<exists>r. compute (tri_id 1) (nd_lsas tri_node) (tri_id 3) = Some r \<and> rt_path r = [tri_id 1, tri_id 3]"
    by (rule tri_route) (simp_all add: tri_ids del: toy_public)
  then obtain r1 where r1: "compute (tri_id 1) (nd_lsas tri_node) (tri_id 3) = Some r1" "rt_path r1 = [tri_id 1, tri_id 3]"
    by (elim exE conjE)
  have "\<exists>r. compute (tri_id 3) (nd_lsas tri_node) (tri_id 2) = Some r \<and> rt_path r = [tri_id 3, tri_id 2]"
    by (rule tri_route) (simp_all add: tri_ids tri_ids [THEN not_sym] del: toy_public)
  then obtain r2 where r2: "compute (tri_id 3) (nd_lsas tri_node) (tri_id 2) = Some r2" "rt_path r2 = [tri_id 3, tri_id 2]"
    by (elim exE conjE)
  note r = r1 r2
  moreover have "tri_id 3 \<in> fst ` set (nd_lsas tri_node)"
    using map_of_SomeD [OF tri_simps(6)] by (force simp del: toy_public)
  ultimately have way: "way_path tri_node (tri_id 2) (tri_id 3) [tri_id 1, tri_id 3, tri_id 2]"
    using tri_ids by (simp add: way_path_def self lim del: toy_public)
  have only: "q = [tri_id 1, tri_id 3, tri_id 2]" if q: "way_path tri_node (tri_id 2) w q" for w q
  proof -
    have "map_of (nd_lsas tri_node) w \<noteq> None" "w \<noteq> tri_id 1" "w \<noteq> tri_id 2"
      using q by (simp_all add: way_path_def self map_of_eq_None_iff del: toy_public)
    then have w: "w = tri_id 3"
      using tri_simps(7) [of w] by (cases "w = tri_id 3") (simp_all del: toy_public)
    obtain s1 s2 where s: "compute (tri_id 1) (nd_lsas tri_node) w = Some s1" "compute w (nd_lsas tri_node) (tri_id 2) = Some s2"
      and path: "q = rt_path s1 @ tl (rt_path s2)"
      using q unfolding way_path_def self by blast
    have "s1 = r1" "s2 = r2" using s r1(1) r2(1) unfolding w by (metis option.inject)+
    then show ?thesis by (simp add: path r1(2) r2(2) del: toy_public)
  qed
  have "\<exists>w. way_path tri_node (tri_id 2) w path"
    using circuit_path_sound [OF reach tri_simps(2) path] way by (auto simp: s lim simp del: toy_public split: if_splits)
  then show ?thesis using only path by blast
qed

subsection \<open>Cells in order\<close>

text \<open>The frames a cell becomes: one, or none when it cannot be written.\<close>

definition cell_frames :: "env \<Rightarrow> peer \<Rightarrow> circuit_cell \<Rightarrow> nat list \<Rightarrow> (nat \<times> byte \<times> bytes) list" where
  "cell_frames E p cell opened =
     (case cell_marshal cell of Inl e \<Rightarrow> []
      | Inr raw \<Rightarrow> if is_ok (write_frame frame_circuit raw) \<and> pr_conn p \<in> set opened \<and> en_write E (pr_conn p) = None
          then [(pr_conn p, frame_circuit, raw)] else [])"

lemma sent_cell [simp]:
  "nd_sent (snd (peer_send_circuit E p cell n)) = nd_sent n @ cell_frames E p cell (nd_open n)"
  by (simp add: cell_frames_def peer_send_circuit_def peer_send_def is_ok_iff split: sum.split option.split)

lemma sent_simps [simp]:
  "nd_sent (set_relay i rc n) = nd_sent n" "nd_open (set_relay i rc n) = nd_open n"
  "nd_sent (close_app a n) = nd_sent n" "nd_open (close_app a n) = nd_open n"
  by (simp_all add: set_relay_def close_app_def split: option.split)

lemma close_relay_open_circuit:
  assumes "\<not> rc_closed (cs_relays n ! i)" "rc_outgoing (cs_relays n ! i) = Some (out, oid)" "i < length (cs_relays n)"
  shows "rc_closed (cs_relays (close_relay E i n) ! i)"
    "map_of (cs_relay_in (close_relay E i n)) (relay_key (cs_relays n ! i)) = None"
    "cs_relay_out (close_relay E i n) = AList.delete (pr_id out, oid) (cs_relay_out n)"
    "nd_sent (close_relay E i n) = nd_sent n @ cell_frames E out (cell_of circuit_destroy oid []) (nd_open n)"
  using assms by (simp_all add: close_relay_def Let_def relay_key_def delete_conv')

text \<open>C27. A relay passes a circuit's cells on in the order of their numbers only. A cell sealed with the
  circuit's key under the number it expects is opened, and its content goes to the next hop; one under any
  other number, a replayed or reordered cell, closes the circuit: it is unregistered and the next hop is
  sent a \<open>DESTROY\<close> and nothing else.\<close>

theorem relay_passes_in_order:
  assumes "aead_ok C" "circuits_ok n" "map_of (cs_relay_in n) (pr_id p, cid) = Some i"
    and "rc_outgoing (cs_relays n ! i) = Some (out, oid)"
    and "seal_circuit_layer C (rc_fwd (cs_relays n ! i)) s plain = Inr payload"
    and "n' = handle_circuit_cell C E R p (cell_of circuit_relay cid payload) n"
  shows "if s = rc_fwd_seq (cs_relays n ! i)
    then cs_relays n' ! i = (cs_relays n ! i)\<lparr>rc_fwd_seq := s + 1\<rparr> \<and> map_of (cs_relay_in n') (pr_id p, cid) = Some i \<and>
      nd_sent n' = nd_sent n @ cell_frames E out (cell_of circuit_relay oid plain) (nd_open n)
    else rc_closed (cs_relays n' ! i) \<and> map_of (cs_relay_in n') (pr_id p, cid) = None \<and>
      nd_sent n' = nd_sent n @ cell_frames E out (cell_of circuit_destroy oid []) (nd_open n)"
proof -
  let ?rc = "cs_relays n ! i"
  have reg: "registered rc_closed relay_key (cs_relays n) (cs_relay_in n)"
    using assms(2) by (simp add: circuits_ok_def relays_ok_def)
  note i = registeredD [OF reg assms(3)]
  have k: "length (rc_fwd ?rc) = 32"
    using relay_at_good [OF relay_found(1) [OF assms(2,3)]] by (simp add: good_relay_def)
  have n': "n' = handle_forward_cell C E R i payload n"
    using assms(3) by (simp add: assms(6) handle_circuit_cell_def Let_def circuit_create_def circuit_created_def circuit_relay_def)
  show ?thesis
  proof (cases "s = rc_fwd_seq ?rc")
    case True
    then have "relay_unwrap C ?rc payload = (Inr plain, ?rc\<lparr>rc_fwd_seq := s + 1\<rparr>)"
      using open_seal_layer [OF assms(1) k assms(5)] by (simp add: relay_unwrap_def)
    then have "n' = snd (peer_send_circuit E out (cell_of circuit_relay oid plain) (set_relay i (?rc\<lparr>rc_fwd_seq := s + 1\<rparr>) n))"
      using i assms(4) by (simp add: n' handle_forward_cell_def)
    then show ?thesis using True i assms(3) by simp
  next
    case False
    obtain e where e: "open_circuit_layer C (rc_fwd ?rc) (rc_fwd_seq ?rc) payload = Inl e"
      using layer_channel.numbered [of "(C, rc_fwd ?rc)" s plain payload "rc_fwd_seq ?rc"] assms(1,5) k False
      by (auto simp: layer_good_def)
    then have "n' = close_relay E i n" using i by (simp add: n' handle_forward_cell_def relay_unwrap_def Let_def)
    then show ?thesis
      using close_relay_open_circuit [of n i out oid E] i assms(4) False by simp
  qed
qed

definition toy_forwarder :: circuit_node where
  "toy_forwarder = (init_circuits (toy_node 2))\<lparr>nd_open := [10], cs_relays := [(toy_relay 5)\<lparr>rc_outgoing := Some (toy_peer, 77)\<rparr>],
     cs_relay_in := [((pr_id toy_peer, 5), 0)]\<rparr>"

lemma toy_forwarder_at: "relay_at 0 toy_forwarder"
proof -
  have "registered rc_closed relay_key [(toy_relay 5)\<lparr>rc_outgoing := Some (toy_peer, 77)\<rparr>] [((pr_id toy_peer, 5), 0)]"
    using registered_add [of rc_closed relay_key "[]" "[]" "(toy_relay 5)\<lparr>rc_outgoing := Some (toy_peer, 77)\<rparr>"]
    by (simp add: toy_relay_def relay_key_def)
  then show ?thesis
    by (simp add: toy_forwarder_def relay_at_def circuits_ok_def relays_ok_def clients_ok_def extend_ok_def)
      (simp add: toy_relay_def good_relay_def)
qed

lemma relay_passes_in_order_witness:
  "\<exists>payload. let n' = handle_circuit_cell toy toy_env (toy_draw 1) toy_peer (cell_of circuit_relay 5 payload) toy_forwarder
    in rc_closed (cs_relays n' ! 0) \<and> map_of (cs_relay_in n') (pr_id toy_peer, 5) = None"
proof -
  let ?rc = "cs_relays toy_forwarder ! 0"
  have rc: "rc_fwd ?rc = replicate 32 5" "rc_fwd_seq ?rc = 0" "rc_outgoing ?rc = Some (toy_peer, 77)"
    "map_of (cs_relay_in toy_forwarder) (pr_id toy_peer, 5) = Some 0"
    by (simp_all add: toy_forwarder_def toy_relay_def)
  obtain payload where p: "seal_circuit_layer toy (rc_fwd ?rc) 1 [] = Inr payload"
    using seal_layer_32 [of "rc_fwd ?rc" toy 1 "[]"] rc(1) by auto
  show ?thesis
    using relay_passes_in_order [OF toy_aead_ok relay_at_ok [OF toy_forwarder_at] rc(4,3) p refl, of toy_env "toy_draw 1"] rc(2)
    by (intro exI [of _ payload]) (simp add: Let_def)
qed

subsection \<open>A circuit extended twice\<close>

text \<open>\<open>extendCircuit\<close> does not look whether another \<open>EXTEND\<close> of the circuit is waiting. When two of them
  complete, the second replaces the first as the next hop: closing the circuit then unregisters and
  destroys the second only, and the first stays in \<open>relayOut\<close> pointing to a closed circuit, its far end
  never told.\<close>

theorem second_extend_leaks:
  assumes "circuits_ok n" "x < length (cs_extends n)" "y < length (cs_extends n)" "x \<noteq> y"
    and "ex_running (cs_extends n ! x)" "ex_running (cs_extends n ! y)"
    and "ex_relay (cs_extends n ! x) = i" "ex_relay (cs_extends n ! y) = i" "\<not> rc_closed (cs_relays n ! i)"
    and "ex_result (cs_extends n ! x) = Some a" "ex_result (cs_extends n ! y) = Some b"
    and "(pr_id (ex_peer (cs_extends n ! x)), ex_id (cs_extends n ! x)) \<noteq> (pr_id (ex_peer (cs_extends n ! y)), ex_id (cs_extends n ! y))"
    and "n2 = extend_done C E y None (extend_done C E x None n)"
    and "n3 = close_relay E i n2"
  shows "rc_closed (cs_relays n3 ! i) \<and>
    map_of (cs_relay_out n3) (pr_id (ex_peer (cs_extends n ! x)), ex_id (cs_extends n ! x)) = Some i \<and>
    nd_sent n3 = nd_sent n2 @ cell_frames E (ex_peer (cs_extends n ! y)) (cell_of circuit_destroy (ex_id (cs_extends n ! y)) []) (nd_open n2)"
proof -
  have reverse: "cs_relay_out (snd (send_relay_reverse C E i cmd body m)) = cs_relay_out m"
    "cs_extends (snd (send_relay_reverse C E i cmd body m)) = cs_extends m"
    "length (cs_relays (snd (send_relay_reverse C E i cmd body m))) = length (cs_relays m)"
    "rc_closed (cs_relays (snd (send_relay_reverse C E i cmd body m)) ! i) = rc_closed (cs_relays m ! i)"
    "rc_outgoing (cs_relays (snd (send_relay_reverse C E i cmd body m)) ! i) = rc_outgoing (cs_relays m ! i)"
    if "i < length (cs_relays m)" for cmd body and m :: "'a circuit_node_scheme"
    using that by (simp_all add: send_relay_reverse_def relay_wrap_def Let_def split: sum.split)
  have fin: "let m' = extend_done C E z None m in cs_extends m' = (cs_extends m)[z := (cs_extends m ! z)\<lparr>ex_running := False\<rparr>] \<and>
      length (cs_relays m') = length (cs_relays m) \<and> \<not> rc_closed (cs_relays m' ! i) \<and>
      rc_outgoing (cs_relays m' ! i) = Some (ex_peer (cs_extends m ! z), ex_id (cs_extends m ! z)) \<and>
      cs_relay_out m' = AList.update (pr_id (ex_peer (cs_extends m ! z)), ex_id (cs_extends m ! z)) i (cs_relay_out m)"
    if "ex_running (cs_extends m ! z)" "ex_relay (cs_extends m ! z) = i" "\<not> rc_closed (cs_relays m ! i)"
      "ex_result (cs_extends m ! z) = Some c" "i < length (cs_relays m)" for z c and m :: "'a circuit_node_scheme"
    using that reverse by (simp add: extend_done_def stop_extend_def Let_def)
  have i: "i < length (cs_relays n)"
    using assms(1,2,7) nth_mem [OF assms(2)] by (auto simp: circuits_ok_def relays_ok_def extend_ok_def)
  let ?n1 = "extend_done C E x None n"
  note d1 = fin [OF assms(5,7,9,10) i, unfolded Let_def]
  have y: "cs_extends ?n1 ! y = cs_extends n ! y" using d1 assms(4) by simp
  have d2: "length (cs_relays n2) = length (cs_relays ?n1)" "\<not> rc_closed (cs_relays n2 ! i)"
      "rc_outgoing (cs_relays n2 ! i) = Some (ex_peer (cs_extends n ! y), ex_id (cs_extends n ! y))"
      "cs_relay_out n2 = AList.update (pr_id (ex_peer (cs_extends n ! y)), ex_id (cs_extends n ! y)) i (cs_relay_out ?n1)"
    using fin [of ?n1 y b, unfolded Let_def] d1 assms(6,8,11) i y by (simp_all add: assms(13))
  have "i < length (cs_relays n2)" using d1 d2(1) i by simp
  note c = close_relay_open_circuit [OF d2(2,3) this, of E]
  show ?thesis
    using c d1 d2(4) assms(12) by (simp add: assms(14) delete_conv' update_conv')
qed

definition toy_extend :: "uint64 \<Rightarrow> extend" where
  "toy_extend k = \<lparr> ex_relay = 0, ex_peer = toy_peer, ex_id = k, ex_result = Some (replicate 64 0), ex_running = True \<rparr>"

lemma second_extend_leaks_witness:
  "\<exists>n3 :: circuit_node. rc_closed (cs_relays n3 ! 0) \<and> map_of (cs_relay_out n3) (pr_id toy_peer, 7) = Some 0"
proof -
  let ?n = "(toy_forwarder)\<lparr>cs_extends := [toy_extend 7, toy_extend 8]\<rparr>"
  have "circuits_ok ?n"
    using relay_at_ok [OF toy_forwarder_at]
    by (simp add: circuits_ok_def relays_ok_def clients_ok_def extend_ok_def) (simp add: toy_forwarder_def toy_extend_def)
  moreover have "\<not> rc_closed (cs_relays ?n ! 0)" by (simp add: toy_forwarder_def toy_relay_def)
  ultimately show ?thesis
    using second_extend_leaks [of ?n 0 1 0 "replicate 64 0" "replicate 64 0" _ toy toy_env] by (simp add: toy_extend_def) blast
qed

end
