(* ===== verification/Stream_Props.thy ===== *)
theory Stream_Props
  imports Stream_Inv Directory_Props Circuit_Props
begin

section \<open>What streams promise\<close>

text \<open>
  The two ends of an opened stream hold the same keys; the stream then is a FIFO queue of the chunks the sender
  read; the receiver writes nothing that the holder of the key has not sealed for this place in the stream.
\<close>

subsection \<open>A stream is a FIFO queue\<close>

text \<open>The abstract queue: chunks on the network, chunks at the receiver, chunks written.\<close>

datatype transfer = Send bytes | Arrive | Take

fun fifo_step :: "transfer \<Rightarrow> bytes list \<times> bytes list \<times> bytes list \<Rightarrow> (bytes list \<times> bytes list \<times> bytes list) option" where
  "fifo_step (Send c) (net, inbox, out) = Some (net @ [c], inbox, out)"
| "fifo_step Arrive (c # net, inbox, out) = Some (net, inbox @ [c], out)"
| "fifo_step Take (net, c # inbox, out) = Some (net, inbox, out @ [c])"
| "fifo_step _ _ = None"

fun run_all :: "('b \<Rightarrow> 'c \<Rightarrow> 'c option) \<Rightarrow> 'b list \<Rightarrow> 'c \<Rightarrow> 'c option" where
  "run_all f [] c = Some c"
| "run_all f (a # as) c = (case f a c of None \<Rightarrow> None | Some c' \<Rightarrow> run_all f as c')"

text \<open>Two nodes and the data packets between them. A read chunk that cannot be sent ends the run.\<close>

type_synonym 'a ends = "'a stream_node_scheme \<times> 'a stream_node_scheme \<times> packet list"

definition data_packet :: "crypto \<Rightarrow> 16 barr \<Rightarrow> nat \<Rightarrow> bytes \<Rightarrow> 'a stream_node_scheme \<Rightarrow> packet option" where
  "data_packet C fresh i chunk n =
     (let s = sn_all n ! i
      in map_option (\<lambda>ct. new_packet packet_data (st_peer s) (st_id s) (st_send_seq s) ct fresh n)
           (ok_option (seal C (st_send_key s) (st_id s) (nd_self n) (st_peer s) (st_send_seq s) chunk)))"

fun stream_transfer :: "crypto \<Rightarrow> env \<Rightarrow> 16 barr \<Rightarrow> nat \<Rightarrow> nat \<Rightarrow> transfer \<Rightarrow> 'a ends \<Rightarrow> 'a ends option" where
  "stream_transfer C E fresh i j (Send chunk) (n, m, net) =
     (case data_packet C fresh i chunk n of None \<Rightarrow> None
      | Some pkt \<Rightarrow>
          if chunk \<noteq> [] \<and> st_pump (sn_all n ! i) = Pump_running \<and>
            is_ok (fst (send_packet E (handle_local_packet C E fresh) pkt
              (set_stream i ((sn_all n ! i)\<lparr>st_send_seq := st_send_seq (sn_all n ! i) + 1\<rparr>) n)))
          then Some (pump_step C E (handle_local_packet C E fresh) fresh i chunk More n, m, net @ [pkt]) else None)"
| "stream_transfer C E fresh i j Arrive (n, m, net) =
     (case net of [] \<Rightarrow> None | pkt # rest \<Rightarrow> Some (n, handle_local_packet C E fresh pkt m, rest))"
| "stream_transfer C E fresh i j Take (n, m, net) =
     (if st_incoming (sn_all m ! j) = [] then None
      else Some (n, receive_step C E (handle_local_packet C E fresh) fresh None False j m, net))"

text \<open>The two streams belong together; \<open>packets\<close> carry \<open>chunks\<close> from the receiver's counter on.\<close>

definition paired_ends :: "crypto \<Rightarrow> nat \<Rightarrow> nat \<Rightarrow> 'a stream_node_scheme \<Rightarrow> 'a stream_node_scheme \<Rightarrow> bool" where
  "paired_ends C i j n m \<longleftrightarrow> i < length (sn_all n) \<and> j < length (sn_all m) \<and> nd_self n \<noteq> nd_self m \<and>
     st_peer (sn_all n ! i) = nd_self m \<and> st_peer (sn_all m ! j) = nd_self n \<and> st_id (sn_all n ! i) = st_id (sn_all m ! j) \<and>
     st_send_key (sn_all n ! i) = st_recv_key (sn_all m ! j) \<and> length (st_recv_key (sn_all m ! j)) = 32 \<and> \<not> nd_stopped m \<and>
     map_of (sn_streams m) (st_id (sn_all m ! j)) = Some j \<and> \<not> st_done (sn_all m ! j) \<and> st_receiving (sn_all m ! j) \<and>
     st_conn (sn_all m ! j) \<notin> set (cs_app_closed m)"

fun carries :: "crypto \<Rightarrow> bytes \<Rightarrow> 16 barr \<Rightarrow> node_id \<Rightarrow> node_id \<Rightarrow> uint64 \<Rightarrow> packet list \<Rightarrow> bytes list \<Rightarrow> bool" where
  "carries C key sid src dst sq [] [] = True"
| "carries C key sid src dst sq (p # ps) (c # cs) =
     (p_kind p = packet_data \<and> p_stream_id p = sid \<and> p_src p = src \<and> p_dst p = dst \<and> p_seq p = sq \<and> c \<noteq> [] \<and>
      open_ciphertext C key sid src dst sq (p_payload p) = Inr c \<and> carries C key sid src dst (sq + 1) ps cs)"
| "carries C key sid src dst sq _ _ = False"

definition written :: "nat \<Rightarrow> 'a stream_node_scheme \<Rightarrow> bytes list" where
  "written j m = map snd (filter (\<lambda>(c, b). c = st_conn (sn_all m ! j)) (cs_app_out m))"

definition stream_sim :: "crypto \<Rightarrow> nat \<Rightarrow> nat \<Rightarrow> bytes list \<times> bytes list \<times> bytes list \<Rightarrow> 'a ends \<Rightarrow> bool" where
  "stream_sim C i j = (\<lambda>(net, inbox, out) (n, m, pkts). paired_ends C i j n m \<and> written j m = out \<and>
     carries C (st_recv_key (sn_all m ! j)) (st_id (sn_all m ! j)) (nd_self n) (nd_self m) (st_recv_seq (sn_all m ! j))
       (st_incoming (sn_all m ! j) @ pkts) (inbox @ net) \<and> length (st_incoming (sn_all m ! j)) = length inbox \<and>
     st_send_seq (sn_all n ! i) = st_recv_seq (sn_all m ! j) + of_nat (length (inbox @ net)))"

lemma carries_length: "carries C key sid src dst sq ps cs \<Longrightarrow> length ps = length cs"
  by (induction C key sid src dst sq ps cs rule: carries.induct) auto

lemma carries_head:
  "carries C key sid src dst sq (xs @ p # ps) (ys @ c # cs) \<Longrightarrow> length xs = length ys \<Longrightarrow> p_kind p = packet_data \<and> p_stream_id p = sid"
proof (induction xs arbitrary: sq ys)
  case (Cons x xs)
  then show ?case by (cases ys) auto
qed simp

lemma carries_snoc:
  "carries C key sid src dst sq ps cs \<Longrightarrow> p_kind p = packet_data \<Longrightarrow> p_stream_id p = sid \<Longrightarrow> p_src p = src \<Longrightarrow> p_dst p = dst \<Longrightarrow>
    p_seq p = sq + of_nat (length cs) \<Longrightarrow> c \<noteq> [] \<Longrightarrow> open_ciphertext C key sid src dst (p_seq p) (p_payload p) = Inr c \<Longrightarrow>
    carries C key sid src dst sq (ps @ [p]) (cs @ [c])"
  by (induction C key sid src dst sq ps cs rule: carries.induct) (auto simp: algebra_simps)

lemma set_stream_self [simp]: "nd_self (set_stream i s n) = nd_self n" "sn_all (set_stream i s n) = (sn_all n)[i := s]"
  "sn_streams (set_stream i s n) = sn_streams n" "cs_app_out (set_stream i s n) = cs_app_out n"
  "cs_app_closed (set_stream i s n) = cs_app_closed n" "nd_stopped (set_stream i s n) = nd_stopped n"
  by (simp_all add: set_stream_def nd_self_def)

lemma send_away:
  assumes "p_dst pkt \<noteq> nd_self n"
  shows "nd_self (snd (send_packet E local pkt n)) = nd_self n" "dir_node.more (snd (send_packet E local pkt n)) = dir_node.more n"
proof -
  have m: "node.more (snd (send_packet E local pkt n)) = node.more n"
    using assms by (simp add: send_packet_def split: option.split)
  show "dir_node.more (snd (send_packet E local pkt n)) = dir_node.more n" by (rule dir_more_of_node_more(2) [OF m])
  have "nd_self (snd (peer_send_packet E p pkt n)) = nd_self n" for p
    using same_send_packet(1) [of E p pkt n] by (simp add: same_tables_def nd_self_def)
  then show "nd_self (snd (send_packet E local pkt n)) = nd_self n"
    using assms by (simp add: send_packet_def split: option.split)
qed

lemma app_of_more:
  fixes m n :: "'a circuit_node_scheme"
  shows "node.more m = node.more n \<Longrightarrow> cs_app_out m = cs_app_out n" "node.more m = node.more n \<Longrightarrow> cs_app_closed m = cs_app_closed n"
  by (cases m; cases n; simp)+

lemma send_app:
  assumes "p_dst pkt \<noteq> nd_self n"
  shows "cs_app_out (snd (send_packet E local pkt n)) = cs_app_out n" "cs_app_closed (snd (send_packet E local pkt n)) = cs_app_closed n"
  by (rule app_of_more; use assms in \<open>simp add: send_packet_def split: option.split\<close>)+

lemma data_not_directory: "p_kind pkt = packet_data \<Longrightarrow> handle_local_packet C E fresh pkt m = handle_stream_packet E fresh pkt m"
  by (simp add: handle_local_packet_def handle_directory_packet_def packet_data_def packet_descriptor_put_def packet_descriptor_get_def
      packet_descriptor_response_def)

lemma data_delivered:
  "p_kind pkt = packet_data \<Longrightarrow> map_of (sn_streams m) (p_stream_id pkt) = Some j \<Longrightarrow> handle_local_packet C E fresh pkt m = deliver pkt j m"
  by (simp add: data_not_directory handle_stream_packet_def packet_data_def packet_open_def packet_open_ack_def packet_error_def packet_ready_def)

lemma pump_sent:
  assumes "data_packet C fresh i chunk n = Some pkt" "chunk \<noteq> []" "st_pump (sn_all n ! i) = Pump_running"
    and "is_ok (fst (send_packet E local pkt (set_stream i ((sn_all n ! i)\<lparr>st_send_seq := st_send_seq (sn_all n ! i) + 1\<rparr>) n)))"
  shows "pump_step C E local fresh i chunk More n =
    snd (send_packet E local pkt (set_stream i ((sn_all n ! i)\<lparr>st_send_seq := st_send_seq (sn_all n ! i) + 1\<rparr>) n))"
  using assms
  by (auto simp: data_packet_def pump_step_def pump_chunk_def Let_def is_ok_iff split: sum.splits prod.splits)

lemma sim_send:
  assumes "aead_ok C" "stream_sim C i j (net, inbox, out) (n, m, pkts)" "stream_transfer C E fresh i j (Send c) (n, m, pkts) = Some conc"
  shows "stream_sim C i j (net @ [c], inbox, out) conc"
proof -
  let ?s = "sn_all n ! i" and ?t = "sn_all m ! j"
  let ?n1 = "set_stream i (?s\<lparr>st_send_seq := st_send_seq ?s + 1\<rparr>) n"
  have sim: "paired_ends C i j n m" "written j m = out" "length (st_incoming ?t) = length inbox"
    "carries C (st_recv_key ?t) (st_id ?t) (nd_self n) (nd_self m) (st_recv_seq ?t) (st_incoming ?t @ pkts) (inbox @ net)"
    "st_send_seq ?s = st_recv_seq ?t + of_nat (length (inbox @ net))"
    using assms(2) by (simp_all add: stream_sim_def)
  obtain pkt where pkt: "data_packet C fresh i c n = Some pkt" "c \<noteq> []" "st_pump ?s = Pump_running"
    "is_ok (fst (send_packet E (handle_local_packet C E fresh) pkt ?n1))"
    and conc: "conc = (pump_step C E (handle_local_packet C E fresh) fresh i c More n, m, pkts @ [pkt])"
    using assms(3) by (auto split: option.splits if_splits)
  obtain ct where ct: "seal C (st_send_key ?s) (st_id ?s) (nd_self n) (st_peer ?s) (st_send_seq ?s) c = Inr ct"
    and p: "pkt = new_packet packet_data (st_peer ?s) (st_id ?s) (st_send_seq ?s) ct fresh n"
    using pkt(1) by (cases "seal C (st_send_key ?s) (st_id ?s) (nd_self n) (st_peer ?s) (st_send_seq ?s) c") (auto simp: data_packet_def Let_def)
  define n' where "n' = snd (send_packet E (handle_local_packet C E fresh) pkt ?n1)"
  have away: "p_dst pkt \<noteq> nd_self ?n1" using sim(1) by (auto simp: p new_packet_def paired_ends_def)
  have n': "pump_step C E (handle_local_packet C E fresh) fresh i c More n = n'" unfolding n'_def by (rule pump_sent [OF pkt])
  have all: "sn_all n' = (sn_all n)[i := ?s\<lparr>st_send_seq := st_send_seq ?s + 1\<rparr>]" "nd_self n' = nd_self n"
    using send_away [OF away, of E "handle_local_packet C E fresh"] sn_of_more(1) [of n' ?n1] by (simp_all add: n'_def)
  have i: "i < length (sn_all n)" using sim(1) by (simp add: paired_ends_def)
  have "open_ciphertext C (st_recv_key ?t) (st_id ?t) (nd_self n) (nd_self m) (st_send_seq ?s) ct = Inr c"
    using stream_channel.open_seal [of "(C, st_send_key ?s, st_id ?s, nd_self n, st_peer ?s)" "st_send_seq ?s" c ct] ct assms(1) sim(1)
    by (simp add: stream_good_def paired_ends_def)
  then have "carries C (st_recv_key ?t) (st_id ?t) (nd_self n) (nd_self m) (st_recv_seq ?t) ((st_incoming ?t @ pkts) @ [pkt]) ((inbox @ net) @ [c])"
    using sim(1,5) pkt(2) by (intro carries_snoc [OF sim(4)]) (simp_all add: p new_packet_def paired_ends_def)
  moreover have "paired_ends C i j n' m" using sim(1) i by (simp add: paired_ends_def all)
  ultimately show ?thesis
    using sim(2,3,5) i by (simp add: stream_sim_def conc n' all add.assoc)
qed

lemma sim_arrive:
  assumes "stream_sim C i j (net, inbox, out) (n, m, pkts)" "stream_transfer C E fresh i j Arrive (n, m, pkts) = Some conc"
  shows "\<exists>net' inbox'. fifo_step Arrive (net, inbox, out) = Some (net', inbox', out) \<and> stream_sim C i j (net', inbox', out) conc"
proof -
  let ?t = "sn_all m ! j"
  have sim: "paired_ends C i j n m" "written j m = out" "length (st_incoming ?t) = length inbox"
    "carries C (st_recv_key ?t) (st_id ?t) (nd_self n) (nd_self m) (st_recv_seq ?t) (st_incoming ?t @ pkts) (inbox @ net)"
    "st_send_seq (sn_all n ! i) = st_recv_seq ?t + of_nat (length (inbox @ net))"
    using assms(1) by (simp_all add: stream_sim_def)
  obtain pkt rest where pkts: "pkts = pkt # rest" and conc: "conc = (n, handle_local_packet C E fresh pkt m, rest)"
    using assms(2) by (cases pkts) auto
  obtain c net' where net: "net = c # net'" using carries_length [OF sim(4)] sim(3) pkts by (cases net) auto
  have "p_kind pkt = packet_data \<and> p_stream_id pkt = st_id ?t"
    using carries_head [OF sim(4) [unfolded pkts net]] sim(3) by simp
  then have h: "handle_local_packet C E fresh pkt m = deliver pkt j m"
    using sim(1) by (intro data_delivered) (simp_all add: paired_ends_def)
  have d: "deliver pkt j m = set_stream j (?t\<lparr>st_incoming := st_incoming ?t @ [pkt]\<rparr>) m" "j < length (sn_all m)"
    using sim(1) by (simp_all add: deliver_def Let_def paired_ends_def)
  have "paired_ends C i j n (deliver pkt j m)" using sim(1) d(2) by (simp add: paired_ends_def d(1))
  moreover have "written j (deliver pkt j m) = out" using sim(2) d(2) by (simp add: written_def d(1))
  ultimately show ?thesis
    using sim(3,4,5) d(2) by (simp add: net pkts stream_sim_def conc h d(1))
qed

lemma sim_take:
  assumes "stream_sim C i j (net, inbox, out) (n, m, pkts)" "stream_transfer C E fresh i j Take (n, m, pkts) = Some conc"
  shows "\<exists>inbox' out'. fifo_step Take (net, inbox, out) = Some (net, inbox', out') \<and> stream_sim C i j (net, inbox', out') conc"
proof -
  let ?t = "sn_all m ! j"
  have sim: "paired_ends C i j n m" "written j m = out" "length (st_incoming ?t) = length inbox"
    "carries C (st_recv_key ?t) (st_id ?t) (nd_self n) (nd_self m) (st_recv_seq ?t) (st_incoming ?t @ pkts) (inbox @ net)"
    "st_send_seq (sn_all n ! i) = st_recv_seq ?t + of_nat (length (inbox @ net))"
    using assms(1) by (simp_all add: stream_sim_def)
  obtain pkt rest where inc: "st_incoming ?t = pkt # rest"
    and conc: "conc = (n, receive_step C E (handle_local_packet C E fresh) fresh None False j m, pkts)"
    using assms(2) by (cases "st_incoming ?t") auto
  obtain c inbox' where inbox: "inbox = c # inbox'" using sim(3) inc by (cases inbox) auto
  have p: "p_src pkt = nd_self n" "p_dst pkt = nd_self m" "p_seq pkt = st_recv_seq ?t" "c \<noteq> []"
    "open_ciphertext C (st_recv_key ?t) (st_id ?t) (nd_self n) (nd_self m) (st_recv_seq ?t) (p_payload pkt) = Inr c"
    and rest: "carries C (st_recv_key ?t) (st_id ?t) (nd_self n) (nd_self m) (st_recv_seq ?t + 1) (rest @ pkts) (inbox' @ net)"
    using sim(4) by (auto simp: inc inbox)
  let ?t' = "?t\<lparr>st_incoming := rest, st_recv_seq := st_recv_seq ?t + 1\<rparr>"
  define m' where "m' = (set_stream j ?t' m)\<lparr>cs_app_out := cs_app_out m @ [(st_conn ?t, c)]\<rparr>"
  have j: "j < length (sn_all m)" using sim(1) by (simp add: paired_ends_def)
  have "receive_step C E (handle_local_packet C E fresh) fresh None False j m = m'"
    using sim(1) j p
    by (simp add: receive_step_def Let_def inc receive_packet_def paired_ends_def write_conn_def m'_def set_stream_def)
  moreover have m': "sn_all m' = (sn_all m)[j := ?t']" "nd_self m' = nd_self m" "sn_streams m' = sn_streams m" "nd_stopped m' = nd_stopped m"
    "cs_app_closed m' = cs_app_closed m" "cs_app_out m' = cs_app_out m @ [(st_conn ?t, c)]"
    by (simp_all add: m'_def set_stream_def nd_self_def)
  moreover have "paired_ends C i j n m'" using sim(1) j by (simp add: paired_ends_def m')
  moreover have "written j m' = out @ [c]" using sim(2) j by (simp add: written_def m')
  ultimately show ?thesis
    using sim(3,5) rest j by (simp add: inbox inc stream_sim_def conc algebra_simps)
qed

text \<open>C5. An opened stream is a FIFO queue: in every run of sending, delivering and receiving, in any
  interleaving, the chunks written to the receiver's connection are the chunks read at the sender, complete, in
  order and once, and the receiver never closes the stream.\<close>

theorem stream_refines_fifo:
  assumes "aead_ok C" "stream_sim C i j queue conc" "run_all (stream_transfer C E fresh i j) acts conc = Some conc'"
  shows "\<exists>queue'. run_all fifo_step acts queue = Some queue' \<and> stream_sim C i j queue' conc'"
  using assms(2,3)
proof (induction acts arbitrary: queue conc)
  case (Cons a acts)
  obtain net inbox out where q: "queue = (net, inbox, out)" by (cases queue)
  obtain n m pkts where c: "conc = (n, m, pkts)" by (cases conc)
  obtain conc1 where step: "stream_transfer C E fresh i j a conc = Some conc1" "run_all (stream_transfer C E fresh i j) acts conc1 = Some conc'"
    using Cons.prems(2) by (auto split: option.splits)
  obtain queue1 where "fifo_step a queue = Some queue1" "stream_sim C i j queue1 conc1"
  proof (cases a)
    case (Send chunk)
    show ?thesis
      using sim_send [OF assms(1) Cons.prems(1) [unfolded q c], of E fresh chunk conc1] step(1) that by (simp add: Send q c)
  next
    case Arrive
    show ?thesis
      using sim_arrive [OF Cons.prems(1) [unfolded q c], of E fresh conc1] step(1) that unfolding Arrive q c by blast
  next
    case Take
    show ?thesis
      using sim_take [OF Cons.prems(1) [unfolded q c], of E fresh conc1] step(1) that unfolding Take q c by blast
  qed
  with Cons.IH [OF _ step(2)] show ?case by simp
qed simp

definition toy_sender :: stream_node where
  "toy_sender = (init_streams toy_looker)\<lparr>sn_all := [(start_pump (start_receiver (new_stream (arr_of [7]) (id_node (toy_identity 2)) 50 True
     (replicate 32 5) (replicate 32 6))))]\<rparr>"

definition toy_receiver :: stream_node where
  "toy_receiver = (init_streams (toy_dir_node (init_circuits (toy_node 2))))\<lparr>
     sn_all := [start_receiver (new_stream (arr_of [7]) (id_node (toy_identity 1)) 60 False (replicate 32 6) (replicate 32 5))],
     sn_streams := [(arr_of [7], 0)]\<rparr>"

lemma init_streams_simps [simp]:
  "nd_self (init_streams n) = nd_self n" "nd_open (init_streams n) = nd_open n" "nd_peers (init_streams n) = nd_peers n"
  "nd_routes (init_streams n) = nd_routes n" "nd_stopped (init_streams n) = nd_stopped n" "cs_app_closed (init_streams n) = cs_app_closed n"
  "sn_pending (init_streams n) = []" "sn_openings (init_streams n) = []" "sn_replies (init_streams n) = []" "sn_requests (init_streams n) = []"
  "nd_id (init_streams n) = nd_id n" "cs_app_out (init_streams n) = cs_app_out n" "nd_cfg (init_streams n) = nd_cfg n" "sn_all (init_streams n) = []" "sn_streams (init_streams n) = []"
  by (simp_all add: init_streams_def nd_self_def node.defs circuit_node.defs dir_node.defs stream_node.defs)

lemma toy_base_simps:
  "nd_self (toy_dir_node (init_circuits (toy_node k))) = id_node (toy_identity k)" "\<not> nd_stopped (toy_dir_node (init_circuits (toy_node k)))"
  "cs_app_closed (toy_dir_node (init_circuits (toy_node k))) = []" "cs_app_out (toy_dir_node (init_circuits (toy_node k))) = []"
  by (simp_all add: toy_dir_node_def init_circuits_def nd_self_def node.defs circuit_node.defs dir_node.defs toy_node_def)

lemma toy_ends:
  "nd_self toy_sender = id_node (toy_identity 1)" "nd_self toy_receiver = id_node (toy_identity 2)" "\<not> nd_stopped toy_receiver"
  "cs_app_closed toy_receiver = []" "cs_app_out toy_receiver = []"
  by (simp_all add: toy_sender_def toy_receiver_def nd_self_def [symmetric] toy_looker_simps toy_base_simps del: toy_public)
    (simp_all add: nd_self_def toy_looker_simps toy_base_simps [unfolded nd_self_def] toy_looker_simps [unfolded nd_self_def] init_streams_simps(1) [unfolded nd_self_def] del: toy_public)

lemma toy_sim: "stream_sim toy 0 0 ([], [], []) (toy_sender, toy_receiver, [])"
  using toy_ids_differ
  by (simp add: stream_sim_def paired_ends_def toy_ends written_def del: toy_public)
    (simp add: toy_sender_def toy_receiver_def new_stream_def start_receiver_def start_pump_def del: toy_public)

lemma transfer_progress:
  assumes "stream_sim C i j queue conc" "fifo_step a queue = Some queue'" "\<And>c. a \<noteq> Send c"
  shows "\<exists>conc'. stream_transfer C E fresh i j a conc = Some conc'"
proof -
  obtain net inbox out n m pkts where q: "queue = (net, inbox, out)" "conc = (n, m, pkts)" by (cases queue; cases conc) auto
  have c: "carries C (st_recv_key (sn_all m ! j)) (st_id (sn_all m ! j)) (nd_self n) (nd_self m) (st_recv_seq (sn_all m ! j))
      (st_incoming (sn_all m ! j) @ pkts) (inbox @ net)" and l1: "length (st_incoming (sn_all m ! j)) = length inbox"
    using assms(1) by (simp_all add: q stream_sim_def)
  have l: "length (st_incoming (sn_all m ! j)) = length inbox" "length pkts = length net"
    using carries_length [OF c] l1 by simp_all
  show ?thesis
    using assms(2,3) l by (cases a; cases net; cases inbox; cases pkts) (auto simp: q)
qed

lemma toy_sends:
  "\<exists>conc'. stream_transfer toy toy_env (arr_of []) 0 0 (Send [1]) (toy_sender, toy_receiver, []) = Some conc'"
proof -
  let ?s = "sn_all toy_sender ! 0"
  let ?n1 = "set_stream 0 (?s\<lparr>st_send_seq := st_send_seq ?s + 1\<rparr>) toy_sender"
  have s: "st_peer ?s = id_node (toy_identity 2)" "st_pump ?s = Pump_running" "st_send_key ?s = replicate 32 5"
    by (simp_all add: toy_sender_def new_stream_def start_receiver_def start_pump_def del: toy_public)
  obtain ct where ct: "seal toy (st_send_key ?s) (st_id ?s) (nd_self toy_sender) (st_peer ?s) (st_send_seq ?s) [1] = Inr ct" "length ct \<le> 1000"
    by (simp add: seal_def new_aead_def s(3) toy_def)
  then have p: "data_packet toy (arr_of []) 0 [1] toy_sender =
      Some (new_packet packet_data (id_node (toy_identity 2)) (st_id ?s) (st_send_seq ?s) ct (arr_of []) toy_sender)"
    by (simp add: data_packet_def Let_def s(1) del: toy_public)
  have "is_ok (fst (send_packet toy_env (handle_local_packet toy toy_env (arr_of []))
      (new_packet packet_data (id_node (toy_identity 2)) (st_id ?s) (st_send_seq ?s) ct (arr_of []) toy_sender) ?n1))"
  proof -
    have n1: "nd_self ?n1 = id_node (toy_identity 1)" "nd_open ?n1 = [10]" "nd_peers ?n1 = nd_peers toy_looker" "nd_routes ?n1 = nd_routes toy_looker"
      by (simp_all add: toy_ends set_stream_def toy_sender_def toy_looker_simps del: toy_public)
        (simp_all add: nd_self_def toy_looker_simps [unfolded nd_self_def] init_streams_simps(1) [unfolded nd_self_def] del: toy_public)
    show ?thesis
      using ct(2) toy_ids_differ
      by (simp add: send_packet_def new_packet_def n1 toy_looker_simps make_route_def peer_send_packet_def packet_marshal_def protocol_version_def
          peer_send_def write_frame_def max_frame_size_def toy_peer_simps toy_env_def del: toy_public)
  qed
  then show ?thesis by (simp add: p s(2) del: toy_public)
qed

lemma stream_refines_fifo_witness:
  "\<exists>conc'. run_all (stream_transfer toy toy_env (arr_of []) 0 0) [Send [1], Arrive, Take] (toy_sender, toy_receiver, []) = Some conc' \<and>
     written 0 (fst (snd conc')) = [[1]]"
proof -
  obtain c1 where c1: "stream_transfer toy toy_env (arr_of []) 0 0 (Send [1]) (toy_sender, toy_receiver, []) = Some c1"
    using toy_sends by blast
  have s1: "stream_sim toy 0 0 ([[1]], [], []) c1" using sim_send [OF toy_aead_ok toy_sim c1] by simp
  obtain c2 where c2: "stream_transfer toy toy_env (arr_of []) 0 0 Arrive c1 = Some c2"
    using transfer_progress [OF s1, of Arrive "([], [[1]], [])" toy_env "arr_of []"] by auto
  have s2: "stream_sim toy 0 0 ([], [[1]], []) c2" using sim_arrive [of toy 0 0 "[[1]]" "[]" "[]" "fst c1" "fst (snd c1)" "snd (snd c1)"] s1 c2 by simp
  obtain c3 where c3: "stream_transfer toy toy_env (arr_of []) 0 0 Take c2 = Some c3"
    using transfer_progress [OF s2, of Take "([], [], [[1]])" toy_env "arr_of []"] by auto
  have r: "run_all (stream_transfer toy toy_env (arr_of []) 0 0) [Send [1], Arrive, Take] (toy_sender, toy_receiver, []) = Some c3"
    by (simp only: run_all.simps c1 c2 c3 option.case)
  show ?thesis
    using stream_refines_fifo [OF toy_aead_ok toy_sim r] by (intro exI [of _ c3] conjI r) (cases c3, simp add: stream_sim_def)
qed

subsection \<open>What the receiver accepts\<close>

lemma end_receiver_simps:
  "cs_app_out (end_receiver j k) = cs_app_out k" "cs_app_closed (end_receiver j k) = cs_app_closed k" "sn_streams (end_receiver j k) = sn_streams k"
  "st_done (sn_all (end_receiver j k) ! j) = st_done (sn_all k ! j)"
  by (simp_all add: end_receiver_def) (cases "j < length (sn_all k)"; simp add: list_update_beyond)

text \<open>C6. A receiver writes to its connection only what the holder of the stream's key sealed for the next place
  in the stream, from the stream's peer; any other packet is not written, and closes the stream: it is marked
  done, its connection is closed and its identifier is free again.\<close>

theorem receiver_authentic:
  assumes "aead_ok C" "all_ok C n" "j < length (sn_all n)" "st_receiving (sn_all n ! j)" "st_incoming (sn_all n ! j) = pkt # rest"
    and "\<not> st_done (sn_all n ! j)" "st_conn (sn_all n ! j) \<notin> set (cs_app_closed n)" "p_dst pkt = nd_self n" "st_peer (sn_all n ! j) \<noteq> nd_self n"
    and "m = receive_step C E local fresh None False j n"
  shows "(\<exists>plain. p_src pkt = st_peer (sn_all n ! j) \<and> p_seq pkt = st_recv_seq (sn_all n ! j) \<and>
      seal C (st_recv_key (sn_all n ! j)) (st_id (sn_all n ! j)) (st_peer (sn_all n ! j)) (nd_self n) (p_seq pkt) plain = Inr (p_payload pkt) \<and>
      cs_app_out m = cs_app_out n @ (if plain = [] then [] else [(st_conn (sn_all n ! j), plain)]) \<and>
      st_recv_seq (sn_all m ! j) = st_recv_seq (sn_all n ! j) + 1) \<or>
    (cs_app_out m = cs_app_out n \<and> st_done (sn_all m ! j) \<and> st_conn (sn_all n ! j) \<in> set (cs_app_closed m) \<and>
      map_of (sn_streams m) (st_id (sn_all n ! j)) \<noteq> Some j)"
proof -
  let ?s = "sn_all n ! j"
  define n1 where "n1 = set_stream j (?s\<lparr>st_incoming := rest\<rparr>) n"
  have s1: "sn_all n1 ! j = ?s\<lparr>st_incoming := rest\<rparr>" "nd_self n1 = nd_self n" "cs_app_out n1 = cs_app_out n" "cs_app_closed n1 = cs_app_closed n"
    "sn_streams n1 = sn_streams n" "length (sn_all n1) = length (sn_all n)"
    using assms(3) by (simp_all add: n1_def)
  have d: "distinct (map fst (sn_streams n))" "length (st_recv_key ?s) = 32"
    using assms(2) good_nth [of n j] assms(3) by (auto simp: all_ok_def streams_ok_def table_ok_def good_stream_def)
  have closes: "cs_app_out (close_stream E local fresh j e True k) = cs_app_out n \<and> st_done (sn_all (close_stream E local fresh j e True k) ! j) \<and>
      st_conn ?s \<in> set (cs_app_closed (close_stream E local fresh j e True k)) \<and>
      map_of (sn_streams (close_stream E local fresh j e True k)) (st_id ?s) \<noteq> Some j"
    if k: "sn_all k ! j = sn_all n1 ! j" "nd_self k = nd_self n" "cs_app_out k = cs_app_out n" "sn_streams k = sn_streams n" "length (sn_all k) = length (sn_all n)"
    for k e
  proof -
    let ?k = "notified E local fresh j e True k"
    have more: "dir_node.more ?k = dir_node.more k" "cs_app_out ?k = cs_app_out k"
      using send_away [of "new_packet packet_close (st_peer ?s) (st_id ?s) 0 (marshal (close_message_json e)) fresh k" k E local]
        send_app [of "new_packet packet_close (st_peer ?s) (st_id ?s) 0 (marshal (close_message_json e)) fresh k" k E local] assms(9) k(1,2) s1(1)
      by (simp_all add: notified_def new_packet_def)
    have st: "sn_all ?k = sn_all k" "sn_streams ?k = sn_streams k" using sn_of_more [OF more(1)] by simp_all
    have "close_stream E local fresh j e True k = end_stream j (close_app (Some (st_conn (sn_all k ! j))) ?k)"
      by (rule close_stream_alt) (use st k(1) s1(1) assms(6) in simp_all)
    then show ?thesis
      using k s1(1) st more(2) assms(3) d(1)
      by (auto simp: end_stream_def set_stream_def Let_def close_app_def delete_conv')
  qed
  have refused: ?thesis if "receive_packet C None j pkt n1 = (Some e, n1)" for e
  proof -
    have "m = end_receiver j (close_stream E local fresh j e True n1)"
      using that assms(4,5,10) by (simp add: receive_step_def Let_def n1_def)
    then show ?thesis using closes [OF refl s1(2,3,5,6), of e] by (simp add: end_receiver_simps)
  qed
  have r: "receive_packet C None j pkt n1 =
      (if p_src pkt \<noteq> st_peer ?s then (Some ''stream source changed'', n1)
       else if p_seq pkt \<noteq> st_recv_seq ?s
       then (Some (''out-of-order stream packet: got '' @ show_nat (unat (p_seq pkt)) @ '', expected '' @ show_nat (unat (st_recv_seq ?s))), n1)
       else (case open_ciphertext C (st_recv_key ?s) (st_id ?s) (p_src pkt) (p_dst pkt) (p_seq pkt) (p_payload pkt) of
           Inl e \<Rightarrow> (Some e, n1)
         | Inr plain \<Rightarrow> (None, snd (write_conn None (st_conn ?s) plain (set_stream j (?s\<lparr>st_incoming := rest, st_recv_seq := st_recv_seq ?s + 1\<rparr>) n1)))))"
    using assms(7) s1(4) by (simp add: receive_packet_def Let_def s1(1) write_conn_def split: sum.split)
  show ?thesis
  proof (cases "p_src pkt = st_peer ?s \<and> p_seq pkt = st_recv_seq ?s")
    case True
    show ?thesis
    proof (cases "open_ciphertext C (st_recv_key ?s) (st_id ?s) (p_src pkt) (p_dst pkt) (p_seq pkt) (p_payload pkt)")
      case (Inr plain)
      have "m = snd (write_conn None (st_conn ?s) plain (set_stream j (?s\<lparr>st_incoming := rest, st_recv_seq := st_recv_seq ?s + 1\<rparr>) n1))"
        using True Inr r assms(4,5,10) by (simp add: receive_step_def Let_def flip: n1_def)
      then have "cs_app_out m = cs_app_out n @ (if plain = [] then [] else [(st_conn ?s, plain)])" "st_recv_seq (sn_all m ! j) = st_recv_seq ?s + 1"
        using assms(3,7) s1 by (simp_all add: write_conn_def)
      moreover have "seal C (st_recv_key ?s) (st_id ?s) (st_peer ?s) (nd_self n) (p_seq pkt) plain = Inr (p_payload pkt)"
        using stream_channel.open_only [of "(C, st_recv_key ?s, st_id ?s, p_src pkt, p_dst pkt)" "p_seq pkt" "p_payload pkt" plain] assms(1,8) d(2) Inr True
        by (simp add: stream_good_def)
      ultimately show ?thesis using True by blast
    qed (use refused True r in simp)
  qed (use refused r in \<open>auto split: if_splits\<close>)
qed

lemma toy_receiver_ok: "streams_ok toy_receiver"
  by (simp add: streams_ok_def table_ok_def toy_receiver_def good_stream_def new_stream_def start_receiver_def replies_fit_def)

lemma toy_base_ok: "all_ok C (init_streams (toy_dir_node (init_circuits (toy_node k))))"
proof (rule init_streams_ok)
  show "node_ok (toy_dir_node (init_circuits (toy_node k)))"
    using node_reachable_ok [OF toy_reachable [of k]] node_ok_truncate [of "toy_dir_node (init_circuits (toy_node k))"]
      node_ok_truncate [of "init_circuits (toy_node k)"] by (simp add: toy_dir_node_def init_truncate)
  show "circuits_ok (toy_dir_node (init_circuits (toy_node k)))"
    using init_circuits_ok [of "toy_node k"] circuits_ok_truncate [of "toy_dir_node (init_circuits (toy_node k))"]
    by (simp add: toy_dir_node_def init_truncate)
qed (simp add: dir_ok_def)

text \<open>A receiver with a packet of the wrong number.\<close>

definition toy_late :: stream_node where
  "toy_late = toy_receiver\<lparr>sn_all := [(sn_all toy_receiver ! 0)\<lparr>st_incoming :=
     [new_packet packet_data (id_node (toy_identity 2)) (arr_of [7]) 3 [] (arr_of []) (toy_node 1)]\<rparr>]\<rparr>"

lemma toy_receiver_all_ok: "all_ok toy toy_receiver"
proof -
  have "apart toy_receiver (init_streams (toy_dir_node (init_circuits (toy_node 2))))"
    by (simp add: toy_receiver_def apart_defs)
  from apart_ok [OF this] show ?thesis using toy_base_ok [of toy 2] toy_receiver_ok by (simp add: all_ok_def)
qed

lemma toy_late_ok: "all_ok toy toy_late"
proof -
  have "apart toy_late (init_streams (toy_dir_node (init_circuits (toy_node 2))))"
    by (simp add: toy_late_def toy_receiver_def apart_defs)
  from apart_ok [OF this] show ?thesis
    using toy_base_ok [of toy 2] toy_receiver_ok
    by (simp add: all_ok_def) (simp add: streams_ok_def toy_late_def table_ok_def toy_receiver_def good_stream_def new_stream_def start_receiver_def)
qed

lemma receiver_authentic_witness:
  "st_done (sn_all (receive_step toy toy_env (handle_local_packet toy toy_env (arr_of [])) (arr_of []) None False 0 toy_late) ! 0)"
proof -
  have s: "0 < length (sn_all toy_late)" "st_receiving (sn_all toy_late ! 0)" "\<not> st_done (sn_all toy_late ! 0)"
    "st_incoming (sn_all toy_late ! 0) = [new_packet packet_data (id_node (toy_identity 2)) (arr_of [7]) 3 [] (arr_of []) (toy_node 1)]"
    "st_peer (sn_all toy_late ! 0) = id_node (toy_identity 1)" "st_recv_seq (sn_all toy_late ! 0) = 0"
    by (simp_all add: toy_late_def toy_receiver_def new_stream_def start_receiver_def del: toy_public)
  have n: "cs_app_closed toy_late = []" "nd_self toy_late = id_node (toy_identity 2)"
    using toy_ends(2,4) by (simp_all add: toy_late_def nd_self_def)
  show ?thesis
    using receiver_authentic [OF toy_aead_ok toy_late_ok s(1,2,4,3) _ _ _ refl, where local = "handle_local_packet toy toy_env (arr_of [])" and E = toy_env and fresh = "arr_of []"]
      n s(5,6) toy_ids_differ
    by (auto simp: new_packet_def simp del: toy_public)
qed

subsection \<open>Opening\<close>

lemma request_target_simps:
  assumes "request_target C R name src n = (r, m)"
  shows "sn_all m = sn_all n" "sn_streams m = sn_streams n" "sn_replies m = sn_replies n" "nd_id m = nd_id n" "nd_self m = nd_self n"
  using assms by (auto simp: request_target_def internal_service_def nd_self_def split: option.splits if_splits sum.splits)

text \<open>C7. Opening a stream: when the request that \<open>openWithConn\<close> signed reaches a node that finds the service and
  has no stream of this identifier, that node registers a stream to the sender and answers; with the answer
  the sender accepts the stream, and each end sends with the key with which the other receives.\<close>

theorem stream_open_agrees:
  assumes "good_identity C (nd_id n)" "good_identity C (nd_id m)" "dh_ok C" "length (dw_nonce R) = 32" "length (dw_nonce R') = 32"
    and "is_ok (shared_secret C (dw_private R) (x_public C (dw_private R')))"
    and "op_key op = new_ephemeral_key C (dw_private R)" "op_nonce op = dw_nonce R" "op_dst op = nd_self m"
    and "p_payload pkt = marshal (open_request_json (sign_open_request C (nd_id n) (op_id op) (nd_self m) (op_service op)
        (ek_public (op_key op)) (dw_nonce R) t))"
    and "p_src pkt = nd_self n" "p_stream_id pkt = op_id op" "\<not> outside_window 180 (unix (en_now E)) (unix t)"
    and "request_target C R' (op_service op) (nd_self n) (m\<lparr>sn_requests := remove1 pkt (sn_requests m)\<rparr>) = (Inr c, m1)"
    and "map_of (sn_streams m) (op_id op) = None" "\<not> outside_window 180 (unix (en_now E')) (unix (en_now E))"
    and "m2 = handle_open C E R' fresh pkt m"
  shows "\<exists>j s ack. map_of (sn_streams m2) (op_id op) = Some j \<and> \<not> st_done (sn_all m2 ! j) \<and> st_peer (sn_all m2 ! j) = nd_self n \<and>
    st_conn (sn_all m2 ! j) = c \<and>
    p_payload (rp_packet (last (sn_replies m2))) = marshal (open_ack_json ack) \<and> p_dst (rp_packet (last (sn_replies m2))) = nd_self n \<and>
    accept_ack C E' op (Opened_ack ack (nd_self m)) n = Inr s \<and> st_peer s = nd_self m \<and> st_id s = st_id (sn_all m2 ! j) \<and>
    st_send_key s = st_recv_key (sn_all m2 ! j) \<and> st_recv_key s = st_send_key (sn_all m2 ! j) \<and>
    st_send_seq s = st_recv_seq (sn_all m2 ! j) \<and> st_recv_seq s = st_send_seq (sn_all m2 ! j)"
proof -
  let ?req = "sign_open_request C (nd_id n) (op_id op) (nd_self m) (op_service op) (ek_public (op_key op)) (dw_nonce R) t"
  let ?ack = "sign_open_ack C (nd_id m) (op_id op) (nd_self n) (x_public C (dw_private R')) (dw_nonce R') (en_now E)"
  have eph: "ek_public (op_key op) = x_public C (dw_private R)" "ek_private (op_key op) = dw_private R"
    by (simp_all add: assms(7) new_ephemeral_key_def)
  obtain sh where sh: "shared_secret C (dw_private R) (x_public C (dw_private R')) = Inr sh" using assms(6) by (auto simp: is_ok_iff)
  then have sh': "shared_secret C (dw_private R') (x_public C (dw_private R)) = Inr sh" using shared_secret_agree [OF assms(3)] by metis
  obtain c2s s2c where keys: "derive_session_keys C sh (dw_nonce R) (dw_nonce R') (op_id op) (nd_self n) (nd_self m) = (c2s, s2c)" by fastforce
  have vr: "verify_open_request C ?req (op_id op) (nd_self n) (nd_self m) (en_now E) = Inr (x_public C (dw_private R), dw_nonce R)"
    using verify_signed_request [OF assms(1) _ assms(4,13)] dh_okD(1) [OF assms(3)] by (simp add: eph(1) nd_self_def)
  have va: "verify_open_ack C ?ack (op_id op) (nd_self n) (nd_self m) (en_now E') = Inr (x_public C (dw_private R'), dw_nonce R')"
    using verify_signed_ack [OF assms(2) _ assms(5,16)] dh_okD(1) [OF assms(3)] by (simp add: nd_self_def)
  note m1 = request_target_simps [OF assms(14)]
  let ?s = "start_receiver (new_stream (op_id op) (nd_self n) c False s2c c2s)"
  have "request_keys C R' pkt (x_public C (dw_private R)) (dw_nonce R) m1 = Inr (c2s, s2c)"
    using keys m1(5) by (simp add: request_keys_def new_ephemeral_key_def sh' assms(11,12) nd_self_def)
  then have m2: "m2 = accept_request C E R' fresh pkt ?req c (c2s, s2c) m1"
    using vr assms(14) by (simp add: assms(10,11,12,17) handle_open_def Let_def open_messages_roundtrip nd_self_def)
  have st: "sn_all m2 = sn_all m @ [?s]" "sn_streams m2 = AList.update (op_id op) (length (sn_all m)) (sn_streams m)"
    "p_payload (rp_packet (last (sn_replies m2))) = marshal (open_ack_json ?ack)" "p_dst (rp_packet (last (sn_replies m2))) = nd_self n"
    using assms(15) m1 by (simp_all add: m2 accept_request_def Let_def push_reply_def new_packet_def assms(11,12))
  have "accept_ack C E' op (Opened_ack ?ack (nd_self m)) n = Inr (new_stream (op_id op) (nd_self m) (op_conn op) True c2s s2c)"
    using va sh keys by (simp add: accept_ack_def assms(8,9) eph(2))
  then show ?thesis
    by (intro exI [of _ "length (sn_all m)"] exI [of _ "new_stream (op_id op) (nd_self m) (op_conn op) True c2s s2c"] exI [of _ ?ack])
      (simp add: st update_conv' start_receiver_def new_stream_def)
qed

definition toy_opening :: stream_opening where
  "toy_opening = \<lparr> op_dst = id_node (toy_identity 2), op_service = ''kr-rendezvous'', op_conn = 50, op_id = arr_of [7],
     op_key = new_ephemeral_key toy (dw_private (toy_draw 1)), op_nonce = dw_nonce (toy_draw 1), op_result = None \<rparr>"

definition toy_fresh :: "byte \<Rightarrow> stream_node" where
  "toy_fresh k = init_streams (toy_dir_node (init_circuits (toy_node k)))"

lemma toy_fresh_simps: "nd_self (toy_fresh k) = id_node (toy_identity k)" "nd_id (toy_fresh k) = toy_identity k"
  "sn_streams (toy_fresh k) = []"
  using toy_base_simps(1) [of k]
  by (simp_all add: toy_fresh_def toy_dir_node_def init_circuits_def node.defs circuit_node.defs dir_node.defs toy_node_def del: toy_public)

lemma stream_open_agrees_witness:
  "\<exists>j s ack. map_of (sn_streams (handle_open toy toy_env (toy_draw 3) (arr_of [])
      (new_packet packet_open (id_node (toy_identity 2)) (arr_of [7]) 0 (marshal (open_request_json (sign_open_request toy (toy_identity 1) (arr_of [7])
        (id_node (toy_identity 2)) ''kr-rendezvous'' (ek_public (op_key toy_opening)) (dw_nonce (toy_draw 1)) 0))) (arr_of []) (toy_fresh 1))
      (toy_fresh 2))) (arr_of [7]) = Some j \<and>
    accept_ack toy toy_env toy_opening (Opened_ack ack (id_node (toy_identity 2))) (toy_fresh 1) = Inr s"
proof -
  let ?pkt = "new_packet packet_open (id_node (toy_identity 2)) (arr_of [7]) 0 (marshal (open_request_json (sign_open_request toy (toy_identity 1)
    (arr_of [7]) (id_node (toy_identity 2)) ''kr-rendezvous'' (ek_public (op_key toy_opening)) (dw_nonce (toy_draw 1)) 0))) (arr_of []) (toy_fresh 1)"
  have op: "op_key toy_opening = new_ephemeral_key toy (dw_private (toy_draw 1))" "op_nonce toy_opening = dw_nonce (toy_draw 1)"
    "op_dst toy_opening = nd_self (toy_fresh 2)" "op_id toy_opening = arr_of [7]" "op_service toy_opening = ''kr-rendezvous''"
    by (simp_all add: toy_opening_def toy_fresh_simps del: toy_public)
  have target: "request_target toy (toy_draw 3) (op_service toy_opening) (nd_self (toy_fresh 1)) k =
      (Inr 100, k\<lparr>cs_internal := cs_internal k @ [(100, ''kr-rendezvous'', nd_self (toy_fresh 1))]\<rparr>)" for k :: stream_node
    by (simp add: request_target_def op(5) internal_service_def internal_services_def toy_draw_def)
  have p: "p_payload ?pkt = marshal (open_request_json (sign_open_request toy (nd_id (toy_fresh 1)) (op_id toy_opening) (nd_self (toy_fresh 2))
      (op_service toy_opening) (ek_public (op_key toy_opening)) (dw_nonce (toy_draw 1)) 0))" "p_src ?pkt = nd_self (toy_fresh 1)"
    "p_stream_id ?pkt = op_id toy_opening"
    by (simp_all add: new_packet_def toy_fresh_simps op(4,5) del: toy_public)
  have sh: "is_ok (shared_secret toy (dw_private (toy_draw 1)) (x_public toy (dw_private (toy_draw 3))))"
    by (simp add: shared_secret_def toy_def)
  have w: "\<not> outside_window 180 (unix (en_now toy_env)) (unix 0)" "\<not> outside_window 180 (unix (en_now toy_env)) (unix (en_now toy_env))"
    by (simp_all add: outside_window_def toy_env_def)
  have "length (dw_nonce (toy_draw k)) = 32" for k by (simp add: toy_draw_def)
  then show ?thesis
    using stream_open_agrees [OF _ _ toy_dh_ok _ _ sh op(1,2,3) p w(1) target _ w(2) refl, where fresh = "arr_of []"]
    by (simp add: toy_fresh_simps op(4,5) del: toy_public) blast
qed

text \<open>A stream that \<open>openWithConn\<close> registers replaces a stream that the destination opened meanwhile under the same
  identifier: that one leaves the table without being closed, its receiver goes on, and the closing loop of
  \<open>Stop\<close> never reaches it, so that waiting for the goroutines does not end.\<close>

theorem replaced_stream_leaks:
  assumes "all_ok C n" "map_of (sn_streams n) (op_id op) = Some j" "st_receiving (sn_all n ! j)" "st_id s = op_id op" "st_peer s \<noteq> nd_self n"
    and "op_dst op \<noteq> nd_self n" "\<not> st_done s" "n' = snd (open_ready E local fresh op s n)"
  shows "\<not> st_done (sn_all n' ! j) \<and> st_receiving (sn_all n' ! j) \<and> j \<notin> snd ` set (sn_streams n') \<and>
    (let z = stop_streams E local fresh n' in \<not> st_done (sn_all z ! j) \<and> st_receiving (sn_all z ! j))"
proof -
  have j: "j < length (sn_all n)" "\<not> st_done (sn_all n ! j)" "st_id (sn_all n ! j) = op_id op" "distinct (map fst (sn_streams n))"
    using assms(1,2) by (auto simp: all_ok_def streams_ok_def table_ok_def dest!: map_of_SomeD)
  have only: "sid = op_id op" if "(sid, j) \<in> set (sn_streams n)" for sid
    using that assms(1) j(3) by (auto simp: all_ok_def streams_ok_def table_ok_def)
  let ?i = "length (sn_all n)"
  let ?n1 = "n\<lparr>sn_all := sn_all n @ [start_receiver s], sn_streams := AList.update (op_id op) ?i (sn_streams n)\<rparr>"
  let ?pkt = "new_packet packet_ready (op_dst op) (op_id op) 0 [] fresh n"
  have away: "p_dst ?pkt \<noteq> nd_self ?n1" using assms(6) by (simp add: new_packet_def nd_self_def)
  obtain r n2 where r: "send_packet E local ?pkt ?n1 = (r, n2)" by fastforce
  then have n2: "sn_all n2 = sn_all n @ [start_receiver s]" "sn_streams n2 = AList.update (op_id op) ?i (sn_streams n)"
    using send_away(2) [OF away, of E local] sn_of_more [of n2 ?n1] by simp_all
  have gone: "j \<notin> snd ` set (AList.update (op_id op) ?i (sn_streams n))"
  proof
    assume "j \<in> snd ` set (AList.update (op_id op) ?i (sn_streams n))"
    then obtain sid where "(sid, j) \<in> set (AList.update (op_id op) ?i (sn_streams n))" by auto
    then have m: "((map_of (sn_streams n)) (op_id op \<mapsto> ?i)) sid = Some j"
      using distinct_update [OF j(4)] by (simp add: update_conv' [symmetric])
    then have "sid \<noteq> op_id op" using j(1) by auto
    with m have "(sid, j) \<in> set (sn_streams n)" by (simp add: map_of_SomeD)
    then show False using only \<open>sid \<noteq> op_id op\<close> by blast
  qed
  have close: "sn_all (close_stream E local fresh k e False m) ! j = sn_all m ! j \<and>
      snd ` set (sn_streams (close_stream E local fresh k e False m)) \<subseteq> snd ` set (sn_streams m)" if "k \<noteq> j" for k e m
    using that by (auto simp: close_stream_def Let_def AList.delete_eq)
  have n': "sn_all n' ! j = sn_all n ! j \<and> j \<notin> snd ` set (sn_streams n')"
    using close [of ?i _ n2] j(1) gone n2 r
    by (cases r) (auto simp: assms(8) open_ready_def Let_def nth_append)
  have stop: "sn_all (fold (\<lambda>i. close_stream E local fresh i e False) is m) ! j = sn_all m ! j" if "j \<notin> set is" for "is" m e
    using that
  proof (induction "is" arbitrary: m)
    case (Cons i "is")
    then show ?case using close [of i e m] by simp
  qed simp
  have "sn_all (stop_streams E local fresh n') ! j = sn_all n' ! j"
    unfolding stop_streams_def by (rule stop) (use n' in auto)
  then show ?thesis using n' j(2) assms(3) by (simp add: Let_def)
qed

lemma replaced_stream_leaks_witness:
  "let n' = snd (open_ready toy_env (handle_local_packet toy toy_env (arr_of [])) (arr_of []) (toy_opening\<lparr>op_dst := id_node (toy_identity 1)\<rparr>)
      (new_stream (arr_of [7]) (id_node (toy_identity 1)) 50 True (replicate 32 5) (replicate 32 6)) toy_receiver)
   in st_receiving (sn_all (stop_streams toy_env (handle_local_packet toy toy_env (arr_of [])) (arr_of []) n') ! 0) \<and> 0 \<notin> snd ` set (sn_streams n')"
proof -
  have s: "map_of (sn_streams toy_receiver) (op_id (toy_opening\<lparr>op_dst := id_node (toy_identity 1)\<rparr>)) = Some 0" "st_receiving (sn_all toy_receiver ! 0)"
    "op_id (toy_opening\<lparr>op_dst := id_node (toy_identity 1)\<rparr>) = arr_of [7]"
    by (simp_all add: toy_receiver_def toy_opening_def start_receiver_def del: toy_public)
  show ?thesis
    using replaced_stream_leaks [OF toy_receiver_all_ok s(1,2) _ _ _ _ refl, of
        "new_stream (arr_of [7]) (id_node (toy_identity 1)) 50 True (replicate 32 5) (replicate 32 6)" toy_env
        "handle_local_packet toy toy_env (arr_of [])" "arr_of []"] toy_ends(2) toy_ids_differ s(3)
    by (simp add: Let_def new_stream_def del: toy_public)
qed

end
