(* ===== verification/Rendezvous_Props.thy ===== *)
theory Rendezvous_Props
  imports Rendezvous Stream_Props
begin

section \<open>What rendezvous promise\<close>

text \<open>
  A registered service receives the introductions meant for it; the two parties of a cookie are joined; the
  client and the service end up with one secured connection. The handlers keep the invariants of the node.
\<close>

subsection \<open>Steps\<close>

lemma rv_of_more:
  fixes m n :: "'a rv_node_scheme"
  assumes "stream_node.more m = stream_node.more n"
  shows "rz_registrations m = rz_registrations n" "rz_waiting m = rz_waiting n" "rz_out m = rz_out n" "rz_closed m = rz_closed n"
  using assms by (cases m; cases n; simp)+

lemma rz_steps:
  "steps C (n\<lparr>rz_registrations := a\<rparr>) n" "steps C (n\<lparr>rz_waiting := b\<rparr>) n" "steps C (n\<lparr>rz_out := c\<rparr>) n" "steps C (n\<lparr>rz_closed := d\<rparr>) n"
  by (rule apart_steps, simp add: apart_defs, simp add: streams_ok_def, simp add: grows_def)+

lemma handler_send_steps: "steps C (snd (handler_send fail c j n)) n"
  by (simp add: handler_send_def handler_write_def rz_steps split: sum.split option.split)

lemma close_handler_steps: "steps C (close_handler c n) n"
  by (simp add: close_handler_def rz_steps)

lemma end_internal_steps: "steps C (end_internal c n) n"
  unfolding end_internal_def by (rule steps_trans [OF close_handler_steps small_steps(5)])

lemma set_registration_steps: "steps C (set_registration i reg n) n"
  by (simp add: set_registration_def Let_def rz_steps steps_trans [OF close_handler_steps rz_steps(1)] split: option.split)

lemma intro_register_steps: "steps C (snd (intro_register C' E fail msg c source n)) n"
proof -
  have s: "steps C m n" if "handler_send fail c j (set_registration i reg n) = (r, m)" for r m j i reg
    using steps_trans [OF handler_send_steps set_registration_steps, of C fail c j i reg n] that by simp
  show ?thesis
    using s
    by (auto simp: intro_register_def Let_def end_internal_steps steps_trans [OF end_internal_steps handler_send_steps] split: option.split sum.split prod.split
        intro: steps_trans [OF small_steps(1)] steps_trans [OF end_internal_steps])
qed

lemma fold_close_steps: "steps C (fold close_handler cs n) n"
  by (induction cs arbitrary: n) (auto intro: steps_trans close_handler_steps)

lemma purge_steps: "steps C (purge_waiting E n) n"
  unfolding purge_waiting_def by (rule steps_trans [OF fold_close_steps rz_steps(2)])

lemma handle_introduce_steps: "steps C (handle_introduce E fail fail' msg c source n) n"
proof -
  have l: "steps C m n" if "live_registration E i n = (r, m)" for r m i
    using that by (auto simp: live_registration_def rz_steps split: option.splits if_splits)
  have h: "steps C m k" if "handler_send f d j k = (r, m)" for f d j k r m
    using handler_send_steps [of C f d j k] that by simp
  show ?thesis
    unfolding handle_introduce_def
    by (rule steps_trans [OF end_internal_steps])
      (auto split: option.split sum.split prod.split intro: small_steps(1) handler_send_steps
        steps_trans [OF small_steps(1)] steps_trans [OF handler_send_steps] dest!: l h intro: steps_trans)
qed

lemma handle_rendezvous_steps: "steps C (snd (handle_rendezvous E msg c source n)) n"
proof -
  have p: "steps C (add_event E lv t (m\<lparr>rz_waiting := w, sn_proxies := q\<rparr>)) m" for lv t w q and m :: "'a rv_node_scheme"
    by (rule steps_trans [OF small_steps(1)], rule apart_steps) (simp_all add: apart_defs streams_ok_def grows_def)
  show ?thesis
    by (auto simp: handle_rendezvous_def Let_def end_internal_steps split: option.split sum.split
        intro: steps_trans [OF _ purge_steps] rz_steps p end_internal_steps)
qed

subsection \<open>Meeting\<close>

lemma rendezvous_fold_close [simp]:
  "rz_waiting (fold close_handler cs n) = rz_waiting n" "rz_registrations (fold close_handler cs n) = rz_registrations n"
  "sn_proxies (fold close_handler cs n) = sn_proxies n"
  by (induction cs arbitrary: n) (simp_all add: close_handler_def)

definition toy_rv :: "byte \<Rightarrow> rv_node" where
  "toy_rv k = init_rendezvous (toy_fresh k)"

lemma toy_rv_simps [simp]:
  "rz_waiting (toy_rv k) = []" "rz_registrations (toy_rv k) = []" "rz_out (toy_rv k) = []" "rz_closed (toy_rv k) = []"
  "cs_app_closed (toy_rv k) = []" "nd_self (toy_rv k) = id_node (toy_identity k)" "ds_descriptors (toy_rv k) = []" "nd_network (toy_rv k) = default_network toy"
  using toy_fresh_simps(1) [of k]
  by (simp_all add: toy_rv_def init_rendezvous_def nd_self_def toy_fresh_def init_streams_def toy_dir_node_def init_circuits_def node.defs circuit_node.defs
      dir_node.defs stream_node.defs rv_node.defs toy_node_def)

definition toy_cookie :: string where
  "toy_cookie = b64_encode (replicate 32 1)"

text \<open>C13. A rendezvous joins exactly the two parties of a cookie: who presents a cookie meets the party that waits under
  the same text, in the other role and not expired, and nobody else, and the cookie is then used up.\<close>

theorem rendezvous_joins:
  assumes "distinct (map fst (rz_waiting n))" "role \<in> {''client'', ''service''}" "decode32 ck \<noteq> None"
    and "handle_rendezvous E (Inr (marshal (rendezvous_hello_json \<lparr> rh_role = role, rh_cookie = ck \<rparr>))) c src n = (out, m)"
  shows "(out = Met a b \<longleftrightarrow> (\<exists>w. map_of (rz_waiting n) ck = Some w \<and> en_now E \<le> rw_expires w \<and> rw_role w \<noteq> role \<and> a = rw_conn w \<and> b = c)) \<and>
    (out = Met a b \<longrightarrow> map_of (rz_waiting m) ck = None \<and> last (sn_proxies m) = (a, c)) \<and>
    (out = Meeting_waits \<longrightarrow> (\<exists>w. map_of (rz_waiting m) ck = Some w \<and> rw_role w = role \<and> rw_conn w = c))"
proof -
  have f: "map_of (filter (\<lambda>(k, w). \<not> en_now E > rw_expires w) (rz_waiting n)) ck =
      (case map_of (rz_waiting n) ck of None \<Rightarrow> None | Some w \<Rightarrow> if \<not> en_now E > rw_expires w then Some w else None)"
    using map_of_filter_keys [OF assms(1), of "\<lambda>k w. \<not> en_now E > rw_expires w" ck] by simp
  have p: "rz_waiting (purge_waiting E n) = filter (\<lambda>(k, w). \<not> en_now E > rw_expires w) (rz_waiting n)"
    by (simp add: purge_waiting_def)
  show ?thesis
    using assms(2-4) f
    by (auto simp: handle_rendezvous_def rendezvous_messages_roundtrip Let_def p update_conv' delete_conv' not_less add_event_def
        split: option.splits if_splits)
qed

lemma rendezvous_joins_witness:
  "\<exists>m. handle_rendezvous toy_env (Inr (marshal (rendezvous_hello_json \<lparr> rh_role = ''service'', rh_cookie = toy_cookie \<rparr>))) 6 zero_node
      ((toy_rv 1)\<lparr>rz_waiting := [(toy_cookie, \<lparr> rw_role = ''client'', rw_conn = 5, rw_expires = 1, rw_source = zero_node \<rparr>)]\<rparr>) = (Met 5 6, m) \<and>
    map_of (rz_waiting m) toy_cookie = None"
proof -
  let ?n = "(toy_rv 1)\<lparr>rz_waiting := [(toy_cookie, \<lparr> rw_role = ''client'', rw_conn = 5, rw_expires = 1, rw_source = zero_node \<rparr>)]\<rparr>"
  obtain out m where m: "handle_rendezvous toy_env (Inr (marshal (rendezvous_hello_json \<lparr> rh_role = ''service'', rh_cookie = toy_cookie \<rparr>))) 6 zero_node ?n = (out, m)"
    by fastforce
  have d: "decode32 toy_cookie \<noteq> None" "en_now toy_env = 0" by (simp_all add: toy_cookie_def toy_env_def)
  have "out = Met 5 6 \<and> map_of (rz_waiting m) toy_cookie = None"
    using rendezvous_joins [OF _ _ d(1) m, of 5 6] d(2) by simp
  then show ?thesis using m by blast
qed

subsection \<open>Introduction\<close>

lemma unix_ten: "unix (minutes 10) = 600"
  by (simp add: unix_def minutes_def)

lemma minutes_not_neg: "0 \<le> minutes 3"
  by (simp add: minutes_def)

lemma en_now_toy: "en_now toy_env = 0"
  by (simp add: toy_env_def)

lemma small_control:
  assumes "length (marshal j) \<le> max_control" "c \<notin> set (rz_closed n)" "c \<notin> set (cs_app_closed n)"
  shows "handler_send None c j n = (Inr (), n\<lparr>rz_out := rz_out n @ [(c, put_u32 (of_nat (length (marshal j))) @ marshal j)]\<rparr>)"
  using assms by (simp add: handler_send_def write_control_def handler_write_def)

lemma ack_small: "length (marshal (simple_ack_json ack_ok)) \<le> max_control"
  by (simp add: simple_ack_json_def ack_ok_def marshal_def max_control_def print_string_def esc_char_def join.simps)

lemma introduction_small:
  assumes "dh_ok C" "length (sc_cookie k) = 32" "length (sc_client_nonce k) = 32"
  shows "length (marshal (introduce_json (introduction C now i rv k))) \<le> max_control"
proof -
  have b: "length (b64_encode x) \<le> 67" if "length x = 32" for x using length_b64_encode [of x] that by simp
  note s = member_size_str [OF length_id_strings(3) [of i], of "''service_id''"] member_size_str [OF length_id_strings(1) [of rv], of "''rendezvous''"]
    member_size_str [OF b [OF assms(2)], of "''cookie''"] member_size_str [OF b [OF dh_okD(1) [OF assms(1), of "sc_private k"]], of "''client_ephemeral''"]
    member_size_str [OF b [OF assms(3)], of "''client_nonce''"] member_size_num(1) [of "''time_unix''" "unix now"]
  let ?q = "introduction C now i rv k"
  have "length (marshal (introduce_json ?q)) \<le> 4000"
    using length_marshal_object [of "[(''service_id'', JStr (iq_service ?q)), (''rendezvous'', JStr (iq_rendezvous ?q)), (''cookie'', JStr (iq_cookie ?q)),
      (''client_ephemeral'', JStr (iq_ephemeral ?q)), (''client_nonce'', JStr (iq_nonce ?q)), (''time_unix'', jm_int64 (iq_time ?q))]"] s
    by (simp add: introduce_json_def introduction_def)
  then show ?thesis by (simp add: max_control_def)
qed

lemma introduction_accepted:
  assumes "dh_ok C" "length (sc_cookie k) = 32" "length (sc_client_nonce k) = 32"
    and "en_now E - sint (unix now) * 1000000000 \<le> minutes 3"
  shows "accept_introduction E i (introduction C now i rv k) = Some (rv, sc_cookie k, x_public C (sc_private k), sc_client_nonce k)"
  using assms(2-4) dh_okD(1) [OF assms(1)] by (simp add: accept_introduction_def introduction_def)

text \<open>C12. Introductions arrive: after a service has registered at an introduction point, the request of a client for this
  service is written to the connection the service registered with, and when the service reads it it accepts it
  with the client's cookie, key and nonce.\<close>

theorem introduction_delivered:
  assumes "good_service C i" "dh_ok C" "length (sc_cookie k) = 32" "length (sc_client_nonce k) = 32"
    and "sint (unix (en_now E)) < sint (unix (t + minutes 5))" "sint (unix (t + minutes 5)) \<le> sint (unix (en_now E + minutes 10))"
    and "m1 = snd (intro_register C E None (Inr (marshal (registration_json (make_registration C i (nd_network m) (nd_self m) t)))) c src m)"
    and "c \<notin> set (rz_closed m)" "c \<notin> set (cs_app_closed m)" "\<forall>old. map_of (rz_registrations m) (sid_service i) = Some old \<longrightarrow> rg_conn old \<noteq> c"
    and "q = introduction C now (sid_service i) rv k" "\<not> outside_window 180 (unix (en_now E')) (unix now)"
    and "en_now E' \<le> sint (unix (t + minutes 5)) * 1000000000"
    and "m2 = handle_introduce E' None None (Inr (marshal (introduce_json q))) c' src' m1"
    and "en_now E'' - sint (unix now) * 1000000000 \<le> minutes 3"
  shows "\<exists>bs. (c, bs) \<in> set (rz_out m2) \<and> (\<forall>rest. read_control (bs @ rest) = Inr (marshal (introduce_json q), rest)) \<and>
    introduce_unmarshal (marshal (introduce_json q)) = Some q \<and>
    accept_introduction E'' (sid_service i) q = Some (rv, sc_cookie k, x_public C (sc_private k), sc_client_nonce k)"
proof -
  let ?i = "sid_service i" and ?reg = "\<lparr> rg_conn = c, rg_expires = sint (unix (t + minutes 5)) * 1000000000, rg_source = src \<rparr>"
  let ?m0 = "set_registration ?i ?reg m"
  have ex: "ir_expires (make_registration C i (nd_network m) (nd_self m) t) = unix (t + minutes 5)" by (simp add: make_registration_def Let_def)
  have open0: "c \<notin> set (rz_closed ?m0)" "c \<notin> set (cs_app_closed ?m0)" "map_of (rz_registrations ?m0) ?i = Some ?reg"
    using assms(8-10) by (auto simp: set_registration_def Let_def close_handler_def update_conv' split: option.split)
  have m1: "m1 = add_event E ''info'' (''introduction registration for '' @ service_short ?i @ '' via '' @ node_short src)
      (?m0\<lparr>rz_out := rz_out ?m0 @ [(c, put_u32 (of_nat (length (marshal (simple_ack_json ack_ok)))) @ marshal (simple_ack_json ack_ok))]\<rparr>)"
    using verify_make_registration [OF assms(1,5,6), of "nd_network m" "nd_self m"] small_control [OF ack_small open0(1,2)]
    by (simp add: assms(7) intro_register_def rendezvous_messages_roundtrip ex Let_def)
  have st: "c \<notin> set (rz_closed m1)" "c \<notin> set (cs_app_closed m1)" "map_of (rz_registrations m1) ?i = Some ?reg"
    using open0 by (simp_all add: m1 add_event_def)
  have chk: "check_introduce E' q = Inr ?i"
    using assms(3,12) by (simp add: check_introduce_def assms(11) introduction_def)
  have live: "live_registration E' ?i m1 = (Some ?reg, m1)"
    using assms(13) st(3) by (simp add: live_registration_def)
  note small = introduction_small [OF assms(2-4), of now ?i rv, folded assms(11)]
  let ?bs = "put_u32 (of_nat (length (marshal (introduce_json q)))) @ marshal (introduce_json q)"
  have send: "handler_send None c (introduce_json q) m1 = (Inr (), m1\<lparr>rz_out := rz_out m1 @ [(c, ?bs)]\<rparr>)"
    by (rule small_control [OF small st(1,2)])
  have keeps: "set (rz_out k) \<subseteq> set (rz_out (snd (handler_send f d j k)))" for f d j and k :: "'a rv_node_scheme"
    by (auto simp: handler_send_def handler_write_def split: sum.split option.split)
  have "(c, ?bs) \<in> set (rz_out m2)"
    using keeps [of "m1\<lparr>rz_out := rz_out m1 @ [(c, ?bs)]\<rparr>" None c' "simple_ack_json ack_ok"]
    by (auto simp: assms(14) handle_introduce_def rendezvous_messages_roundtrip chk live send end_internal_def close_handler_def add_event_def
        split: sum.split prod.split)
  moreover have ne: "marshal (introduce_json q) \<noteq> []" by (simp add: introduce_json_def marshal_def string_bytes_def)
  have "read_control (?bs @ rest) = Inr (marshal (introduce_json q), rest)" for rest
    by (rule controls.rd_wr) (use small ne in \<open>simp_all add: write_control_def control_ok_def\<close>)
  ultimately show ?thesis
    using introduction_accepted [OF assms(2-4,15), of ?i rv] by (auto simp: rendezvous_messages_roundtrip assms(11))
qed

definition toy_secret :: client_secret where
  "toy_secret = \<lparr> sc_cookie = replicate 32 1, sc_private = [2], sc_client_nonce = replicate 32 3 \<rparr>"

lemma toy_secret_simps [simp]: "length (sc_cookie toy_secret) = 32" "length (sc_client_nonce toy_secret) = 32"
  by (simp_all add: toy_secret_def)

lemma introduction_delivered_witness:
  "\<exists>bs. (5, bs) \<in> set (rz_out (handle_introduce toy_env None None (Inr (marshal (introduce_json
      (introduction toy 0 (sid_service (toy_service 9)) zero_node toy_secret)))) 6 zero_node
    (snd (intro_register toy toy_env None (Inr (marshal (registration_json (make_registration toy (toy_service 9) (nd_network (toy_rv 1)) (nd_self (toy_rv 1)) 0))))
      5 zero_node (toy_rv 1)))))"
  using introduction_delivered [where C = toy and i = "toy_service 9" and k = toy_secret and E = toy_env and t = 0 and m = "toy_rv 1" and c = 5 and src = zero_node
      and now = 0 and rv = zero_node and E' = toy_env and c' = 6 and src' = zero_node and E'' = toy_env, OF toy_service_good toy_dh_ok toy_secret_simps _ _ refl _ _ _ refl _ _ refl]
  by (simp add: en_now_toy unix_small unix_ten outside_window_def minutes_not_neg) blast

text \<open>A control message that was sent, as bytes written to the connection, and as what its reader gets.\<close>

lemma end_send_written:
  assumes "end_send C E fail ep j n = (Inr (), n')" "marshal j \<noteq> []"
  shows "\<exists>bs. end_write C E fail ep bs n = (Inr (), n') \<and> (\<forall>rest. read_control (bs @ rest) = Inr (marshal j, rest)) \<and>
    (\<forall>c. ep = Pipe_end c \<longrightarrow> cs_app_out n' = cs_app_out n @ [(c, bs)])"
proof -
  obtain bs where bs: "write_control (marshal j) = Inr bs" "end_write C E fail ep bs n = (Inr (), n')"
    using assms(1) by (auto simp: end_send_def split: sum.splits)
  then have "control_ok (marshal j)" "bs \<noteq> []"
    using assms(2) by (auto simp: write_control_def control_ok_def put_u32_def be_bytes_def split: if_splits)
  then have "read_control (bs @ rest) = Inr (marshal j, rest)" for rest using controls.rd_wr [OF bs(1)] by blast
  moreover have "cs_app_out n' = cs_app_out n @ [(c, bs)]" if "ep = Pipe_end c" for c
    using bs(2) \<open>bs \<noteq> []\<close> that by (auto simp: end_write_def write_conn_def split: if_splits option.splits)
  ultimately show ?thesis using bs(2) by blast
qed

lemma marshal_not_empty: "marshal (rendezvous_hello_json h) \<noteq> []" "marshal (service_ack_json a) \<noteq> []"
  by (simp_all add: rendezvous_hello_json_def service_ack_json_def marshal_def string_bytes_def)

text \<open>C11. Opening a service ends in one secured connection. When the service has taken the client's introduction and
  met it, it has written exactly two control messages to the rendezvous, one after the other: its hello, with the
  client's cookie and the role of the service, and its acknowledgement. The client that reads this acknowledgement
  accepts it, and then both hold connections for the same service and cookie, each sends with the key with which
  the other receives, and both start at number zero.\<close>

theorem service_opened_agrees:
  assumes "good_service C (ps_identity s)" "dh_ok C" "length (sc_cookie k) = 32" "length (sc_client_nonce k) = 32" "length (dw_nonce R) = 32"
    and "q = introduction C now (sid_service (ps_identity s)) rv k" "en_now E - sint (unix now) * 1000000000 \<le> minutes 3"
    and "accept_introduction E (sid_service (ps_identity s)) q = Some (rv', got)"
    and "introduction_connected C E R fail fail' s q got ep n = (Some (a, t), n')"
    and "\<not> outside_window 180 (unix (en_now E')) (unix (en_now E))"
  shows "rv' = rv \<and> (\<exists>hello hello_raw ack ack_raw n1. end_write C E fail ep hello n = (Inr (), n1) \<and> end_write C E fail' ep ack n1 = (Inr (), n') \<and>
    (\<forall>c. ep = Pipe_end c \<longrightarrow> cs_app_out n' = cs_app_out n @ [(c, hello), (c, ack)]) \<and>
    (\<forall>rest. read_control (hello @ rest) = Inr (hello_raw, rest)) \<and> (\<forall>rest. read_control (ack @ rest) = Inr (ack_raw, rest)) \<and>
    rendezvous_hello_unmarshal hello_raw = Some \<lparr> rh_role = ''service'', rh_cookie = rh_cookie (client_hello k) \<rparr> \<and>
    (\<exists>b m'. service_finish C E' (sid_service (ps_identity s)) rv k ep' (Inr ack_raw) m = (Inr b, m') \<and>
      rv_send_key b = rv_recv_key a \<and> rv_recv_key b = rv_send_key a \<and> length (rv_send_key a) = 32 \<and> length (rv_recv_key a) = 32 \<and>
      rv_id b = rv_id a \<and> rv_id a = sid_service (ps_identity s) \<and> arr_bytes (rv_cookie b) = sc_cookie k \<and> arr_bytes (rv_cookie a) = sc_cookie k \<and>
      rv_send_seq a = 0 \<and> rv_recv_seq b = 0 \<and> rv_send_seq b = 0 \<and> rv_recv_seq a = 0 \<and> rv_buf a = [] \<and> rv_buf b = []))"
proof -
  let ?i = "sid_service (ps_identity s)"
  let ?h = "\<lparr> rh_role = ''service'', rh_cookie = iq_cookie q \<rparr>"
  let ?ack = "sign_service_ack C (ps_identity s) (en_now E) (iq_cookie q) (x_public C (sc_private k)) (sc_client_nonce k) (x_public C (dw_private R)) (dw_nonce R)"
  have got: "rv' = rv" "got = (sc_cookie k, x_public C (sc_private k), sc_client_nonce k)"
    using introduction_accepted [OF assms(2-4,7), of ?i rv] assms(6,8) by auto
  obtain n1 c2s s2c where sent: "end_send C E fail ep (rendezvous_hello_json ?h) n = (Inr (), n1)" "end_send C E fail' ep (service_ack_json ?ack) n1 = (Inr (), n')"
    and keys: "derive_rendezvous_keys C (dw_private R) (x_public C (sc_private k)) (sc_client_nonce k) (dw_nonce R) ?i (sc_cookie k) = Inr (c2s, s2c)"
      "a = new_rendezvous_conn ?i (sc_cookie k) s2c c2s"
    using assms(9) by (auto simp: introduction_connected_def got(2) split: prod.splits sum.splits)
  obtain hello where hello: "end_write C E fail ep hello n = (Inr (), n1)" "\<And>rest. read_control (hello @ rest) = Inr (marshal (rendezvous_hello_json ?h), rest)"
      "\<And>c. ep = Pipe_end c \<Longrightarrow> cs_app_out n1 = cs_app_out n @ [(c, hello)]"
    using end_send_written [OF sent(1) marshal_not_empty(1)] by blast
  obtain ack where ack: "end_write C E fail' ep ack n1 = (Inr (), n')" "\<And>rest. read_control (ack @ rest) = Inr (marshal (service_ack_json ?ack), rest)"
      "\<And>c. ep = Pipe_end c \<Longrightarrow> cs_app_out n' = cs_app_out n1 @ [(c, ack)]"
    using end_send_written [OF sent(2) marshal_not_empty(2)] by blast
  have "derive_rendezvous_keys C (sc_private k) (x_public C (dw_private R)) (sc_client_nonce k) (dw_nonce R) ?i (sc_cookie k) = Inr (c2s, s2c)"
    using rendezvous_keys_agree [OF assms(2)] keys(1) by metis
  moreover have "verify_service_ack C ?ack ?i (x_public C (sc_private k)) (sc_client_nonce k) (en_now E') = Inr (x_public C (dw_private R), dw_nonce R)"
    by (rule verify_sign_service_ack [OF assms(1) dh_okD(1) [OF assms(2)] assms(5,10)])
  ultimately obtain b m' where b: "service_finish C E' ?i rv k ep' (Inr (marshal (service_ack_json ?ack))) m = (Inr b, m')"
      "b = new_rendezvous_conn ?i (sc_cookie k) c2s s2c"
    by (simp add: service_finish_def rendezvous_messages_roundtrip)
  have cookie: "rendezvous_hello_unmarshal (marshal (rendezvous_hello_json ?h)) = Some \<lparr> rh_role = ''service'', rh_cookie = rh_cookie (client_hello k) \<rparr>"
    by (simp add: rendezvous_messages_roundtrip client_hello_def assms(6) introduction_def)
  have out: "cs_app_out n' = cs_app_out n @ [(c, hello), (c, ack)]" if "ep = Pipe_end c" for c using hello(3) ack(3) that by simp
  have ends: "rv_send_key b = rv_recv_key a \<and> rv_recv_key b = rv_send_key a \<and> length (rv_send_key a) = 32 \<and> length (rv_recv_key a) = 32 \<and>
      rv_id b = rv_id a \<and> rv_id a = ?i \<and> arr_bytes (rv_cookie b) = sc_cookie k \<and> arr_bytes (rv_cookie a) = sc_cookie k \<and>
      rv_send_seq a = 0 \<and> rv_recv_seq b = 0 \<and> rv_send_seq b = 0 \<and> rv_recv_seq a = 0 \<and> rv_buf a = [] \<and> rv_buf b = []"
    using keys(2) b(2) length_rendezvous_keys [OF keys(1)] assms(3) by (simp add: new_rendezvous_conn_def)
  show ?thesis
    using got(1) hello(1,2) ack(1,2) cookie out b(1) ends by blast
qed

lemma toy_ack_small:
  "length (marshal (service_ack_json (sign_service_ack toy (ps_identity toy_published) (en_now toy_env) (iq_cookie (introduction toy 0 i rv toy_secret))
      (x_public toy (sc_private toy_secret)) (sc_client_nonce toy_secret) (x_public toy (dw_private (toy_draw 3))) (dw_nonce (toy_draw 3))))) \<le> max_control"
  (is "length (marshal (service_ack_json ?a)) \<le> _")
proof -
  have b: "length (b64_encode x) \<le> 67" if "length x = 32" for x using length_b64_encode [of x] that by simp
  have l: "length (x_public toy (dw_private (toy_draw 3))) = 32" "length (dw_nonce (toy_draw 3)) = 32" "length (sid_public (toy_service 9)) = 32"
    "length (x_public toy (sc_private toy_secret)) = 32" "length (sid_private (toy_service 9)) = 64"
    using dh_okD(1) [OF toy_dh_ok] by (simp_all add: toy_draw_def toy_service_def service_generate_def ed_public_def)
  have f: "ps_identity toy_published = toy_service 9" "iq_cookie (introduction toy 0 i rv toy_secret) = b64_encode (sc_cookie toy_secret)"
    by (simp_all add: toy_published_def introduction_def)
  have "length (service_ack_message ?a (x_public toy (sc_private toy_secret)) (sc_client_nonce toy_secret)) \<le> 1000"
    using length_id_strings(3) [of "sid_service (toy_service 9)"] b [OF l(1)] b [OF l(2)] b [OF toy_secret_simps(1)] b [OF l(4)] b [OF toy_secret_simps(2)]
      length_show_int64 [of "unix (en_now toy_env)"]
    by (simp add: service_ack_message_def sign_service_ack_simps(1-5) f sign_service_ack_def Let_def bar_def del: string_bytes_append)
  then have "length (service_sign toy (toy_service 9) (service_ack_message ?a (x_public toy (sc_private toy_secret)) (sc_client_nonce toy_secret))) \<le> 1032"
    using l(5) by (simp add: service_sign_def toy_def)
  then have sig: "length (sk_signature ?a) \<le> 4000"
    using length_b64_encode [of "service_sign toy (toy_service 9) (service_ack_message ?a (x_public toy (sc_private toy_secret)) (sc_client_nonce toy_secret))"]
    by (simp add: sign_service_ack_simps(6) f)
  note s = member_size_str [OF length_id_strings(3) [of "sid_service (toy_service 9)"], of "''service_id''"]
    member_size_str [OF b [OF l(3)], of "''public_key''"] member_size_str [OF b [OF l(1)], of "''ephemeral_key''"]
    member_size_str [OF b [OF l(2)], of "''nonce''"] member_size_str [OF b [OF toy_secret_simps(1)], of "''cookie''"]
    member_size_num(1) [of "''time_unix''" "unix (en_now toy_env)"] member_size_str [OF sig, of "''signature''"]
  have ck: "sk_cookie ?a = b64_encode (sc_cookie toy_secret)" by (simp add: sign_service_ack_def Let_def f)
  have "length (marshal (service_ack_json ?a)) \<le> 40000"
    using length_marshal_object [of "[(''service_id'', JStr (sk_service ?a)), (''public_key'', JStr (sk_public_key ?a)),
     (''ephemeral_key'', JStr (sk_ephemeral ?a)), (''nonce'', JStr (sk_nonce ?a)), (''cookie'', JStr (sk_cookie ?a)),
     (''time_unix'', jm_int64 (sk_time ?a)), (''signature'', JStr (sk_signature ?a))]"] s ck
    by (simp add: service_ack_json_def sign_service_ack_simps(1-5) f)
  then show ?thesis by (simp add: max_control_def)
qed

lemma service_opened_agrees_witness:
  "\<exists>a n'. introduction_connected toy toy_env (toy_draw 3) None None toy_published (introduction toy 0 (sid_service (toy_service 9)) zero_node toy_secret)
      (sc_cookie toy_secret, x_public toy (sc_private toy_secret), sc_client_nonce toy_secret) (Pipe_end 7) (toy_rv 1) = (Some (a, 101), n') \<and>
    length (rv_send_key a) = 32 \<and> (\<exists>hello ack. cs_app_out n' = cs_app_out (toy_rv 1) @ [(7, hello), (7, ack)])"
proof -
  let ?q = "introduction toy 0 (sid_service (ps_identity toy_published)) zero_node toy_secret"
  let ?got = "(sc_cookie toy_secret, x_public toy (sc_private toy_secret), sc_client_nonce toy_secret)"
  have g: "ps_identity toy_published = toy_service 9" by (simp add: toy_published_def)
  have acc: "accept_introduction toy_env (sid_service (ps_identity toy_published)) ?q = Some (zero_node, ?got)"
    by (rule introduction_accepted) (simp_all add: toy_dh_ok toy_env_def unix_small minutes_def)
  have b: "length (b64_encode x) \<le> 67" if "length x = 32" for x using length_b64_encode [of x] that by simp
  have "length (marshal (rendezvous_hello_json \<lparr> rh_role = ''service'', rh_cookie = iq_cookie ?q \<rparr>)) \<le> max_control"
    using length_marshal_object [of "[(''role'', JStr ''service''), (''cookie'', JStr (iq_cookie ?q))]"] member_size_str [of "''service''" 7 "''role''"]
      member_size_str [OF b [of "sc_cookie toy_secret"], of "''cookie''"]
    by (simp add: rendezvous_hello_json_def introduction_def max_control_def)
  moreover have "length (marshal (service_ack_json (sign_service_ack toy (ps_identity toy_published) (en_now toy_env) (iq_cookie ?q)
      (x_public toy (sc_private toy_secret)) (sc_client_nonce toy_secret) (x_public toy (dw_private (toy_draw 3))) (dw_nonce (toy_draw 3))))) \<le> max_control"
    by (rule toy_ack_small)
  ultimately have sent: "\<exists>n'. introduction_connected toy toy_env (toy_draw 3) None None toy_published ?q ?got (Pipe_end 7) (toy_rv 1) = (Some (a, 101), n')"
    if "derive_rendezvous_keys toy (dw_private (toy_draw 3)) (x_public toy (sc_private toy_secret)) (sc_client_nonce toy_secret) (dw_nonce (toy_draw 3))
          (sid_service (ps_identity toy_published)) (sc_cookie toy_secret) = Inr (c2s, s2c)"
      "a = new_rendezvous_conn (sid_service (ps_identity toy_published)) (sc_cookie toy_secret) s2c c2s" for c2s s2c a
    using that
    by (simp add: introduction_connected_def end_send_def write_control_def end_write_def write_conn_def) (simp add: toy_draw_def)
  have "is_ok (shared_secret toy (dw_private (toy_draw 3)) (x_public toy (sc_private toy_secret)))" by (simp add: shared_secret_def toy_def)
  then obtain c2s s2c where "derive_rendezvous_keys toy (dw_private (toy_draw 3)) (x_public toy (sc_private toy_secret)) (sc_client_nonce toy_secret) (dw_nonce (toy_draw 3))
      (sid_service (ps_identity toy_published)) (sc_cookie toy_secret) = Inr (c2s, s2c)"
    by (auto simp: is_ok_iff derive_rendezvous_keys_def Let_def)
  from sent [OF this refl] obtain a n' where c: "introduction_connected toy toy_env (toy_draw 3) None None toy_published ?q ?got (Pipe_end 7) (toy_rv 1) = (Some (a, 101), n')"
    by blast
  have "length (dw_nonce (toy_draw 3)) = 32" "\<not> outside_window 180 (unix (en_now toy_env)) (unix (en_now toy_env))"
    by (simp_all add: toy_draw_def outside_window_def)
  then have "\<exists>hello ack. length (rv_send_key a) = 32 \<and> cs_app_out n' = cs_app_out (toy_rv 1) @ [(7, hello), (7, ack)]"
    using service_opened_agrees [OF _ toy_dh_ok toy_secret_simps _ refl _ acc c, where E' = toy_env] g
    by (simp add: en_now_toy unix_small minutes_not_neg) blast
  then show ?thesis using c unfolding g by blast
qed

subsection \<open>Findings\<close>

text \<open>A service with more than eight introduction sessions disappears: nothing bounds the sessions when the
  nodes closest to it change, a descriptor lists them all, and no node at any time accepts a descriptor with more
  than eight introduction points; the publication goes on as if nothing had happened.\<close>

theorem many_sessions_unpublish:
  assumes "8 < length (ps_intros s)" "next_revision io dot s (ds_files n) = (s', fs', Inr r)" "sorted_map (sc_metadata (ps_cfg s))"
    and "publish_start C E io dot fresh name s n = (p, n')"
  shows "ds_descriptors n' = ds_descriptors n \<and> (\<forall>e. p \<noteq> Publish_failed e) \<and>
    (\<forall>nm raw rest pkt deadline d t w. p = Publishing nm raw rest pkt deadline \<longrightarrow> descriptor_unmarshal raw = Some d \<longrightarrow>
      \<not> is_ok (descriptor_verify C d t w))"
proof -
  let ?d = "new_descriptor C (en_now E) (ps_identity s) (nd_network n) (active_intros s) r (descriptor_ttl (nd_cfg n)) (sc_metadata (ps_cfg s))"
  have many: "items (d_intros ?d) = sort (map node_string (active_intros s))" "length (active_intros s) = length (ps_intros s)"
    "go_int (d_version ?d)" "sorted_map (d_metadata ?d)"
    using assms(3) by (simp_all add: new_descriptor_def Let_def descriptor_body.defs descriptor.defs items_def active_intros_def go_int_def descriptor_version_def)
  then have bad: "\<not> is_ok (descriptor_verify C ?d t w)" for t w
    using assms(1) by (auto simp: descriptor_verify_def items_def is_ok_iff split: option.splits sum.splits if_splits)
  have "descriptor_unmarshal (marshal (descriptor_json ?d)) = Some ?d"
    using descriptor_roundtrip [OF many(3,4)] by (simp add: descriptor_unmarshal_def unmarshal_marshal)
  moreover have "active_intros s \<noteq> []" using many(2) assms(1) by auto
  moreover have "snd (store_descriptor C E ?d m) = m" for m :: "'a dir_node_scheme"
    using bad [of "en_now E" "nd_network m"] by (auto simp: store_descriptor_def is_ok_iff split: sum.split)
  ultimately show ?thesis
    using assms(2,4) bad by (auto simp: publish_start_def publish_next_def Let_def put_service_def add_event_def split: list.splits)
qed

definition toy_crowded :: published_service where
  "toy_crowded = toy_published\<lparr>ps_path := [], ps_intros := map (\<lambda>k. (NodeID (arr_of [of_nat k]), k)) [0..<9]\<rparr>"

lemma many_sessions_unpublish_witness:
  "\<not> (\<exists>e. fst (publish_start toy toy_env (\<lambda>op. None) True (arr_of []) ''web'' toy_crowded (toy_rv 1)) = Publish_failed e) \<and>
   ds_descriptors (snd (publish_start toy toy_env (\<lambda>op. None) True (arr_of []) ''web'' toy_crowded (toy_rv 1))) = []"
proof -
  have "next_revision (\<lambda>op. None) True toy_crowded (ds_files (toy_rv 1)) = (toy_crowded\<lparr>ps_revision := 42\<rparr>, ds_files (toy_rv 1), Inr 42)"
    by (simp add: next_revision_def toy_crowded_def toy_published_def save_revision_def)
  from many_sessions_unpublish [OF _ this _ prod.collapse [symmetric], of toy toy_env "arr_of []" "''web''"] show ?thesis
    by (simp add: toy_crowded_def toy_published_def sorted_map_def)
qed

text \<open>When the acknowledgement of a registration cannot be written, the handler closes its connection but leaves the
  registration: it has displaced a working one, and introductions fail on it until it expires.\<close>

theorem dead_registration_stays:
  assumes "verify_registration C reg (nd_network n) (nd_self n) (en_now E) = Inr i"
    and "m = snd (intro_register C E (Some e) (Inr (marshal (registration_json reg))) c src n)"
  shows "map_option rg_conn (map_of (rz_registrations m) i) = Some c \<and> c \<in> set (rz_closed m) \<and>
    (\<forall>j fail. handler_send fail c j m \<noteq> (Inr (), snd (handler_send fail c j m)))"
proof -
  have "m = end_internal c (set_registration i \<lparr> rg_conn = c, rg_expires = sint (ir_expires reg) * 1000000000, rg_source = src \<rparr> n)"
    using assms by (simp add: intro_register_def rendezvous_messages_roundtrip handler_send_def handler_write_def Let_def split: sum.split)
  then show ?thesis
    by (auto simp: end_internal_def close_handler_def set_registration_def Let_def update_conv' handler_send_def handler_write_def split: option.split sum.split)
qed

lemma dead_registration_stays_witness:
  "map_option rg_conn (map_of (rz_registrations (snd (intro_register toy toy_env (Some ''broken'') (Inr (marshal (registration_json
     (make_registration toy (toy_service 9) (nd_network (toy_rv 1)) (nd_self (toy_rv 1)) 0)))) 5 zero_node (toy_rv 1)))) (sid_service (toy_service 9))) = Some 5"
proof -
  have "verify_registration toy (make_registration toy (toy_service 9) (nd_network (toy_rv 1)) (nd_self (toy_rv 1)) 0) (nd_network (toy_rv 1)) (nd_self (toy_rv 1))
      (en_now toy_env) = Inr (sid_service (toy_service 9))"
    by (rule verify_make_registration) (simp_all add: toy_env_def unix_small unix_ten)
  from dead_registration_stays [OF this refl] show ?thesis by blast
qed

end
