(* ===== verification/System.thy ===== *)
theory System
  imports Rendezvous_Props
begin

section \<open>The whole node\<close>

text \<open>
  All components of the overlay together: the state is that of a node with circuits, directory, streams and
  rendezvous, packets for the node itself go to \<open>handleLocalPacket\<close>, circuit cells to \<open>handleCircuitCell\<close>, and
  every handler, completion of a wait and timer of these components is a step (\<open>system_step\<close>). The
  invariants of the components hold together in every reachable state.
\<close>

subsection \<open>Steps of the node and of circuits\<close>

text \<open>The steps of \<open>node.go\<close> touch its own fields only.\<close>

definition node_only :: "'a node_scheme \<Rightarrow> 'a node_scheme \<Rightarrow> bool" where
  "node_only m n \<longleftrightarrow> node.more m = node.more n \<and> nd_network m = nd_network n"

lemma node_only_refl [simp, intro]: "node_only n n"
  by (simp add: node_only_def)

lemma node_only_trans: "node_only a b \<Longrightarrow> node_only b c \<Longrightarrow> node_only a c"
  by (simp add: node_only_def)

lemma node_only_small:
  "node_only (add_event E lv msg n) n" "node_only (wake_publisher n) n" "node_only (snd (peer_send E p kd payload n)) n"
  "node_only (put_lsa i l n) n" "node_only (drop_peer p n) n" "node_only (snd (announce C E n)) n"
  "node_only (snd (start_close C E p reason n)) n" "node_only (consider_candidate E src c n) n" "node_only (finish_dial i n) n"
  by (simp_all add: node_only_def add_event_def wake_publisher_def peer_send_def put_lsa_def drop_peer_def announce_def start_close_def
      consider_candidate_def finish_dial_def Let_def split: sum.split option.split prod.split)

lemma node_only_result: "g n = (r, m) \<Longrightarrow> node_only (snd (g n)) n \<Longrightarrow> node_only m n"
  by simp

lemma run_tasks_only: "node_only (run_tasks C E ts n) n"
proof (induction C E ts n rule: run_tasks.induct)
  case (4 C E p kd payload ts n)
  obtain r n1 where s: "peer_send E p kd payload n = (r, n1)" by fastforce
  have n1: "node_only n1 n" using node_only_small(3) [of E p kd payload n] s by simp
  show ?case
  proof (cases r)
    case (Inr u)
    then show ?thesis using 4(3) [OF s [symmetric] Inr] s n1 by (auto intro: node_only_trans)
  next
    case (Inl e)
    obtain ts' n2 where c: "start_close C E p (''write failed: '' @ e) n1 = (ts', n2)" by fastforce
    have "node_only n2 n1" using node_only_small(7) [of C E p "''write failed: '' @ e" n1] c by simp
    then show ?thesis
      using 4(1) [OF s [symmetric] Inl] 4(2) [OF s [symmetric] Inl _ c [symmetric]] s Inl c n1
      by (auto intro: node_only_trans)
  qed
qed (auto intro: node_only_trans node_only_small)

lemma fold_only: "(\<And>x m. node_only (f x m) m) \<Longrightarrow> node_only (fold f xs n) n"
  by (induction xs arbitrary: n) (auto intro: node_only_trans)

lemma node_steps_only:
  "node_only (broadcast C E kd payload except n) n" "node_only (close_peer C E p reason n) n" "node_only (emit_local_lsa C E n) n"
  "node_only (broadcast_pex C E n) n" "node_only (ping_peers C E nonce n) n" "node_only (handle_pex E raw n) n"
  "node_only (send_all_lsas E p n) n" "node_only (cleanup_expired E n) n" "node_only (n\<lparr>nd_stopped := b\<rparr>) n"
  by (auto simp: broadcast_def broadcast_pex_def ping_peers_def run_tasks_only close_peer_def emit_local_lsa_def handle_pex_def send_all_lsas_def
      cleanup_expired_def Let_def wake_publisher_def intro!: fold_only node_only_small node_only_trans [OF run_tasks_only] split: option.split prod.split
      dest!: node_only_result [where g = "start_close C E p reason" for C E p reason, OF _ node_only_small(7)]
        node_only_result [where g = "announce C E" for C E, OF _ node_only_small(6)])
    (simp_all add: node_only_def)

lemma handle_lsa_only: "node_only (handle_lsa C E raw p n) n"
  by (auto simp: handle_lsa_def intro: node_only_small node_only_trans [OF node_steps_only(1)] node_only_trans [OF node_only_small(2)]
      split: option.split sum.split)

lemma stop_peers_only: "node_only (stop_peers C E n) n"
  unfolding stop_peers_def by (rule node_only_trans [OF fold_only node_steps_only(9)]) (rule node_steps_only)

lemma start_node_only: "node_only (start_node C E addresses n) n"
proof -
  have "node_only (n\<lparr>nd_started := True, nd_addresses := addresses\<rparr>) n" by (simp add: node_only_def)
  then show ?thesis
    by (auto simp: start_node_def intro: node_only_trans [OF node_steps_only(3)] node_only_trans [OF node_only_small(1)])
qed

lemma register_peer_only: "node_only (snd (register_peer C E p n)) n"
proof -
  have put: "node_only (n\<lparr>nd_peers := ps, nd_open := os\<rparr>) n" for ps os by (simp add: node_only_def)
  show ?thesis
    by (auto simp: register_peer_def Let_def split: option.split
        intro!: put node_only_trans [OF node_only_small(3)] node_only_trans [OF node_steps_only(7)] node_only_trans [OF node_only_small(2)]
          node_only_trans [OF node_steps_only(3)] node_only_trans [OF node_steps_only(2)])
qed

lemma establish_peer_only: "node_only (snd (establish_peer C E outbound expected conn remote handshake incoming n)) n"
  by (auto simp: establish_peer_def Let_def split: option.split sum.split prod.split bool.split
      dest!: node_only_result [where g = "register_peer C E p" for p, OF _ register_peer_only])

text \<open>What keeps the node's own invariant and touches only its fields, or keeps the invariant of circuits and
  touches only theirs, is a step.\<close>

lemma node_only_steps:
  fixes m n :: "'a stream_node_scheme"
  assumes "node_only m n" "node_ok n \<Longrightarrow> node_ok m"
  shows "steps C m n"
proof -
  have "dir_node.more m = dir_node.more n"
    using dir_more_of_node_more(2) [of m n] assms(1) by (simp add: node_only_def)
  then show ?thesis
    using assms circuits_ok_more [of m n] dir_ok_cong [of m n C] streams_ok_more [of m n] grows_more [of m n]
    by (simp add: steps_def all_ok_def node_only_def)
qed

lemma ds_of_circuit_more:
  fixes m n :: "'a dir_node_scheme"
  assumes "circuit_node.more m = circuit_node.more n"
  shows "dir_node.more m = dir_node.more n" "ds_descriptors m = ds_descriptors n" "ds_pending m = ds_pending n" "ds_lookups m = ds_lookups n"
  using assms by (cases m; cases n; simp)+

lemma circuit_steps:
  fixes m n :: "'a stream_node_scheme"
  assumes "same_node m n" "circuits_ok n \<Longrightarrow> circuits_ok m"
  shows "steps C m n"
proof -
  note d = ds_of_circuit_more [of m n]
  have "dir_ok C n \<Longrightarrow> dir_ok C m"
    using assms(1) d by (simp add: same_node_def same_tables_def dir_ok_def)
  then show ?thesis
    using assms node_ok_same_node [OF assms(1)] streams_ok_more [OF d(1)] grows_more [OF d(1)]
    by (simp add: steps_def all_ok_def same_node_def)
qed

subsection \<open>Frames\<close>

lemma good_localD: "good_local C local \<Longrightarrow> steps C (local pkt n) n"
  by (simp add: good_local_def)

lemma count_steps: "steps C (n\<lparr>nd_frames_received := a, nd_bytes_received := b\<rparr>) n" "steps C (n\<lparr>nd_retries := r\<rparr>) n" "steps C (n\<lparr>nd_stopped := s\<rparr>) n"
  by (rule node_only_steps, simp add: node_only_def, simp)+

lemma seen_steps: "steps C (n\<lparr>nd_seen := AList.update k t (nd_seen n)\<rparr>) n"
  by (rule node_only_steps, simp add: node_only_def, rule node_ok_seen) (simp_all add: node_ok_def tables_ok_def distinct_update)

lemma handle_packet_steps:
  assumes "good_local C local"
  shows "steps C (handle_packet E local pkt n) n"
proof -
  have s: "steps C m k" if "send_packet E local q k = (r, m)" for q k r m
    using send_steps [OF assms, of E q k] that by simp
  show ?thesis
    unfolding handle_packet_def Let_def
    by (auto split: prod.split sum.split dest!: s
        intro: good_localD [OF assms] seen_steps steps_trans [OF count_steps(2)] steps_trans [OF small_steps(1)] steps_trans [OF _ seen_steps]
          steps_trans [OF small_steps(1) steps_trans [OF _ seen_steps]])
qed

lemma relay_retry_steps:
  assumes "good_local C local"
  shows "steps C (relay_retry E local deadline fresh pkt n) n"
proof -
  have s: "steps C m n" if "retry_attempt E local deadline fresh pkt (n\<lparr>nd_retries := q\<rparr>) = (r, m)" for q r m
    using steps_trans [OF retry_steps [OF assms] count_steps(2), of E deadline fresh pkt q n] that by simp
  show ?thesis
    unfolding relay_retry_def
    by (auto split: prod.split retry.split dest!: s intro: steps_trans [OF count_steps(2)] steps_trans [OF small_steps(1)])
qed

lemma handle_frame_steps:
  assumes "good_local C local" "\<And>q cell k. steps C (circuit q cell k) k"
  shows "steps C (handle_frame C E local circuit p kd payload n) n"
proof -
  have l: "steps C (handle_lsa C E payload p k) k" for k :: "'a stream_node_scheme"
    by (rule node_only_steps [OF handle_lsa_only handle_lsa_ok])
  have s: "steps C (snd (peer_send E p frame_pong payload k)) k" for k :: "'a stream_node_scheme"
    by (rule node_only_steps [OF node_only_small(3) node_ok_send])
  have x: "steps C (handle_pex E payload k) k" for k :: "'a stream_node_scheme"
    by (rule node_only_steps [OF node_steps_only(6) handle_pex_ok])
  show ?thesis
    unfolding handle_frame_def Let_def
    by (intro if_cases_steps)
      (auto split: sum.split intro: steps_trans [OF l count_steps(1)] steps_trans [OF s count_steps(1)] steps_trans [OF x count_steps(1)]
        steps_trans [OF small_steps(1) count_steps(1)] steps_trans [OF handle_packet_steps [OF assms(1)] count_steps(1)]
        steps_trans [OF assms(2) count_steps(1)] count_steps(1))
qed

lemma handle_circuit_cell_steps:
  fixes n :: "'a stream_node_scheme"
  shows "steps C (handle_circuit_cell C' E R p cell n) n"
  by (rule circuit_steps [OF handle_circuit_cell_same handle_circuit_cell_ok])

subsection \<open>Connections over circuits\<close>

lemma conn_same:
  "same_node (snd (stream_request C E i service n)) n" "same_node (snd (snd (conn_read E w cap c n))) n"
  by (auto simp: stream_request_def close_local_same conn_read_def Let_def same_node_set split: prod.split sum.split option.split waking.split
      dest!: same_node_result [where g = "send_relay C E i cmd b" for i cmd b, OF _ send_relay_same] intro: same_node_trans [OF close_local_same])

lemma write_chunks_same: "same_node (snd (snd (write_chunks C E i sofar p n))) n"
proof (induction C E i sofar p n rule: write_chunks.induct)
  case (1 C E i sofar p n)
  show ?case
  proof (cases "p = []")
    case False
    obtain r n1 where s: "send_relay C E i relay_data (take (min (length p) max_chunk) p) n = (r, n1)" by fastforce
    have "same_node n1 n" using send_relay_same [of C E i relay_data "take (min (length p) max_chunk) p" n] s by simp
    with 1 [OF False refl s [symmetric]] False s show ?thesis
      by (subst write_chunks.simps) (auto simp: Let_def intro: same_node_trans split: sum.split)
  qed (subst write_chunks.simps, simp)
qed

lemma conn_write_same: "same_node (snd (snd (conn_write C E c p n))) n"
  by (simp add: conn_write_def write_chunks_same)

lemma conn_close_same: "same_node (snd (conn_close C E c n)) n"
  by (auto simp: conn_close_def intro: same_node_trans [OF close_local_same send_relay_same])

lemma stream_start_same: "stream_start C E R dst service n = Some (r, m) \<Longrightarrow> same_node m n"
  by (auto simp: stream_start_def split: if_splits option.splits sum.splits dest: internal_service_same build_start_same)

lemma stream_start_steps:
  fixes n :: "'a stream_node_scheme"
  shows "stream_start C' E R dst service n = Some (r, m) \<Longrightarrow> steps C m n"
  by (blast intro: circuit_steps [OF stream_start_same] stream_start_ok)

lemma stream_answer_steps:
  fixes n :: "'a stream_node_scheme"
  assumes "i < length (cs_all_clients n)"
  shows "steps C (snd (stream_answer E w i service dst n)) n"
proof -
  obtain r m where w: "wait_step w [relay_open_ok] i n = (r, m)" by fastforce
  have m: "same_node m n" using wait_step_same [of w "[relay_open_ok]" i n] w by simp
  have "steps C m n"
    by (rule circuit_steps [OF m])
      (use wait_step_at [of i n w "[relay_open_ok]"] client_at_ok [of i m] assms w in \<open>simp add: client_at_def\<close>)
  moreover have "steps C (close_local E True i m) n"
    by (rule circuit_steps [OF same_node_trans [OF close_local_same m]])
      (use close_local_at [of i m E True] wait_step_at [of i n w "[relay_open_ok]"] client_at_ok assms w in \<open>simp add: client_at_def\<close>)
  ultimately show ?thesis
    by (auto simp: stream_answer_def w intro: steps_trans [OF small_steps(1)] split: option.split sum.split)
qed

text \<open>An endpoint refers to a circuit that exists; what keeps this and is a step.\<close>

definition fits :: "endpoint \<Rightarrow> 'a circuit_node_scheme \<Rightarrow> bool" where
  "fits ep n \<longleftrightarrow> (case ep of Pipe_end c \<Rightarrow> True | Circuit_end cc \<Rightarrow> cn_circuit cc < length (cs_all_clients n))"

definition keeps :: "crypto \<Rightarrow> endpoint \<Rightarrow> 'a stream_node_scheme \<Rightarrow> 'a stream_node_scheme \<Rightarrow> bool" where
  "keeps C ep m n \<longleftrightarrow> (all_ok C n \<longrightarrow> fits ep n \<longrightarrow> all_ok C m \<and> grows m n \<and> fits ep m)"

lemma keeps_refl [simp, intro]: "keeps C ep n n"
  by (simp add: keeps_def)

lemma keeps_trans: "keeps C ep a b \<Longrightarrow> keeps C ep b c \<Longrightarrow> keeps C ep a c"
  by (auto simp: keeps_def intro: grows_trans)

lemma keeps_steps: "steps C m n \<Longrightarrow> cs_all_clients m = cs_all_clients n \<Longrightarrow> keeps C ep m n"
  by (cases ep) (simp_all add: keeps_def steps_def fits_def)

lemma keepsD: "keeps C ep m n \<Longrightarrow> fits ep n \<Longrightarrow> steps C m n"
  by (auto simp: keeps_def steps_def)

lemma keeps_event: "keeps C ep (add_event E lv msg n) n"
  by (rule keeps_steps [OF small_steps(1)]) (simp add: add_event_def)

lemma keeps_circuit:
  assumes "client_at i n \<Longrightarrow> client_at i m" "same_node m n" "ep = Circuit_end cc" "i = cn_circuit cc"
  shows "keeps C ep m n"
proof -
  have "steps C m n" if "i < length (cs_all_clients n)"
    by (rule circuit_steps [OF assms(2)]) (use assms(1) that in \<open>simp add: client_at_def\<close>)
  then show ?thesis
    using assms by (auto simp: keeps_def steps_def fits_def client_at_def all_ok_def)
qed

lemma end_write_keeps: "keeps C ep (snd (end_write C' E fail ep bs n)) n"
proof (cases ep)
  case (Pipe_end c)
  have "cs_all_clients (snd (write_conn fail c bs n)) = cs_all_clients n" by (simp add: write_conn_def split: option.split)
  then show ?thesis by (simp add: Pipe_end end_write_def keeps_steps write_conn_steps)
next
  case (Circuit_end cc)
  have "keeps C ep (snd (snd (conn_write C' E cc bs n))) n"
    by (rule keeps_circuit [OF conn_write_ok conn_write_same Circuit_end refl])
  then show ?thesis by (auto simp: Circuit_end end_write_def split: prod.split option.split)
qed

lemma end_send_keeps: "keeps C ep (snd (end_send C' E fail ep j n)) n"
  by (simp add: end_send_def end_write_keeps split: sum.split)

lemma end_close_keeps: "keeps C ep (end_close C' E ep n) n"
proof (cases ep)
  case (Pipe_end c)
  have "cs_all_clients (close_app a n) = cs_all_clients n" for a by (simp add: close_app_def split: option.split)
  then show ?thesis by (simp add: Pipe_end end_close_def keeps_steps close_app_steps)
next
  case (Circuit_end cc)
  then show ?thesis
    using keeps_circuit [OF conn_close_ok conn_close_same Circuit_end refl] by (simp add: end_close_def)
qed

lemma keeps_end_send: "end_send C' E fail ep j n = (r, m) \<Longrightarrow> keeps C ep m n"
  using end_send_keeps [of C ep C' E fail j n] by simp

lemma keeps_close_after: "keeps C ep m n \<Longrightarrow> keeps C ep (end_close C' E ep m) n"
  by (rule keeps_trans [OF end_close_keeps])

lemma open_internal_steps:
  fixes n :: "'a rv_node_scheme"
  shows "open_internal_endpoint C' E R dst name n = Some (r, m) \<Longrightarrow> steps C m n"
  by (auto simp: open_internal_endpoint_def internal_service_def small_steps split: if_splits option.splits sum.splits intro: stream_start_steps)

subsection \<open>Rendezvous\<close>

lemma put_service_steps: "steps C (put_service name s n) n" "steps C (wake_publisher n) n"
  by (rule dir_step_steps [OF dir_step_small(3)], rule node_only_steps [OF node_only_small(2) node_ok_wake])

lemma update_service_steps: "steps C (update_service name f n) n"
  by (simp add: update_service_def put_service_steps split: option.split)

lemma all_clients_simps [simp]:
  "cs_all_clients (put_service name s n) = cs_all_clients n" "cs_all_clients (wake_publisher n) = cs_all_clients n"
  "cs_all_clients (update_service name f n) = cs_all_clients n" "cs_all_clients (add_event E lv msg n) = cs_all_clients n"
  by (simp_all add: put_service_def wake_publisher_def update_service_def add_event_def split: option.split)

lemma keeps_small:
  "keeps C ep (intro_warn E name dst e n) n" "keeps C ep (wake_publisher n) n" "keeps C ep (update_service name f n) n"
  "keeps C ep (put_service name s n) n"
  by (auto simp: intro_warn_def keeps_event intro: keeps_steps put_service_steps update_service_steps)

lemma intro_opened_keeps: "keeps C ep (snd (intro_opened C' E fail name s dst (Inr ep) n)) n"
  by (auto simp: intro_opened_def split: prod.split sum.split dest!: keeps_end_send
      intro: keeps_trans [OF keeps_small(1)] keeps_close_after)

lemma intro_acked_keeps: "keeps C ep (snd (intro_acked C' E session name dst ep msg n)) n"
  by (auto simp: intro_acked_def split: sum.split option.split
      intro: keeps_trans [OF keeps_small(1)] end_close_keeps keeps_trans [OF keeps_small(2)] keeps_trans [OF keeps_event] keeps_small)

lemma intro_lost_keeps: "keeps C ep (intro_lost C' E session name dst ep n) n"
  by (auto simp: intro_lost_def split: option.split intro: keeps_close_after keeps_trans [OF keeps_small(2)] keeps_small)

lemma introduction_connected_keeps: "keeps C ep (snd (introduction_connected C' E R fail fail' s q got ep n)) n"
  by (auto simp: introduction_connected_def split: prod.split sum.split dest!: keeps_end_send intro: keeps_close_after keeps_trans)

lemma service_keeps:
  "keeps C ep (snd (service_hello C' E fail k ep n)) n" "keeps C ep (snd (service_introduce C' E fail i rv k intro (Inr ep) n)) n"
  "keeps C ep (snd (service_introduced C' E intro ep msg n)) n" "keeps C ep (snd (service_finish C' E i rv k ep msg n)) n"
  by (auto simp: service_hello_def service_introduce_def service_introduced_def service_finish_def Let_def split: prod.split sum.split
      dest!: keeps_end_send intro: keeps_close_after end_close_keeps keeps_event)

lemma internal_steps:
  "steps C (intro_register_end i c n) n" "steps C (rendezvous_wake c n) n" "steps C (rendezvous_part first c n) n"
  "steps C (close_internal_services n) n" "steps C (intro_stop name dst n) n"
  by (auto simp: intro_register_end_def rendezvous_wake_def rendezvous_part_def close_internal_services_def intro_stop_def
      intro: steps_trans [OF end_internal_steps] end_internal_steps rz_steps small_steps fold_close_steps update_service_steps)

lemma lookup_start_steps:
  assumes "good_local C local"
  shows "steps C (snd (lookup_start E local req fresh i use_cache n)) n"
  by (rule lookup_start_keeps [OF robust_steps handles_steps [OF assms] steps_refl])

lemma open_service_steps:
  assumes "good_local C local"
  shows "steps C (snd (open_service E local R req fresh i n)) n" "steps C (snd (open_service_failed E local req fresh i attempt opened e n)) n"
proof -
  have a: "steps C (snd (open_service_attempt E local req fresh i attempt m)) m" for attempt m
    using lookup_start_steps [OF assms, of E req fresh i "attempt = 0" m] by (auto simp: open_service_attempt_def split: prod.split)
  show "steps C (snd (open_service E local R req fresh i n)) n" by (simp add: open_service_def a split: option.split)
  show "steps C (snd (open_service_failed E local req fresh i attempt opened e n)) n"
    by (auto simp: open_service_failed_def Let_def intro: a steps_trans [OF a] steps_trans [OF small_steps(1)] dir_step_steps dir_step_small)
qed

subsection \<open>Stopping\<close>

text \<open>\<open>Stop\<close>, with its calls in their order.\<close>

definition stop_node :: "crypto \<Rightarrow> env \<Rightarrow> 16 barr \<Rightarrow> 16 barr \<Rightarrow> 'a rv_node_scheme \<Rightarrow> 'a rv_node_scheme" where
  "stop_node C E fresh fresh' n =
     stop_streams E (handle_local_packet C E fresh) fresh'
       (stop_peers C E (close_internal_services (close_circuits E (n\<lparr>nd_stopped := True\<rparr>))))"

lemma stop_parts_steps:
  fixes n :: "'a stream_node_scheme"
  shows "steps C (close_circuits E n) n" "steps C (stop_peers C' E n) n"
  by (rule circuit_steps [OF close_circuits_same close_circuits_ok], assumption) (rule node_only_steps [OF stop_peers_only stop_peers_ok])

lemma stop_node_steps: "steps C (stop_node C E fresh fresh' n) n"
  unfolding stop_node_def
  by (rule steps_trans [OF stop_streams_steps [OF handle_local_good]], rule steps_trans [OF stop_parts_steps(2)],
      rule steps_trans [OF internal_steps(4)], rule steps_trans [OF stop_parts_steps(1)], rule count_steps)

subsection \<open>Reachable states\<close>

text \<open>Random values, times, results of the network and of reads are free in every step.\<close>

inductive system_step :: "crypto \<Rightarrow> rv_node \<Rightarrow> rv_node \<Rightarrow> bool" for C where
  starting: "system_step C n (start_node C E addresses n)"
| established: "conn \<notin> set (nd_open n) \<Longrightarrow> system_step C n (snd (establish_peer C E outbound expected conn remote handshake incoming n))"
| frame: "(i, p) \<in> set (nd_peers n) \<Longrightarrow>
    system_step C n (handle_frame C E (handle_local_packet C E fresh) (handle_circuit_cell C E R) p kd payload n)"
| closed_peer: "(i, p) \<in> set (nd_peers n) \<Longrightarrow> system_step C n (close_peer C E p reason n)"
| announced: "system_step C n (emit_local_lsa C E n)"
| cleaned: "system_step C n (cleanup_expired E n)"
| pinged: "system_step C n (ping_peers C E nonce n)"
| exchanged: "system_step C n (broadcast_pex C E n)"
| candidate: "system_step C n (consider_candidate E src cand n)"
| dialled: "system_step C n (finish_dial i n)"
| retried: "pkt \<in> set (nd_retries n) \<Longrightarrow> system_step C n (relay_retry E (handle_local_packet C E fresh) deadline fresh' pkt n)"
| stopped: "system_step C n (stop_node C E fresh fresh' n)"
| extended: "x < length (cs_extends n) \<Longrightarrow> system_step C n (extend_done C E x failed n)"
| app_read: "k < length (cs_relays n) \<Longrightarrow> system_step C n (app_read C E k chunk ended n)"
| circuit_started: "stream_start C E R dst service n = Some (r, m) \<Longrightarrow> system_step C n m"
| circuit_answered: "bd_circuit b < length (cs_all_clients n) \<Longrightarrow> system_step C n (snd (build_step C E R w b n))"
| circuit_requested: "k < length (cs_all_clients n) \<Longrightarrow> system_step C n (snd (stream_request C E k service n))"
| circuit_opened: "k < length (cs_all_clients n) \<Longrightarrow> system_step C n (snd (stream_answer E w k service dst n))"
| circuit_read: "cn_circuit c < length (cs_all_clients n) \<Longrightarrow> system_step C n (snd (snd (conn_read E w cap c n)))"
| circuit_written: "cn_circuit c < length (cs_all_clients n) \<Longrightarrow> system_step C n (snd (snd (conn_write C E c bytes n)))"
| circuit_closed: "cn_circuit c < length (cs_all_clients n) \<Longrightarrow> system_step C n (snd (conn_close C E c n))"
| published: "system_step C n (snd (publish_service C E io dot fresh name n))"
| publishing: "system_step C n (snd (publish_attempt C E (handle_local_packet C E fresh) fresh' p n))"
| directory_timer: "system_step C n (snd (snd (directory_turn E ev timer n)))"
| lookup_begun: "system_step C n (snd (lookup_start E (handle_local_packet C E fresh) req draws s use_cache n))"
| lookup_woken: "x < length (ds_lookups n) \<Longrightarrow> system_step C n (snd (lookup_step C E lw x n))"
| pumped: "k < length (sn_all n) \<Longrightarrow> system_step C n (pump_step C E (handle_local_packet C E fresh) fresh' k chunk ending n)"
| received: "k < length (sn_all n) \<Longrightarrow> system_step C n (receive_step C E (handle_local_packet C E fresh) fresh' fail over k n)"
| open_begun: "system_step C n (snd (open_start C E (handle_local_packet C E fresh) R sid fresh' dst service conn n))"
| open_ended: "system_step C n (snd (open_finish C E (handle_local_packet C E fresh) fresh' interrupted x n))"
| open_failed: "system_step C n (open_stream_failed conn app n)"
| forward_lost: "system_step C n (forward_failed E listen dst service conn e n)"
| requested: "pkt \<in> set (sn_requests n) \<Longrightarrow> system_step C n (handle_open C E R fresh pkt n)"
| replied: "r \<in> set (sn_replies n) \<Longrightarrow> system_step C n (reply_step E (handle_local_packet C E fresh) fresh' r n)"
| registered: "system_step C n (snd (intro_register C E wfail msg c source n))"
| unregistered: "system_step C n (intro_register_end s c n)"
| introduced: "system_step C n (handle_introduce E wfail wfail' msg c source n)"
| met: "system_step C n (snd (handle_rendezvous E msg c source n))"
| woken: "system_step C n (rendezvous_wake c n)"
| parted: "system_step C n (rendezvous_part c c' n)"
| endpoint_opened: "open_internal_endpoint C E R dst name n = Some (r, m) \<Longrightarrow> system_step C n m"
| intro_dialled: "fits ep n \<Longrightarrow> system_step C n (snd (intro_opened C E fail name s dst (Inr ep) n))"
| intro_answered: "fits ep n \<Longrightarrow> system_step C n (snd (intro_acked C E session name dst ep msg n))"
| intro_ended: "fits ep n \<Longrightarrow> system_step C n (intro_lost C E session name dst ep n)"
| intro_given_up: "system_step C n (intro_stop name dst n)"
| accepted: "fits ep n \<Longrightarrow> system_step C n (snd (introduction_connected C E R fail fail' s q got ep n))"
| service_begun: "system_step C n (snd (open_service E (handle_local_packet C E fresh) R req draws s n))"
| service_retried: "system_step C n (snd (open_service_failed E (handle_local_packet C E fresh) req draws s attempt opened e n))"
| service_greeted: "fits ep n \<Longrightarrow> system_step C n (snd (service_hello C E fail k ep n))"
| service_asked: "fits ep n \<Longrightarrow> system_step C n (snd (service_introduce C E fail s rv k intro (Inr ep) n))"
| service_answered: "fits ep n \<Longrightarrow> system_step C n (snd (service_introduced C E intro ep msg n))"
| service_ended: "fits ep n \<Longrightarrow> system_step C n (snd (service_finish C E s rv k ep msg n))"

inductive system_reachable :: "crypto \<Rightarrow> rv_node \<Rightarrow> bool" for C where
  created: "new_node cfg i = Inr n \<Longrightarrow> init_directory C io now dot beside keys fs (init_circuits n) = (fs', Inr q) \<Longrightarrow>
    system_reachable C (init_rendezvous (init_streams q))"
| step: "system_reachable C n \<Longrightarrow> system_step C n m \<Longrightarrow> system_reachable C m"

inductive_cases system_stepE: "system_step C n m"

text \<open>The steps that node and circuits take by themselves, at the type of the whole node.\<close>

lemma own_steps:
  fixes n :: "'a stream_node_scheme"
  shows "steps C (start_node C' E addresses n) n" "conn \<notin> set (nd_open n) \<Longrightarrow> steps C (snd (establish_peer C' E outbound expected conn remote handshake incoming n)) n"
    "steps C (emit_local_lsa C' E n) n" "steps C (cleanup_expired E n) n" "steps C (ping_peers C' E nonce n) n" "steps C (broadcast_pex C' E n) n"
    "steps C (consider_candidate E src cand n) n" "steps C (finish_dial i n) n"
  by (rule node_only_steps, rule start_node_only, erule start_node_ok)
    (rule node_only_steps, rule establish_peer_only, erule establish_peer_ok, assumption,
     rule node_only_steps, rule node_steps_only, rule emit_ok, simp add: node_ok_base,
     rule node_only_steps, rule node_steps_only, erule cleanup_ok,
     rule node_only_steps, rule node_steps_only, simp add: ping_peers_def broadcast_ok,
     rule node_only_steps, rule node_steps_only, simp add: broadcast_pex_def broadcast_ok,
     rule node_only_steps, rule node_only_small, erule consider_candidate_ok,
     rule node_only_steps, rule node_only_small, simp add: finish_dial_def)

lemma close_peer_steps:
  fixes n :: "'a stream_node_scheme"
  assumes "(i, p) \<in> set (nd_peers n)"
  shows "steps C (close_peer C' E p reason n) n"
proof (rule node_only_steps [OF node_steps_only(2)])
  assume "node_ok n"
  moreover have "conn_fits p n" by (rule conn_fits_member [OF _ assms]) (use \<open>node_ok n\<close> in \<open>simp add: node_ok_def\<close>)
  ultimately show "node_ok (close_peer C' E p reason n)" by (rule close_peer_ok)
qed

lemma circuit_own_steps:
  fixes n :: "'a stream_node_scheme"
  shows "x < length (cs_extends n) \<Longrightarrow> steps C (extend_done C' E x failed n) n" "k < length (cs_relays n) \<Longrightarrow> steps C (app_read C' E k chunk ended n) n"
    "bd_circuit b < length (cs_all_clients n) \<Longrightarrow> steps C (snd (build_step C' E R w b n)) n"
    "k < length (cs_all_clients n) \<Longrightarrow> steps C (snd (stream_request C' E k service n)) n"
    "cn_circuit c < length (cs_all_clients n) \<Longrightarrow> steps C (snd (snd (conn_read E w cap c n))) n"
    "cn_circuit c < length (cs_all_clients n) \<Longrightarrow> steps C (snd (snd (conn_write C' E c bytes n))) n"
    "cn_circuit c < length (cs_all_clients n) \<Longrightarrow> steps C (snd (conn_close C' E c n)) n"
proof -
  note at = client_at_def relay_at_def
  show "x < length (cs_extends n) \<Longrightarrow> steps C (extend_done C' E x failed n) n"
    by (rule circuit_steps [OF extend_done_same extend_done_ok])
  show "k < length (cs_relays n) \<Longrightarrow> steps C (app_read C' E k chunk ended n) n"
    by (rule circuit_steps [OF app_read_same]) (rule relay_at_ok [OF app_read_at], simp add: at)
  show "steps C (snd (build_step C' E R w b n)) n" if "bd_circuit b < length (cs_all_clients n)"
  proof (rule circuit_steps [OF build_step_same])
    assume "circuits_ok n"
    then have "build_at (build_step C' E R w b n)" by (intro build_step_at) (use that in \<open>simp add: at\<close>)
    then show "circuits_ok (snd (build_step C' E R w b n))" by (metis build_at_ok prod.collapse)
  qed
  show "k < length (cs_all_clients n) \<Longrightarrow> steps C (snd (stream_request C' E k service n)) n"
    by (rule circuit_steps [OF conn_same(1)]) (rule client_at_ok [OF stream_request_ok], simp add: at)
  show "cn_circuit c < length (cs_all_clients n) \<Longrightarrow> steps C (snd (snd (conn_read E w cap c n))) n"
    by (rule circuit_steps [OF conn_same(2)]) (rule client_at_ok [OF conn_read_ok], simp add: at)
  show "cn_circuit c < length (cs_all_clients n) \<Longrightarrow> steps C (snd (snd (conn_write C' E c bytes n))) n"
    by (rule circuit_steps [OF conn_write_same]) (rule client_at_ok [OF conn_write_ok], simp add: at)
  show "cn_circuit c < length (cs_all_clients n) \<Longrightarrow> steps C (snd (conn_close C' E c n)) n"
    by (rule circuit_steps [OF conn_close_same]) (rule client_at_ok [OF conn_close_ok], simp add: at)
qed

lemma reply_member_steps:
  assumes "good_local C local" "r \<in> set (sn_replies n)"
  shows "steps C (reply_step E local fresh r n) n"
proof (rule stepsI)
  assume "all_ok C n"
  then have "replies_fit (length (sn_all n)) [r]" using assms(2) by (auto simp: all_ok_def streams_ok_def replies_fit_def)
  then show "steps C (reply_step E local fresh r n) n" by (rule reply_step_steps [OF assms(1)])
qed

text \<open>Every step keeps all invariants and never changes what a stream is.\<close>

lemma system_step_steps: "system_step C n m \<Longrightarrow> steps C m n"
proof (induction rule: system_step.induct)
  case (publishing n E fresh fresh' p)
  show ?case by (rule publish_attempt_keeps [OF robust_steps handles_steps [OF handle_local_good] steps_refl])
qed (use handle_local_good in \<open>blast intro: own_steps close_peer_steps circuit_own_steps handle_frame_steps handle_circuit_cell_steps relay_retry_steps
      stop_node_steps stream_start_steps stream_answer_steps dir_step_steps publish_service_step directory_turn_step lookup_start_steps lookup_step_step
      pump_step_steps receive_step_steps open_start_steps open_finish_steps failed_steps handle_open_steps reply_member_steps
      intro_register_steps internal_steps handle_introduce_steps handle_rendezvous_steps open_internal_steps
      keepsD [OF intro_opened_keeps] keepsD [OF intro_acked_keeps] keepsD [OF intro_lost_keeps] keepsD [OF introduction_connected_keeps]
      open_service_steps keepsD [OF service_keeps(1)] keepsD [OF service_keeps(2)] keepsD [OF service_keeps(3)] keepsD [OF service_keeps(4)]\<close>)+

lemma init_directory_ok:
  assumes "new_node cfg i = Inr n" "init_directory C io now dot beside keys fs (init_circuits n) = (fs', Inr q)"
  shows "all_ok C (init_streams q)"
proof -
  obtain tab f where q: "q = circuit_node.extend (init_circuits n) (dir_node.fields [] [] [] tab f)"
    using assms(2) by (auto simp: init_directory_def split: prod.splits sum.splits)
  show ?thesis
  proof (rule init_streams_ok)
    show "node_ok q"
      using new_node_ok [OF assms(1)] node_ok_truncate [of q] node_ok_truncate [of "init_circuits n"] by (simp add: q init_truncate)
    show "circuits_ok q"
      using init_circuits_ok [of n] circuits_ok_truncate [of q] by (simp add: q init_truncate)
    show "dir_ok C q" by (simp add: q dir_ok_def node.defs circuit_node.defs dir_node.defs)
  qed
qed

lemma init_rendezvous_ok:
  assumes "all_ok C n"
  shows "all_ok C (init_rendezvous n)"
proof -
  let ?k = "n\<lparr>ds_local := map (\<lambda>(name, s). (name, s\<lparr>ps_intros := [], ps_dialing := []\<rparr>)) (ds_local n)\<rparr>"
  have k: "all_ok C ?k"
    using assms by (auto simp: all_ok_def streams_ok_def circuits_ok_def relays_ok_def clients_ok_def node_ok_def peers_ok_def peer_ok_def
        tables_ok_def own_ok_def peer_ids_def nd_self_def)
  have t: "node.truncate (init_rendezvous n) = node.truncate ?k" "circuit_node.truncate (init_rendezvous n) = circuit_node.truncate ?k"
    "dir_node.truncate (init_rendezvous n) = dir_node.truncate ?k"
    by (simp_all add: init_rendezvous_def node.defs circuit_node.defs dir_node.defs stream_node.defs)
  have "streams_ok (init_rendezvous n)" using k
    by (simp add: all_ok_def streams_ok_def init_rendezvous_def node.defs circuit_node.defs dir_node.defs stream_node.defs)
  then show ?thesis
    using k node_ok_truncate [of "init_rendezvous n"] node_ok_truncate [of ?k] circuits_ok_truncate [of "init_rendezvous n"] circuits_ok_truncate [of ?k]
      dir_ok_truncate [of C "init_rendezvous n"] dir_ok_truncate [of C ?k] t
    unfolding all_ok_def by metis
qed

lemma system_reachable_ok: "system_reachable C n \<Longrightarrow> all_ok C n"
  by (induction rule: system_reachable.induct) (auto intro: init_rendezvous_ok init_directory_ok dest: system_step_steps stepsD)

lemma toy_rv_reachable: "system_reachable toy (toy_rv k)"
proof -
  have "init_directory toy (\<lambda>_. None) 0 (\<lambda>_. True) (\<lambda>_. []) (\<lambda>_. []) Map.empty (init_circuits (toy_node k)) = (Map.empty, Inr (toy_dir_node (init_circuits (toy_node k))))"
    by (simp add: init_directory_def toy_dir_node_def) (simp add: init_circuits_def toy_node_def node.defs default_config_def)
  from system_reachable.created [OF new_toy_node this] show ?thesis by (simp add: toy_rv_def toy_fresh_def)
qed

subsection \<open>What holds in every reachable state\<close>

lemma sealing_works: "length key = 32 \<Longrightarrow> is_ok (seal C key sid a b q plain)" "length key = 32 \<Longrightarrow> is_ok (seal_circuit_layer C key q plain)"
  by (simp_all add: seal_def seal_circuit_layer_def new_aead_def)

lemma registered_entry:
  assumes "registered shut key objs tab"
  shows "\<forall>(k, i) \<in> set tab. i < length objs \<and> key (objs ! i) = k \<and> \<not> shut (objs ! i)"
proof clarify
  fix k i assume "(k, i) \<in> set tab"
  moreover have "distinct (map fst tab)" using assms by (simp add: registered_def)
  ultimately have "map_of tab k = Some i" by simp
  from registeredD [OF assms this] show "i < length objs \<and> key (objs ! i) = k \<and> \<not> shut (objs ! i)" by simp
qed

lemma seal_hops_works: "\<forall>h \<in> set hs. good_hop h \<Longrightarrow> is_ok (fst (seal_hops C hs plain))"
proof (induction hs)
  case (Cons h hs)
  then obtain q hs' where s: "seal_hops C hs plain = (Inr q, hs')" by (cases "seal_hops C hs plain") (auto simp: is_ok_iff)
  have "is_ok (seal_circuit_layer C (ch_fwd h) (ch_send h) q)" by (rule sealing_works) (use Cons.prems in \<open>simp add: good_hop_def\<close>)
  then show ?case by (auto simp: s is_ok_iff)
qed simp

text \<open>C4. The state stays well typed. In every reachable state of a node all keys of streams, of relayed circuits and of the
  hops of own circuits are AES-256 keys (32 bytes), so that sealing never fails; and every entry of a table refers to an
  object that exists and carries the identifier it is listed under: a stream that is not done (\<open>streams\<close>), an own circuit that
  is not done (\<open>clients\<close>), a relayed circuit that is not closed, under its incoming peer and identifier (\<open>relayIn\<close>), an
  \<open>EXTEND\<close> that is running (\<open>pending\<close> of \<open>circuit.go\<close>), a lookup (\<open>pending\<close> of \<open>directory.go\<close>) and an opening (\<open>pending\<close> of
  \<open>stream.go\<close>); an entry of \<open>relayOut\<close> refers to a relayed circuit, closed or not, that was extended over this link.\<close>

theorem system_well_typed:
  assumes "system_reachable C n"
  shows "(\<forall>s \<in> set (sn_all n). length (st_send_key s) = 32 \<and> length (st_recv_key s) = 32 \<and>
      (\<forall>a b q plain. is_ok (seal C (st_send_key s) (st_id s) a b q plain))) \<and>
    (\<forall>rc \<in> set (cs_relays n). length (rc_fwd rc) = 32 \<and> length (rc_rev rc) = 32 \<and> (\<forall>plain. is_ok (fst (relay_wrap C rc plain)))) \<and>
    (\<forall>cc \<in> set (cs_all_clients n). (\<forall>h \<in> set (cc_hops cc). length (ch_fwd h) = 32 \<and> length (ch_rev h) = 32) \<and>
      (\<forall>plain. is_ok (fst (seal_hops C (cc_hops cc) plain)))) \<and>
    (\<forall>(sid, i) \<in> set (sn_streams n). i < length (sn_all n) \<and> st_id (sn_all n ! i) = sid \<and> \<not> st_done (sn_all n ! i)) \<and>
    (\<forall>(cid, i) \<in> set (cs_clients n). i < length (cs_all_clients n) \<and> cc_id (cs_all_clients n ! i) = cid \<and> \<not> cc_done (cs_all_clients n ! i)) \<and>
    (\<forall>((p, cid), i) \<in> set (cs_relay_in n). i < length (cs_relays n) \<and> pr_id (rc_incoming (cs_relays n ! i)) = p \<and>
      rc_in (cs_relays n ! i) = cid \<and> \<not> rc_closed (cs_relays n ! i)) \<and>
    (\<forall>((p, cid), i) \<in> set (cs_relay_out n). i < length (cs_relays n) \<and>
      (\<exists>x \<in> set (cs_extends n). ex_relay x = i \<and> pr_id (ex_peer x) = p \<and> ex_id x = cid)) \<and>
    (\<forall>((p, cid), x) \<in> set (cs_pending n). x < length (cs_extends n) \<and> pr_id (ex_peer (cs_extends n ! x)) = p \<and>
      ex_id (cs_extends n ! x) = cid \<and> ex_running (cs_extends n ! x) \<and> ex_relay (cs_extends n ! x) < length (cs_relays n)) \<and>
    (\<forall>(req, x) \<in> set (ds_pending n). x < length (ds_lookups n) \<and> lk_request (ds_lookups n ! x) = req) \<and>
    (\<forall>(sid, x) \<in> set (sn_pending n). x < length (sn_openings n) \<and> op_id (sn_openings n ! x) = sid)"
proof -
  note ok = system_reachable_ok [OF assms]
  have s: "\<forall>s \<in> set (sn_all n). good_stream s" and t: "table_ok (sn_all n) (sn_streams n)" and p: "listed op_id (sn_openings n) (sn_pending n)"
    and d: "listed lk_request (ds_lookups n) (ds_pending n)"
    using ok by (simp_all add: all_ok_def streams_ok_def dir_ok_def)
  have r: "\<forall>rc \<in> set (cs_relays n). good_relay rc" and c: "\<forall>cc \<in> set (cs_all_clients n). \<forall>h \<in> set (cc_hops cc). good_hop h"
    and reg: "registered cc_done cc_id (cs_all_clients n) (cs_clients n)" "registered rc_closed relay_key (cs_relays n) (cs_relay_in n)"
    and out: "out_ok (length (cs_relays n)) (cs_relay_out n) (cs_extends n)" and ext: "extend_ok (length (cs_relays n)) (cs_pending n) (cs_extends n)"
    using ok by (simp_all add: all_ok_def circuits_ok_def relays_ok_def clients_ok_def)
  have C: "\<forall>(cid, i) \<in> set (cs_clients n). i < length (cs_all_clients n) \<and> cc_id (cs_all_clients n ! i) = cid \<and> \<not> cc_done (cs_all_clients n ! i)"
    using registered_entry [OF reg(1)] by blast
  have I: "\<forall>((p, cid), i) \<in> set (cs_relay_in n). i < length (cs_relays n) \<and> pr_id (rc_incoming (cs_relays n ! i)) = p \<and>
      rc_in (cs_relays n ! i) = cid \<and> \<not> rc_closed (cs_relays n ! i)"
    using registered_entry [OF reg(2)] by (auto simp: relay_key_def)
  have U: "\<forall>((p, cid), i) \<in> set (cs_relay_out n). i < length (cs_relays n) \<and>
      (\<exists>x \<in> set (cs_extends n). ex_relay x = i \<and> pr_id (ex_peer x) = p \<and> ex_id x = cid)"
    using out by (fastforce simp: out_ok_def extend_link_def)
  have E: "\<forall>((p, cid), x) \<in> set (cs_pending n). x < length (cs_extends n) \<and> pr_id (ex_peer (cs_extends n ! x)) = p \<and>
      ex_id (cs_extends n ! x) = cid \<and> ex_running (cs_extends n ! x) \<and> ex_relay (cs_extends n ! x) < length (cs_relays n)"
    using ext by (auto simp: extend_ok_def)
  have R: "\<forall>rc \<in> set (cs_relays n). length (rc_fwd rc) = 32 \<and> length (rc_rev rc) = 32 \<and> (\<forall>plain. is_ok (fst (relay_wrap C rc plain)))"
    using r by (simp add: relay_wrap_def good_relay_def sealing_works)
  have H: "\<forall>cc \<in> set (cs_all_clients n). (\<forall>h \<in> set (cc_hops cc). length (ch_fwd h) = 32 \<and> length (ch_rev h) = 32) \<and>
      (\<forall>plain. is_ok (fst (seal_hops C (cc_hops cc) plain)))"
    using c by (simp add: seal_hops_works) (simp add: good_hop_def)
  have S: "\<forall>s \<in> set (sn_all n). length (st_send_key s) = 32 \<and> length (st_recv_key s) = 32 \<and>
      (\<forall>a b q plain. is_ok (seal C (st_send_key s) (st_id s) a b q plain))"
    using s by (simp add: good_stream_def sealing_works)
  have T: "\<forall>(sid, i) \<in> set (sn_streams n). i < length (sn_all n) \<and> st_id (sn_all n ! i) = sid \<and> \<not> st_done (sn_all n ! i)"
    using t unfolding table_ok_def by blast
  show ?thesis by (intro conjI S R H T C I U E d [unfolded listed_def] p [unfolded listed_def])
qed

text \<open>A node that has met a peer, and relays a circuit for it.\<close>

lemma toy_rv_more_simps:
  "nd_peers (toy_rv k) = []" "nd_open (toy_rv k) = []" "nd_id (toy_rv k) = toy_identity k" "nd_cfg (toy_rv k) = default_config toy"
  "nd_addresses (toy_rv k) = []" "cs_relays (toy_rv k) = []" "cs_relay_in (toy_rv k) = []"
  by (simp_all add: toy_rv_def init_rendezvous_def toy_fresh_def init_streams_def toy_dir_node_def init_circuits_def node.defs circuit_node.defs
      dir_node.defs stream_node.defs rv_node.defs toy_node_def)

definition toy_known :: rv_node where
  "toy_known = snd (establish_peer toy toy_env True None 10 ''b'' (Inr \<lparr>tls_certificates = 1, tls_key = Some (replicate 32 2)\<rparr>) (hello_frame 2) (toy_rv 1))"

lemma toy_known_reachable: "system_reachable toy toy_known"
  unfolding toy_known_def by (rule system_reachable.step [OF toy_rv_reachable system_step.established]) (simp add: toy_rv_more_simps)

lemma toy_known_simps: "nd_peers toy_known = [(id_node (toy_identity 2), toy_peer)]" "cs_relays toy_known = []" "cs_relay_in toy_known = []"
proof -
  have ok: "node_ok (toy_rv 1)" using system_reachable_ok [OF toy_rv_reachable [of 1]] by (simp add: all_ok_def)
  have self: "nd_self (toy_rv 1) = id_node (toy_identity 1)" by simp
  have addr: "advertised_addresses (toy_rv 1) = advertised_addresses (toy_started 1)"
    by (simp add: advertised_addresses_def toy_rv_more_simps toy_started_simps)
  have hello: "local_hello toy_env (toy_rv 1) = local_hello toy_env (toy_started 1)"
    using addr by (simp add: local_hello_def toy_rv_more_simps toy_started_simps)
  have lsa: "frame_fits (lsa_marshal (local_lsa toy toy_env (with_peer toy_peer (toy_rv 1))))"
    unfolding local_lsa_def with_peer_def
    by (simp add: toy_rv_more_simps default_config_def peer_ids_def advertised_addresses_def toy_lsa_fits del: toy_public)
  have m: "toy_known = snd (register_peer toy toy_env toy_peer (toy_rv 1))"
    using meet [where n = "toy_rv 1" and E = toy_env and C = toy and m = "toy_started 2" and conn = 10 and E' = toy_env
        and expected = None and outbound = True and remote = "''b''" and hello = "hello_frame 2" and rest = "[]", OF ok]
      toy_ids_differ toy_hello_fits [of 1] write_hello_frame lsa
    by (simp add: toy_known_def self hello toy_rv_more_simps toy_started_simps outside_window_def flip: toy_peer_def del: toy_public(2))
  have "nd_peers toy_known = AList.update (pr_id toy_peer) toy_peer (nd_peers (toy_rv 1))"
    unfolding m by (rule register_fresh(2) [OF ok writes_toy])
      (use toy_ids_differ lsa in \<open>simp_all add: toy_rv_more_simps self toy_peer_simps with_peer_def del: toy_public\<close>)
  then show "nd_peers toy_known = [(id_node (toy_identity 2), toy_peer)]" by (simp add: toy_rv_more_simps toy_peer_simps del: toy_public)
  have "node.more toy_known = node.more (toy_rv 1)"
    using establish_peer_only unfolding toy_known_def node_only_def by blast
  from cs_of_more [OF this] show "cs_relays toy_known = []" "cs_relay_in toy_known = []" by (simp_all add: toy_rv_more_simps)
qed

definition toy_create :: bytes where
  "toy_create = (case cell_marshal (cell_of circuit_create 9 (replicate 64 1)) of Inr bs \<Rightarrow> bs | Inl _ \<Rightarrow> [])"

definition toy_relaying :: rv_node where
  "toy_relaying = handle_frame toy toy_env (handle_local_packet toy toy_env (arr_of [])) (handle_circuit_cell toy toy_env (toy_draw 3)) toy_peer frame_circuit
     toy_create toy_known"

lemma toy_relaying_reachable: "system_reachable toy toy_relaying"
  unfolding toy_relaying_def by (rule system_reachable.step [OF toy_known_reachable system_step.frame]) (simp add: toy_known_simps)

lemma toy_relays: "cs_relays toy_relaying \<noteq> []"
proof -
  have "is_ok (cell_marshal (cell_of circuit_create 9 (replicate 64 1)))" by (simp add: cell_marshal_def cell_of_def circuit_create_def Let_def)
  then have c: "cell_parse toy_create = Inr ((cell_of circuit_create 9 (replicate 64 1))\<lparr>c_version := circuit_version\<rparr>)"
    by (intro cell_parse_marshal) (auto simp: toy_create_def is_ok_iff)
  have k: "is_ok (derive_circuit_hop toy (dw_private (toy_draw 3)) (replicate 32 1) (replicate 32 1) (dw_nonce (toy_draw 3)))"
    by (simp add: derive_circuit_hop_def shared_secret_def toy_def is_ok_iff Let_def split: prod.split)
  have "cs_relays (handle_create toy toy_env (toy_draw 3) toy_peer ((cell_of circuit_create 9 (replicate 64 1))\<lparr>c_version := circuit_version\<rparr>) m) \<noteq> []"
    if "cs_relays m = []" "cs_relay_in m = []" for m :: rv_node
    using that k by (auto simp: handle_create_def cell_of_def is_ok_iff Let_def split: prod.split)
  then show ?thesis
    using toy_known_simps(2,3)
    by (simp add: toy_relaying_def handle_frame_def c handle_circuit_cell_def cell_of_def frame_circuit_def frame_lsa_def frame_packet_def frame_ping_def
        frame_pong_def frame_pex_def circuit_create_def)
qed

lemma system_well_typed_witness:
  "\<exists>rc. rc \<in> set (cs_relays toy_relaying) \<and> length (rc_fwd rc) = 32 \<and> is_ok (fst (relay_wrap toy rc []))"
proof -
  have "hd (cs_relays toy_relaying) \<in> set (cs_relays toy_relaying)" using toy_relays by simp
  moreover have "\<forall>rc \<in> set (cs_relays toy_relaying). length (rc_fwd rc) = 32 \<and> length (rc_rev rc) = 32 \<and>
      (\<forall>plain. is_ok (fst (relay_wrap toy rc plain)))"
    by (rule system_well_typed [OF toy_relaying_reachable, THEN conjunct2, THEN conjunct1])
  ultimately show ?thesis by blast
qed

text \<open>C3. The tables of a node agree with each other whatever its components do: in every reachable state the registry
  has at most one connection per peer, each open and none to the node itself, the routing table is the one
  \<open>Compute\<close> gives for the stored announcements, the own announcement names exactly the connected peers, every
  stored descriptor was verified for the service it is stored under, and at most 200 events are kept.\<close>

theorem system_tables_consistent:
  assumes "system_reachable C n"
  shows "distinct (map fst (nd_peers n)) \<and> distinct (map (pr_conn \<circ> snd) (nd_peers n)) \<and>
    (\<forall>(i, p) \<in> set (nd_peers n). pr_id p = i \<and> i \<noteq> nd_self n \<and> pr_conn p \<in> set (nd_open n)) \<and>
    nd_routes n = compute (nd_self n) (nd_lsas n) \<and>
    (nd_started n \<longrightarrow> (\<exists>l. map_of (nd_lsas n) (nd_self n) = Some l \<and> l_neighbors l = Some (sort (map node_string (peer_ids n))))) \<and>
    (\<forall>(i, d) \<in> set (ds_descriptors n). \<exists>t. descriptor_verify C d t (nd_network n) = Inr i) \<and> length (nd_events n) \<le> 200"
proof -
  have n: "node_ok n" and d: "\<forall>(i, d) \<in> set (ds_descriptors n). authentic C (nd_network n) i d"
    using system_reachable_ok [OF assms] by (simp_all add: all_ok_def dir_ok_def)
  have "\<forall>(i, d) \<in> set (ds_descriptors n). \<exists>t. descriptor_verify C d t (nd_network n) = Inr i"
    using d by (simp add: authentic_def)
  with n show ?thesis unfolding node_ok_def peers_ok_def peer_ok_def tables_ok_def own_ok_def by blast
qed

lemma system_tables_consistent_witness:
  "nd_peers toy_known \<noteq> [] \<and> distinct (map fst (nd_peers toy_known)) \<and> length (nd_events toy_known) \<le> 200"
  using system_tables_consistent [OF toy_known_reachable] by (simp add: toy_known_simps)

subsection \<open>What \<open>Stop\<close> leaves\<close>






















end
