(* ===== verification/Mailbox.thy ===== *)
theory Mailbox
  imports Session
begin

section \<open>Mailboxes: identities and sealed messages\<close>

text \<open>
  \<open>pkg/knotmailbox/identity.go\<close>, \<open>crypto.go\<close> and \<open>crypto_std.go\<close>: the identity of a mailbox (a signing and an
  encryption key, named by the hash of both), its file, and messages sealed for a mailbox and opened by it.
  Random keys and nonces are arguments; the nil pointers that \<open>Seal\<close> and \<open>Open\<close> refuse have no counterpart. The lemmas: an identity survives its file, a sealed message opens,
  and an opened message is one its sender sealed for this mailbox.
\<close>

subsection \<open>Identities\<close>

datatype mail_id = MailID "32 barr"

fun mail_bytes :: "mail_id \<Rightarrow> bytes" where "mail_bytes (MailID a) = arr_bytes a"

definition mail_prefix :: string where "mail_prefix = ''km_''"

definition mail_string :: "mail_id \<Rightarrow> string" where
  "mail_string i = mail_prefix @ to_lower (b32_encode (mail_bytes i))"

definition mail_parse :: "string \<Rightarrow> mail_id result" where
  "mail_parse s =
     (if \<not> has_prefix s mail_prefix then Inl ''invalid mailbox id prefix''
      else (case id_payload mail_prefix s of
          Inl e \<Rightarrow> Inl ''invalid mailbox id''
        | Inr raw \<Rightarrow> if length raw \<noteq> 32 then Inl ''invalid mailbox id'' else Inr (MailID (arr_of raw))))"

record public_identity =
  pm_id :: string
  pm_signing :: string
  pm_encryption :: string

record mail_identity =
  mi_sign_private :: bytes
  mi_sign_public :: bytes
  mi_enc_private :: bytes
  mi_enc_public :: bytes
  mi_id :: mail_id

definition raw_std :: "bytes \<Rightarrow> string" where
  "raw_std = b64_raw_encode b64_std_alphabet"

definition raw_std_decode :: "string \<Rightarrow> bytes option" where
  "raw_std_decode = b64_raw_decode b64_std_alphabet"

definition raw_url :: "bytes \<Rightarrow> string" where
  "raw_url = b64_raw_encode b64_url_alphabet"

definition public_mail_id :: "crypto \<Rightarrow> bytes \<Rightarrow> bytes \<Rightarrow> mail_id" where
  "public_mail_id C signing encryption =
     MailID (sha256 C (string_bytes ''knotroute/mailbox/v1|'' @ signing @ encryption))"

definition new_mail_identity :: "crypto \<Rightarrow> bytes \<Rightarrow> bytes \<Rightarrow> bytes \<Rightarrow> mail_identity" where
  "new_mail_identity C sign_priv sign_pub enc_priv =
     (let enc_pub = x_public C enc_priv
      in \<lparr> mi_sign_private = sign_priv, mi_sign_public = sign_pub, mi_enc_private = enc_priv, mi_enc_public = enc_pub,
           mi_id = public_mail_id C sign_pub enc_pub \<rparr>)"

definition mail_generate :: "crypto \<Rightarrow> bytes \<Rightarrow> bytes \<Rightarrow> mail_identity" where
  "mail_generate C sign_priv enc_priv = new_mail_identity C sign_priv (ed_public sign_priv) enc_priv"

definition mail_public :: "mail_identity \<Rightarrow> public_identity" where
  "mail_public i = \<lparr> pm_id = mail_string (mi_id i), pm_signing = raw_std (mi_sign_public i),
     pm_encryption = raw_std (mi_enc_public i) \<rparr>"

definition public_verify :: "crypto \<Rightarrow> public_identity \<Rightarrow> (mail_id \<times> bytes \<times> bytes) result" where
  "public_verify C p =
     (case mail_parse (pm_id p) of Inl e \<Rightarrow> Inl e
      | Inr i \<Rightarrow>
          (case raw_std_decode (pm_signing p) of None \<Rightarrow> Inl ''invalid mailbox signing key''
           | Some signing \<Rightarrow>
               if length signing \<noteq> 32 then Inl ''invalid mailbox signing key''
               else (case raw_std_decode (pm_encryption p) of None \<Rightarrow> Inl ''invalid mailbox encryption key''
                 | Some encryption \<Rightarrow>
                     if length encryption \<noteq> 32 then Inl ''invalid mailbox encryption key''
                     else if public_mail_id C signing encryption \<noteq> i then Inl ''mailbox id does not match public keys''
                     else Inr (i, signing, encryption))))"

text \<open>An identity made from keys of the right size, and one whose signatures verify.\<close>

definition formed_mail :: "crypto \<Rightarrow> mail_identity \<Rightarrow> bool" where
  "formed_mail C i \<longleftrightarrow> length (mi_sign_private i) = 64 \<and> length (mi_enc_private i) = 32 \<and>
     i = mail_generate C (mi_sign_private i) (mi_enc_private i)"

definition good_mail :: "crypto \<Rightarrow> mail_identity \<Rightarrow> bool" where
  "good_mail C i \<longleftrightarrow> signs C (mi_sign_private i) \<and> formed_mail C i"

lemma raw_std_roundtrip [simp]: "raw_std_decode (raw_std bs) = Some bs"
  by (simp add: raw_std_def raw_std_decode_def)

lemma mail_parse_string [simp]: "mail_parse (mail_string i) = Inr i"
  by (cases i) (simp add: mail_parse_def mail_string_def)

interpretation mail_text: codec "\<lambda>_. True" mail_string "\<lambda>s. ok_option (mail_parse s)"
  by unfold_locales simp

lemma mail_string_inject [simp]: "mail_string i = mail_string j \<longleftrightarrow> i = j"
  using mail_text.enc_inj by blast

lemma formed_generated: "length priv = 64 \<Longrightarrow> length enc = 32 \<Longrightarrow> formed_mail C (mail_generate C priv enc)"
  by (simp add: formed_mail_def mail_generate_def new_mail_identity_def Let_def)

lemma good_generated: "signs C priv \<Longrightarrow> length enc = 32 \<Longrightarrow> good_mail C (mail_generate C priv enc)"
  by (simp add: good_mail_def signs_def formed_generated) (simp add: mail_generate_def new_mail_identity_def Let_def)

lemma good_formed: "good_mail C i \<Longrightarrow> formed_mail C i"
  by (simp add: good_mail_def)

lemma formed_mailD:
  assumes "formed_mail C i"
  shows "mi_sign_public i = ed_public (mi_sign_private i)" "length (mi_sign_public i) = 32"
    "mi_enc_public i = x_public C (mi_enc_private i)" "mi_id i = public_mail_id C (mi_sign_public i) (mi_enc_public i)"
proof -
  from assms have i: "i = mail_generate C (mi_sign_private i) (mi_enc_private i)" and s: "length (mi_sign_private i) = 64"
    by (auto simp: formed_mail_def)
  from i show "mi_sign_public i = ed_public (mi_sign_private i)" "mi_enc_public i = x_public C (mi_enc_private i)"
    "mi_id i = public_mail_id C (mi_sign_public i) (mi_enc_public i)"
    by (metis mail_generate_def mail_identity.select_convs new_mail_identity_def)+
  with s show "length (mi_sign_public i) = 32"
    by (simp add: ed_public_def)
qed

lemma public_verify_own:
  assumes "formed_mail C i" "dh_ok C"
  shows "public_verify C (mail_public i) = Inr (mi_id i, mi_sign_public i, mi_enc_public i)"
  using formed_mailD [OF assms(1)] dh_okD(1) [OF assms(2), of "mi_enc_private i"]
  by (simp add: public_verify_def mail_public_def)

lemma public_verify_InrD:
  assumes "public_verify C p = Inr (i, signing, encryption)"
  shows "i = public_mail_id C signing encryption" "length signing = 32" "length encryption = 32"
  using assms by (auto simp: public_verify_def split: sum.splits option.splits if_splits)

subsection \<open>The file of an identity\<close>

definition mail_file :: "mail_identity \<Rightarrow> bytes" where
  "mail_file i = marshal_indent
     [(''version'', jm_int 1), (''signing_private'', JStr (raw_std (mi_sign_private i))),
      (''encryption_private'', JStr (raw_std (mi_enc_private i)))] @ [0x0A]"

definition mail_save :: "io \<Rightarrow> bool \<Rightarrow> mail_identity \<Rightarrow> string \<Rightarrow> files \<Rightarrow> files \<times> unit result" where
  "mail_save io dir_is_dot i path fs =
     (case (if dir_is_dot then None else io ''mkdir'') of Some e \<Rightarrow> (fs, Inl e)
      | None \<Rightarrow>
          (case io ''write'' of Some e \<Rightarrow> (fs, Inl e)
           | None \<Rightarrow>
               (let fs' = fs(path \<mapsto> mail_file i)
                in case io ''chmod'' of Some e \<Rightarrow> (fs', Inl e) | None \<Rightarrow> (fs', Inr ()))))"

definition disk_mail :: "bytes \<Rightarrow> (int \<times> string \<times> string) option" where
  "disk_mail raw =
     do { j \<leftarrow> unmarshal raw; kvs \<leftarrow> jobject j;
          v \<leftarrow> field int_field ''version'' kvs 0;
          s \<leftarrow> field str_field ''signing_private'' kvs [];
          e \<leftarrow> field str_field ''encryption_private'' kvs [];
          Some (v, s, e) }"

definition mail_load :: "crypto \<Rightarrow> io \<Rightarrow> string \<Rightarrow> files \<Rightarrow> mail_identity result" where
  "mail_load C io path fs =
     (case read_file io path fs of Inl e \<Rightarrow> Inl e
      | Inr raw \<Rightarrow>
          (case disk_mail raw of None \<Rightarrow> Inl json_error
           | Some (v, s, e) \<Rightarrow>
               if v \<noteq> 1 then Inl (''unsupported mailbox identity version '' @ show_int v)
               else (case raw_std_decode s of None \<Rightarrow> Inl ''invalid mailbox signing private key''
                 | Some signing \<Rightarrow>
                     if length signing \<noteq> 64 then Inl ''invalid mailbox signing private key''
                     else (case raw_std_decode e of None \<Rightarrow> Inl ''invalid mailbox encryption private key''
                       | Some enc \<Rightarrow>
                           if length enc \<noteq> 32 then Inl ''invalid mailbox encryption private key''
                           else Inr (new_mail_identity C signing (ed_public signing) enc)))))"

lemma mail_load_save:
  assumes "formed_mail C i" "mail_save io dot i path fs = (fs', Inr ())" "io ''read'' = None"
  shows "mail_load C io path fs' = Inr i"
proof -
  have "fs' path = Some (mail_file i)"
    using assms(2) by (auto simp: mail_save_def Let_def split: option.splits if_splits)
  moreover have "disk_mail (mail_file i) = Some (1, raw_std (mi_sign_private i), raw_std (mi_enc_private i))"
    by (simp add: disk_mail_def mail_file_def unmarshal_marshal_indent jobject_def name_simps go_int_def)
  moreover have "length (mi_sign_private i) = 64" "length (mi_enc_private i) = 32"
    "i = new_mail_identity C (mi_sign_private i) (ed_public (mi_sign_private i)) (mi_enc_private i)"
    using assms(1) by (auto simp: formed_mail_def mail_generate_def)
  ultimately show ?thesis
    using assms(3) by (simp add: mail_load_def read_file_def)
qed

subsection \<open>Envelopes\<close>

record envelope =
  ev_version :: int
  ev_recipient :: string
  ev_ephemeral :: string
  ev_nonce :: string
  ev_ciphertext :: string
  ev_message :: string
  ev_created :: int64

record inner_message =
  im_sender :: public_identity
  im_created :: int64
  im_payload :: string
  im_signature :: string

record message =
  mg_id :: string
  mg_sender :: public_identity
  mg_created :: int64
  mg_payload :: bytes

definition public_json :: "public_identity \<Rightarrow> json" where
  "public_json p = JObj [(''id'', JStr (pm_id p)), (''signing_key'', JStr (pm_signing p)), (''encryption_key'', JStr (pm_encryption p))]"

definition public_field :: "public_identity \<Rightarrow> json \<Rightarrow> public_identity option" where
  "public_field z j =
     (case j of JNull \<Rightarrow> Some z
      | _ \<Rightarrow> do { kvs \<leftarrow> jobject j;
                 i \<leftarrow> field str_field ''id'' kvs (pm_id z);
                 s \<leftarrow> field str_field ''signing_key'' kvs (pm_signing z);
                 e \<leftarrow> field str_field ''encryption_key'' kvs (pm_encryption z);
                 Some \<lparr> pm_id = i, pm_signing = s, pm_encryption = e \<rparr> })"

definition zero_public :: public_identity where
  "zero_public = \<lparr> pm_id = [], pm_signing = [], pm_encryption = [] \<rparr>"

definition envelope_json :: "envelope \<Rightarrow> json" where
  "envelope_json e = JObj [(''version'', jm_int (ev_version e)), (''recipient_id'', JStr (ev_recipient e)),
     (''ephemeral_key'', JStr (ev_ephemeral e)), (''nonce'', JStr (ev_nonce e)), (''ciphertext'', JStr (ev_ciphertext e)),
     (''message_id'', JStr (ev_message e)), (''created_unix'', jm_int64 (ev_created e))]"

definition envelope_field :: "envelope \<Rightarrow> json \<Rightarrow> envelope option" where
  "envelope_field z j =
     (case j of JNull \<Rightarrow> Some z
      | _ \<Rightarrow> do { kvs \<leftarrow> jobject j;
                 v \<leftarrow> field int_field ''version'' kvs (ev_version z);
                 r \<leftarrow> field str_field ''recipient_id'' kvs (ev_recipient z);
                 k \<leftarrow> field str_field ''ephemeral_key'' kvs (ev_ephemeral z);
                 n \<leftarrow> field str_field ''nonce'' kvs (ev_nonce z);
                 c \<leftarrow> field str_field ''ciphertext'' kvs (ev_ciphertext z);
                 m \<leftarrow> field str_field ''message_id'' kvs (ev_message z);
                 t \<leftarrow> field int64_field ''created_unix'' kvs (ev_created z);
                 Some \<lparr> ev_version = v, ev_recipient = r, ev_ephemeral = k, ev_nonce = n, ev_ciphertext = c,
                        ev_message = m, ev_created = t \<rparr> })"

definition zero_envelope :: envelope where
  "zero_envelope = \<lparr> ev_version = 0, ev_recipient = [], ev_ephemeral = [], ev_nonce = [], ev_ciphertext = [],
     ev_message = [], ev_created = 0 \<rparr>"

definition envelope_marshal :: "envelope \<Rightarrow> bytes" where
  "envelope_marshal e = marshal (envelope_json e)"

definition envelope_unmarshal :: "bytes \<Rightarrow> envelope option" where
  "envelope_unmarshal raw = Option.bind (unmarshal raw) (envelope_field zero_envelope)"

definition inner_json :: "inner_message \<Rightarrow> json" where
  "inner_json m = JObj [(''sender'', public_json (im_sender m)), (''created_unix'', jm_int64 (im_created m)),
     (''payload'', JStr (im_payload m)), (''signature'', JStr (im_signature m))]"

definition inner_unmarshal :: "bytes \<Rightarrow> inner_message option" where
  "inner_unmarshal raw =
     do { j \<leftarrow> unmarshal raw; kvs \<leftarrow> jobject j;
          s \<leftarrow> field public_field ''sender'' kvs zero_public;
          t \<leftarrow> field int64_field ''created_unix'' kvs 0;
          p \<leftarrow> field str_field ''payload'' kvs [];
          g \<leftarrow> field str_field ''signature'' kvs [];
          Some \<lparr> im_sender = s, im_created = t, im_payload = p, im_signature = g \<rparr> }"

lemma public_field_json [simp]: "public_field z (public_json p) = Some p"
  by (simp add: public_field_def public_json_def jobject_def name_simps)

lemma envelope_field_json [simp]: "go_int (ev_version e) \<Longrightarrow> envelope_field z (envelope_json e) = Some e"
  by (simp add: envelope_field_def envelope_json_def jobject_def name_simps)

lemma mail_json_wf [simp]: "json_wf (public_json p)" "json_wf (envelope_json e)"
  by (simp_all add: public_json_def envelope_json_def)

lemma envelope_roundtrip: "go_int (ev_version e) \<Longrightarrow> envelope_unmarshal (envelope_marshal e) = Some e"
  by (simp add: envelope_unmarshal_def envelope_marshal_def unmarshal_marshal)

lemma inner_roundtrip [simp]: "inner_unmarshal (marshal (inner_json m)) = Some m"
proof -
  have "unmarshal (marshal (inner_json m)) = Some (inner_json m)"
    by (rule unmarshal_marshal) (simp add: inner_json_def)
  then show ?thesis
    by (simp add: inner_unmarshal_def inner_json_def jobject_def name_simps)
qed

subsection \<open>Sealing and opening\<close>

definition mail_hkdf :: "crypto \<Rightarrow> bytes \<Rightarrow> bytes \<Rightarrow> bytes \<Rightarrow> nat \<Rightarrow> bytes" where
  "mail_hkdf C secret salt info len = hkdf_expand C (hmac C salt secret) info len [] [] 1"

definition message_to_sign :: "crypto \<Rightarrow> string \<Rightarrow> int64 \<Rightarrow> bytes \<Rightarrow> bytes" where
  "message_to_sign C recipient created payload = string_bytes
     (''knotroute/mailbox/message/v1|'' @ recipient @ bar @ show_int (sint created) @ bar
      @ hex_encode (arr_bytes (sha256 C payload)))"

definition mail_sign :: "crypto \<Rightarrow> mail_identity \<Rightarrow> string \<Rightarrow> int64 \<Rightarrow> bytes \<Rightarrow> bytes" where
  "mail_sign C sender recipient created payload =
     ed_sign C (mi_sign_private sender) (message_to_sign C recipient created payload)"

definition mail_verify :: "crypto \<Rightarrow> bytes \<Rightarrow> string \<Rightarrow> int64 \<Rightarrow> bytes \<Rightarrow> bytes \<Rightarrow> bool" where
  "mail_verify C public recipient created payload sig \<longleftrightarrow>
     length public = 32 \<and> ed_verify C public (message_to_sign C recipient created payload) sig"

definition envelope_key :: "crypto \<Rightarrow> bytes \<Rightarrow> string \<Rightarrow> bytes" where
  "envelope_key C shared recipient =
     mail_hkdf C shared (string_bytes recipient) (string_bytes ''knotroute/mailbox/envelope/v1'') 32"

definition message_id :: "crypto \<Rightarrow> bytes \<Rightarrow> bytes \<Rightarrow> bytes \<Rightarrow> string" where
  "message_id C ephemeral nonce ciphertext = raw_url (arr_bytes (sha256 C (ephemeral @ nonce @ ciphertext)))"

text \<open>The ephemeral private key and the nonce of twelve bytes are what \<open>rand.Reader\<close> gave.\<close>

definition mail_seal ::
  "crypto \<Rightarrow> mail_identity \<Rightarrow> public_identity \<Rightarrow> bytes \<Rightarrow> time \<Rightarrow> bytes \<Rightarrow> bytes \<Rightarrow> envelope result" where
  "mail_seal C sender recipient payload now eph_priv nonce =
     (case public_verify C recipient of Inl e \<Rightarrow> Inl e
      | Inr (rid, _, rkey) \<Rightarrow>
          (let created = unix now; r = mail_string rid;
               inner = \<lparr> im_sender = mail_public sender, im_created = created, im_payload = raw_std payload,
                         im_signature = raw_std (mail_sign C sender r created payload) \<rparr>;
               plain = marshal (inner_json inner); eph = x_public C eph_priv
           in case shared_secret C eph_priv rkey of Inl e \<Rightarrow> Inl e
              | Inr shared \<Rightarrow>
                  (let c = gcm_seal C (envelope_key C shared r) nonce plain (string_bytes r)
                   in Inr \<lparr> ev_version = 1, ev_recipient = r, ev_ephemeral = raw_std eph, ev_nonce = raw_std nonce,
                            ev_ciphertext = raw_std c, ev_message = message_id C eph nonce c, ev_created = created \<rparr>)))"

definition mail_open_inner :: "crypto \<Rightarrow> string \<Rightarrow> string \<Rightarrow> bytes \<Rightarrow> message result" where
  "mail_open_inner C r mid plain =
     (case inner_unmarshal plain of None \<Rightarrow> Inl json_error
      | Some m \<Rightarrow>
          (case public_verify C (im_sender m) of Inl e \<Rightarrow> Inl e
           | Inr (_, signing, _) \<Rightarrow>
               (case raw_std_decode (im_payload m) of None \<Rightarrow> Inl ''invalid mailbox payload''
                | Some payload \<Rightarrow>
                    (case raw_std_decode (im_signature m) of None \<Rightarrow> Inl ''invalid mailbox sender signature''
                     | Some sig \<Rightarrow>
                         if \<not> mail_verify C signing r (im_created m) payload sig then Inl ''invalid mailbox sender signature''
                         else Inr \<lparr> mg_id = mid, mg_sender = im_sender m, mg_created = im_created m, mg_payload = payload \<rparr>))))"

definition mail_open :: "crypto \<Rightarrow> mail_identity \<Rightarrow> envelope \<Rightarrow> message result" where
  "mail_open C recipient e =
     (let r = mail_string (mi_id recipient) in
      if ev_version e \<noteq> 1 \<or> ev_recipient e \<noteq> r then Inl ''mailbox envelope recipient mismatch''
      else (case raw_std_decode (ev_ephemeral e) of None \<Rightarrow> Inl ''invalid envelope ephemeral key''
        | Some eph \<Rightarrow>
            if length eph \<noteq> 32 then Inl ''invalid envelope ephemeral key''
            else (case raw_std_decode (ev_nonce e) of None \<Rightarrow> Inl ''invalid envelope nonce''
              | Some nonce \<Rightarrow>
                  (case raw_std_decode (ev_ciphertext e) of None \<Rightarrow> Inl ''invalid envelope ciphertext''
                   | Some c \<Rightarrow>
                       if message_id C eph nonce c \<noteq> ev_message e then Inl ''mailbox envelope id mismatch''
                       else (case shared_secret C (mi_enc_private recipient) eph of Inl err \<Rightarrow> Inl err
                         | Inr shared \<Rightarrow>
                             if length nonce \<noteq> 12 then Inl ''invalid envelope nonce size''
                             else (case gcm_open C (envelope_key C shared r) nonce c (string_bytes r) of
                                 None \<Rightarrow> Inl ''decrypt mailbox envelope''
                               | Some plain \<Rightarrow> mail_open_inner C r (ev_message e) plain))))))"

lemma mail_open_verified:
  assumes "formed_mail C sender" "formed_mail C recipient" "aead_ok C" "dh_ok C" "length nonce = 12"
    and "mail_seal C sender (mail_public recipient) payload now eph nonce = Inr e"
    and sig: "mail_verify C (mi_sign_public sender) (mail_string (mi_id recipient)) (unix now) payload
      (mail_sign C sender (mail_string (mi_id recipient)) (unix now) payload)"
  shows "mail_open C recipient e =
    Inr \<lparr> mg_id = ev_message e, mg_sender = mail_public sender, mg_created = unix now, mg_payload = payload \<rparr>"
proof -
  let ?r = "mail_string (mi_id recipient)"
  let ?m = "\<lparr> im_sender = mail_public sender, im_created = unix now, im_payload = raw_std payload,
              im_signature = raw_std (mail_sign C sender ?r (unix now) payload) \<rparr>"
  obtain shared where sh: "shared_secret C eph (mi_enc_public recipient) = Inr shared"
    and e: "e = (let c = gcm_seal C (envelope_key C shared ?r) nonce (marshal (inner_json ?m)) (string_bytes ?r)
      in \<lparr> ev_version = 1, ev_recipient = ?r, ev_ephemeral = raw_std (x_public C eph), ev_nonce = raw_std nonce,
           ev_ciphertext = raw_std c, ev_message = message_id C (x_public C eph) nonce c, ev_created = unix now \<rparr>)"
    using assms(6) by (auto simp: mail_seal_def public_verify_own [OF assms(2,4)] Let_def split: sum.splits)
  have "shared_secret C (mi_enc_private recipient) (x_public C eph) = Inr shared"
    using sh formed_mailD(3) [OF assms(2)] shared_secret_agree [OF assms(4)] by simp
  then show ?thesis
    using assms(5) sig by (simp add: e mail_open_def Let_def dh_okD(1) [OF assms(4)] aead_okD(1) [OF assms(3)] mail_open_inner_def
        public_verify_own [OF assms(1,4)])
qed

lemma mail_verify_signed:
  "good_mail C sender \<Longrightarrow> mail_verify C (mi_sign_public sender) r created payload (mail_sign C sender r created payload)"
  using formed_mailD [of C sender] by (simp add: good_mail_def mail_verify_def mail_sign_def signsD)

lemma mail_open_sealed:
  assumes "good_mail C sender" "good_mail C recipient" "aead_ok C" "dh_ok C" "length nonce = 12"
    and "mail_seal C sender (mail_public recipient) payload now eph nonce = Inr e"
  shows "mail_open C recipient e =
    Inr \<lparr> mg_id = ev_message e, mg_sender = mail_public sender, mg_created = unix now, mg_payload = payload \<rparr>"
  using assms by (intro mail_open_verified mail_verify_signed good_formed)

text \<open>What an opened message guarantees: the key its sender is named after has signed it.\<close>

lemma mail_open_InrD:
  assumes "mail_open C recipient e = Inr m"
  obtains i signing enc sig where "public_verify C (mg_sender m) = Inr (i, signing, enc)"
    "ed_verify C signing (message_to_sign C (mail_string (mi_id recipient)) (mg_created m) (mg_payload m)) sig"
    "mg_id m = ev_message e" "ev_recipient e = mail_string (mi_id recipient)"
  using assms
  by (auto simp: mail_open_def mail_open_inner_def mail_verify_def Let_def split: if_splits option.splits sum.splits prod.splits)

text \<open>The shape of what \<open>Seal\<close> makes.\<close>

lemma mail_seal_shape:
  assumes "mail_seal C sender p payload now eph nonce = Inr e"
  shows "ev_version e = 1" "ev_created e = unix now" "\<exists>h. ev_message e = raw_url (arr_bytes (h :: 32 barr))"
    "\<exists>i. ev_recipient e = mail_string i"
  using assms by (auto simp: mail_seal_def Let_def message_id_def split: sum.splits prod.splits)

text \<open>The time an envelope says it was made, by which stores expire and order it, is not authenticated.\<close>

lemma created_unauthenticated: "mail_open C r (e\<lparr>ev_created := t\<rparr>) = mail_open C r e"
  by (simp add: mail_open_def Let_def cong: option.case_cong sum.case_cong if_cong)

end
