(* ===== verification/Mailbox_Store.thy ===== *)
theory Mailbox_Store
  imports Mailbox
begin

section \<open>Mailboxes: the store of envelopes\<close>

text \<open>
  \<open>pkg/knotmailbox/store.go\<close>: one directory per recipient, one file per envelope. The file system is a tree of
  paths that every operation takes and gives back; \<open>path_join\<close> is \<open>filepath.Join\<close> on Unix. \<open>io\<close> gives the error of
  an operation on a path, if it has one. The temporary file of \<open>Put\<close> is gone when \<open>Put\<close> returns and is left
  out; subdirectories, which the loops skip, are no entries of \<open>read_dir\<close>. \<open>mail_store_laws\<close> is the contract
  behind the interface \<open>Store\<close>.
\<close>

subsection \<open>Paths\<close>

abbreviation slash :: char where "slash \<equiv> CHR ''/''"

definition path_step :: "bool \<Rightarrow> string \<Rightarrow> string list \<Rightarrow> string list" where
  "path_step rooted c st =
     (if c = [] \<or> c = ''.'' then st
      else if c = ''..'' then
        (case st of [] \<Rightarrow> if rooted then [] else [''..''] | t # r \<Rightarrow> if t = ''..'' then ''..'' # st else r)
      else c # st)"

definition show_path :: "bool \<Rightarrow> string list \<Rightarrow> string" where
  "show_path rooted st =
     (if rooted then ''/'' @ join ''/'' (rev st) else if st = [] then ''.'' else join ''/'' (rev st))"

definition path_clean :: "string \<Rightarrow> string" where
  "path_clean s =
     (let rooted = has_prefix s ''/'' in show_path rooted (fold (path_step rooted) (split_on slash s) []))"

definition path_join :: "string \<Rightarrow> string \<Rightarrow> string" where
  "path_join a b =
     (if a = [] \<and> b = [] then [] else if a = [] then path_clean b else if b = [] then path_clean a
      else path_clean (a @ ''/'' @ b))"

definition plain_name :: "string \<Rightarrow> bool" where
  "plain_name n \<longleftrightarrow> slash \<notin> set n \<and> n \<noteq> [] \<and> n \<noteq> ''.'' \<and> n \<noteq> ''..''"

fun good_stack :: "bool \<Rightarrow> string list \<Rightarrow> bool" where
  "good_stack rooted [] = True"
| "good_stack rooted (t # r) \<longleftrightarrow> good_stack rooted r \<and> slash \<notin> set t \<and> t \<noteq> [] \<and> t \<noteq> ''.'' \<and>
     (t = ''..'' \<longrightarrow> \<not> rooted \<and> (r = [] \<or> hd r = ''..''))"

lemma good_step: "good_stack r st \<Longrightarrow> slash \<notin> set c \<Longrightarrow> good_stack r (path_step r c st)"
  by (cases st) (auto simp: path_step_def)

lemma good_fold: "good_stack r st \<Longrightarrow> \<forall>c \<in> set cs. slash \<notin> set c \<Longrightarrow> good_stack r (fold (path_step r) cs st)"
  by (induction cs arbitrary: st) (auto intro: good_step)

lemma split_on_slashless: "c \<in> set (split_on x s) \<Longrightarrow> x \<notin> set c"
proof (induction s arbitrary: c)
  case (Cons a s)
  then show ?case by (cases "split_on x s") (auto split: if_splits)
qed simp

lemma split_on_sep: "split_on x (s @ x # t) = split_on x s @ split_on x t"
proof (induction s)
  case (Cons a s)
  show ?case
  proof (cases "split_on x s")
    case Nil
    then show ?thesis using split_on_nonempty [of x s] by blast
  next
    case c: (Cons b bs)
    with Cons show ?thesis by (cases "split_on x (s @ x # t)") auto
  qed
qed simp

lemma split_on_join: "cs \<noteq> [] \<Longrightarrow> \<forall>c \<in> set cs. slash \<notin> set c \<Longrightarrow> split_on slash (join ''/'' cs) = cs"
proof (induction cs rule: list_nonempty_induct)
  case (single x)
  then show ?case by (simp add: split_on_single)
next
  case (cons x xs)
  then have "join ''/'' (x # xs) = x @ slash # join ''/'' xs"
    by (cases xs) auto
  with cons show ?case by (simp add: split_on_append)
qed

lemma good_stackD: "good_stack r st \<Longrightarrow> c \<in> set st \<Longrightarrow> slash \<notin> set c"
  by (induction st) auto

lemma good_stack_parts: "good_stack r st \<Longrightarrow> c \<in> set st \<Longrightarrow> c \<noteq> []"
  by (induction st) auto

lemma path_step_top: "good_stack r (t # st) \<Longrightarrow> path_step r t st = t # st"
  by (cases st) (auto simp: path_step_def)

lemma fold_good: "good_stack r st \<Longrightarrow> fold (path_step r) (rev st) [] = st"
proof (induction st)
  case (Cons t st)
  then have "fold (path_step r) (rev st) [] = st" by simp
  with path_step_top [OF Cons.prems] show ?case by simp
qed simp

lemma path_step_plain: "plain_name n \<Longrightarrow> path_step r n st = n # st"
  by (simp add: path_step_def plain_name_def)

lemma split_show_path:
  assumes "good_stack r st" "st \<noteq> []"
  shows "has_prefix (show_path r st @ x) ''/'' = r" "fold (path_step r) (split_on slash (show_path r st)) [] = st"
    "split_on slash (show_path r st) = (if r then [] # rev st else rev st)"
proof -
  have j: "split_on slash (join ''/'' (rev st)) = rev st"
    using assms good_stackD by (intro split_on_join) auto
  then show sp: "split_on slash (show_path r st) = (if r then [] # rev st else rev st)"
    using assms(2) by (simp add: show_path_def)
  then show "fold (path_step r) (split_on slash (show_path r st)) [] = st"
    using fold_good [OF assms(1)] by (cases r) (simp_all add: path_step_def [of _ "[]"])
  obtain t u where t: "rev st = t # u" using assms(2) by (cases "rev st") auto
  then have "t \<in> set st" by (metis list.set_intros(1) set_rev)
  then have "slash \<notin> set t" "t \<noteq> []"
    using assms(1) good_stackD good_stack_parts by blast+
  then obtain a v where a: "t = a # v" "a \<noteq> slash" by (cases t) auto
  have "\<exists>w. join ''/'' (rev st) = a # w" using t a by (cases u) auto
  then show "has_prefix (show_path r st @ x) ''/'' = r"
    using a(2) assms(2) by (auto simp: show_path_def has_prefix_def)
qed

lemma show_path_nonempty: "good_stack r st \<Longrightarrow> st \<noteq> [] \<Longrightarrow> show_path r st \<noteq> []"
proof
  assume a: "good_stack r st" "st \<noteq> []" "show_path r st = []"
  then have "(if r then [] # rev st else rev st) = [[]]"
    using split_show_path(3) [OF a(1,2)] by simp
  then have "[] \<in> set st"
    using a(2) by (metis list.inject list.set_intros(1) rev_is_Nil_conv set_rev)
  then show False using good_stack_parts [OF a(1)] by blast
qed

lemma show_path_inject:
  assumes "good_stack r st" "good_stack r su" "st \<noteq> []" "su \<noteq> []" "show_path r st = show_path r su"
  shows "st = su"
proof -
  have "st = fold (path_step r) (split_on slash (show_path r st)) []"
    by (rule split_show_path(2) [OF assms(1,3), symmetric])
  also have "\<dots> = su"
    unfolding assms(5) by (rule split_show_path(2) [OF assms(2,4)])
  finally show ?thesis .
qed

text \<open>A plain name is joined to a clean path unchanged.\<close>

lemma join_plain:
  assumes "good_stack r st" "st \<noteq> []" "plain_name n"
  shows "path_join (show_path r st) n = show_path r (n # st)"
proof -
  have n: "n \<noteq> []" "slash \<notin> set n" using assms(3) by (auto simp: plain_name_def)
  have "split_on slash (show_path r st @ slash # n) = split_on slash (show_path r st) @ [n]"
    using n(2) by (simp add: split_on_sep split_on_single)
  moreover have "has_prefix (show_path r st @ slash # n) ''/'' = r"
    by (rule split_show_path(1) [OF assms(1,2)])
  ultimately show ?thesis
    using show_path_nonempty [OF assms(1,2)] n(1) split_show_path(2) [OF assms(1,2)]
    by (simp add: path_join_def path_clean_def path_step_plain [OF assms(3)])
qed

lemma show_path_Cons: "st \<noteq> [] \<Longrightarrow> show_path r (n # st) = show_path r st @ ''/'' @ n"
proof -
  assume "st \<noteq> []"
  moreover have "join ''/'' (cs @ [n]) = join ''/'' cs @ ''/'' @ n" if "cs \<noteq> []" for cs
    using that by (induction cs rule: list_nonempty_induct) (auto simp: neq_Nil_conv)
  ultimately show ?thesis by (simp add: show_path_def)
qed

subsection \<open>Files and directories\<close>

record tree =
  tr_files :: "(string \<times> bytes) list"
  tr_dirs :: "string list"

type_synonym path_io = "string \<Rightarrow> string \<Rightarrow> error option"

definition ancestors :: "string \<Rightarrow> string list" where
  "ancestors d = map (\<lambda>k. take k d) (filter (\<lambda>k. 0 < k \<and> d ! k = slash) [0..<length d])"

definition mkdir_all :: "path_io \<Rightarrow> string \<Rightarrow> tree \<Rightarrow> tree \<times> unit result" where
  "mkdir_all io d t =
     (case io ''mkdir'' d of Some e \<Rightarrow> (t, Inl e)
      | None \<Rightarrow>
          if list_ex (\<lambda>p. p \<in> set (map fst (tr_files t))) (d # ancestors d) then (t, Inl ''not a directory'')
          else (t\<lparr>tr_dirs := filter (\<lambda>p. p \<notin> set (tr_dirs t)) (d # ancestors d) @ tr_dirs t\<rparr>, Inr ()))"

definition child_name :: "string \<Rightarrow> string \<Rightarrow> string option" where
  "child_name d p =
     (let n = drop (length d + 1) p
      in if has_prefix p (d @ ''/'') \<and> plain_name n then Some n else None)"

definition dir_names :: "string \<Rightarrow> tree \<Rightarrow> string list" where
  "dir_names d t = sort (List.map_filter (\<lambda>(p, _). child_name d p) (tr_files t))"

definition read_dir :: "path_io \<Rightarrow> string \<Rightarrow> tree \<Rightarrow> string list result" where
  "read_dir io d t =
     (case io ''readdir'' d of Some e \<Rightarrow> Inl e
      | None \<Rightarrow> if d \<in> set (tr_dirs t) then Inr (dir_names d t) else Inl not_exist)"

definition read_tree :: "path_io \<Rightarrow> string \<Rightarrow> tree \<Rightarrow> bytes result" where
  "read_tree io p t =
     (case io ''read'' p of Some e \<Rightarrow> Inl e
      | None \<Rightarrow> (case map_of (tr_files t) p of None \<Rightarrow> Inl not_exist | Some raw \<Rightarrow> Inr raw))"

definition remove_file :: "path_io \<Rightarrow> string \<Rightarrow> tree \<Rightarrow> tree \<times> unit result" where
  "remove_file io p t =
     (case io ''remove'' p of Some e \<Rightarrow> (t, Inl e)
      | None \<Rightarrow> if p \<in> set (map fst (tr_files t)) then (t\<lparr>tr_files := AList.delete p (tr_files t)\<rparr>, Inr ())
               else (t, Inl not_exist))"

definition stat_ok :: "path_io \<Rightarrow> string \<Rightarrow> tree \<Rightarrow> bool" where
  "stat_ok io p t \<longleftrightarrow> io ''stat'' p = None \<and> p \<in> set (map fst (tr_files t)) \<union> set (tr_dirs t)"

text \<open>The directory a path is in. The temporary file is created in \<open>d\<close>, written, closed and renamed to \<open>p\<close>.\<close>

definition parent_dir :: "string \<Rightarrow> string" where
  "parent_dir p = (if ancestors p = [] then (if has_prefix p ''/'' then ''/'' else ''.'') else last (ancestors p))"

definition create_renamed :: "path_io \<Rightarrow> string \<Rightarrow> string \<Rightarrow> bytes \<Rightarrow> tree \<Rightarrow> tree \<times> unit result" where
  "create_renamed io d p raw t =
     (case io ''create'' d of Some e \<Rightarrow> (t, Inl e)
      | None \<Rightarrow>
          (case io ''write'' d of Some e \<Rightarrow> (t, Inl e)
           | None \<Rightarrow>
               (case io ''close'' d of Some e \<Rightarrow> (t, Inl e)
                | None \<Rightarrow>
                    (case io ''rename'' p of Some e \<Rightarrow> (t, Inl e)
                     | None \<Rightarrow>
                         if parent_dir p \<notin> {''/'', ''.''} \<union> set (tr_dirs t) then (t, Inl not_exist)
                         else if p \<in> set (tr_dirs t) then (t, Inl ''file exists'')
                         else (t\<lparr>tr_files := AList.update p raw (tr_files t)\<rparr>, Inr ())))))"

subsection \<open>FileStore\<close>

record store_config =
  fs_directory :: string
  fs_ttl :: int
  fs_max :: int

definition store_ttl :: "store_config \<Rightarrow> int" where
  "store_ttl cfg = (if fs_ttl cfg \<le> 0 then 14 * 24 * (60 * minutes 1) else fs_ttl cfg)"

definition store_max :: "store_config \<Rightarrow> int" where
  "store_max cfg = (if fs_max cfg \<le> 0 then 1000 else fs_max cfg)"

definition store_dir :: "store_config \<Rightarrow> mail_id \<Rightarrow> string" where
  "store_dir cfg i = path_join (fs_directory cfg) (mail_string i)"

definition store_path :: "store_config \<Rightarrow> mail_id \<Rightarrow> string \<Rightarrow> string" where
  "store_path cfg i m = path_join (store_dir cfg i) (m @ ''.json'')"

definition store_cutoff :: "store_config \<Rightarrow> time \<Rightarrow> int64" where
  "store_cutoff cfg now = unix (now - store_ttl cfg)"

definition load_envelope :: "path_io \<Rightarrow> string \<Rightarrow> tree \<Rightarrow> envelope option" where
  "load_envelope io p t = (case read_tree io p t of Inl _ \<Rightarrow> None | Inr raw \<Rightarrow> envelope_unmarshal raw)"

definition expired :: "int64 \<Rightarrow> envelope \<Rightarrow> bool" where
  "expired cutoff e \<longleftrightarrow> sint (ev_created e) < sint cutoff"

text \<open>The loop of \<open>Put\<close> counts what is left, the loop of \<open>List\<close> collects it.\<close>

fun put_sweep :: "path_io \<Rightarrow> string \<Rightarrow> int64 \<Rightarrow> string list \<Rightarrow> tree \<Rightarrow> nat \<times> tree" where
  "put_sweep io d cutoff [] t = (0, t)"
| "put_sweep io d cutoff (n # ns) t =
     (let p = path_join d n in
      if (case load_envelope io p t of None \<Rightarrow> False | Some e \<Rightarrow> expired cutoff e)
      then put_sweep io d cutoff ns (fst (remove_file io p t))
      else (case put_sweep io d cutoff ns t of (live, t') \<Rightarrow> (Suc live, t')))"

fun list_sweep :: "path_io \<Rightarrow> string \<Rightarrow> int64 \<Rightarrow> string list \<Rightarrow> tree \<Rightarrow> envelope list \<times> tree" where
  "list_sweep io d cutoff [] t = ([], t)"
| "list_sweep io d cutoff (n # ns) t =
     (let p = path_join d n in
      case load_envelope io p t of None \<Rightarrow> list_sweep io d cutoff ns t
      | Some e \<Rightarrow>
          if expired cutoff e then list_sweep io d cutoff ns (fst (remove_file io p t))
          else (case list_sweep io d cutoff ns t of (es, t') \<Rightarrow> (e # es, t')))"

definition store_put :: "path_io \<Rightarrow> store_config \<Rightarrow> time \<Rightarrow> envelope \<Rightarrow> tree \<Rightarrow> tree \<times> unit result" where
  "store_put io cfg now e t =
     (case mail_parse (ev_recipient e) of Inl err \<Rightarrow> (t, Inl err)
      | Inr i \<Rightarrow>
          (let d = store_dir cfg i in
           case mkdir_all io d t of (t1, Inl err) \<Rightarrow> (t1, Inl err)
           | (t1, Inr _) \<Rightarrow>
               (let names = (case read_dir io d t1 of Inl _ \<Rightarrow> [] | Inr ns \<Rightarrow> ns) in
                case put_sweep io d (store_cutoff cfg now) names t1 of (live, t2) \<Rightarrow>
                  (let p = store_path cfg i (ev_message e) in
                   if stat_ok io p t2 then (t2, Inr ())
                   else if int live \<ge> store_max cfg then (t2, Inl ''mailbox recipient capacity reached'')
                   else create_renamed io d p (envelope_marshal e) t2))))"

definition created_less :: "envelope \<Rightarrow> envelope \<Rightarrow> bool" where
  "created_less a b \<longleftrightarrow> sint (ev_created a) < sint (ev_created b)"

text \<open>\<open>sort.Slice\<close> leaves the order of envelopes of the same second open; here it is that of their names.\<close>

definition store_list :: "path_io \<Rightarrow> store_config \<Rightarrow> time \<Rightarrow> mail_id \<Rightarrow> int \<Rightarrow> tree \<Rightarrow> tree \<times> envelope list result" where
  "store_list io cfg now i limit t =
     (let d = store_dir cfg i in
      case read_dir io d t of
        Inl err \<Rightarrow> if err = not_exist then (t, Inr []) else (t, Inl err)
      | Inr ns \<Rightarrow>
          (case list_sweep io d (store_cutoff cfg now) ns t of (out, t') \<Rightarrow>
             (let out = sort_by created_less out
              in (t', Inr (if limit > 0 \<and> int (length out) > limit then take (nat limit) out else out)))))"

definition token_char :: "char \<Rightarrow> bool" where
  "token_char c \<longleftrightarrow> (let k = of_char c :: nat in
     65 \<le> k \<and> k \<le> 90 \<or> 97 \<le> k \<and> k \<le> 122 \<or> 48 \<le> k \<and> k \<le> 57 \<or> k = 45 \<or> k = 95)"

fun store_delete :: "path_io \<Rightarrow> store_config \<Rightarrow> mail_id \<Rightarrow> string list \<Rightarrow> tree \<Rightarrow> tree \<times> unit result" where
  "store_delete io cfg i [] t = (t, Inr ())"
| "store_delete io cfg i (m # ms) t =
     (if m = [] then store_delete io cfg i ms t
      else if \<not> list_all token_char m then (t, Inl ''invalid message id'')
      else (case remove_file io (store_path cfg i m) t of
          (t', Inl err) \<Rightarrow> if err = not_exist then store_delete io cfg i ms t' else (t', Inl err)
        | (t', Inr _) \<Rightarrow> store_delete io cfg i ms t'))"

text \<open>The interface \<open>Store\<close> of \<open>protocol.go\<close>, and the store above as a value of it.\<close>

record 's mail_store =
  ms_put :: "envelope \<Rightarrow> 's \<Rightarrow> 's \<times> unit result"
  ms_list :: "mail_id \<Rightarrow> int \<Rightarrow> 's \<Rightarrow> 's \<times> envelope list result"
  ms_delete :: "mail_id \<Rightarrow> string list \<Rightarrow> 's \<Rightarrow> 's \<times> unit result"

definition file_store :: "path_io \<Rightarrow> store_config \<Rightarrow> time \<Rightarrow> tree mail_store" where
  "file_store io cfg now =
     \<lparr> ms_put = store_put io cfg now, ms_list = store_list io cfg now, ms_delete = store_delete io cfg \<rparr>"

definition url_token :: "string \<Rightarrow> bool" where
  "url_token m \<longleftrightarrow> m \<noteq> [] \<and> list_all token_char m"

subsection \<open>Where envelopes are kept\<close>

lemma lower_b32_slashless: "slash \<notin> set (to_lower (b32_encode bs))"
proof -
  have "\<forall>c \<in> set b32_alphabet. lower_char c \<noteq> slash"
    by (simp add: b32_alphabet_def lower_char_def char_of_eq_iff)
  then show ?thesis
    using set_b32_encode [of bs] by (auto simp: to_lower_def)
qed

lemma mail_string_slashless: "slash \<notin> set (mail_string i)" "\<exists>x. mail_string i = CHR ''k'' # CHR ''m'' # x"
  using lower_b32_slashless [of "mail_bytes i"] by (auto simp: mail_string_def mail_prefix_def)

lemma mail_string_plain: "plain_name (mail_string i)"
  using mail_string_slashless [of i] by (auto simp: plain_name_def)

text \<open>The components of the directory of all mailboxes.\<close>

definition root_kind :: "store_config \<Rightarrow> bool" where
  "root_kind cfg = has_prefix (fs_directory cfg) ''/''"

definition root_stack :: "store_config \<Rightarrow> string list" where
  "root_stack cfg = fold (path_step (root_kind cfg)) (split_on slash (fs_directory cfg)) []"

lemma plain_good: "good_stack r st \<Longrightarrow> plain_name n \<Longrightarrow> good_stack r (n # st)"
  by (auto simp: plain_name_def)

lemma root_good: "good_stack (root_kind cfg) (root_stack cfg)"
  unfolding root_stack_def by (rule good_fold) (auto dest: split_on_slashless)

lemma store_stack_good:
  "good_stack (root_kind cfg) (mail_string i # root_stack cfg)"
  "plain_name n \<Longrightarrow> good_stack (root_kind cfg) (n # mail_string i # root_stack cfg)"
  using plain_good [OF root_good mail_string_plain] plain_good by blast+

lemma store_dir_show: "store_dir cfg i = show_path (root_kind cfg) (mail_string i # root_stack cfg)"
proof (cases "fs_directory cfg = []")
  case True
  then have "root_kind cfg = False" "root_stack cfg = []"
    by (simp_all add: root_kind_def root_stack_def has_prefix_def path_step_def)
  moreover have "\<not> has_prefix (mail_string i) ''/''" "mail_string i \<noteq> []"
    using mail_string_slashless(2) [of i] by (auto simp: has_prefix_def)
  ultimately show ?thesis
    using True mail_string_slashless(1) [of i]
    by (simp add: store_dir_def path_join_def path_clean_def split_on_single path_step_plain [OF mail_string_plain])
next
  case False
  have "has_prefix (fs_directory cfg @ slash # mail_string i) ''/'' = root_kind cfg"
    using False by (cases "fs_directory cfg") (auto simp: root_kind_def has_prefix_def)
  then show ?thesis
    using False mail_string_slashless [of i]
    by (auto simp: store_dir_def path_join_def path_clean_def split_on_sep split_on_single root_stack_def
        path_step_plain [OF mail_string_plain])
qed

lemma store_child: "plain_name n \<Longrightarrow> path_join (store_dir cfg i) n = store_dir cfg i @ ''/'' @ n"
  by (simp add: store_dir_show join_plain [OF store_stack_good(1)] show_path_Cons)

lemma store_child_show:
  "store_dir cfg i @ ''/'' @ n = show_path (root_kind cfg) (n # mail_string i # root_stack cfg)"
  by (simp add: store_dir_show show_path_Cons)

lemma store_child_inject:
  assumes "store_dir cfg i @ ''/'' @ n = store_dir cfg j @ ''/'' @ k" "slash \<notin> set n" "slash \<notin> set k"
  shows "i = j \<and> n = k"
proof -
  have "split_on slash (store_dir cfg i) @ [n] = split_on slash (store_dir cfg j) @ [k]"
    using arg_cong [OF assms(1), of "split_on slash"] assms(2,3) by (simp add: split_on_sep split_on_single)
  then have "n = k" "store_dir cfg i = store_dir cfg j"
    using assms(1) by auto
  moreover have "mail_string i # root_stack cfg = mail_string j # root_stack cfg"
    using calculation(2) unfolding store_dir_show
    by (rule show_path_inject [OF store_stack_good(1) store_stack_good(1), rotated 2]) simp_all
  ultimately show ?thesis by simp
qed

lemma child_name_SomeD: "child_name d p = Some n \<Longrightarrow> p = d @ ''/'' @ n \<and> plain_name n"
  by (auto simp: child_name_def Let_def split: if_splits elim: has_prefixE)

lemma child_name_child [simp]: "plain_name n \<Longrightarrow> child_name d (d @ slash # n) = Some n"
  by (simp add: child_name_def has_prefix_def)

lemma set_dir_names: "n \<in> set (dir_names d t) \<longleftrightarrow> d @ ''/'' @ n \<in> set (map fst (tr_files t)) \<and> plain_name n"
proof -
  have "n \<in> set (dir_names d t) \<longleftrightarrow> (\<exists>p \<in> set (map fst (tr_files t)). child_name d p = Some n)"
    by (force simp: dir_names_def List.map_filter_def)
  moreover have "child_name d p = Some n \<longleftrightarrow> p = d @ ''/'' @ n \<and> plain_name n" for p
    using child_name_SomeD [of d p n] by auto
  ultimately show ?thesis by auto
qed

lemma distinct_dir_names:
  assumes "distinct (map fst (tr_files t))"
  shows "distinct (dir_names d t)"
proof -
  have "distinct (List.map_filter (\<lambda>(p, _). child_name d p) fs)" if "distinct (map fst fs)" for fs :: "(string \<times> bytes) list"
    using that
  proof (induction fs)
    case (Cons x fs)
    have "n \<notin> set (List.map_filter (\<lambda>(p, _). child_name d p) fs)" if "child_name d (fst x) = Some n" for n
      using that Cons.prems by (force simp: List.map_filter_def dest: child_name_SomeD)
    with Cons show ?case
      by (cases x; cases "child_name d (fst x)") (simp_all add: List.map_filter_simps)
  qed (simp add: List.map_filter_simps)
  then show ?thesis using assms by (simp add: dir_names_def)
qed

subsection \<open>What the loops remove\<close>

text \<open>Only files with expired envelopes disappear.\<close>

definition purged :: "int64 \<Rightarrow> tree \<Rightarrow> tree \<Rightarrow> bool" where
  "purged cutoff t t' \<longleftrightarrow> tr_dirs t' = tr_dirs t \<and>
     (distinct (map fst (tr_files t)) \<longrightarrow> distinct (map fst (tr_files t'))) \<and>
     (\<forall>p. map_of (tr_files t') p = map_of (tr_files t) p \<or> map_of (tr_files t') p = None \<and>
       (\<exists>raw e. map_of (tr_files t) p = Some raw \<and> envelope_unmarshal raw = Some e \<and> expired cutoff e))"

lemma purged_refl [simp]: "purged cutoff t t"
  by (simp add: purged_def)

lemma purged_trans: "purged cutoff t u \<Longrightarrow> purged cutoff u v \<Longrightarrow> purged cutoff t v"
  unfolding purged_def by (metis (no_types, lifting) option.distinct(1))

lemma purged_map:
  "purged cutoff t t' \<Longrightarrow> map_of (tr_files t') p = Some raw \<Longrightarrow> map_of (tr_files t) p = Some raw"
  unfolding purged_def by (metis option.distinct(1))

lemma purged_dirs: "purged cutoff t t' \<Longrightarrow> tr_dirs t' = tr_dirs t"
  "purged cutoff t t' \<Longrightarrow> distinct (map fst (tr_files t)) \<Longrightarrow> distinct (map fst (tr_files t'))"
  by (simp_all add: purged_def)

lemma purged_keeps:
  "purged cutoff t t' \<Longrightarrow> map_of (tr_files t) p = Some raw \<Longrightarrow> envelope_unmarshal raw = Some e \<Longrightarrow>
    \<not> expired cutoff e \<Longrightarrow> map_of (tr_files t') p = Some raw"
  unfolding purged_def by (metis option.inject)

lemma load_envelopeD:
  "load_envelope io p t = Some e \<Longrightarrow> \<exists>raw. map_of (tr_files t) p = Some raw \<and> envelope_unmarshal raw = Some e"
  by (auto simp: load_envelope_def read_tree_def split: option.splits sum.splits)

lemma purged_remove:
  assumes "load_envelope io p t = Some e" "expired cutoff e"
  shows "purged cutoff t (fst (remove_file io p t))"
proof -
  obtain raw where "map_of (tr_files t) p = Some raw" "envelope_unmarshal raw = Some e"
    using load_envelopeD [OF assms(1)] by blast
  with assms(2) show ?thesis
    by (auto simp: purged_def remove_file_def delete_conv' distinct_delete split: option.split)
qed

lemma purged_load: "purged cutoff t t' \<Longrightarrow> load_envelope io p t = Some e \<Longrightarrow> \<not> expired cutoff e \<Longrightarrow>
    load_envelope io p t' = Some e"
  by (auto simp: load_envelope_def read_tree_def purged_keeps split: option.splits sum.splits)

lemma put_sweep_purged: "purged cutoff t (snd (put_sweep io d cutoff ns t))"
proof (induction io d cutoff ns t rule: put_sweep.induct)
  case (2 io d cutoff n ns t)
  then show ?case
    using purged_remove [of io "path_join d n" t _ cutoff] purged_trans
    by (cases "load_envelope io (path_join d n) t") (auto simp: Let_def split: prod.split intro: purged_trans)
qed simp

lemma list_sweep_purged: "purged cutoff t (snd (list_sweep io d cutoff ns t))"
proof (induction io d cutoff ns t rule: list_sweep.induct)
  case (2 io d cutoff n ns t)
  then show ?case
    using purged_remove [of io "path_join d n" t _ cutoff] purged_trans
    by (cases "load_envelope io (path_join d n) t") (auto simp: Let_def split: prod.split intro: purged_trans)
qed simp

lemma list_sweep_complete:
  "n \<in> set ns \<Longrightarrow> load_envelope io (path_join d n) t = Some e \<Longrightarrow> \<not> expired cutoff e \<Longrightarrow>
    e \<in> set (fst (list_sweep io d cutoff ns t))"
proof (induction io d cutoff ns t rule: list_sweep.induct)
  case (2 io d cutoff k ns t)
  consider "n = k" | "n \<in> set ns" "load_envelope io (path_join d k) t = None"
    | x where "n \<in> set ns" "load_envelope io (path_join d k) t = Some x"
    using "2.prems"(1) by (cases "load_envelope io (path_join d k) t") auto
  then show ?case
  proof cases
    case 3
    show ?thesis
    proof (cases "expired cutoff x")
      case True
      then have "load_envelope io (path_join d n) (fst (remove_file io (path_join d k) t)) = Some e"
        using purged_load [OF purged_remove [OF 3(2) True] "2.prems"(2,3)] by simp
      then show ?thesis using 2(2) [OF refl 3(2) True 3(1)] "2.prems"(3) 3 True by (simp add: Let_def)
    next
      case False
      then show ?thesis using 2(3) [OF refl 3(2) False 3(1)] "2.prems" 3 by (auto simp: Let_def split: prod.split)
    qed
  qed (use 2 in \<open>auto simp: Let_def split: prod.split\<close>)
qed simp

subsection \<open>The invariant of the store\<close>

definition calm :: "path_io \<Rightarrow> bool" where
  "calm io \<longleftrightarrow> (\<forall>p. io ''read'' p = None \<and> io ''stat'' p = None \<and> io ''readdir'' p \<noteq> Some not_exist \<and>
     io ''remove'' p \<noteq> Some not_exist)"

definition store_ok :: "path_io \<Rightarrow> store_config \<Rightarrow> tree \<Rightarrow> bool" where
  "store_ok io cfg t \<longleftrightarrow> calm io \<and> distinct (map fst (tr_files t)) \<and>
     (\<forall>i n raw. map_of (tr_files t) (store_dir cfg i @ ''/'' @ n) = Some raw \<longrightarrow> slash \<notin> set n \<longrightarrow> n \<noteq> [] \<longrightarrow>
        store_dir cfg i \<in> set (tr_dirs t) \<and> envelope_unmarshal raw \<noteq> None) \<and>
     (\<forall>i n. slash \<notin> set n \<longrightarrow> n \<noteq> [] \<longrightarrow> store_dir cfg i @ ''/'' @ n \<notin> set (tr_dirs t))"

definition store_inbox :: "store_config \<Rightarrow> tree \<Rightarrow> mail_id \<Rightarrow> string \<Rightarrow> envelope option" where
  "store_inbox cfg t i m = Option.bind (map_of (tr_files t) (store_path cfg i m)) envelope_unmarshal"

lemma store_okD:
  assumes "store_ok io cfg t"
  shows "distinct (map fst (tr_files t))" "io ''read'' p = None" "slash \<notin> set n \<Longrightarrow> n \<noteq> [] \<Longrightarrow> store_dir cfg i @ ''/'' @ n \<notin> set (tr_dirs t)"
    and "map_of (tr_files t) (store_dir cfg i @ ''/'' @ n) = Some raw \<Longrightarrow> slash \<notin> set n \<Longrightarrow> n \<noteq> [] \<Longrightarrow>
      store_dir cfg i \<in> set (tr_dirs t) \<and> envelope_unmarshal raw \<noteq> None"
  using assms unfolding store_ok_def calm_def by blast+

lemma store_ok_purged: "store_ok io cfg t \<Longrightarrow> purged cutoff t t' \<Longrightarrow> store_ok io cfg t'"
  unfolding store_ok_def using purged_map [of cutoff t t'] purged_dirs [of cutoff t t'] by metis

lemma inbox_purged: "purged cutoff t t' \<Longrightarrow> store_inbox cfg t i m = Some e \<Longrightarrow> \<not> expired cutoff e \<Longrightarrow>
    store_inbox cfg t' i m = Some e"
  by (auto simp: store_inbox_def bind_eq_Some_conv dest: purged_keeps)

abbreviation slashes :: "string \<Rightarrow> nat" where "slashes s \<equiv> length (filter (\<lambda>c. c = slash) s)"

lemma slashes_dir: "slashes (store_dir cfg i) = slashes (store_dir cfg j)"
proof -
  have split_len: "slashes s + 1 = length (split_on slash s)" for s
    by (induction s) (auto split: list.split simp: split_on_nonempty)
  have "length (split_on slash (store_dir cfg i)) = length (split_on slash (store_dir cfg j))"
    by (simp add: store_dir_show split_show_path(3) [OF store_stack_good(1)])
  then show ?thesis using split_len by (metis add_right_cancel)
qed

lemma ancestor_slashes:
  assumes "p \<in> set (d # ancestors d)"
  shows "slashes p \<le> slashes d"
proof -
  obtain k where "p = take k d"
    using assms by (auto simp: ancestors_def) (metis order_refl take_all_iff)
  moreover have "slashes d = slashes (take k d) + slashes (drop k d)"
    by (metis append_take_drop_id filter_append length_append)
  ultimately show ?thesis by simp
qed

lemma mkdir_all_ok:
  assumes "store_ok io cfg t" "mkdir_all io (store_dir cfg i) t = (t', r)"
  shows "store_ok io cfg t'" "tr_files t' = tr_files t" "r = Inr u \<Longrightarrow> store_dir cfg i \<in> set (tr_dirs t')"
proof -
  have new: "store_dir cfg j @ ''/'' @ n \<notin> set (store_dir cfg i # ancestors (store_dir cfg i))" for j n
    using ancestor_slashes [of "store_dir cfg j @ ''/'' @ n" "store_dir cfg i"] slashes_dir [of cfg i j] by auto
  consider "t' = t" "\<exists>e. r = Inl e"
    | "t' = t\<lparr>tr_dirs := filter (\<lambda>p. p \<notin> set (tr_dirs t)) (store_dir cfg i # ancestors (store_dir cfg i)) @ tr_dirs t\<rparr>"
    using assms(2) by (auto simp: mkdir_all_def split: option.splits if_splits)
  then show "store_ok io cfg t'" "tr_files t' = tr_files t" "r = Inr u \<Longrightarrow> store_dir cfg i \<in> set (tr_dirs t')"
  proof (atomize(full), cases, goal_cases)
    case 1
    then show ?case using assms(1) by auto
  next
    case 2
    then show ?case using assms(1) new by (auto simp: store_ok_def)
  qed
qed

lemma parent_child:
  assumes "slash \<notin> set n" "d \<noteq> []"
  shows "parent_dir (d @ ''/'' @ n) = d"
proof -
  let ?P = "\<lambda>k. 0 < k \<and> (d @ slash # n) ! k = slash"
  have "filter ?P [Suc (length d)..<length d + 1 + length n] = []"
  proof (rule filter_False, rule ballI)
    fix k assume k: "k \<in> set [Suc (length d)..<length d + 1 + length n]"
    then obtain j where j: "k = Suc (length d) + j" using le_Suc_ex [of "Suc (length d)" k] by auto
    then have "(d @ slash # n) ! k = n ! j" "j < length n" using k by (auto simp: nth_append)
    then show "\<not> ?P k" using assms(1) by (metis nth_mem)
  qed
  moreover have "[length d..<length d + 1 + length n] = length d # [Suc (length d)..<length d + 1 + length n]"
    by (rule upt_conv_Cons) simp
  moreover have "?P (length d)" using assms(2) by simp
  ultimately have "filter ?P [length d..<length d + 1 + length n] = [length d]"
    by (simp only: filter.simps if_True simp_thms)
  moreover have "[0..<length (d @ ''/'' @ n)] = [0..<length d] @ [length d..<length d + 1 + length n]"
    using upt_add_eq_append [of 0 "length d" "1 + length n"] by simp
  ultimately have "ancestors (d @ ''/'' @ n) = map (\<lambda>k. take k (d @ ''/'' @ n)) (filter ?P [0..<length d]) @ [d]"
    by (simp add: ancestors_def)
  then show ?thesis by (simp add: parent_dir_def)
qed

text \<open>What \<open>Put\<close> does to the tree: expired envelopes go, and at most one file that was not there appears.\<close>

lemma store_put_cases:
  assumes "store_ok io cfg t" "mail_parse (ev_recipient e) = Inr i" "store_put io cfg now e t = (t', r)"
  obtains
    (unchanged) t1 where "store_ok io cfg t'" "tr_files t1 = tr_files t" "purged (store_cutoff cfg now) t1 t'"
      "r = Inr () \<Longrightarrow> store_path cfg i (ev_message e) \<in> set (map fst (tr_files t')) \<union> set (tr_dirs t')"
  | (added) t1 t2 live where "store_ok io cfg t2" "tr_files t1 = tr_files t" "purged (store_cutoff cfg now) t1 t2"
      "t' = t2\<lparr>tr_files := AList.update (store_path cfg i (ev_message e)) (envelope_marshal e) (tr_files t2)\<rparr>" "r = Inr ()"
      "store_path cfg i (ev_message e) \<notin> set (map fst (tr_files t2))"
      "parent_dir (store_path cfg i (ev_message e)) \<in> {''/'', ''.''} \<union> set (tr_dirs t2)"
      "int live < store_max cfg" "store_dir cfg i \<in> set (tr_dirs t1)"
      "put_sweep io (store_dir cfg i) (store_cutoff cfg now)
        (case read_dir io (store_dir cfg i) t1 of Inl _ \<Rightarrow> [] | Inr ns \<Rightarrow> ns) t1 = (live, t2)"
proof -
  let ?d = "store_dir cfg i" and ?p = "store_path cfg i (ev_message e)"
  obtain t1 r1 where t1: "mkdir_all io ?d t = (t1, r1)" by force
  note m = mkdir_all_ok [OF assms(1) t1]
  show thesis
  proof (cases r1)
    case (Inl err)
    then have "t' = t1" "r = Inl err" using assms(2,3) t1 by (simp_all add: store_put_def)
    then show thesis using m(1,2) by (intro unchanged [of t1]) simp_all
  next
    case (Inr u)
    obtain live t2 where sw: "put_sweep io ?d (store_cutoff cfg now) (case read_dir io ?d t1 of Inl _ \<Rightarrow> [] | Inr ns \<Rightarrow> ns) t1 = (live, t2)"
      by force
    then have pg: "purged (store_cutoff cfg now) t1 t2" by (metis put_sweep_purged snd_conv)
    then have ok: "store_ok io cfg t2" using m(1) store_ok_purged by blast
    then have st: "stat_ok io ?p t2 \<longleftrightarrow> ?p \<in> set (map fst (tr_files t2)) \<union> set (tr_dirs t2)"
      by (simp add: stat_ok_def store_ok_def calm_def)
    have e: "(t', r) = (if stat_ok io ?p t2 then (t2, Inr ())
        else if int live \<ge> store_max cfg then (t2, Inl ''mailbox recipient capacity reached'')
        else create_renamed io ?d ?p (envelope_marshal e) t2)"
      using assms(2,3) t1 Inr sw by (simp add: store_put_def Let_def)
    show thesis
    proof (cases "t' = t2 \<and> (r = Inr () \<longrightarrow> stat_ok io ?p t2)")
      case True
      then show thesis
        using ok m(2) pg st by (intro unchanged [of t1]) auto
    next
      case False
      then have "\<not> stat_ok io ?p t2" "int live < store_max cfg" "create_renamed io ?d ?p (envelope_marshal e) t2 = (t', r)"
        using e by (auto split: if_splits)
      with False show thesis
        using st sw m(3) [OF Inr]
        by (intro added [OF ok m(2) pg]) (auto simp: create_renamed_def split: if_splits option.splits)
    qed
  qed
qed

lemma store_put_bad: "mail_parse (ev_recipient e) = Inl err \<Longrightarrow> store_put io cfg now e t = (t, Inl err)"
  by (simp add: store_put_def)

lemma token_slashless: "list_all token_char m \<Longrightarrow> slash \<notin> set m"
  by (auto simp: list_all_iff token_char_def)

lemma store_path_slashless:
  assumes "slash \<notin> set m"
  shows "store_path cfg i m = store_dir cfg i @ ''/'' @ m @ ''.json''" "slash \<notin> set (m @ ''.json'')"
proof -
  show s: "slash \<notin> set (m @ ''.json'')" using assms by simp
  then have "plain_name (m @ ''.json'')" by (cases m) (auto simp: plain_name_def)
  then show "store_path cfg i m = store_dir cfg i @ ''/'' @ m @ ''.json''"
    by (simp add: store_path_def store_child)
qed

lemma url_token_slashless: "url_token m \<Longrightarrow> slash \<notin> set m"
  using token_slashless by (auto simp: url_token_def)

lemmas store_path_token = store_path_slashless [OF url_token_slashless]

lemma store_dir_longer: "store_dir cfg j \<noteq> []" "store_dir cfg j \<noteq> ''/''" "store_dir cfg j \<noteq> ''.''"
proof -
  have "\<exists>u. store_dir cfg j = u @ mail_string j"
  proof (cases "root_stack cfg = []")
    case True
    then show ?thesis by (auto simp: store_dir_show show_path_def)
  next
    case False
    then show ?thesis by (metis append_assoc show_path_Cons store_dir_show)
  qed
  then obtain u where "store_dir cfg j = u @ mail_string j" by blast
  with mail_string_slashless(2) [of j] show "store_dir cfg j \<noteq> []" "store_dir cfg j \<noteq> ''/''" "store_dir cfg j \<noteq> ''.''"
    by (cases u; auto)+
qed

lemma store_ok_update:
  assumes "store_ok io cfg t" "parent_dir p \<in> {''/'', ''.''} \<union> set (tr_dirs t)" "envelope_unmarshal raw \<noteq> None"
  shows "store_ok io cfg (t\<lparr>tr_files := AList.update p raw (tr_files t)\<rparr>)"
proof -
  have "store_dir cfg i \<in> set (tr_dirs t)" if "p = store_dir cfg i @ ''/'' @ n" "slash \<notin> set n" for i n
    using assms(2) parent_child [OF that(2) store_dir_longer(1), of cfg i] store_dir_longer [of cfg i] that(1) by auto
  with assms(1,3) show ?thesis
    unfolding store_ok_def by (auto simp: distinct_update update_conv' split: if_splits)
qed

lemma store_put_ok:
  assumes "store_ok io cfg t" "go_int (ev_version e)" "store_put io cfg now e t = (t', r)"
  shows "store_ok io cfg t'"
proof (cases "mail_parse (ev_recipient e)")
  case (Inl err)
  then show ?thesis using assms(1,3) store_put_bad by (metis prod.inject)
next
  case (Inr i)
  from assms(1) Inr assms(3) show ?thesis
  proof (cases rule: store_put_cases)
    case (added t1 t2 live)
    have "envelope_unmarshal (envelope_marshal e) \<noteq> None" by (simp add: envelope_roundtrip [OF assms(2)])
    with store_ok_update [OF added(1,7)] show ?thesis unfolding added(4) by blast
  qed
qed

lemma store_put_keeps:
  assumes "store_ok io cfg t" "store_put io cfg now e t = (t', r)" "store_inbox cfg t j m = Some x" "\<not> expired (store_cutoff cfg now) x"
  shows "store_inbox cfg t' j m = Some x"
proof (cases "mail_parse (ev_recipient e)")
  case (Inl err)
  then show ?thesis using assms(2,3) store_put_bad by (metis prod.inject)
next
  case (Inr i)
  have f: "store_inbox cfg t1 j m = Some x" if "tr_files t1 = tr_files t" for t1
    using assms(3) that by (simp add: store_inbox_def)
  from assms(1) Inr assms(2) show ?thesis
  proof (cases rule: store_put_cases)
    case (unchanged t1)
    then show ?thesis using inbox_purged f assms(4) by blast
  next
    case (added t1 t2 live)
    have x: "store_inbox cfg t2 j m = Some x" using inbox_purged [OF added(3)] f [OF added(2)] assms(4) by blast
    then have "map_of (tr_files t2) (store_path cfg j m) \<noteq> None" by (auto simp: store_inbox_def bind_eq_Some_conv)
    then have "store_path cfg j m \<in> set (map fst (tr_files t2))" by (simp add: map_of_eq_None_iff)
    with added(6) have "store_path cfg j m \<noteq> store_path cfg i (ev_message e)" by metis
    with x show ?thesis by (simp add: added(4) store_inbox_def update_conv')
  qed
qed

lemma store_put_stores:
  assumes "store_ok io cfg t" "go_int (ev_version e)" "store_put io cfg now e t = (t', Inr ())" "mail_parse (ev_recipient e) = Inr i"
    and "url_token (ev_message e)" "store_inbox cfg t i (ev_message e) = None"
  shows "store_inbox cfg t' i (ev_message e) = Some e"
proof -
  note p = store_path_token(1) [OF assms(5), of cfg i] store_path_token(2) [OF assms(5)]
  have "map_of (tr_files t) (store_path cfg i (ev_message e)) = None"
  proof (rule ccontr)
    assume "map_of (tr_files t) (store_path cfg i (ev_message e)) \<noteq> None"
    then obtain raw where raw: "map_of (tr_files t) (store_dir cfg i @ ''/'' @ ev_message e @ ''.json'') = Some raw"
      "store_inbox cfg t i (ev_message e) = envelope_unmarshal raw"
      using p(1) by (auto simp: store_inbox_def)
    from store_okD(4) [OF assms(1) raw(1) p(2)] raw(2) assms(6) show False by simp
  qed
  note none = this
  from assms(1,4,3) show ?thesis
  proof (cases rule: store_put_cases)
    case (unchanged t1)
    have "map_of (tr_files t') (store_path cfg i (ev_message e)) = None"
      using purged_map [OF unchanged(3)] unchanged(2) none by (metis not_None_eq option.distinct(1))
    moreover have "store_path cfg i (ev_message e) \<notin> set (tr_dirs t')"
      using unchanged(1) p by (auto simp: store_ok_def)
    ultimately show ?thesis using unchanged(4) by (simp add: map_of_eq_None_iff)
  next
    case (added t1 t2 live)
    then show ?thesis by (simp add: store_inbox_def update_conv' envelope_roundtrip [OF assms(2)])
  qed
qed

lemma store_list_purged:
  assumes "store_list io cfg now i limit t = (t', r)"
  shows "purged (store_cutoff cfg now) t t'"
proof (cases "read_dir io (store_dir cfg i) t")
  case (Inl err)
  then show ?thesis using assms by (auto simp: store_list_def split: if_splits)
next
  case (Inr ns)
  obtain out t1 where "list_sweep io (store_dir cfg i) (store_cutoff cfg now) ns t = (out, t1)" by force
  with assms Inr have "t' = snd (list_sweep io (store_dir cfg i) (store_cutoff cfg now) ns t)"
    by (simp add: store_list_def Let_def)
  then show ?thesis by (simp add: list_sweep_purged)
qed

lemma store_list_complete:
  assumes "store_ok io cfg t" "store_list io cfg now i limit t = (t', Inr es)" "store_inbox cfg t i m = Some e"
    and "url_token m" "\<not> expired (store_cutoff cfg now) e" "limit \<le> 0 \<or> int (length es) < limit"
  shows "e \<in> set es"
proof -
  let ?d = "store_dir cfg i" and ?c = "store_cutoff cfg now"
  note p = store_path_token(1) [OF assms(4), of cfg i] store_path_token(2) [OF assms(4)]
  obtain raw where raw: "map_of (tr_files t) (?d @ ''/'' @ m @ ''.json'') = Some raw" "envelope_unmarshal raw = Some e"
    using assms(3) p(1) by (auto simp: store_inbox_def bind_eq_Some_conv)
  have dir: "?d \<in> set (tr_dirs t)" using store_okD(4) [OF assms(1) raw(1) p(2)] by simp
  have "plain_name (m @ ''.json'')" using p(2) by (cases m) (auto simp: plain_name_def)
  note plain = this
  then have n: "m @ ''.json'' \<in> set (dir_names ?d t)"
    using raw(1) by (auto simp: set_dir_names map_of_eq_None_iff dest: map_of_SomeD intro: rev_image_eqI)
  obtain out where out: "out = fst (list_sweep io ?d ?c (dir_names ?d t) t)" by simp
  have "load_envelope io (path_join ?d (m @ ''.json'')) t = Some e"
    using raw store_okD(2) [OF assms(1)] by (simp add: store_child plain load_envelope_def read_tree_def)
  then have mem: "e \<in> set out" using list_sweep_complete [OF n _ assms(5)] by (simp add: out)
  have calm: "io ''readdir'' ?d \<noteq> Some not_exist" using assms(1) by (simp add: store_ok_def calm_def)
  show ?thesis
  proof (cases "io ''readdir'' ?d")
    case None
    then have "read_dir io ?d t = Inr (dir_names ?d t)" using dir by (simp add: read_dir_def)
    then have "es = (if limit > 0 \<and> int (length out) > limit then take (nat limit) (sort_by created_less out) else sort_by created_less out)"
      using assms(2) out by (auto simp: store_list_def Let_def split: prod.splits)
    with assms(6) mem show ?thesis by (auto split: if_splits)
  next
    case (Some err)
    then show ?thesis using assms(2) calm by (auto simp: store_list_def read_dir_def Let_def split: if_splits)
  qed
qed

lemma store_list_length: "store_list io cfg now i limit t = (t', Inr es) \<Longrightarrow> 0 < limit \<Longrightarrow> int (length es) \<le> limit"
  by (auto simp: store_list_def Let_def split: sum.splits if_splits prod.splits)

lemma remove_file_map:
  assumes "remove_file io p t = (t', r)"
  shows "tr_dirs t' = tr_dirs t" "distinct (map fst (tr_files t)) \<Longrightarrow> distinct (map fst (tr_files t'))"
    "map_of (tr_files t') q = map_of (tr_files t) q \<or> q = p \<and> map_of (tr_files t') q = None"
    "r = Inr () \<or> r = Inl not_exist \<and> io ''remove'' p \<noteq> Some not_exist \<Longrightarrow> map_of (tr_files t') p = None"
proof -
  consider "t' = t" "\<exists>e. r = Inl e \<and> io ''remove'' p = Some e"
    | "t' = t\<lparr>tr_files := AList.delete p (tr_files t)\<rparr>" "r = Inr ()"
    | "t' = t" "r = Inl not_exist" "map_of (tr_files t) p = None" "io ''remove'' p = None"
    using assms by (auto simp: remove_file_def map_of_eq_None_iff split: option.splits if_splits)
  then show "tr_dirs t' = tr_dirs t" "distinct (map fst (tr_files t)) \<Longrightarrow> distinct (map fst (tr_files t'))"
    "map_of (tr_files t') q = map_of (tr_files t) q \<or> q = p \<and> map_of (tr_files t') q = None"
    "r = Inr () \<or> r = Inl not_exist \<and> io ''remove'' p \<noteq> Some not_exist \<Longrightarrow> map_of (tr_files t') p = None"
    by (cases; auto simp: distinct_delete delete_conv')+
qed

lemma store_delete_map:
  assumes "store_delete io cfg i ms t = (t', r)"
  shows "tr_dirs t' = tr_dirs t" "distinct (map fst (tr_files t)) \<Longrightarrow> distinct (map fst (tr_files t'))"
    "map_of (tr_files t') q = map_of (tr_files t) q \<or>
      map_of (tr_files t') q = None \<and> (\<exists>m \<in> set ms. url_token m \<and> q = store_path cfg i m)"
  using assms
proof (atomize(full), induction ms arbitrary: t)
  case (Cons m ms)
  show ?case
  proof (cases "m = [] \<or> \<not> list_all token_char m")
    case True
    then show ?thesis using Cons by (auto split: if_splits)
  next
    case False
    obtain t1 r1 where r1: "remove_file io (store_path cfg i m) t = (t1, r1)" by force
    then consider "t' = t1" | "store_delete io cfg i ms t1 = (t', r)"
      using Cons.prems False by (cases r1) (auto split: if_splits)
    then show ?thesis
    proof cases
      case 1
      then show ?thesis using remove_file_map(1-3) [OF r1] False by (auto simp: url_token_def)
    next
      case 2
      note ih = Cons.IH [rule_format, OF 2]
      have "map_of (tr_files t1) q = map_of (tr_files t) q \<or> q = store_path cfg i m \<and> map_of (tr_files t1) q = None"
        by (rule remove_file_map(3) [OF r1])
      then show ?thesis using ih remove_file_map(1,2) [OF r1] False by (auto simp: url_token_def)
    qed
  qed
qed simp

lemma store_ok_smaller:
  assumes "store_ok io cfg t" "tr_dirs t' = tr_dirs t" "distinct (map fst (tr_files t'))"
    and "\<And>q. map_of (tr_files t') q = map_of (tr_files t) q \<or> map_of (tr_files t') q = None"
  shows "store_ok io cfg t'"
proof -
  have "map_of (tr_files t) q = Some raw" if "map_of (tr_files t') q = Some raw" for q raw
    using assms(4) [of q] that by auto
  then show ?thesis using assms(1,2,3) unfolding store_ok_def by metis
qed

lemma store_delete_ok:
  assumes "store_ok io cfg t" "store_delete io cfg i ms t = (t', r)"
  shows "store_ok io cfg t'"
  using assms(1) store_delete_map(1) [OF assms(2)] store_delete_map(2) [OF assms(2) store_okD(1) [OF assms(1)]]
proof (rule store_ok_smaller)
  show "map_of (tr_files t') q = map_of (tr_files t) q \<or> map_of (tr_files t') q = None" for q
    using store_delete_map(3) [OF assms(2), of q] by auto
qed

lemma store_delete_gone:
  assumes "store_ok io cfg t" "store_delete io cfg i ms t = (t', Inr ())" "m \<in> set ms" "m \<noteq> []"
  shows "map_of (tr_files t') (store_path cfg i m) = None"
  using assms
proof (induction ms arbitrary: t)
  case (Cons k ms)
  show ?case
  proof (cases "k = []")
    case True
    then show ?thesis using Cons by auto
  next
    case False
    obtain t1 r1 where r1: "remove_file io (store_path cfg i k) t = (t1, r1)" by force
    have tok: "list_all token_char k" using Cons.prems(2) False by (auto split: if_splits)
    have calm: "io ''remove'' p \<noteq> Some not_exist" for p using Cons.prems(1) by (simp add: store_ok_def calm_def)
    have r: "store_delete io cfg i ms t1 = (t', Inr ())" "r1 = Inr () \<or> r1 = Inl not_exist"
      using Cons.prems(2) False tok r1 by (auto split: sum.splits if_splits)
    have "map_of (tr_files t1) q = map_of (tr_files t) q \<or> map_of (tr_files t1) q = None" for q
      using remove_file_map(3) [OF r1, of q] by auto
    then have ok: "store_ok io cfg t1"
      by (rule store_ok_smaller [OF Cons.prems(1) remove_file_map(1) [OF r1] remove_file_map(2) [OF r1 store_okD(1) [OF Cons.prems(1)]]])
    show ?thesis
    proof (cases "m \<in> set ms")
      case True
      then show ?thesis using Cons.IH [OF ok r(1)] Cons.prems(4) by blast
    next
      case False
      then have "map_of (tr_files t1) (store_path cfg i m) = None"
        using remove_file_map(4) [OF r1] r(2) calm Cons.prems(3) by auto
      then show ?thesis using store_delete_map(3) [OF r(1), of "store_path cfg i m"] by auto
    qed
  qed
qed simp

lemma store_delete_keeps:
  assumes "store_delete io cfg i ms t = (t', r)" "url_token m" "j \<noteq> i \<or> m \<notin> set ms"
  shows "store_inbox cfg t' j m = store_inbox cfg t j m"
proof -
  have "store_path cfg j m \<noteq> store_path cfg i k" if "k \<in> set ms" "url_token k" for k
    using store_child_inject [of cfg j "m @ ''.json''" i "k @ ''.json''"] store_path_token(1) [OF assms(2), of cfg j]
      store_path_token(1) [OF that(2), of cfg i] store_path_token(2) [OF assms(2)] store_path_token(2) [OF that(2)]
      assms(3) that(1) by auto
  then show ?thesis
    using store_delete_map(3) [OF assms(1), of "store_path cfg j m"] by (auto simp: store_inbox_def)
qed

subsection \<open>The contract of a store\<close>

text \<open>What the mailbox protocol relies on: an accepted envelope with a new identifier is in the inbox and stays there until
  it is deleted or expires, and a list that was not cut is complete.\<close>

locale mail_store_laws =
  fixes S :: "time \<Rightarrow> 's mail_store"
    and ok :: "'s \<Rightarrow> bool"
    and inbox :: "'s \<Rightarrow> mail_id \<Rightarrow> string \<Rightarrow> envelope option"
    and old :: "time \<Rightarrow> envelope \<Rightarrow> bool"
  assumes put_ok: "ok s \<Longrightarrow> go_int (ev_version e) \<Longrightarrow> ms_put (S now) e s = (s', r) \<Longrightarrow> ok s'"
    and put_keeps: "ok s \<Longrightarrow> ms_put (S now) e s = (s', r) \<Longrightarrow> inbox s j m = Some x \<Longrightarrow> \<not> old now x \<Longrightarrow> inbox s' j m = Some x"
    and put_stores: "ok s \<Longrightarrow> go_int (ev_version e) \<Longrightarrow> ms_put (S now) e s = (s', Inr ()) \<Longrightarrow>
      mail_parse (ev_recipient e) = Inr i \<Longrightarrow> url_token (ev_message e) \<Longrightarrow> inbox s i (ev_message e) = None \<Longrightarrow>
      inbox s' i (ev_message e) = Some e"
    and list_ok: "ok s \<Longrightarrow> ms_list (S now) i k s = (s', q) \<Longrightarrow> ok s'"
    and list_keeps: "ms_list (S now) i k s = (s', q) \<Longrightarrow> inbox s j m = Some x \<Longrightarrow> \<not> old now x \<Longrightarrow> inbox s' j m = Some x"
    and list_complete: "ok s \<Longrightarrow> ms_list (S now) i k s = (s', Inr es) \<Longrightarrow> inbox s i m = Some e \<Longrightarrow> url_token m \<Longrightarrow>
      \<not> old now e \<Longrightarrow> k \<le> 0 \<or> int (length es) < k \<Longrightarrow> e \<in> set es"
    and delete_ok: "ok s \<Longrightarrow> ms_delete (S now) i ms s = (s', r) \<Longrightarrow> ok s'"
    and delete_gone: "ok s \<Longrightarrow> ms_delete (S now) i ms s = (s', Inr ()) \<Longrightarrow> m \<in> set ms \<Longrightarrow> m \<noteq> [] \<Longrightarrow> inbox s' i m = None"
    and delete_keeps: "ms_delete (S now) i ms s = (s', r) \<Longrightarrow> url_token m \<Longrightarrow> j \<noteq> i \<or> m \<notin> set ms \<Longrightarrow> inbox s' j m = inbox s j m"

interpretation file_mail: mail_store_laws "file_store io cfg" "store_ok io cfg" "store_inbox cfg"
  "\<lambda>now. expired (store_cutoff cfg now)" for io cfg
proof
  show "store_inbox cfg s' i m = None"
    if "store_ok io cfg s" "ms_delete (file_store io cfg now) i ms s = (s', Inr ())" "m \<in> set ms" "m \<noteq> []" for s now i ms s' m
    using store_delete_gone [of io cfg s i ms s' m] that by (simp add: file_store_def store_inbox_def)
  show "store_ok io cfg s'" if "store_ok io cfg s" "ms_list (file_store io cfg now) i k s = (s', q)" for s now i k s' q
    using store_ok_purged store_list_purged that by (fastforce simp: file_store_def)
  show "store_inbox cfg s' j m = Some x"
    if "ms_list (file_store io cfg now) i k s = (s', q)" "store_inbox cfg s j m = Some x" "\<not> expired (store_cutoff cfg now) x"
    for now i k s s' q j m x
    using inbox_purged [OF store_list_purged [of io cfg now i k s s' q]] that by (simp add: file_store_def)
qed (auto simp: file_store_def intro: store_put_ok store_put_keeps store_put_stores store_list_complete store_delete_ok
      store_delete_keeps)

subsection \<open>Capacity\<close>

definition dead_file :: "path_io \<Rightarrow> int64 \<Rightarrow> string \<Rightarrow> tree \<Rightarrow> bool" where
  "dead_file io cutoff p t \<longleftrightarrow> (case load_envelope io p t of None \<Rightarrow> False | Some e \<Rightarrow> expired cutoff e)"

definition live_names :: "path_io \<Rightarrow> store_config \<Rightarrow> time \<Rightarrow> mail_id \<Rightarrow> tree \<Rightarrow> string set" where
  "live_names io cfg now i t =
     {n \<in> set (dir_names (store_dir cfg i) t). \<not> dead_file io (store_cutoff cfg now) (store_dir cfg i @ ''/'' @ n) t}"

lemma finite_live [simp]: "finite (live_names io cfg now i t)"
  by (simp add: live_names_def)

lemma load_cong: "map_of (tr_files t) q = map_of (tr_files u) q \<Longrightarrow> load_envelope io q t = load_envelope io q u"
  by (simp only: load_envelope_def read_tree_def)

lemma load_other: "q \<noteq> p \<Longrightarrow> load_envelope io q (fst (remove_file io p t)) = load_envelope io q t"
  by (rule load_cong) (metis prod.collapse remove_file_map(3))

lemma put_sweep_count:
  assumes "distinct ns" "list_all plain_name ns"
  shows "fst (put_sweep io (store_dir cfg i) cutoff ns t) =
    length (filter (\<lambda>n. \<not> dead_file io cutoff (store_dir cfg i @ ''/'' @ n) t) ns)"
  using assms
proof (induction ns arbitrary: t)
  case (Cons n ns)
  let ?d = "store_dir cfg i"
  have p: "path_join ?d n = ?d @ ''/'' @ n" using Cons.prems(2) by (simp add: store_child)
  have other: "dead_file io cutoff (?d @ ''/'' @ k) (fst (remove_file io (?d @ ''/'' @ n) t)) = dead_file io cutoff (?d @ ''/'' @ k) t"
    if "k \<in> set ns" for k
  proof -
    have "?d @ ''/'' @ k \<noteq> ?d @ ''/'' @ n" using that Cons.prems(1) by auto
    from load_other [OF this, of io t] show ?thesis by (simp only: dead_file_def)
  qed
  have e: "filter (\<lambda>k. \<not> dead_file io cutoff (?d @ ''/'' @ k) (fst (remove_file io (?d @ ''/'' @ n) t))) ns =
      filter (\<lambda>k. \<not> dead_file io cutoff (?d @ ''/'' @ k) t) ns"
    by (rule filter_cong) (use other in auto)
  have ih: "fst (put_sweep io ?d cutoff ns u) = length (filter (\<lambda>k. \<not> dead_file io cutoff (?d @ ''/'' @ k) u) ns)" for u
    using Cons.IH [of u] Cons.prems by simp
  show ?case
  proof (cases "dead_file io cutoff (?d @ ''/'' @ n) t")
    case True
    have "fst (put_sweep io ?d cutoff (n # ns) t) = fst (put_sweep io ?d cutoff ns (fst (remove_file io (?d @ ''/'' @ n) t)))"
      using True by (simp add: p dead_file_def)
    also have "\<dots> = length (filter (\<lambda>k. \<not> dead_file io cutoff (?d @ ''/'' @ k) t) ns)"
      unfolding ih e ..
    finally show ?thesis using True by simp
  next
    case False
    have "fst (put_sweep io ?d cutoff (n # ns) t) = Suc (fst (put_sweep io ?d cutoff ns t))"
      using False by (simp add: p dead_file_def split: prod.split)
    then show ?thesis using False ih [of t] by simp
  qed
qed simp

text \<open>Removals and the passing of time leave no more live files.\<close>

lemma key_map_of: "x \<in> set (map fst m) \<longleftrightarrow> map_of m x \<noteq> None"
  by (simp add: map_of_eq_None_iff)

lemma live_smaller:
  assumes "\<And>q. map_of (tr_files t') q = map_of (tr_files t) q \<or> map_of (tr_files t') q = None"
  shows "live_names io cfg now i t' \<subseteq> live_names io cfg now i t"
proof
  fix n
  assume n: "n \<in> live_names io cfg now i t'"
  let ?p = "store_dir cfg i @ ''/'' @ n"
  have some: "map_of (tr_files t') ?p \<noteq> None"
    using n unfolding live_names_def set_dir_names key_map_of by blast
  then have m: "map_of (tr_files t') ?p = map_of (tr_files t) ?p" using assms [of ?p] by argo
  then have "?p \<in> set (map fst (tr_files t))" using some unfolding key_map_of by argo
  then show "n \<in> live_names io cfg now i t"
    using n load_cong [OF m] unfolding live_names_def set_dir_names dead_file_def by simp
qed

lemma live_later: "sint (store_cutoff cfg now) \<le> sint (store_cutoff cfg now') \<Longrightarrow>
    live_names io cfg now' i t \<subseteq> live_names io cfg now i t"
  by (auto simp: live_names_def dead_file_def expired_def split: option.splits)

lemma store_put_live:
  assumes "store_ok io cfg t" "slash \<notin> set (ev_message e)" "io ''readdir'' = (\<lambda>_. None)" "store_put io cfg now e t = (t', r)"
    and "int (card (live_names io cfg now j t)) \<le> store_max cfg"
  shows "int (card (live_names io cfg now j t')) \<le> store_max cfg"
proof (cases "mail_parse (ev_recipient e)")
  case (Inl err)
  then show ?thesis using assms(4,5) store_put_bad by (metis prod.inject)
next
  case (Inr i)
  have less: "live_names io cfg now k u \<subseteq> live_names io cfg now k t1" if "purged (store_cutoff cfg now) t1 u" for k t1 u
    by (rule live_smaller) (use that in \<open>auto simp: purged_def\<close>)
  have same: "live_names io cfg now k t1 = live_names io cfg now k t" if "tr_files t1 = tr_files t" for k t1
    using that by (intro equalityI live_smaller) simp_all
  from assms(1) Inr assms(4) show ?thesis
  proof (cases rule: store_put_cases)
    case (unchanged t1)
    have "live_names io cfg now j t' \<subseteq> live_names io cfg now j t" using less [OF unchanged(3)] same [OF unchanged(2)] by simp
    then show ?thesis using card_mono [OF finite_live] assms(5) by (meson of_nat_mono order_trans)
  next
    case (added t1 t2 live)
    note p = store_path_slashless(1) [OF assms(2), of cfg i] store_path_slashless(2) [OF assms(2)]
    have new: "live_names io cfg now k t' \<subseteq> (if k = i then insert (ev_message e @ ''.json'') else (\<lambda>x. x)) (live_names io cfg now k t2)" for k
    proof
      fix n
      assume n: "n \<in> live_names io cfg now k t'"
      let ?q = "store_dir cfg k @ ''/'' @ n"
      show "n \<in> (if k = i then insert (ev_message e @ ''.json'') else (\<lambda>x. x)) (live_names io cfg now k t2)"
      proof (cases "?q = store_path cfg i (ev_message e)")
        case True
        have "slash \<notin> set n" using n by (auto simp: live_names_def set_dir_names plain_name_def)
        with True p store_child_inject [of cfg k n i] have "k = i \<and> n = ev_message e @ ''.json''" by metis
        then show ?thesis by simp
      next
        case False
        then have m: "map_of (tr_files t') ?q = map_of (tr_files t2) ?q" by (simp add: added(4) update_conv')
        have "map_of (tr_files t') ?q \<noteq> None"
          using n unfolding live_names_def set_dir_names key_map_of by blast
        with m have "?q \<in> set (map fst (tr_files t2))" unfolding key_map_of by argo
        then have "n \<in> live_names io cfg now k t2"
          using n load_cong [OF m] unfolding live_names_def set_dir_names dead_file_def by simp
        then show ?thesis by auto
      qed
    qed
    have t2: "card (live_names io cfg now k t2) \<le> card (live_names io cfg now k t)" for k
      using less [OF added(3)] same [OF added(2)] by (metis card_mono finite_live)
    have "read_dir io (store_dir cfg i) t1 = Inr (dir_names (store_dir cfg i) t1)"
      using assms(3) added(9) by (simp add: read_dir_def)
    then have "live = length (filter (\<lambda>n. \<not> dead_file io (store_cutoff cfg now) (store_dir cfg i @ ''/'' @ n) t1) (dir_names (store_dir cfg i) t1))"
      using added(10) put_sweep_count [OF distinct_dir_names, of t1 "store_dir cfg i" io cfg i "store_cutoff cfg now" t1]
        store_okD(1) [OF assms(1)] added(2) by (simp add: list_all_iff set_dir_names)
    moreover have "distinct (dir_names (store_dir cfg i) t1)" using distinct_dir_names store_okD(1) [OF assms(1)] added(2) by simp
    ultimately have live: "live = card (live_names io cfg now i t)"
      using same [OF added(2), of i] by (simp add: live_names_def flip: distinct_card)
    show ?thesis
    proof (cases "j = i")
      case True
      have "card (live_names io cfg now i t') \<le> card (insert (ev_message e @ ''.json'') (live_names io cfg now i t2))"
        using new [of i] by (intro card_mono) simp_all
      also have "\<dots> \<le> Suc (card (live_names io cfg now i t2))" by (rule card_insert_le_m1) simp_all
      also have "\<dots> \<le> Suc live" using t2 [of i] live by simp
      finally show ?thesis using added(8) True by simp
    next
      case False
      then have "card (live_names io cfg now j t') \<le> card (live_names io cfg now j t2)"
        using new [of j] by (intro card_mono) simp_all
      then show ?thesis using t2 [of j] assms(5) by simp
    qed
  qed
qed

datatype store_call = Put_call envelope | List_call mail_id int | Delete_call mail_id "string list"

fun run_call :: "path_io \<Rightarrow> store_config \<Rightarrow> time \<times> store_call \<Rightarrow> tree \<Rightarrow> tree" where
  "run_call io cfg (now, Put_call e) t = fst (store_put io cfg now e t)"
| "run_call io cfg (now, List_call i k) t = fst (store_list io cfg now i k t)"
| "run_call io cfg (now, Delete_call i ms) t = fst (store_delete io cfg i ms t)"

fun call_ok :: "store_call \<Rightarrow> bool" where
  "call_ok (Put_call e) \<longleftrightarrow> go_int (ev_version e) \<and> slash \<notin> set (ev_message e)"
| "call_ok _ \<longleftrightarrow> True"

lemma run_call_keeps:
  assumes "store_ok io cfg t" "io ''readdir'' = (\<lambda>_. None)" "call_ok c" "int (card (live_names io cfg now i t)) \<le> store_max cfg"
  shows "store_ok io cfg (run_call io cfg (now, c) t)" "int (card (live_names io cfg now i (run_call io cfg (now, c) t))) \<le> store_max cfg"
proof -
  have smaller: "int (card (live_names io cfg now i u)) \<le> store_max cfg"
    if "\<And>q. map_of (tr_files u) q = map_of (tr_files t) q \<or> map_of (tr_files u) q = None" for u
    using card_mono [OF finite_live live_smaller [OF that]] assms(4) by (meson of_nat_mono order_trans)
  show "store_ok io cfg (run_call io cfg (now, c) t)"
  proof (cases c)
    case (Put_call e)
    then show ?thesis using assms(1,3) store_put_ok [of io cfg t e now] by (cases "store_put io cfg now e t") auto
  next
    case (List_call i k)
    then show ?thesis using assms(1) store_ok_purged store_list_purged by (cases "store_list io cfg now i k t") fastforce
  next
    case (Delete_call i ms)
    then show ?thesis using assms(1) store_delete_ok by (cases "store_delete io cfg i ms t") auto
  qed
  show "int (card (live_names io cfg now i (run_call io cfg (now, c) t))) \<le> store_max cfg"
  proof (cases c)
    case (Put_call e)
    then show ?thesis using assms store_put_live [OF assms(1) _ assms(2), of e now _ _ i]
      by (cases "store_put io cfg now e t") auto
  next
    case (List_call k l)
    obtain u q where u: "store_list io cfg now k l t = (u, q)" by force
    have "int (card (live_names io cfg now i u)) \<le> store_max cfg"
      by (rule smaller) (use store_list_purged [OF u] in \<open>auto simp: purged_def\<close>)
    then show ?thesis using List_call u by simp
  next
    case (Delete_call k ms)
    obtain u q where u: "store_delete io cfg k ms t = (u, q)" by force
    have "map_of (tr_files u) q = map_of (tr_files t) q \<or> map_of (tr_files u) q = None" for q
      using store_delete_map(3) [OF u, of q] by argo
    then have "int (card (live_names io cfg now i u)) \<le> store_max cfg" by (rule smaller)
    then show ?thesis using Delete_call u by simp
  qed
qed

text \<open>C36. As long as message identifiers hold no path separator and directories can be read, the files of a recipient
  that have not expired never exceed the configured maximum, whatever is put, listed and deleted. \<open>Put\<close> checks
  neither: it takes the identifier into the path of the file as it is, and counts a directory it cannot read as empty;
  \<open>put_escapes\<close> and \<open>unreadable_counts_nothing\<close> show what happens then.\<close>

theorem mailbox_capacity:
  assumes "store_ok io cfg t" "io ''readdir'' = (\<lambda>_. None)" "list_all (\<lambda>(_, c). call_ok c) calls"
    and "sorted (map (\<lambda>(at_time, _). sint (store_cutoff cfg at_time)) calls)" "calls \<noteq> []"
    and "int (card (live_names io cfg (fst (hd calls)) i t)) \<le> store_max cfg"
  shows "int (card (live_names io cfg (fst (last calls)) i (fold (run_call io cfg) calls t))) \<le> store_max cfg"
  using assms
proof (induction calls arbitrary: t)
  case (Cons x calls)
  obtain now c where x: "x = (now, c)" by (cases x)
  let ?u = "run_call io cfg (now, c) t"
  have k: "store_ok io cfg ?u" "int (card (live_names io cfg now i ?u)) \<le> store_max cfg"
    using run_call_keeps [OF Cons.prems(1,2)] Cons.prems(3,6) x by auto
  show ?case
  proof (cases "calls = []")
    case True
    then show ?thesis using k(2) by (simp add: x)
  next
    case False
    then have "sint (store_cutoff cfg now) \<le> sint (store_cutoff cfg (fst (hd calls)))"
      using Cons.prems(4) x by (cases calls) auto
    then have less: "card (live_names io cfg (fst (hd calls)) i ?u) \<le> card (live_names io cfg now i ?u)"
      using live_later by (intro card_mono) auto
    have "int (card (live_names io cfg (fst (last calls)) i (fold (run_call io cfg) calls ?u))) \<le> store_max cfg"
      using less k False Cons.prems(2-4) x
      by (intro Cons.IH) auto
    then show ?thesis using False by (simp add: x)
  qed
qed simp

text \<open>A directory that cannot be read has no files as far as the limit goes.\<close>

lemma unreadable_counts_nothing:
  assumes "io = (\<lambda>k _. if k = ''readdir'' then Some err else None)" "mail_parse (ev_recipient e) = Inr i"
    and "mkdir_all io (store_dir cfg i) t = (t, Inr ())" "map_of (tr_files t) (store_path cfg i (ev_message e)) = None"
    and "store_path cfg i (ev_message e) \<notin> set (tr_dirs t)"
    and "parent_dir (store_path cfg i (ev_message e)) \<in> {''/'', ''.''} \<union> set (tr_dirs t)"
  shows "store_put io cfg now e t =
    (t\<lparr>tr_files := AList.update (store_path cfg i (ev_message e)) (envelope_marshal e) (tr_files t)\<rparr>, Inr ())"
  using assms
  by (simp add: store_put_def Let_def read_dir_def stat_ok_def create_renamed_def store_max_def map_of_eq_None_iff)

text \<open>The name of the file is taken from the envelope as it is: an identifier with \<open>..\<close> leaves the directory.\<close>

lemma put_escapes:
  assumes "fs_directory cfg = ''box''" "mail_parse (ev_recipient e) = Inr i" "ev_message e = ''../../x''"
  shows "map_of (tr_files (fst (store_put (\<lambda>_ _. None) cfg now e \<lparr> tr_files = [], tr_dirs = [] \<rparr>))) ''x.json'' =
    Some (envelope_marshal e)"
proof -
  let ?d = "''box/'' @ mail_string i"
  have d: "store_dir cfg i = ?d"
    using assms(1) by (simp add: store_dir_show root_kind_def root_stack_def has_prefix_def path_step_def show_path_def)
  have ns: "mail_string i \<noteq> []" "mail_string i \<noteq> ''.''" "mail_string i \<noteq> ''..''" "slash \<notin> set (mail_string i)"
    using mail_string_plain [of i] by (auto simp: plain_name_def)
  then have "split_on slash (?d @ ''/../../x.json'') = [''box'', mail_string i, ''..'', ''..'', ''x.json'']"
    by (simp add: split_on_append)
  then have p: "store_path cfg i (ev_message e) = ''x.json''"
    using ns by (simp add: store_path_def d assms(3) path_join_def path_clean_def has_prefix_def path_step_def show_path_def)
  have dirs: "''x.json'' \<notin> set (?d # ancestors ?d)"
    by (auto simp: ancestors_def take_Cons split: nat.splits)
  have "parent_dir ''x.json'' = ''.''"
    by (simp add: parent_dir_def ancestors_def has_prefix_def upt_rec)
  then show ?thesis
    using dirs assms(2) p
    by (simp add: store_put_def Let_def d mkdir_all_def read_dir_def dir_names_def List.map_filter_def stat_ok_def create_renamed_def
        store_max_def list_ex_iff)
qed

end
