(* ===== verification/Mailbox_Server.thy ===== *)
theory Mailbox_Server
  imports Mailbox_Store Wire Sizes
begin

section \<open>Mailboxes: the protocol\<close>

text \<open>
  \<open>pkg/knotmailbox/protocol.go\<close>: one request and one response per connection. The server is a function from the
  bytes it reads to the bytes it writes and the new state of its store; the client is given the connection as an
  exchange: the bytes it writes, and the error or the bytes it reads until the end. A time is read once per
  operation. The text of a JSON error is \<open>json_error\<close>.
\<close>

subsection \<open>Messages\<close>

definition max_mail_frame :: nat where "max_mail_frame = 4194304"

record mail_request =
  rq_version :: int
  rq_op :: string
  rq_envelope :: "envelope option"
  rq_identity :: "public_identity option"
  rq_time :: int64
  rq_signature :: string
  rq_limit :: int
  rq_ids :: "string nilable"

record mail_response =
  rs_ok :: bool
  rs_error :: string
  rs_envelopes :: "envelope list"

text \<open>A pointer field: \<open>null\<close> makes it nil, an object is decoded into what it points to or into a new value.\<close>

definition pointer_field :: "('a \<Rightarrow> json \<Rightarrow> 'a option) \<Rightarrow> 'a \<Rightarrow> 'a option \<Rightarrow> json \<Rightarrow> 'a option option" where
  "pointer_field f z old j =
     (case j of JNull \<Rightarrow> Some None | _ \<Rightarrow> map_option Some (f (case old of None \<Rightarrow> z | Some x \<Rightarrow> x) j))"

definition omit_none :: "'a option \<Rightarrow> string \<Rightarrow> ('a \<Rightarrow> json) \<Rightarrow> (string \<times> json) list" where
  "omit_none x k f = (case x of None \<Rightarrow> [] | Some y \<Rightarrow> [(k, f y)])"

definition mail_request_json :: "mail_request \<Rightarrow> json" where
  "mail_request_json q = JObj ([(''version'', jm_int (rq_version q)), (''op'', JStr (rq_op q))]
     @ omit_none (rq_envelope q) ''envelope'' envelope_json
     @ omit_none (rq_identity q) ''identity'' public_json
     @ omit_if (rq_time q = 0) ''time_unix'' (jm_int64 (rq_time q))
     @ omit_if (rq_signature q = []) ''signature'' (JStr (rq_signature q))
     @ omit_if (rq_limit q = 0) ''limit'' (jm_int (rq_limit q))
     @ omit_if (items (rq_ids q) = []) ''ids'' (jm_nilable (rq_ids q)))"

definition mail_request_unmarshal :: "bytes \<Rightarrow> mail_request option" where
  "mail_request_unmarshal raw =
     do { j \<leftarrow> unmarshal raw; kvs \<leftarrow> jobject j;
          v \<leftarrow> field int_field ''version'' kvs 0;
          p \<leftarrow> field str_field ''op'' kvs [];
          e \<leftarrow> field (pointer_field envelope_field zero_envelope) ''envelope'' kvs None;
          i \<leftarrow> field (pointer_field public_field zero_public) ''identity'' kvs None;
          t \<leftarrow> field int64_field ''time_unix'' kvs 0;
          s \<leftarrow> field str_field ''signature'' kvs [];
          l \<leftarrow> field int_field ''limit'' kvs 0;
          ids \<leftarrow> field nilable_field ''ids'' kvs None;
          Some \<lparr> rq_version = v, rq_op = p, rq_envelope = e, rq_identity = i, rq_time = t, rq_signature = s, rq_limit = l, rq_ids = ids \<rparr> }"

definition mail_response_json :: "mail_response \<Rightarrow> json" where
  "mail_response_json p = JObj ([(''ok'', JBool (rs_ok p))]
     @ omit_if (rs_error p = []) ''error'' (JStr (rs_error p))
     @ omit_if (rs_envelopes p = []) ''envelopes'' (JArr (map envelope_json (rs_envelopes p))))"

definition mail_response_unmarshal :: "bytes \<Rightarrow> mail_response option" where
  "mail_response_unmarshal raw =
     do { j \<leftarrow> unmarshal raw; kvs \<leftarrow> jobject j;
          k \<leftarrow> field bool_field ''ok'' kvs False;
          e \<leftarrow> field str_field ''error'' kvs [];
          es \<leftarrow> field (slice envelope_field zero_envelope) ''envelopes'' kvs [];
          Some \<lparr> rs_ok = k, rs_error = e, rs_envelopes = es \<rparr> }"

definition mail_write_frame :: "bytes \<Rightarrow> bytes result" where
  "mail_write_frame raw =
     (if length raw > max_mail_frame then Inl ''mailbox frame too large'' else Inr (put_u32 (of_nat (length raw)) @ raw))"

definition mail_read_frame :: "bytes \<Rightarrow> (bytes \<times> bytes) result" where
  "mail_read_frame r =
     (case read_full 4 r of Inl e \<Rightarrow> Inl e
      | Inr (h, r1) \<Rightarrow>
          let k = unat (get_u32 h) in
          if k = 0 \<or> k > max_mail_frame then Inl ''invalid mailbox frame size'' else read_full k r1)"

interpretation mail_frames: frame_codec "\<lambda>raw. raw \<noteq> [] \<and> length raw \<le> max_mail_frame" mail_write_frame mail_read_frame
proof
  show "\<exists>bs. mail_write_frame x = Inr bs" if "x \<noteq> [] \<and> length x \<le> max_mail_frame" for x
    using that by (simp add: mail_write_frame_def)
  show "mail_read_frame (bs @ rest) = Inr (x, rest)"
    if "mail_write_frame x = Inr bs" "x \<noteq> [] \<and> length x \<le> max_mail_frame" for x bs rest
  proof -
    have "bs = put_u32 (of_nat (length x)) @ x"
      using that by (auto simp: mail_write_frame_def split: if_splits)
    moreover have "unat (of_nat (length x) :: 32 word) = length x"
      using that(2) by (simp add: max_mail_frame_def unat_of_nat)
    ultimately show ?thesis using that(2) by (simp add: mail_read_frame_def Let_def)
  qed
qed

lemma pointer_field_simps [simp]:
  "pointer_field envelope_field z None (envelope_json e) = map_option Some (envelope_field z (envelope_json e))"
  "pointer_field public_field y None (public_json p) = Some (Some p)"
  by (simp_all add: pointer_field_def envelope_json_def public_json_def) (simp flip: public_json_def)

lemma omit_none_simps [simp]: "omit_none None k f = []" "omit_none (Some x) k f = [(k, f x)]"
  by (simp_all add: omit_none_def)

lemma field_omit_last [simp]: "field f name (omit_if b k v) z = (if b then Some z else field f name [(k, v)] z)"
  by (simp add: omit_if_def)

lemma json_wf_envelopes: "json_wf (JArr (map envelope_json es))"
  by (simp add: list_all_iff)

text \<open>A request whose slice of identifiers is nil when it is empty, as the client makes it.\<close>

definition plain_request :: "mail_request \<Rightarrow> bool" where
  "plain_request q \<longleftrightarrow> go_int (rq_version q) \<and> go_int (rq_limit q) \<and> rq_ids q \<noteq> Some [] \<and>
     (\<forall>e. rq_envelope q = Some e \<longrightarrow> go_int (ev_version e))"

lemma mail_request_roundtrip:
  assumes "plain_request q"
  shows "mail_request_unmarshal (marshal (mail_request_json q)) = Some q"
proof -
  have "unmarshal (marshal (mail_request_json q)) = Some (mail_request_json q)"
    by (rule unmarshal_marshal) (auto simp: mail_request_json_def omit_none_def split: option.split)
  moreover have "items (rq_ids q) = [] \<Longrightarrow> rq_ids q = None"
    using assms by (auto simp: plain_request_def items_def split: option.splits)
  ultimately show ?thesis
    using assms
    by (cases "rq_envelope q"; cases "rq_identity q"; cases "items (rq_ids q) = []")
      (simp_all add: mail_request_unmarshal_def mail_request_json_def plain_request_def jobject_def name_simps)
qed

lemma mail_response_roundtrip:
  assumes "\<forall>e \<in> set (rs_envelopes p). go_int (ev_version e)"
  shows "mail_response_unmarshal (marshal (mail_response_json p)) = Some p"
proof -
  have "unmarshal (marshal (mail_response_json p)) = Some (mail_response_json p)"
    using json_wf_envelopes by (intro unmarshal_marshal) (simp add: mail_response_json_def)
  moreover have "slice envelope_field zero_envelope [] (JArr (map envelope_json (rs_envelopes p))) = Some (rs_envelopes p)"
    using assms by (simp add: slice_def)
  ultimately show ?thesis
    by (cases "rs_error p = []"; cases "rs_envelopes p = []")
      (simp_all add: mail_response_unmarshal_def mail_response_json_def jobject_def name_simps)
qed

subsection \<open>The server\<close>

definition authorization_message :: "string \<Rightarrow> string \<Rightarrow> int64 \<Rightarrow> string nilable \<Rightarrow> bytes" where
  "authorization_message op i t ids = string_bytes
     (''knotroute/mailbox/auth/v1|'' @ op @ bar @ i @ bar @ show_int (sint t) @ bar @ json_print (jm_nilable ids))"

definition verify_authorization :: "crypto \<Rightarrow> time \<Rightarrow> mail_request \<Rightarrow> string \<Rightarrow> mail_id result" where
  "verify_authorization C now q op =
     (case rq_identity q of None \<Rightarrow> Inl ''missing mailbox identity''
      | Some p \<Rightarrow>
          (case public_verify C p of Inl e \<Rightarrow> Inl e
           | Inr (i, signing, _) \<Rightarrow>
               if outside_window 180 (unix now) (rq_time q) then Inl ''mailbox authorization timestamp expired''
               else (case raw_std_decode (rq_signature q) of None \<Rightarrow> Inl ''invalid mailbox authorization signature''
                 | Some sig \<Rightarrow>
                     if \<not> ed_verify C signing (authorization_message op (mail_string i) (rq_time q) (rq_ids q)) sig
                     then Inl ''invalid mailbox authorization''
                     else Inr i)))"

definition failure :: "error \<Rightarrow> mail_response" where
  "failure e = \<lparr> rs_ok = False, rs_error = e, rs_envelopes = [] \<rparr>"

definition success :: "envelope list \<Rightarrow> mail_response" where
  "success es = \<lparr> rs_ok = True, rs_error = [], rs_envelopes = es \<rparr>"

definition fetch_limit :: "int \<Rightarrow> int" where
  "fetch_limit k = (if k \<le> 0 \<or> k > 256 then 256 else k)"

definition serve_put :: "'s mail_store \<Rightarrow> int \<Rightarrow> mail_request \<Rightarrow> 's \<Rightarrow> 's \<times> mail_response" where
  "serve_put st max_bytes q s =
     (case rq_envelope q of None \<Rightarrow> (s, failure ''missing envelope'')
      | Some e \<Rightarrow>
          if int (length (envelope_marshal e)) > max_bytes then (s, failure ''envelope too large'')
          else (case mail_parse (ev_recipient e) of Inl _ \<Rightarrow> (s, failure ''invalid recipient'')
            | Inr _ \<Rightarrow>
                (case ms_put st e s of (s', Inl err) \<Rightarrow> (s', failure err) | (s', Inr _) \<Rightarrow> (s', success []))))"

definition serve_fetch :: "crypto \<Rightarrow> time \<Rightarrow> 's mail_store \<Rightarrow> mail_request \<Rightarrow> 's \<Rightarrow> 's \<times> mail_response" where
  "serve_fetch C now st q s =
     (case verify_authorization C now q ''fetch'' of Inl e \<Rightarrow> (s, failure e)
      | Inr i \<Rightarrow>
          (case ms_list st i (fetch_limit (rq_limit q)) s of (s', Inl err) \<Rightarrow> (s', failure err) | (s', Inr es) \<Rightarrow> (s', success es)))"

definition serve_ack :: "crypto \<Rightarrow> time \<Rightarrow> 's mail_store \<Rightarrow> mail_request \<Rightarrow> 's \<Rightarrow> 's \<times> mail_response" where
  "serve_ack C now st q s =
     (case verify_authorization C now q ''ack'' of Inl e \<Rightarrow> (s, failure e)
      | Inr i \<Rightarrow>
          if length (items (rq_ids q)) > 256 then (s, failure ''too many ids'')
          else (case ms_delete st i (items (rq_ids q)) s of (s', Inl err) \<Rightarrow> (s', failure err) | (s', Inr _) \<Rightarrow> (s', success [])))"

text \<open>A response that does not fit a frame is not written at all.\<close>

definition written :: "mail_response \<Rightarrow> bytes" where
  "written p = (case mail_write_frame (marshal (mail_response_json p)) of Inl _ \<Rightarrow> [] | Inr bs \<Rightarrow> bs)"

definition mail_serve :: "crypto \<Rightarrow> 's mail_store option \<Rightarrow> int \<Rightarrow> time \<Rightarrow> bytes \<Rightarrow> 's \<Rightarrow> 's \<times> bytes" where
  "mail_serve C store max_bytes now raw s =
     (case store of None \<Rightarrow> (s, [])
      | Some st \<Rightarrow>
          (case mail_read_frame raw of Inl _ \<Rightarrow> (s, [])
           | Inr (body, _) \<Rightarrow>
               (case mail_request_unmarshal body of None \<Rightarrow> (s, [])
                | Some q \<Rightarrow>
                    if rq_version q \<noteq> 1 then (s, [])
                    else if rq_op q = ''put''
                    then map_prod id written (serve_put st (if max_bytes \<le> 0 then 1048576 else max_bytes) q s)
                    else if rq_op q = ''fetch'' then map_prod id written (serve_fetch C now st q s)
                    else if rq_op q = ''ack'' then map_prod id written (serve_ack C now st q s)
                    else (s, []))))"

subsection \<open>The client\<close>

text \<open>A connection: what is written to it, and the error or the bytes it gives until it ends.\<close>

type_synonym 's exchange = "bytes \<Rightarrow> 's \<Rightarrow> 's \<times> bytes result"

definition signed_request :: "crypto \<Rightarrow> string \<Rightarrow> mail_identity \<Rightarrow> int \<Rightarrow> string list \<Rightarrow> time \<Rightarrow> mail_request" where
  "signed_request C op i limit ids now =
     (let nids = (if ids = [] then None else Some ids)
      in \<lparr> rq_version = 1, rq_op = op, rq_envelope = None, rq_identity = Some (mail_public i), rq_time = unix now,
           rq_signature = raw_std (ed_sign C (mi_sign_private i) (authorization_message op (mail_string (mi_id i)) (unix now) nids)),
           rq_limit = limit, rq_ids = nids \<rparr>)"

text \<open>Writes a request and reads the response. A request that is too large is refused before a byte is written.\<close>

definition round_trip :: "'s exchange \<Rightarrow> mail_request \<Rightarrow> 's \<Rightarrow> 's \<times> mail_response result" where
  "round_trip conn q s =
     (case mail_write_frame (marshal (mail_request_json q)) of Inl e \<Rightarrow> (s, Inl e)
      | Inr bs \<Rightarrow>
          (case conn bs s of (s', Inl e) \<Rightarrow> (s', Inl e)
           | (s', Inr out) \<Rightarrow>
               (case mail_read_frame out of Inl e \<Rightarrow> (s', Inl e)
                | Inr (body, _) \<Rightarrow>
                    (case mail_response_unmarshal body of None \<Rightarrow> (s', Inl json_error)
                     | Some p \<Rightarrow> if rs_ok p then (s', Inr p) else (s', Inl (rs_error p))))))"

definition mail_send ::
  "crypto \<Rightarrow> 's exchange option \<Rightarrow> mail_identity \<Rightarrow> public_identity \<Rightarrow> bytes \<Rightarrow> time \<Rightarrow> bytes \<Rightarrow> bytes \<Rightarrow> 's \<Rightarrow> 's \<times> string result" where
  "mail_send C dialer sender recipient payload now eph nonce s =
     (case dialer of None \<Rightarrow> (s, Inl ''mailbox dialer is nil'')
      | Some conn \<Rightarrow>
          (case mail_seal C sender recipient payload now eph nonce of Inl e \<Rightarrow> (s, Inl e)
           | Inr env \<Rightarrow>
               (case round_trip conn \<lparr> rq_version = 1, rq_op = ''put'', rq_envelope = Some env, rq_identity = None, rq_time = 0,
                    rq_signature = [], rq_limit = 0, rq_ids = None \<rparr> s of
                  (s', Inl e) \<Rightarrow> (s', Inl e)
                | (s', Inr _) \<Rightarrow> (s', Inr (ev_message env)))))"

definition mail_fetch :: "crypto \<Rightarrow> 's exchange option \<Rightarrow> mail_identity \<Rightarrow> int \<Rightarrow> time \<Rightarrow> 's \<Rightarrow> 's \<times> message list result" where
  "mail_fetch C dialer recipient limit now s =
     (case dialer of None \<Rightarrow> (s, Inl ''mailbox dialer is nil'')
      | Some conn \<Rightarrow>
          (case round_trip conn (signed_request C ''fetch'' recipient limit [] now) s of
             (s', Inl e) \<Rightarrow> (s', Inl e)
           | (s', Inr p) \<Rightarrow>
               (s', Inr (List.map_filter (\<lambda>e. case mail_open C recipient e of Inl _ \<Rightarrow> None | Inr m \<Rightarrow> Some m) (rs_envelopes p)))))"

definition mail_ack :: "crypto \<Rightarrow> 's exchange option \<Rightarrow> mail_identity \<Rightarrow> string list \<Rightarrow> time \<Rightarrow> 's \<Rightarrow> 's \<times> unit result" where
  "mail_ack C dialer recipient ids now s =
     (case dialer of None \<Rightarrow> (s, Inl ''mailbox dialer is nil'')
      | Some conn \<Rightarrow>
          if ids = [] then (s, Inr ())
          else (case round_trip conn (signed_request C ''ack'' recipient 0 ids now) s of
              (s', Inl e) \<Rightarrow> (s', Inl e) | (s', Inr _) \<Rightarrow> (s', Inr ())))"

text \<open>A connection that the server answers.\<close>

definition served :: "crypto \<Rightarrow> 's mail_store \<Rightarrow> int \<Rightarrow> time \<Rightarrow> 's exchange" where
  "served C st max_bytes now raw s = map_prod id Inr (mail_serve C (Some st) max_bytes now raw s)"

subsection \<open>Requests reach the store\<close>

lemma request_nonempty: "marshal (mail_request_json q) \<noteq> []" "marshal (mail_response_json p) \<noteq> []"
  by (simp_all add: marshal_def mail_request_json_def mail_response_json_def string_bytes_def)

definition response_fits :: "mail_response \<Rightarrow> bool" where
  "response_fits p \<longleftrightarrow> length (marshal (mail_response_json p)) \<le> max_mail_frame \<and> (\<forall>e \<in> set (rs_envelopes p). go_int (ev_version e))"

definition request_fits :: "mail_request \<Rightarrow> bool" where
  "request_fits q \<longleftrightarrow> plain_request q \<and> length (marshal (mail_request_json q)) \<le> max_mail_frame"

lemma round_trip_served:
  assumes "request_fits q" "rq_version q = 1" "response_fits p"
    and "(rq_op q = ''put'' \<and> serve_put st (if max_bytes \<le> 0 then 1048576 else max_bytes) q s = (s', p)) \<or>
      (rq_op q = ''fetch'' \<and> serve_fetch C now st q s = (s', p)) \<or> (rq_op q = ''ack'' \<and> serve_ack C now st q s = (s', p))"
  shows "round_trip (served C st max_bytes now) q s = (s', if rs_ok p then Inr p else Inl (rs_error p))"
proof -
  obtain bs where bs: "mail_write_frame (marshal (mail_request_json q)) = Inr bs"
    using assms(1) mail_frames.wr_valid request_nonempty(1) by (metis request_fits_def)
  have "mail_read_frame (bs @ []) = Inr (marshal (mail_request_json q), [])"
    using assms(1) by (intro mail_frames.rd_wr [OF bs]) (simp add: request_fits_def request_nonempty)
  then have srv: "served C st max_bytes now bs s = (s', Inr (written p))"
    using assms by (auto simp: served_def mail_serve_def mail_request_roundtrip request_fits_def)
  obtain rb where rb: "mail_write_frame (marshal (mail_response_json p)) = Inr rb"
    using assms(3) mail_frames.wr_valid request_nonempty(2) by (metis response_fits_def)
  have "mail_read_frame (rb @ []) = Inr (marshal (mail_response_json p), [])"
    using assms(3) by (intro mail_frames.rd_wr [OF rb]) (simp add: response_fits_def request_nonempty)
  then show ?thesis
    using assms(3) by (simp add: round_trip_def bs srv written_def rb mail_response_roundtrip response_fits_def)
qed

lemma serve_authorized:
  assumes "good_mail C r" "dh_ok C" "\<not> outside_window 180 (unix now) (unix sent)"
  shows "verify_authorization C now (signed_request C op r limit ids sent) op = Inr (mi_id r)"
proof -
  have "signs C (mi_sign_private r)" using assms(1) by (simp add: good_mail_def)
  then show ?thesis
    using assms(3) public_verify_own [OF good_formed [OF assms(1)] assms(2)] formed_mailD(1) [OF good_formed [OF assms(1)]]
    by (simp add: verify_authorization_def signed_request_def Let_def signsD)
qed

lemma plain_signed: "go_int limit \<Longrightarrow> plain_request (signed_request C op r limit ids now)"
  by (simp add: plain_request_def signed_request_def Let_def go_int_def)

lemma jm_int_one: "jm_int 1 = JNum ''1''"
  by (simp add: jm_int_def show_int_def) (subst show_nat.simps, simp add: char_of_eq_iff)

text \<open>What the client sees of each operation of the store.\<close>

lemma client_put:
  assumes "mail_seal C sender p payload now eph nonce = Inr e" "ms_put st e s = (s', Inr ())"
    and "int (length (envelope_marshal e)) \<le> (if max_bytes \<le> 0 then 1048576 else max_bytes)"
    and "length (envelope_marshal e) \<le> 4194000"
  shows "mail_send C (Some (served C st max_bytes at_server)) sender p payload now eph nonce s = (s', Inr (ev_message e))"
proof -
  let ?q = "\<lparr> rq_version = 1, rq_op = ''put'', rq_envelope = Some e, rq_identity = None, rq_time = 0,
    rq_signature = [], rq_limit = 0, rq_ids = None \<rparr>"
  note sh = mail_seal_shape [OF assms(1)]
  have "length (marshal (mail_request_json ?q)) \<le> 200 + length (envelope_marshal e)"
    using length_print_string [of "''version''"] length_print_string [of "''op''"] length_print_string [of "''put''"]
      length_print_string [of "''envelope''"]
    by (simp add: marshal_def mail_request_json_def envelope_marshal_def jm_int_one)
  then have fits: "request_fits ?q"
    using assms(4) sh(1) by (simp add: request_fits_def plain_request_def go_int_def max_mail_frame_def)
  have "mail_parse (ev_recipient e) \<noteq> Inl x" for x using sh(4) by auto
  then have put: "serve_put st (if max_bytes \<le> 0 then 1048576 else max_bytes) ?q s = (s', success [])"
    using assms(2,3) by (cases "mail_parse (ev_recipient e)") (auto simp: serve_put_def)
  have "response_fits (success [])"
    by (simp add: response_fits_def success_def marshal_def mail_response_json_def print_string_def esc_char_def Let_def max_mail_frame_def)
  then have "round_trip (served C st max_bytes at_server) ?q s = (s', Inr (success []))"
    using round_trip_served [OF fits, of "success []" st max_bytes s s' C at_server] put by (simp add: success_def)
  then show ?thesis by (simp add: mail_send_def assms(1))
qed

lemma client_list:
  assumes "good_mail C r" "dh_ok C" "\<not> outside_window 180 (unix at_server) (unix now)" "go_int limit"
    and "request_fits (signed_request C ''fetch'' r limit [] now)"
    and "ms_list st (mi_id r) (fetch_limit limit) s = (s', Inr es)" "response_fits (success es)"
  shows "mail_fetch C (Some (served C st max_bytes at_server)) r limit now s =
    (s', Inr (List.map_filter (\<lambda>e. case mail_open C r e of Inl _ \<Rightarrow> None | Inr m \<Rightarrow> Some m) es))"
proof -
  let ?q = "signed_request C ''fetch'' r limit [] now"
  have "serve_fetch C at_server st ?q s = (s', success es)"
    using assms(6) serve_authorized [OF assms(1-3)] by (simp add: serve_fetch_def) (simp add: signed_request_def Let_def)
  moreover have "rq_version ?q = 1" "rq_op ?q = ''fetch''" by (simp_all add: signed_request_def Let_def)
  ultimately have "round_trip (served C st max_bytes at_server) ?q s = (s', Inr (success es))"
    using round_trip_served [OF assms(5) _ assms(7)] by (simp add: success_def)
  then show ?thesis by (simp add: mail_fetch_def success_def)
qed

lemma client_delete:
  assumes "good_mail C r" "dh_ok C" "\<not> outside_window 180 (unix at_server) (unix now)" "ids \<noteq> []" "length ids \<le> 256"
    and "request_fits (signed_request C ''ack'' r 0 ids now)" "ms_delete st (mi_id r) ids s = (s', Inr ())"
  shows "mail_ack C (Some (served C st max_bytes at_server)) r ids now s = (s', Inr ())"
proof -
  let ?q = "signed_request C ''ack'' r 0 ids now"
  have i: "items (rq_ids ?q) = ids" "rq_version ?q = 1" "rq_op ?q = ''ack''" using assms(4) by (simp_all add: signed_request_def Let_def)
  then have "serve_ack C at_server st ?q s = (s', success [])"
    using assms(5,7) serve_authorized [OF assms(1-3)] by (simp add: serve_ack_def)
  moreover have "response_fits (success [])"
    by (simp add: response_fits_def success_def marshal_def mail_response_json_def print_string_def esc_char_def Let_def max_mail_frame_def)
  ultimately have "round_trip (served C st max_bytes at_server) ?q s = (s', Inr (success []))"
    using round_trip_served [OF assms(6), of "success []"] i by (simp add: success_def)
  then show ?thesis using assms(4) by (simp add: mail_ack_def)
qed

text \<open>A full inbox of large envelopes: the response does not fit a frame, nothing is written, and the client sees the end of the
  connection. As nothing is acknowledged the next fetch meets the same inbox.\<close>

lemma fetch_too_large:
  assumes "good_mail C r" "dh_ok C" "\<not> outside_window 180 (unix at_server) (unix now)"
    and "request_fits (signed_request C ''fetch'' r limit [] now)"
    and "ms_list st (mi_id r) (fetch_limit limit) s = (s', Inr es)" "max_mail_frame < length (marshal (mail_response_json (success es)))"
  shows "mail_fetch C (Some (served C st max_bytes at_server)) r limit now s = (s', Inl ''EOF'')"
proof -
  let ?q = "signed_request C ''fetch'' r limit [] now"
  obtain bs where bs: "mail_write_frame (marshal (mail_request_json ?q)) = Inr bs"
    using assms(4) mail_frames.wr_valid request_nonempty(1) by (metis request_fits_def)
  have "mail_read_frame (bs @ []) = Inr (marshal (mail_request_json ?q), [])"
    using assms(4) by (intro mail_frames.rd_wr [OF bs]) (simp add: request_fits_def request_nonempty)
  moreover have "serve_fetch C at_server st ?q s = (s', success es)"
    using assms(5) serve_authorized [OF assms(1-3)] by (simp add: serve_fetch_def) (simp add: signed_request_def Let_def)
  moreover have "rq_version ?q = 1" "rq_op ?q = ''fetch''" by (simp_all add: signed_request_def Let_def)
  moreover have "written (success es) = []" using assms(6) by (simp add: written_def mail_write_frame_def)
  ultimately have "served C st max_bytes at_server bs s = (s', Inr [])"
    using assms(4) by (simp add: served_def mail_serve_def mail_request_roundtrip request_fits_def)
  then show ?thesis by (simp add: mail_fetch_def round_trip_def bs mail_read_frame_def read_full_def)
qed

lemma message_id_token: "url_token (raw_url (arr_bytes (h :: 32 barr)))"
proof -
  have "list_all token_char b64_url_alphabet" by (simp add: b64_url_alphabet_def token_char_def)
  then have "list_all token_char (raw_url (arr_bytes h))"
    using set_b64_raw_encode [OF b64_alphabets(4), of "arr_bytes h"] by (auto simp: list_all_iff raw_url_def)
  moreover have "raw_url (arr_bytes h) \<noteq> []"
  proof
    assume "raw_url (arr_bytes h) = []"
    then have "b64_raw_decode b64_url_alphabet [] = Some (arr_bytes h)"
      using b64_url_roundtrip [of "arr_bytes h"] by (simp add: raw_url_def)
    moreover have "encode_groups 6 3 [] = []" by (subst encode_groups.simps) simp
    then have "b64_raw_decode b64_url_alphabet [] = Some []"
      using b64_url_roundtrip [of "[]"] by (simp add: b64_raw_encode_def)
    ultimately have "arr_bytes h = []" by simp
    then show False using length_arr_bytes [of h] by simp
  qed
  ultimately show ?thesis by (simp add: url_token_def)
qed

context mail_store_laws
begin

text \<open>A message accepted by the store is fetched by its recipient until it is acknowledged.\<close>

lemma delivered:
  assumes "ok s" "good_mail C sender" "good_mail C r" "aead_ok C" "dh_ok C" "length nonce = 12"
    and seal: "mail_seal C sender (mail_public r) payload now eph nonce = Inr e"
    and new: "inbox s (mi_id r) (ev_message e) = None" and put: "ms_put (S t0) e s = (s1, Inr ())"
    and fetch: "ms_list (S t1) (mi_id r) (fetch_limit limit) s1 = (s2, Inr es)" "int (length es) < fetch_limit limit" "\<not> old t1 e"
    and ack: "ms_delete (S t2) (mi_id r) [ev_message e] s2 = (s3, Inr ())"
  shows "\<lparr> mg_id = ev_message e, mg_sender = mail_public sender, mg_created = unix now, mg_payload = payload \<rparr> \<in>
      set (List.map_filter (\<lambda>e. case mail_open C r e of Inl _ \<Rightarrow> None | Inr m \<Rightarrow> Some m) es)"
    and "inbox s2 (mi_id r) (ev_message e) = Some e" "inbox s3 (mi_id r) (ev_message e) = None"
    and "url_token m \<Longrightarrow> m \<noteq> ev_message e \<Longrightarrow> inbox s3 j m = inbox s2 j m"
proof -
  note sh = mail_seal_shape [OF seal]
  have tok: "url_token (ev_message e)" using sh(3) message_id_token by auto
  have "ev_recipient e = mail_string (mi_id r)"
    using seal public_verify_own [OF good_formed [OF assms(3)] assms(5)] by (auto simp: mail_seal_def Let_def split: sum.splits)
  then have rec: "mail_parse (ev_recipient e) = Inr (mi_id r)" by simp
  have v: "go_int (ev_version e)" using sh(1) by (simp add: go_int_def)
  have s1: "inbox s1 (mi_id r) (ev_message e) = Some e" using put_stores [OF assms(1) v put rec tok new] .
  have ok1: "ok s1" using put_ok [OF assms(1) v put] .
  have "e \<in> set es" using list_complete [OF ok1 fetch(1) s1 tok fetch(3)] fetch(2) by blast
  moreover have "mail_open C r e = Inr \<lparr> mg_id = ev_message e, mg_sender = mail_public sender, mg_created = unix now, mg_payload = payload \<rparr>"
    by (rule mail_open_sealed [OF assms(2-6) seal])
  ultimately show "\<lparr> mg_id = ev_message e, mg_sender = mail_public sender, mg_created = unix now, mg_payload = payload \<rparr> \<in>
      set (List.map_filter (\<lambda>e. case mail_open C r e of Inl _ \<Rightarrow> None | Inr m \<Rightarrow> Some m) es)"
    by (force simp: List.map_filter_def)
  show "inbox s2 (mi_id r) (ev_message e) = Some e" using list_keeps [OF fetch(1) s1 fetch(3)] .
  have "ev_message e \<noteq> []" using tok by (simp add: url_token_def)
  then show "inbox s3 (mi_id r) (ev_message e) = None"
    using delete_gone [OF list_ok [OF ok1 fetch(1)] ack] by simp
  show "inbox s3 j m = inbox s2 j m" if "url_token m" "m \<noteq> ev_message e"
    using delete_keeps [OF ack that(1), of j] that(2) by simp
qed

end

end
