(* ===== verification/Mailbox_Props.thy ===== *)
theory Mailbox_Props
  imports Mailbox_Server
begin

section \<open>What mailboxes promise\<close>

text \<open>
  A message that the store accepts reaches its recipient, who is the only one to delete it; what a recipient opens
  was sealed for it by the owner of the sender's key.
\<close>

subsection \<open>Authenticity\<close>

text \<open>The two kinds of text the owner of a mailbox key signs.\<close>

datatype signed_act = Sealed mail_id int64 bytes | Authorized string mail_id int64 "string nilable"

fun act_text :: "crypto \<Rightarrow> signed_act \<Rightarrow> bytes" where
  "act_text C (Sealed r t p) = message_to_sign C (mail_string r) t p"
| "act_text C (Authorized op i t ids) = authorization_message op (mail_string i) t ids"

lemma length_mail_string: "length (mail_string i) = length (mail_string j)"
proof -
  have m: "length (mail_string (MailID a)) = length (node_string (NodeID a))" for a
    by (simp add: mail_string_def node_string_def mail_prefix_def node_prefix_def)
  obtain a b where "i = MailID a" "j = MailID b" by (cases i; cases j)
  then show ?thesis using node_string_length [of "NodeID a" "NodeID b"] by (simp add: m)
qed

lemma message_text_inject:
  assumes "message_to_sign C (mail_string r) t p = message_to_sign C (mail_string s) u q"
  shows "r = s \<and> t = u \<and> sha256 C p = sha256 C q"
proof -
  let ?h = "\<lambda>x. hex_encode (arr_bytes (sha256 C x))"
  have "mail_string r @ bar @ show_int (sint t) @ bar @ ?h p = mail_string s @ bar @ show_int (sint u) @ bar @ ?h q"
    using assms by (simp add: message_to_sign_def)
  then have 1: "mail_string r = mail_string s" "show_int (sint t) @ bar @ ?h p = show_int (sint u) @ bar @ ?h q"
    using length_mail_string [of r s] by (simp_all add: append_eq_append_conv)
  moreover have "length (bar @ ?h p) = length (bar @ ?h q)" by simp
  ultimately have "show_int (sint t) = show_int (sint u)" "bar @ ?h p = bar @ ?h q"
    using append_eq_append_conv by blast+
  with 1 show ?thesis by (simp add: arr_bytes_eq_iff signed_word_eqI)
qed

lemma message_not_authorization: "message_to_sign C r t p \<noteq> authorization_message op i u ids"
  by (simp add: message_to_sign_def authorization_message_def)

text \<open>C16. Whoever opens an envelope gets a message that the owner of the sender's signing key sealed for this mailbox at
  this time, with a payload of the same hash, provided the key has only signed messages and requests of this
  protocol. A signed request to the server cannot be passed off as a message.\<close>

theorem mailbox_opened_authentic:
  assumes "mail_open C recipient e = Inr m" "public_verify C (mg_sender m) = Inr (i, signing, enc)"
    and "\<And>x sig. ed_verify C signing x sig \<Longrightarrow> x \<in> act_text C ` acts"
  shows "\<exists>p. Sealed (mi_id recipient) (mg_created m) p \<in> acts \<and> sha256 C p = sha256 C (mg_payload m)"
proof -
  obtain sig where "ed_verify C signing (message_to_sign C (mail_string (mi_id recipient)) (mg_created m) (mg_payload m)) sig"
    using mail_open_InrD [OF assms(1)] assms(2) by auto
  then obtain a where a: "a \<in> acts" "act_text C a = message_to_sign C (mail_string (mi_id recipient)) (mg_created m) (mg_payload m)"
    using assms(3) by (metis imageE)
  show ?thesis
  proof (cases a)
    case (Sealed r t p)
    then show ?thesis using a message_text_inject [of C r t p] by auto
  next
    case (Authorized op j t ids)
    then show ?thesis using a message_not_authorization by (metis act_text.simps(2))
  qed
qed

subsection \<open>Delivery\<close>

text \<open>C15. A message the store accepted is in what its recipient fetches (when the store has fewer messages than one fetch
  takes), with its payload, sender and time, and stays there until the recipient acknowledges it; the acknowledgement
  deletes it and no other. Server and client may differ by three minutes.\<close>

theorem mailbox_delivers:
  assumes "store_ok io cfg t" "good_mail C sender" "good_mail C r" "aead_ok C" "dh_ok C" "length nonce = 12"
    and "mail_seal C sender (mail_public r) payload now eph nonce = Inr e" "store_inbox cfg t (mi_id r) (ev_message e) = None"
    and "int (length (envelope_marshal e)) \<le> (if max_bytes \<le> 0 then 1048576 else max_bytes)" "length (envelope_marshal e) \<le> 4194000"
    and "store_put io cfg t0 e t = (t1, Inr ())"
    and "store_list io cfg now1 (mi_id r) (fetch_limit limit) t1 = (t2, Inr es)" "int (length es) < fetch_limit limit"
    and "\<not> expired (store_cutoff cfg now1) e" "response_fits (success es)" "request_fits (signed_request C ''fetch'' r limit [] at1)"
    and "\<not> outside_window 180 (unix now1) (unix at1)" "go_int limit"
    and "store_delete io cfg (mi_id r) [ev_message e] t2 = (t3, Inr ())"
    and "\<not> outside_window 180 (unix now2) (unix at2)" "request_fits (signed_request C ''ack'' r 0 [ev_message e] at2)"
  shows "mail_send C (Some (served C (file_store io cfg t0) max_bytes t0)) sender (mail_public r) payload now eph nonce t =
      (t1, Inr (ev_message e)) \<and>
    (\<exists>ms. mail_fetch C (Some (served C (file_store io cfg now1) max_bytes now1)) r limit at1 t1 = (t2, Inr ms) \<and>
      \<lparr> mg_id = ev_message e, mg_sender = mail_public sender, mg_created = unix now, mg_payload = payload \<rparr> \<in> set ms) \<and>
    store_inbox cfg t2 (mi_id r) (ev_message e) = Some e \<and>
    mail_ack C (Some (served C (file_store io cfg now2) max_bytes now2)) r [ev_message e] at2 t2 = (t3, Inr ()) \<and>
    store_inbox cfg t3 (mi_id r) (ev_message e) = None \<and>
    (\<forall>j m. url_token m \<and> m \<noteq> ev_message e \<longrightarrow> store_inbox cfg t3 j m = store_inbox cfg t2 j m)"
proof (intro conjI)
  have ops: "ms_put (file_store io cfg t0) e t = (t1, Inr ())"
    "ms_list (file_store io cfg now1) (mi_id r) (fetch_limit limit) t1 = (t2, Inr es)"
    "ms_delete (file_store io cfg now2) (mi_id r) [ev_message e] t2 = (t3, Inr ())"
    using assms(11,12,19) by (simp_all add: file_store_def)
  note d = file_mail.delivered [OF assms(1-8) ops(1,2) assms(13,14) ops(3)]
  show "mail_send C (Some (served C (file_store io cfg t0) max_bytes t0)) sender (mail_public r) payload now eph nonce t =
      (t1, Inr (ev_message e))"
    by (rule client_put [OF assms(7) ops(1) assms(9,10)])
  show "\<exists>ms. mail_fetch C (Some (served C (file_store io cfg now1) max_bytes now1)) r limit at1 t1 = (t2, Inr ms) \<and>
      \<lparr> mg_id = ev_message e, mg_sender = mail_public sender, mg_created = unix now, mg_payload = payload \<rparr> \<in> set ms"
    using client_list [OF assms(3,5,17,18,16) ops(2) assms(15)] d(1) by blast
  show "mail_ack C (Some (served C (file_store io cfg now2) max_bytes now2)) r [ev_message e] at2 t2 = (t3, Inr ())"
    by (rule client_delete [OF assms(3,5,20) _ _ assms(21) ops(3)]) simp_all
  show "store_inbox cfg t2 (mi_id r) (ev_message e) = Some e" "store_inbox cfg t3 (mi_id r) (ev_message e) = None"
    "\<forall>j m. url_token m \<and> m \<noteq> ev_message e \<longrightarrow> store_inbox cfg t3 j m = store_inbox cfg t2 j m"
    using d(2-4) by blast+
qed

subsection \<open>Examples\<close>

definition calm_io :: path_io where "calm_io = (\<lambda>_ _. None)"
definition toy_store :: store_config where "toy_store = \<lparr> fs_directory = ''box'', fs_ttl = 0, fs_max = 0 \<rparr>"
definition empty_tree :: tree where "empty_tree = \<lparr> tr_files = [], tr_dirs = [] \<rparr>"
definition toy_mail :: "byte \<Rightarrow> mail_identity" where "toy_mail k = mail_generate toy (replicate 64 k) (replicate 32 k)"

lemma toy_mail_good: "good_mail toy (toy_mail k)"
  unfolding toy_mail_def by (intro good_generated toy_signs) simp_all

lemma empty_store_ok: "store_ok calm_io cfg empty_tree"
  by (simp add: store_ok_def calm_def calm_io_def empty_tree_def)

text \<open>The first envelope that arrives.\<close>

definition first_tree :: "mail_id \<Rightarrow> envelope \<Rightarrow> tree" where
  "first_tree i e = \<lparr> tr_files = [(store_path toy_store i (ev_message e), envelope_marshal e)],
     tr_dirs = store_dir toy_store i # ancestors (store_dir toy_store i) \<rparr>"

lemma first_put:
  assumes "mail_parse (ev_recipient e) = Inr i" "url_token (ev_message e)"
  shows "store_put calm_io toy_store now e empty_tree = (first_tree i e, Inr ())"
proof -
  let ?d = "store_dir toy_store i"
  note p = store_path_token(1) [OF assms(2), of toy_store i] store_path_token(2) [OF assms(2)]
  have "store_path toy_store i (ev_message e) \<notin> set (?d # ancestors ?d)"
    using ancestor_slashes [of "store_path toy_store i (ev_message e)" ?d] p(1) by auto
  moreover have "parent_dir (store_path toy_store i (ev_message e)) = ?d"
    unfolding p(1) by (rule parent_child [OF p(2) store_dir_longer(1)])
  moreover have "list_ex (\<lambda>p. False) xs = False" for xs :: "string list" by (simp add: list_ex_iff)
  ultimately show ?thesis
    using assms(1) by (simp add: store_put_def Let_def calm_io_def empty_tree_def mkdir_all_def read_dir_def dir_names_def
        List.map_filter_def stat_ok_def create_renamed_def store_max_def toy_store_def first_tree_def)
qed

lemma first_list:
  assumes "url_token (ev_message e)" "go_int (ev_version e)" "\<not> expired (store_cutoff toy_store now) e" "1 < limit"
  shows "store_list calm_io toy_store now i limit (first_tree i e) = (first_tree i e, Inr [e])"
proof -
  let ?d = "store_dir toy_store i" and ?n = "ev_message e @ ''.json''"
  note p = store_path_token(1) [OF assms(1), of toy_store i] store_path_token(2) [OF assms(1)]
  have plain: "plain_name ?n" using p(2) by (cases "ev_message e") (auto simp: plain_name_def)
  then have names: "dir_names ?d (first_tree i e) = [?n]"
    by (simp add: dir_names_def first_tree_def p(1) List.map_filter_simps)
  have dir: "read_dir calm_io ?d (first_tree i e) = Inr [?n]"
    by (simp add: read_dir_def calm_io_def names) (simp add: first_tree_def)
  have "load_envelope calm_io (path_join ?d ?n) (first_tree i e) = Some e"
    by (simp add: load_envelope_def read_tree_def calm_io_def store_child plain first_tree_def p(1) envelope_roundtrip [OF assms(2)])
  then show ?thesis using assms(3,4) by (simp add: store_list_def dir Let_def)
qed

lemma first_inbox: "go_int (ev_version e) \<Longrightarrow> store_inbox toy_store (first_tree i e) i (ev_message e) = Some e"
  by (simp add: store_inbox_def first_tree_def envelope_roundtrip)

lemma empty_inbox: "store_inbox cfg empty_tree i m = None"
  by (simp add: store_inbox_def empty_tree_def)

lemma first_delete:
  assumes "url_token (ev_message e)"
  shows "store_delete calm_io toy_store i [ev_message e] (first_tree i e) = ((first_tree i e)\<lparr>tr_files := []\<rparr>, Inr ())"
  using assms by (simp add: url_token_def remove_file_def calm_io_def first_tree_def)

subsection \<open>Sizes\<close>

lemma length_raw_std: "length (raw_std bs) \<le> 2 * length bs" "length (raw_url bs) \<le> 2 * length bs"
proof -
  have "length (encode_groups 6 3 bs) \<le> 2 * length bs"
    by (rule length_encode_groups) (simp add: group_len_def)
  then show "length (raw_std bs) \<le> 2 * length bs" "length (raw_url bs) \<le> 2 * length bs"
    by (simp_all add: raw_std_def raw_url_def b64_raw_encode_def)
qed

lemma mail_string_bound: "length (mail_string i) \<le> 67"
  using length_b32_le [of "mail_bytes i"] by (cases i) (simp add: mail_string_def mail_prefix_def)

lemma member_size_sub: "length (marshal j) \<le> k \<Longrightarrow> member_size (name, j) \<le> 6 * length name + k + 4"
  by (simp add: member_size_def marshal_def)

lemma member_size_one: "member_size (name, jm_int 1) = 6 * length name + 5"
  by (simp add: member_size_def jm_int_one)

lemma public_size:
  assumes "formed_mail C i" "dh_ok C"
  shows "length (marshal (public_json (mail_public i))) \<le> 1500"
proof -
  note f = formed_mailD [OF assms(1)]
  have l: "length (mi_enc_public i) = 32" using f(3) dh_okD(1) [OF assms(2)] by simp
  have "member_size (''id'', JStr (mail_string (mi_id i))) \<le> 6 * length ''id'' + 6 * 67 + 6"
    "member_size (''signing_key'', JStr (raw_std (mi_sign_public i))) \<le> 6 * length ''signing_key'' + 6 * 64 + 6"
    "member_size (''encryption_key'', JStr (raw_std (mi_enc_public i))) \<le> 6 * length ''encryption_key'' + 6 * 64 + 6"
    using mail_string_bound [of "mi_id i"] length_raw_std(1) [of "mi_sign_public i"] length_raw_std(1) [of "mi_enc_public i"] f(2) l
    by (intro member_size_str; simp)+
  then show ?thesis
    using length_marshal_object [of "[(''id'', JStr (mail_string (mi_id i))), (''signing_key'', JStr (raw_std (mi_sign_public i))),
      (''encryption_key'', JStr (raw_std (mi_enc_public i)))]"]
    by (simp add: public_json_def mail_public_def)
qed

lemma envelope_size:
  assumes "formed_mail C sender" "dh_ok C" "aead_ok C" "length nonce = 12" "length payload \<le> 100"
    and "\<And>m. length (ed_sign C (mi_sign_private sender) m) \<le> length m + 64"
    and "mail_seal C sender p payload now eph nonce = Inr e"
  shows "length (envelope_marshal e) \<le> 200000"
proof -
  obtain i enc shared where p: "public_verify C p = Inr (i, enc)" and sh: "shared_secret C eph (snd enc) = Inr shared"
    using assms(7) by (auto simp: mail_seal_def Let_def split: sum.splits prod.splits)
  let ?r = "mail_string i"
  let ?sig = "mail_sign C sender ?r (unix now) payload"
  let ?m = "\<lparr> im_sender = mail_public sender, im_created = unix now, im_payload = raw_std payload, im_signature = raw_std ?sig \<rparr>"
  let ?c = "gcm_seal C (envelope_key C shared ?r) nonce (marshal (inner_json ?m)) (string_bytes ?r)"
  have e: "e = \<lparr> ev_version = 1, ev_recipient = ?r, ev_ephemeral = raw_std (x_public C eph), ev_nonce = raw_std nonce,
      ev_ciphertext = raw_std ?c, ev_message = message_id C (x_public C eph) nonce ?c, ev_created = unix now \<rparr>"
    using assms(7) p sh by (cases enc) (auto simp: mail_seal_def Let_def)
  have "length (message_to_sign C ?r (unix now) payload) \<le> 200"
    using mail_string_bound [of i] length_show_int64 [of "unix now"] by (simp add: message_to_sign_def bar_def)
  then have "length ?sig \<le> 264" using assms(6) [of "message_to_sign C ?r (unix now) payload"] by (simp add: mail_sign_def)
  then have s: "length (raw_std ?sig) \<le> 528" using length_raw_std(1) [of ?sig] by simp
  have q: "length (raw_std payload) \<le> 200" using length_raw_std(1) [of payload] assms(5) by simp
  have "length (marshal (inner_json ?m)) \<le> 8000"
    using length_marshal_object [of "[(''sender'', public_json (mail_public sender)), (''created_unix'', jm_int64 (unix now)),
        (''payload'', JStr (raw_std payload)), (''signature'', JStr (raw_std ?sig))]"]
      member_size_sub [OF public_size [OF assms(1,2)], of "''sender''"] member_size_num(1) [of "''created_unix''" "unix now"]
      member_size_str [OF q, of "''payload''"] member_size_str [OF s, of "''signature''"]
    by (simp add: inner_json_def)
  then have c: "length (raw_std ?c) \<le> 16032"
    using length_raw_std(1) [of ?c] aead_okD(3) [OF assms(3), of "envelope_key C shared ?r" nonce "marshal (inner_json ?m)" "string_bytes ?r"]
    by simp
  have k: "length (raw_std (x_public C eph)) \<le> 64" "length (raw_std nonce) \<le> 24"
    using length_raw_std(1) [of "x_public C eph"] length_raw_std(1) [of nonce] dh_okD(1) [OF assms(2), of eph] assms(4) by simp_all
  have m: "length (message_id C (x_public C eph) nonce ?c) \<le> 64"
    using length_raw_std(2) [of "arr_bytes (sha256 C (x_public C eph @ nonce @ ?c))"] by (simp add: message_id_def)
  show ?thesis
    using length_marshal_object [of "[(''version'', jm_int 1), (''recipient_id'', JStr ?r), (''ephemeral_key'', JStr (raw_std (x_public C eph))),
        (''nonce'', JStr (raw_std nonce)), (''ciphertext'', JStr (raw_std ?c)), (''message_id'', JStr (message_id C (x_public C eph) nonce ?c)),
        (''created_unix'', jm_int64 (unix now))]"]
      member_size_one [of "''version''"] member_size_str [OF mail_string_bound [of i], of "''recipient_id''"]
      member_size_str [OF k(1), of "''ephemeral_key''"] member_size_str [OF k(2), of "''nonce''"] member_size_str [OF c, of "''ciphertext''"]
      member_size_str [OF m, of "''message_id''"] member_size_num(1) [of "''created_unix''" "unix now"]
    by (simp add: envelope_marshal_def envelope_json_def e)
qed

lemma signed_request_size:
  assumes "formed_mail C i" "dh_ok C" "\<And>m. length (ed_sign C (mi_sign_private i) m) \<le> length m + 64"
    and "length op \<le> 10" "ids = [] \<or> (\<exists>m. ids = [m] \<and> length m \<le> 64)"
  shows "request_fits (signed_request C op i 0 ids now)"
proof -
  let ?nids = "if ids = [] then None else Some ids"
  let ?text = "authorization_message op (mail_string (mi_id i)) (unix now) ?nids"
  let ?sig = "raw_std (ed_sign C (mi_sign_private i) ?text)"
  have j: "length (json_print (jm_nilable ?nids)) \<le> 400"
    using assms(5)
  proof
    assume "\<exists>m. ids = [m] \<and> length m \<le> 64"
    then obtain m where "ids = [m]" "length m \<le> 64" by blast
    then show ?thesis using length_print_string [of m] by (simp add: jm_nilable_def jm_strs_def)
  qed (simp add: jm_nilable_def)
  have "length ?text \<le> 600"
    using assms(4) mail_string_bound [of "mi_id i"] length_show_int64 [of "unix now"] j
    by (simp add: authorization_message_def bar_def)
  then have s: "length ?sig \<le> 1328"
    using assms(3) [of ?text] length_raw_std(1) [of "ed_sign C (mi_sign_private i) ?text"] by simp
  let ?kvs = "[(''version'', jm_int 1), (''op'', JStr op), (''identity'', public_json (mail_public i))] @
     omit_if (unix now = 0) ''time_unix'' (jm_int64 (unix now)) @ omit_if (?sig = []) ''signature'' (JStr ?sig) @
     omit_if (ids = []) ''ids'' (jm_nilable ?nids)"
  have ids: "member_size (''ids'', jm_nilable ?nids) \<le> 500" using j by (simp add: member_size_def)
  have "sum_list (map member_size ?kvs) \<le> 20000"
    using member_size_one [of "''version''"] member_size_str [OF assms(4), of "''op''"]
      member_size_sub [OF public_size [OF assms(1,2)], of "''identity''"] member_size_num(1) [of "''time_unix''" "unix now"]
      member_size_str [OF s, of "''signature''"] ids
    by (auto simp: omit_if_def)
  moreover have "mail_request_json (signed_request C op i 0 ids now) = JObj ?kvs"
    by (simp add: mail_request_json_def signed_request_def Let_def)
  ultimately have "length (marshal (mail_request_json (signed_request C op i 0 ids now))) \<le> max_mail_frame"
    using length_marshal_object [of ?kvs] by (simp add: max_mail_frame_def)
  then show ?thesis by (simp add: request_fits_def plain_signed go_int_def)
qed

lemma response_size:
  assumes "length (envelope_marshal e) \<le> 200000" "go_int (ev_version e)"
  shows "response_fits (success [e])"
proof -
  have "length (marshal (JObj [(''ok'', JBool True), (''envelopes'', JArr [envelope_json e])])) \<le> max_mail_frame"
    using length_marshal_object [of "[(''ok'', JBool True), (''envelopes'', JArr [envelope_json e])]"] assms(1)
    by (simp add: member_size_def envelope_marshal_def marshal_def max_mail_frame_def)
  then show ?thesis using assms(2) by (simp add: response_fits_def success_def mail_response_json_def)
qed

subsection \<open>Witnesses\<close>

lemma toy_sealed: "\<exists>e. mail_seal toy (toy_mail 1) (mail_public (toy_mail 2)) payload now eph nonce = Inr e"
proof -
  have "\<exists>s. shared_secret toy eph (mi_enc_public (toy_mail 2)) = Inr s"
    using formed_mailD(3) [OF good_formed [OF toy_mail_good [of 2]]] by (simp add: shared_secret_def toy_def)
  then show ?thesis
    by (auto simp: mail_seal_def public_verify_own [OF good_formed [OF toy_mail_good] toy_dh_ok] Let_def)
qed

lemma toy_signature_size: "length (ed_sign toy (mi_sign_private (toy_mail k)) m) \<le> length m + 64"
  by (simp add: toy_mail_def mail_generate_def new_mail_identity_def toy_def Let_def)

lemma mailbox_delivers_witness:
  "\<exists>e. mail_seal toy (toy_mail 1) (mail_public (toy_mail 2)) [7] 0 [8] (replicate 12 9) = Inr e \<and>
    mail_send toy (Some (served toy (file_store calm_io toy_store 0) 0 0)) (toy_mail 1) (mail_public (toy_mail 2)) [7] 0 [8] (replicate 12 9) empty_tree =
      (first_tree (mi_id (toy_mail 2)) e, Inr (ev_message e)) \<and>
    (\<exists>ms. mail_fetch toy (Some (served toy (file_store calm_io toy_store 0) 0 0)) (toy_mail 2) 0 0 (first_tree (mi_id (toy_mail 2)) e) =
        (first_tree (mi_id (toy_mail 2)) e, Inr ms) \<and>
      \<lparr> mg_id = ev_message e, mg_sender = mail_public (toy_mail 1), mg_created = unix 0, mg_payload = [7] \<rparr> \<in> set ms)"
proof -
  obtain e where e: "mail_seal toy (toy_mail 1) (mail_public (toy_mail 2)) [7] 0 [8] (replicate 12 9) = Inr e"
    using toy_sealed by blast
  let ?i = "mi_id (toy_mail 2)"
  note sh = mail_seal_shape [OF e]
  have tok: "url_token (ev_message e)" and v: "go_int (ev_version e)"
    using sh message_id_token by (auto simp: go_int_def)
  have rec: "mail_parse (ev_recipient e) = Inr ?i"
    using e public_verify_own [OF good_formed [OF toy_mail_good] toy_dh_ok, of 2] by (auto simp: mail_seal_def Let_def split: sum.splits)
  have size: "length (envelope_marshal e) \<le> 200000"
    by (rule envelope_size [OF good_formed [OF toy_mail_good] toy_dh_ok toy_aead_ok _ _ toy_signature_size e]) simp_all
  obtain h where "ev_message e = raw_url (arr_bytes (h :: 32 barr))" using sh(3) by blast
  then have mid: "length (ev_message e) \<le> 64" using length_raw_std(2) [of "arr_bytes h"] by simp
  have old: "\<not> expired (store_cutoff toy_store 0) e"
    using sh(2) by (simp add: expired_def store_cutoff_def toy_store_def store_ttl_def unix_def minutes_def)
  have req: "request_fits (signed_request toy op (toy_mail 2) 0 ids 0)"
    if "length op \<le> 10" "ids = [] \<or> (\<exists>m. ids = [m] \<and> length m \<le> 64)" for op ids
    by (rule signed_request_size [OF good_formed [OF toy_mail_good] toy_dh_ok toy_signature_size that])
  have w: "\<not> outside_window 180 (unix 0) (unix 0)" by (simp add: outside_window_def)
  have "store_put calm_io toy_store 0 e empty_tree = (first_tree ?i e, Inr ())" by (rule first_put [OF rec tok])
  moreover have "store_list calm_io toy_store 0 ?i (fetch_limit 0) (first_tree ?i e) = (first_tree ?i e, Inr [e])"
    by (rule first_list [OF tok v old]) (simp add: fetch_limit_def)
  ultimately show ?thesis
    using mailbox_delivers [OF empty_store_ok toy_mail_good toy_mail_good toy_aead_ok toy_dh_ok _ e empty_inbox _ _ _ _ _ old
        response_size [OF size v] req w _ first_delete [OF tok] w req, where max_bytes = 0] size mid e
    by (intro exI [of _ e]) (simp add: fetch_limit_def go_int_def)
qed

text \<open>A scheme in which only one text was ever signed.\<close>

definition signed_once :: "bytes \<Rightarrow> crypto" where
  "signed_once text = toy\<lparr>ed_verify := (\<lambda>pub m s. s = pub @ m \<and> m = text)\<rparr>"

lemma signed_once_laws: "aead_ok (signed_once text)" "dh_ok (signed_once text)"
  using toy_aead_ok toy_dh_ok by (simp_all add: signed_once_def aead_ok_def dh_ok_def)

lemma mailbox_opened_authentic_witness:
  "\<exists>C r e m acts p. mail_open C r e = Inr m \<and> Sealed (mi_id r) (mg_created m) p \<in> acts \<and> sha256 C p = sha256 C (mg_payload m)"
proof -
  define s where "s = mail_generate toy (replicate 64 1) (replicate 32 1)"
  define r where "r = mail_generate toy (replicate 64 2) (replicate 32 2)"
  define C where "C = signed_once (message_to_sign toy (mail_string (mi_id r)) 0 [7])"
  have same: "mail_generate C a b = mail_generate toy a b" "message_to_sign C x t p = message_to_sign toy x t p" for a b x t p
    by (simp_all add: C_def signed_once_def mail_generate_def new_mail_identity_def public_mail_id_def message_to_sign_def)
  have formed: "formed_mail C s" "formed_mail C r"
    unfolding s_def r_def same(1) [symmetric] by (rule formed_generated; simp)+
  have keys: "mi_sign_private s = replicate 64 1" "mi_sign_public s = replicate 32 1"
    by (simp_all add: s_def mail_generate_def new_mail_identity_def Let_def ed_public_def)
  have "\<exists>x. shared_secret C [8] (mi_enc_public r) = Inr x"
    using formed_mailD(3) [OF formed(2)] by (simp add: shared_secret_def C_def signed_once_def toy_def)
  then obtain e where e: "mail_seal C s (mail_public r) [7] 0 [8] (replicate 12 9) = Inr e"
    using public_verify_own [OF formed(2)] signed_once_laws(2) by (auto simp: C_def mail_seal_def Let_def)
  have "mail_verify C (mi_sign_public s) (mail_string (mi_id r)) (unix 0) [7] (mail_sign C s (mail_string (mi_id r)) (unix 0) [7])"
    by (simp add: mail_verify_def mail_sign_def keys same(2)) (simp add: C_def signed_once_def toy_def unix_def)
  then have m: "mail_open C r e =
      Inr \<lparr> mg_id = ev_message e, mg_sender = mail_public s, mg_created = unix 0, mg_payload = [7] \<rparr>"
    using signed_once_laws by (intro mail_open_verified [OF formed _ _ _ e]) (simp_all add: C_def)
  have v: "public_verify C (mail_public s) = Inr (mi_id s, mi_sign_public s, mi_enc_public s)"
    using public_verify_own [OF formed(1)] signed_once_laws(2) by (simp add: C_def)
  let ?acts = "{Sealed (mi_id r) 0 [7]}"
  have signed: "x \<in> act_text C ` ?acts" if "ed_verify C (mi_sign_public s) x sig" for x sig
    using that by (simp add: same(2)) (simp add: C_def signed_once_def)
  let ?m = "\<lparr> mg_id = ev_message e, mg_sender = mail_public s, mg_created = unix 0, mg_payload = [7] \<rparr>"
  have "public_verify C (mg_sender ?m) = Inr (mi_id s, mi_sign_public s, mi_enc_public s)" using v by simp
  from mailbox_opened_authentic [OF m this signed] m show ?thesis by blast
qed

lemma mailbox_capacity_witness:
  "\<exists>e. int (card (live_names calm_io toy_store 0 (mi_id (toy_mail 2))
    (fold (run_call calm_io toy_store) [(0, Put_call e), (0, List_call (mi_id (toy_mail 2)) 5)] empty_tree))) \<le> 1000"
proof -
  obtain e where e: "mail_seal toy (toy_mail 1) (mail_public (toy_mail 2)) [7] 0 [8] (replicate 12 9) = Inr e"
    using toy_sealed by blast
  have "call_ok (Put_call e)" using mail_seal_shape [OF e] message_id_token url_token_slashless by (auto simp: go_int_def)
  moreover have "live_names calm_io toy_store 0 i empty_tree = {}" for i
    by (simp add: live_names_def set_dir_names empty_tree_def)
  moreover have "store_max toy_store = 1000" by (simp add: store_max_def toy_store_def)
  ultimately show ?thesis
    using mailbox_capacity [OF empty_store_ok, of "[(0, Put_call e), (0, List_call (mi_id (toy_mail 2)) 5)]" toy_store "mi_id (toy_mail 2)"]
    by (intro exI [of _ e]) (simp add: calm_io_def)
qed

end
