(* ===== verification/Transport.thy ===== *)
theory Transport
  imports Config Wire
begin

section \<open>Transports\<close>

text \<open>
  \<open>internal/transport/manager.go\<close>: the order in which the configured transports are tried, the log of attempts,
  and the client side of a SOCKS5 proxy. What arrives on a connection is a list of chunks, each the bytes one read of
  the socket gives when the buffer is large enough; a buffered reader (\<open>bufio.Reader\<close>, 4096 bytes) keeps what
  it has read too much, which matters because the code gives the bare connection away afterwards. Dialling, the
  outcome of each write, and the clock are arguments.
\<close>

subsection \<open>Reading\<close>

text \<open>\<open>io.ReadFull\<close> on the connection itself: a partly used chunk stays in the socket.\<close>

fun chunk_read :: "nat \<Rightarrow> bytes list \<Rightarrow> (bytes \<times> bytes list) result" where
  "chunk_read n [] = (if n = 0 then Inr ([], []) else Inl ''EOF'')"
| "chunk_read n (c # cs) =
     (if n = 0 then Inr ([], c # cs)
      else if n < length c then Inr (take n c, drop n c # cs)
      else (case chunk_read (n - length c) cs of
          Inl e \<Rightarrow> Inl (if c = [] then e else ''unexpected EOF'') | Inr (bs, cs') \<Rightarrow> Inr (c @ bs, cs')))"

record buffered =
  bu_buf :: bytes
  bu_chunks :: "bytes list"

definition buffer_size :: nat where "buffer_size = 4096"

text \<open>Reading \<open>n\<close> bytes, fewer than the buffer holds, through the buffer: it is filled when it is empty.\<close>

function buffered_read :: "nat \<Rightarrow> bytes \<Rightarrow> bytes list \<Rightarrow> (bytes \<times> buffered) result" where
  "buffered_read n buf cs =
     (if n \<le> length buf then Inr (take n buf, \<lparr> bu_buf = drop n buf, bu_chunks = cs \<rparr>)
      else (case cs of [] \<Rightarrow> Inl (if buf = [] then ''EOF'' else ''unexpected EOF'')
        | c # cs' \<Rightarrow>
            if c = [] then buffered_read n buf cs'
            else (case buffered_read (n - length buf) (take buffer_size c)
                    (if length c \<le> buffer_size then cs' else drop buffer_size c # cs') of
                Inl e \<Rightarrow> Inl (if buf = [] then e else ''unexpected EOF'') | Inr (bs, r) \<Rightarrow> Inr (buf @ bs, r))))"
  by pat_completeness auto

termination
  by (relation "measure (\<lambda>(n, buf, cs). length (concat cs) + length cs)") (auto simp: buffer_size_def)

declare buffered_read.simps [simp del]

definition bread :: "nat \<Rightarrow> buffered \<Rightarrow> (bytes \<times> buffered) result" where
  "bread n r = buffered_read n (bu_buf r) (bu_chunks r)"

definition new_reader :: "bytes list \<Rightarrow> buffered" where
  "new_reader cs = \<lparr> bu_buf = [], bu_chunks = cs \<rparr>"

definition remaining :: "buffered \<Rightarrow> bytes" where
  "remaining r = bu_buf r @ concat (bu_chunks r)"

text \<open>Whatever the chunks are, a read gives the next bytes of the stream, and fails only at its end.\<close>

lemma buffered_read_ok:
  "n \<le> length (buf @ concat cs) \<Longrightarrow> \<exists>r. buffered_read n buf cs = Inr (take n (buf @ concat cs), r) \<and>
    remaining r = drop n (buf @ concat cs)"
proof (induction n buf cs rule: buffered_read.induct)
  case (1 n buf cs)
  show ?case
  proof (cases "n \<le> length buf")
    case True
    then show ?thesis by (subst buffered_read.simps) (simp add: remaining_def)
  next
    case False
    then obtain c cs' where cs: "cs = c # cs'" using "1.prems" by (cases cs) auto
    show ?thesis
    proof (cases "c = []")
      case True
      then show ?thesis using 1(1) [OF False cs True] "1.prems" False cs by (subst buffered_read.simps) simp
    next
      case c: False
      let ?cs = "if length c \<le> buffer_size then cs' else drop buffer_size c # cs'"
      have s: "take buffer_size c @ concat ?cs = c @ concat cs'" by simp
      have "n - length buf \<le> length (take buffer_size c @ concat ?cs)" unfolding s using "1.prems" cs by simp
      from 1(2) [OF False cs c this] obtain r where
        "buffered_read (n - length buf) (take buffer_size c) ?cs = Inr (take (n - length buf) (c @ concat cs'), r)"
        "remaining r = drop (n - length buf) (c @ concat cs')"
        unfolding s by blast
      then show ?thesis using False cs c by (subst buffered_read.simps) simp
    qed
  qed
qed

lemma bread_ok: "n \<le> length (remaining r) \<Longrightarrow>
    \<exists>r'. bread n r = Inr (take n (remaining r), r') \<and> remaining r' = drop n (remaining r)"
  using buffered_read_ok [of n "bu_buf r" "bu_chunks r"] by (simp add: bread_def remaining_def)

lemma bread_append: "remaining r = a @ b \<Longrightarrow> length a = n \<Longrightarrow> \<exists>r'. bread n r = Inr (a, r') \<and> remaining r' = b"
  using bread_ok [of n r] by auto

text \<open>Conversely, what a read gives is the next \<open>n\<close> bytes.\<close>

lemma buffered_read_inv: "buffered_read n buf cs = Inr (a, r) \<Longrightarrow> buf @ concat cs = a @ remaining r \<and> length a = n"
proof (induction n buf cs arbitrary: a r rule: buffered_read.induct)
  case (1 n buf cs)
  show ?case
  proof (cases "n \<le> length buf")
    case True
    with "1.prems" show ?thesis by (subst (asm) buffered_read.simps) (auto simp: remaining_def)
  next
    case False
    with "1.prems" obtain c cs' where cs: "cs = c # cs'"
      by (subst (asm) buffered_read.simps) (auto split: list.splits)
    show ?thesis
    proof (cases "c = []")
      case True
      from "1.prems" have "buffered_read n buf cs' = Inr (a, r)"
        using False cs True by (subst (asm) buffered_read.simps) simp
      from 1(1) [OF False cs True this] show ?thesis using cs True by simp
    next
      case c: False
      let ?cs = "if length c \<le> buffer_size then cs' else drop buffer_size c # cs'"
      from "1.prems" obtain b where b: "buffered_read (n - length buf) (take buffer_size c) ?cs = Inr (b, r)" "a = buf @ b"
        using False cs c by (subst (asm) buffered_read.simps) (auto split: sum.splits)
      have s: "take buffer_size c @ concat ?cs = c @ concat cs'" by simp
      from 1(2) [OF False cs c b(1)] show ?thesis unfolding s using b(2) cs False by simp
    qed
  qed
qed

lemma bread_inv: "bread n r = Inr (a, r') \<Longrightarrow> remaining r = a @ remaining r' \<and> length a = n"
  unfolding bread_def by (drule buffered_read_inv) (simp add: remaining_def)

lemma chunk_read_ok: "n \<le> length (concat cs) \<Longrightarrow>
    \<exists>cs'. chunk_read n cs = Inr (take n (concat cs), cs') \<and> concat cs' = drop n (concat cs)"
proof (induction n cs rule: chunk_read.induct)
  case (2 n c cs)
  show ?case
  proof (cases "n = 0 \<or> n < length c")
    case False
    then have "n - length c \<le> length (concat cs)" using "2.prems" by simp
    from "2.IH" [OF _ _ this] False obtain cs' where "chunk_read (n - length c) cs = Inr (take (n - length c) (concat cs), cs')"
      "concat cs' = drop (n - length c) (concat cs)" by (metis (no_types, lifting))
    with False show ?thesis by auto
  qed auto
qed simp

subsection \<open>SOCKS5, client side\<close>

definition atoi :: "string \<Rightarrow> int option" where
  "atoi s =
     (let d = (if take 1 s = ''-'' \<or> take 1 s = ''+'' then drop 1 s else s)
      in if d = [] then None
         else (case read_nat_acc 0 d of None \<Rightarrow> None
           | Some n \<Rightarrow> let i = (if take 1 s = ''-'' then - int n else int n) in if go_int i then Some i else None))"

definition socks_greeting :: "transport_endpoint \<Rightarrow> bytes" where
  "socks_greeting ep =
     (let methods = 0 # (if te_username ep \<noteq> [] \<or> te_password ep \<noteq> [] then [2] else [])
      in 5 # of_nat (length methods) # methods)"

definition socks_auth :: "transport_endpoint \<Rightarrow> bytes" where
  "socks_auth ep = 1 # of_nat (length (te_username ep)) # string_bytes (te_username ep)
     @ of_nat (length (te_password ep)) # string_bytes (te_password ep)"

text \<open>The address of a request: an IPv4 address, also a mapped one, an IPv6 address, or a name.\<close>

definition socks_address :: "string \<Rightarrow> bytes result" where
  "socks_address host =
     (case parse_ip host of
        Some ip \<Rightarrow> if take 12 ip = mapped_prefix then Inr (1 # map of_nat (drop 12 ip)) else Inr (4 # map of_nat ip)
      | None \<Rightarrow>
          if length host = 0 \<or> length host > 255 then Inl ''invalid SOCKS5 target hostname''
          else Inr (3 # of_nat (length host) # string_bytes host))"

definition socks_request :: "string \<Rightarrow> bytes result" where
  "socks_request target =
     (case split_host_port target of Inl e \<Rightarrow> Inl (''SOCKS5 target: '' @ e)
      | Inr (host, port_text) \<Rightarrow>
          (case atoi port_text of None \<Rightarrow> Inl ''invalid SOCKS5 target port''
           | Some port \<Rightarrow>
               if port < 1 \<or> port > 65535 then Inl ''invalid SOCKS5 target port''
               else (case socks_address host of Inl e \<Rightarrow> Inl e
                 | Inr a \<Rightarrow> Inr ([5, 1, 0] @ a @ put_u16 (of_int port)))))"

text \<open>The reply, read through a buffer whose leftover is thrown away: what is given back are the chunks still in the socket.\<close>

definition hex_byte :: "byte \<Rightarrow> string" where "hex_byte b = hex_encode [b]"

definition socks_reply :: "bytes list \<Rightarrow> bytes list result" where
  "socks_reply cs =
     (case bread 4 (new_reader cs) of Inl e \<Rightarrow> Inl e
      | Inr (header, r1) \<Rightarrow>
          if header ! 0 \<noteq> 5 \<or> header ! 1 \<noteq> 0 then Inl (''SOCKS5 CONNECT failed with code 0x'' @ hex_byte (header ! 1))
          else
            (case (if header ! 3 = 1 then Inr (4, r1) else if header ! 3 = 4 then Inr (16, r1)
                   else if header ! 3 = 3
                   then (case bread 1 r1 of Inl e \<Rightarrow> Inl e | Inr (l, r2) \<Rightarrow> Inr (unat (hd l), r2))
                   else Inl ''SOCKS5 proxy returned invalid address type'') of
               Inl e \<Rightarrow> Inl e
             | Inr (n, r) \<Rightarrow> (case bread (n + 2) r of Inl _ \<Rightarrow> Inl ''EOF'' | Inr (_, r') \<Rightarrow> Inr (bu_chunks r'))))"

text \<open>The messages written and the connection given back. \<open>w k\<close> is the error of the k-th write.\<close>

definition socks_finish :: "(nat \<Rightarrow> error option) \<Rightarrow> nat \<Rightarrow> string \<Rightarrow> bytes list \<Rightarrow> bytes list \<Rightarrow> bytes list \<times> bytes list result" where
  "socks_finish w k target sent cs =
     (case socks_request target of Inl e \<Rightarrow> (sent, Inl e)
      | Inr req \<Rightarrow>
          (case w k of Some e \<Rightarrow> (sent, Inl e) | None \<Rightarrow> (sent @ [req], socks_reply cs)))"

definition socks_handshake ::
  "(nat \<Rightarrow> error option) \<Rightarrow> transport_endpoint \<Rightarrow> string \<Rightarrow> bytes list \<Rightarrow> bytes list \<times> bytes list result" where
  "socks_handshake w ep target cs =
     (case w 0 of Some e \<Rightarrow> ([], Inl e)
      | None \<Rightarrow>
          (let sent = [socks_greeting ep] in
           case chunk_read 2 cs of Inl e \<Rightarrow> (sent, Inl e)
           | Inr (choice, cs1) \<Rightarrow>
               if choice ! 0 \<noteq> 5 \<or> choice ! 1 = 255 then (sent, Inl ''SOCKS5 proxy rejected authentication methods'')
               else if choice ! 1 = 2 then
                 if length (te_username ep) > 255 \<or> length (te_password ep) > 255
                 then (sent, Inl ''SOCKS5 credentials are too long'')
                 else (case w 1 of Some e \<Rightarrow> (sent, Inl e)
                   | None \<Rightarrow>
                       (case chunk_read 2 cs1 of Inl e \<Rightarrow> (sent @ [socks_auth ep], Inl e)
                        | Inr (resp, cs2) \<Rightarrow>
                            if resp ! 1 \<noteq> 0
                            then (sent @ [socks_auth ep], Inl ''SOCKS5 username/password authentication failed'')
                            else socks_finish w 2 target (sent @ [socks_auth ep]) cs2))
               else if choice ! 1 \<noteq> 0
               then (sent, Inl (''SOCKS5 proxy selected unsupported auth method 0x'' @ hex_byte (choice ! 1)))
               else socks_finish w 1 target sent cs1))"

subsection \<open>The manager\<close>

datatype dial_plan = Direct_plan | Socks_plan transport_endpoint

fun plan_name :: "dial_plan \<Rightarrow> string" where
  "plan_name Direct_plan = ''direct''"
| "plan_name (Socks_plan ep) = te_name ep"

fun plan_kind :: "dial_plan \<Rightarrow> string" where
  "plan_kind Direct_plan = ''direct''"
| "plan_kind (Socks_plan ep) = te_type ep"

record attempt =
  at_name :: string
  at_type :: string
  at_target :: string
  at_duration :: int
  at_succeeded :: bool
  at_error :: string
  at_at :: time

record transport_status =
  ts_mode :: string
  ts_last :: string
  ts_attempts :: "attempt list"

record manager =
  mn_cfg :: transport_config
  mn_status :: transport_status

definition new_manager :: "transport_config \<Rightarrow> manager" where
  "new_manager cfg =
     (let c = transport_normalize cfg
      in \<lparr> mn_cfg = c, mn_status = \<lparr> ts_mode = tc_mode c, ts_last = [], ts_attempts = [] \<rparr> \<rparr>)"

definition plans :: "transport_config \<Rightarrow> dial_plan list" where
  "plans cfg =
     (let eps = sort_key te_priority (tc_endpoints cfg)
      in if tc_mode cfg = ''direct'' then [Direct_plan]
         else
           let ps = (if tc_direct_first cfg then [Direct_plan] else [])
             @ map Socks_plan (filter (\<lambda>e. te_enabled e \<and> te_type e = ''socks5'') eps)
             @ (if \<not> tc_direct_first cfg \<and> tc_fallback_direct cfg then [Direct_plan] else [])
           in if ps = [] \<and> tc_fallback_direct cfg then [Direct_plan] else ps)"

definition record_attempt :: "attempt \<Rightarrow> manager \<Rightarrow> manager" where
  "record_attempt a m =
     m\<lparr>mn_status := (mn_status m)\<lparr>ts_attempts := push_capped 32 (ts_attempts (mn_status m)) a\<rparr>\<rparr>"

text \<open>The environment of the k-th attempt: dialling an address, writing, the time at the start and at the end.\<close>

record dial_env =
  de_dial :: "string \<Rightarrow> bytes list result"
  de_write :: "nat \<Rightarrow> error option"
  de_start :: time
  de_end :: time

record tconn =
  tn_addr :: string
  tn_sent :: "bytes list"
  tn_in :: "bytes list"

fun run_plan :: "dial_env \<Rightarrow> string \<Rightarrow> dial_plan \<Rightarrow> tconn result" where
  "run_plan E target Direct_plan =
     (case de_dial E target of Inl e \<Rightarrow> Inl e | Inr cs \<Rightarrow> Inr \<lparr> tn_addr = target, tn_sent = [], tn_in = cs \<rparr>)"
| "run_plan E target (Socks_plan ep) =
     (case de_dial E (te_endpoint ep) of Inl e \<Rightarrow> Inl e
      | Inr cs \<Rightarrow>
          (case socks_handshake (de_write E) ep target cs of
             (sent, Inl e) \<Rightarrow> Inl e
           | (sent, Inr cs') \<Rightarrow> Inr \<lparr> tn_addr = te_endpoint ep, tn_sent = sent, tn_in = cs' \<rparr>))"

definition error_text :: "'a result \<Rightarrow> string" where
  "error_text r = (case r of Inl e \<Rightarrow> e | Inr _ \<Rightarrow> [])"

fun try_plans :: "(nat \<Rightarrow> dial_env) \<Rightarrow> string \<Rightarrow> nat \<Rightarrow> string list \<Rightarrow> dial_plan list \<Rightarrow> manager \<Rightarrow> manager \<times> tconn result" where
  "try_plans E target k errs [] m = (m, Inl (''all transports failed for '' @ target @ '': '' @ join ''; '' errs))"
| "try_plans E target k errs (p # ps) m =
     (let r = run_plan (E k) target p;
          a = \<lparr> at_name = plan_name p, at_type = plan_kind p, at_target = target, at_duration = de_end (E k) - de_start (E k),
                at_succeeded = is_ok r, at_error = error_text r, at_at = de_end (E k) \<rparr>;
          m1 = record_attempt a m
      in case r of
           Inr c \<Rightarrow> (m1\<lparr>mn_status := (mn_status m1)\<lparr>ts_last := plan_name p\<rparr>\<rparr>, Inr c)
         | Inl e \<Rightarrow> try_plans E target (Suc k) (errs @ [plan_name p @ '': '' @ e]) ps m1)"

definition dial_context :: "(nat \<Rightarrow> dial_env) \<Rightarrow> string \<Rightarrow> manager \<Rightarrow> manager \<times> tconn result" where
  "dial_context E target m =
     (let ps = plans (mn_cfg m)
      in if ps = [] then (m, Inl ''no KnotRoute transport is enabled'') else try_plans E target 0 [] ps m)"

definition transport_status_of :: "manager \<Rightarrow> transport_status" where
  "transport_status_of m = mn_status m"

subsection \<open>Which transport is used\<close>

text \<open>A reference for \<open>dial_context\<close>: the log of the attempt of the k-th plan, the position of the first plan that works,
  and the last 32 entries of a log.\<close>

definition attempt_of :: "(nat \<Rightarrow> dial_env) \<Rightarrow> string \<Rightarrow> dial_plan list \<Rightarrow> nat \<Rightarrow> attempt" where
  "attempt_of E target ps k =
     (let r = run_plan (E k) target (ps ! k)
      in \<lparr> at_name = plan_name (ps ! k), at_type = plan_kind (ps ! k), at_target = target,
           at_duration = de_end (E k) - de_start (E k), at_succeeded = is_ok r, at_error = error_text r, at_at = de_end (E k) \<rparr>)"

definition first_working :: "(nat \<Rightarrow> dial_env) \<Rightarrow> string \<Rightarrow> dial_plan list \<Rightarrow> nat option" where
  "first_working E target ps = find (\<lambda>k. is_ok (run_plan (E k) target (ps ! k))) [0..<length ps]"

definition last_entries :: "'a list \<Rightarrow> 'a list" where
  "last_entries xs = drop (length xs - 32) xs"

definition logged :: "attempt list \<Rightarrow> manager \<Rightarrow> manager" where
  "logged as m = m\<lparr>mn_status := (mn_status m)\<lparr>ts_attempts := last_entries (ts_attempts (mn_status m) @ as)\<rparr>\<rparr>"

lemma push_capped_last_entries: "push_capped 32 xs x = last_entries (xs @ [x])"
  by (simp add: push_capped_def last_entries_def Let_def)

lemma last_entries_append [simp]: "last_entries (last_entries xs @ ys) = last_entries (xs @ ys)"
  by (cases "length xs \<le> 32") (simp_all add: last_entries_def add.commute)

lemma record_attempt_logged: "record_attempt a m = logged [a] m"
  by (simp add: record_attempt_def logged_def push_capped_last_entries)

lemma logged_logged [simp]: "logged bs (logged as m) = logged (as @ bs) m"
  by (simp add: logged_def)

lemma first_working_Cons:
  "first_working E target (p # ps) = (if is_ok (run_plan (E 0) target p) then Some 0
     else map_option Suc (first_working (\<lambda>k. E (Suc k)) target ps))"
proof -
  have "[0..<length (p # ps)] = 0 # map Suc [0..<length ps]" by (subst map_Suc_upt) (simp add: upt_conv_Cons del: upt_Suc)
  moreover have "find P (map Suc ns) = map_option Suc (find (\<lambda>k. P (Suc k)) ns)" for P ns
    by (induction ns) auto
  ultimately show ?thesis by (simp add: first_working_def)
qed

lemma attempt_of_Suc: "attempt_of E target (p # ps) (Suc k) = attempt_of (\<lambda>k. E (Suc k)) target ps k"
  by (simp add: attempt_of_def)

lemma first_working_some:
  "first_working E target ps = Some k \<Longrightarrow> k < length ps \<and> is_ok (run_plan (E k) target (ps ! k)) \<and>
    (\<forall>i < k. \<not> is_ok (run_plan (E i) target (ps ! i)))"
  unfolding first_working_def by (auto simp: find_Some_iff)

text \<open>The loop from its k-th turn on is the loop from the start with the environments that are left.\<close>

lemma try_plans_shift: "try_plans E target (k + d) errs ps m = try_plans (\<lambda>i. E (i + d)) target k errs ps m"
proof (induction ps arbitrary: k errs m)
  case (Cons p ps)
  from Cons.IH [of "Suc k"] show ?case by (simp add: Let_def split: sum.split)
qed simp

lemma try_plans_reference:
  "ps \<noteq> [] \<Longrightarrow> case first_working E target ps of
     Some k \<Rightarrow> \<exists>c. run_plan (E k) target (ps ! k) = Inr c \<and> try_plans E target 0 errs ps m =
       (let m1 = logged (map (attempt_of E target ps) [0..<Suc k]) m
        in (m1\<lparr>mn_status := (mn_status m1)\<lparr>ts_last := plan_name (ps ! k)\<rparr>\<rparr>, Inr c))
   | None \<Rightarrow> try_plans E target 0 errs ps m = (logged (map (attempt_of E target ps) [0..<length ps]) m,
       Inl (''all transports failed for '' @ target @ '': '' @
         join ''; '' (errs @ map (\<lambda>k. plan_name (ps ! k) @ '': '' @ error_text (run_plan (E k) target (ps ! k))) [0..<length ps])))"
proof (induction ps arbitrary: E errs m)
  case (Cons p ps)
  have m0: "map f [0..<Suc n] = f 0 # map (\<lambda>k. f (Suc k)) [0..<n]" for f :: "nat \<Rightarrow> 'z" and n
    by (simp add: upt_conv_Cons del: upt_Suc flip: map_Suc_upt)
  have a0: "attempt_of E target (p # ps) 0 = \<lparr> at_name = plan_name p, at_type = plan_kind p, at_target = target,
      at_duration = de_end (E 0) - de_start (E 0), at_succeeded = is_ok (run_plan (E 0) target p),
      at_error = error_text (run_plan (E 0) target p), at_at = de_end (E 0) \<rparr>"
    by (simp add: attempt_of_def Let_def)
  show ?case
  proof (cases "run_plan (E 0) target p")
    case (Inr c)
    then show ?thesis by (simp add: first_working_Cons record_attempt_logged a0 Let_def)
  next
    case (Inl e)
    let ?E = "\<lambda>k. E (Suc k)" and ?errs = "errs @ [plan_name p @ '': '' @ e]"
    have step: "try_plans E target 0 errs (p # ps) m = try_plans ?E target 0 ?errs ps (logged [attempt_of E target (p # ps) 0] m)"
      using Inl try_plans_shift [of E target 0 1] by (simp add: Let_def record_attempt_logged a0)
    show ?thesis
    proof (cases "ps = []")
      case True
      then show ?thesis using Inl step by (simp add: first_working_def error_text_def del: try_plans.simps(2))
    next
      case False
      from Cons.IH [OF this, of ?E ?errs "logged [attempt_of E target (p # ps) 0] m"] show ?thesis
        by (cases "first_working ?E target ps")
          (simp_all add: step first_working_Cons Inl error_text_def m0 attempt_of_Suc comp_def Let_def del: upt_Suc try_plans.simps(2))
    qed
  qed
qed simp

text \<open>C33. Dialling tries the plans in their order and returns the connection of the first that works, remembering its
  name; if none works it returns all errors. Either way exactly the attempts made are logged, of the log the last 32.\<close>

theorem dial_takes_first_working:
  "(let ps = plans (mn_cfg m) in
    if ps = [] then dial_context E target m = (m, Inl ''no KnotRoute transport is enabled'')
    else (case first_working E target ps of
       Some k \<Rightarrow> \<exists>c. run_plan (E k) target (ps ! k) = Inr c \<and> dial_context E target m =
         (let m1 = logged (map (attempt_of E target ps) [0..<Suc k]) m
          in (m1\<lparr>mn_status := (mn_status m1)\<lparr>ts_last := plan_name (ps ! k)\<rparr>\<rparr>, Inr c))
     | None \<Rightarrow> dial_context E target m = (logged (map (attempt_of E target ps) [0..<length ps]) m,
         Inl (''all transports failed for '' @ target @ '': '' @ join ''; ''
           (map (\<lambda>k. plan_name (ps ! k) @ '': '' @ error_text (run_plan (E k) target (ps ! k))) [0..<length ps])))))"
proof (cases "plans (mn_cfg m) = []")
  case False
  from try_plans_reference [OF this, of E target "[]" m] False show ?thesis
    by (cases "first_working E target (plans (mn_cfg m))") (simp_all add: dial_context_def Let_def del: upt_Suc)
qed (simp add: dial_context_def)

end
