(* ===== verification/Gateway.thy ===== *)
theory Gateway
  imports Transport
begin

section \<open>The proxy gateway\<close>

text \<open>
  \<open>internal/proxy/gateway.go\<close>: where a request goes (\<open>dial\<close>), the SOCKS5 server, the HTTP proxy with \<open>CONNECT\<close> and
  locally terminated TLS, the copying between two connections, the listeners and their connections. A handler runs
  from the chunks its client sends (see theory \<open>Transport\<close>) to an outcome: what it wrote to the client, what it dialled,
  its events, and the pair of connections it joined, if any. Parsing and printing of HTTP requests (\<open>net/http\<close>), dialling,
  certificates and the TLS handshake are arguments. At the end: what a request asks for, and that it is where its
  client is connected to.
\<close>

subsection \<open>Text of IP addresses\<close>

fun hex_digits :: "nat \<Rightarrow> string" where
  "hex_digits n = (if n < 16 then [hex_char n] else hex_digits (n div 16) @ [hex_char (n mod 16)])"

declare hex_digits.simps [simp del]

fun pair_up :: "nat list \<Rightarrow> nat list" where
  "pair_up (a # b # xs) = (256 * a + b) # pair_up xs"
| "pair_up _ = []"

text \<open>The first of the longest runs of at least two zero groups, as start and end; start 8 for none.\<close>

definition zero_run :: "nat list \<Rightarrow> nat \<times> nat" where
  "zero_run gs =
     (let run = (\<lambda>i. length (takeWhile (\<lambda>g. g = 0) (drop i gs)));
          best = foldl (\<lambda>b i. if run i > run b \<and> run i > 1 then i else b) 8 [0..<length gs]
      in (best, best + run best))"

definition ip_string :: "nat list \<Rightarrow> string" where
  "ip_string ip =
     (if length ip = 4 then join ''.'' (map show_nat ip)
      else if take 12 ip = mapped_prefix then join ''.'' (map show_nat (drop 12 ip))
      else
        let gs = pair_up ip; (s, e) = zero_run gs
        in if s = 8 then join '':'' (map hex_digits gs)
           else join '':'' (map hex_digits (take s gs)) @ ''::'' @ join '':'' (map hex_digits (drop e gs)))"

subsection \<open>Where a request goes\<close>

record gateway =
  gw_aliases :: "alias_entry list"
  gw_direct :: bool
  gw_default_http :: string
  gw_default_https :: string
  gw_has_overlay :: bool
  gw_has_service :: bool
  gw_has_authority :: bool
  gw_intercept :: bool

datatype dial_target = To_service service_id | To_overlay node_id string | To_direct string

definition clean_host :: "string \<Rightarrow> string" where
  "clean_host host = trim_suffix (to_lower (trim_space host)) ''.''"

definition overlay_service :: "gateway \<Rightarrow> string \<Rightarrow> string \<Rightarrow> string" where
  "overlay_service g service scheme =
     (if service \<noteq> default_service then service
      else if scheme = ''https'' \<and> gw_default_https g \<noteq> [] then gw_default_https g
      else if scheme = ''http'' \<and> gw_default_http g \<noteq> [] then gw_default_http g
      else service)"

definition choose_target :: "crypto \<Rightarrow> gateway \<Rightarrow> string \<Rightarrow> string \<Rightarrow> string \<Rightarrow> (dial_target \<times> string) result" where
  "choose_target C g host0 port scheme =
     (let host = clean_host host0 in
      if has_suffix host knot_suffix then
        (case resolve_host C host (gw_aliases g) of Inl e \<Rightarrow> Inl e
         | Inr r \<Rightarrow>
             if rs_kind r = service_address_version then
               if \<not> gw_has_service g then Inl ''service dialer is unavailable''
               else Inr (To_service (rs_service_id r), service_short (rs_service_id r))
             else
               let service = overlay_service g (rs_service r) scheme in
               if \<not> gw_has_overlay g then Inl ''overlay dialer is unavailable''
               else Inr (To_overlay (rs_node r) service, node_short (rs_node r) @ ''/'' @ service))
      else if \<not> gw_direct g then Inl (''direct proxying is disabled for '' @ host)
      else
        let p = (if port \<noteq> [] then port else if scheme = ''https'' then ''443'' else ''80'')
        in Inr (To_direct (join_host_port host p), join_host_port host p))"

text \<open>The environment of one client connection: dialling, writing to the client, certificates and TLS.\<close>

record gate_env =
  gv_dial :: "dial_target \<Rightarrow> bytes list result"
  gv_write :: "nat \<Rightarrow> error option"
  gv_certificate :: "string \<Rightarrow> error option"
  gv_tls :: "error option"

definition gateway_dial ::
  "crypto \<Rightarrow> gateway \<Rightarrow> gate_env \<Rightarrow> string \<Rightarrow> string \<Rightarrow> string \<Rightarrow> dial_target list \<times> (bytes list \<times> string) result" where
  "gateway_dial C g E host port scheme =
     (case choose_target C g host port scheme of Inl e \<Rightarrow> ([], Inl e)
      | Inr (t, text) \<Rightarrow> ([t], case gv_dial E t of Inl e \<Rightarrow> Inl e | Inr cs \<Rightarrow> Inr (cs, text)))"

subsection \<open>Outcomes\<close>

record joined =
  jn_client :: "bytes list"
  jn_upstream :: "bytes list"
  jn_written :: bytes
  jn_tls :: bool

record outcome =
  oc_sent :: "bytes list"
  oc_dialled :: "dial_target list"
  oc_events :: "(string \<times> string) list"
  oc_joined :: "joined option"

definition gave_up :: "bytes list \<Rightarrow> outcome" where
  "gave_up sent = \<lparr> oc_sent = sent, oc_dialled = [], oc_events = [], oc_joined = None \<rparr>"

text \<open>What a write that succeeds puts out.\<close>

definition put_out :: "gate_env \<Rightarrow> nat \<Rightarrow> bytes \<Rightarrow> bytes list" where
  "put_out E k bs = (case gv_write E k of Some _ \<Rightarrow> [] | None \<Rightarrow> [bs])"

definition warn :: "string \<Rightarrow> string \<times> string" where "warn m = (''warn'', m)"
definition info :: "string \<Rightarrow> string \<times> string" where "info m = (''info'', m)"

subsection \<open>SOCKS5, server side\<close>

definition socks_code :: "byte \<Rightarrow> bytes" where
  "socks_code code = [5, code, 0, 1, 0, 0, 0, 0, 0, 0]"

definition socks_host :: "byte \<Rightarrow> buffered \<Rightarrow> (string \<times> buffered) result" where
  "socks_host kind r =
     (if kind = 1 then (case bread 4 r of Inl e \<Rightarrow> Inl e | Inr (a, r') \<Rightarrow> Inr (ip_string (map unat a), r'))
      else if kind = 3 then
        (case bread 1 r of Inl e \<Rightarrow> Inl e
         | Inr (l, r1) \<Rightarrow> (case bread (unat (hd l)) r1 of Inl e \<Rightarrow> Inl e | Inr (a, r') \<Rightarrow> Inr (bytes_string a, r')))
      else (case bread 16 r of Inl e \<Rightarrow> Inl e | Inr (a, r') \<Rightarrow> Inr (ip_string (map unat a), r')))"

definition socks_scheme :: "string \<Rightarrow> string" where
  "socks_scheme port = (if port = ''80'' then ''http'' else if port = ''443'' then ''https'' else ''tcp'')"

definition socks_connect :: "crypto \<Rightarrow> gateway \<Rightarrow> gate_env \<Rightarrow> string \<Rightarrow> string \<Rightarrow> buffered \<Rightarrow> bytes list \<Rightarrow> outcome" where
  "socks_connect C g E host port r sent =
     (case gateway_dial C g E host port (socks_scheme port) of
        (ds, Inl e) \<Rightarrow>
          \<lparr> oc_sent = sent @ put_out E 1 (socks_code 4), oc_dialled = ds,
            oc_events = [warn (''SOCKS '' @ host @ '':'' @ port @ '': '' @ e)], oc_joined = None \<rparr>
      | (ds, Inr (up, target)) \<Rightarrow>
          (case gv_write E 1 of
             Some _ \<Rightarrow> \<lparr> oc_sent = sent, oc_dialled = ds, oc_events = [], oc_joined = None \<rparr>
           | None \<Rightarrow>
               \<lparr> oc_sent = sent @ [socks_code 0], oc_dialled = ds,
                 oc_events = [info (''SOCKS connected '' @ host @ '':'' @ port @ '' -> '' @ target)],
                 oc_joined = Some \<lparr> jn_client = bu_chunks r, jn_upstream = up, jn_written = [], jn_tls = False \<rparr> \<rparr>))"

definition socks_command :: "crypto \<Rightarrow> gateway \<Rightarrow> gate_env \<Rightarrow> buffered \<Rightarrow> bytes list \<Rightarrow> outcome" where
  "socks_command C g E r sent =
     (case bread 4 r of Inl _ \<Rightarrow> gave_up sent
      | Inr (header, r1) \<Rightarrow>
          if header ! 0 \<noteq> 5 \<or> header ! 1 \<noteq> 1 then gave_up (sent @ put_out E 1 (socks_code 7))
          else if header ! 3 \<noteq> 1 \<and> header ! 3 \<noteq> 3 \<and> header ! 3 \<noteq> 4 then gave_up (sent @ put_out E 1 (socks_code 8))
          else (case socks_host (header ! 3) r1 of Inl _ \<Rightarrow> gave_up sent
            | Inr (host, r2) \<Rightarrow>
                (case bread 2 r2 of Inl _ \<Rightarrow> gave_up sent
                 | Inr (p, r3) \<Rightarrow> socks_connect C g E host (show_nat (unat (get_u16 p))) r3 sent)))"

definition handle_socks :: "crypto \<Rightarrow> gateway \<Rightarrow> gate_env \<Rightarrow> bytes list \<Rightarrow> outcome" where
  "handle_socks C g E cs =
     (case bread 1 (new_reader cs) of Inl _ \<Rightarrow> gave_up []
      | Inr (v, r1) \<Rightarrow>
          if hd v \<noteq> 5 then gave_up []
          else (case bread 1 r1 of Inl _ \<Rightarrow> gave_up []
            | Inr (m, r2) \<Rightarrow>
                (case bread (unat (hd m)) r2 of Inl _ \<Rightarrow> gave_up []
                 | Inr (methods, r3) \<Rightarrow>
                     if 0 \<notin> set methods then gave_up (put_out E 0 [5, 255])
                     else (case gv_write E 0 of Some _ \<Rightarrow> gave_up [] | None \<Rightarrow> socks_command C g E r3 [[5, 0]]))))"

subsection \<open>HTTP\<close>

record http_request =
  hq_method :: string
  hq_uri :: string
  hq_scheme :: string
  hq_url_host :: string
  hq_host :: string
  hq_headers :: "(string \<times> string) list"
  hq_body :: bytes

text \<open>\<open>http.ReadRequest\<close> and \<open>Request.Write\<close>.\<close>

record http_lib =
  hl_read :: "buffered \<Rightarrow> (http_request \<times> buffered) result"
  hl_write :: "http_request \<Rightarrow> bytes result"

definition split_request_host :: "http_request \<Rightarrow> string \<times> string" where
  "split_request_host q =
     (let hp = (if hq_url_host q = [] then hq_host q else hq_url_host q)
      in case split_host_port hp of Inr (host, port) \<Rightarrow> (host, port) | Inl _ \<Rightarrow> (hp, []))"

definition crlf :: string where "crlf = [CHR 0x0D, CHR 0x0A]"

definition status_text :: "nat \<Rightarrow> string" where
  "status_text s = (if s = 400 then ''Bad Request'' else if s = 502 then ''Bad Gateway'' else [])"

definition proxy_error :: "nat \<Rightarrow> string \<Rightarrow> bytes" where
  "proxy_error status message =
     (let m = map (\<lambda>c. if c = CHR 0x0D \<or> c = CHR 0x0A then CHR '' '' else c) message;
          body = status_text status @ '': '' @ m @ [CHR 0x0A]
      in string_bytes (''HTTP/1.1 '' @ show_nat status @ '' '' @ status_text status @ crlf
           @ ''Content-Type: text/plain; charset=utf-8'' @ crlf @ ''Content-Length: '' @ show_nat (length body) @ crlf
           @ ''Connection: close'' @ crlf @ crlf @ body))"

definition established :: bytes where
  "established = string_bytes (''HTTP/1.1 200 Connection Established'' @ crlf @ ''Proxy-Agent: KnotRoute'' @ crlf @ crlf)"

definition refuse :: "gate_env \<Rightarrow> nat \<Rightarrow> dial_target list \<Rightarrow> nat \<Rightarrow> (string \<times> string) list \<Rightarrow> string \<Rightarrow> outcome" where
  "refuse E k ds status events message =
     \<lparr> oc_sent = put_out E k (proxy_error status message), oc_dialled = ds, oc_events = events, oc_joined = None \<rparr>"

definition handle_knot_tls :: "crypto \<Rightarrow> gateway \<Rightarrow> gate_env \<Rightarrow> string \<Rightarrow> string \<Rightarrow> buffered \<Rightarrow> outcome" where
  "handle_knot_tls C g E host port r =
     (case gateway_dial C g E host port ''https'' of
        (ds, Inl e) \<Rightarrow> refuse E 0 ds 502 [warn (''Knot TLS '' @ host @ '': '' @ e)] e
      | (ds, Inr (up, target)) \<Rightarrow>
          (case gv_certificate E host of Some e \<Rightarrow> refuse E 0 ds 502 [] e
           | None \<Rightarrow>
               (case gv_write E 0 of
                  Some _ \<Rightarrow> \<lparr> oc_sent = [], oc_dialled = ds, oc_events = [], oc_joined = None \<rparr>
                | None \<Rightarrow>
                    (case gv_tls E of
                       Some e \<Rightarrow> \<lparr> oc_sent = [established], oc_dialled = ds,
                         oc_events = [warn (''Knot TLS handshake '' @ host @ '': '' @ e)], oc_joined = None \<rparr>
                     | None \<Rightarrow> \<lparr> oc_sent = [established], oc_dialled = ds,
                         oc_events = [info (''HTTPS terminated locally for '' @ host @ '' -> '' @ target)],
                         oc_joined = Some \<lparr> jn_client = bu_chunks r, jn_upstream = up, jn_written = [], jn_tls = True \<rparr> \<rparr>))))"

definition no_ca_message :: string where
  "no_ca_message = ''local .knot HTTPS requires ca.enabled=true, ca.intercept_https=true, and an available local CA''"

definition handle_connect :: "crypto \<Rightarrow> gateway \<Rightarrow> gate_env \<Rightarrow> http_request \<Rightarrow> buffered \<Rightarrow> outcome" where
  "handle_connect C g E q r =
     (let (host0, port) = (case split_host_port (hq_host q) of Inr hp \<Rightarrow> hp | Inl _ \<Rightarrow> (hq_host q, ''443''));
          host = clean_host host0
      in if has_suffix host knot_suffix then
           if gw_intercept g \<and> gw_has_authority g then
             (case resolve_host C host (gw_aliases g) of
                Inl e \<Rightarrow> refuse E 0 [] 502 [warn (''Knot TLS '' @ host @ '': '' @ e)] e
              | Inr _ \<Rightarrow> handle_knot_tls C g E host port r)
           else refuse E 0 [] 502 [warn (''CONNECT '' @ hq_host q @ '': '' @ no_ca_message)] no_ca_message
         else
           (case gateway_dial C g E host port ''https'' of
              (ds, Inl e) \<Rightarrow> refuse E 0 ds 502 [warn (''CONNECT '' @ hq_host q @ '': '' @ e)] e
            | (ds, Inr (up, target)) \<Rightarrow>
                (case gv_write E 0 of
                   Some _ \<Rightarrow> \<lparr> oc_sent = [], oc_dialled = ds, oc_events = [], oc_joined = None \<rparr>
                 | None \<Rightarrow> \<lparr> oc_sent = [established], oc_dialled = ds,
                     oc_events = [info (''CONNECT '' @ hq_host q @ '' -> '' @ target)],
                     oc_joined = Some \<lparr> jn_client = bu_chunks r, jn_upstream = up, jn_written = [], jn_tls = False \<rparr> \<rparr>)))"

definition strip_proxy :: "http_request \<Rightarrow> http_request" where
  "strip_proxy q = q\<lparr>hq_uri := [], hq_scheme := [], hq_url_host := [],
     hq_headers := filter (\<lambda>(k, _). k \<noteq> ''Proxy-Connection'' \<and> k \<noteq> ''Proxy-Authorization'') (hq_headers q)\<rparr>"

text \<open>The request is written to the upstream connection in its first bytes.\<close>

definition handle_http :: "crypto \<Rightarrow> http_lib \<Rightarrow> gateway \<Rightarrow> gate_env \<Rightarrow> bytes list \<Rightarrow> outcome" where
  "handle_http C H g E cs =
     (case hl_read H (new_reader cs) of Inl e \<Rightarrow> refuse E 0 [] 400 [] e
      | Inr (q, r) \<Rightarrow>
          if equal_fold (hq_method q) ''CONNECT'' then handle_connect C g E q r
          else
            let (host, port) = split_request_host q; scheme = (if hq_scheme q = [] then ''http'' else hq_scheme q) in
            if host = [] then refuse E 0 [] 400 [] ''request has no host''
            else (case gateway_dial C g E host port scheme of
                (ds, Inl e) \<Rightarrow> refuse E 0 ds 502 [warn (''HTTP '' @ host @ '': '' @ e)] e
              | (ds, Inr (up, target)) \<Rightarrow>
                  (case hl_write H (strip_proxy q) of Inl e \<Rightarrow> refuse E 0 ds 502 [] e
                   | Inr raw \<Rightarrow> \<lparr> oc_sent = [], oc_dialled = ds, oc_events = [info (''HTTP connected '' @ host @ '' -> '' @ target)],
                       oc_joined = Some \<lparr> jn_client = bu_chunks r, jn_upstream = up, jn_written = raw, jn_tls = False \<rparr> \<rparr>)))"

subsection \<open>Copying\<close>

text \<open>Two goroutines copy; the first that ends lets \<open>proxyBoth\<close> return, after which both connections are closed.\<close>

datatype flow = From_client bytes | From_upstream bytes | Client_ends | Upstream_ends

fun proxy_both :: "flow list \<Rightarrow> bytes \<times> bytes" where
  "proxy_both (From_client c # fs) = (case proxy_both fs of (up, down) \<Rightarrow> (c @ up, down))"
| "proxy_both (From_upstream c # fs) = (case proxy_both fs of (up, down) \<Rightarrow> (up, c @ down))"
| "proxy_both _ = ([], [])"

subsection \<open>Listeners and connections\<close>

text \<open>
  \<open>ps_open\<close> are the listeners whose sockets are open; an accept loop ends with its listener, or earlier when accepting
  fails after the context is cancelled. \<open>ps_closed\<close> are the connections \<open>Close\<close> has closed. A connection is a number, a
  listener its address.
\<close>

record proxy_server =
  ps_listeners :: "string list"
  ps_open :: "string list"
  ps_connections :: "nat list"
  ps_closed :: "nat list"

definition add_listener :: "string \<Rightarrow> proxy_server \<Rightarrow> proxy_server" where
  "add_listener l s = s\<lparr>ps_listeners := ps_listeners s @ [l], ps_open := l # ps_open s\<rparr>"

text \<open>\<open>Close\<close>: what it takes under the lock, the closing, and when it returns.\<close>

definition proxy_close_begin :: "proxy_server \<Rightarrow> string list \<times> nat list \<times> proxy_server" where
  "proxy_close_begin s = (ps_listeners s, ps_connections s, s\<lparr>ps_listeners := []\<rparr>)"

definition proxy_close_finish :: "string list \<Rightarrow> nat list \<Rightarrow> proxy_server \<Rightarrow> proxy_server" where
  "proxy_close_finish ls cs s = s\<lparr>ps_open := filter (\<lambda>l. l \<notin> set ls) (ps_open s), ps_closed := ps_closed s @ cs\<rparr>"

definition close_returns :: "proxy_server \<Rightarrow> bool" where
  "close_returns s \<longleftrightarrow> ps_open s = [] \<and> ps_connections s = []"

definition proxy_close :: "proxy_server \<Rightarrow> proxy_server" where
  "proxy_close s = (case proxy_close_begin s of (ls, cs, s1) \<Rightarrow> proxy_close_finish ls cs s1)"

definition start_listener :: "(string \<Rightarrow> string result) \<Rightarrow> string \<Rightarrow> string \<Rightarrow> string \<Rightarrow> proxy_server \<Rightarrow> proxy_server \<times> string list result" where
  "start_listener L what scheme addr s =
     (if addr = [] then (s, Inr [])
      else (case L addr of
          Inl e \<Rightarrow> (proxy_close s, Inl (what @ '' listen '' @ addr @ '': '' @ e))
        | Inr l \<Rightarrow> (add_listener l s, Inr [scheme @ ''://'' @ l])))"

definition start_proxy :: "(string \<Rightarrow> string result) \<Rightarrow> string \<Rightarrow> string \<Rightarrow> proxy_server \<Rightarrow> proxy_server \<times> string list result" where
  "start_proxy L socks http s =
     (case start_listener L ''SOCKS5'' ''socks5'' socks s of
        (s1, Inl e) \<Rightarrow> (s1, Inl e)
      | (s1, Inr started) \<Rightarrow>
          (case start_listener L ''HTTP proxy'' ''http'' http s1 of
             (s2, Inl e) \<Rightarrow> (s2, Inl e) | (s2, Inr started') \<Rightarrow> (s2, Inr (started @ started'))))"

datatype accepting = Accepted nat | Accept_failed error

text \<open>One turn of the loop: the state, whether it goes on, its events. A closed listener ends it.\<close>

definition accept_turn :: "string \<Rightarrow> bool \<Rightarrow> accepting \<Rightarrow> proxy_server \<Rightarrow> proxy_server \<times> bool \<times> (string \<times> string) list" where
  "accept_turn l cancelled a s =
     (if l \<notin> set (ps_open s) then (s, False, [])
      else (case a of
          Accept_failed e \<Rightarrow> if cancelled then (s, False, []) else (s, True, [warn (''proxy accept: '' @ e)])
        | Accepted c \<Rightarrow> (s\<lparr>ps_connections := List.insert c (ps_connections s)\<rparr>, True, [])))"

definition handler_ended :: "nat \<Rightarrow> proxy_server \<Rightarrow> proxy_server" where
  "handler_ended c s = s\<lparr>ps_connections := removeAll c (ps_connections s)\<rparr>"

text \<open>\<open>Start\<close> fails as a whole: no listener is left open.\<close>

lemma start_proxy_fails_clean:
  "start_proxy L socks http s = (s', Inl e) \<Longrightarrow> set (ps_open s) \<subseteq> set (ps_listeners s) \<Longrightarrow> ps_open s' = []"
  by (auto simp: start_proxy_def start_listener_def proxy_close_def proxy_close_begin_def proxy_close_finish_def
      add_listener_def filter_empty_conv split: if_splits sum.splits prod.splits)

subsection \<open>Proxy settings\<close>

definition pac :: "string \<Rightarrow> string" where
  "pac http_proxy =
     ''function FindProxyForURL(url, host) {'' @ [CHR 0x0A]
     @ ''  host = host.toLowerCase();'' @ [CHR 0x0A]
     @ ''  if (host === '' @ quoted ''knot'' @ '' || dnsDomainIs(host, '' @ quoted ''.knot'' @ '')) return '' @ quoted (''PROXY '' @ http_proxy) @ '';'' @ [CHR 0x0A]
     @ ''  return '' @ quoted ''DIRECT'' @ '';'' @ [CHR 0x0A] @ ''}'' @ [CHR 0x0A]"

definition parse_proxy_url :: "url_parser \<Rightarrow> string \<Rightarrow> string result" where
  "parse_proxy_url U raw =
     (case url_parse U raw of None \<Rightarrow> Inl ''invalid URL''
      | Some u \<Rightarrow> if url_scheme u \<noteq> ''http'' \<or> url_host u = [] then Inl ''proxy URL must be http://host:port'' else Inr (url_host u))"

subsection \<open>Where a handler dials\<close>

lemma choose_target_direct:
  "choose_target C g host port scheme = Inr (To_direct a, s) \<Longrightarrow>
    gw_direct g \<and> \<not> has_suffix (clean_host host) knot_suffix \<and> (\<exists>p. a = join_host_port (clean_host host) p)"
  by (auto simp: choose_target_def Let_def split: if_splits sum.splits)

text \<open>
  What a client asks for, read off its bytes or its parsed request. An address of SOCKS5 is four or sixteen bytes or a
  counted name; its request follows the greeting.
\<close>

definition addressed :: "byte \<Rightarrow> bytes \<Rightarrow> string \<Rightarrow> bool" where
  "addressed kind a host \<longleftrightarrow>
     (kind = 1 \<and> length a = 4 \<or> kind = 4 \<and> length a = 16) \<and> host = ip_string (map unat a) \<or>
     kind = 3 \<and> (\<exists>name. a = of_nat (length name) # name \<and> length name < 256 \<and> host = bytes_string name)"

definition request_asks :: "bytes \<Rightarrow> string \<Rightarrow> string \<Rightarrow> bool" where
  "request_asks bs host port \<longleftrightarrow>
     (\<exists>rsv kind a p rest. bs = [5, 1, rsv, kind] @ a @ put_u16 p @ rest \<and> addressed kind a host \<and> port = show_nat (unat p))"

definition socks_asks :: "bytes list \<Rightarrow> string \<Rightarrow> string \<Rightarrow> bool" where
  "socks_asks cs host port \<longleftrightarrow>
     (\<exists>methods bs. concat cs = [5, of_nat (length methods)] @ methods @ bs \<and>
        length methods < 256 \<and> 0 \<in> set methods \<and> request_asks bs host port)"

text \<open>\<open>name\<close> is the text of a host without the white space around it, in lower case and without one dot at its end.\<close>

definition named :: "string \<Rightarrow> string \<Rightarrow> bool" where
  "named host name \<longleftrightarrow> (\<exists>dot. map lower_char (trim_space host) = name @ dot \<and>
     (dot = ''.'' \<or> dot = [] \<and> (name = [] \<or> last name \<noteq> CHR ''.'')))"

definition host_and_port :: "string \<Rightarrow> string \<Rightarrow> string \<Rightarrow> string \<Rightarrow> bool" where
  "host_and_port text otherwise host port \<longleftrightarrow>
     split_host_port text = Inr (host, port) \<or> (\<exists>e. split_host_port text = Inl e) \<and> host = text \<and> port = otherwise"

text \<open>\<open>CONNECT\<close> reads the name of its host twice, and takes one under \<open>.knot\<close> only when it can end TLS itself.\<close>

definition http_asks :: "gateway \<Rightarrow> http_request \<Rightarrow> string \<Rightarrow> string \<Rightarrow> string \<Rightarrow> bool" where
  "http_asks g q name port scheme \<longleftrightarrow>
     (if equal_fold (hq_method q) ''CONNECT'' then
        scheme = ''https'' \<and>
        (\<exists>host once. host_and_port (hq_host q) ''443'' host port \<and> named host once \<and> named once name \<and>
           (has_suffix once ''.knot'' \<longrightarrow> gw_intercept g \<and> gw_has_authority g))
      else
        scheme = (if hq_scheme q = [] then ''http'' else hq_scheme q) \<and>
        (\<exists>host. host_and_port (if hq_url_host q = [] then hq_host q else hq_url_host q) [] host port \<and> host \<noteq> [] \<and> named host name))"

text \<open>Where a request for a name belongs.\<close>

definition destined :: "crypto \<Rightarrow> gateway \<Rightarrow> string \<Rightarrow> string \<Rightarrow> string \<Rightarrow> dial_target \<Rightarrow> bool" where
  "destined C g name port scheme t \<longleftrightarrow> (case t of
     To_direct a \<Rightarrow> gw_direct g \<and> \<not> has_suffix name ''.knot'' \<and>
       a = join_host_port name (if port \<noteq> [] then port else if scheme = ''https'' then ''443'' else ''80'')
   | To_overlay n s \<Rightarrow> gw_has_overlay g \<and> has_suffix name ''.knot'' \<and>
       (\<exists>r. resolve_host C name (gw_aliases g) = Inr r \<and> rs_kind r \<noteq> service_address_version \<and> n = rs_node r \<and>
         (let preferred = (if scheme = ''https'' then gw_default_https g else if scheme = ''http'' then gw_default_http g else [])
          in s = (if rs_service r = ''http'' \<and> preferred \<noteq> [] then preferred else rs_service r)))
   | To_service i \<Rightarrow> gw_has_service g \<and> has_suffix name ''.knot'' \<and>
       (\<exists>r. resolve_host C name (gw_aliases g) = Inr r \<and> rs_kind r = service_address_version \<and> i = rs_service_id r))"

lemma has_suffix_dot: "has_suffix s ''.'' \<longleftrightarrow> (\<exists>u. s = u @ ''.'')"
  by (cases s rule: rev_cases) (auto simp: has_suffix_def)

lemma named_clean_host: "named host (clean_host host)"
proof (cases "has_suffix (to_lower (trim_space host)) ''.''")
  case True
  then obtain u where "to_lower (trim_space host) = u @ ''.''" unfolding has_suffix_dot by blast
  with True show ?thesis by (auto simp: named_def clean_host_def trim_suffix_def to_lower_def)
next
  case False
  then show ?thesis
    by (cases "to_lower (trim_space host)" rule: rev_cases)
      (auto simp: named_def clean_host_def trim_suffix_def to_lower_def has_suffix_dot)
qed

lemma choose_target_destined:
  "choose_target C g host port scheme = Inr (t, s) \<Longrightarrow> destined C g (clean_host host) port scheme t"
  unfolding choose_target_def destined_def
  by (auto simp: Let_def overlay_service_def knot_suffix_def default_service_def split: if_splits sum.splits)

text \<open>Every dial of a handler is one \<open>dial\<close> of the host its client asks for.\<close>

definition dials :: "crypto \<Rightarrow> gateway \<Rightarrow> string \<Rightarrow> string \<Rightarrow> string \<Rightarrow> outcome \<Rightarrow> bool" where
  "dials C g host port scheme oc \<longleftrightarrow>
     oc_dialled oc = [] \<or> (\<exists>t. oc_dialled oc = [t] \<and> destined C g (clean_host host) port scheme t)"

lemma dialled_simps [simp]: "oc_dialled (gave_up sent) = []" "oc_dialled (refuse E k ds status ev m) = ds"
  by (simp_all add: gave_up_def refuse_def)

lemma gateway_dial_dials:
  "gateway_dial C g E host port scheme = (ds, r) \<Longrightarrow> oc_dialled oc = ds \<Longrightarrow> dials C g host port scheme oc"
  by (auto simp: gateway_dial_def dials_def dest: choose_target_destined split: sum.splits)

lemma dials_socks_connect: "dials C g host port (socks_scheme port) (socks_connect C g E host port r sent)"
  unfolding socks_connect_def
  by (auto split: prod.splits sum.splits option.splits intro: gateway_dial_dials)

lemma dials_knot_tls: "dials C g host port ''https'' (handle_knot_tls C g E host port r)"
  unfolding handle_knot_tls_def
  by (auto split: prod.splits sum.splits option.splits intro: gateway_dial_dials)

lemma put_u16_get_u16: "length p = 2 \<Longrightarrow> put_u16 (get_u16 p) = p"
proof -
  assume l: "length p = 2"
  then have "be_nat p < 65536" using be_nat_lt [of p] by simp
  with l show ?thesis by (simp add: put_u16_def get_u16_def unat_of_nat be_bytes_be_nat)
qed

lemma one_byte: "length m = 1 \<Longrightarrow> m = [hd m]"
  by (cases m) auto

lemma socks_host_asked:
  assumes "socks_host kind r = Inr (host, r')" "kind = 1 \<or> kind = 3 \<or> kind = 4"
  shows "\<exists>a. remaining r = a @ remaining r' \<and> addressed kind a host"
proof (cases "kind = 3")
  case True
  with assms(1) obtain l r1 a where b: "bread 1 r = Inr (l, r1)" "bread (unat (hd l)) r1 = Inr (a, r')"
    "host = bytes_string a"
    by (auto simp: socks_host_def split: sum.splits)
  from bread_inv [OF b(1)] bread_inv [OF b(2)]
  have r: "remaining r = l @ a @ remaining r'" "length l = 1" "length a = unat (hd l)" by auto
  have l: "l = [of_nat (length a)]" using one_byte [OF r(2)] r(3) by simp
  have "length a < 256" using r(3) unsigned_less [of "hd l", where 'a = nat] by simp
  with r(1) l b(3) True show ?thesis unfolding addressed_def by (intro exI [of _ "l @ a"]) auto
next
  case False
  with assms obtain a where "bread (if kind = 1 then 4 else 16) r = Inr (a, r')" "host = ip_string (map unat a)"
    by (auto simp: socks_host_def split: sum.splits if_splits)
  with bread_inv [OF this(1)] False assms(2) show ?thesis
    unfolding addressed_def by (intro exI [of _ a]) auto
qed

lemma socks_command_asked:
  "oc_dialled (socks_command C g E r sent) = [] \<or>
   (\<exists>host port. request_asks (remaining r) host port \<and> dials C g host port (socks_scheme port) (socks_command C g E r sent))"
proof (cases "oc_dialled (socks_command C g E r sent) = []")
  case False
  then obtain header r1 host r2 p r3 where b: "bread 4 r = Inr (header, r1)" "socks_host (header ! 3) r1 = Inr (host, r2)"
    "bread 2 r2 = Inr (p, r3)" and h: "header ! 0 = 5" "header ! 1 = 1" "header ! 3 = 1 \<or> header ! 3 = 3 \<or> header ! 3 = 4"
    and c: "socks_command C g E r sent = socks_connect C g E host (show_nat (unat (get_u16 p))) r3 sent"
    by (auto simp: socks_command_def split: sum.splits if_splits)
  note r = bread_inv [OF b(1)] bread_inv [OF b(3)]
  obtain a where a: "remaining r1 = a @ remaining r2" "addressed (header ! 3) a host"
    using socks_host_asked [OF b(2) h(3)] by blast
  have "header = [header ! 0, header ! 1, header ! 2, header ! 3]"
    using r(1) by (intro nth_equalityI) (auto simp: less_Suc_eq numeral_eq_Suc)
  then have "header = [5, 1, header ! 2, header ! 3]" using h(1,2) by simp
  then have "remaining r = [5, 1, header ! 2, header ! 3] @ a @ put_u16 (get_u16 p) @ remaining r3"
    using r a(1) put_u16_get_u16 [of p] by simp
  then have "request_asks (remaining r) host (show_nat (unat (get_u16 p)))"
    unfolding request_asks_def using a(2) by blast
  then show ?thesis unfolding c using dials_socks_connect by blast
qed simp

lemma handle_socks_asked:
  "oc_dialled (handle_socks C g E cs) = [] \<or>
   (\<exists>host port. socks_asks cs host port \<and> dials C g host port (socks_scheme port) (handle_socks C g E cs))"
proof (cases "oc_dialled (handle_socks C g E cs) = []")
  case False
  then obtain v r1 m r2 ms r3 where b: "bread 1 (new_reader cs) = Inr (v, r1)" "bread 1 r1 = Inr (m, r2)"
    "bread (unat (hd m)) r2 = Inr (ms, r3)" and h: "hd v = 5" "0 \<in> set ms"
    and c: "handle_socks C g E cs = socks_command C g E r3 [[5, 0]]"
    by (auto simp: handle_socks_def split: sum.splits if_splits option.splits)
  note r = bread_inv [OF b(1)] bread_inv [OF b(2)] bread_inv [OF b(3)]
  have v: "v = [5]" using one_byte [of v] r(1) h(1) by simp
  have m: "m = [of_nat (length ms)]" using one_byte [of m] r(2,3) by simp
  have l: "length ms < 256" using r(3) unsigned_less [of "hd m", where 'a = nat] by simp
  have "remaining (new_reader cs) = v @ m @ ms @ remaining r3"
    using conjunct1 [OF r(1)] conjunct1 [OF r(2)] conjunct1 [OF r(3)] by (simp only:)
  then have q: "concat cs = [5, of_nat (length ms)] @ ms @ remaining r3"
    by (subst (asm) v, subst (asm) m) (simp add: remaining_def new_reader_def)
  have "\<exists>host port. request_asks (remaining r3) host port \<and> dials C g host port (socks_scheme port) (handle_socks C g E cs)"
    using socks_command_asked [of C g E r3 "[[5, 0]]", folded c] False by simp
  then obtain host port where d: "request_asks (remaining r3) host port"
    "dials C g host port (socks_scheme port) (handle_socks C g E cs)" by (elim exE conjE)
  have "socks_asks cs host port" unfolding socks_asks_def
    by (intro exI [of _ ms] exI [of _ "remaining r3"] conjI q l h(2) d(1))
  with d(2) show ?thesis by blast
qed simp

lemma handle_connect_asked:
  assumes "equal_fold (hq_method q) ''CONNECT''"
  shows "oc_dialled (handle_connect C g E q r) = [] \<or>
    (\<exists>name port. http_asks g q name port ''https'' \<and>
       (\<exists>t. oc_dialled (handle_connect C g E q r) = [t] \<and> destined C g name port ''https'' t))"
proof (cases "oc_dialled (handle_connect C g E q r) = []")
  case False
  obtain host port where hp: "(case split_host_port (hq_host q) of Inr hp \<Rightarrow> hp | Inl _ \<Rightarrow> (hq_host q, ''443'')) = (host, port)"
    by fastforce
  then have asked: "host_and_port (hq_host q) ''443'' host port"
    by (auto simp: host_and_port_def split: sum.splits)
  have d: "dials C g (clean_host host) port ''https'' (handle_connect C g E q r) \<and>
      (has_suffix (clean_host host) knot_suffix \<longrightarrow> gw_intercept g \<and> gw_has_authority g)"
    using False unfolding handle_connect_def hp Let_def prod.case
    by (auto split: prod.splits sum.splits option.splits if_splits intro: gateway_dial_dials dials_knot_tls)
  then obtain t where t: "oc_dialled (handle_connect C g E q r) = [t]"
    "destined C g (clean_host (clean_host host)) port ''https'' t"
    using False unfolding dials_def by blast
  have "http_asks g q (clean_host (clean_host host)) port ''https''"
    unfolding http_asks_def using assms asked named_clean_host d by (auto simp: knot_suffix_def)
  with t show ?thesis by blast
qed simp

lemma handle_http_asked:
  "oc_dialled (handle_http C H g E cs) = [] \<or>
   (\<exists>q r name port scheme t. hl_read H (new_reader cs) = Inr (q, r) \<and> http_asks g q name port scheme \<and>
      oc_dialled (handle_http C H g E cs) = [t] \<and> destined C g name port scheme t)"
proof (cases "hl_read H (new_reader cs)")
  case (Inr p)
  obtain q r where p: "p = (q, r)" by (cases p)
  show ?thesis
  proof (cases "equal_fold (hq_method q) ''CONNECT''")
    case True
    then have c: "handle_http C H g E cs = handle_connect C g E q r" by (simp add: handle_http_def Inr p)
    show ?thesis unfolding c using handle_connect_asked [OF True, of C g E r] Inr p by blast
  next
    case False
    obtain host port where hp: "split_request_host q = (host, port)" by (cases "split_request_host q")
    then have asked: "host_and_port (if hq_url_host q = [] then hq_host q else hq_url_host q) [] host port"
      by (auto simp: host_and_port_def split_request_host_def Let_def split: sum.splits)
    let ?s = "if hq_scheme q = [] then ''http'' else hq_scheme q"
    have d: "oc_dialled (handle_http C H g E cs) = [] \<or> dials C g host port ?s (handle_http C H g E cs) \<and> host \<noteq> []"
      unfolding handle_http_def Inr p sum.case prod.case hp Let_def
      using False by (auto split: prod.splits sum.splits if_splits intro: gateway_dial_dials)
    have "http_asks g q (clean_host host) port ?s" if "host \<noteq> []"
      unfolding http_asks_def using False asked named_clean_host that by auto
    with d Inr p show ?thesis unfolding dials_def by blast
  qed
qed (simp add: handle_http_def)

text \<open>C31. A proxy client gets at most one connection, and it goes where its own request says. The bytes a SOCKS5
  client sends, however they are cut, are a greeting and a request for the host and port the target stands for; an HTTP
  client is taken at the host of its parsed request. That host, without the white space around it, in lower case and
  without one dot at its end, decides: a name under \<open>.knot\<close> is resolved and goes to the node and service, or the
  published service, it resolves to, never directly; any other name is dialled directly with the port asked for, and
  only if that is allowed. \<open>CONNECT\<close> reads the name twice, so up to two dots go, and takes one under \<open>.knot\<close> only if it
  may end TLS itself.\<close>

theorem gateway_dials_sound:
  "(oc_dialled (handle_socks C g E cs) = [] \<or>
     (\<exists>host port name t. socks_asks cs host port \<and> named host name \<and>
        oc_dialled (handle_socks C g E cs) = [t] \<and> destined C g name port (socks_scheme port) t)) \<and>
   (oc_dialled (handle_http C H g E cs) = [] \<or>
     (\<exists>q r name port scheme t. hl_read H (new_reader cs) = Inr (q, r) \<and> http_asks g q name port scheme \<and>
        oc_dialled (handle_http C H g E cs) = [t] \<and> destined C g name port scheme t))"
  using handle_socks_asked [of C g E cs] handle_http_asked [of C H g E cs] named_clean_host
  unfolding dials_def by blast

text \<open>Only one dot goes: with two, a name under \<open>.knot\<close> is dialled directly, and leaves the overlay's protection.\<close>

lemma two_dots_leave_the_overlay:
  "gw_direct g \<Longrightarrow> choose_target C g ''shop.knot..'' ''80'' ''http'' = Inr (To_direct ''shop.knot.:80'', ''shop.knot.:80'')"
proof -
  have "clean_host ''shop.knot..'' = ''shop.knot.''" "has_suffix ''shop.knot.'' knot_suffix = False"
    "join_host_port ''shop.knot.'' ''80'' = ''shop.knot.:80''" by code_simp+
  then show "gw_direct g \<Longrightarrow> ?thesis" by (simp add: choose_target_def Let_def)
qed

end
