(* ===== verification/Gateway_Props.thy ===== *)
theory Gateway_Props
  imports Gateway
begin

section \<open>The SOCKS5 client and server together\<close>

text \<open>
  The client of \<open>transport/manager.go\<close> and the server of \<open>proxy/gateway.go\<close>: any chunks the greeting and the request
  arrive in are understood as they were meant, and the client accepts the server's answers.
\<close>

subsection \<open>Addresses as bytes\<close>

lemma all_some_eq: "all_some xs = Some ys \<Longrightarrow> xs = map Some ys"
  by (induction xs arbitrary: ys rule: all_some.induct) auto

lemma parse_octet_byte: "parse_octet s = Some n \<Longrightarrow> n < 256"
  by (auto simp: parse_octet_def split: if_splits option.splits)

lemma hex_val_small: "hex_val c = Some d \<Longrightarrow> d < 16"
  by (auto simp: hex_val_def Let_def split: if_splits)

lemma parse_hex_acc_small: "parse_hex_acc a s = Some n \<Longrightarrow> n < (a + 1) * 16 ^ length s"
proof (induction s arbitrary: a)
  case (Cons c s)
  then obtain d where d: "hex_val c = Some d" "n < (16 * a + d + 1) * 16 ^ length s"
    by (auto split: option.splits)
  have "16 * a + d + 1 \<le> (a + 1) * 16" using hex_val_small [OF d(1)] by simp
  then have "(16 * a + d + 1) * 16 ^ length s \<le> (a + 1) * 16 * 16 ^ length s" by (rule mult_le_mono1)
  with d(2) show ?case by (simp only: length_Cons power_Suc mult.assoc)
qed simp

lemma parse_group_bytes: "parse_group s = Some bs \<Longrightarrow> \<forall>b \<in> set bs. b < 256"
proof -
  assume p: "parse_group s = Some bs"
  then obtain n where n: "parse_hex_acc 0 s = Some n" "bs = [n div 256, n mod 256]" "length s \<le> 4"
    by (auto simp: parse_group_def split: if_splits)
  have "(16 :: nat) ^ length s \<le> 16 ^ 4" using n(3) by (intro power_increasing) auto
  with parse_hex_acc_small [OF n(1)] n(2) show ?thesis by (simp add: less_mult_imp_div_less)
qed

lemma parse_ipv4_bytes: "parse_ipv4 s = Some bs \<Longrightarrow> length bs = 4 \<and> (\<forall>b \<in> set bs. b < 256)"
proof -
  assume p: "parse_ipv4 s = Some bs"
  then have m: "map parse_octet (split_on (CHR ''.'') s) = map Some bs" "length (split_on (CHR ''.'') s) = 4"
    by (auto simp: parse_ipv4_def Let_def dest: all_some_eq split: if_splits)
  have "b < 256" if b: "b \<in> set bs" for b
  proof -
    from b have "Some b \<in> set (map parse_octet (split_on (CHR ''.'') s))" unfolding m(1) by simp
    then show ?thesis using parse_octet_byte by auto
  qed
  with arg_cong [OF m(1), of length] m(2) show ?thesis by simp
qed

lemma parse_groups_bytes: "parse_groups v s = Some bs \<Longrightarrow> \<forall>b \<in> set bs. b < 256"
proof -
  assume p: "parse_groups v s = Some bs"
  show ?thesis
  proof (cases "s = []")
    case True
    with p show ?thesis by (simp add: parse_groups_def)
  next
    case False
    let ?parts = "split_on (CHR '':'') s"
    let ?l = "if v \<and> CHR ''.'' \<in> set (last ?parts) then parse_ipv4 (last ?parts) else parse_group (last ?parts)"
    from p False obtain gs where g: "all_some (map parse_group (butlast ?parts) @ [?l]) = Some gs" "bs = concat gs"
      unfolding parse_groups_def Let_def by auto
    have "\<forall>b \<in> set x. b < 256" if x: "x \<in> set gs" for x
    proof -
      from x have "Some x \<in> set (map Some gs)" by simp
      then have "Some x \<in> set (map parse_group (butlast ?parts)) \<or> ?l = Some x"
        unfolding all_some_eq [OF g(1), symmetric] by auto
      then have "(\<exists>p. parse_group p = Some x) \<or> (\<exists>p. parse_ipv4 p = Some x)"
        by (auto split: if_splits dest: sym [of "Some x"])
      then show ?thesis using parse_group_bytes parse_ipv4_bytes by blast
    qed
    with g(2) show ?thesis by auto
  qed
qed

lemma parse_ipv6_bytes: "parse_ipv6 s = Some ip \<Longrightarrow> length ip = 16 \<and> (\<forall>b \<in> set ip. b < 256)"
  by (fastforce simp: parse_ipv6_def split: option.splits if_splits prod.splits dest: parse_groups_bytes)

lemma parse_ip_bytes: "parse_ip s = Some ip \<Longrightarrow> length ip = 16 \<and> (\<forall>b \<in> set ip. b < 256)"
  using parse_ipv6_bytes [of s ip]
  by (auto simp: parse_ip_def mapped_prefix_def dest!: parse_ipv4_bytes split: option.splits if_splits)

lemma map_unat_of_nat: "\<forall>b \<in> set xs. b < 256 \<Longrightarrow> map unat (map of_nat xs :: bytes) = xs"
  by (induction xs) (auto simp: unat_of_nat)

subsection \<open>The request on the server\<close>

text \<open>The name of the target the server gets: an address in its canonical form.\<close>

definition seen_host :: "string \<Rightarrow> string" where
  "seen_host host = (case parse_ip host of None \<Rightarrow> host | Some ip \<Rightarrow> ip_string ip)"

lemma socks_host_reads:
  assumes a: "socks_address host = Inr (k # body)" and r: "remaining r = body @ rest"
  shows "k \<in> {1, 3, 4} \<and> (\<exists>r'. socks_host k r = Inr (seen_host host, r') \<and> remaining r' = rest)"
proof (cases "parse_ip host")
  case None
  with a have k: "k = 3" "body = of_nat (length host) # string_bytes host" "length host \<le> 255"
    by (auto simp: socks_address_def split: if_splits)
  from r k(2) have "remaining r = [of_nat (length host)] @ string_bytes host @ rest" by simp
  from bread_append [OF this, of 1] obtain r1 where r1: "bread 1 r = Inr ([of_nat (length host)], r1)"
    "remaining r1 = string_bytes host @ rest" by auto
  from bread_append [OF r1(2), of "length host"] obtain r2 where r2: "bread (length host) r1 = Inr (string_bytes host, r2)"
    "remaining r2 = rest" by auto
  have "unat (of_nat (length host) :: byte) = length host" using k(3) by (simp add: unat_of_nat)
  with r1 r2 show ?thesis by (simp add: k(1) socks_host_def seen_host_def None)
next
  case (Some ip)
  note b = parse_ip_bytes [OF Some]
  show ?thesis
  proof (cases "take 12 ip = mapped_prefix")
    case True
    with a Some have k: "k = 1" "body = map of_nat (drop 12 ip)" by (simp_all add: socks_address_def)
    obtain r' where r': "bread 4 r = Inr (map of_nat (drop 12 ip), r')" "remaining r' = rest"
      using bread_append [OF r, of 4] k(2) b by auto
    have "map unat (map of_nat (drop 12 ip) :: bytes) = drop 12 ip"
      using b in_set_dropD [of _ 12 ip] by (intro map_unat_of_nat) auto
    moreover have "ip_string (drop 12 ip) = ip_string ip" using b True by (simp add: ip_string_def)
    ultimately show ?thesis using r' by (simp add: k(1) socks_host_def seen_host_def Some del: map_map)
  next
    case False
    with a Some have k: "k = 4" "body = map of_nat ip" by (simp_all add: socks_address_def)
    obtain r' where r': "bread 16 r = Inr (map of_nat ip, r')" "remaining r' = rest"
      using bread_append [OF r, of 16] k(2) b by auto
    have "map unat (map of_nat ip :: bytes) = ip" using b by (intro map_unat_of_nat) auto
    then show ?thesis using r' by (simp add: k(1) socks_host_def seen_host_def Some del: map_map)
  qed
qed

lemma socks_request_parts:
  assumes "socks_request target = Inr req"
  obtains host port_text port a where "split_host_port target = Inr (host, port_text)" "atoi port_text = Some port"
    "1 \<le> port" "port \<le> 65535" "socks_address host = Inr a" "req = [5, 1, 0] @ a @ put_u16 (of_int port)"
  using assms by (fastforce simp: socks_request_def split: sum.splits prod.splits option.splits if_splits)

lemma socks_address_Cons: "socks_address host = Inr a \<Longrightarrow> \<exists>k body. a = k # body"
  by (auto simp: socks_address_def split: option.splits if_splits)

lemma of_int_port: "1 \<le> port \<Longrightarrow> port \<le> 65535 \<Longrightarrow> unat (of_int port :: 16 word) = nat port"
  by (simp add: unat_eq_nat_uint uint_word_of_int take_bit_eq_mod)

lemma socks_greeting_parts:
  "\<exists>ms. socks_greeting ep = [5, of_nat (length ms)] @ ms \<and> 0 \<in> set ms \<and> length ms \<le> 2"
  by (auto simp: socks_greeting_def Let_def)

lemma handle_socks_request:
  assumes cs: "concat cs = socks_greeting ep @ req @ rest" and req: "socks_request target = Inr req"
    and t: "split_host_port target = Inr (host, port_text)" "atoi port_text = Some port"
    and w: "gv_write E 0 = None"
  shows "\<exists>r. handle_socks C g E cs = socks_connect C g E (seen_host host) (show_nat (nat port)) r [[5, 0]] \<and> remaining r = rest"
proof -
  obtain a where p: "1 \<le> port" "port \<le> 65535" "socks_address host = Inr a" "req = [5, 1, 0] @ a @ put_u16 (of_int port)"
    using req t by (elim socks_request_parts) auto
  obtain k body where a: "a = k # body" using socks_address_Cons [OF p(3)] by blast
  obtain ms where ms: "socks_greeting ep = [5, of_nat (length ms)] @ ms" "0 \<in> set ms" "length ms \<le> 2"
    using socks_greeting_parts by blast
  have n: "unat (of_nat (length ms) :: byte) = length ms" using ms(3) by (simp add: unat_of_nat)
  have "remaining (new_reader cs) = [5] @ [of_nat (length ms)] @ ms @ req @ rest"
    using cs ms(1) by (simp add: remaining_def new_reader_def)
  from bread_append [OF this, of 1] obtain r1 where r1: "bread 1 (new_reader cs) = Inr ([5], r1)"
    "remaining r1 = [of_nat (length ms)] @ ms @ req @ rest" by auto
  from bread_append [OF r1(2), of 1] obtain r2 where r2: "bread 1 r1 = Inr ([of_nat (length ms)], r2)"
    "remaining r2 = ms @ req @ rest" by auto
  from bread_append [OF r2(2), of "length ms"] obtain r3 where r3: "bread (length ms) r2 = Inr (ms, r3)"
    "remaining r3 = req @ rest" by auto
  have "remaining r3 = [5, 1, 0, k] @ body @ put_u16 (of_int port) @ rest" using r3(2) p(4) a by simp
  from bread_append [OF this, of 4] obtain r4 where r4: "bread 4 r3 = Inr ([5, 1, 0, k], r4)"
    "remaining r4 = body @ put_u16 (of_int port) @ rest" by auto
  from socks_host_reads [OF p(3) [unfolded a] r4(2)] obtain r5 where r5: "k \<in> {1, 3, 4}"
    "socks_host k r4 = Inr (seen_host host, r5)" "remaining r5 = put_u16 (of_int port) @ rest" by blast
  from bread_append [OF r5(3), of 2] obtain r6 where r6: "bread 2 r5 = Inr (put_u16 (of_int port), r6)" "remaining r6 = rest"
    by auto
  have cmd: "socks_command C g E r3 [[5, 0]] = socks_connect C g E (seen_host host) (show_nat (nat port)) r6 [[5, 0]]"
    using r4(1) r5(1,2) r6(1) of_int_port [OF p(1,2)] by (auto simp: socks_command_def)
  have "handle_socks C g E cs = socks_command C g E r3 [[5, 0]]"
    using r1(1) r2(1) r3(1) ms(2) n w by (simp add: handle_socks_def)
  with cmd r6(2) show ?thesis by metis
qed

lemma socks_handshake_accepts:
  assumes cs: "concat cs = [5, 0] @ socks_code 0" and w: "\<forall>k. w k = None" and req: "socks_request target = Inr req"
  shows "\<exists>cs'. socks_handshake w ep target cs = ([socks_greeting ep, req], Inr cs') \<and> concat cs' = []"
proof -
  obtain cs1 where c1: "chunk_read 2 cs = Inr ([5, 0], cs1)" "concat cs1 = socks_code 0"
    using chunk_read_ok [of 2 cs] cs by (auto simp: numeral_2_eq_2)
  have "remaining (new_reader cs1) = [5, 0, 0, 1] @ [0, 0, 0, 0, 0, 0]"
    using c1(2) by (simp add: remaining_def new_reader_def socks_code_def)
  from bread_append [OF this, of 4] obtain r1 where r1: "bread 4 (new_reader cs1) = Inr ([5, 0, 0, 1], r1)"
    "remaining r1 = [0, 0, 0, 0, 0, 0] @ []" by auto
  from bread_append [OF r1(2), of 6] obtain r2 where r2: "bread 6 r1 = Inr ([0, 0, 0, 0, 0, 0], r2)" "remaining r2 = []"
    by auto
  have "socks_reply cs1 = Inr (bu_chunks r2)" using r1(1) r2(1) by (simp add: socks_reply_def)
  with c1(1) w req r2(2) show ?thesis
    by (simp add: socks_handshake_def socks_finish_def remaining_def)
qed

text \<open>C32. The SOCKS5 client of the transports and the server of the gateway understand each other: however the bytes of
  the client are cut into chunks, the server dials the target the client asked for, an address in its canonical
  spelling, and joins the two; and however its answers are cut, the client takes the connection, of which nothing is lost.\<close>

theorem socks_client_server_agree:
  assumes "socks_request target = Inr req" "split_host_port target = Inr (host, port_text)" "atoi port_text = Some port"
    and "concat cs = socks_greeting ep @ req" "gv_write E 0 = None" "gv_write E 1 = None"
    and "gateway_dial C g E (seen_host host) (show_nat (nat port)) (socks_scheme (show_nat (nat port))) = (ds, Inr (up, name))"
    and "concat answers = concat (oc_sent (handle_socks C g E cs))" "\<forall>k. w k = None"
  shows "oc_dialled (handle_socks C g E cs) = ds \<and>
    (\<exists>j. oc_joined (handle_socks C g E cs) = Some j \<and> jn_upstream j = up \<and> concat (jn_client j) = []) \<and>
    (\<exists>cs'. socks_handshake w ep target answers = ([socks_greeting ep, req], Inr cs') \<and> concat cs' = [])"
proof -
  obtain r where r: "handle_socks C g E cs = socks_connect C g E (seen_host host) (show_nat (nat port)) r [[5, 0]]"
    "remaining r = []"
    using handle_socks_request [OF _ assms(1-3,5), of cs ep "[]"] assms(4) by auto
  then have s: "oc_sent (handle_socks C g E cs) = [[5, 0], socks_code 0]"
    using assms(6,7) by (simp add: socks_connect_def)
  then have "concat answers = [5, 0] @ socks_code 0" using assms(8) by simp
  from socks_handshake_accepts [OF this assms(9,1)] r assms(6,7) show ?thesis
    by (simp add: socks_connect_def remaining_def)
qed

definition local_gateway :: gateway where
  "local_gateway = \<lparr> gw_aliases = [], gw_direct = True, gw_default_http = [], gw_default_https = [], gw_has_overlay = False,
     gw_has_service = False, gw_has_authority = False, gw_intercept = False \<rparr>"

definition local_env :: gate_env where
  "local_env = \<lparr> gv_dial = (\<lambda>_. Inr [[9]]), gv_write = (\<lambda>_. None), gv_certificate = (\<lambda>_. None), gv_tls = None \<rparr>"

lemma local_host: "clean_host ''127.0.0.1'' = ''127.0.0.1''" "has_suffix ''127.0.0.1'' knot_suffix = False"
    "join_host_port ''127.0.0.1'' ''80'' = ''127.0.0.1:80''"
  by code_simp+

lemma local_dial: "gateway_dial toy local_gateway local_env ''127.0.0.1'' ''80'' ''http'' =
    ([To_direct ''127.0.0.1:80''], Inr ([[9]], ''127.0.0.1:80''))"
  by (simp add: gateway_dial_def choose_target_def Let_def local_host local_gateway_def local_env_def)

lemma local_request: "socks_request ''127.0.0.1:80'' = Inr [5, 1, 0, 1, 127, 0, 0, 1, 0, 80]"
  by code_simp

lemma local_split: "split_host_port ''127.0.0.1:80'' = Inr (''127.0.0.1'', ''80'')" "atoi ''80'' = Some 80"
    "seen_host ''127.0.0.1'' = ''127.0.0.1''" "show_nat (nat 80) = ''80''" "socks_scheme ''80'' = ''http''"
  by code_simp+

text \<open>A client without credentials at the local gateway.\<close>

definition local_endpoint :: transport_endpoint where
  "local_endpoint = \<lparr> te_name = ''tor'', te_type = ''socks5'', te_endpoint = ''127.0.0.1:9050'', te_username = [], te_password = [],
     te_priority = 0, te_enabled = True \<rparr>"

definition local_chunks :: "bytes list" where
  "local_chunks = [[5], [1, 0, 5, 1], [0, 1, 127, 0, 0, 1, 0], [80]]"

lemma local_chunks_concat: "concat local_chunks = socks_greeting local_endpoint @ [5, 1, 0, 1, 127, 0, 0, 1, 0, 80]"
  by (simp add: local_chunks_def socks_greeting_def local_endpoint_def)

lemma local_outcome: "\<exists>r. handle_socks toy local_gateway local_env local_chunks =
    socks_connect toy local_gateway local_env ''127.0.0.1'' ''80'' r [[5, 0]] \<and> remaining r = []"
  using handle_socks_request [OF _ local_request local_split(1,2), of local_chunks local_endpoint "[]" local_env toy local_gateway]
    local_chunks_concat local_split(3,4) by (simp add: local_env_def)

lemma local_outcome_parts:
  "oc_dialled (handle_socks toy local_gateway local_env local_chunks) = [To_direct ''127.0.0.1:80'']"
  "oc_sent (handle_socks toy local_gateway local_env local_chunks) = [[5, 0], socks_code 0]"
  using local_outcome local_dial local_split(5) by (auto simp: socks_connect_def local_env_def)

lemma gateway_dials_sound_witness:
  "oc_dialled (handle_socks toy local_gateway local_env local_chunks) = [To_direct ''127.0.0.1:80''] \<and>
    (\<exists>host port name. socks_asks local_chunks host port \<and> named host name \<and>
       destined toy local_gateway name port (socks_scheme port) (To_direct ''127.0.0.1:80''))"
  using conjunct1 [OF gateway_dials_sound [of toy local_gateway local_env local_chunks]] local_outcome_parts(1) by simp

lemma socks_client_server_agree_witness:
  "oc_dialled (handle_socks toy local_gateway local_env local_chunks) = [To_direct ''127.0.0.1:80''] \<and>
    (\<exists>cs'. socks_handshake (\<lambda>_. None) local_endpoint ''127.0.0.1:80'' [[5], 0 # socks_code 0] =
      ([socks_greeting local_endpoint, [5, 1, 0, 1, 127, 0, 0, 1, 0, 80]], Inr cs') \<and> concat cs' = [])"
  using socks_client_server_agree [OF local_request local_split(1,2) local_chunks_concat, where C = toy and g = local_gateway
      and E = local_env and w = "\<lambda>_. None" and answers = "[[5], 0 # socks_code 0]"
      and ds = "[To_direct ''127.0.0.1:80'']" and up = "[[9]]" and name = "''127.0.0.1:80''"]
    local_dial local_split(3-5) local_outcome_parts(2)
  by (simp add: local_env_def)

subsection \<open>What is lost\<close>

text \<open>What arrives in one chunk of at most 4096 bytes with the end of a handshake is in the buffered reader when it is
  dropped: the client loses what the destination says first, the server what its client sends at once.\<close>

lemma buffered_read_take: "n \<le> length buf \<Longrightarrow> buffered_read n buf cs = Inr (take n buf, \<lparr> bu_buf = drop n buf, bu_chunks = cs \<rparr>)"
  by (simp add: buffered_read.simps)

lemma buffered_read_fill: "0 < n \<Longrightarrow> n \<le> length c \<Longrightarrow> length c \<le> 4096 \<Longrightarrow>
    buffered_read n [] (c # cs) = Inr (take n c, \<lparr> bu_buf = drop n c, bu_chunks = cs \<rparr>)"
  by (subst buffered_read.simps) (auto simp: buffered_read_take buffer_size_def)

lemma socks_reply_swallows:
  "length early \<le> 4000 \<Longrightarrow> socks_reply ((socks_code 0 @ early) # cs) = Inr cs"
  by (simp add: socks_reply_def bread_def new_reader_def buffered_read_fill buffered_read_take socks_code_def)

lemma server_swallows:
  "length early \<le> 4000 \<Longrightarrow>
    oc_joined (handle_socks toy local_gateway local_env [[5, 1, 0], [5, 1, 0, 1, 127, 0, 0, 1, 0, 80] @ early]) =
      Some \<lparr> jn_client = [], jn_upstream = [[9]], jn_written = [], jn_tls = False \<rparr>"
proof -
  assume "length early \<le> 4000"
  have ip: "ip_string [127, 0, 0, Suc 0] = ''127.0.0.1''" by code_simp
  have port: "unat (get_u16 [0, 80]) = 80" by code_simp
  show ?thesis
    using \<open>length early \<le> 4000\<close> local_dial local_split(4,5)
    by (simp add: handle_socks_def socks_command_def bread_def new_reader_def buffered_read_fill buffered_read_take
        socks_host_def ip port socks_connect_def local_env_def)
qed

text \<open>A connection accepted after \<open>Close\<close> has looked at the connections is not closed, and \<open>Close\<close> waits for its handler.\<close>

lemma close_misses_accepted:
  assumes "l \<in> set (ps_open s)" "c \<notin> set (ps_closed s)" "c \<notin> set (ps_connections s)"
  shows "case proxy_close_begin s of (ls, cs, s1) \<Rightarrow> case accept_turn l False (Accepted c) s1 of (s2, _, _) \<Rightarrow>
    let s3 = proxy_close_finish ls cs s2 in c \<notin> set (ps_closed s3) \<and> \<not> close_returns s3"
  using assms by (simp add: proxy_close_begin_def accept_turn_def proxy_close_finish_def close_returns_def)

text \<open>Without that, closing closes every connection, and returns once their handlers have ended.\<close>

lemma close_closes_all:
  assumes "set (ps_open s) \<subseteq> set (ps_listeners s)"
  shows "case proxy_close_begin s of (ls, cs, s1) \<Rightarrow> let s2 = proxy_close_finish ls cs s1 in
    set (ps_connections s2) \<subseteq> set (ps_closed s2) \<and> ps_open s2 = [] \<and>
    close_returns (foldl (\<lambda>s c. handler_ended c s) s2 (ps_connections s2))"
proof -
  have f: "ps_connections (foldl (\<lambda>s c. handler_ended c s) s0 xs) = filter (\<lambda>c. c \<notin> set xs) (ps_connections s0) \<and>
      ps_open (foldl (\<lambda>s c. handler_ended c s) s0 xs) = ps_open s0" for s0 :: proxy_server and xs
    by (induction xs arbitrary: s0) (auto simp: handler_ended_def removeAll_filter_not_eq intro: filter_cong)
  have "filter (\<lambda>l. l \<notin> set (ps_listeners s)) (ps_open s) = []" using assms by (auto simp: filter_empty_conv)
  then show ?thesis
    by (simp add: proxy_close_begin_def proxy_close_finish_def close_returns_def f)
qed

text \<open>A client that closes its sending side after its request never sees the answer: copying stops with the first direction.\<close>

lemma half_close_drops_answer:
  "proxy_both [From_client request, Client_ends, From_upstream answer, Upstream_ends] = (request, [])"
  by simp

end
