(* ===== verification/Spec2Isabelle.thy ===== *)
theory Spec2Isabelle
  imports Router Naming Descriptor Session Config Discovery System Mailbox_Props Gateway_Props
begin

text \<open>
  A model of KnotRoute, an overlay network written in Go: nodes that keep authenticated connections to
  peers, flood signed link-state announcements, compute routes, forward packets, build onion circuits,
  publish and look up service descriptors, and connect clients with services through introduction points
  and rendezvous.

  \<^bold>\<open>The parts and how they interact.\<close> A node (\<open>internal/overlay/node.go\<close>) owns a registry of peers. A frame
  that arrives from a peer is an announcement, a packet, a circuit cell, or peer exchange. Announcements go
  to the table the router (\<open>internal/router\<close>) computes routes from; packets are forwarded along these routes or,
  for the node itself, go to streams (\<open>stream.go\<close>) or the directory (\<open>directory.go\<close>); cells go to circuits
  (\<open>circuit.go\<close>), which open streams to internal services (\<open>rendezvous.go\<close>). Everything that is sent is one
  of the formats of \<open>internal/protocol\<close>, signed or sealed with the keys of \<open>internal/identity\<close>,
  \<open>serviceidentity\<close> and \<open>overlay/crypto.go\<close>. Peers are found by \<open>internal/discovery\<close>. Mailboxes
  (\<open>pkg/knotmailbox\<close>) store sealed messages for identities of their own. Connections to peers are dialled through
  \<open>internal/transport\<close>; programs of the user reach services through the local proxies of \<open>internal/proxy\<close>.

  \<^bold>\<open>Theories.\<close>
  \<^item> \<open>Prelude\<close>, \<open>Go_Lib\<close>, \<open>Encoding\<close>, \<open>Json\<close>, \<open>Json_Fields\<close>, \<open>Net_Lib\<close>: machine types, what the sources use
    of the Go library (\<open>strings\<close>, \<open>strconv\<close>, \<open>sort\<close>, \<open>encoding/*\<close>, \<open>net\<close>), with round trips. The interfaces
    shared by all components are here: \<open>codec\<close> and \<open>frame_codec\<close> (a reader gives back what a writer wrote)
    and \<open>strict_order\<close> (comparison functions and sorting); each is interpreted by every format, text form
    and comparison of the program.
  \<^item> \<open>Crypto_Prims\<close>: the cryptographic packages as a record of functions, the laws relied on (\<open>aead_ok\<close>,
    \<open>dh_ok\<close>, \<open>signs\<close>), a concrete record that satisfies them; clock values.
  \<^item> \<open>Ids\<close>, \<open>Identity\<close>: \<open>internal/nodeid\<close>, \<open>serviceid\<close>, \<open>networkid\<close>, \<open>identity\<close>, \<open>serviceidentity\<close>.
  \<^item> \<open>Wire\<close>, \<open>Control\<close>, \<open>Sizes\<close>: \<open>internal/protocol\<close>; bounds on the size of encoded messages.
  \<^item> \<open>Router\<close>: \<open>internal/router\<close>. \<open>Naming\<close>: \<open>internal/naming\<close>. \<open>Descriptor\<close>: \<open>internal/directory\<close> and
    \<open>internal/invite\<close>. \<open>Session\<close>: \<open>overlay/crypto.go\<close> and the sealing functions, with the interface
    \<open>seq_channel\<close> of numbered sealing. \<open>Config\<close>: \<open>internal/config\<close>. \<open>Discovery\<close>: \<open>internal/discovery\<close>.
  \<^item> \<open>Node\<close>, \<open>Node_Inv\<close>, \<open>Node_Props\<close>: \<open>overlay/node.go\<close>, \<open>peer.go\<close>, \<open>discovery.go\<close>.
  \<^item> \<open>Circuit\<close>, \<open>Circuit_Inv\<close>, \<open>Circuit_Props\<close>: \<open>overlay/circuit.go\<close>.
  \<^item> \<open>Directory\<close>, \<open>Directory_Inv\<close>, \<open>Directory_Props\<close>: \<open>overlay/directory.go\<close>.
  \<^item> \<open>Stream\<close>, \<open>Stream_Inv\<close>, \<open>Stream_Props\<close>: \<open>overlay/stream.go\<close>, \<open>forward.go\<close>.
  \<^item> \<open>Rendezvous_Crypto\<close>, \<open>Rendezvous\<close>, \<open>Rendezvous_Props\<close>: \<open>overlay/rendezvous.go\<close>,
    \<open>rendezvous_crypto.go\<close>, \<open>local_service.go\<close>.
  \<^item> \<open>System\<close>: all components of a node in one state, every handler, timer and completion of a wait as a step.
  \<^item> \<open>Mailbox\<close>, \<open>Mailbox_Store\<close>, \<open>Mailbox_Server\<close>, \<open>Mailbox_Props\<close>: \<open>pkg/knotmailbox\<close>. The Go interface
    \<open>Store\<close> is the record \<open>mail_store\<close>, its contract the locale \<open>mail_store_laws\<close>, interpreted by the file store.
  \<^item> \<open>Transport\<close>: \<open>internal/transport\<close>, reading of connections that deliver chunks, the SOCKS5 client, the order
    of transports. \<open>Gateway\<close>, \<open>Gateway_Props\<close>: \<open>internal/proxy\<close>, the SOCKS5 and HTTP proxies; that its SOCKS5
    server and the client agree, what is dialled, and where bytes are lost.

  A component is a record that extends the record of the components below it, so that an operation of a lower
  component runs on the state of the whole node; the function names are those of the code in lower case. Go
  maps that are iterated are association lists whose order stands for one iteration; pointers that outlive a
  map entry are positions of lists that only grow. Handlers run to their end (mutexes are not modelled); a
  goroutine that waits is a start step and a completion step. Time, random bytes, the outcome of a write or a
  dial, and answers of the file system are arguments.

  \<^bold>\<open>What the lemmas show.\<close> Per component, the \<open>_Inv\<close> theories prove invariants kept by every operation and the
  \<open>_Props\<close> theories what it promises: routes are sound, shortest and independent of iteration order; signed
  messages survive their encoding and verify; announcements are flooded once; the two ends of a connection, a
  stream, a circuit hop or a rendezvous agree on the connection and its keys; streams and circuits refine
  queues; directories converge. In \<open>System\<close> the invariants of all components hold together in every reachable
  state (\<open>system_step\<close>, \<open>system_reachable\<close>), and stopping a node closes everything. Theorems that name a defect
  (\<open>lookup_takes_other_service\<close> and lemmas such as \<open>second_extend_leaks\<close>, \<open>same_direction_disagrees\<close>,
  \<open>put_escapes\<close> and \<open>two_dots_leave_the_overlay\<close>) show that the code allows it.

  \<^bold>\<open>Bounds and fuel.\<close> Integers the code keeps at 32 or 64 bits are words; Go's \<open>int\<close> is an integer, range-checked
  where it is read from JSON. The parser of JSON takes the length of its input as fuel, which its round-trip
  lemma shows is enough for every printed text. The nested closes of peers in \<open>Node\<close> are a stack of
  tasks that terminates by the number of open connections. Loops that draw random identifiers until one is
  free take the list of draws and are shown to end exactly when one draw is free. \<open>hkdf_expand\<close> terminates by the
  bytes still missing.

  \<^bold>\<open>Not modelled.\<close> Sockets, TLS, timers, goroutine scheduling and the HTTP transport (events of the environment);
  the configuration file; the status page and dashboard; the certificate authority (\<open>internal/certauth\<close>), which calls \<open>crypto/x509\<close>; the client
  runtime and the mobile binding, which wire components
  together; the application libraries \<open>pkg/knotapp\<close>, \<open>knotclient\<close>, \<open>knotserver\<close>; the operations and social stores;
  the programs under \<open>cmd\<close>, which read flags and start servers. The manifest lists each with its reason. Two
  nodes composed are two states whose messages are handed over by the theorem; there is no global network state.
\<close>

end
